(* ===== verification/Netlab_Prelude.thy ===== *)
theory Netlab_Prelude
  imports Main "HOL-Library.Word"
begin

text \<open>
  Shared vocabulary of the development: the integer types of \<open>include/types.h\<close>, the faults a C
  function can run into, raw little-endian memory access on byte buffers, the byte-order functions
  of the C library, and the list and word lemmas the components share.

  Packets are byte buffers (\<open>u8 list\<close>).  The code casts a \<open>char *\<close> to a packed struct and reads
  its fields; here a field is read with \<open>ld8\<close>, \<open>ld16\<close>, \<open>ld32\<close> at its byte offset and written with
  \<open>st8\<close>, \<open>st16\<close>, \<open>st32\<close>.  The machine is little endian (the branch of the bit-field conditionals
  the Makefiles build on), so the byte-order functions \<open>htons\<close>, \<open>htonl\<close> swap bytes.
\<close>

unbundle bit_operations_syntax

type_synonym u8 = "8 word"
type_synonym u16 = "16 word"
type_synonym u32 = "32 word"
type_synonym u64 = "64 word"
type_synonym bytes = "u8 list"

named_theorems bytes_simps
named_theorems wf_intros

section \<open>Faults\<close>

text \<open>
  What a C function can do besides returning: dereference a null pointer, touch memory outside a
  buffer, use a variable it never wrote, shift by the width of the operand, use
  a released object, unlink a list node twice, fail an assertion, exit the
  process, or go to sleep on a condition variable that nobody has signalled.
\<close>

datatype fault = NullDeref | OutOfBounds | Uninitialised | Undefined | UseAfterFree | StaleNode
  | AssertFailed | Exited | Sleeps

type_synonym 'a res = "fault + 'a"

definition bind_res :: "'a res \<Rightarrow> ('a \<Rightarrow> 'b res) \<Rightarrow> 'b res" where
  "bind_res r f = (case r of Inl e \<Rightarrow> Inl e | Inr x \<Rightarrow> f x)"

lemma bind_res_simps [simp]:
  "bind_res (Inl e) f = Inl e"
  "bind_res (Inr x) f = f x"
  by (simp_all add: bind_res_def)

lemma bind_res_Inr_conv: "bind_res r f = Inr y \<longleftrightarrow> (\<exists>x. r = Inr x \<and> f x = Inr y)"
  by (cases r) auto

lemma bind_res_assoc: "bind_res (bind_res r f) g = bind_res r (\<lambda>x. bind_res (f x) g)"
  by (cases r) auto

primrec fold_res :: "('a \<Rightarrow> 's \<Rightarrow> 's res) \<Rightarrow> 'a list \<Rightarrow> 's \<Rightarrow> 's res" where
  "fold_res f [] s = Inr s"
| "fold_res f (x # xs) s = bind_res (f x s) (fold_res f xs)"

lemma fold_res_append: "fold_res f (xs @ ys) s = bind_res (fold_res f xs s) (fold_res f ys)"
  by (induction xs arbitrary: s) (simp_all add: bind_res_def split: sum.split)

lemma fold_res_invariant:
  assumes "fold_res f xs s = Inr t" "P s"
    and "\<And>x s t. x \<in> set xs \<Longrightarrow> P s \<Longrightarrow> f x s = Inr t \<Longrightarrow> P t"
  shows "P t"
  using assms by (induction xs arbitrary: s) (auto simp: bind_res_Inr_conv)

text \<open>A block of statements: each runs on the state the one before left, up to the first fault.\<close>

fun run_all :: "('s \<Rightarrow> 's res) list \<Rightarrow> 's \<Rightarrow> 's res" where
  "run_all [] s = Inr s"
| "run_all (f # fs) s = bind_res (f s) (run_all fs)"

lemma run_all_append: "run_all (fs @ gs) s = bind_res (run_all fs s) (run_all gs)"
  by (induction fs arbitrary: s) (simp_all add: bind_res_def split: sum.split)

lemma run_all_invariant:
  assumes "run_all fs s = Inr t" "P s" "\<And>f s t. f \<in> set fs \<Longrightarrow> P s \<Longrightarrow> f s = Inr t \<Longrightarrow> P t"
  shows "P t"
  using assms
proof (induction fs arbitrary: s)
  case (Cons f fs)
  then obtain u where u: "f s = Inr u" "run_all fs u = Inr t" by (auto simp: bind_res_Inr_conv)
  from Cons.prems(2,3) u(1) have "P u" by (meson list.set_intros(1))
  with Cons.IH[OF u(2)] Cons.prems(3) show ?case by (meson list.set_intros(2))
qed simp

section \<open>Ranges of the machine integers\<close>

lemma unat_u8_less: "unat (x :: u8) < 256"
  using unsigned_less[where 'a = nat, of x] by simp

lemma unat_u16_less: "unat (x :: u16) < 65536"
  using unsigned_less[where 'a = nat, of x] by simp

lemma unat_u32_less: "unat (x :: u32) < 4294967296"
  using unsigned_less[where 'a = nat, of x] by simp

section \<open>Raw memory access\<close>

definition ld8 :: "bytes \<Rightarrow> nat \<Rightarrow> u8" where
  "ld8 b i = b ! i"

definition ld16 :: "bytes \<Rightarrow> nat \<Rightarrow> u16" where
  "ld16 b i = ucast (b ! i) OR push_bit 8 (ucast (b ! Suc i))"

definition ld32 :: "bytes \<Rightarrow> nat \<Rightarrow> u32" where
  "ld32 b i = ucast (ld16 b i) OR push_bit 16 (ucast (ld16 b (i + 2)))"

definition st8 :: "bytes \<Rightarrow> nat \<Rightarrow> u8 \<Rightarrow> bytes" where
  "st8 b i v = b[i := v]"

definition st16 :: "bytes \<Rightarrow> nat \<Rightarrow> u16 \<Rightarrow> bytes" where
  "st16 b i v = b[i := ucast v, Suc i := ucast (drop_bit 8 v)]"

definition st32 :: "bytes \<Rightarrow> nat \<Rightarrow> u32 \<Rightarrow> bytes" where
  "st32 b i v = st16 (st16 b i (ucast v)) (i + 2) (ucast (drop_bit 16 v))"

text \<open>\<open>memcpy(dst + off, src, length src)\<close> and \<open>memset\<close> to zero.\<close>

definition blit :: "bytes \<Rightarrow> nat \<Rightarrow> bytes \<Rightarrow> bytes" where
  "blit dst off src = take off dst @ src @ drop (off + length src) dst"

definition slice :: "bytes \<Rightarrow> nat \<Rightarrow> nat \<Rightarrow> bytes" where
  "slice b off n = take n (drop off b)"

definition zeros :: "nat \<Rightarrow> bytes" where
  "zeros n = replicate n 0"

section \<open>Byte order\<close>

definition htons :: "u16 \<Rightarrow> u16" where
  "htons v = push_bit 8 v OR drop_bit 8 v"

definition ntohs :: "u16 \<Rightarrow> u16" where
  "ntohs v = htons v"

definition htonl :: "u32 \<Rightarrow> u32" where
  "htonl v = push_bit 24 v OR (push_bit 8 v AND 0x00FF0000)
     OR (drop_bit 8 v AND 0x0000FF00) OR drop_bit 24 v"

definition ntohl :: "u32 \<Rightarrow> u32" where
  "ntohl v = htonl v"

lemma htons_htons [simp]: "htons (htons v) = v"
  unfolding htons_def
  by (rule bit_word_eqI) (auto simp: bit_simps not_less)

lemma ntohs_htons [simp]: "ntohs (htons v) = v"
  by (simp add: ntohs_def)

lemma htons_ntohs [simp]: "htons (ntohs v) = v"
  by (simp add: ntohs_def)

lemma htonl_masks:
  "(0x00FF0000 :: u32) = push_bit 16 (mask 8)" "(0x0000FF00 :: u32) = push_bit 8 (mask 8)"
  by (simp_all add: mask_eq_exp_minus_1)

lemma bit_htonl:
  "bit (htonl v) n \<longleftrightarrow> n < 32 \<and>
     bit v (if n < 8 then n + 24 else if n < 16 then n + 8 else if n < 24 then n - 8 else n - 24)"
  unfolding htonl_def htonl_masks
  by (auto simp: bit_simps not_less not_le Suc_diff_le add.commute dest: bit_imp_le_length)

lemma htonl_htonl [simp]: "htonl (htonl v) = v"
  by (rule bit_word_eqI) (auto simp: bit_htonl)

lemma ntohl_htonl [simp]: "ntohl (htonl v) = v"
  by (simp add: ntohl_def)

lemma htonl_ntohl [simp]: "htonl (ntohl v) = v"
  by (simp add: ntohl_def)

lemma htonl_inject [simp]: "htonl a = htonl b \<longleftrightarrow> a = b"
  by (metis htonl_htonl)

lemma htons_inject [simp]: "htons a = htons b \<longleftrightarrow> a = b"
  by (metis htons_htons)

section \<open>Reading back what was written\<close>

lemma length_st [simp]:
  "length (st8 b i v8) = length b"
  "length (st16 b i v16) = length b"
  "length (st32 b i v32) = length b"
  by (simp_all add: st8_def st16_def st32_def)

lemma length_blit [simp]:
  "off + length src \<le> length dst \<Longrightarrow> length (blit dst off src) = length dst"
  by (simp add: blit_def)

lemma length_slice [simp]: "off + n \<le> length b \<Longrightarrow> length (slice b off n) = n"
  by (simp add: slice_def)

lemma length_zeros [simp]: "length (zeros n) = n"
  by (simp add: zeros_def)

lemma ld8_st8 [bytes_simps]:
  "i < length b \<Longrightarrow> ld8 (st8 b i v) i = v"
  "i \<noteq> j \<Longrightarrow> ld8 (st8 b i v) j = ld8 b j"
  by (simp_all add: ld8_def st8_def)

lemma ld8_st16 [bytes_simps]:
  "j < i \<or> i + 1 < j \<Longrightarrow> ld8 (st16 b i v) j = ld8 b j"
  by (auto simp: ld8_def st16_def)

lemma ld8_st32 [bytes_simps]:
  "j < i \<or> i + 3 < j \<Longrightarrow> ld8 (st32 b i v) j = ld8 b j"
  by (auto simp: ld8_def st16_def st32_def)

lemma ld16_st8 [bytes_simps]:
  "j + 1 < i \<or> i < j \<Longrightarrow> ld16 (st8 b i v) j = ld16 b j"
  by (auto simp: ld16_def st8_def)

lemma ucast_bytes16: "ucast (ucast v :: u8) OR push_bit 8 (ucast (ucast (drop_bit 8 v) :: u8)) = (v :: u16)"
  by (rule bit_word_eqI) (auto simp: bit_simps not_less le_diff_conv)

lemma ucast_words32:
  "ucast (ucast v :: u16) OR push_bit 16 (ucast (ucast (drop_bit 16 v) :: u16)) = (v :: u32)"
  by (rule bit_word_eqI) (auto simp: bit_simps not_less le_diff_conv)

lemma ld16_st16_same [bytes_simps]:
  "i + 1 < length b \<Longrightarrow> ld16 (st16 b i v) i = v"
  by (simp add: ld16_def st16_def ucast_bytes16)

lemma ld16_st16_other [bytes_simps]:
  "j + 1 < i \<or> i + 1 < j \<Longrightarrow> ld16 (st16 b i v) j = ld16 b j"
  by (auto simp: ld16_def st16_def)

lemma ld16_st32 [bytes_simps]:
  "j + 1 < i \<or> i + 3 < j \<Longrightarrow> ld16 (st32 b i v) j = ld16 b j"
  by (auto simp: st32_def ld16_st16_other)

lemma ld32_st8 [bytes_simps]:
  "j + 3 < i \<or> i < j \<Longrightarrow> ld32 (st8 b i v) j = ld32 b j"
  by (auto simp: ld32_def ld16_st8)

lemma ld32_st16 [bytes_simps]:
  "j + 3 < i \<or> i + 1 < j \<Longrightarrow> ld32 (st16 b i v) j = ld32 b j"
  by (auto simp: ld32_def ld16_st16_other)

lemma ld32_st32_same [bytes_simps]:
  "i + 3 < length b \<Longrightarrow> ld32 (st32 b i v) i = v"
  by (simp add: ld32_def st32_def ld16_st16_same ld16_st16_other ucast_words32)

lemma ld32_st32_other [bytes_simps]:
  "j + 3 < i \<or> i + 3 < j \<Longrightarrow> ld32 (st32 b i v) j = ld32 b j"
  by (auto simp: ld32_def ld16_st32)

lemma nth_blit:
  assumes "off + length src \<le> length dst" "i < length dst"
  shows "blit dst off src ! i =
    (if i < off then dst ! i else if i < off + length src then src ! (i - off) else dst ! i)"
  using assms by (auto simp: blit_def nth_append not_less)

lemma nth_slice: "i < n \<Longrightarrow> off + n \<le> length b \<Longrightarrow> slice b off n ! i = b ! (off + i)"
  by (simp add: slice_def)

lemma ld8_blit_other [bytes_simps]:
  "off + length src \<le> length dst \<Longrightarrow> j < off \<or> (off + length src \<le> j \<and> j < length dst) \<Longrightarrow>
    ld8 (blit dst off src) j = ld8 dst j"
  by (auto simp: ld8_def nth_blit)

lemma ld16_blit_other [bytes_simps]:
  "off + length src \<le> length dst \<Longrightarrow> j + 1 < off \<or> (off + length src \<le> j \<and> j + 1 < length dst) \<Longrightarrow>
    ld16 (blit dst off src) j = ld16 dst j"
  by (auto simp: ld16_def nth_blit)

lemma ld32_blit_other [bytes_simps]:
  "off + length src \<le> length dst \<Longrightarrow> j + 3 < off \<or> (off + length src \<le> j \<and> j + 3 < length dst) \<Longrightarrow>
    ld32 (blit dst off src) j = ld32 dst j"
  by (auto simp: ld32_def ld16_blit_other)

lemma slice_blit_same [bytes_simps]:
  "off + length src \<le> length dst \<Longrightarrow> n = length src \<Longrightarrow> slice (blit dst off src) off n = src"
  by (simp add: slice_def blit_def)

lemma slice_cong_bytes:
  assumes "length b = length b'" "\<And>i. j \<le> i \<Longrightarrow> i < j + n \<Longrightarrow> i < length b \<Longrightarrow> b ! i = b' ! i"
  shows "slice b j n = slice b' j n"
  using assms by (intro nth_equalityI) (auto simp: slice_def)

lemma slice_blit_other [bytes_simps]:
  assumes "off + length src \<le> length dst" "j + n \<le> off \<or> off + length src \<le> j"
  shows "slice (blit dst off src) j n = slice dst j n"
  using assms by (intro slice_cong_bytes) (auto simp: nth_blit)

lemma slice_st [bytes_simps]:
  "i < j \<or> j + n \<le> i \<Longrightarrow> slice (st8 b i v8) j n = slice b j n"
  "i + 1 < j \<or> j + n \<le> i \<Longrightarrow> slice (st16 b i v16) j n = slice b j n"
  "i + 3 < j \<or> j + n \<le> i \<Longrightarrow> slice (st32 b i v32) j n = slice b j n"
  by (rule slice_cong_bytes; auto simp: st8_def st16_def st32_def nth_list_update)+

end
