(* ===== verification/Linked_List.thy ===== *)
theory Linked_List
  imports Netlab_Prelude
begin

text \<open>
  The intrusive circular doubly linked list of \<open>include/list.h\<close>, on an explicit heap: a node is an
  address, and the heap holds the \<open>next\<close> and \<open>prev\<close> pointers of every address.  Address \<open>0\<close> is the
  null pointer.  \<open>is_list h l xs\<close> says that the pointers reachable from the head node \<open>l\<close> form the
  list \<open>xs\<close> of entry nodes.  Every operation is shown to act on \<open>xs\<close> as the list operation its name
  says, and the two iteration macros to visit exactly \<open>xs\<close>; the other theories rest on this when
  they model an intrusive list by a HOL list.
\<close>

type_synonym addr = nat

record list_heap =
  nextp :: "addr \<Rightarrow> addr"
  prevp :: "addr \<Rightarrow> addr"

section \<open>The operations of list.h\<close>

definition list_empty :: "list_heap \<Rightarrow> addr \<Rightarrow> bool" where
  "list_empty h l = (nextp h l = l)"

definition init_list_head :: "addr \<Rightarrow> list_heap \<Rightarrow> list_heap" where
  "init_list_head l h = h\<lparr>nextp := (nextp h)(l := l), prevp := (prevp h)(l := l)\<rparr>"

definition list_insert :: "addr \<Rightarrow> addr \<Rightarrow> addr \<Rightarrow> list_heap \<Rightarrow> list_heap" where
  "list_insert new pv nx h =
    (let h1 = h\<lparr>prevp := (prevp h)(nx := new)\<rparr>;
         h2 = h1\<lparr>nextp := (nextp h1)(pv := new)\<rparr>;
         h3 = h2\<lparr>nextp := (nextp h2)(new := nx)\<rparr>
     in h3\<lparr>prevp := (prevp h3)(new := pv)\<rparr>)"

definition list_add_head :: "addr \<Rightarrow> addr \<Rightarrow> list_heap \<Rightarrow> list_heap" where
  "list_add_head new l h = list_insert new l (nextp h l) h"

definition list_add_tail :: "addr \<Rightarrow> addr \<Rightarrow> list_heap \<Rightarrow> list_heap" where
  "list_add_tail new l h = list_insert new (prevp h l) l h"

definition list_delete_entry :: "addr \<Rightarrow> list_heap \<Rightarrow> list_heap" where
  "list_delete_entry e h =
    (let h1 = h\<lparr>prevp := (prevp h)(nextp h e := prevp h e)\<rparr>
     in h1\<lparr>nextp := (nextp h1)(prevp h1 e := nextp h1 e)\<rparr>)"

text \<open>
  \<open>list_for_each_entry\<close> follows \<open>next\<close> from the head until it is back at the head;
  \<open>list_for_each_entry_safe\<close> reads the successor before the body runs, so that the body may unlink
  the entry.  The body here is the one the aging threads have: unlink the entry when \<open>P\<close> says so.
  Both loops carry fuel, and return \<open>None\<close> when it runs out before the head is reached.
\<close>

fun for_each_entry :: "nat \<Rightarrow> list_heap \<Rightarrow> addr \<Rightarrow> addr \<Rightarrow> addr list option" where
  "for_each_entry 0 h l pos = None"
| "for_each_entry (Suc fuel) h l pos =
    (if pos = l then Some []
     else map_option (Cons pos) (for_each_entry fuel h l (nextp h pos)))"

fun for_each_entry_safe :: "nat \<Rightarrow> (addr \<Rightarrow> bool) \<Rightarrow> addr \<Rightarrow> addr \<Rightarrow> addr \<Rightarrow> list_heap \<Rightarrow> list_heap option" where
  "for_each_entry_safe 0 P l pos q h = None"
| "for_each_entry_safe (Suc fuel) P l pos q h =
    (if pos = l then Some h
     else let h' = (if P pos then list_delete_entry pos h else h)
          in for_each_entry_safe fuel P l q (nextp h' q) h')"

definition list_walk :: "nat \<Rightarrow> list_heap \<Rightarrow> addr \<Rightarrow> addr list option" where
  "list_walk fuel h l = for_each_entry fuel h l (nextp h l)"

definition list_purge :: "nat \<Rightarrow> (addr \<Rightarrow> bool) \<Rightarrow> addr \<Rightarrow> list_heap \<Rightarrow> list_heap option" where
  "list_purge fuel P l h =
    for_each_entry_safe fuel P l (nextp h l) (nextp h (nextp h l)) h"

section \<open>The abstraction\<close>

text \<open>\<open>linked h c\<close>: consecutive nodes of \<open>c\<close> point at each other.\<close>

fun linked :: "list_heap \<Rightarrow> addr list \<Rightarrow> bool" where
  "linked h (x # y # c) = (nextp h x = y \<and> prevp h y = x \<and> linked h (y # c))"
| "linked h c = True"

definition is_list :: "list_heap \<Rightarrow> addr \<Rightarrow> addr list \<Rightarrow> bool" where
  "is_list h l xs \<longleftrightarrow> distinct (l # xs) \<and> linked h (l # xs @ [l])"

lemma linked_append:
  assumes "A \<noteq> []" "B \<noteq> []"
  shows "linked h (A @ B) \<longleftrightarrow>
    linked h A \<and> linked h B \<and> nextp h (last A) = hd B \<and> prevp h (hd B) = last A"
  using assms
proof (induction A rule: induct_list012)
  case (2 x)
  then show ?case by (cases B) auto
qed simp_all

lemma linked_join:
  assumes "A \<noteq> []" "B \<noteq> []" "last A = a" "hd B = b"
  shows "linked h (A @ B) \<longleftrightarrow> linked h A \<and> linked h B \<and> nextp h a = b \<and> prevp h b = a"
  using linked_append[OF assms(1,2)] assms(3,4) by simp

lemma linked_frame:
  assumes "\<And>a. a \<in> set (butlast c) \<Longrightarrow> nextp h' a = nextp h a"
    and "\<And>a. a \<in> set (tl c) \<Longrightarrow> prevp h' a = prevp h a"
  shows "linked h' c = linked h c"
  using assms
  by (induction h c rule: linked.induct) auto

lemma not_last_butlast: "distinct c \<Longrightarrow> a \<in> set (butlast c) \<Longrightarrow> a \<noteq> last c"
  by (induction c) auto

lemma not_hd_tl: "distinct c \<Longrightarrow> a \<in> set (tl c) \<Longrightarrow> a \<noteq> hd c"
  by (cases c) auto

section \<open>The operations refine list operations\<close>

lemma is_list_empty: "is_list h l xs \<Longrightarrow> list_empty h l \<longleftrightarrow> xs = []"
  by (cases xs) (auto simp: is_list_def list_empty_def)

lemma is_list_next: "is_list h l xs \<Longrightarrow> nextp h l = hd (xs @ [l])"
  by (cases xs) (auto simp: is_list_def)

lemma is_list_prev: "is_list h l xs \<Longrightarrow> prevp h l = last (l # xs)"
  using linked_append[of "l # xs" "[l]" h] by (simp add: is_list_def)

lemma is_list_init: "is_list (init_list_head l h) l []"
  by (simp add: is_list_def init_list_head_def)

text \<open>The heap after a node went in between two neighbours, and after one was taken out.\<close>

lemma nextp_list_insert:
  "new \<noteq> pv \<Longrightarrow> nextp (list_insert new pv nx h) = (nextp h)(pv := new, new := nx)"
  by (simp add: list_insert_def Let_def)

lemma prevp_list_insert:
  "new \<noteq> nx \<Longrightarrow> prevp (list_insert new pv nx h) = (prevp h)(nx := new, new := pv)"
  by (simp add: list_insert_def Let_def fun_upd_twist)

text \<open>
  The node list cut in two at any place: \<open>a\<close> is the node before the cut and \<open>b\<close> the one after.  No
  other node's \<open>next\<close> is \<open>a\<close>'s and no other node's \<open>prev\<close> is \<open>b\<close>'s.
\<close>

lemma cut_nodes:
  assumes "distinct (l # xs @ ys)" "a = last (l # xs)" "b = hd (ys @ [l])"
  shows "a \<in> set (l # xs)" "b \<in> set (ys @ [l])"
    "a \<notin> set (butlast (l # xs))" "a \<notin> set (butlast (ys @ [l]))"
    "b \<notin> set (tl (l # xs))" "b \<notin> set (tl (ys @ [l]))"
proof -
  show "a \<in> set (l # xs)" using assms(2) by (metis last_in_set list.discI)
  then show "a \<notin> set (butlast (ys @ [l]))" using assms(1) by auto
  have dist: "distinct (l # xs)" "distinct (ys @ [l])" using assms(1) by auto
  show "a \<notin> set (butlast (l # xs))" using not_last_butlast[OF dist(1)] assms(2) by blast
  show "b \<in> set (ys @ [l])" using assms(3) by (metis hd_in_set snoc_eq_iff_butlast)
  then show "b \<notin> set (tl (l # xs))" using assms(1) by auto
  show "b \<notin> set (tl (ys @ [l]))" using not_hd_tl[OF dist(2)] assms(3) by blast
qed

lemma is_list_insert_between:
  assumes "is_list h l (xs @ ys)" and new: "new \<notin> set (l # xs @ ys)"
    and a: "a = last (l # xs)" and b: "b = hd (ys @ [l])"
  shows "is_list (list_insert new a b h) l (xs @ new # ys)"
proof -
  let ?A = "l # xs" and ?B = "ys @ [l]" and ?h = "list_insert new a b h"
  have dist: "distinct (l # xs @ ys)" and lk: "linked h (?A @ ?B)"
    using assms(1) by (simp_all add: is_list_def)
  note cut = cut_nodes[OF dist a b]
  have ne: "new \<noteq> a" "new \<noteq> b" using new cut(1,2) by auto
  note upd = nextp_list_insert[OF ne(1)] prevp_list_insert[OF ne(2)]
  have A: "linked ?h ?A = linked h ?A"
    by (rule linked_frame) (use new cut in \<open>auto simp: upd dest: in_set_butlastD simp del: butlast.simps\<close>)
  have B: "linked ?h ?B = linked h ?B"
    by (rule linked_frame) (use new cut in \<open>auto simp: upd dest: in_set_butlastD list.set_sel(2)[rotated]\<close>)
  have "linked h ?A \<and> linked h ?B"
    using lk linked_join[OF _ _ a[symmetric] b[symmetric], of h] by simp
  moreover have "linked ?h (new # ?B) \<longleftrightarrow> linked ?h ?B"
    using linked_join[of "[new]" ?B new b ?h] ne by (simp add: upd b[symmetric])
  moreover have "linked ?h (?A @ new # ?B) \<longleftrightarrow> linked ?h ?A \<and> linked ?h (new # ?B)"
    using linked_join[OF _ _ a[symmetric], of "new # ?B" new ?h] ne by (simp add: upd)
  ultimately show ?thesis
    using dist new A B by (simp add: is_list_def)
qed

lemma is_list_add_head:
  "is_list h l xs \<Longrightarrow> n \<notin> set (l # xs) \<Longrightarrow> is_list (list_add_head n l h) l (n # xs)"
  using is_list_insert_between[of h l "[]" xs n l] by (simp add: list_add_head_def is_list_next)

lemma is_list_add_tail:
  "is_list h l xs \<Longrightarrow> n \<notin> set (l # xs) \<Longrightarrow> is_list (list_add_tail n l h) l (xs @ [n])"
  using is_list_insert_between[of h l xs "[]" n] by (simp add: list_add_tail_def is_list_prev)

text \<open>\<open>list_insert(new, entry.prev, entry)\<close>, as the sorted insertions of the code have it.\<close>

lemma is_list_neighbours:
  assumes "is_list h l (xs @ e # ys)"
  shows "prevp h e = last (l # xs)" "nextp h e = hd (ys @ [l])"
proof -
  have lk: "linked h ((l # xs) @ [e] @ ys @ [l])" using assms by (simp add: is_list_def)
  then have "linked h ([e] @ ys @ [l])" and "prevp h e = last (l # xs)"
    using linked_join[OF _ _ refl refl, of "l # xs" "[e] @ ys @ [l]" h] by simp_all
  then show "prevp h e = last (l # xs)" "nextp h e = hd (ys @ [l])"
    using linked_join[OF _ _ refl refl, of "[e]" "ys @ [l]" h] by simp_all
qed

lemma is_list_insert_before:
  assumes "is_list h l (xs @ e # ys)" "n \<notin> set (l # xs @ e # ys)"
  shows "is_list (list_insert n (prevp h e) e h) l (xs @ n # e # ys)"
  using is_list_insert_between[OF assms refl refl] is_list_neighbours(1)[OF assms(1)] by simp

lemma is_list_delete:
  assumes "is_list h l (xs @ e # ys)"
  shows "is_list (list_delete_entry e h) l (xs @ ys)"
proof -
  let ?A = "l # xs" and ?B = "ys @ [l]" and ?h = "list_delete_entry e h"
  define a b where a: "a = last ?A" and b: "b = hd ?B"
  have dist: "distinct (l # xs @ ys)" and e: "e \<notin> set (l # xs @ ys)"
    and lk: "linked h (?A @ e # ?B)"
    using assms by (simp_all add: is_list_def)
  note cut = cut_nodes[OF dist a b]
  have nb: "prevp h e = a" "nextp h e = b"
    using is_list_neighbours[OF assms] a b by simp_all
  have ne: "e \<noteq> a" "e \<noteq> b" using e cut(1,2) by auto
  have upd: "nextp ?h = (nextp h)(a := b)" "prevp ?h = (prevp h)(b := a)"
    using ne by (simp_all add: list_delete_entry_def Let_def nb)
  have A: "linked ?h ?A = linked h ?A"
    by (rule linked_frame) (use cut in \<open>auto simp: upd simp del: butlast.simps\<close>)
  have B: "linked ?h ?B = linked h ?B"
    by (rule linked_frame) (use cut in \<open>auto simp: upd\<close>)
  have "linked h ?A \<and> linked h (e # ?B)"
    using lk linked_join[OF _ _ a[symmetric], of "e # ?B" e h] by simp
  moreover have "linked h (e # ?B) \<longrightarrow> linked h ?B"
    using linked_join[of "[e]" ?B e b h] b by simp
  moreover have "linked ?h (?A @ ?B) \<longleftrightarrow> linked ?h ?A \<and> linked ?h ?B"
    using linked_join[OF _ _ a[symmetric] b[symmetric], of ?h] by (simp add: upd)
  ultimately show ?thesis
    using dist A B by (simp add: is_list_def)
qed

section \<open>Iteration\<close>

lemma for_each_entry_visits:
  assumes "is_list h l (xs @ ys)" "length ys < fuel"
  shows "for_each_entry fuel h l (hd (ys @ [l])) = Some ys"
  using assms
proof (induction ys arbitrary: xs fuel)
  case Nil
  then show ?case by (cases fuel) auto
next
  case (Cons y ys)
  then obtain k where k: "fuel = Suc k" by (cases fuel) auto
  have "for_each_entry k h l (hd (ys @ [l])) = Some ys"
    using Cons.IH[of "xs @ [y]" k] Cons.prems k by simp
  moreover have "y \<noteq> l" using Cons.prems by (auto simp: is_list_def)
  ultimately show ?case
    using k is_list_neighbours(2)[OF Cons.prems(1)] by simp
qed

lemma for_each_entry_safe_filters:
  assumes "is_list h l (xs @ ys)" "length ys < fuel"
  shows "\<exists>h'. for_each_entry_safe fuel P l (hd (ys @ [l])) (nextp h (hd (ys @ [l]))) h = Some h'
    \<and> is_list h' l (xs @ filter (\<lambda>e. \<not> P e) ys)"
  using assms
proof (induction ys arbitrary: xs fuel h)
  case Nil
  then show ?case by (cases fuel) auto
next
  case (Cons y ys)
  then obtain k where k: "fuel = Suc k" by (cases fuel) auto
  have y: "y \<noteq> l" and succ: "nextp h y = hd (ys @ [l])"
    using Cons.prems is_list_neighbours(2)[OF Cons.prems(1)] by (auto simp: is_list_def)
  show ?case
  proof (cases "P y")
    case True
    have "is_list (list_delete_entry y h) l (xs @ ys)"
      by (rule is_list_delete[OF Cons.prems(1)])
    from Cons.IH[OF this, of k] show ?thesis using Cons.prems k y succ True by (simp add: Let_def)
  next
    case False
    from Cons.IH[of h "xs @ [y]" k] show ?thesis using Cons.prems k y succ False by simp
  qed
qed

section \<open>Properties\<close>

text \<open>
  C27: the intrusive list of list.h is a list.  \<open>init_list_head\<close> makes the empty list.  On a
  well-linked list, empty or not, \<open>list_empty\<close> is true exactly for the empty list,
  \<open>list_add_head\<close> and \<open>list_add_tail\<close> of an unlinked node give the well-linked list with that node
  in front or at the end, \<open>list_insert\<close> before any entry puts the node there and before no other,
  \<open>list_delete_entry\<close> of any entry removes exactly that entry, and \<open>list_for_each_entry\<close> visits the
  entries in order and returns to the head.
\<close>
theorem list_ops_refine:
  assumes "is_list h l zs"
  shows "is_list (init_list_head l g) l []
    \<and> list_empty h l = (zs = [])
    \<and> (\<forall>n. n \<notin> set (l # zs) \<longrightarrow>
        is_list (list_add_head n l h) l (n # zs)
        \<and> is_list (list_add_tail n l h) l (zs @ [n])
        \<and> (\<forall>xs e ys. zs = xs @ e # ys \<longrightarrow>
            is_list (list_insert n (prevp h e) e h) l (xs @ n # e # ys)))
    \<and> (\<forall>xs e ys. zs = xs @ e # ys \<longrightarrow> is_list (list_delete_entry e h) l (xs @ ys))
    \<and> list_walk (length zs + 1) h l = Some zs"
proof -
  have "list_walk (length zs + 1) h l = Some zs"
    using for_each_entry_visits[of h l "[]" zs "length zs + 1"] assms is_list_next[OF assms]
    by (simp add: list_walk_def)
  then show ?thesis
    using is_list_init[of l g] is_list_empty[OF assms] is_list_add_head[OF assms]
      is_list_add_tail[OF assms] is_list_insert_before[of h l] is_list_delete[of h l] assms
    by blast
qed

definition example_heap :: list_heap where
  "example_heap = list_add_tail 3 1 (list_add_tail 2 1
     (init_list_head 1 \<lparr>nextp = (\<lambda>_. 0), prevp = (\<lambda>_. 0)\<rparr>))"

lemma example_heap_list: "is_list example_heap 1 [2, 3]"
  unfolding example_heap_def
  using is_list_add_tail[OF is_list_add_tail[OF is_list_init, of 2 1], of 3] by simp

theorem list_ops_refine_witness:
  "is_list (list_add_head 7 1 example_heap) 1 [7, 2, 3]
    \<and> is_list (list_insert 7 (prevp example_heap 3) 3 example_heap) 1 [2, 7, 3]
    \<and> is_list (list_delete_entry 2 example_heap) 1 [3] \<and> \<not> list_empty example_heap 1
    \<and> list_empty (init_list_head 1 example_heap) 1
    \<and> is_list (list_add_tail 7 1 (init_list_head 1 example_heap)) 1 [7]
    \<and> list_walk 1 (init_list_head 1 example_heap) 1 = Some []"
proof -
  note full = list_ops_refine[OF example_heap_list]
  have "[2, 3] = [2] @ 3 # ([] :: addr list)" "[2, 3] = [] @ 2 # [3 :: addr]" by simp_all
  then have "is_list (list_insert 7 (prevp example_heap 3) 3 example_heap) 1 ([2] @ 7 # 3 # [])"
    "is_list (list_delete_entry 2 example_heap) 1 ([] @ [3])"
    "is_list (list_add_head 7 1 example_heap) 1 [7, 2, 3]" "\<not> list_empty example_heap 1"
    using full by (simp_all del: append.simps)
  moreover note list_ops_refine[OF is_list_init[of 1 example_heap]]
  ultimately show ?thesis by simp
qed

text \<open>
  C28: \<open>list_for_each_entry_safe\<close> with a body that unlinks some of the entries (the loop of the
  aging threads, of the ARP request list and of the TCP timer list) terminates and leaves exactly
  the entries it did not unlink, in order and well linked.
\<close>
theorem list_purge_filters:
  assumes "is_list h l xs" and "length xs < fuel"
  shows "\<exists>h'. list_purge fuel P l h = Some h'
    \<and> is_list h' l (filter (\<lambda>e. \<not> P e) xs)
    \<and> list_walk fuel h' l = Some (filter (\<lambda>e. \<not> P e) xs)"
proof -
  obtain h' where h': "list_purge fuel P l h = Some h'" "is_list h' l (filter (\<lambda>e. \<not> P e) xs)"
    using for_each_entry_safe_filters[of h l "[]" xs fuel P] assms is_list_next[OF assms(1)]
    by (auto simp: list_purge_def)
  moreover have "list_walk fuel h' l = Some (filter (\<lambda>e. \<not> P e) xs)"
    using for_each_entry_visits[of h' l "[]" "filter (\<lambda>e. \<not> P e) xs" fuel] h'(2) assms(2)
      is_list_next[OF h'(2)] length_filter_le[of "\<lambda>e. \<not> P e" xs]
    by (simp add: list_walk_def)
  ultimately show ?thesis by blast
qed

theorem list_purge_filters_witness:
  "\<exists>h'. list_purge 3 (\<lambda>e. e = 2) 1 example_heap = Some h' \<and> list_walk 3 h' 1 = Some [3]"
  using list_purge_filters[OF example_heap_list, of 3 "\<lambda>e. e = 2"] by auto

text \<open>
  An unlinked node keeps its pointers, so \<open>list_empty\<close> on it answers false: the test
  \<open>if (!list_empty(&tsk->hash_list))\<close> of the TCP hash tables does not tell a linked node from one
  that was already taken out.
\<close>

lemma deleted_not_empty:
  assumes "is_list h l (xs @ e # ys)"
  shows "\<not> list_empty (list_delete_entry e h) e"
proof -
  have "e \<notin> set (l # xs)" "e \<notin> set (ys @ [l])" using assms by (auto simp: is_list_def)
  moreover have "last (l # xs) \<in> set (l # xs)" "hd (ys @ [l]) \<in> set (ys @ [l])"
    using last_in_set[of "l # xs"] hd_in_set[of "ys @ [l]"] by blast+
  ultimately show ?thesis
    using is_list_neighbours[OF assms]
    by (auto simp: list_delete_entry_def list_empty_def Let_def)
qed

end
