(* ===== verification/Checksum.thy ===== *)
theory Checksum
  imports Netlab_Prelude
begin

text \<open>
  The Internet checksum, in the two forms the repository has: \<open>include/checksum.h\<close> of lab 6 adds the
  16-bit words and folds the carries twice, the header of labs 7 to 13 folds in a loop.  The buffer
  is read as little-endian words, as the code does.  The lemmas relate both to the
  ones'-complement sum: the result is the complement of a representative of the sum modulo
  \<open>65535\<close>, both forms agree on every buffer and start value, and a buffer that carries its own
  checksum sums to zero.
\<close>

section \<open>The code\<close>

text \<open>The loop over the 16-bit words; \<open>sum\<close> is a \<open>u32\<close> and wraps.\<close>

fun sum_u16 :: "bytes \<Rightarrow> u32 \<Rightarrow> u32" where
  "sum_u16 (x # y # b) s = sum_u16 b (s + (ucast x OR push_bit 8 (ucast y)))"
| "sum_u16 _ s = s"

definition checksum :: "bytes \<Rightarrow> u32 \<Rightarrow> u16" where
  "checksum ptr sum0 =
    (let nbytes = length ptr;
         sum1 = (if nbytes mod 2 \<noteq> 0 then sum0 + ucast (ptr ! (nbytes - 1)) else sum0);
         sum2 = sum_u16 ptr sum1;
         sum3 = drop_bit 16 sum2 + (sum2 AND 0xffff);
         sum4 = sum3 + drop_bit 16 sum3
     in ucast (NOT sum4))"

function fold_carries :: "u32 \<Rightarrow> u32" where
  "fold_carries s =
    (if drop_bit 16 s \<noteq> 0 then fold_carries (drop_bit 16 s + (s AND 0xffff)) else s)"
  by auto

definition checksum_loop :: "bytes \<Rightarrow> u32 \<Rightarrow> u16" where
  "checksum_loop buf sum0 =
    (let nbytes = length buf;
         sum1 = sum_u16 buf sum0;
         sum2 = (if nbytes mod 2 \<noteq> 0 then sum1 + ucast (buf ! (nbytes - 1)) else sum1)
     in ucast (NOT (fold_carries sum2)))"

section \<open>Folding carries, on numbers\<close>

definition fold16 :: "nat \<Rightarrow> nat" where
  "fold16 n = n div 65536 + n mod 65536"

lemma unat_drop16: "unat (drop_bit 16 (s :: u32)) = unat s div 65536"
  by (simp only: unat_drop_bit_eq) (simp add: drop_bit_eq_div)

lemma unat_and_ffff: "unat ((s :: u32) AND 0xffff) = unat s mod 65536"
proof -
  have "(0xffff :: u32) = mask 16" by (simp add: mask_eq_exp_minus_1)
  then have "s AND 0xffff = take_bit 16 s" by (simp add: take_bit_eq_mask)
  then show ?thesis by (simp only: unsigned_take_bit_eq) (simp add: take_bit_eq_mod)
qed

lemma div_mod_65536: "n = 65536 * (n div 65536) + n mod 65536" "n mod 65536 < (65536::nat)"
  by simp_all

lemma fold16_cases:
  obtains q r where "n = 65536 * q + r" "r < 65536" "fold16 n = q + r"
  using div_mod_65536[of n] unfolding fold16_def by blast

lemma fold16_bound: "n < 4294967296 \<Longrightarrow> fold16 n \<le> 131070"
  by (rule fold16_cases[of n]) linarith

lemma unat_fold_step:
  "unat (drop_bit 16 s + (s AND 0xffff) :: u32) = fold16 (unat s)"
proof -
  have "unat (drop_bit 16 s + (s AND 0xffff) :: u32) = fold16 (unat s) mod 4294967296"
    by (simp add: unat_word_ariths unat_drop16 unat_and_ffff fold16_def)
  moreover have "fold16 (unat s) < 4294967296"
    using fold16_bound[OF unat_u32_less[of s]] by simp
  ultimately show ?thesis by simp
qed

lemma fold16_less: "65536 \<le> n \<Longrightarrow> fold16 n < n"
  by (rule fold16_cases[of n]) linarith

lemma fold16_mod: "fold16 n mod 65535 = n mod 65535"
proof (rule fold16_cases[of n])
  fix q r assume *: "n = 65536 * q + r" "fold16 n = q + r"
  then have "n = q + r + 65535 * q" by simp
  then show ?thesis unfolding *(2) by (metis mod_mult_self2)
qed

lemma fold16_zero: "fold16 n = 0 \<longleftrightarrow> n = 0"
  by (rule fold16_cases[of n]) linarith

lemma fold16_twice: "n < 4294967296 \<Longrightarrow> fold16 (fold16 n) < 65536"
  by (rule fold16_cases[of n], rule fold16_cases[of "fold16 n"]) linarith

lemma fold16_small: "n < 65536 \<Longrightarrow> fold16 n = n"
  by (simp add: fold16_def)

termination fold_carries
proof (relation "measure unat", simp)
  fix s :: u32
  assume "drop_bit 16 s \<noteq> 0"
  then have "unat s div 65536 \<noteq> 0" by (metis unat_drop16 unat_eq_0)
  then have "65536 \<le> unat s" by (metis div_less not_less)
  then show "(drop_bit 16 s + (s AND 0xffff), s) \<in> measure unat"
    by (simp add: unat_fold_step fold16_less)
qed

declare fold_carries.simps [simp del]

lemma unat_fold_carries: "unat (fold_carries s) = fold16 (fold16 (unat s))"
proof (induction s rule: fold_carries.induct)
  case (1 s)
  show ?case
  proof (cases "drop_bit 16 s = 0")
    case True
    then have "unat s < 65536"
      by (metis unat_drop16 unat_0 div_eq_0_iff zero_neq_numeral)
    with True show ?thesis by (simp add: fold_carries.simps[of s] fold16_small)
  next
    case False
    have "fold16 (fold16 (fold16 (unat s))) = fold16 (fold16 (unat s))"
      by (simp add: fold16_small fold16_twice unat_u32_less)
    with False 1 show ?thesis by (simp add: fold_carries.simps[of s] unat_fold_step)
  qed
qed

section \<open>Agreement of the two forms\<close>

lemma sum_u16_add: "sum_u16 b (s + t) = sum_u16 b s + t"
  by (induction b s rule: sum_u16.induct) (simp_all add: algebra_simps)

lemma ucast_not_low: "unat s mod 65536 = unat t mod 65536 \<Longrightarrow> ucast (NOT s) = (ucast (NOT t) :: u16)"
  for s t :: u32
proof -
  assume "unat s mod 65536 = unat t mod 65536"
  then have "take_bit 16 (unat s) = take_bit 16 (unat t)" by (simp add: take_bit_eq_mod)
  then have "take_bit 16 s = take_bit 16 t"
    by (metis unsigned_take_bit_eq unsigned_word_eqI)
  then have "bit s n = bit t n" if "n < 16" for n
    using that by (metis bit_take_bit_iff)
  then show ?thesis by (intro bit_word_eqI) (simp add: bit_simps)
qed

lemma checksum_folds:
  "checksum b s = ucast (NOT (fold_carries
     (sum_u16 b (if length b mod 2 \<noteq> 0 then s + ucast (b ! (length b - 1)) else s))))"
proof -
  define t where "t = sum_u16 b (if length b mod 2 \<noteq> 0 then s + ucast (b ! (length b - 1)) else s)"
  define u where "u = drop_bit 16 t + (t AND 0xffff)"
  have u: "unat u = fold16 (unat t)" by (simp add: u_def unat_fold_step)
  have u1: "unat u \<le> 131070" using u fold16_bound unat_u32_less by metis
  have "unat u div 65536 \<le> unat u" by (rule div_le_dividend)
  with u1 have "unat (u + drop_bit 16 u) = unat u + unat u div 65536"
    by (simp add: unat_word_ariths unat_drop16)
  also have "\<dots> mod 65536 = fold16 (unat u) mod 65536"
    unfolding fold16_def by (metis add.commute mod_add_right_eq)
  finally have "unat (u + drop_bit 16 u) mod 65536 = unat (fold_carries t) mod 65536"
    by (simp add: unat_fold_carries u)
  then show ?thesis
    unfolding checksum_def Let_def t_def[symmetric] u_def[symmetric] by (rule ucast_not_low)
qed

lemma checksum_loop_eq: "checksum_loop b s = checksum b s"
  by (simp add: checksum_folds checksum_loop_def Let_def sum_u16_add)

section \<open>The ones'-complement sum\<close>

fun word_sum :: "bytes \<Rightarrow> nat" where
  "word_sum (x # y # b) = unat x + 256 * unat y + word_sum b"
| "word_sum [x] = unat x"
| "word_sum [] = 0"

lemma unat_u16_of_bytes:
  "unat (ucast (x :: u8) OR push_bit 8 (ucast (y :: u8)) :: u32) = unat x + 256 * unat y"
proof -
  have "ucast x AND push_bit 8 (ucast y) = (0 :: u32)"
    by (rule bit_word_eqI) (auto simp: bit_simps dest: bit_imp_le_length)
  then have "ucast x OR push_bit 8 (ucast y) = (ucast x + push_bit 8 (ucast y) :: u32)"
    by (simp add: disjunctive_add_eq_or)
  also have "unat \<dots> = unat x + 256 * unat y"
    using unat_u8_less[of x] unat_u8_less[of y]
    by (simp add: unat_word_ariths push_bit_eq_mult unsigned_ucast_eq take_bit_eq_mod)
  finally show ?thesis .
qed

definition odd_byte :: "bytes \<Rightarrow> u32 \<Rightarrow> u32" where
  "odd_byte b s = (if length b mod 2 \<noteq> 0 then s + ucast (b ! (length b - 1)) else s)"

lemma checksum_odd_byte: "checksum b s = ucast (NOT (fold_carries (sum_u16 b (odd_byte b s))))"
  unfolding odd_byte_def by (rule checksum_folds)

lemma unat_sum_u16:
  "unat (sum_u16 b (odd_byte b s)) = (word_sum b + unat s) mod 4294967296"
proof (induction b arbitrary: s rule: word_sum.induct)
  case (1 x y b)
  have *: "odd_byte (x # y # b) s + w = odd_byte b (s + w)" for w
    by (cases b) (auto simp: odd_byte_def)
  define w :: u32 where "w = ucast x OR push_bit 8 (ucast y)"
  have w: "unat w = unat x + 256 * unat y" unfolding w_def by (rule unat_u16_of_bytes)
  have "sum_u16 (x # y # b) (odd_byte (x # y # b) s) = sum_u16 b (odd_byte b (s + w))"
    by (simp add: * w_def)
  also have "unat \<dots> = (word_sum b + unat (s + w)) mod 4294967296" by (rule 1)
  also have "\<dots> = (word_sum b + (unat s + unat w)) mod 4294967296"
    by (simp add: unat_word_ariths mod_add_right_eq)
  finally show ?case by (simp add: w algebra_simps)
next
  case (2 x)
  have "unat (ucast x :: u32) = unat x"
    using unat_u8_less[of x] by (simp add: unsigned_ucast_eq take_bit_eq_mod)
  moreover have "odd_byte [x] s = s + ucast x" by (simp add: odd_byte_def)
  ultimately show ?case
    by (simp only: sum_u16.simps word_sum.simps unat_word_ariths add.commute) simp
next
  case 3
  then show ?case using unat_u32_less[of s] by (simp add: odd_byte_def)
qed

lemma unat_complement16: "unat (ucast (NOT (s :: u32)) :: u16) = 65535 - unat s mod 65536"
proof -
  have "(ucast (NOT s) :: u16) = NOT (ucast s)"
    by (rule bit_word_eqI) (auto simp: bit_simps)
  also have "NOT (ucast s) = (- 1 :: u16) - ucast s" by (simp add: not_eq_complement)
  also have "unat \<dots> = 65535 - unat s mod 65536"
  proof -
    have "unat (- 1 :: u16) = 65535"
      by (simp only: unsigned_minus_1_eq_mask) (simp add: mask_eq_exp_minus_1)
    then show ?thesis
      by (subst unat_sub) (auto simp: word_le_nat_alt take_bit_eq_mod unsigned_ucast_eq less_Suc_eq_le[symmetric])
  qed
  finally show ?thesis .
qed

lemma unat_checksum:
  assumes "word_sum b + unat s < 4294967296"
  shows "unat (checksum b s) = 65535 - fold16 (fold16 (word_sum b + unat s))"
  using assms fold16_twice[OF assms]
  by (simp add: checksum_odd_byte unat_complement16 unat_fold_carries unat_sum_u16)

lemma word_sum_bound: "word_sum b \<le> 65535 * length b"
proof (induction b rule: word_sum.induct)
  case (1 x y b)
  have "unat x \<le> 255" "unat y \<le> 255" using unat_u8_less[of x] unat_u8_less[of y] by simp_all
  with 1 show ?case by simp
next
  case (2 x)
  have "unat x \<le> 255" using unat_u8_less[of x] by simp
  then show ?case by simp
qed simp

lemma unat_ucast_bytes: "unat (ucast (v :: u16) :: u8) + 256 * unat (ucast (drop_bit 8 v) :: u8) = unat v"
proof -
  have "unat (drop_bit 8 v) = unat v div 256"
    by (simp only: unat_drop_bit_eq) (simp add: drop_bit_eq_div)
  moreover have "unat v div 256 < 256" using unat_u16_less[of v] by (simp add: div_less_iff_less_mult)
  ultimately show ?thesis
    by (simp add: unsigned_ucast_eq take_bit_eq_mod)
qed

lemma word_sum_st16:
  "2 * k + 1 < length b \<Longrightarrow> word_sum (st16 b (2 * k) v) + unat (b ! (2 * k)) + 256 * unat (b ! (2 * k + 1)) = word_sum b + unat v"
proof (induction k arbitrary: b)
  case 0
  then obtain x y b' where "b = x # y # b'" by (cases b rule: word_sum.cases) auto
  then show ?case using unat_ucast_bytes[of v] by (simp add: st16_def)
next
  case (Suc k)
  then obtain x y b' where "b = x # y # b'" by (cases b rule: word_sum.cases) auto
  with Suc(1)[of b'] Suc(2) show ?case by (simp add: st16_def)
qed

lemma checksum_zero_iff:
  assumes "word_sum b + unat s < 4294967296" "0 < word_sum b + unat s"
  shows "checksum b s = 0 \<longleftrightarrow> (word_sum b + unat s) mod 65535 = 0"
proof -
  define n where "n = fold16 (fold16 (word_sum b + unat s))"
  have n: "n < 65536" "0 < n" using assms fold16_twice[OF assms(1)] by (auto simp: n_def fold16_zero simp flip: neq0_conv)
  have "checksum b s = 0 \<longleftrightarrow> unat (checksum b s) = 0" by (simp add: unat_eq_0)
  also have "\<dots> \<longleftrightarrow> n = 65535" using n unat_checksum[OF assms(1)] by (auto simp: n_def)
  also have "\<dots> \<longleftrightarrow> n mod 65535 = 0" using n by (cases "n = 65535") auto
  also have "n mod 65535 = (word_sum b + unat s) mod 65535" by (simp add: n_def fold16_mod)
  finally show ?thesis .
qed

lemma checksum_verifies:
  assumes "2 * k + 1 < length b" "length b \<le> 65536" "word_sum (st16 b (2 * k) 0) + unat s < 4294836224"
  shows "checksum (st16 b (2 * k) (checksum (st16 b (2 * k) 0) s)) s = 0"
proof -
  define b0 where "b0 = st16 b (2 * k) 0"
  define n where "n = word_sum b0 + unat s"
  define c where "c = checksum b0 s"
  have z: "b0 ! (2 * k) = 0" "b0 ! (2 * k + 1) = 0" "length b0 = length b"
    using assms(1) by (auto simp: b0_def st16_def nth_list_update)
  have twice: "st16 b (2 * k) c = st16 b0 (2 * k) c"
    by (simp add: st16_def b0_def list_update_swap)
  have n: "n < 4294836224" using assms(3) by (simp add: n_def b0_def)
  have c: "unat c = 65535 - fold16 (fold16 n)"
    using unat_checksum[of b0 s] n by (simp add: c_def n_def)
  have sum: "word_sum (st16 b0 (2 * k) c) = word_sum b0 + unat c"
    using word_sum_st16[of k b0 c] assms(1) z by simp
  have f: "fold16 (fold16 n) < 65536" using n by (intro fold16_twice) simp
  have c': "unat c < 65536" by (rule unat_u16_less)
  have "(n + unat c) mod 65535 = (fold16 (fold16 n) mod 65535 + unat c) mod 65535"
    by (simp add: fold16_mod mod_simps)
  also have "\<dots> = (fold16 (fold16 n) + unat c) mod 65535" by (simp add: mod_simps)
  also have "fold16 (fold16 n) + unat c = 65535" using f c by simp
  finally have zero: "(n + unat c) mod 65535 = 0" by simp
  have pos: "0 < n + unat c" using c f by (cases "n = 0") (auto simp: fold16_def)
  have "checksum (st16 b0 (2 * k) c) s = 0"
    by (rule iffD2[OF checksum_zero_iff])
      (use zero pos n c' sum in \<open>simp_all add: n_def algebra_simps\<close>)
  then show ?thesis using twice by (simp add: c_def b0_def)
qed
section \<open>Properties\<close>

text \<open>
  C29: a buffer that carries its own checksum verifies.  For a buffer of at most 65000 bytes with
  the checksum field at an even offset: zero the field, compute the checksum from a start
  value of at most 65535, store it; the checksum of the result with the same start value is zero.
\<close>
theorem checksum_self_verifies:
  assumes "2 * k + 1 < length buf" "length buf \<le> 65000" "unat s \<le> 65535"
  shows "checksum (st16 buf (2 * k) (checksum (st16 buf (2 * k) 0) s)) s = 0"
proof (rule checksum_verifies[OF assms(1)])
  have "word_sum (st16 buf (2 * k) 0) \<le> 65535 * length buf"
    using word_sum_bound[of "st16 buf (2 * k) 0"] by simp
  then show "word_sum (st16 buf (2 * k) 0) + unat s < 4294836224" using assms(2,3) by simp
qed (use assms(2) in simp)

theorem checksum_self_verifies_witness:
  "checksum (st16 [0x45, 0, 9, 9, 1] 2 (checksum (st16 [0x45, 0, 9, 9, 1] 2 0) 7)) 7 = 0"
  using checksum_self_verifies[of 1 "[0x45, 0, 9, 9, 1]" 7] by simp

end
