(* ===== verification/Device.thy ===== *)
theory Device
  imports Netlab_Prelude
begin

text \<open>
  Network interfaces and the receive loop of the user-space stack (\<open>include/base.h\<close>,
  \<open>device_internal.c\<close>, \<open>ustack_run\<close> in every \<open>main.c\<close>).  Opening the raw sockets and querying the
  kernel for names and addresses is system-call code and is not modelled; the list of interfaces it
  leaves in \<open>instance->iface_list\<close> is an argument.  \<open>poll\<close> and \<open>recvfrom\<close> are the environment: a
  run of the stack is driven by what they return, with the passes of the threads that run beside the loop in between.
\<close>

text \<open>An interface of the switching labs; the IP labs add an address and a mask.\<close>

record iface_info =
  if_fd :: int
  if_index :: int
  if_mac :: bytes
  if_name :: string

record ip_iface = iface_info +
  if_ip :: u32
  if_mask :: u32

definition ETH_ALEN :: nat where "ETH_ALEN = 6"

definition ETHER_HDR_SIZE :: nat where "ETHER_HDR_SIZE = 14"

definition ETH_FRAME_LEN :: nat where "ETH_FRAME_LEN = 1514"

text \<open>\<open>ether_dhost\<close>, \<open>ether_shost\<close> and \<open>ether_type\<close> of the frame at the start of the buffer.\<close>

definition ether_dhost :: "bytes \<Rightarrow> bytes" where
  "ether_dhost pkt = slice pkt 0 ETH_ALEN"

definition ether_shost :: "bytes \<Rightarrow> bytes" where
  "ether_shost pkt = slice pkt ETH_ALEN ETH_ALEN"

definition ether_type :: "bytes \<Rightarrow> u16" where
  "ether_type pkt = ld16 pkt 12"

definition fd_to_iface :: "('a iface_info_scheme) list \<Rightarrow> int \<Rightarrow> ('a iface_info_scheme) option" where
  "fd_to_iface ifs fd = find (\<lambda>i. if_fd i = fd) ifs"

text \<open>
  What the receive loop finds on one descriptor: no \<open>POLLIN\<close>, a failed or empty \<open>recvfrom\<close>, a
  frame the host itself is sending (\<open>PACKET_OUTGOING\<close>), or a frame from the wire.
\<close>

datatype recv_event = NotReady | RecvError | OutgoingFrame bytes | IncomingFrame bytes

datatype poll_event = PollFailed | PollReady "(int \<times> recv_event) list"

text \<open>The body of the loop over \<open>instance->fds\<close>, for a \<open>handle_packet\<close> that is given.\<close>

fun ustack_round ::
    "('a iface_info_scheme \<Rightarrow> bytes \<Rightarrow> 's \<Rightarrow> 's res) \<Rightarrow> ('a iface_info_scheme) list \<Rightarrow>
     (int \<times> recv_event) list \<Rightarrow> 's \<Rightarrow> 's res" where
  "ustack_round handle ifs [] s = Inr s"
| "ustack_round handle ifs ((fd, ev) # evs) s =
    (case ev of
       IncomingFrame pkt \<Rightarrow>
         (case fd_to_iface ifs fd of
            None \<Rightarrow> ustack_round handle ifs evs s
          | Some iface \<Rightarrow> bind_res (handle iface pkt s) (ustack_round handle ifs evs))
     | _ \<Rightarrow> ustack_round handle ifs evs s)"

text \<open>The outer \<open>while (1)\<close>: a failed \<open>poll\<close> ends the loop.\<close>

fun ustack_run ::
    "('a iface_info_scheme \<Rightarrow> bytes \<Rightarrow> 's \<Rightarrow> 's res) \<Rightarrow> ('a iface_info_scheme) list \<Rightarrow>
     poll_event list \<Rightarrow> 's \<Rightarrow> 's res" where
  "ustack_run handle ifs [] s = Inr s"
| "ustack_run handle ifs (PollFailed # ps) s = Inr s"
| "ustack_run handle ifs (PollReady evs # ps) s =
    bind_res (ustack_round handle ifs evs s) (ustack_run handle ifs ps)"

lemma ustack_round_invariant:
  assumes "ustack_round handle ifs evs s = Inr t" "P s"
    and "\<And>i pkt s t. i \<in> set ifs \<Longrightarrow> P s \<Longrightarrow> handle i pkt s = Inr t \<Longrightarrow> P t"
  shows "P t"
  using assms
proof (induction handle ifs evs s rule: ustack_round.induct)
  case (2 handle ifs fd ev evs s)
  then show ?case
    by (auto simp: fd_to_iface_def bind_res_Inr_conv find_Some_iff
        split: recv_event.splits option.splits) (metis nth_mem)+
qed simp

lemma ustack_run_invariant:
  assumes "ustack_run handle ifs ps s = Inr t" "P s"
    and "\<And>i pkt s t. i \<in> set ifs \<Longrightarrow> P s \<Longrightarrow> handle i pkt s = Inr t \<Longrightarrow> P t"
  shows "P t"
  using assms
proof (induction handle ifs ps s rule: ustack_run.induct)
  case (3 handle ifs evs ps s)
  then show ?case by (auto simp: bind_res_Inr_conv) (metis ustack_round_invariant)
qed simp_all

text \<open>
  The loop of the labs that hand the result of \<open>fd_to_iface\<close> on without looking at it.  On the descriptors of the
  interfaces, which are the ones that are polled, both loops do the same.
\<close>

fun ustack_round_unchecked ::
    "('a iface_info_scheme \<Rightarrow> bytes \<Rightarrow> 's \<Rightarrow> 's res) \<Rightarrow> ('a iface_info_scheme) list \<Rightarrow>
     (int \<times> recv_event) list \<Rightarrow> 's \<Rightarrow> 's res" where
  "ustack_round_unchecked handle ifs [] s = Inr s"
| "ustack_round_unchecked handle ifs ((fd, ev) # evs) s =
    (case ev of
       IncomingFrame pkt \<Rightarrow>
         (case fd_to_iface ifs fd of
            None \<Rightarrow> Inl NullDeref
          | Some iface \<Rightarrow> bind_res (handle iface pkt s) (ustack_round_unchecked handle ifs evs))
     | _ \<Rightarrow> ustack_round_unchecked handle ifs evs s)"

fun ustack_run_unchecked ::
    "('a iface_info_scheme \<Rightarrow> bytes \<Rightarrow> 's \<Rightarrow> 's res) \<Rightarrow> ('a iface_info_scheme) list \<Rightarrow>
     poll_event list \<Rightarrow> 's \<Rightarrow> 's res" where
  "ustack_run_unchecked handle ifs [] s = Inr s"
| "ustack_run_unchecked handle ifs (PollFailed # ps) s = Inr s"
| "ustack_run_unchecked handle ifs (PollReady evs # ps) s =
    bind_res (ustack_round_unchecked handle ifs evs s) (ustack_run_unchecked handle ifs ps)"

lemma ustack_round_unchecked_eq:
  "\<forall>(fd, ev) \<in> set evs. fd \<in> if_fd ` set ifs \<Longrightarrow> ustack_round_unchecked handle ifs evs s = ustack_round handle ifs evs s"
proof (induction handle ifs evs s rule: ustack_round_unchecked.induct)
  case (2 handle ifs fd ev evs s)
  then have "fd_to_iface ifs fd \<noteq> None" by (auto simp: fd_to_iface_def find_None_iff)
  with 2 show ?case
    by (auto split: recv_event.splits option.splits simp: bind_res_def split: sum.splits)
qed simp

section \<open>The loop beside other threads\<close>

text \<open>
  The labs that age tables start threads for it before \<open>main\<close> enters the loop.  \<open>wake e\<close> is one round of a thread, and \<open>due\<close> says
  which rounds, of which threads, come before the first frame, before the second, and so on; the rounds left
  over come after the last frame.
\<close>

definition catch_up :: "('e \<Rightarrow> 's \<Rightarrow> 's res) \<Rightarrow> 'e list list \<times> 's \<Rightarrow> ('e list list \<times> 's) res" where
  "catch_up wake = (\<lambda>(due, s). case due of [] \<Rightarrow> Inr ([], s)
     | es # due \<Rightarrow> bind_res (fold_res wake es s) (\<lambda>s. Inr (due, s)))"

definition beside ::
    "('e \<Rightarrow> 's \<Rightarrow> 's res) \<Rightarrow> ('i \<Rightarrow> bytes \<Rightarrow> 's \<Rightarrow> 's res) \<Rightarrow> 'i \<Rightarrow> bytes \<Rightarrow> 'e list list \<times> 's \<Rightarrow> ('e list list \<times> 's) res" where
  "beside wake handle iface pkt ds =
    bind_res (catch_up wake ds) (\<lambda>(due, s). bind_res (handle iface pkt s) (\<lambda>s. Inr (due, s)))"

definition threads_go_on :: "('e \<Rightarrow> 's \<Rightarrow> 's res) \<Rightarrow> 'e list list \<times> 's \<Rightarrow> 's res" where
  "threads_go_on wake = (\<lambda>(due, s). fold_res wake (concat due) s)"

lemma catch_up_invariant:
  assumes "catch_up wake (due, s) = Inr (due', t)" "P s" "\<And>e s t. P s \<Longrightarrow> wake e s = Inr t \<Longrightarrow> P t"
  shows "P t"
  using assms fold_res_invariant[of wake _ s t P]
  by (cases due) (auto simp: catch_up_def bind_res_Inr_conv)

lemma threads_go_on_invariant:
  assumes "threads_go_on wake ds = Inr t" "P (snd ds)" "\<And>e s t. P s \<Longrightarrow> wake e s = Inr t \<Longrightarrow> P t"
  shows "P t"
  using assms fold_res_invariant[of wake _ "snd ds" t P] by (cases ds) (auto simp: threads_go_on_def)

end
