(* ===== verification/Ip_Header.thy ===== *)
theory Ip_Header
  imports Checksum Device
begin

text \<open>
  The IP header of \<open>include/ip.h\<close> inside an Ethernet frame: field access at the byte offsets of
  \<open>struct iphdr\<close> behind the 14-byte Ethernet header (\<open>packet_to_ip_hdr\<close>), \<open>ip_checksum\<close> and
  \<open>ip_init_hdr\<close>.  The first byte holds \<open>version\<close> in the high and \<open>ihl\<close> in the low nibble.
\<close>

definition IPPROTO_ICMP :: u8 where "IPPROTO_ICMP = 1"
definition IPPROTO_TCP :: u8 where "IPPROTO_TCP = 6"
definition IPPROTO_OSPFv2 :: u8 where "IPPROTO_OSPFv2 = 89"
definition IP_DF :: u16 where "IP_DF = 0x4000"
definition DEFAULT_TTL :: u8 where "DEFAULT_TTL = 64"
definition IP_BASE_HDR_SIZE :: nat where "IP_BASE_HDR_SIZE = 20"
definition ETH_P_IP :: u16 where "ETH_P_IP = 0x0800"
definition ETH_P_ARP :: u16 where "ETH_P_ARP = 0x0806"

lemmas ip_consts = IPPROTO_ICMP_def IPPROTO_TCP_def IPPROTO_OSPFv2_def IP_DF_def DEFAULT_TTL_def
  IP_BASE_HDR_SIZE_def ETH_P_IP_def ETH_P_ARP_def ETHER_HDR_SIZE_def ETH_ALEN_def

section \<open>Fields\<close>

definition iph_ihl :: "bytes \<Rightarrow> nat" where "iph_ihl pkt = unat (ld8 pkt 14 AND 0x0f)"
definition iph_version :: "bytes \<Rightarrow> nat" where "iph_version pkt = unat (drop_bit 4 (ld8 pkt 14))"
definition iph_tot_len :: "bytes \<Rightarrow> u16" where "iph_tot_len pkt = ld16 pkt 16"
definition iph_id :: "bytes \<Rightarrow> u16" where "iph_id pkt = ld16 pkt 18"
definition iph_ttl :: "bytes \<Rightarrow> u8" where "iph_ttl pkt = ld8 pkt 22"
definition iph_protocol :: "bytes \<Rightarrow> u8" where "iph_protocol pkt = ld8 pkt 23"
definition iph_checksum :: "bytes \<Rightarrow> u16" where "iph_checksum pkt = ld16 pkt 24"
definition iph_saddr :: "bytes \<Rightarrow> u32" where "iph_saddr pkt = ld32 pkt 26"
definition iph_daddr :: "bytes \<Rightarrow> u32" where "iph_daddr pkt = ld32 pkt 30"

lemmas iph_defs = iph_ihl_def iph_version_def iph_tot_len_def iph_id_def iph_ttl_def
  iph_protocol_def iph_checksum_def iph_saddr_def iph_daddr_def

text \<open>\<open>IP_HDR_SIZE\<close>, and the offset of \<open>IP_DATA\<close> in the packet.\<close>

definition IP_HDR_SIZE :: "bytes \<Rightarrow> nat" where "IP_HDR_SIZE pkt = iph_ihl pkt * 4"
definition IP_DATA :: "bytes \<Rightarrow> nat" where "IP_DATA pkt = ETHER_HDR_SIZE + IP_HDR_SIZE pkt"

text \<open>The whole fixed header is inside the buffer, so that its fields can be read and written.\<close>

definition has_ip_hdr :: "bytes \<Rightarrow> bool" where
  "has_ip_hdr pkt \<longleftrightarrow> ETHER_HDR_SIZE + IP_BASE_HDR_SIZE \<le> length pkt"

section \<open>Checksum and initialisation\<close>

definition ip_checksum :: "bytes \<Rightarrow> u16 res" where
  "ip_checksum pkt =
    (if has_ip_hdr pkt \<and> IP_DATA pkt \<le> length pkt
     then Inr (checksum (slice (st16 pkt 24 0) ETHER_HDR_SIZE (IP_HDR_SIZE pkt)) 0)
     else Inl OutOfBounds)"

definition ip_set_checksum :: "bytes \<Rightarrow> bytes res" where
  "ip_set_checksum pkt = bind_res (ip_checksum pkt) (\<lambda>c. Inr (st16 pkt 24 c))"

text \<open>\<open>ip_init_hdr\<close>; the identifier is what \<open>rand()\<close> returned, truncated to 16 bits.\<close>

definition ip_init_hdr :: "nat \<Rightarrow> bytes \<Rightarrow> u32 \<Rightarrow> u32 \<Rightarrow> u16 \<Rightarrow> u8 \<Rightarrow> bytes res" where
  "ip_init_hdr rnd pkt saddr daddr len proto =
    (if \<not> has_ip_hdr pkt then Inl OutOfBounds
     else let p = st8 pkt 14 0x45;
              p = st8 p 15 0;
              p = st16 p 16 (htons len);
              p = st16 p 18 (of_nat rnd);
              p = st16 p 20 (htons IP_DF);
              p = st8 p 22 DEFAULT_TTL;
              p = st8 p 23 proto;
              p = st32 p 26 (htonl saddr);
              p = st32 p 30 (htonl daddr)
          in ip_set_checksum p)"

section \<open>What the header says\<close>

text \<open>A header whose checksum verifies, as a receiver checks it.\<close>

definition ip_hdr_valid :: "bytes \<Rightarrow> bool" where
  "ip_hdr_valid pkt \<longleftrightarrow> has_ip_hdr pkt \<and> 5 \<le> iph_ihl pkt \<and> IP_DATA pkt \<le> length pkt
    \<and> checksum (slice pkt ETHER_HDR_SIZE (IP_HDR_SIZE pkt)) 0 = 0"

lemma iph_ihl_less: "iph_ihl pkt < 16"
proof -
  have "ld8 pkt 14 AND 0x0f = take_bit 4 (ld8 pkt 14)"
    by (simp add: take_bit_eq_mask mask_eq_exp_minus_1)
  then show ?thesis
    by (simp only: iph_ihl_def unsigned_take_bit_eq) (simp add: take_bit_eq_mod)
qed

lemma slice_st16_inside:
  "off + j + 1 < off + n \<Longrightarrow> off + n \<le> length b \<Longrightarrow> slice (st16 b (off + j) v) off n = st16 (slice b off n) j v"
  by (rule nth_equalityI) (auto simp: slice_def st16_def nth_list_update)

lemma iph_ihl_st [bytes_simps]:
  "14 < i \<Longrightarrow> iph_ihl (st8 pkt i v8) = iph_ihl pkt"
  "14 < i \<Longrightarrow> iph_ihl (st16 pkt i v16) = iph_ihl pkt"
  "14 < i \<Longrightarrow> iph_ihl (st32 pkt i v32) = iph_ihl pkt"
  by (simp_all add: iph_ihl_def bytes_simps)

lemma ip_set_checksum_valid:
  assumes "ip_set_checksum pkt = Inr p" "5 \<le> iph_ihl pkt"
  shows "ip_hdr_valid p"
proof -
  define n where "n = IP_HDR_SIZE pkt"
  define h where "h = slice pkt 14 n"
  from assms have len: "34 \<le> length pkt" "14 + n \<le> length pkt" "20 \<le> n" "n \<le> 60"
    using iph_ihl_less[of pkt]
    by (auto simp: ip_set_checksum_def ip_checksum_def bind_res_Inr_conv has_ip_hdr_def ip_consts
        IP_DATA_def IP_HDR_SIZE_def n_def split: if_splits)
  from assms(1) have p: "p = st16 pkt 24 (checksum (slice (st16 pkt 24 0) 14 n) 0)"
    by (auto simp: ip_set_checksum_def ip_checksum_def bind_res_Inr_conv n_def ip_consts split: if_splits)
  have sl: "slice (st16 pkt 24 v) 14 n = st16 h 10 v" for v
    using slice_st16_inside[of 14 10 n pkt v] len by (simp add: h_def)
  have "checksum (st16 h (2 * 5) (checksum (st16 h (2 * 5) 0) 0)) 0 = 0"
  proof (rule checksum_verifies)
    have "word_sum (st16 h (2 * 5) 0) \<le> 65535 * 60"
      using word_sum_bound[of "st16 h (2 * 5) 0"] len by (simp add: h_def)
    then show "word_sum (st16 h (2 * 5) 0) + unat (0 :: u32) < 4294836224" by simp
  qed (use len in \<open>simp_all add: h_def\<close>)
  then have "checksum (slice p 14 n) 0 = 0" by (simp add: p sl)
  moreover have "iph_ihl p = iph_ihl pkt" "length p = length pkt" by (simp_all add: p bytes_simps)
  ultimately show ?thesis
    using len assms(2)
    by (simp add: ip_hdr_valid_def has_ip_hdr_def ip_consts IP_DATA_def IP_HDR_SIZE_def n_def)
qed

lemma ip_set_checksum_other:
  assumes "ip_set_checksum pkt = Inr p"
  shows "length p = length pkt" "i < 24 \<or> 25 < i \<Longrightarrow> p ! i = pkt ! i"
  using assms by (auto simp: ip_set_checksum_def bind_res_Inr_conv st16_def)

lemma iph_st16_24 [bytes_simps]:
  "iph_ttl (st16 p 24 v) = iph_ttl p"
  "iph_protocol (st16 p 24 v) = iph_protocol p"
  "iph_saddr (st16 p 24 v) = iph_saddr p" "iph_daddr (st16 p 24 v) = iph_daddr p"
  "iph_tot_len (st16 p 24 v) = iph_tot_len p"
  by (simp_all add: iph_defs bytes_simps)

lemma nibble_simps: "(0x45 :: u8) AND 0x0f = 5" "drop_bit 4 (0x45 :: u8) = 4"
  by (simp_all add: drop_bit_eq_div)

lemma ip_init_hdr_fields:
  assumes "ip_init_hdr rnd pkt saddr daddr len proto = Inr p"
  shows "ip_hdr_valid p" "iph_ihl p = 5" "iph_version p = 4" "ntohs (iph_tot_len p) = len"
    "iph_ttl p = DEFAULT_TTL" "iph_protocol p = proto" "ntohl (iph_saddr p) = saddr"
    "ntohl (iph_daddr p) = daddr" "length p = length pkt"
    "\<And>i. i < 14 \<or> 34 \<le> i \<Longrightarrow> p ! i = pkt ! i"
proof -
  from assms obtain q where len: "34 \<le> length pkt" and q: "ip_set_checksum q = Inr p"
    and qdef: "q = st32 (st32 (st8 (st8 (st16 (st16 (st16 (st8 (st8 pkt 14 0x45) 15 0) 16 (htons len))
      18 (of_nat rnd)) 20 (htons IP_DF)) 22 DEFAULT_TTL) 23 proto) 26 (htonl saddr)) 30 (htonl daddr)"
    by (auto simp: ip_init_hdr_def Let_def has_ip_hdr_def ip_consts split: if_splits)
  obtain c where p: "p = st16 q 24 c"
    using q by (auto simp: ip_set_checksum_def bind_res_Inr_conv)
  have ihl: "iph_ihl q = 5" using len by (simp add: qdef iph_defs bytes_simps nibble_simps)
  then show "ip_hdr_valid p" using ip_set_checksum_valid[OF q] by simp
  show "iph_ihl p = 5" using ihl by (simp add: p bytes_simps)
  show "iph_version p = 4" "ntohs (iph_tot_len p) = len" "iph_ttl p = DEFAULT_TTL"
    "iph_protocol p = proto" "ntohl (iph_saddr p) = saddr" "ntohl (iph_daddr p) = daddr" "length p = length pkt"
    using len by (simp_all add: p qdef iph_defs bytes_simps nibble_simps)
  show "p ! i = pkt ! i" if "i < 14 \<or> 34 \<le> i" for i
    using that by (auto simp: p qdef st16_def st32_def st8_def nth_list_update)
qed

lemma ip_init_hdr_ok:
  assumes "has_ip_hdr pkt"
  shows "\<exists>p. ip_init_hdr rnd pkt saddr daddr len proto = Inr p"
  using assms
  by (auto simp: ip_init_hdr_def ip_set_checksum_def ip_checksum_def Let_def has_ip_hdr_def ip_consts
      IP_DATA_def IP_HDR_SIZE_def iph_ihl_def bytes_simps nibble_simps)

end
