(* ===== verification/Tcp_Packet.thy ===== *)
theory Tcp_Packet
  imports Ip_Header
begin

text \<open>
  TCP segments (\<open>include/tcp.h\<close>, \<open>tcp.c\<close>, the header construction of \<open>tcp_out.c\<close>; labs 12 and 13):
  sequence number comparisons, header fields, the checksum with its pseudo header, the control block
  \<open>tcp_cb\<close> that is extracted from an incoming segment, and the bytes of an outgoing one.
\<close>

section \<open>Sequence numbers\<close>

text \<open>
  The macros subtract two \<open>int32_t\<close> and compare with zero; the difference wraps around, as it does
  in the code the Makefiles' flags (no optimisation) produce.
\<close>

definition less_or_equal_32b :: "u32 \<Rightarrow> u32 \<Rightarrow> bool" where
  "less_or_equal_32b a b \<longleftrightarrow> sint (a - b) \<le> 0"

definition less_than_32b :: "u32 \<Rightarrow> u32 \<Rightarrow> bool" where
  "less_than_32b a b \<longleftrightarrow> sint (a - b) < 0"

definition greater_or_equal_32b :: "u32 \<Rightarrow> u32 \<Rightarrow> bool" where
  "greater_or_equal_32b a b \<longleftrightarrow> sint (a - b) \<ge> 0"

definition greater_than_32b :: "u32 \<Rightarrow> u32 \<Rightarrow> bool" where
  "greater_than_32b a b \<longleftrightarrow> sint (a - b) > 0"

section \<open>Header\<close>

definition TCP_FIN :: u8 where "TCP_FIN = 0x01"
definition TCP_SYN :: u8 where "TCP_SYN = 0x02"
definition TCP_RST :: u8 where "TCP_RST = 0x04"
definition TCP_PSH :: u8 where "TCP_PSH = 0x08"
definition TCP_ACK :: u8 where "TCP_ACK = 0x10"
definition TCP_URG :: u8 where "TCP_URG = 0x20"
definition TCP_HDR_OFFSET :: u8 where "TCP_HDR_OFFSET = 5"
definition TCP_BASE_HDR_SIZE :: nat where "TCP_BASE_HDR_SIZE = 20"
definition TCP_MSS :: nat where
  "TCP_MSS = ETH_FRAME_LEN - ETHER_HDR_SIZE - IP_BASE_HDR_SIZE - TCP_BASE_HDR_SIZE"

lemmas tcp_flag_defs = TCP_FIN_def TCP_SYN_def TCP_RST_def TCP_PSH_def TCP_ACK_def TCP_URG_def

lemma TCP_MSS_eq: "TCP_MSS = 1460"
  by (simp add: TCP_MSS_def ETH_FRAME_LEN_def ip_consts TCP_BASE_HDR_SIZE_def)

text \<open>Fields of \<open>struct tcphdr\<close>, which starts at offset \<open>t\<close> of the packet.\<close>

definition th_sport :: "bytes \<Rightarrow> nat \<Rightarrow> u16" where "th_sport p t = ld16 p t"
definition th_dport :: "bytes \<Rightarrow> nat \<Rightarrow> u16" where "th_dport p t = ld16 p (t + 2)"
definition th_seq :: "bytes \<Rightarrow> nat \<Rightarrow> u32" where "th_seq p t = ld32 p (t + 4)"
definition th_ack :: "bytes \<Rightarrow> nat \<Rightarrow> u32" where "th_ack p t = ld32 p (t + 8)"
definition th_off :: "bytes \<Rightarrow> nat \<Rightarrow> nat" where "th_off p t = unat (drop_bit 4 (ld8 p (t + 12)))"
definition th_flags :: "bytes \<Rightarrow> nat \<Rightarrow> u8" where "th_flags p t = ld8 p (t + 13)"
definition th_rwnd :: "bytes \<Rightarrow> nat \<Rightarrow> u16" where "th_rwnd p t = ld16 p (t + 14)"
definition th_checksum :: "bytes \<Rightarrow> nat \<Rightarrow> u16" where "th_checksum p t = ld16 p (t + 16)"

lemmas th_defs = th_sport_def th_dport_def th_seq_def th_ack_def th_off_def th_flags_def
  th_rwnd_def th_checksum_def

definition packet_to_tcp_hdr :: "bytes \<Rightarrow> nat" where
  "packet_to_tcp_hdr pkt = ETHER_HDR_SIZE + IP_HDR_SIZE pkt"

text \<open>\<open>tcp_checksum\<close>: the pseudo header is added up in 32 bits, where a carry out is lost.\<close>

definition tcp_checksum :: "bytes \<Rightarrow> nat \<Rightarrow> u16 res" where
  "tcp_checksum pkt t =
    (let reserv_proto = (ucast (iph_protocol pkt) :: u16);
         tcp_len = ntohs (iph_tot_len pkt) - of_nat (IP_HDR_SIZE pkt);
         s = iph_saddr pkt + iph_daddr pkt + ucast (htons reserv_proto) + ucast (htons tcp_len)
     in if length pkt < t + TCP_BASE_HDR_SIZE \<or> length pkt < t + unat tcp_len then Inl OutOfBounds
        else Inr (checksum_loop (slice (st16 pkt (t + 16) 0) t (unat tcp_len)) s))"

section \<open>Incoming segments\<close>

record tcp_cb =
  cb_saddr :: u32
  cb_daddr :: u32
  cb_sport :: u16
  cb_dport :: u16
  cb_seq :: u32
  cb_seq_end :: u32
  cb_ack :: u32
  cb_rwnd :: u32
  cb_flags :: u8
  cb_payload :: bytes
  cb_pl_len :: int

definition has_flag :: "u8 \<Rightarrow> u8 \<Rightarrow> bool" where
  "has_flag flags f \<longleftrightarrow> flags AND f \<noteq> 0"

text \<open>The payload pointer is modelled by the bytes it points to.\<close>

definition tcp_cb_init :: "bytes \<Rightarrow> nat \<Rightarrow> tcp_cb" where
  "tcp_cb_init pkt t =
    (let len = int (unat (ntohs (iph_tot_len pkt))) - int (IP_HDR_SIZE pkt) - int (th_off pkt t * 4);
         seq = ntohl (th_seq pkt t) in
     \<lparr>cb_saddr = ntohl (iph_saddr pkt), cb_daddr = ntohl (iph_daddr pkt),
      cb_sport = ntohs (th_sport pkt t), cb_dport = ntohs (th_dport pkt t),
      cb_seq = seq,
      cb_seq_end = seq + of_int len + (if has_flag (th_flags pkt t) (TCP_SYN OR TCP_FIN) then 1 else 0),
      cb_ack = ntohl (th_ack pkt t), cb_rwnd = ucast (ntohs (th_rwnd pkt t)),
      cb_flags = th_flags pkt t,
      cb_payload = slice pkt (t + th_off pkt t * 4) (nat len), cb_pl_len = len\<rparr>)"

definition copy_flag_str :: "u8 \<Rightarrow> u8 \<Rightarrow> string \<Rightarrow> string" where
  "copy_flag_str flags flag str = (if has_flag flags flag then str else [])"

text \<open>The trailing bar is overwritten with the terminating zero.\<close>

definition tcp_copy_flags_to_str :: "u8 \<Rightarrow> string" where
  "tcp_copy_flags_to_str flags = butlast
    (copy_flag_str flags TCP_FIN ''FIN|'' @ copy_flag_str flags TCP_SYN ''SYN|'' @
     copy_flag_str flags TCP_RST ''RST|'' @ copy_flag_str flags TCP_PSH ''PSH|'' @
     copy_flag_str flags TCP_ACK ''ACK|'' @ copy_flag_str flags TCP_URG ''URG|'')"

section \<open>Outgoing segments\<close>

definition tcp_init_hdr :: "bytes \<Rightarrow> nat \<Rightarrow> u16 \<Rightarrow> u16 \<Rightarrow> u32 \<Rightarrow> u32 \<Rightarrow> u8 \<Rightarrow> u16 \<Rightarrow> bytes res" where
  "tcp_init_hdr pkt t sport dport seq ack flags rwnd =
    (if length pkt < t + TCP_BASE_HDR_SIZE then Inl OutOfBounds
     else let p = blit pkt t (zeros TCP_BASE_HDR_SIZE);
              p = st16 p t (htons sport);
              p = st16 p (t + 2) (htons dport);
              p = st32 p (t + 4) (htonl seq);
              p = st32 p (t + 8) (htonl ack);
              p = st8 p (t + 12) (push_bit 4 TCP_HDR_OFFSET);
              p = st8 p (t + 13) flags;
              p = st16 p (t + 14) (htons rwnd)
          in Inr p)"

text \<open>The two checksum assignments every sender ends with.\<close>

definition tcp_set_checksums :: "bytes \<Rightarrow> bytes res" where
  "tcp_set_checksums pkt =
    bind_res (tcp_checksum pkt (ETHER_HDR_SIZE + IP_BASE_HDR_SIZE)) (\<lambda>c.
      ip_set_checksum (st16 pkt (ETHER_HDR_SIZE + IP_BASE_HDR_SIZE + 16) c))"

text \<open>The header of a data segment, whose payload is in place: \<open>tcp_send_packet\<close> up to the checksums.\<close>

definition tcp_data_packet ::
    "nat \<Rightarrow> bytes \<Rightarrow> u32 \<Rightarrow> u32 \<Rightarrow> u16 \<Rightarrow> u16 \<Rightarrow> u32 \<Rightarrow> u32 \<Rightarrow> u8 \<Rightarrow> u16 \<Rightarrow> bytes res" where
  "tcp_data_packet rnd pkt saddr daddr sport dport seq ack flags rwnd =
    bind_res (tcp_init_hdr pkt (ETHER_HDR_SIZE + IP_BASE_HDR_SIZE) sport dport seq ack flags rwnd) (\<lambda>p.
    bind_res (ip_init_hdr rnd p saddr daddr (of_nat (length pkt - ETHER_HDR_SIZE)) IPPROTO_TCP)
      tcp_set_checksums)"

text \<open>
  A segment without payload, as \<open>tcp_send_control_packet\<close> and \<open>tcp_send_reset\<close> build it, the IP header
  first.  The Ethernet header is filled in later, so that every byte sent has been written.
\<close>

definition tcp_control_packet ::
    "nat \<Rightarrow> u32 \<Rightarrow> u32 \<Rightarrow> u16 \<Rightarrow> u16 \<Rightarrow> u32 \<Rightarrow> u32 \<Rightarrow> u8 \<Rightarrow> u16 \<Rightarrow> bytes res" where
  "tcp_control_packet rnd saddr daddr sport dport seq ack flags rwnd =
    (let pkt = zeros (ETHER_HDR_SIZE + IP_BASE_HDR_SIZE + TCP_BASE_HDR_SIZE);
         tot_len = of_nat (IP_BASE_HDR_SIZE + TCP_BASE_HDR_SIZE) in
     bind_res (ip_init_hdr rnd pkt saddr daddr tot_len IPPROTO_TCP) (\<lambda>p.
     bind_res (tcp_init_hdr p (ETHER_HDR_SIZE + IP_BASE_HDR_SIZE) sport dport seq ack flags rwnd)
       tcp_set_checksums))"

section \<open>What is sent is what is received\<close>

text \<open>The fields of a segment with a 20-byte IP header, in a buffer of \<open>54 + n\<close> bytes.\<close>

record tcp_fields =
  tf_saddr :: u32
  tf_daddr :: u32
  tf_sport :: u16
  tf_dport :: u16
  tf_seq :: u32
  tf_ack :: u32
  tf_flags :: u8
  tf_rwnd :: u16
  tf_data :: bytes

definition has_fields :: "tcp_fields \<Rightarrow> bytes \<Rightarrow> bool" where
  "has_fields f p \<longleftrightarrow> length p = 54 + length (tf_data f) \<and> iph_ihl p = 5
     \<and> ntohs (iph_tot_len p) = of_nat (40 + length (tf_data f)) \<and> iph_protocol p = IPPROTO_TCP
     \<and> ntohl (iph_saddr p) = tf_saddr f \<and> ntohl (iph_daddr p) = tf_daddr f
     \<and> ntohs (th_sport p 34) = tf_sport f \<and> ntohs (th_dport p 34) = tf_dport f
     \<and> ntohl (th_seq p 34) = tf_seq f \<and> ntohl (th_ack p 34) = tf_ack f \<and> th_off p 34 = 5
     \<and> th_flags p 34 = tf_flags f \<and> ntohs (th_rwnd p 34) = tf_rwnd f \<and> drop 54 p = tf_data f"

text \<open>A segment a receiver takes: both checksums verify and the fields are these.\<close>

definition tcp_segment :: "tcp_fields \<Rightarrow> bytes \<Rightarrow> bool" where
  "tcp_segment f p \<longleftrightarrow> has_fields f p \<and> ip_hdr_valid p \<and> tcp_checksum p 34 = Inr (th_checksum p 34)"

definition cb_of_fields :: "tcp_fields \<Rightarrow> tcp_cb" where
  "cb_of_fields f = \<lparr>cb_saddr = tf_saddr f, cb_daddr = tf_daddr f, cb_sport = tf_sport f, cb_dport = tf_dport f,
     cb_seq = tf_seq f,
     cb_seq_end = tf_seq f + of_nat (length (tf_data f)) + (if has_flag (tf_flags f) (TCP_SYN OR TCP_FIN) then 1 else 0),
     cb_ack = tf_ack f, cb_rwnd = ucast (tf_rwnd f), cb_flags = tf_flags f,
     cb_payload = tf_data f, cb_pl_len = int (length (tf_data f))\<rparr>"

lemma ld_drop:
  "ld8 (drop k p) i = ld8 p (k + i)" "ld16 (drop k p) i = ld16 p (k + i)" "ld32 (drop k p) i = ld32 p (k + i)"
  if "k \<le> length p"
  using that by (simp_all add: ld8_def ld16_def ld32_def add.assoc)

lemma cb_of_has_fields:
  assumes "has_fields f p" "length (tf_data f) \<le> 65495"
  shows "tcp_cb_init p 34 = cb_of_fields f"
proof -
  have "unat (of_nat (40 + length (tf_data f)) :: u16) = 40 + length (tf_data f)"
    using assms(2) by (subst unsigned_of_nat) (simp add: take_bit_eq_mod)
  with assms(1) show ?thesis
    by (simp add: has_fields_def tcp_cb_init_def cb_of_fields_def IP_HDR_SIZE_def slice_def Let_def)
qed

lemma tcp_set_checksums_segment:
  assumes "has_fields f q" "tcp_set_checksums q = Inr p" "length (tf_data f) \<le> 65495"
  shows "tcp_segment f p"
proof -
  have q: "length q = 54 + length (tf_data f)" "iph_ihl q = 5" using assms(1) by (simp_all add: has_fields_def)
  obtain c where c: "tcp_checksum q 34 = Inr c" and p: "ip_set_checksum (st16 q 50 c) = Inr p"
    using assms(2) by (auto simp: tcp_set_checksums_def bind_res_Inr_conv ip_consts)
  then obtain c' where c': "p = st16 (st16 q 50 c) 24 c'"
    by (auto simp: ip_set_checksum_def bind_res_Inr_conv)
  have fields: "iph_ihl p = iph_ihl q" "iph_tot_len p = iph_tot_len q" "iph_protocol p = iph_protocol q"
    "iph_saddr p = iph_saddr q" "iph_daddr p = iph_daddr q" "length p = length q"
    "th_sport p 34 = th_sport q 34" "th_dport p 34 = th_dport q 34" "th_seq p 34 = th_seq q 34"
    "th_ack p 34 = th_ack q 34" "th_off p 34 = th_off q 34" "th_flags p 34 = th_flags q 34"
    "th_rwnd p 34 = th_rwnd q 34" "th_checksum p 34 = c"
    using q(1) by (simp_all add: c' iph_defs th_defs bytes_simps)
  have "drop 54 p = drop 54 q" by (simp add: c' st16_def)
  with fields assms(1) have 1: "has_fields f p" by (simp add: has_fields_def)
  have 2: "ip_hdr_valid p"
    by (rule ip_set_checksum_valid[OF p]) (use q in \<open>simp add: bytes_simps\<close>)
  have "slice (st16 p 50 0) 34 n = slice (st16 q 50 0) 34 n" for n
    by (rule slice_cong_bytes) (use q(1) in \<open>auto simp: c' st16_def nth_list_update\<close>)
  then have "tcp_checksum p 34 = tcp_checksum q 34"
    using fields by (simp add: tcp_checksum_def IP_HDR_SIZE_def Let_def)
  with 1 2 c fields show ?thesis by (simp add: tcp_segment_def)
qed

lemma tcp_init_hdr_fields:
  assumes "tcp_init_hdr q t sport dport seq ack flags rwnd = Inr p"
  shows "length p = length q" "t + 20 \<le> length q" "\<And>i. i < t \<or> t + 20 \<le> i \<Longrightarrow> p ! i = q ! i"
    "ntohs (th_sport p t) = sport" "ntohs (th_dport p t) = dport" "ntohl (th_seq p t) = seq"
    "ntohl (th_ack p t) = ack" "th_off p t = 5" "th_flags p t = flags" "ntohs (th_rwnd p t) = rwnd"
proof -
  from assms have len: "t + 20 \<le> length q"
    by (auto simp: tcp_init_hdr_def TCP_BASE_HDR_SIZE_def split: if_splits)
  define z where "z = blit q t (zeros 20)"
  have z: "length z = length q" "\<And>i. i < t \<or> t + 20 \<le> i \<Longrightarrow> z ! i = q ! i"
  proof -
    show lz: "length z = length q" using len by (simp add: z_def)
    show "z ! i = q ! i" if "i < t \<or> t + 20 \<le> i" for i
    proof (cases "i < length q")
      case True
      then show ?thesis using len that by (auto simp: z_def nth_blit)
    next
      case False
      then have "\<not> i - t < 20" "\<not> i < t" using len by linarith+
      then show ?thesis using len by (simp add: z_def blit_def nth_append)
    qed
  qed
  have p: "p = st16 (st8 (st8 (st32 (st32 (st16 (st16 z t (htons sport)) (t + 2) (htons dport)) (t + 4) (htonl seq))
     (t + 8) (htonl ack)) (t + 12) (push_bit 4 TCP_HDR_OFFSET)) (t + 13) flags) (t + 14) (htons rwnd)"
    using assms len by (simp add: tcp_init_hdr_def TCP_BASE_HDR_SIZE_def Let_def z_def)
  show "t + 20 \<le> length q" by (rule len)
  show "p ! i = q ! i" if "i < t \<or> t + 20 \<le> i" for i
    using that z(2)[OF that] by (auto simp: p st16_def st32_def st8_def nth_list_update)
  have "drop_bit 4 (push_bit 4 TCP_HDR_OFFSET :: u8) = 5"
    by (simp add: TCP_HDR_OFFSET_def push_bit_eq_mult drop_bit_eq_div)
  then show "length p = length q"
    "ntohs (th_sport p t) = sport" "ntohs (th_dport p t) = dport" "ntohl (th_seq p t) = seq"
    "ntohl (th_ack p t) = ack" "th_off p t = 5" "th_flags p t = flags" "ntohs (th_rwnd p t) = rwnd"
    using len z(1) by (simp_all add: p th_defs bytes_simps)
qed

lemma th_cong:
  assumes "\<And>i. 34 \<le> i \<Longrightarrow> p ! i = q ! i"
  shows "th_sport p 34 = th_sport q 34" "th_dport p 34 = th_dport q 34" "th_seq p 34 = th_seq q 34"
    "th_ack p 34 = th_ack q 34" "th_off p 34 = th_off q 34" "th_flags p 34 = th_flags q 34"
    "th_rwnd p 34 = th_rwnd q 34"
  by (simp_all add: th_defs ld8_def ld16_def ld32_def assms)

lemma iph_cong:
  assumes "\<And>i. i < 34 \<Longrightarrow> p ! i = q ! i"
  shows "iph_ihl p = iph_ihl q" "iph_tot_len p = iph_tot_len q" "iph_protocol p = iph_protocol q"
    "iph_saddr p = iph_saddr q" "iph_daddr p = iph_daddr q"
  by (simp_all add: iph_defs ld8_def ld16_def ld32_def assms)

lemma data_fields:
  assumes a: "tcp_init_hdr pkt 34 sport dport seq ack flags rwnd = Inr a"
    and b: "ip_init_hdr rnd a saddr daddr (of_nat (length pkt - 14)) IPPROTO_TCP = Inr b"
    and "length pkt = 54 + length data" "drop 54 pkt = data"
  shows "has_fields \<lparr>tf_saddr = saddr, tf_daddr = daddr, tf_sport = sport, tf_dport = dport, tf_seq = seq,
    tf_ack = ack, tf_flags = flags, tf_rwnd = rwnd, tf_data = data\<rparr> b"
proof -
  note fa = tcp_init_hdr_fields[OF a] and fb = ip_init_hdr_fields[OF b]
  have t: "th_sport b 34 = th_sport a 34" "th_dport b 34 = th_dport a 34" "th_seq b 34 = th_seq a 34"
    "th_ack b 34 = th_ack a 34" "th_off b 34 = th_off a 34" "th_flags b 34 = th_flags a 34"
    "th_rwnd b 34 = th_rwnd a 34"
    using th_cong[of b a] fb(10) by simp_all
  have "drop 54 b = drop 54 pkt"
    by (rule nth_equalityI) (use fa(1-3) fb(9,10) in auto)
  then show ?thesis
    using fa(1,2,4-10) fb(2-9) t assms(3,4) by (simp add: has_fields_def)
qed

lemma control_fields:
  assumes a: "ip_init_hdr rnd (zeros 54) saddr daddr 40 IPPROTO_TCP = Inr a"
    and b: "tcp_init_hdr a 34 sport dport seq ack flags rwnd = Inr b"
  shows "has_fields \<lparr>tf_saddr = saddr, tf_daddr = daddr, tf_sport = sport, tf_dport = dport, tf_seq = seq,
    tf_ack = ack, tf_flags = flags, tf_rwnd = rwnd, tf_data = []\<rparr> b"
proof -
  note fa = ip_init_hdr_fields[OF a] and fb = tcp_init_hdr_fields[OF b]
  have t: "iph_ihl b = iph_ihl a" "iph_tot_len b = iph_tot_len a" "iph_protocol b = iph_protocol a"
    "iph_saddr b = iph_saddr a" "iph_daddr b = iph_daddr a"
    using iph_cong[of b a] fb(3) by simp_all
  show ?thesis using fa(2-9) fb(1,2,4-10) t by (simp add: has_fields_def)
qed

lemma tcp_checksum_ok:
  "iph_ihl q = 5 \<Longrightarrow> ntohs (iph_tot_len q) = of_nat (40 + n) \<Longrightarrow> n \<le> 65495 \<Longrightarrow> length q = 54 + n \<Longrightarrow>
    \<exists>c. tcp_checksum q 34 = Inr c"
proof -
  assume *: "iph_ihl q = 5" "ntohs (iph_tot_len q) = of_nat (40 + n)" "n \<le> 65495" "length q = 54 + n"
  have "ntohs (iph_tot_len q) - of_nat (IP_HDR_SIZE q) = (of_nat (20 + n) :: u16)"
    using * by (simp add: IP_HDR_SIZE_def)
  moreover have "unat (of_nat (20 + n) :: u16) = 20 + n"
    using * by (subst unsigned_of_nat) (simp add: take_bit_eq_mod)
  ultimately show ?thesis using * by (simp add: tcp_checksum_def Let_def TCP_BASE_HDR_SIZE_def)
qed

lemma tcp_set_checksums_ok:
  assumes "has_fields f q" "length (tf_data f) \<le> 65495"
  shows "\<exists>p. tcp_set_checksums q = Inr p"
proof -
  obtain c where "tcp_checksum q 34 = Inr c"
    using tcp_checksum_ok[of q "length (tf_data f)"] assms by (auto simp: has_fields_def)
  moreover have "iph_ihl (st16 q 50 c) = 5" "length (st16 q 50 c) = length q"
    using assms by (simp_all add: has_fields_def bytes_simps)
  ultimately show ?thesis using assms
    by (simp add: tcp_set_checksums_def ip_consts ip_set_checksum_def ip_checksum_def has_ip_hdr_def IP_DATA_def
        IP_HDR_SIZE_def has_fields_def)
qed

lemma tcp_init_hdr_ok: "t + 20 \<le> length q \<Longrightarrow> \<exists>p. tcp_init_hdr q t sport dport seq ack flags rwnd = Inr p"
  by (simp add: tcp_init_hdr_def TCP_BASE_HDR_SIZE_def Let_def)

lemma tcp_data_packet_segment:
  assumes "length pkt = 54 + length data" "drop 54 pkt = data" "length data \<le> 65495"
  shows "\<exists>p. tcp_data_packet rnd pkt saddr daddr sport dport seq ack flags rwnd = Inr p \<and>
    tcp_segment \<lparr>tf_saddr = saddr, tf_daddr = daddr, tf_sport = sport, tf_dport = dport, tf_seq = seq,
      tf_ack = ack, tf_flags = flags, tf_rwnd = rwnd, tf_data = data\<rparr> p"
proof -
  obtain a where a: "tcp_init_hdr pkt 34 sport dport seq ack flags rwnd = Inr a"
    using tcp_init_hdr_ok[of 34 pkt sport dport seq ack flags rwnd] assms(1) by auto
  have "has_ip_hdr a" using tcp_init_hdr_fields(1,2)[OF a] by (simp add: has_ip_hdr_def ip_consts)
  then obtain b where b: "ip_init_hdr rnd a saddr daddr (of_nat (length pkt - 14)) IPPROTO_TCP = Inr b"
    using ip_init_hdr_ok by blast
  note f = data_fields[OF a b assms(1,2)]
  with tcp_set_checksums_ok[OF f] assms(3) obtain p where p: "tcp_set_checksums b = Inr p" by auto
  then have "tcp_data_packet rnd pkt saddr daddr sport dport seq ack flags rwnd = Inr p"
    using a b by (simp add: tcp_data_packet_def ip_consts)
  with tcp_set_checksums_segment[OF f p] assms(3) show ?thesis by simp
qed

lemma tcp_control_packet_segment:
  "\<exists>p. tcp_control_packet rnd saddr daddr sport dport seq ack flags rwnd = Inr p \<and>
    tcp_segment \<lparr>tf_saddr = saddr, tf_daddr = daddr, tf_sport = sport, tf_dport = dport, tf_seq = seq,
      tf_ack = ack, tf_flags = flags, tf_rwnd = rwnd, tf_data = []\<rparr> p"
proof -
  have "has_ip_hdr (zeros 54)" by (simp add: has_ip_hdr_def ip_consts)
  then obtain a where a: "ip_init_hdr rnd (zeros 54) saddr daddr 40 IPPROTO_TCP = Inr a"
    using ip_init_hdr_ok by blast
  obtain b where b: "tcp_init_hdr a 34 sport dport seq ack flags rwnd = Inr b"
    using tcp_init_hdr_ok[of 34 a sport dport seq ack flags rwnd] ip_init_hdr_fields(9)[OF a] by auto
  note f = control_fields[OF a b]
  with tcp_set_checksums_ok[OF f] obtain p where p: "tcp_set_checksums b = Inr p" by auto
  then have "tcp_control_packet rnd saddr daddr sport dport seq ack flags rwnd = Inr p"
    using a b by (simp add: tcp_control_packet_def ip_consts TCP_BASE_HDR_SIZE_def Let_def)
  with tcp_set_checksums_segment[OF f p] show ?thesis by simp
qed

lemma tcp_segment_cb: "tcp_segment f p \<Longrightarrow> length (tf_data f) \<le> 65495 \<Longrightarrow> tcp_cb_init p 34 = cb_of_fields f"
  by (simp add: tcp_segment_def cb_of_has_fields)

section \<open>Properties\<close>

text \<open>
  C32: segments survive the wire.  The bytes of a data segment with up to 65495 bytes of payload, and
  those of a control segment, carry an IP header that is valid and a TCP checksum that the
  receiver's \<open>tcp_checksum\<close> reproduces, and \<open>tcp_cb_init\<close> extracts from them exactly the addresses,
  ports, numbers, flags, window and payload they were built from, with \<open>seq_end\<close> behind the
  payload and the SYN or FIN.
\<close>
theorem tcp_segment_roundtrip:
  assumes "length data \<le> 65495" "length pkt = 54"
  shows "\<exists>p. (if data = [] \<and> control then tcp_control_packet rnd saddr daddr sport dport seq ack flags rwnd
              else tcp_data_packet rnd (pkt @ data) saddr daddr sport dport seq ack flags rwnd) = Inr p \<and>
    ip_hdr_valid p \<and> iph_protocol p = IPPROTO_TCP \<and> packet_to_tcp_hdr p = 34 \<and>
    tcp_checksum p 34 = Inr (th_checksum p 34) \<and>
    tcp_cb_init p 34 = \<lparr>cb_saddr = saddr, cb_daddr = daddr, cb_sport = sport, cb_dport = dport,
      cb_seq = seq,
      cb_seq_end = seq + of_nat (length data) + (if has_flag flags (TCP_SYN OR TCP_FIN) then 1 else 0),
      cb_ack = ack, cb_rwnd = ucast rwnd, cb_flags = flags, cb_payload = data, cb_pl_len = int (length data)\<rparr>"
proof -
  define f where "f = \<lparr>tf_saddr = saddr, tf_daddr = daddr, tf_sport = sport, tf_dport = dport, tf_seq = seq,
      tf_ack = ack, tf_flags = flags, tf_rwnd = rwnd, tf_data = data\<rparr>"
  have "\<exists>p. (if data = [] \<and> control then tcp_control_packet rnd saddr daddr sport dport seq ack flags rwnd
              else tcp_data_packet rnd (pkt @ data) saddr daddr sport dport seq ack flags rwnd) = Inr p \<and> tcp_segment f p"
    using tcp_control_packet_segment[of rnd saddr daddr sport dport seq ack flags rwnd]
      tcp_data_packet_segment[of "pkt @ data" data rnd saddr daddr sport dport seq ack flags rwnd] assms
    by (auto simp: f_def)
  then obtain p where p: "(if data = [] \<and> control then tcp_control_packet rnd saddr daddr sport dport seq ack flags rwnd
              else tcp_data_packet rnd (pkt @ data) saddr daddr sport dport seq ack flags rwnd) = Inr p" "tcp_segment f p"
    by blast
  have "tcp_cb_init p 34 = cb_of_fields f" using tcp_segment_cb[OF p(2)] assms(1) by (simp add: f_def)
  with p show ?thesis
    by (intro exI[of _ p]) (simp add: tcp_segment_def has_fields_def cb_of_fields_def f_def packet_to_tcp_hdr_def
        IP_HDR_SIZE_def ip_consts)
qed

theorem tcp_segment_roundtrip_witness:
  "\<exists>p. tcp_data_packet 5 (zeros 54 @ [104, 105]) 1 2 3 4 5 6 (TCP_PSH OR TCP_ACK) 7 = Inr p \<and>
    tcp_checksum p 34 = Inr (th_checksum p 34) \<and> cb_payload (tcp_cb_init p 34) = [104, 105] \<and>
    cb_seq_end (tcp_cb_init p 34) = 7"
  using tcp_segment_roundtrip[of "[104, 105]" "zeros 54" False 5 1 2 3 4 5 6 "TCP_PSH OR TCP_ACK" 7]
  by (auto simp: has_flag_def tcp_flag_defs)

end
