(* ===== verification/Ring_Buffer.thy ===== *)
theory Ring_Buffer
  imports Netlab_Prelude
begin

text \<open>
  The ring buffer behind a socket's receive queue (\<open>include/ring_buffer.h\<close>): a byte array of which one
  byte always stays free, read at \<open>head\<close> and written at \<open>tail\<close>.  \<open>contents\<close> is the abstraction: the
  bytes that are in the buffer, oldest first.  The operations refine a bounded byte queue, whose
  laws are the locale \<open>byte_queue\<close>.
\<close>

record ring_buffer =
  rb_size :: nat
  rb_head :: nat
  rb_tail :: nat
  rb_buf :: bytes

definition alloc_ring_buffer :: "nat \<Rightarrow> ring_buffer" where
  "alloc_ring_buffer sz = \<lparr>rb_size = sz + 1, rb_head = 0, rb_tail = 0, rb_buf = zeros (sz + 1)\<rparr>"

text \<open>In C \<open>tail - head + size\<close>, whose operands are added in another order to stay above zero.\<close>

definition ring_buffer_used :: "ring_buffer \<Rightarrow> nat" where
  "ring_buffer_used rb = (rb_tail rb + rb_size rb - rb_head rb) mod rb_size rb"

definition ring_buffer_free :: "ring_buffer \<Rightarrow> nat" where
  "ring_buffer_free rb = rb_size rb - (rb_tail rb + rb_size rb - rb_head rb) mod rb_size rb - 1"

definition ring_buffer_empty :: "ring_buffer \<Rightarrow> bool" where
  "ring_buffer_empty rb \<longleftrightarrow> ring_buffer_used rb = 0"

definition ring_buffer_full :: "ring_buffer \<Rightarrow> bool" where
  "ring_buffer_full rb \<longleftrightarrow> ring_buffer_free rb = 0"

text \<open>The bytes copied out and the buffer afterwards.\<close>

definition read_ring_buffer :: "ring_buffer \<Rightarrow> nat \<Rightarrow> bytes \<times> ring_buffer" where
  "read_ring_buffer rb sz =
    (let len = min (ring_buffer_used rb) sz in
     if len > 0 then
       (let out = (if rb_head rb + len > rb_size rb
                   then let right = rb_size rb - rb_head rb; left = len - right
                        in slice (rb_buf rb) (rb_head rb) right @ slice (rb_buf rb) 0 left
                   else slice (rb_buf rb) (rb_head rb) len)
        in (out, rb\<lparr>rb_head := (rb_head rb + len) mod rb_size rb\<rparr>))
     else ([], rb))"

definition write_ring_buffer :: "ring_buffer \<Rightarrow> bytes \<Rightarrow> ring_buffer res" where
  "write_ring_buffer rb buf =
    (let len = length buf in
     if \<not> (0 < len \<and> len \<le> ring_buffer_free rb) then Inl AssertFailed
     else let b = (if rb_tail rb + len > rb_size rb
                   then let right = rb_size rb - rb_tail rb
                        in blit (blit (rb_buf rb) (rb_tail rb) (take right buf)) 0 (drop right buf)
                   else blit (rb_buf rb) (rb_tail rb) buf)
          in Inr (rb\<lparr>rb_buf := b, rb_tail := (rb_tail rb + len) mod rb_size rb\<rparr>))"

section \<open>Abstraction\<close>

definition rb_inv :: "ring_buffer \<Rightarrow> bool" where
  "rb_inv rb \<longleftrightarrow> length (rb_buf rb) = rb_size rb \<and> rb_head rb < rb_size rb \<and> rb_tail rb < rb_size rb"

definition contents :: "ring_buffer \<Rightarrow> bytes" where
  "contents rb = map (\<lambda>i. rb_buf rb ! ((rb_head rb + i) mod rb_size rb)) [0..<ring_buffer_used rb]"

definition capacity :: "ring_buffer \<Rightarrow> nat" where
  "capacity rb = rb_size rb - 1"

lemma length_contents [simp]: "length (contents rb) = ring_buffer_used rb"
  by (simp add: contents_def)

lemma nth_contents: "i < ring_buffer_used rb \<Longrightarrow> contents rb ! i = rb_buf rb ! ((rb_head rb + i) mod rb_size rb)"
  by (simp add: contents_def)

lemma used_less: "rb_inv rb \<Longrightarrow> ring_buffer_used rb < rb_size rb"
  by (simp add: ring_buffer_used_def rb_inv_def)

lemma used_cases:
  assumes "rb_inv rb"
  shows "rb_head rb \<le> rb_tail rb \<and> ring_buffer_used rb = rb_tail rb - rb_head rb
    \<or> rb_tail rb < rb_head rb \<and> ring_buffer_used rb = rb_size rb - rb_head rb + rb_tail rb"
proof (cases "rb_head rb \<le> rb_tail rb")
  case True
  then have "rb_tail rb + rb_size rb - rb_head rb = (rb_tail rb - rb_head rb) + rb_size rb" by simp
  then have "ring_buffer_used rb = (rb_tail rb - rb_head rb) mod rb_size rb"
    by (simp add: ring_buffer_used_def)
  moreover have "rb_tail rb - rb_head rb < rb_size rb" using assms unfolding rb_inv_def by linarith
  ultimately show ?thesis using True by simp
next
  case False
  have "rb_tail rb + rb_size rb - rb_head rb < rb_size rb" using assms False unfolding rb_inv_def by linarith
  with False assms show ?thesis by (simp add: ring_buffer_used_def rb_inv_def)
qed

lemma free_used: "rb_inv rb \<Longrightarrow> ring_buffer_free rb + ring_buffer_used rb = capacity rb"
  using used_less[of rb] by (simp add: ring_buffer_free_def ring_buffer_used_def capacity_def)

lemma rb_inv_alloc: "rb_inv (alloc_ring_buffer n)" "contents (alloc_ring_buffer n) = []"
  "capacity (alloc_ring_buffer n) = n"
  by (simp_all add: rb_inv_def alloc_ring_buffer_def contents_def ring_buffer_used_def capacity_def)

lemma mod_wrap: "(a :: nat) < n \<Longrightarrow> b < n \<Longrightarrow> (a + b) mod n = (if a + b < n then a + b else a + b - n)"
  by (simp add: mod_if)

text \<open>The \<open>l\<close> bytes from \<open>h\<close> on, around the end of the buffer.\<close>

definition window :: "bytes \<Rightarrow> nat \<Rightarrow> nat \<Rightarrow> bytes" where
  "window b h l = map (\<lambda>i. b ! ((h + i) mod length b)) [0..<l]"

lemma window_take: "window b h (min l k) = take k (window b h l)"
  by (rule nth_equalityI) (auto simp: window_def)

lemma window_drop: "window b ((h + k) mod length b) (l - k) = drop k (window b h l)"
  by (rule nth_equalityI) (auto simp: window_def mod_add_left_eq add.assoc less_diff_conv)

lemma window_slices:
  assumes "length b = n" "h < n" "len < n"
  shows "(if h + len > n then slice b h (n - h) @ slice b 0 (len - (n - h)) else slice b h len) = window b h len"
proof (rule nth_equalityI)
  fix i assume "i < length (if h + len > n then slice b h (n - h) @ slice b 0 (len - (n - h)) else slice b h len)"
  with assms show "(if h + len > n then slice b h (n - h) @ slice b 0 (len - (n - h)) else slice b h len) ! i = window b h len ! i"
    by (auto simp: window_def nth_append nth_slice mod_wrap slice_def add.commute)
qed (use assms in \<open>auto simp: window_def slice_def\<close>)

lemma contents_window: "rb_inv rb \<Longrightarrow> contents rb = window (rb_buf rb) (rb_head rb) (ring_buffer_used rb)"
  by (simp add: contents_def window_def rb_inv_def)

lemma used_head:
  assumes "rb_inv rb" "len \<le> ring_buffer_used rb"
  shows "ring_buffer_used (rb\<lparr>rb_head := (rb_head rb + len) mod rb_size rb\<rparr>) = ring_buffer_used rb - len"
proof -
  let ?rb = "rb\<lparr>rb_head := (rb_head rb + len) mod rb_size rb\<rparr>"
  have "rb_inv ?rb" using assms(1) by (simp add: rb_inv_def)
  moreover have "rb_head rb < rb_size rb" "len < rb_size rb" "rb_tail rb < rb_size rb"
    using assms used_less[of rb] by (simp_all add: rb_inv_def)
  ultimately show ?thesis
    using used_cases[of ?rb] used_cases[OF assms(1)] assms(2) by (auto simp: mod_wrap split: if_splits)
qed

lemma used_tail:
  assumes "rb_inv rb" "ring_buffer_used rb + len < rb_size rb" "length b = rb_size rb"
  shows "ring_buffer_used (rb\<lparr>rb_buf := b, rb_tail := (rb_tail rb + len) mod rb_size rb\<rparr>) = ring_buffer_used rb + len"
proof -
  let ?rb = "rb\<lparr>rb_buf := b, rb_tail := (rb_tail rb + len) mod rb_size rb\<rparr>"
  have "rb_inv ?rb" using assms by (simp add: rb_inv_def)
  moreover have "rb_head rb < rb_size rb" "rb_tail rb < rb_size rb" using assms by (simp_all add: rb_inv_def)
  ultimately show ?thesis
    using used_cases[of ?rb] used_cases[OF assms(1)] assms(2) by (auto simp: mod_wrap split: if_splits)
qed

lemma read_window:
  assumes "rb_inv rb"
  shows "read_ring_buffer rb k = (window (rb_buf rb) (rb_head rb) (min (ring_buffer_used rb) k),
    rb\<lparr>rb_head := (rb_head rb + min (ring_buffer_used rb) k) mod rb_size rb\<rparr>)"
proof -
  define len where "len = min (ring_buffer_used rb) k"
  have b: "length (rb_buf rb) = rb_size rb" "rb_head rb < rb_size rb" "len < rb_size rb"
    using assms used_less[OF assms] by (auto simp: rb_inv_def len_def)
  from window_slices[OF b] b show ?thesis
    unfolding read_ring_buffer_def len_def[symmetric]
    by (cases "rb_size rb < rb_head rb + len"; cases "len = 0") (simp_all add: Let_def window_def)
qed

lemma read_ring_buffer_contents:
  assumes "rb_inv rb"
  shows "fst (read_ring_buffer rb k) = take k (contents rb)"
    and "contents (snd (read_ring_buffer rb k)) = drop k (contents rb)"
    and "rb_inv (snd (read_ring_buffer rb k))"
    and "capacity (snd (read_ring_buffer rb k)) = capacity rb"
proof -
  let ?len = "min (ring_buffer_used rb) k"
  show inv: "rb_inv (snd (read_ring_buffer rb k))" using assms by (simp add: read_window rb_inv_def)
  show "capacity (snd (read_ring_buffer rb k)) = capacity rb" using assms by (simp add: read_window capacity_def)
  show "fst (read_ring_buffer rb k) = take k (contents rb)" by (simp add: read_window assms contents_window window_take)
  have "contents (snd (read_ring_buffer rb k)) = drop ?len (contents rb)"
    using window_drop[of "rb_buf rb" "rb_head rb" ?len "ring_buffer_used rb"] used_head[OF assms, of ?len] assms inv
    by (simp add: contents_window read_window rb_inv_def)
  then show "contents (snd (read_ring_buffer rb k)) = drop k (contents rb)" by (simp add: min_def)
qed

lemma write_buf_nth:
  assumes "length b = n" "t < n" "length src < n" "j < n"
  shows "(if t + length src > n then blit (blit b t (take (n - t) src)) 0 (drop (n - t) src) else blit b t src) ! j
    = (if t \<le> j \<and> j < t + length src then src ! (j - t)
       else if j + n < t + length src then src ! (j + n - t) else b ! j)"
proof (cases "t + length src > n")
  case True
  have l1: "length (take (n - t) src) = n - t" using True by simp
  have l2: "length (blit b t (take (n - t) src)) = n" using assms l1 by simp
  have "blit (blit b t (take (n - t) src)) 0 (drop (n - t) src) ! j =
      (if j < length (drop (n - t) src) then drop (n - t) src ! j else blit b t (take (n - t) src) ! j)"
    using assms l2 True by (subst nth_blit) auto
  also have "\<dots> = (if j + n < t + length src then src ! (j + n - t) else if j < t then b ! j else src ! (j - t))"
  proof -
    have "drop (n - t) src ! j = src ! (j + n - t)" if "j + n < t + length src"
      using that assms True by (simp add: add.commute)
    moreover have "blit b t (take (n - t) src) ! j = (if j < t then b ! j else src ! (j - t))"
      using assms l1 True by (subst nth_blit) auto
    moreover have "j < length (drop (n - t) src) \<longleftrightarrow> j + n < t + length src" using assms True by auto
    ultimately show ?thesis by auto
  qed
  finally show ?thesis using True assms by auto
next
  case False
  then show ?thesis using assms by (auto simp: nth_blit)
qed

lemma window_write:
  assumes "length b = n" "h < n" "t = (h + u) mod n" "0 < length src" "u + length src < n"
  shows "window (if t + length src > n then blit (blit b t (take (n - t) src)) 0 (drop (n - t) src) else blit b t src) h (u + length src)
    = window b h u @ src"
proof (rule nth_equalityI)
  let ?b = "if t + length src > n then blit (blit b t (take (n - t) src)) 0 (drop (n - t) src) else blit b t src"
  show "length (window ?b h (u + length src)) = length (window b h u @ src)" by (simp add: window_def)
  fix i assume "i < length (window ?b h (u + length src))"
  then have i: "i < u + length src" by (simp add: window_def)
  define j where "j = (if h + i < n then h + i else h + i - n)"
  have t: "t = (if h + u < n then h + u else h + u - n)" using assms mod_wrap[of h n u] by simp
  have j: "j < n" "(h + i) mod n = j" using mod_wrap[of h n i] assms i by (auto simp: j_def)
  have "t < n" using assms(2,3) by simp
  then have "length ?b = n" using assms(1,5) by auto
  with i j have "window ?b h (u + length src) ! i = ?b ! j" by (simp add: window_def)
  also have "\<dots> = (if i < u then b ! j else src ! (i - u))"
    using write_buf_nth[OF assms(1) _ _ j(1), of t src] i assms(2,5) t unfolding j_def
    by (auto split: if_splits simp: Nat.diff_diff_eq intro!: arg_cong[of _ _ "(!) src"])
  finally show "window ?b h (u + length src) ! i = (window b h u @ src) ! i"
    using i j assms(1) by (simp add: window_def nth_append)
qed

lemma used_tail_eq: "rb_inv rb \<Longrightarrow> rb_tail rb = (rb_head rb + ring_buffer_used rb) mod rb_size rb"
  using used_cases[of rb] used_less[of rb] by (auto simp: rb_inv_def mod_wrap)

lemma write_ring_buffer_contents:
  assumes "rb_inv rb" "write_ring_buffer rb src = Inr rb'"
  shows "contents rb' = contents rb @ src" "rb_inv rb'" "capacity rb' = capacity rb"
proof -
  let ?n = "rb_size rb" and ?t = "rb_tail rb" and ?u = "ring_buffer_used rb"
  let ?b = "if ?t + length src > ?n then blit (blit (rb_buf rb) ?t (take (?n - ?t) src)) 0 (drop (?n - ?t) src) else blit (rb_buf rb) ?t src"
  have len: "0 < length src" "?u + length src < ?n"
    using assms free_used[OF assms(1)]
    by (auto simp: write_ring_buffer_def Let_def capacity_def rb_inv_def split: if_splits)
  have rb': "rb' = rb\<lparr>rb_buf := ?b, rb_tail := (?t + length src) mod ?n\<rparr>"
    using assms(2) by (auto simp: write_ring_buffer_def Let_def split: if_splits)
  have lb: "length ?b = ?n" using assms(1) len by (auto simp: rb_inv_def)
  then show inv: "rb_inv rb'" using assms(1) by (simp add: rb' rb_inv_def)
  show "capacity rb' = capacity rb" by (simp add: rb' capacity_def)
  have "contents rb' = window ?b (rb_head rb) (?u + length src)"
    using used_tail[OF assms(1) len(2) lb] inv by (simp add: contents_window rb')
  also have "\<dots> = contents rb @ src"
    using window_write[OF _ _ used_tail_eq[OF assms(1)] len, of "rb_buf rb"] assms(1)
    by (simp add: contents_window rb_inv_def)
  finally show "contents rb' = contents rb @ src" .
qed

lemma write_ring_buffer_ok:
  "rb_inv rb \<Longrightarrow> 0 < length src \<Longrightarrow> length (contents rb) + length src \<le> capacity rb \<Longrightarrow>
    \<exists>rb'. write_ring_buffer rb src = Inr rb'"
  using free_used[of rb] by (auto simp: write_ring_buffer_def Let_def)

section \<open>The interface the TCP code uses\<close>

text \<open>
  A bounded byte queue: writing appends when there is room, reading takes from the front.  The client
  lemma is about any sequence of calls: the bytes read so far, followed by what is still in the
  queue, are exactly the bytes accepted so far, in order.
\<close>

datatype queue_call = Put bytes | Get nat

locale byte_queue =
  fixes cont :: "'q \<Rightarrow> bytes"
    and cap :: "'q \<Rightarrow> nat"
    and inv :: "'q \<Rightarrow> bool"
    and put :: "'q \<Rightarrow> bytes \<Rightarrow> 'q res"
    and get :: "'q \<Rightarrow> nat \<Rightarrow> bytes \<times> 'q"
  assumes put_spec: "inv q \<Longrightarrow> put q b = Inr q' \<Longrightarrow> cont q' = cont q @ b \<and> inv q' \<and> cap q' = cap q"
    and put_room: "inv q \<Longrightarrow> (\<exists>q'. put q b = Inr q') \<longleftrightarrow> 0 < length b \<and> length (cont q) + length b \<le> cap q"
    and get_spec: "inv q \<Longrightarrow> fst (get q k) = take k (cont q) \<and> cont (snd (get q k)) = drop k (cont q)
      \<and> inv (snd (get q k)) \<and> cap (snd (get q k)) = cap q"
begin

text \<open>State, bytes accepted, bytes read; a refused write changes nothing.\<close>

fun call :: "queue_call \<Rightarrow> 'q \<times> bytes \<times> bytes \<Rightarrow> 'q \<times> bytes \<times> bytes" where
  "call (Put b) (q, i, outp) = (case put q b of Inl _ \<Rightarrow> (q, i, outp) | Inr q' \<Rightarrow> (q', i @ b, outp))"
| "call (Get k) (q, i, outp) = (snd (get q k), i, outp @ fst (get q k))"

lemma call_fifo:
  assumes "inv q" "i = outp @ cont q" "call c (q, i, outp) = (q', i', outp')"
  shows "inv q' \<and> i' = outp' @ cont q' \<and> cap q' = cap q"
proof (cases c)
  case (Put b)
  with assms put_spec[of q b] show ?thesis by (auto split: sum.splits)
next
  case (Get k)
  with assms get_spec[of q k] show ?thesis by auto
qed

lemma calls_fifo:
  assumes "inv q" "i = outp @ cont q" "fold call cs (q, i, outp) = (q', i', outp')"
  shows "inv q' \<and> i' = outp' @ cont q' \<and> cap q' = cap q"
  using assms
proof (induction cs arbitrary: q i outp)
  case (Cons c cs)
  obtain q1 i1 o1 where 1: "call c (q, i, outp) = (q1, i1, o1)" by (metis prod_cases3)
  with call_fifo[OF Cons.prems(1,2) 1] Cons.IH[of q1 i1 o1] Cons.prems(3) show ?case by auto
qed auto

end

interpretation rb: byte_queue contents capacity rb_inv write_ring_buffer read_ring_buffer
proof
  fix q b
  show "rb_inv q \<Longrightarrow> (\<exists>q'. write_ring_buffer q b = Inr q') \<longleftrightarrow>
    0 < length b \<and> length (contents q) + length b \<le> capacity q"
    using free_used[of q] by (auto simp: write_ring_buffer_def Let_def)
qed (auto simp: write_ring_buffer_contents read_ring_buffer_contents)

section \<open>Properties\<close>

definition ring_call :: "queue_call \<Rightarrow> ring_buffer \<times> bytes \<times> bytes \<Rightarrow> ring_buffer \<times> bytes \<times> bytes" where
  "ring_call c s = (case c of
     Put b \<Rightarrow> (case write_ring_buffer (fst s) b of Inl _ \<Rightarrow> s | Inr q \<Rightarrow> (q, fst (snd s) @ b, snd (snd s)))
   | Get k \<Rightarrow> (snd (read_ring_buffer (fst s) k), fst (snd s), snd (snd s) @ fst (read_ring_buffer (fst s) k)))"

lemma ring_call_eq: "ring_call c s = rb.call c s"
  by (cases s; cases c) (auto simp: ring_call_def split: sum.splits)

text \<open>
  C23: the ring buffer is a bounded FIFO.  After any sequence of reads and writes on a fresh ring buffer
  of size \<open>n\<close>, whatever their sizes and wherever the indices wrapped around, the bytes read so far
  followed by the bytes in the buffer are the bytes written so far in the same order; what is used
  and what is free always add up to \<open>n\<close>, and a write goes through exactly when it is not empty
  and there is room for it.
\<close>
theorem ring_buffer_fifo:
  assumes "fold ring_call cs (alloc_ring_buffer n, [], []) = (q, written, got)"
  shows "written = got @ contents q \<and> ring_buffer_used q + ring_buffer_free q = n \<and>
    length (contents q) = ring_buffer_used q \<and>
    ((\<exists>q'. write_ring_buffer q b = Inr q') \<longleftrightarrow> 0 < length b \<and> length b \<le> ring_buffer_free q)"
proof -
  have "ring_call = rb.call" by (rule ext, rule ext) (rule ring_call_eq)
  with assms have run: "fold rb.call cs (alloc_ring_buffer n, [], []) = (q, written, got)" by simp
  have "[] = [] @ contents (alloc_ring_buffer n)" by (simp add: rb_inv_alloc)
  note fifo = rb.calls_fifo[OF rb_inv_alloc(1) this run, unfolded rb_inv_alloc]
  then have q: "rb_inv q" "written = got @ contents q" "capacity q = n" by blast+
  have "length (contents q) + length b \<le> capacity q \<longleftrightarrow> length b \<le> ring_buffer_free q"
    using free_used[OF q(1)] unfolding length_contents by linarith
  with rb.put_room[OF q(1), of b] have "(\<exists>q'. write_ring_buffer q b = Inr q') \<longleftrightarrow>
      0 < length b \<and> length b \<le> ring_buffer_free q" by simp
  moreover have "ring_buffer_used q + ring_buffer_free q = n"
    using free_used[OF q(1)] q(3) by simp
  ultimately show ?thesis using q(2) by (intro conjI) (assumption, assumption, rule length_contents, assumption)
qed

lemma ring_run_example:
  "snd (fold ring_call [Put [1, 2, 3], Get 2, Put [4, 5], Get 9] (alloc_ring_buffer 4, [], [])) =
    ([1, 2, 3, 4, 5], [1, 2, 3, 4, 5])"
  by code_simp

theorem ring_buffer_fifo_witness:
  "\<exists>q. fold ring_call [Put [1, 2, 3], Get 2, Put [4, 5], Get 9] (alloc_ring_buffer 4, [], []) =
    (q, [1, 2, 3, 4, 5], [1, 2, 3, 4, 5]) \<and> ring_buffer_free q = 4"
proof -
  obtain q where q: "fold ring_call [Put [1, 2, 3], Get 2, Put [4, 5], Get 9] (alloc_ring_buffer 4, [], []) =
    (q, [1, 2, 3, 4, 5], [1, 2, 3, 4, 5])"
    using ring_run_example by (metis prod.collapse)
  from ring_buffer_fifo[OF this, of "[]"] have "contents q = []" "ring_buffer_used q + ring_buffer_free q = 4"
    by simp_all
  then have "ring_buffer_free q = 4" using length_contents[of q] by simp
  with q show ?thesis by blast
qed

end
