(* ===== verification/Synch_Wait.thy ===== *)
theory Synch_Wait
  imports Netlab_Prelude
begin

text \<open>
  The waiting structure of \<open>include/synch_wait.h\<close>: three flags under a mutex and a condition variable.
  \<open>sleep_on\<close> is split where it can block: \<open>sleep_begin\<close> is what runs until \<open>pthread_cond_wait\<close> or
  the return, \<open>sleep_end\<close> what runs once the condition was signalled.  The mutex makes each piece
  one step; the step relation \<open>wait_step\<close> interleaves the pieces of any number of threads, with the
  condition variable's semantics: a signal wakes some waiting thread, a broadcast all of them,
  and, where allowed, a thread may wake up without either.
\<close>

record synch_wait =
  w_notified :: bool
  w_dead :: bool
  w_sleep :: bool

definition wait_init :: synch_wait where
  "wait_init = \<lparr>w_notified = False, w_dead = False, w_sleep = False\<rparr>"

text \<open>The second component: whether the condition variable is signalled, or broadcast.\<close>

definition wait_exit :: "synch_wait \<Rightarrow> synch_wait \<times> bool" where
  "wait_exit w = (if w_dead w then (w, False) else (w\<lparr>w_dead := True\<rparr>, w_sleep w))"

definition wake_up :: "synch_wait \<Rightarrow> synch_wait \<times> bool" where
  "wake_up w = (if w_dead w then (w, False)
     else if \<not> w_notified w then (w\<lparr>w_notified := True\<rparr>, w_sleep w) else (w, False))"

datatype sleep_result = Blocks | Returns int

definition sleep_begin :: "synch_wait \<Rightarrow> synch_wait \<times> sleep_result" where
  "sleep_begin w =
    (if w_dead w then (w, Returns (- 1))
     else let w = w\<lparr>w_sleep := True\<rparr> in
       if \<not> w_notified w then (w, Blocks)
       else (w\<lparr>w_notified := False, w_sleep := False\<rparr>, Returns 0))"

definition sleep_end :: "synch_wait \<Rightarrow> synch_wait \<times> int" where
  "sleep_end w = (w\<lparr>w_notified := False, w_sleep := False\<rparr>, if w_dead w then - 1 else 0)"

section \<open>Threads\<close>

datatype phase = Running | Waiting | Woken

type_synonym wait_config = "synch_wait \<times> (nat \<Rightarrow> phase)"

datatype wait_event = Enter nat | Resume nat | Notify | Kill | Spurious nat

inductive wait_step :: "wait_config \<Rightarrow> wait_event \<Rightarrow> wait_config \<Rightarrow> bool" where
  enter_blocks: "ph t = Running \<Longrightarrow> sleep_begin w = (w', Blocks) \<Longrightarrow>
    wait_step (w, ph) (Enter t) (w', ph(t := Waiting))"
| enter_returns: "ph t = Running \<Longrightarrow> sleep_begin w = (w', Returns r) \<Longrightarrow>
    wait_step (w, ph) (Enter t) (w', ph)"
| resume: "ph t = Woken \<Longrightarrow> wait_step (w, ph) (Resume t) (fst (sleep_end w), ph(t := Running))"
| notify_one: "wake_up w = (w', True) \<Longrightarrow> ph t = Waiting \<Longrightarrow>
    wait_step (w, ph) Notify (w', ph(t := Woken))"
| notify_none: "wake_up w = (w', s) \<Longrightarrow> \<not> s \<or> (\<forall>t. ph t \<noteq> Waiting) \<Longrightarrow>
    wait_step (w, ph) Notify (w', ph)"
| kill: "wait_exit w = (w', s) \<Longrightarrow>
    wait_step (w, ph) Kill (w', if s then (\<lambda>t. if ph t = Waiting then Woken else ph t) else ph)"
| spurious: "ph t = Waiting \<Longrightarrow> wait_step (w, ph) (Spurious t) (w, ph(t := Woken))"

inductive_cases wait_step_cases: "wait_step c e c'"
inductive_simps wait_step_notify: "wait_step (w, ph) Notify c'"

inductive wait_run :: "wait_config \<Rightarrow> wait_event list \<Rightarrow> wait_config \<Rightarrow> bool" where
  run_nil: "wait_run c [] c"
| run_step: "wait_run c es c' \<Longrightarrow> wait_step c' e c'' \<Longrightarrow> wait_run c (es @ [e]) c''"

text \<open>Only thread \<open>t\<close> sleeps on the structure.\<close>

definition only_sleeper :: "nat \<Rightarrow> wait_event list \<Rightarrow> bool" where
  "only_sleeper t es \<longleftrightarrow> (\<forall>t'. Enter t' \<in> set es \<longrightarrow> t' = t)"

definition sleeper_inv :: "nat \<Rightarrow> wait_config \<Rightarrow> bool" where
  "sleeper_inv t c \<longleftrightarrow> (\<forall>t'. t' \<noteq> t \<longrightarrow> snd c t' = Running)
     \<and> (snd c t = Waiting \<longrightarrow> w_sleep (fst c) \<and> \<not> w_notified (fst c) \<and> \<not> w_dead (fst c))
     \<and> (snd c t = Running \<longrightarrow> \<not> w_sleep (fst c))"

lemma sleeper_inv_step:
  assumes "wait_step c e c'" "sleeper_inv t c" "\<forall>t'. e = Enter t' \<longrightarrow> t' = t"
  shows "sleeper_inv t c'"
  using assms
  by (cases rule: wait_step.cases)
    (auto simp: sleeper_inv_def sleep_begin_def sleep_end_def wake_up_def wait_exit_def Let_def
      split: if_splits)

lemma sleeper_inv_run:
  assumes "wait_run c es c'" "sleeper_inv t c" "only_sleeper t es"
  shows "sleeper_inv t c'"
  using assms
proof (induction rule: wait_run.induct)
  case (run_step c es c' e c'')
  then have "sleeper_inv t c'" by (auto simp: only_sleeper_def)
  with run_step show ?case by (auto simp: only_sleeper_def intro: sleeper_inv_step)
qed

section \<open>Properties\<close>

text \<open>
  C33: no wake-up is lost to the one sleeper.  In any interleaving in which a single thread sleeps on
  the structure, a thread that is blocked in \<open>sleep_on\<close> is woken by the next \<open>wake_up\<close> and by
  \<open>wait_exit\<close>, and a \<open>wake_up\<close> that comes while the thread is not in \<open>sleep_on\<close> makes its next
  \<open>sleep_on\<close> return without blocking (as does \<open>wait_exit\<close>, with the result -1).
\<close>
theorem no_lost_wakeup:
  assumes "wait_run (wait_init, \<lambda>_. Running) es c" "only_sleeper t es"
    and "wait_step c e c'" "e = Notify \<or> e = Kill"
  shows "(snd c t = Waiting \<longrightarrow> snd c' t = Woken) \<and>
    (snd c t = Running \<longrightarrow> (\<exists>r. snd (sleep_begin (fst c')) = Returns r \<and> (e = Kill \<longrightarrow> r = - 1)))"
proof -
  have "sleeper_inv t (wait_init, \<lambda>_. Running)"
    by (simp add: sleeper_inv_def wait_init_def)
  from sleeper_inv_run[OF assms(1) this assms(2)] have "sleeper_inv t c" .
  with assms(3,4) show ?thesis
    by (cases rule: wait_step.cases)
      (auto simp: sleeper_inv_def sleep_begin_def wake_up_def wait_exit_def Let_def split: if_splits)
qed

theorem no_lost_wakeup_witness:
  "\<exists>c c'. wait_run (wait_init, \<lambda>_. Running) [Enter 0] c \<and> wait_step c Notify c' \<and>
    snd c 0 = Waiting \<and> snd c' 0 = Woken"
proof -
  define c :: wait_config where "c = (wait_init\<lparr>w_sleep := True\<rparr>, (\<lambda>_. Running)(0 := Waiting))"
  define c' :: wait_config where "c' = (wait_init\<lparr>w_sleep := True, w_notified := True\<rparr>,
    ((\<lambda>_. Running)(0 := Waiting))(0 := Woken))"
  have 1: "wait_run (wait_init, \<lambda>_. Running) ([] @ [Enter 0]) c"
    unfolding c_def by (rule run_step[OF run_nil enter_blocks]) (simp_all add: sleep_begin_def wait_init_def)
  have 2: "wait_step c Notify c'"
    unfolding c_def c'_def by (rule notify_one) (simp_all add: wake_up_def wait_init_def)
  from no_lost_wakeup[OF 1 _ 2, of 0] 1 2 show ?thesis
    by (intro exI[of _ c] exI[of _ c']) (simp add: only_sleeper_def c_def)
qed

text \<open>
  With two sleepers a wake-up can be lost.  \<open>sleep\<close> is a flag, not a count: when the first of two
  blocked threads resumes it clears the flag for both, and from then on \<open>wake_up\<close> sets \<open>notified\<close>
  without signalling, so that the second thread stays blocked.
\<close>
lemma second_sleeper_lost:
  "\<exists>c c'. wait_run (wait_init, \<lambda>_. Running) [Enter 0, Enter 1, Notify, Resume 0] c \<and>
    snd c 1 = Waiting \<and> wait_step c Notify c' \<and> snd c' 1 = Waiting \<and>
    \<not> (\<exists>d. wait_step c Notify d \<and> snd d 1 \<noteq> Waiting) \<and>
    \<not> (\<exists>d. wait_step c' Notify d \<and> snd d 1 \<noteq> Waiting)"
proof -
  let ?R = "\<lambda>_. Running"
  define w1 where "w1 = wait_init\<lparr>w_sleep := True\<rparr>"
  define w2 where "w2 = w1\<lparr>w_notified := True\<rparr>"
  define w3 where "w3 = w2\<lparr>w_notified := False, w_sleep := False\<rparr>"
  define p where "p = (?R(0 := Waiting, 1 := Waiting, 0 := Woken, 0 := Running) :: nat \<Rightarrow> phase)"
  have "wait_run (wait_init, ?R) ([] @ [Enter 0]) (w1, ?R(0 := Waiting))"
    by (rule run_step[OF run_nil enter_blocks]) (simp_all add: sleep_begin_def wait_init_def w1_def)
  then have "wait_run (wait_init, ?R) (([] @ [Enter 0]) @ [Enter 1]) (w1, ?R(0 := Waiting, 1 := Waiting))"
    by (rule run_step[OF _ enter_blocks]) (simp_all add: sleep_begin_def wait_init_def w1_def)
  then have "wait_run (wait_init, ?R) ((([] @ [Enter 0]) @ [Enter 1]) @ [Notify])
      (w2, ?R(0 := Waiting, 1 := Waiting, 0 := Woken))"
    by (rule run_step[OF _ notify_one]) (simp_all add: wake_up_def wait_init_def w1_def w2_def)
  then have run: "wait_run (wait_init, ?R) (((([] @ [Enter 0]) @ [Enter 1]) @ [Notify]) @ [Resume 0])
      (fst (sleep_end w2), p)"
    unfolding p_def by (rule run_step[OF _ resume]) simp
  have w3: "fst (sleep_end w2) = w3" by (simp add: sleep_end_def w3_def)
  have s1: "wait_step (w3, p) Notify c' \<longleftrightarrow> c' = (w3\<lparr>w_notified := True\<rparr>, p)" for c'
    by (auto simp: wait_step_notify wake_up_def w3_def w2_def w1_def wait_init_def)
  have s2: "wait_step (w3\<lparr>w_notified := True\<rparr>, p) Notify c' \<longleftrightarrow> c' = (w3\<lparr>w_notified := True\<rparr>, p)" for c'
    by (auto simp: wait_step_notify wake_up_def w3_def w2_def w1_def wait_init_def)
  have "p 1 = Waiting" by (simp add: p_def)
  with run s1 s2 show ?thesis
    unfolding w3 by (intro exI[of _ "(w3, p)"] exI[of _ "(w3\<lparr>w_notified := True\<rparr>, p)"]) simp
qed

end
