(* ===== verification/Rtable.thy ===== *)
theory Rtable
  imports Device
begin

text \<open>
  The IPv4 forwarding table: \<open>rtable.c\<close>, \<open>longest_prefix_match\<close> (\<open>ip_base.c\<close>) and the parser of the
  kernel's netlink dump (\<open>rtable_internal.c\<close>) of lab 6.  The table is the list \<open>rtable\<close>, in list
  order; an entry's \<open>iface\<close> pointer is the interface it points to.  The dump is a byte buffer laid
  out as \<open>struct nlmsghdr\<close>, \<open>struct rtmsg\<close> and \<open>struct rtattr\<close>, walked with the \<open>NLMSG_\<close> and
  \<open>RTA_\<close> macros of the Linux headers.  \<open>if_index_to_name\<close> asks the kernel and is a parameter.
\<close>

section \<open>The table\<close>

record rt_entry =
  rt_dest :: u32
  rt_mask :: u32
  rt_gw :: u32
  rt_flags :: int
  rt_if_name :: string
  rt_iface :: ip_iface

definition init_rtable :: "rt_entry list" where "init_rtable = []"

definition new_rt_entry :: "u32 \<Rightarrow> u32 \<Rightarrow> u32 \<Rightarrow> ip_iface \<Rightarrow> rt_entry" where
  "new_rt_entry dest msk gw iface =
    \<lparr>rt_dest = dest, rt_mask = msk, rt_gw = gw, rt_flags = 0, rt_if_name = if_name iface, rt_iface = iface\<rparr>"

definition add_rt_entry :: "rt_entry \<Rightarrow> rt_entry list \<Rightarrow> rt_entry list" where
  "add_rt_entry entry rtable = rtable @ [entry]"

text \<open>The node to unlink is given by its position.\<close>

definition remove_rt_entry :: "nat \<Rightarrow> rt_entry list \<Rightarrow> rt_entry list" where
  "remove_rt_entry i rtable = take i rtable @ drop (Suc i) rtable"

function (sequential) clear_rtable :: "rt_entry list \<Rightarrow> rt_entry list" where
  "clear_rtable [] = []"
| "clear_rtable (tmp # rest) = clear_rtable (remove_rt_entry 0 (tmp # rest))"
  by pat_completeness auto

termination
  by (relation "measure length") (auto simp: remove_rt_entry_def)

text \<open>The columns of the printed table, a line per entry.\<close>

definition print_rtable :: "rt_entry list \<Rightarrow> (u32 \<times> u32 \<times> u32 \<times> string) list" where
  "print_rtable rtable = map (\<lambda>e. (rt_dest e, rt_mask e, rt_gw e, rt_if_name e)) rtable"

section \<open>Longest prefix match\<close>

definition rt_matches :: "u32 \<Rightarrow> rt_entry \<Rightarrow> bool" where
  "rt_matches dst e \<longleftrightarrow> dst AND rt_mask e = rt_dest e AND rt_mask e"

fun lpm_loop :: "u32 \<Rightarrow> rt_entry option \<Rightarrow> rt_entry list \<Rightarrow> rt_entry option" where
  "lpm_loop dst m [] = m"
| "lpm_loop dst m (entry # es) =
    lpm_loop dst
      (if rt_matches dst entry
       then (case m of None \<Rightarrow> Some entry
             | Some e \<Rightarrow> if rt_mask e < rt_mask entry then Some entry else m)
       else m) es"

definition longest_prefix_match :: "rt_entry list \<Rightarrow> u32 \<Rightarrow> rt_entry option" where
  "longest_prefix_match rtable dst = lpm_loop dst None rtable"

definition next_hop :: "rt_entry \<Rightarrow> u32 \<Rightarrow> u32" where
  "next_hop e daddr = (if rt_gw e \<noteq> 0 then rt_gw e else daddr)"

text \<open>
  The entry the loop is after: it matches, entries before it that match have smaller masks, entries
  behind it that match have masks that are not larger.
\<close>

definition first_longest :: "u32 \<Rightarrow> rt_entry list \<Rightarrow> rt_entry \<Rightarrow> bool" where
  "first_longest dst t e \<longleftrightarrow> (\<exists>xs ys. t = xs @ e # ys \<and> rt_matches dst e
     \<and> (\<forall>x \<in> set xs. rt_matches dst x \<longrightarrow> rt_mask x < rt_mask e)
     \<and> (\<forall>y \<in> set ys. rt_matches dst y \<longrightarrow> rt_mask y \<le> rt_mask e))"

lemma first_longestI:
  "t = xs @ e # ys \<Longrightarrow> rt_matches dst e \<Longrightarrow>
   (\<And>x. x \<in> set xs \<Longrightarrow> rt_matches dst x \<Longrightarrow> rt_mask x < rt_mask e) \<Longrightarrow>
   (\<And>y. y \<in> set ys \<Longrightarrow> rt_matches dst y \<Longrightarrow> rt_mask y \<le> rt_mask e) \<Longrightarrow> first_longest dst t e"
  unfolding first_longest_def by blast

lemma first_longest_exists:
  "x \<in> set t \<Longrightarrow> rt_matches dst x \<Longrightarrow> \<exists>e. first_longest dst t e"
proof (induction t arbitrary: x)
  case (Cons a t)
  show ?case
  proof (cases "\<exists>y \<in> set t. rt_matches dst y")
    case True
    with Cons.IH obtain e xs ys where e: "t = xs @ e # ys" "rt_matches dst e"
      "\<forall>x \<in> set xs. rt_matches dst x \<longrightarrow> rt_mask x < rt_mask e"
      "\<forall>y \<in> set ys. rt_matches dst y \<longrightarrow> rt_mask y \<le> rt_mask e"
      unfolding first_longest_def by blast
    show ?thesis
    proof (cases "rt_matches dst a \<and> rt_mask e \<le> rt_mask a")
      case True
      with e have "first_longest dst (a # t) a"
        by (intro first_longestI[of _ "[]" a t]) (auto intro: order_trans less_imp_le)
      then show ?thesis ..
    next
      case False
      with e have "first_longest dst (a # t) e"
        by (intro first_longestI[of _ "a # xs" e ys]) auto
      then show ?thesis ..
    qed
  next
    case False
    with Cons.prems have "first_longest dst (a # t) a"
      by (intro first_longestI[of _ "[]" a t]) auto
    then show ?thesis ..
  qed
qed simp

lemma lpm_loop_keep:
  "\<forall>y \<in> set ys. rt_matches dst y \<longrightarrow> rt_mask y \<le> rt_mask e \<Longrightarrow> lpm_loop dst (Some e) ys = Some e"
  by (induction ys) (auto simp: not_less)

lemma lpm_loop_reach:
  assumes "rt_matches dst e" "\<forall>y \<in> set ys. rt_matches dst y \<longrightarrow> rt_mask y \<le> rt_mask e"
    and "\<forall>x \<in> set xs. rt_matches dst x \<longrightarrow> rt_mask x < rt_mask e"
    and "\<forall>d. m = Some d \<longrightarrow> rt_mask d < rt_mask e"
  shows "lpm_loop dst m (xs @ e # ys) = Some e"
  using assms(3,4)
proof (induction xs arbitrary: m)
  case Nil
  then show ?case using assms lpm_loop_keep by (cases m) auto
qed (auto split: option.splits)

lemma first_longest_found: "first_longest dst t e \<Longrightarrow> longest_prefix_match t dst = Some e"
  unfolding first_longest_def longest_prefix_match_def by (auto intro: lpm_loop_reach)

lemma lpm_loop_no_match: "\<forall>e \<in> set t. \<not> rt_matches dst e \<Longrightarrow> lpm_loop dst m t = m"
  by (induction t) auto

lemma longest_prefix_match_None:
  "longest_prefix_match t dst = None \<longleftrightarrow> (\<forall>e \<in> set t. \<not> rt_matches dst e)"
  using first_longest_exists first_longest_found lpm_loop_no_match
  by (metis longest_prefix_match_def option.distinct(1))

lemma longest_prefix_match_Some:
  "longest_prefix_match t dst = Some e \<longleftrightarrow> first_longest dst t e"
proof
  assume *: "longest_prefix_match t dst = Some e"
  then obtain x where "x \<in> set t" "rt_matches dst x"
    using longest_prefix_match_None by (metis option.distinct(1))
  with first_longest_exists obtain e' where "first_longest dst t e'" by blast
  with first_longest_found * show "first_longest dst t e" by fastforce
qed (rule first_longest_found)

lemma first_longestD:
  assumes "first_longest dst t e"
  shows "e \<in> set t" "rt_matches dst e" "\<And>x. x \<in> set t \<Longrightarrow> rt_matches dst x \<Longrightarrow> rt_mask x \<le> rt_mask e"
  using assms unfolding first_longest_def by (auto simp: le_less)

section \<open>Loading the table from the kernel\<close>

definition if_name_to_iface :: "ip_iface list \<Rightarrow> string \<Rightarrow> ip_iface option" where
  "if_name_to_iface ifaces name = find (\<lambda>i. if_name i = name) ifaces"

text \<open>
  Pointers into the buffer are the memory from the pointer on.  The lengths of the Linux headers:
  \<open>nlmsghdr\<close> 16, \<open>rtmsg\<close> 12, \<open>rtattr\<close> 4; lengths are rounded up to 4.
\<close>

definition align4 :: "nat \<Rightarrow> nat" where "align4 n = (n + 3) div 4 * 4"

definition RTA_DST :: u16 where "RTA_DST = 1"
definition RTA_OIF :: u16 where "RTA_OIF = 4"
definition RTA_GATEWAY :: u16 where "RTA_GATEWAY = 5"

definition ld32_res :: "bytes \<Rightarrow> nat \<Rightarrow> u32 res" where
  "ld32_res b i = (if i + 4 \<le> length b then Inr (ld32 b i) else Inl OutOfBounds)"

record route_attrs =
  ra_dest :: u32
  ra_mask :: u32
  ra_gw :: u32
  ra_if_name :: "string option"

text \<open>\<open>0xFFFFFFFF << (32 - rtm_dst_len)\<close>, which C leaves undefined when it shifts by 32 or more.\<close>

definition shift_mask :: "u8 \<Rightarrow> u32 res" where
  "shift_mask dst_len =
    (if 0 < dst_len \<and> dst_len \<le> 32 then Inr (push_bit (32 - unat dst_len) 0xFFFFFFFF) else Inl Undefined)"

definition parse_attr :: "(u32 \<Rightarrow> string option) \<Rightarrow> u8 \<Rightarrow> bytes \<Rightarrow> route_attrs \<Rightarrow> route_attrs res" where
  "parse_attr if_index_to_name dst_len rtap a =
    (let rta_type = ld16 rtap 2 in
     if rta_type = RTA_DST
     then bind_res (ld32_res rtap 4) (\<lambda>v. bind_res (shift_mask dst_len) (\<lambda>m.
            Inr (a\<lparr>ra_dest := ntohl v, ra_mask := m\<rparr>)))
     else if rta_type = RTA_GATEWAY
     then bind_res (ld32_res rtap 4) (\<lambda>v. Inr (a\<lparr>ra_gw := ntohl v\<rparr>))
     else if rta_type = RTA_OIF
     then bind_res (ld32_res rtap 4) (\<lambda>v.
            case if_index_to_name v of None \<Rightarrow> Inl Exited | Some name \<Rightarrow> Inr (a\<lparr>ra_if_name := Some name\<rparr>))
     else Inr a)"

text \<open>The inner loop; \<open>rtl\<close> is what is left of the message (\<open>RTA_OK\<close>, \<open>RTA_NEXT\<close>).\<close>

function parse_attrs ::
    "(u32 \<Rightarrow> string option) \<Rightarrow> u8 \<Rightarrow> bytes \<Rightarrow> nat \<Rightarrow> route_attrs \<Rightarrow> route_attrs res" where
  "parse_attrs if_index_to_name dst_len rtap rtl a =
    (if rtl < 4 then Inr a
     else if length rtap < 4 then Inl OutOfBounds
     else let rta_len = unat (ld16 rtap 0) in
       if rta_len < 4 \<or> rtl < rta_len then Inr a
       else bind_res (parse_attr if_index_to_name dst_len rtap a)
         (parse_attrs if_index_to_name dst_len (drop (align4 rta_len) rtap) (rtl - align4 rta_len)))"
  by auto

termination
  by (relation "measure (\<lambda>(_, _, _, rtl, _). rtl)") (auto simp: align4_def)

declare parse_attrs.simps [simp del]

text \<open>One \<open>RTM_NEWROUTE\<close> message: the entry it adds, if its interface is one of the router's.\<close>

definition parse_route ::
    "(u32 \<Rightarrow> string option) \<Rightarrow> ip_iface list \<Rightarrow> bytes \<Rightarrow> nat \<Rightarrow> rt_entry option res" where
  "parse_route if_index_to_name ifaces nlp nlmsg_len =
    (if length nlp < 28 then Inl OutOfBounds
     else if ld8 nlp 20 \<noteq> 254 then Inr None
     else bind_res
       (parse_attrs if_index_to_name (ld8 nlp 17) (drop 28 nlp) (nlmsg_len - 28)
         \<lparr>ra_dest = 0, ra_mask = 0, ra_gw = 0, ra_if_name = None\<rparr>)
       (\<lambda>a. case ra_if_name a of
              None \<Rightarrow> Inl Uninitialised
            | Some name \<Rightarrow> Inr (map_option (new_rt_entry (ra_dest a) (ra_mask a) (ra_gw a))
                (if_name_to_iface ifaces name))))"

text \<open>The outer loop (\<open>NLMSG_OK\<close>, \<open>NLMSG_NEXT\<close>); it returns the number of entries added.\<close>

function parse_messages ::
    "(u32 \<Rightarrow> string option) \<Rightarrow> ip_iface list \<Rightarrow> bytes \<Rightarrow> nat \<Rightarrow> nat \<times> rt_entry list \<Rightarrow>
     (nat \<times> rt_entry list) res" where
  "parse_messages if_index_to_name ifaces nlp len (n, rtable) =
    (if len < 16 then Inr (n, rtable)
     else if length nlp < 16 then Inl OutOfBounds
     else let nlmsg_len = unat (ld32 nlp 0) in
       if nlmsg_len < 16 \<or> len < nlmsg_len then Inr (n, rtable)
       else bind_res (parse_route if_index_to_name ifaces nlp nlmsg_len)
         (\<lambda>e. parse_messages if_index_to_name ifaces (drop (align4 nlmsg_len) nlp) (len - align4 nlmsg_len)
            (case e of None \<Rightarrow> (n, rtable) | Some e \<Rightarrow> (n + 1, add_rt_entry e rtable))))"
  by auto

termination
  by (relation "measure (\<lambda>(_, _, _, len, _). len)") (auto simp: align4_def)

declare parse_messages.simps [simp del]

definition parse_routing_info ::
    "(u32 \<Rightarrow> string option) \<Rightarrow> ip_iface list \<Rightarrow> bytes \<Rightarrow> nat \<Rightarrow> (nat \<times> rt_entry list) res" where
  "parse_routing_info if_index_to_name ifaces buf len =
    parse_messages if_index_to_name ifaces buf len (0, init_rtable)"

section \<open>The interface the forwarding code uses\<close>

text \<open>
  A route lookup: nothing only if nothing matches, otherwise a matching route of the largest rank.
  What follows from that alone: when the matching routes have different ranks, neither the order of
  the table nor repetitions in it matter, and a route added for a more specific prefix takes over
  exactly the addresses it covers.
\<close>

locale route_lookup =
  fixes lookup :: "'r list \<Rightarrow> 'a \<Rightarrow> 'r option"
    and covers :: "'a \<Rightarrow> 'r \<Rightarrow> bool"
    and rank :: "'r \<Rightarrow> 'o :: linorder"
  assumes lookup_None: "lookup t a = None \<longleftrightarrow> (\<forall>r \<in> set t. \<not> covers a r)"
    and lookup_best: "lookup t a = Some r \<Longrightarrow>
      r \<in> set t \<and> covers a r \<and> (\<forall>x \<in> set t. covers a x \<longrightarrow> rank x \<le> rank r)"
begin

definition unambiguous :: "'r list \<Rightarrow> 'a \<Rightarrow> bool" where
  "unambiguous t a \<longleftrightarrow> inj_on rank {r \<in> set t. covers a r}"

lemma lookup_eqI:
  assumes "unambiguous t a" "r \<in> set t" "covers a r" "\<forall>x \<in> set t. covers a x \<longrightarrow> rank x \<le> rank r"
  shows "lookup t a = Some r"
proof (cases "lookup t a")
  case None
  with assms show ?thesis by (auto simp: lookup_None)
next
  case (Some r')
  with assms lookup_best[OF Some] have "rank r' = rank r" by (intro order_antisym) auto
  with assms lookup_best[OF Some] Some show ?thesis by (auto simp: unambiguous_def inj_on_def)
qed

lemma order_irrelevant:
  assumes "unambiguous t a" "set t = set t'"
  shows "lookup t a = lookup t' a"
proof (cases "lookup t' a")
  case None
  with assms show ?thesis by (metis lookup_None)
next
  case (Some r)
  with assms lookup_best[OF Some] show ?thesis by (auto intro: lookup_eqI)
qed

lemma more_specific:
  assumes "unambiguous t a" "\<forall>x \<in> set t. covers a x \<longrightarrow> rank x < rank r"
  shows "lookup (t @ [r]) a = (if covers a r then Some r else lookup t a)"
proof (cases "covers a r")
  case True
  have "unambiguous (t @ [r]) a" using assms by (fastforce simp: unambiguous_def inj_on_def)
  with True assms show ?thesis by (auto intro!: lookup_eqI simp: le_less)
next
  case False
  then have "{x \<in> set (t @ [r]). covers a x} = {x \<in> set t. covers a x}" by auto
  with assms have u: "unambiguous (t @ [r]) a" by (simp add: unambiguous_def)
  show ?thesis
  proof (cases "lookup t a")
    case None
    with False have "lookup (t @ [r]) a = None" by (simp add: lookup_None)
    with False None show ?thesis by simp
  next
    case (Some r')
    with False u lookup_best[OF Some] show ?thesis by (auto intro!: lookup_eqI)
  qed
qed

end

interpretation lpm: route_lookup longest_prefix_match rt_matches rt_mask
  by unfold_locales
    (auto simp: longest_prefix_match_None longest_prefix_match_Some dest: first_longestD)

section \<open>Prefix masks\<close>

text \<open>The mask of a prefix length, as the parser computes it for a length that is not zero.\<close>

definition prefix_mask :: "nat \<Rightarrow> u32" where
  "prefix_mask n = push_bit (32 - n) 0xFFFFFFFF"

lemma bit_ones32: "bit (0xFFFFFFFF :: u32) i \<longleftrightarrow> i < 32"
proof -
  have "(0xFFFFFFFF :: u32) = - 1" by simp
  then show ?thesis by (simp only: bit_minus_1_iff possible_bit_word) simp
qed

lemma bit_prefix_mask: "n \<le> 32 \<Longrightarrow> bit (prefix_mask n) i \<longleftrightarrow> 32 - n \<le> i \<and> i < 32"
  by (auto simp: prefix_mask_def bit_simps bit_ones32 simp del: bit_numeral_word_iff)

lemma unat_prefix_mask: "n \<le> 32 \<Longrightarrow> unat (prefix_mask n) + 2 ^ (32 - n) = 2 ^ 32"
proof -
  assume n: "n \<le> 32"
  have "prefix_mask n = NOT (mask (32 - n))"
    by (rule bit_word_eqI) (use n in \<open>auto simp: bit_prefix_mask bit_simps\<close>)
  also have "\<dots> = - 1 - mask (32 - n)" by (simp add: not_eq_complement)
  finally have pm: "prefix_mask n = - 1 - mask (32 - n)" .
  have le: "mask (32 - n) \<le> (- 1 :: u32)" by simp
  have "unat (mask (32 - n) :: u32) = mask (32 - n)"
    using n unfolding take_bit_minus_one_eq_mask[symmetric, where 'a = "32 word"]
    by (simp only: unsigned_take_bit_eq unsigned_minus_1_eq_mask take_bit_of_mask) (simp add: min_def)
  then have m: "unat (mask (32 - n) :: u32) = 2 ^ (32 - n) - 1" by (simp add: mask_eq_exp_minus_1)
  have o: "unat (- 1 :: u32) = 2 ^ 32 - 1"
    by (simp only: unsigned_minus_1_eq_mask) (simp add: mask_eq_exp_minus_1)
  have "unat (prefix_mask n) = unat (- 1 :: u32) - unat (mask (32 - n) :: u32)"
    unfolding pm by (rule unat_sub[OF le])
  then have "unat (prefix_mask n) = (2 ^ 32 - 1) - (2 ^ (32 - n) - 1)" by (simp only: m o)
  moreover have "(1 :: nat) \<le> 2 ^ (32 - n)" "(2 :: nat) ^ (32 - n) \<le> 2 ^ 32"
    by (simp, rule power_increasing) (use n in auto)
  ultimately show ?thesis by linarith
qed

lemma prefix_mask_less: "m \<le> 32 \<Longrightarrow> n \<le> 32 \<Longrightarrow> prefix_mask m < prefix_mask n \<longleftrightarrow> m < n"
proof -
  assume *: "m \<le> 32" "n \<le> 32"
  have "prefix_mask m < prefix_mask n \<longleftrightarrow> unat (prefix_mask m) < unat (prefix_mask n)"
    by (simp add: word_less_nat_alt)
  also have "\<dots> \<longleftrightarrow> (2 :: nat) ^ (32 - n) < 2 ^ (32 - m)"
    using unat_prefix_mask[OF *(1)] unat_prefix_mask[OF *(2)] by linarith
  also have "\<dots> \<longleftrightarrow> m < n" using * by (subst power_strict_increasing_iff) auto
  finally show ?thesis .
qed

lemma prefix_mask_le: "m \<le> 32 \<Longrightarrow> n \<le> 32 \<Longrightarrow> prefix_mask m \<le> prefix_mask n \<longleftrightarrow> m \<le> n"
  by (simp add: prefix_mask_less linorder_not_less[symmetric])

text \<open>An address is in a prefix when the leading bits agree.\<close>

lemma in_prefix:
  assumes "n \<le> 32"
  shows "a AND prefix_mask n = b AND prefix_mask n \<longleftrightarrow> (\<forall>i. 32 - n \<le> i \<and> i < 32 \<longrightarrow> bit a i = bit b i)"
  using assms by (auto simp: bit_eq_iff bit_simps bit_prefix_mask)

section \<open>Encoding a dump\<close>

text \<open>
  A message of the kernel's answer to a dump request and the bytes it sends for it (RTM\_NEWROUTE, IPv4): what the
  netlink header has besides length and type (flags, sequence number and port), the table, the prefix length, the rest of
  the \<open>rtmsg\<close> header, and attributes in any order, of types the parser reads and of others, each padded to four bytes.
\<close>

datatype kernel_attr = DstAttr u32 | OifAttr u32 | GatewayAttr u32 | OtherAttr u16 bytes

record kernel_route =
  kr_head :: bytes
  kr_table :: u8
  kr_len :: nat
  kr_rest :: bytes
  kr_attrs :: "kernel_attr list"

definition le16 :: "u16 \<Rightarrow> bytes" where "le16 v = [ucast v, ucast (drop_bit 8 v)]"

definition le32 :: "u32 \<Rightarrow> bytes" where "le32 v = le16 (ucast v) @ le16 (ucast (drop_bit 16 v))"

definition enc_attr :: "u16 \<Rightarrow> bytes \<Rightarrow> bytes" where
  "enc_attr t d = le16 (of_nat (4 + length d)) @ le16 t @ d @ zeros (align4 (length d) - length d)"

fun enc_kernel_attr :: "kernel_attr \<Rightarrow> bytes" where
  "enc_kernel_attr (DstAttr v) = enc_attr 1 (le32 (htonl v))"
| "enc_kernel_attr (OifAttr v) = enc_attr 4 (le32 v)"
| "enc_kernel_attr (GatewayAttr v) = enc_attr 5 (le32 (htonl v))"
| "enc_kernel_attr (OtherAttr t d) = enc_attr t d"

definition enc_attrs :: "kernel_attr list \<Rightarrow> bytes" where
  "enc_attrs as = concat (map enc_kernel_attr as)"

definition enc_route :: "kernel_route \<Rightarrow> bytes" where
  "enc_route r = le32 (of_nat (28 + length (enc_attrs (kr_attrs r)))) @ le16 24 @ kr_head r
     @ [2, of_nat (kr_len r), 0, 0, kr_table r] @ kr_rest r @ enc_attrs (kr_attrs r)"

text \<open>What the attributes say: the last of a kind, \<open>x\<close> when there is none of it.\<close>

fun last_of :: "('a \<Rightarrow> 'b option) \<Rightarrow> 'b \<Rightarrow> 'a list \<Rightarrow> 'b" where
  "last_of f x [] = x"
| "last_of f x (a # as) = last_of f (case f a of None \<Rightarrow> x | Some y \<Rightarrow> y) as"

fun attr_dst :: "kernel_attr \<Rightarrow> u32 option" where
  "attr_dst (DstAttr v) = Some v" | "attr_dst _ = None"

fun attr_oif :: "kernel_attr \<Rightarrow> u32 option option" where
  "attr_oif (OifAttr v) = Some (Some v)" | "attr_oif _ = None"

fun attr_gw :: "kernel_attr \<Rightarrow> u32 option" where
  "attr_gw (GatewayAttr v) = Some v" | "attr_gw _ = None"

definition kr_dest :: "kernel_route \<Rightarrow> u32" where "kr_dest r = last_of attr_dst 0 (kr_attrs r)"
definition kr_gw :: "kernel_route \<Rightarrow> u32" where "kr_gw r = last_of attr_gw 0 (kr_attrs r)"
definition kr_oif :: "kernel_route \<Rightarrow> u32 option" where "kr_oif r = last_of attr_oif None (kr_attrs r)"

text \<open>
  What the kernel keeps to.  Only the messages of table 254 have a condition on their attributes: a destination unless the
  prefix is empty, an output interface that has a name, and attributes of other types of a size their length field can hold.
\<close>

definition attr_ok :: "(u32 \<Rightarrow> string option) \<Rightarrow> kernel_attr \<Rightarrow> bool" where
  "attr_ok ifn a \<longleftrightarrow> (case a of OifAttr v \<Rightarrow> ifn v \<noteq> None
     | OtherAttr t d \<Rightarrow> t \<notin> {1, 4, 5} \<and> length d + 4 < 65536 | _ \<Rightarrow> True)"

definition route_ok :: "(u32 \<Rightarrow> string option) \<Rightarrow> kernel_route \<Rightarrow> bool" where
  "route_ok ifn r \<longleftrightarrow> length (kr_head r) = 10 \<and> length (kr_rest r) = 7
     \<and> 28 + length (enc_attrs (kr_attrs r)) < 2 ^ 32
     \<and> (kr_table r = 254 \<longrightarrow> kr_len r \<le> 32 \<and> (\<forall>a \<in> set (kr_attrs r). attr_ok ifn a)
          \<and> ((\<exists>d. DstAttr d \<in> set (kr_attrs r)) \<longleftrightarrow> 0 < kr_len r) \<and> (\<exists>v. OifAttr v \<in> set (kr_attrs r)))"

text \<open>The messages that give an entry, and the entry: those of table 254 through an interface the router has.\<close>

definition own_route :: "(u32 \<Rightarrow> string option) \<Rightarrow> ip_iface list \<Rightarrow> kernel_route \<Rightarrow> bool" where
  "own_route ifn ifaces r \<longleftrightarrow> kr_table r = 254 \<and> (\<exists>i \<in> set ifaces. ifn (the (kr_oif r)) = Some (if_name i))"

definition entry_of_route :: "(u32 \<Rightarrow> string option) \<Rightarrow> ip_iface list \<Rightarrow> kernel_route \<Rightarrow> rt_entry" where
  "entry_of_route ifn ifaces r =
    (let i = the (find (\<lambda>i. ifn (the (kr_oif r)) = Some (if_name i)) ifaces)
     in \<lparr>rt_dest = kr_dest r, rt_mask = prefix_mask (kr_len r), rt_gw = kr_gw r, rt_flags = 0,
          rt_if_name = if_name i, rt_iface = i\<rparr>)"

definition route_entries :: "(u32 \<Rightarrow> string option) \<Rightarrow> ip_iface list \<Rightarrow> kernel_route list \<Rightarrow> rt_entry list" where
  "route_entries ifn ifaces rs = map (entry_of_route ifn ifaces) (filter (own_route ifn ifaces) rs)"

lemma route_entries_own: "e \<in> set (route_entries ifn ifaces rs) \<Longrightarrow> rt_iface e \<in> set ifaces"
proof -
  assume "e \<in> set (route_entries ifn ifaces rs)"
  then obtain r where r: "own_route ifn ifaces r" "e = entry_of_route ifn ifaces r" by (auto simp: route_entries_def)
  then obtain i where "find (\<lambda>i :: ip_iface. ifn (the (kr_oif r)) = Some (if_name i)) ifaces = Some i" "i \<in> set ifaces"
    by (cases "find (\<lambda>i :: ip_iface. ifn (the (kr_oif r)) = Some (if_name i)) ifaces")
      (auto simp: own_route_def find_None_iff find_Some_iff)
  with r show ?thesis by (simp add: entry_of_route_def Let_def)
qed

lemma length_le [simp]: "length (le16 v) = 2" "length (le32 w) = 4"
  by (simp_all add: le16_def le32_def)

lemma le_align4: "n \<le> align4 n" "align4 (4 + n) = 4 + align4 n" "align4 (align4 n) = align4 n"
  by (simp_all add: align4_def) presburger

lemma length_enc_attr: "length (enc_attr t d) = align4 (4 + length d)"
  using le_align4(1)[of "length d"] by (simp add: enc_attr_def le_align4(2))

lemma align4_28: "align4 (28 + n) = 28 + align4 n"
  by (simp add: align4_def) presburger

lemma align4_enc_attrs: "align4 (length (enc_attrs as)) = length (enc_attrs as)"
proof -
  have "length (enc_kernel_attr a) mod 4 = 0" for a by (cases a) (simp_all add: length_enc_attr align4_def)
  then have "length (enc_attrs as) mod 4 = 0"
    by (induction as) (auto simp: enc_attrs_def mod_add_left_eq[symmetric])
  then show ?thesis unfolding align4_def by presburger
qed

lemma ld16_le16 [simp]: "ld16 (le16 v @ b) 0 = v"
  by (simp add: ld16_def le16_def ucast_bytes16)

lemma ld16_append: "length a \<le> i \<Longrightarrow> ld16 (a @ b) i = ld16 b (i - length a)"
  by (simp add: ld16_def nth_append Suc_diff_le)

lemma ld32_append: "length a \<le> i \<Longrightarrow> ld32 (a @ b) i = ld32 b (i - length a)"
  by (simp add: ld32_def ld16_append Suc_diff_le)

lemma ld32_le32 [simp]: "ld32 (le32 v @ b) 0 = v"
  by (simp add: ld32_def le32_def ld16_append ucast_words32)

lemma enc_attr_fields:
  "ld16 (enc_attr t d @ b) 2 = t" "ld32_res (enc_attr t (le32 v) @ b) 4 = Inr v"
  "length d + 4 < 65536 \<Longrightarrow> unat (ld16 (enc_attr t d @ b) 0) = 4 + length d"
  by (simp_all add: enc_attr_def ld16_append ld32_append ld32_res_def unsigned_of_nat take_bit_eq_mod
      del: of_nat_add of_nat_Suc)

lemma parse_attrs_step:
  assumes "length d + 4 < 65536"
  shows "parse_attrs ifn dl (enc_attr t d @ b) (length (enc_attr t d) + n) a =
    bind_res (parse_attr ifn dl (enc_attr t d @ b) a) (parse_attrs ifn dl b n)"
  using le_align4(1)[of "length d"] enc_attr_fields(3)[OF assms, of t b]
  by (subst parse_attrs.simps) (simp add: Let_def length_enc_attr le_align4(2))

text \<open>One attribute, and all of them.\<close>

definition attr_effect :: "(u32 \<Rightarrow> string option) \<Rightarrow> nat \<Rightarrow> kernel_attr list \<Rightarrow> route_attrs \<Rightarrow> route_attrs" where
  "attr_effect ifn n as a =
    \<lparr>ra_dest = last_of attr_dst (ra_dest a) as,
     ra_mask = (if \<exists>d. DstAttr d \<in> set as then prefix_mask n else ra_mask a),
     ra_gw = last_of attr_gw (ra_gw a) as,
     ra_if_name = last_of (map_option (\<lambda>v. ifn (the v)) \<circ> attr_oif) (ra_if_name a) as\<rparr>"

lemma shift_mask_prefix: "0 < n \<Longrightarrow> n \<le> 32 \<Longrightarrow> shift_mask (of_nat n) = Inr (prefix_mask n)"
proof -
  assume n: "0 < n" "n \<le> 32"
  then have u: "unat (of_nat n :: u8) = n" by (simp add: unsigned_of_nat take_bit_eq_mod)
  then have "(of_nat n :: u8) \<le> 32" "0 < (of_nat n :: u8)"
    using n by (simp_all add: word_le_nat_alt word_less_nat_alt)
  then show ?thesis by (simp add: shift_mask_def u prefix_mask_def)
qed

lemma prefix_mask_0: "prefix_mask 0 = 0"
  by (rule bit_word_eqI) (simp add: bit_prefix_mask)

lemma parse_kernel_attr:
  assumes "attr_ok ifn k" "\<forall>d. k = DstAttr d \<longrightarrow> 0 < n \<and> n \<le> 32"
  shows "parse_attrs ifn (of_nat n) (enc_kernel_attr k @ b) (length (enc_kernel_attr k) + m) a =
    parse_attrs ifn (of_nat n) b m (attr_effect ifn n [k] a)"
  using assms
  by (cases a; cases k)
    (auto simp: parse_attrs_step parse_attr_def enc_attr_fields shift_mask_prefix attr_ok_def attr_effect_def
      Let_def RTA_DST_def RTA_OIF_def RTA_GATEWAY_def)

lemma parse_enc_attrs:
  assumes "\<forall>k \<in> set as. attr_ok ifn k" "n \<le> 32" "\<forall>d. DstAttr d \<in> set as \<longrightarrow> 0 < n"
  shows "parse_attrs ifn (of_nat n) (enc_attrs as @ b) (length (enc_attrs as)) a = Inr (attr_effect ifn n as a)"
  using assms
proof (induction as arbitrary: a)
  case Nil
  show ?case by (subst parse_attrs.simps) (simp add: enc_attrs_def attr_effect_def)
next
  case (Cons k as)
  have k: "attr_ok ifn k" "\<forall>d. k = DstAttr d \<longrightarrow> 0 < n \<and> n \<le> 32" using Cons.prems by auto
  have "parse_attrs ifn (of_nat n) (enc_attrs (k # as) @ b) (length (enc_attrs (k # as))) a
      = parse_attrs ifn (of_nat n) (enc_attrs as @ b) (length (enc_attrs as)) (attr_effect ifn n [k] a)"
    using parse_kernel_attr[of ifn k n "enc_attrs as @ b" "length (enc_attrs as)" a] k
    by (simp add: enc_attrs_def)
  also have "\<dots> = Inr (attr_effect ifn n as (attr_effect ifn n [k] a))"
    using Cons.prems by (intro Cons.IH) auto
  also have "attr_effect ifn n as (attr_effect ifn n [k] a) = attr_effect ifn n (k # as) a"
    by (cases k) (auto simp: attr_effect_def)
  finally show ?case .
qed

lemma last_of_in: "(\<exists>a \<in> set as. f a \<noteq> None) \<Longrightarrow> \<exists>a \<in> set as. f a = Some (last_of f x as)"
proof (induction as arbitrary: x)
  case (Cons a as)
  show ?case
  proof (cases "\<exists>a \<in> set as. f a \<noteq> None")
    case True
    then show ?thesis using Cons.IH by (auto split: option.splits)
  next
    case False
    then have "last_of f y as = y" for y by (induction as arbitrary: y) (auto split: option.splits)
    then show ?thesis using Cons.prems False by (auto split: option.splits)
  qed
qed simp

lemma last_of_oif:
  "last_of (map_option (\<lambda>v. ifn (the v)) \<circ> attr_oif) (ifn (the x)) as = ifn (the (last_of attr_oif x as))"
  by (induction as arbitrary: x) (auto split: option.splits)

lemma last_of_start: "(\<exists>a \<in> set as. f a \<noteq> None) \<Longrightarrow> last_of f x as = last_of f y as"
  by (induction as arbitrary: x y) (auto split: option.splits)

lemma oif_name:
  assumes "OifAttr v \<in> set (kr_attrs r)"
  shows "last_of (map_option (\<lambda>v. ifn (the v)) \<circ> attr_oif) x (kr_attrs r) = ifn (the (kr_oif r))"
proof -
  have "\<exists>a \<in> set (kr_attrs r). (map_option (\<lambda>v. ifn (the v)) \<circ> attr_oif) a \<noteq> None"
    using assms by (intro bexI[of _ "OifAttr v"]) simp_all
  show ?thesis unfolding kr_oif_def by (rule trans[OF last_of_start[OF \<open>\<exists>a \<in> _. _\<close>] last_of_oif])
qed

lemma oif_named:
  assumes "route_ok ifn r" "kr_table r = 254"
  shows "\<exists>name. ifn (the (kr_oif r)) = Some name"
proof -
  from assms obtain v where "OifAttr v \<in> set (kr_attrs r)" by (auto simp: route_ok_def)
  then have "\<exists>a \<in> set (kr_attrs r). attr_oif a \<noteq> None" by (intro bexI[of _ "OifAttr v"]) simp_all
  from last_of_in[OF this, of None] obtain a where
    a: "a \<in> set (kr_attrs r)" "attr_oif a = Some (kr_oif r)" by (auto simp: kr_oif_def)
  obtain w where w: "a = OifAttr w" "kr_oif r = Some w" using a(2) by (cases a) auto
  have "attr_ok ifn a" using assms a(1) by (simp add: route_ok_def)
  with w show ?thesis by (simp add: attr_ok_def)
qed

lemma find_own:
  assumes "ifn (the (kr_oif r)) = Some name"
  shows "find (\<lambda>i. ifn (the (kr_oif r)) = Some (if_name i)) ifaces = if_name_to_iface ifaces name"
    "(\<exists>i \<in> set ifaces. ifn (the (kr_oif r)) = Some (if_name i)) \<longleftrightarrow> if_name_to_iface ifaces name \<noteq> None"
proof -
  have "(\<lambda>i :: ip_iface. ifn (the (kr_oif r)) = Some (if_name i)) = (\<lambda>i. if_name i = name)" using assms by auto
  then show "find (\<lambda>i. ifn (the (kr_oif r)) = Some (if_name i)) ifaces = if_name_to_iface ifaces name"
    by (simp only: if_name_to_iface_def)
  show "(\<exists>i \<in> set ifaces. ifn (the (kr_oif r)) = Some (if_name i)) \<longleftrightarrow> if_name_to_iface ifaces name \<noteq> None"
    using assms by (auto simp: if_name_to_iface_def find_None_iff)
qed

lemma parse_enc_route:
  assumes "route_ok ifn r"
  shows "parse_route ifn ifaces (enc_route r @ b) (28 + length (enc_attrs (kr_attrs r))) =
    Inr (if own_route ifn ifaces r then Some (entry_of_route ifn ifaces r) else None)"
proof -
  define h where "h = le32 (of_nat (28 + length (enc_attrs (kr_attrs r)))) @ le16 24 @ kr_head r
     @ [2, of_nat (kr_len r), 0, 0, kr_table r] @ kr_rest r"
  have len: "length h = 28" "length (kr_head r) = 10" using assms by (simp_all add: h_def route_ok_def)
  have 1: "enc_route r @ b = h @ enc_attrs (kr_attrs r) @ b" by (simp add: h_def enc_route_def)
  have 2: "ld8 (h @ x) 20 = kr_table r" "ld8 (h @ x) 17 = of_nat (kr_len r)" for x
    using len by (simp_all add: h_def ld8_def nth_append nth_Cons')
  show ?thesis
  proof (cases "kr_table r = 254")
    case False
    then show ?thesis using len by (simp add: parse_route_def 1 2 own_route_def)
  next
    case True
    obtain name where n: "ifn (the (kr_oif r)) = Some name" using oif_named[OF assms True] by blast
    obtain v where v: "OifAttr v \<in> set (kr_attrs r)" using assms True by (auto simp: route_ok_def)
    have ok: "\<forall>k \<in> set (kr_attrs r). attr_ok ifn k" "kr_len r \<le> 32"
      "(\<exists>d. DstAttr d \<in> set (kr_attrs r)) \<longleftrightarrow> 0 < kr_len r"
      using assms True by (auto simp: route_ok_def)
    then have "\<forall>d. DstAttr d \<in> set (kr_attrs r) \<longrightarrow> 0 < kr_len r" by blast
    from parse_enc_attrs[OF ok(1,2) this, of b] show ?thesis
      using len True n ok(3) prefix_mask_0 find_own[where ifn = ifn and r = r and ifaces = ifaces, OF n]
      by (auto simp: parse_route_def 1 2 attr_effect_def oif_name[OF v] own_route_def entry_of_route_def
          kr_dest_def[symmetric] kr_gw_def[symmetric] new_rt_entry_def if_name_to_iface_def Let_def)
  qed
qed

lemma parse_enc_messages:
  assumes "\<forall>r \<in> set rs. route_ok ifn r"
  shows "parse_messages ifn ifaces (concat (map enc_route rs) @ b) (length (concat (map enc_route rs))) (n, t)
    = Inr (n + length (route_entries ifn ifaces rs), t @ route_entries ifn ifaces rs)"
  using assms
proof (induction rs arbitrary: n t)
  case Nil
  show ?case by (subst parse_messages.simps) (simp add: route_entries_def)
next
  case (Cons r rs)
  define k where "k = 28 + length (enc_attrs (kr_attrs r))"
  have ok: "route_ok ifn r" using Cons.prems by simp
  then have k: "16 \<le> k" "k < 2 ^ 32" by (auto simp: k_def route_ok_def)
  have len: "length (enc_route r) = k" using ok by (simp add: enc_route_def k_def route_ok_def)
  have ld: "unat (ld32 (enc_route r @ x) 0) = k" for x
    using k by (simp add: enc_route_def k_def[symmetric] unsigned_of_nat take_bit_eq_mod)
  have al: "align4 k = k" using align4_enc_attrs[of "kr_attrs r"] by (simp add: k_def align4_28)
  have "parse_route ifn ifaces (enc_route r @ concat (map enc_route rs) @ b) k
      = Inr (if own_route ifn ifaces r then Some (entry_of_route ifn ifaces r) else None)"
    unfolding k_def using ok by (intro parse_enc_route)
  then show ?case
    using Cons k by (subst parse_messages.simps) (simp add: len ld al Let_def add_rt_entry_def route_entries_def)
qed

section \<open>Properties\<close>

definition agree_on :: "nat \<Rightarrow> u32 \<Rightarrow> u32 \<Rightarrow> bool" where
  "agree_on n a b \<longleftrightarrow> (\<forall>i. 32 - n \<le> i \<and> i < 32 \<longrightarrow> bit a i = bit b i)"

text \<open>
  C20: longest prefix match.  In a table whose masks are prefix masks, \<open>longest_prefix_match\<close> finds
  nothing exactly when no entry's prefix contains the destination; otherwise it finds an entry of
  the table whose prefix contains it, with no entry of a longer prefix containing it as well.
\<close>
theorem longest_prefix_match_longest:
  assumes "\<forall>e \<in> set t. \<exists>n \<le> 32. rt_mask e = prefix_mask n"
  shows "case longest_prefix_match t dst of
      None \<Rightarrow> \<forall>e \<in> set t. \<forall>n \<le> 32. rt_mask e = prefix_mask n \<longrightarrow> \<not> agree_on n dst (rt_dest e)
    | Some e \<Rightarrow> e \<in> set t \<and> (\<exists>n \<le> 32. rt_mask e = prefix_mask n \<and> agree_on n dst (rt_dest e) \<and>
        (\<forall>x \<in> set t. \<forall>m \<le> 32. rt_mask x = prefix_mask m \<and> agree_on m dst (rt_dest x) \<longrightarrow> m \<le> n))"
proof -
  have iff: "rt_matches dst e \<longleftrightarrow> agree_on n dst (rt_dest e)" if "rt_mask e = prefix_mask n" "n \<le> 32" for e n
    using that by (simp add: rt_matches_def agree_on_def in_prefix)
  show ?thesis
  proof (cases "longest_prefix_match t dst")
    case None
    then have "\<forall>e \<in> set t. \<not> rt_matches dst e" by (simp add: lpm.lookup_None)
    with None iff show ?thesis by auto
  next
    case (Some e)
    note best = lpm.lookup_best[OF Some]
    with assms obtain n where n: "n \<le> 32" "rt_mask e = prefix_mask n" by blast
    have "m \<le> n" if "x \<in> set t" "m \<le> 32" "rt_mask x = prefix_mask m" "agree_on m dst (rt_dest x)" for x m
      using that best n iff[OF that(3,2)] by (metis prefix_mask_le)
    with best n Some iff show ?thesis by auto
  qed
qed

text \<open>Two networks are the same when mask and masked address are.\<close>

definition one_entry_per_network :: "rt_entry list \<Rightarrow> bool" where
  "one_entry_per_network t \<longleftrightarrow> (\<forall>e \<in> set t. \<forall>x \<in> set t.
     rt_mask e = rt_mask x \<and> rt_dest e AND rt_mask e = rt_dest x AND rt_mask x \<longrightarrow> e = x)"

lemma one_entry_unambiguous: "one_entry_per_network t \<Longrightarrow> lpm.unambiguous t dst"
  unfolding one_entry_per_network_def lpm.unambiguous_def inj_on_def rt_matches_def
  by (metis (mono_tags, lifting) mem_Collect_eq)

text \<open>
  The table is a function of its set of routes.  When no two entries are for the same network,
  tables with the same entries in any order give every destination the same route, and an
  entry added for a network inside all those that matched takes over just its own addresses.
\<close>
lemma routes_order_irrelevant:
  assumes "one_entry_per_network t"
  shows "(set t = set t' \<longrightarrow> longest_prefix_match t dst = longest_prefix_match t' dst) \<and>
    ((\<forall>x \<in> set t. rt_matches dst x \<longrightarrow> rt_mask x < rt_mask e) \<longrightarrow>
      longest_prefix_match (add_rt_entry e t) dst =
        (if rt_matches dst e then Some e else longest_prefix_match t dst))"
  using lpm.order_irrelevant[OF one_entry_unambiguous[OF assms]]
    lpm.more_specific[OF one_entry_unambiguous[OF assms]] by (auto simp: add_rt_entry_def)

definition example_iface :: "int \<Rightarrow> u32 \<Rightarrow> ip_iface" where
  "example_iface n ip = \<lparr>if_fd = n, if_index = n, if_mac = replicate 6 (of_int n),
     if_name = (if n = 1 then ''r1-eth0'' else ''r1-eth1''), if_ip = ip, if_mask = 0xFFFFFF00\<rparr>"

definition example_rtable :: "rt_entry list" where
  "example_rtable = [new_rt_entry 0 0 0x0A000101 (example_iface 1 0x0A000102),
     new_rt_entry 0x0A000200 0xFFFFFF00 0 (example_iface 2 0x0A000201)]"

lemma prefix_mask_24: "prefix_mask 24 = 0xFFFFFF00"
  by (simp add: prefix_mask_def push_bit_eq_mult)

theorem longest_prefix_match_longest_witness:
  "case longest_prefix_match example_rtable 0x0A000216 of
      None \<Rightarrow> False | Some e \<Rightarrow> e \<in> set example_rtable"
proof -
  have "\<exists>n \<le> 32. (0 :: u32) = prefix_mask n" "\<exists>n \<le> 32. (0xFFFFFF00 :: u32) = prefix_mask n"
    by (rule exI[of _ 0], simp add: prefix_mask_0, rule exI[of _ 24], simp add: prefix_mask_24)
  then have "\<forall>e \<in> set example_rtable. \<exists>n \<le> 32. rt_mask e = prefix_mask n"
    by (simp add: example_rtable_def new_rt_entry_def)
  note * = longest_prefix_match_longest[OF this, of "0x0A000216"]
  have "longest_prefix_match example_rtable 0x0A000216 \<noteq> None"
    by (simp add: lpm.lookup_None example_rtable_def rt_matches_def new_rt_entry_def)
  with * show ?thesis by (auto split: option.splits)
qed

text \<open>
  What the parser reads.  For a netlink dump as the kernel sends it, with routes of any tables, attributes of any types in any
  order and routes through any interfaces, \<open>parse_routing_info\<close> returns the number of the routes of table 254
  through interfaces of the router and exactly one table entry for each of these, in order, with destination, mask of the
  prefix length and gateway in host byte order and the interface the kernel named.
\<close>

lemma parse_routing_info_roundtrip:
  assumes "\<forall>r \<in> set rs. route_ok if_index_to_name r"
  shows "parse_routing_info if_index_to_name ifaces (concat (map enc_route rs) @ rest)
      (length (concat (map enc_route rs)))
    = Inr (length (route_entries if_index_to_name ifaces rs), route_entries if_index_to_name ifaces rs)"
  using parse_enc_messages[OF assms, of ifaces rest 0 "[]"]
  by (simp add: parse_routing_info_def init_rtable_def)

end
