(* ===== verification/Arp_Cache.thy ===== *)
theory Arp_Cache
  imports Rtable Ip_Header
begin

text \<open>
  The IP stack's state and its ARP layer (\<open>arp.c\<close>, \<open>arpcache.c\<close> of lab 6): the cache of 32 entries,
  the list of pending requests with the packets queued behind each, \<open>iface_send_packet_by_arp\<close> and
  the ARP handler.  \<open>arpcache_sweep\<close> sends ICMP errors and is in theory \<open>Router\<close>.

  The state is one record.  \<open>net_clock\<close> is what \<open>time(NULL)\<close> returns, \<open>net_rand\<close> and \<open>net_rpos\<close> are
  the values \<open>rand()\<close> returns and how many were taken, \<open>net_sent\<close> is the log of the frames given to
  \<open>iface_send_packet\<close>.  The locks of the code make each function here one atomic step.
\<close>

section \<open>State\<close>

definition MAX_ARP_SIZE :: nat where "MAX_ARP_SIZE = 32"
definition ARP_ENTRY_TIMEOUT :: int where "ARP_ENTRY_TIMEOUT = 15"
definition ARP_REQUEST_MAX_RETRIES :: int where "ARP_REQUEST_MAX_RETRIES = 5"

record arp_cache_entry =
  ce_ip4 :: u32
  ce_mac :: bytes
  ce_added :: int
  ce_valid :: bool

record arp_req =
  rq_iface :: ip_iface
  rq_ip4 :: u32
  rq_sent :: int
  rq_retries :: int
  rq_packets :: "bytes list"

record net =
  net_ifaces :: "ip_iface list"
  net_rtable :: "rt_entry list"
  arp_entries :: "arp_cache_entry list"
  arp_reqs :: "arp_req list"
  net_clock :: int
  net_rand :: "nat \<Rightarrow> nat"
  net_rpos :: nat
  net_sent :: "(ip_iface \<times> bytes) list"

definition arpcache_init :: "'a net_scheme \<Rightarrow> 'a net_scheme" where
  "arpcache_init s = s\<lparr>arp_reqs := [],
     arp_entries := replicate MAX_ARP_SIZE \<lparr>ce_ip4 = 0, ce_mac = zeros ETH_ALEN, ce_added = 0, ce_valid = False\<rparr>\<rparr>"

definition arpcache_destroy :: "'a net_scheme \<Rightarrow> 'a net_scheme" where
  "arpcache_destroy s = s\<lparr>arp_reqs := []\<rparr>"

definition net_iface_send_packet :: "ip_iface \<Rightarrow> bytes \<Rightarrow> 'a net_scheme \<Rightarrow> 'a net_scheme" where
  "net_iface_send_packet iface pkt s = s\<lparr>net_sent := net_sent s @ [(iface, pkt)]\<rparr>"

definition net_random :: "'a net_scheme \<Rightarrow> nat \<times> 'a net_scheme" where
  "net_random s = (net_rand s (net_rpos s), s\<lparr>net_rpos := net_rpos s + 1\<rparr>)"

section \<open>ARP packets\<close>

definition ARPHRD_ETHER :: u16 where "ARPHRD_ETHER = 1"
definition ARPOP_REQUEST :: u16 where "ARPOP_REQUEST = 1"
definition ARPOP_REPLY :: u16 where "ARPOP_REPLY = 2"
definition ETHER_ARP_SIZE :: nat where "ETHER_ARP_SIZE = 28"

text \<open>\<open>struct ether_arp\<close> behind the Ethernet header; addresses as they stand in memory.\<close>

definition arp_op :: "bytes \<Rightarrow> u16" where "arp_op pkt = ld16 pkt 20"
definition arp_sha :: "bytes \<Rightarrow> bytes" where "arp_sha pkt = slice pkt 22 ETH_ALEN"
definition arp_spa :: "bytes \<Rightarrow> u32" where "arp_spa pkt = ld32 pkt 28"
definition arp_tha :: "bytes \<Rightarrow> bytes" where "arp_tha pkt = slice pkt 32 ETH_ALEN"
definition arp_tpa :: "bytes \<Rightarrow> u32" where "arp_tpa pkt = ld32 pkt 38"

text \<open>
  The assignments the two senders share.  Every byte of the 42 is written, so what \<open>malloc\<close>
  left there does not matter.
\<close>

definition arp_frame :: "bytes \<Rightarrow> bytes \<Rightarrow> u16 \<Rightarrow> bytes \<Rightarrow> u32 \<Rightarrow> bytes \<Rightarrow> u32 \<Rightarrow> bytes" where
  "arp_frame dhost shost op sha spa tha tpa =
    (let p = zeros (ETHER_HDR_SIZE + ETHER_ARP_SIZE);
         p = blit p 6 shost;
         p = blit p 0 dhost;
         p = st16 p 12 (htons ETH_P_ARP);
         p = st16 p 14 (htons ARPHRD_ETHER);
         p = st16 p 16 (htons ETH_P_IP);
         p = st8 p 18 6;
         p = st8 p 19 4;
         p = st16 p 20 (htons op);
         p = blit p 22 sha;
         p = st32 p 28 spa;
         p = blit p 32 tha;
         p = st32 p 38 tpa
     in p)"

definition arp_send_request :: "ip_iface \<Rightarrow> u32 \<Rightarrow> 'a net_scheme \<Rightarrow> 'a net_scheme" where
  "arp_send_request iface dst_ip s =
    net_iface_send_packet iface
      (arp_frame (replicate ETH_ALEN 0xff) (if_mac iface) ARPOP_REQUEST (if_mac iface)
        (htonl (if_ip iface)) (replicate ETH_ALEN 0) (htonl dst_ip)) s"

definition arp_send_reply :: "ip_iface \<Rightarrow> bytes \<Rightarrow> 'a net_scheme \<Rightarrow> 'a net_scheme" where
  "arp_send_reply iface req_pkt s =
    net_iface_send_packet iface
      (arp_frame (arp_sha req_pkt) (if_mac iface) ARPOP_REPLY (if_mac iface)
        (htonl (if_ip iface)) (arp_sha req_pkt) (arp_spa req_pkt)) s"

section \<open>The cache\<close>

definition arpcache_lookup :: "arp_cache_entry list \<Rightarrow> u32 \<Rightarrow> bytes option" where
  "arpcache_lookup entries ip4 =
    map_option ce_mac (find (\<lambda>e. ce_valid e \<and> ce_ip4 e = ip4) (take MAX_ARP_SIZE entries))"

text \<open>
  The index \<open>arpcache_insert\<close> writes: the valid entry with the address, or else the first free
  one, or else a random one (the second component says whether \<open>rand()\<close> was called).
\<close>

fun first_index :: "('x \<Rightarrow> bool) \<Rightarrow> 'x list \<Rightarrow> nat" where
  "first_index P [] = 0"
| "first_index P (x # xs) = (if P x then 0 else Suc (first_index P xs))"

definition cache_slot :: "nat \<Rightarrow> arp_cache_entry list \<Rightarrow> u32 \<Rightarrow> nat \<times> bool" where
  "cache_slot rnd entries ip4 =
    (let i = first_index (\<lambda>e. ce_valid e \<and> ce_ip4 e = ip4) entries in
     if i < MAX_ARP_SIZE then (i, False)
     else let i = first_index (\<lambda>e. \<not> ce_valid e) entries in
       if i < MAX_ARP_SIZE then (i, False) else (rnd mod MAX_ARP_SIZE, True))"

definition cache_put :: "nat \<Rightarrow> int \<Rightarrow> u32 \<Rightarrow> bytes \<Rightarrow> arp_cache_entry list \<Rightarrow> arp_cache_entry list" where
  "cache_put rnd now ip4 mac entries = entries[fst (cache_slot rnd entries ip4) :=
     \<lparr>ce_ip4 = ip4, ce_mac = mac, ce_added = now, ce_valid = True\<rparr>]"

text \<open>The first loop of the sweep.\<close>

definition age_cache_entry :: "arp_cache_entry \<Rightarrow> arp_cache_entry" where
  "age_cache_entry e =
    (let e = e\<lparr>ce_added := ce_added e + 1\<rparr> in
     if ce_added e > ARP_ENTRY_TIMEOUT then e\<lparr>ce_valid := False\<rparr> else e)"

section \<open>Pending packets\<close>

fun append_to_req :: "ip_iface \<Rightarrow> u32 \<Rightarrow> bytes \<Rightarrow> arp_req list \<Rightarrow> arp_req list option" where
  "append_to_req iface ip4 packet [] = None"
| "append_to_req iface ip4 packet (r # rs) =
    (if if_fd (rq_iface r) = if_fd iface \<and> rq_ip4 r = ip4
     then Some (r\<lparr>rq_packets := rq_packets r @ [packet]\<rparr> # rs)
     else map_option (Cons r) (append_to_req iface ip4 packet rs))"

definition arpcache_append_packet :: "ip_iface \<Rightarrow> u32 \<Rightarrow> bytes \<Rightarrow> 'a net_scheme \<Rightarrow> 'a net_scheme" where
  "arpcache_append_packet iface ip4 packet s =
    (case append_to_req iface ip4 packet (arp_reqs s) of
       Some reqs \<Rightarrow> s\<lparr>arp_reqs := reqs\<rparr>
     | None \<Rightarrow> arp_send_request iface ip4
         (s\<lparr>arp_reqs := arp_reqs s @ [\<lparr>rq_iface = iface, rq_ip4 = ip4, rq_sent = net_clock s,
            rq_retries = 1, rq_packets = [packet]\<rparr>]\<rparr>))"

text \<open>The walk over the request list: matching requests are flushed and unlinked.\<close>

fun flush_packets :: "ip_iface \<Rightarrow> bytes \<Rightarrow> bytes list \<Rightarrow> 'a net_scheme \<Rightarrow> 'a net_scheme" where
  "flush_packets iface mac [] s = s"
| "flush_packets iface mac (p # ps) s =
    flush_packets iface mac ps (net_iface_send_packet iface (blit p 0 mac) s)"

fun flush_reqs :: "u32 \<Rightarrow> bytes \<Rightarrow> arp_req list \<Rightarrow> 'a net_scheme \<Rightarrow> arp_req list \<times> 'a net_scheme" where
  "flush_reqs ip4 mac [] s = ([], s)"
| "flush_reqs ip4 mac (r # rs) s =
    (if rq_ip4 r = ip4 then flush_reqs ip4 mac rs (flush_packets (rq_iface r) mac (rq_packets r) s)
     else (case flush_reqs ip4 mac rs s of (kept, s') \<Rightarrow> (r # kept, s')))"

definition arpcache_insert :: "u32 \<Rightarrow> bytes \<Rightarrow> 'a net_scheme \<Rightarrow> 'a net_scheme" where
  "arpcache_insert ip4 mac s =
    (let rnd = net_rand s (net_rpos s);
         s1 = (if snd (cache_slot rnd (arp_entries s) ip4) then snd (net_random s) else s);
         s2 = s1\<lparr>arp_entries := cache_put rnd (net_clock s) ip4 mac (arp_entries s)\<rparr>
     in case flush_reqs ip4 mac (arp_reqs s2) s2 of (kept, s3) \<Rightarrow> s3\<lparr>arp_reqs := kept\<rparr>)"

definition iface_send_packet_by_arp :: "ip_iface \<Rightarrow> u32 \<Rightarrow> bytes \<Rightarrow> 'a net_scheme \<Rightarrow> 'a net_scheme res" where
  "iface_send_packet_by_arp iface dst_ip packet s =
    (if length packet < ETHER_HDR_SIZE then Inl OutOfBounds
     else let p = st16 (blit packet 6 (if_mac iface)) 12 (htons ETH_P_IP) in
       case arpcache_lookup (arp_entries s) dst_ip of
         Some dst_mac \<Rightarrow> Inr (net_iface_send_packet iface (blit p 0 dst_mac) s)
       | None \<Rightarrow> Inr (arpcache_append_packet iface dst_ip p s))"

definition handle_arp_packet :: "ip_iface \<Rightarrow> bytes \<Rightarrow> 'a net_scheme \<Rightarrow> 'a net_scheme res" where
  "handle_arp_packet iface packet s =
    (if length packet < ETHER_HDR_SIZE + ETHER_ARP_SIZE then Inl OutOfBounds
     else let op = ntohs (arp_op packet);
              tpa = ntohl (arp_tpa packet);
              spa = ntohl (arp_spa packet)
          in Inr (if op = ARPOP_REQUEST
                  then (if if_ip iface = tpa then arp_send_reply iface packet s else s)
                  else if op = ARPOP_REPLY
                  then (if if_ip iface = tpa \<and> if_mac iface = arp_tha packet
                        then arpcache_insert spa (arp_sha packet) s else s)
                  else s))"

section \<open>The cache as a partial map\<close>

definition cache_inv :: "arp_cache_entry list \<Rightarrow> bool" where
  "cache_inv c \<longleftrightarrow> length c = MAX_ARP_SIZE \<and> (\<forall>i < length c. \<forall>j < length c.
     ce_valid (c ! i) \<and> ce_valid (c ! j) \<and> ce_ip4 (c ! i) = ce_ip4 (c ! j) \<longrightarrow> i = j)"

lemma cache_invD:
  "cache_inv c \<Longrightarrow> i < length c \<Longrightarrow> j < length c \<Longrightarrow> ce_valid (c ! i) \<Longrightarrow> ce_valid (c ! j) \<Longrightarrow>
    ce_ip4 (c ! i) = ce_ip4 (c ! j) \<Longrightarrow> i = j"
  by (simp add: cache_inv_def)

lemma first_index_found: "x \<in> set xs \<Longrightarrow> P x \<Longrightarrow> first_index P xs < length xs \<and> P (xs ! first_index P xs)"
  by (induction xs) auto

lemma first_index_lessD: "first_index P xs < length xs \<Longrightarrow> P (xs ! first_index P xs)"
  by (induction xs) (auto split: if_splits)

lemma cache_slot_less: "fst (cache_slot rnd c a) < MAX_ARP_SIZE"
  by (auto simp: cache_slot_def Let_def MAX_ARP_SIZE_def)

text \<open>A slot that is written holds the address already, or no valid entry does.\<close>

lemma cache_slot_cases:
  assumes "length c = MAX_ARP_SIZE"
  shows "(ce_valid (c ! fst (cache_slot rnd c a)) \<and> ce_ip4 (c ! fst (cache_slot rnd c a)) = a)
     \<or> (\<forall>e \<in> set c. \<not> (ce_valid e \<and> ce_ip4 e = a))"
proof (cases "\<exists>e \<in> set c. ce_valid e \<and> ce_ip4 e = a")
  case True
  then obtain e where "e \<in> set c" "ce_valid e \<and> ce_ip4 e = a" by blast
  from first_index_found[where P = "\<lambda>e. ce_valid e \<and> ce_ip4 e = a", OF this] assms show ?thesis
    by (auto simp: cache_slot_def Let_def)
qed blast

lemma lookup_iff:
  assumes "cache_inv c"
  shows "arpcache_lookup c a = Some m \<longleftrightarrow> (\<exists>i < length c. ce_valid (c ! i) \<and> ce_ip4 (c ! i) = a \<and> ce_mac (c ! i) = m)"
proof
  assume "arpcache_lookup c a = Some m"
  then show "\<exists>i < length c. ce_valid (c ! i) \<and> ce_ip4 (c ! i) = a \<and> ce_mac (c ! i) = m"
    using assms by (auto simp: arpcache_lookup_def cache_inv_def find_Some_iff)
next
  assume "\<exists>i < length c. ce_valid (c ! i) \<and> ce_ip4 (c ! i) = a \<and> ce_mac (c ! i) = m"
  then obtain i where i: "i < length c" "ce_valid (c ! i)" "ce_ip4 (c ! i) = a" "ce_mac (c ! i) = m" by blast
  have "\<not> (ce_valid (c ! j) \<and> ce_ip4 (c ! j) = a)" if "j < i" for j
    using cache_invD[OF assms i(1), of j] that i by auto
  with i have "find (\<lambda>e. ce_valid e \<and> ce_ip4 e = a) c = Some (c ! i)"
    by (auto simp: find_Some_iff intro!: exI[of _ i])
  then show "arpcache_lookup c a = Some m"
    using assms i by (simp add: arpcache_lookup_def cache_inv_def)
qed

lemma cache_inv_put:
  assumes "cache_inv c"
  shows "cache_inv (cache_put rnd now a m c)"
proof -
  define k where "k = fst (cache_slot rnd c a)"
  have k: "k < length c" using assms cache_slot_less by (simp add: k_def cache_inv_def)
  have "j = k" if "j < length c" "ce_valid (c ! j)" "ce_ip4 (c ! j) = a" for j
    using cache_slot_cases[of c rnd a] assms that k by (auto simp: k_def cache_inv_def)
  note only = this
  define e where "e = \<lparr>ce_ip4 = a, ce_mac = m, ce_added = now, ce_valid = True\<rparr>"
  have "i = j" if "i < length c" "j < length c" "ce_valid (c[k := e] ! i)" "ce_valid (c[k := e] ! j)"
    "ce_ip4 (c[k := e] ! i) = ce_ip4 (c[k := e] ! j)" for i j
    using that only[of i] only[of j] cache_invD[OF assms that(1,2)] k
    by (auto simp: nth_list_update e_def split: if_splits)
  then show ?thesis
    using assms by (simp add: cache_inv_def cache_put_def k_def[symmetric] e_def[symmetric])
qed

lemma lookup_put:
  assumes "cache_inv c"
  shows "arpcache_lookup (cache_put rnd now a m c) a = Some m"
    and "b \<noteq> a \<Longrightarrow> arpcache_lookup (cache_put rnd now a m c) b =
      (if ce_valid (c ! fst (cache_slot rnd c a)) \<and> ce_ip4 (c ! fst (cache_slot rnd c a)) = b
       then None else arpcache_lookup c b)"
proof -
  define k where "k = fst (cache_slot rnd c a)"
  have k: "k < length c" using assms cache_slot_less by (simp add: k_def cache_inv_def)
  show "arpcache_lookup (cache_put rnd now a m c) a = Some m"
    using k by (subst lookup_iff[OF cache_inv_put[OF assms]])
      (auto simp: cache_put_def k_def[symmetric] intro!: exI[of _ k])
  assume "b \<noteq> a"
  then have 1: "arpcache_lookup (cache_put rnd now a m c) b = Some n \<longleftrightarrow>
      (\<exists>i < length c. i \<noteq> k \<and> ce_valid (c ! i) \<and> ce_ip4 (c ! i) = b \<and> ce_mac (c ! i) = n)" for n
    using k by (subst lookup_iff[OF cache_inv_put[OF assms]])
      (auto simp: cache_put_def k_def[symmetric] nth_list_update)
  show "arpcache_lookup (cache_put rnd now a m c) b = (if ce_valid (c ! fst (cache_slot rnd c a)) \<and> ce_ip4 (c ! fst (cache_slot rnd c a)) = b
       then None else arpcache_lookup c b)"
  proof (cases "ce_valid (c ! k) \<and> ce_ip4 (c ! k) = b")
    case True
    then have "\<not> (\<exists>n. arpcache_lookup (cache_put rnd now a m c) b = Some n)"
      using 1 assms k unfolding cache_inv_def by blast
    with True show ?thesis by (auto simp: k_def)
  next
    case False
    then have "arpcache_lookup (cache_put rnd now a m c) b = Some n \<longleftrightarrow> arpcache_lookup c b = Some n" for n
      unfolding 1 lookup_iff[OF assms] by blast
    with False show ?thesis unfolding k_def[symmetric] by (metis option.exhaust)
  qed
qed

lemma cache_inv_age: "cache_inv c \<Longrightarrow> cache_inv (map age_cache_entry c)"
  by (auto simp: cache_inv_def age_cache_entry_def Let_def split: if_splits)

lemma lookup_age:
  assumes "cache_inv c"
  shows "arpcache_lookup (map age_cache_entry c) a \<in> {None, arpcache_lookup c a}"
proof (cases "arpcache_lookup (map age_cache_entry c) a")
  case (Some m)
  then have "arpcache_lookup c a = Some m"
    unfolding lookup_iff[OF assms] lookup_iff[OF cache_inv_age[OF assms]]
    by (auto simp: age_cache_entry_def Let_def split: if_splits)
  with Some show ?thesis by simp
qed simp

section \<open>The interface the senders use\<close>

text \<open>
  A neighbour cache may forget, but what it answers is what it was last told: the contract that
  \<open>iface_send_packet_by_arp\<close> relies on when it writes the answer into a frame.
\<close>

datatype ('ip, 'mac) cache_op = Told 'ip 'mac nat int | Aged

locale neighbour_cache =
  fixes lookup :: "'c \<Rightarrow> 'ip \<Rightarrow> 'mac option"
    and put :: "nat \<Rightarrow> int \<Rightarrow> 'ip \<Rightarrow> 'mac \<Rightarrow> 'c \<Rightarrow> 'c"
    and age :: "'c \<Rightarrow> 'c"
    and inv :: "'c \<Rightarrow> bool"
  assumes inv_put: "inv c \<Longrightarrow> inv (put r now a m c)"
    and inv_age: "inv c \<Longrightarrow> inv (age c)"
    and put_same: "inv c \<Longrightarrow> lookup (put r now a m c) a = Some m"
    and put_other: "inv c \<Longrightarrow> b \<noteq> a \<Longrightarrow> lookup (put r now a m c) b \<in> {None, lookup c b}"
    and age_forgets: "inv c \<Longrightarrow> lookup (age c) b \<in> {None, lookup c b}"
begin

primrec cache_step :: "('ip, 'mac) cache_op \<Rightarrow> 'c \<Rightarrow> 'c" where
  "cache_step (Told a m r now) c = put r now a m c"
| "cache_step Aged c = age c"

lemma inv_steps: "inv c \<Longrightarrow> inv (fold cache_step ops c)"
proof (induction ops arbitrary: c)
  case (Cons x ops)
  then show ?case by (cases x) (auto simp: inv_put inv_age)
qed simp

primrec last_told :: "'ip \<Rightarrow> 'mac option \<Rightarrow> ('ip, 'mac) cache_op list \<Rightarrow> 'mac option" where
  "last_told a d [] = d"
| "last_told a d (x # ops) =
    last_told a (case x of Told b m _ _ \<Rightarrow> if b = a then Some m else d | Aged \<Rightarrow> d) ops"

lemma answers_last_told:
  assumes "inv c" "lookup c a \<in> {None, d}" "lookup (fold cache_step ops c) a = Some m"
  shows "last_told a d ops = Some m"
  using assms
proof (induction ops arbitrary: c d)
  case (Cons x ops)
  show ?case
  proof (cases x)
    case (Told b m' r now)
    show ?thesis
    proof (cases "b = a")
      case True
      with Cons.prems Told show ?thesis
        using Cons.IH[of "put r now b m' c" "Some m'"] by (simp add: inv_put put_same)
    next
      case False
      with Cons.prems Told put_other[of c a b r now m'] show ?thesis
        using Cons.IH[of "put r now b m' c" d] by (auto simp: inv_put)
    qed
  next
    case Aged
    with Cons.prems age_forgets[of c a] show ?thesis
      using Cons.IH[of "age c" d] by (auto simp: inv_age)
  qed
qed auto

end

interpretation nc: neighbour_cache arpcache_lookup cache_put "map age_cache_entry" cache_inv
  by unfold_locales (auto simp: cache_inv_put cache_inv_age lookup_put lookup_age[simplified])
section \<open>Pending packets: what the operations do\<close>

lemma flush_packets_eq:
  "flush_packets iface mac ps s = s\<lparr>net_sent := net_sent s @ map (\<lambda>p. (iface, blit p 0 mac)) ps\<rparr>"
  by (induction ps arbitrary: s) (simp_all add: net_iface_send_packet_def)

definition flushed :: "u32 \<Rightarrow> bytes \<Rightarrow> arp_req list \<Rightarrow> (ip_iface \<times> bytes) list" where
  "flushed ip4 mac rs = concat (map (\<lambda>r. map (\<lambda>p. (rq_iface r, blit p 0 mac)) (rq_packets r))
     (filter (\<lambda>r. rq_ip4 r = ip4) rs))"

lemma flush_reqs_eq:
  "flush_reqs ip4 mac rs s = (filter (\<lambda>r. rq_ip4 r \<noteq> ip4) rs, s\<lparr>net_sent := net_sent s @ flushed ip4 mac rs\<rparr>)"
  by (induction rs arbitrary: s) (simp_all add: flush_packets_eq flushed_def)

lemma arpcache_insert_eq:
  "arpcache_insert ip4 mac s =
    s\<lparr>arp_entries := cache_put (net_rand s (net_rpos s)) (net_clock s) ip4 mac (arp_entries s),
      net_rpos := net_rpos s + (if snd (cache_slot (net_rand s (net_rpos s)) (arp_entries s) ip4) then 1 else 0),
      net_sent := net_sent s @ flushed ip4 mac (arp_reqs s),
      arp_reqs := filter (\<lambda>r. rq_ip4 r \<noteq> ip4) (arp_reqs s)\<rparr>"
  by (simp add: arpcache_insert_def Let_def flush_reqs_eq net_random_def)

lemma append_to_req_None:
  "append_to_req iface ip4 pkt rs = None \<longleftrightarrow> (\<forall>r \<in> set rs. \<not> (if_fd (rq_iface r) = if_fd iface \<and> rq_ip4 r = ip4))"
  by (induction rs) auto

definition req_key :: "arp_req \<Rightarrow> int \<times> u32" where
  "req_key r = (if_fd (rq_iface r), rq_ip4 r)"

lemma append_to_req_Some:
  "append_to_req iface ip4 pkt rs = Some rs' \<Longrightarrow> map req_key rs' = map req_key rs \<and>
    (\<forall>r' \<in> set rs'. r' \<in> set rs \<or>
      (\<exists>r \<in> set rs. r' = r\<lparr>rq_packets := rq_packets r @ [pkt]\<rparr> \<and> if_fd (rq_iface r) = if_fd iface \<and> rq_ip4 r = ip4))"
proof (induction rs arbitrary: rs')
  case (Cons a rs)
  show ?case
  proof (cases "if_fd (rq_iface a) = if_fd iface \<and> rq_ip4 a = ip4")
    case True
    with Cons.prems show ?thesis by (auto simp: req_key_def)
  next
    case False
    with Cons.prems obtain z where z: "append_to_req iface ip4 pkt rs = Some z" "rs' = a # z" by auto
    from Cons.IH[OF z(1)] z(2) show ?thesis by fastforce
  qed
qed simp

text \<open>
  The invariant of the ARP layer: the cache is a partial map, there is one request per interface
  and address, it has been sent between once and five times, and it holds frames with an
  Ethernet header, at least one, on an interface of the stack.
\<close>

definition req_wf :: "'a net_scheme \<Rightarrow> arp_req \<Rightarrow> bool" where
  "req_wf s r \<longleftrightarrow> rq_iface r \<in> set (net_ifaces s) \<and> 1 \<le> rq_retries r \<and> rq_retries r \<le> ARP_REQUEST_MAX_RETRIES
     \<and> rq_packets r \<noteq> [] \<and> (\<forall>p \<in> set (rq_packets r). ETHER_HDR_SIZE \<le> length p)"

definition distinct_fds :: "'a net_scheme \<Rightarrow> bool" where
  "distinct_fds s \<longleftrightarrow> distinct (map if_fd (net_ifaces s))"

definition arp_wf :: "'a net_scheme \<Rightarrow> bool" where
  "arp_wf s \<longleftrightarrow> cache_inv (arp_entries s) \<and> distinct (map req_key (arp_reqs s))
     \<and> (\<forall>r \<in> set (arp_reqs s). req_wf s r)
     \<and> (\<forall>(i, p) \<in> set (net_sent s). i \<in> set (net_ifaces s))"

lemma req_wf_cong: "net_ifaces s = net_ifaces t \<Longrightarrow> req_wf s r = req_wf t r"
  by (simp add: req_wf_def)

text \<open>What an operation of the ARP layer leaves alone.\<close>

definition same_frame :: "'a net_scheme \<Rightarrow> 'a net_scheme \<Rightarrow> bool" where
  "same_frame s t \<longleftrightarrow> net_ifaces t = net_ifaces s \<and> net_rtable t = net_rtable s \<and> net_clock t = net_clock s
     \<and> net_rand t = net_rand s \<and> net.more t = net.more s"

lemma same_frame_refl [simp]: "same_frame s s"
  by (simp add: same_frame_def)

lemma same_frame_trans: "same_frame s t \<Longrightarrow> same_frame t u \<Longrightarrow> same_frame s u"
  by (simp add: same_frame_def)

lemma arp_wf_send [wf_intros]:
  "arp_wf s \<Longrightarrow> iface \<in> set (net_ifaces s) \<Longrightarrow> arp_wf (net_iface_send_packet iface p s)"
  by (auto simp: arp_wf_def net_iface_send_packet_def req_wf_def)

lemma arp_wf_init [wf_intros]: "net_sent s = [] \<Longrightarrow> arp_wf (arpcache_init s)"
  by (auto simp: arp_wf_def arpcache_init_def cache_inv_def)

lemma arp_wf_insert [wf_intros]:
  assumes "arp_wf s"
  shows "arp_wf (arpcache_insert ip4 mac s)"
proof -
  have "distinct (map req_key (filter P rs))" if "distinct (map req_key rs)" for P rs
    using that by (simp add: distinct_map_filter)
  then show ?thesis using assms
    by (auto simp: arp_wf_def arpcache_insert_eq cache_inv_put req_wf_def flushed_def)
qed

lemma arp_wf_append [wf_intros]:
  assumes "arp_wf s" "iface \<in> set (net_ifaces s)" "ETHER_HDR_SIZE \<le> length p"
  shows "arp_wf (arpcache_append_packet iface ip4 p s)"
proof (cases "append_to_req iface ip4 p (arp_reqs s)")
  case None
  then have "(if_fd iface, ip4) \<notin> req_key ` set (arp_reqs s)"
    by (auto simp: append_to_req_None req_key_def)
  with None assms show ?thesis
    by (auto simp: arpcache_append_packet_def arp_send_request_def net_iface_send_packet_def arp_wf_def
        req_wf_def req_key_def ARP_REQUEST_MAX_RETRIES_def)
next
  case (Some rs)
  note rs = append_to_req_Some[OF this]
  have "req_wf s r'" if "r' \<in> set rs" for r'
  proof -
    from rs that consider "r' \<in> set (arp_reqs s)"
      | r where "r \<in> set (arp_reqs s)" "r' = r\<lparr>rq_packets := rq_packets r @ [p]\<rparr>" by blast
    then show ?thesis using assms by cases (auto simp: arp_wf_def req_wf_def)
  qed
  with rs have "map req_key rs = map req_key (arp_reqs s)" "\<forall>r \<in> set rs. req_wf s r" by auto
  with Some assms show ?thesis
    by (auto simp: arpcache_append_packet_def arp_wf_def req_wf_def)
qed

lemma same_frame_arp:
  "same_frame s (net_iface_send_packet iface p s)"
  "same_frame s (arpcache_insert ip4 mac s)"
  "same_frame s (arpcache_append_packet iface ip4 p s)"
  "same_frame s (arp_send_reply iface p s)"
  "same_frame s (arp_send_request iface ip4 s)"
  by (simp_all add: same_frame_def arpcache_insert_eq arpcache_append_packet_def arp_send_request_def
      arp_send_reply_def net_iface_send_packet_def split: option.splits)

lemma by_arp_frame:
  "iface_send_packet_by_arp iface ip p s = Inr s' \<Longrightarrow> same_frame s s'"
  by (auto simp: iface_send_packet_by_arp_def Let_def same_frame_arp split: if_splits option.splits)

lemma arp_wf_by_arp [wf_intros]:
  "arp_wf s \<Longrightarrow> iface \<in> set (net_ifaces s) \<Longrightarrow> length (if_mac iface) = 6 \<Longrightarrow>
    iface_send_packet_by_arp iface ip p s = Inr s' \<Longrightarrow> arp_wf s'"
  by (auto simp: iface_send_packet_by_arp_def Let_def ip_consts intro!: wf_intros
      split: if_splits option.splits)

lemma handle_arp_wf:
  "arp_wf s \<Longrightarrow> iface \<in> set (net_ifaces s) \<Longrightarrow> handle_arp_packet iface p s = Inr s' \<Longrightarrow>
    arp_wf s' \<and> same_frame s s'"
  by (auto simp: handle_arp_packet_def Let_def arp_send_reply_def same_frame_arp intro!: wf_intros
      split: if_splits)

section \<open>ARP frames\<close>

lemma arp_frame_fields:
  assumes "length dhost = 6" "length shost = 6" "length sha = 6" "length tha = 6"
    and f_def: "f = arp_frame dhost shost op sha spa tha tpa"
  shows "length f = 42" "ether_dhost f = dhost" "ether_shost f = shost" "ether_type f = htons ETH_P_ARP"
    "ntohs (arp_op f) = op" "arp_sha f = sha" "arp_spa f = spa" "arp_tha f = tha" "arp_tpa f = tpa"
  using assms(1-4)
  by (simp_all add: f_def arp_frame_def Let_def ether_dhost_def ether_shost_def ether_type_def arp_op_def
      arp_sha_def arp_spa_def arp_tha_def arp_tpa_def ip_consts ETHER_ARP_SIZE_def bytes_simps)
section \<open>Properties\<close>

definition cache_op_step :: "(u32, bytes) cache_op \<Rightarrow> arp_cache_entry list \<Rightarrow> arp_cache_entry list" where
  "cache_op_step = nc.cache_step"

definition empty_cache :: "arp_cache_entry list" where
  "empty_cache = replicate MAX_ARP_SIZE \<lparr>ce_ip4 = 0, ce_mac = zeros ETH_ALEN, ce_added = 0, ce_valid = False\<rparr>"

lemma empty_cache_inv: "cache_inv empty_cache" "arpcache_lookup empty_cache a = None"
  by (auto simp: cache_inv_def empty_cache_def arpcache_lookup_def find_None_iff)

definition last_told :: "u32 \<Rightarrow> (u32, bytes) cache_op list \<Rightarrow> bytes option" where
  "last_told a ops = fold (\<lambda>x d. case x of Told b m _ _ \<Rightarrow> if b = a then Some m else d | Aged \<Rightarrow> d) ops None"

lemma last_told_eq: "nc.last_told a d ops = fold (\<lambda>x d. case x of Told b m _ _ \<Rightarrow> if b = a then Some m else d | Aged \<Rightarrow> d) ops d"
  by (induction ops arbitrary: d) auto

text \<open>
  C30: the ARP cache never answers with a wrong address.  From the empty cache, after any sequence of
  insertions (with whatever clock and random numbers, evictions included) and aging sweeps, if a
  lookup of an IP address finds a hardware address, it is the one most recently inserted for it, and
  each insertion is answered right away.
\<close>
theorem arpcache_answers_last_told:
  "(\<forall>m. arpcache_lookup (fold cache_op_step ops empty_cache) a = Some m \<longrightarrow> last_told a ops = Some m) \<and>
   arpcache_lookup (fold cache_op_step (ops @ [Told a m rnd now]) empty_cache) a = Some m"
proof (intro conjI allI impI)
  fix m assume "arpcache_lookup (fold cache_op_step ops empty_cache) a = Some m"
  with nc.answers_last_told[OF empty_cache_inv(1), of a None ops] show "last_told a ops = Some m"
    by (simp add: cache_op_step_def empty_cache_inv last_told_eq last_told_def)
next
  show "arpcache_lookup (fold cache_op_step (ops @ [Told a m rnd now]) empty_cache) a = Some m"
    using nc.put_same[OF nc.inv_steps[OF empty_cache_inv(1)]] by (simp add: cache_op_step_def)
qed

theorem arpcache_answers_last_told_witness:
  "last_told 9 [Told 9 [1, 2, 3, 4, 5, 6] 0 0, Aged] = Some [1, 2, 3, 4, 5, 6]"
proof -
  have "arpcache_lookup (fold cache_op_step [Told 9 [1, 2, 3, 4, 5, 6] 0 0, Aged] empty_cache) 9
      = Some [1, 2, 3, 4, 5, 6]"
    by (simp add: cache_op_step_def empty_cache_def MAX_ARP_SIZE_def cache_put_def cache_slot_def Let_def
        arpcache_lookup_def age_cache_entry_def ARP_ENTRY_TIMEOUT_def numeral_eq_Suc)
  with arpcache_answers_last_told[of "[Told 9 [1, 2, 3, 4, 5, 6] 0 0, Aged]" 9] show ?thesis by blast
qed

text \<open>
  C21: an ARP exchange resolves an address.  The request a station sends for the address of another
  station's interface makes that station answer with exactly one frame, and when the first
  station receives this frame its cache maps the address to the answering interface's hardware
  address, and every packet that was queued for the address is sent, in order, to that hardware
  address, with none left in the queue.
\<close>
theorem arp_exchange_resolves:
  assumes "length (if_mac a) = 6" "length (if_mac b) = 6" "cache_inv (arp_entries sA)"
    and "net_sent (arp_send_request a (if_ip b) s0) = sent @ [(a, request)]"
  shows "\<exists>sB' reply sA'. handle_arp_packet b request sB = Inr sB' \<and>
    net_sent sB' = net_sent sB @ [(b, reply)] \<and>
    handle_arp_packet a reply sA = Inr sA' \<and>
    arpcache_lookup (arp_entries sA') (if_ip b) = Some (if_mac b) \<and>
    arp_reqs sA' = filter (\<lambda>r. rq_ip4 r \<noteq> if_ip b) (arp_reqs sA) \<and>
    net_sent sA' = net_sent sA @ flushed (if_ip b) (if_mac b) (arp_reqs sA)"
proof -
  define reply where "reply = arp_frame (if_mac a) (if_mac b) ARPOP_REPLY (if_mac b)
     (htonl (if_ip b)) (if_mac a) (htonl (if_ip a))"
  have req: "request = arp_frame (replicate ETH_ALEN 0xff) (if_mac a) ARPOP_REQUEST (if_mac a)
        (htonl (if_ip a)) (replicate ETH_ALEN 0) (htonl (if_ip b))"
    using assms(4) by (simp add: arp_send_request_def net_iface_send_packet_def)
  note rf = arp_frame_fields[OF _ assms(1) assms(1) _ req]
  note pf = arp_frame_fields[OF assms(1,2,2,1) reply_def]
  have "handle_arp_packet b request sB = Inr (net_iface_send_packet b reply sB)"
    using rf by (simp add: handle_arp_packet_def Let_def ETH_ALEN_def ETHER_HDR_SIZE_def ETHER_ARP_SIZE_def
        arp_send_reply_def reply_def)
  moreover have "handle_arp_packet a reply sA = Inr (arpcache_insert (if_ip b) (if_mac b) sA)"
    using pf by (simp add: handle_arp_packet_def Let_def ETHER_HDR_SIZE_def ETHER_ARP_SIZE_def
        ARPOP_REQUEST_def ARPOP_REPLY_def)
  ultimately show ?thesis
    using nc.put_same[OF assms(3)] by (auto simp: net_iface_send_packet_def arpcache_insert_eq)
qed

definition example_net :: net where
  "example_net = \<lparr>net_ifaces = [example_iface 1 0x0A000102, example_iface 2 0x0A000201],
     net_rtable = example_rtable, arp_entries = empty_cache, arp_reqs = [], net_clock = 100,
     net_rand = (\<lambda>n. n), net_rpos = 0, net_sent = []\<rparr>"

theorem arp_exchange_resolves_witness:
  "\<exists>request sB' reply sA'.
    net_sent (arp_send_request (example_iface 1 0x0A000102) 0x0A000201 example_net) =
      [(example_iface 1 0x0A000102, request)] \<and>
    handle_arp_packet (example_iface 2 0x0A000201) request example_net = Inr sB' \<and>
    net_sent sB' = [(example_iface 2 0x0A000201, reply)] \<and>
    handle_arp_packet (example_iface 1 0x0A000102) reply example_net = Inr sA' \<and>
    arpcache_lookup (arp_entries sA') 0x0A000201 = Some (if_mac (example_iface 2 0x0A000201))"
proof -
  obtain request where r: "net_sent (arp_send_request (example_iface 1 0x0A000102) 0x0A000201 example_net) =
      [] @ [(example_iface 1 0x0A000102, request)]"
    by (simp add: arp_send_request_def net_iface_send_packet_def example_net_def)
  have "cache_inv (arp_entries example_net)" by (simp add: example_net_def empty_cache_inv)
  from arp_exchange_resolves[of "example_iface 1 0x0A000102" "example_iface 2 0x0A000201",
      OF _ _ this, of example_net "[]" request example_net] r show ?thesis
    by (auto simp: example_iface_def example_net_def)
qed

end
