(* ===== verification/Router.thy ===== *)
theory Router
  imports Arp_Cache
begin

text \<open>
  The IP router of lab 6: \<open>icmp.c\<close>, \<open>ip_send_packet\<close> (\<open>ip_base.c\<close>), \<open>handle_ip_packet\<close> (\<open>ip.c\<close>), the
  ARP sweeping thread (\<open>arpcache.c\<close>) and \<open>handle_packet\<close> (\<open>main.c\<close>).  A packet shorter than what the
  code reads of it makes the model fault with \<open>OutOfBounds\<close>; the code has no length checks.
\<close>

section \<open>Sending\<close>

definition ICMP_HDR_SIZE :: nat where "ICMP_HDR_SIZE = 8"
definition ICMP_COPIED_DATA_LEN :: nat where "ICMP_COPIED_DATA_LEN = 8"
definition ICMP_ECHOREQUEST :: u8 where "ICMP_ECHOREQUEST = 8"
definition ICMP_ECHOREPLY :: u8 where "ICMP_ECHOREPLY = 0"
definition ICMP_DEST_UNREACH :: u8 where "ICMP_DEST_UNREACH = 3"
definition ICMP_TIME_EXCEEDED :: u8 where "ICMP_TIME_EXCEEDED = 11"
definition ICMP_NET_UNREACH :: u8 where "ICMP_NET_UNREACH = 0"
definition ICMP_HOST_UNREACH :: u8 where "ICMP_HOST_UNREACH = 1"
definition ICMP_EXC_TTL :: u8 where "ICMP_EXC_TTL = 0"

lemmas icmp_consts = ICMP_HDR_SIZE_def ICMP_COPIED_DATA_LEN_def ICMP_ECHOREQUEST_def ICMP_ECHOREPLY_def
  ICMP_DEST_UNREACH_def ICMP_TIME_EXCEEDED_def ICMP_NET_UNREACH_def ICMP_HOST_UNREACH_def ICMP_EXC_TTL_def

definition ip_send_packet :: "bytes \<Rightarrow> 'a net_scheme \<Rightarrow> 'a net_scheme res" where
  "ip_send_packet packet s =
    (if \<not> has_ip_hdr packet then Inl OutOfBounds
     else let daddr = ntohl (iph_daddr packet) in
       case longest_prefix_match (net_rtable s) daddr of
         None \<Rightarrow> Inr s
       | Some m \<Rightarrow> iface_send_packet_by_arp (rt_iface m) (next_hop m daddr) packet s)"

text \<open>The checksum of an ICMP message at \<open>off\<close>, computed with its checksum field zeroed.\<close>

definition icmp_checksum :: "bytes \<Rightarrow> nat \<Rightarrow> nat \<Rightarrow> u16" where
  "icmp_checksum pkt off len = checksum (slice (st16 pkt (off + 2) 0) off len) 0"

text \<open>Type, code, checksum and transmission: the end of \<open>icmp_send_packet\<close>, for either kind.\<close>

definition icmp_finish :: "bytes \<Rightarrow> nat \<Rightarrow> u8 \<Rightarrow> u8 \<Rightarrow> 'a net_scheme \<Rightarrow> 'a net_scheme res" where
  "icmp_finish res icmp_len type code s =
    (if icmp_len < 4 then Inl OutOfBounds
     else let off = IP_DATA res;
              p = st8 res off type;
              p = st8 p (off + 1) code
          in ip_send_packet (st16 p (off + 2) (icmp_checksum p off icmp_len)) s)"

text \<open>
  \<open>icmp_send_packet\<close>.  An echo reply copies the data of the packet, as many bytes as \<open>tot_len\<close>
  claims; an error quotes the IP header and eight bytes.
\<close>

definition icmp_send_packet :: "bytes \<Rightarrow> u8 \<Rightarrow> u8 \<Rightarrow> 'a net_scheme \<Rightarrow> 'a net_scheme res" where
  "icmp_send_packet in_pkt type code s =
    (if \<not> has_ip_hdr in_pkt then Inl OutOfBounds
     else if type = ICMP_ECHOREPLY then
       (let tot = unat (ntohs (iph_tot_len in_pkt)) in
        if tot < IP_HDR_SIZE in_pkt \<or> length in_pkt < ETHER_HDR_SIZE + tot then Inl OutOfBounds
        else let icmp_len = tot - IP_HDR_SIZE in_pkt;
                 res = zeros (ETHER_HDR_SIZE + IP_BASE_HDR_SIZE + icmp_len);
                 (rnd, s1) = net_random s
             in bind_res (ip_init_hdr rnd res (ntohl (iph_daddr in_pkt)) (ntohl (iph_saddr in_pkt))
                   (of_nat (IP_BASE_HDR_SIZE + icmp_len)) IPPROTO_ICMP)
                 (\<lambda>res. icmp_finish (blit res (IP_DATA res) (slice in_pkt (IP_DATA in_pkt) icmp_len))
                    icmp_len type code s1))
     else
       (let icmp_len = ICMP_HDR_SIZE + IP_HDR_SIZE in_pkt + ICMP_COPIED_DATA_LEN;
            res = zeros (ETHER_HDR_SIZE + IP_BASE_HDR_SIZE + icmp_len) in
        case longest_prefix_match (net_rtable s) (ntohl (iph_saddr in_pkt)) of
          None \<Rightarrow> Inr s
        | Some m \<Rightarrow>
            if length in_pkt < ETHER_HDR_SIZE + (icmp_len - ICMP_HDR_SIZE) then Inl OutOfBounds
            else let (rnd, s1) = net_random s
             in bind_res (ip_init_hdr rnd res (if_ip (rt_iface m)) (ntohl (iph_saddr in_pkt))
                   (of_nat (IP_BASE_HDR_SIZE + icmp_len)) IPPROTO_ICMP)
                 (\<lambda>res. icmp_finish
                    (blit res (IP_DATA res + ICMP_HDR_SIZE) (slice in_pkt ETHER_HDR_SIZE (icmp_len - ICMP_HDR_SIZE)))
                    icmp_len type code s1)))"

section \<open>Receiving\<close>

definition handle_ip_packet :: "ip_iface \<Rightarrow> bytes \<Rightarrow> 'a net_scheme \<Rightarrow> 'a net_scheme res" where
  "handle_ip_packet iface packet s =
    (if \<not> has_ip_hdr packet \<or> length packet \<le> IP_DATA packet then Inl OutOfBounds
     else let daddr = ntohl (iph_daddr packet);
              protocol = iph_protocol packet;
              type = ld8 packet (IP_DATA packet) in
       if daddr = if_ip iface \<and> protocol = IPPROTO_ICMP \<and> type = ICMP_ECHOREQUEST
       then icmp_send_packet packet ICMP_ECHOREPLY 0 s
       else let packet = st8 packet 22 (iph_ttl packet - 1) in
         if iph_ttl packet \<le> 0 then icmp_send_packet packet ICMP_TIME_EXCEEDED ICMP_EXC_TTL s
         else bind_res (ip_set_checksum packet) (\<lambda>packet.
           case longest_prefix_match (net_rtable s) daddr of
             None \<Rightarrow> icmp_send_packet packet ICMP_DEST_UNREACH ICMP_NET_UNREACH s
           | Some m \<Rightarrow> iface_send_packet_by_arp (rt_iface m) (next_hop m daddr) packet s))"

definition router_handle_packet :: "ip_iface \<Rightarrow> bytes \<Rightarrow> 'a net_scheme \<Rightarrow> 'a net_scheme res" where
  "router_handle_packet iface packet s =
    (if length packet < ETHER_HDR_SIZE then Inl OutOfBounds
     else if ntohs (ether_type packet) = ETH_P_IP then handle_ip_packet iface packet s
     else if ntohs (ether_type packet) = ETH_P_ARP then handle_arp_packet iface packet s
     else Inr s)"

definition router_ustack_run :: "ip_iface list \<Rightarrow> poll_event list \<Rightarrow> 'a net_scheme \<Rightarrow> 'a net_scheme res" where
  "router_ustack_run = ustack_run router_handle_packet"

section \<open>The sweeping thread\<close>

text \<open>
  The walk over the pending requests, with the time read once: what is kept, the packets to drop, and
  the state after the retransmitted requests.
\<close>

fun sweep_reqs :: "int \<Rightarrow> arp_req list \<Rightarrow> 'a net_scheme \<Rightarrow> arp_req list \<times> bytes list \<times> 'a net_scheme" where
  "sweep_reqs now [] s = ([], [], s)"
| "sweep_reqs now (r # rs) s =
    (if now - rq_sent r \<ge> 1
     then let r = r\<lparr>rq_retries := rq_retries r + 1, rq_sent := now\<rparr> in
       if rq_retries r \<le> ARP_REQUEST_MAX_RETRIES
       then (case sweep_reqs now rs (arp_send_request (rq_iface r) (rq_ip4 r) s) of
               (kept, drops, s') \<Rightarrow> (r # kept, drops, s'))
       else (case sweep_reqs now rs s of (kept, drops, s') \<Rightarrow> (kept, rq_packets r @ drops, s'))
     else (case sweep_reqs now rs s of (kept, drops, s') \<Rightarrow> (r # kept, drops, s')))"

definition arpcache_sweep :: "'a net_scheme \<Rightarrow> 'a net_scheme res" where
  "arpcache_sweep s =
    (let s1 = s\<lparr>arp_entries := map age_cache_entry (arp_entries s)\<rparr> in
     case sweep_reqs (net_clock s1) (arp_reqs s1) s1 of
       (kept, drop_list, s2) \<Rightarrow>
         fold_res (\<lambda>p. icmp_send_packet p ICMP_DEST_UNREACH ICMP_HOST_UNREACH) drop_list
           (s2\<lparr>arp_reqs := kept\<rparr>))"

section \<open>Invariant\<close>

text \<open>The ARP layer is well formed and the routes go through the stack's own interfaces.\<close>

definition router_wf :: "'a net_scheme \<Rightarrow> bool" where
  "router_wf s \<longleftrightarrow> arp_wf s \<and> (\<forall>i \<in> set (net_ifaces s). length (if_mac i) = 6)
     \<and> (\<forall>e \<in> set (net_rtable s). rt_iface e \<in> set (net_ifaces s))"

text \<open>A step that keeps the invariant and leaves interfaces, routes and clock alone.\<close>

definition router_step :: "'a net_scheme \<Rightarrow> 'a net_scheme \<Rightarrow> bool" where
  "router_step s t \<longleftrightarrow> same_frame s t \<and> (router_wf s \<longrightarrow> router_wf t)"

lemma router_step_refl [wf_intros]: "router_step s s"
  by (simp add: router_step_def)

lemma router_step_trans: "router_step s t \<Longrightarrow> router_step t u \<Longrightarrow> router_step s u"
  by (auto simp: router_step_def intro: same_frame_trans)

lemma router_step_random: "router_step s (snd (net_random s))"
  by (auto simp: router_step_def router_wf_def arp_wf_def req_wf_def net_random_def same_frame_def)

lemma router_step_by_arp:
  assumes "iface_send_packet_by_arp iface ip p s = Inr s'" "iface \<in> set (net_ifaces s)"
  shows "router_step s s'"
proof -
  have f: "same_frame s s'" using by_arp_frame[OF assms(1)] .
  moreover have "router_wf s'" if "router_wf s"
  proof -
    have "length (if_mac iface) = 6" using that assms(2) by (simp add: router_wf_def)
    with arp_wf_by_arp[OF _ assms(2) _ assms(1)] that f show ?thesis
      by (simp add: router_wf_def same_frame_def)
  qed
  ultimately show ?thesis by (simp add: router_step_def)
qed

definition routes_ok :: "'a net_scheme \<Rightarrow> bool" where
  "routes_ok s \<longleftrightarrow> (\<forall>e \<in> set (net_rtable s). rt_iface e \<in> set (net_ifaces s))"

lemma routes_okD: "routes_ok s \<Longrightarrow> longest_prefix_match (net_rtable s) a = Some m \<Longrightarrow> rt_iface m \<in> set (net_ifaces s)"
  using lpm.lookup_best by (fastforce simp: routes_ok_def)

lemma routes_ok_wf: "router_wf s \<Longrightarrow> routes_ok s"
  by (simp add: router_wf_def routes_ok_def)

lemma routes_ok_frame: "same_frame s t \<Longrightarrow> routes_ok t = routes_ok s"
  by (simp add: same_frame_def routes_ok_def)

lemma router_step_ip_send:
  "ip_send_packet p s = Inr s' \<Longrightarrow> routes_ok s \<Longrightarrow> router_step s s'"
  by (auto simp: ip_send_packet_def Let_def router_step_refl intro: router_step_by_arp routes_okD
      split: if_splits option.splits)

lemma router_step_icmp_finish:
  "icmp_finish res n type code s = Inr s' \<Longrightarrow> routes_ok s \<Longrightarrow> router_step s s'"
  by (auto simp: icmp_finish_def Let_def intro: router_step_ip_send split: if_splits)

lemma router_step_icmp:
  assumes "icmp_send_packet p type code s = Inr s'" "routes_ok s"
  shows "router_step s s'"
proof -
  have "routes_ok (snd (net_random s))"
    using routes_ok_frame[of s "snd (net_random s)"] router_step_random[of s] assms(2)
    by (simp add: router_step_def)
  then have fin: "router_step s s'" if "icmp_finish res n type code (snd (net_random s)) = Inr s'" for res n
    using router_step_icmp_finish[OF that] router_step_random[of s] router_step_trans by blast
  show ?thesis using assms fin
    by (auto simp: icmp_send_packet_def Let_def bind_res_Inr_conv router_step_refl case_prod_beta
        split: if_splits option.splits)
qed

lemma router_step_handle_ip:
  "handle_ip_packet iface p s = Inr s' \<Longrightarrow> routes_ok s \<Longrightarrow> router_step s s'"
  by (auto simp: handle_ip_packet_def Let_def bind_res_Inr_conv intro: router_step_icmp router_step_by_arp
      routes_okD split: if_splits option.splits)

lemma router_step_handle_arp:
  assumes "handle_arp_packet iface p s = Inr s'" "iface \<in> set (net_ifaces s)"
  shows "router_step s s'"
proof -
  have "same_frame s s'"
    using assms by (auto simp: handle_arp_packet_def Let_def same_frame_arp split: if_splits)
  then show ?thesis
    using handle_arp_wf[OF _ assms(2,1)] by (auto simp: router_step_def router_wf_def same_frame_def)
qed

lemma router_step_handle_packet:
  "router_handle_packet iface p s = Inr s' \<Longrightarrow> routes_ok s \<Longrightarrow> iface \<in> set (net_ifaces s) \<Longrightarrow> router_step s s'"
  by (auto simp: router_handle_packet_def router_step_refl intro: router_step_handle_ip router_step_handle_arp
      split: if_splits)

section \<open>The sweep\<close>

definition due :: "int \<Rightarrow> arp_req \<Rightarrow> bool" where
  "due now r \<longleftrightarrow> now - rq_sent r \<ge> 1"

definition retried :: "int \<Rightarrow> arp_req \<Rightarrow> arp_req" where
  "retried now r = (if due now r then r\<lparr>rq_retries := rq_retries r + 1, rq_sent := now\<rparr> else r)"

definition given_up :: "int \<Rightarrow> arp_req \<Rightarrow> bool" where
  "given_up now r \<longleftrightarrow> due now r \<and> ARP_REQUEST_MAX_RETRIES < rq_retries r + 1"

definition request_frame :: "ip_iface \<Rightarrow> u32 \<Rightarrow> bytes" where
  "request_frame iface ip4 = arp_frame (replicate ETH_ALEN 0xff) (if_mac iface) ARPOP_REQUEST (if_mac iface)
        (htonl (if_ip iface)) (replicate ETH_ALEN 0) (htonl ip4)"

lemma arp_send_request_eq:
  "arp_send_request iface ip4 s = s\<lparr>net_sent := net_sent s @ [(iface, request_frame iface ip4)]\<rparr>"
  by (simp add: arp_send_request_def net_iface_send_packet_def request_frame_def)

lemma sweep_reqs_eq:
  "sweep_reqs now rs s =
    (map (retried now) (filter (\<lambda>r. \<not> given_up now r) rs),
     concat (map rq_packets (filter (given_up now) rs)),
     s\<lparr>net_sent := net_sent s @ map (\<lambda>r. (rq_iface r, request_frame (rq_iface r) (rq_ip4 r)))
        (filter (\<lambda>r. due now r \<and> \<not> given_up now r) rs)\<rparr>)"
proof (induction rs arbitrary: s)
  case (Cons r rs)
  then show ?case
    by (auto simp: Let_def retried_def given_up_def due_def arp_send_request_eq)
qed simp

lemma router_step_drops:
  "fold_res (\<lambda>p. icmp_send_packet p t c) ps s = Inr s' \<Longrightarrow> routes_ok s \<Longrightarrow> router_step s s'"
proof (induction ps arbitrary: s)
  case (Cons p ps)
  then obtain s1 where s1: "icmp_send_packet p t c s = Inr s1" "fold_res (\<lambda>p. icmp_send_packet p t c) ps s1 = Inr s'"
    by (auto simp: bind_res_Inr_conv)
  from router_step_icmp[OF s1(1) Cons.prems(2)] have 1: "router_step s s1" .
  then have "routes_ok s1" using Cons.prems(2) routes_ok_frame by (auto simp: router_step_def)
  from Cons.IH[OF s1(2) this] 1 show ?case by (rule router_step_trans[rotated])
qed (simp add: router_step_refl)

lemma router_step_sweep:
  assumes "arpcache_sweep s = Inr s'" "routes_ok s"
  shows "router_step s s'"
proof -
  define s1 where "s1 = s\<lparr>arp_entries := map age_cache_entry (arp_entries s),
     net_sent := net_sent s @ map (\<lambda>r. (rq_iface r, request_frame (rq_iface r) (rq_ip4 r)))
        (filter (\<lambda>r. due (net_clock s) r \<and> \<not> given_up (net_clock s) r) (arp_reqs s)),
     arp_reqs := map (retried (net_clock s)) (filter (\<lambda>r. \<not> given_up (net_clock s) r) (arp_reqs s))\<rparr>"
  have "fold_res (\<lambda>p. icmp_send_packet p ICMP_DEST_UNREACH ICMP_HOST_UNREACH)
      (concat (map rq_packets (filter (given_up (net_clock s)) (arp_reqs s)))) s1 = Inr s'"
    using assms(1) by (simp add: arpcache_sweep_def Let_def sweep_reqs_eq s1_def)
  then have 1: "router_step s1 s'"
    using assms(2) by (intro router_step_drops) (auto simp: s1_def routes_ok_def)
  have key: "req_key (retried now r) = req_key r" for now r
    by (simp add: retried_def req_key_def)
  have dist: "distinct (map req_key (map (retried now) (filter P rs)))" if "distinct (map req_key rs)" for now P rs
    using that by (simp add: comp_def key distinct_map_filter)
  have "router_step s s1"
    unfolding router_step_def
  proof
    show "same_frame s s1" by (simp add: same_frame_def s1_def)
    show "router_wf s \<longrightarrow> router_wf s1"
      using dist
      by (auto simp: router_wf_def arp_wf_def s1_def cache_inv_age req_wf_def retried_def given_up_def)
  qed
  with 1 show ?thesis by (rule router_step_trans[rotated])
qed
section \<open>ICMP messages\<close>

text \<open>A frame that carries the ICMP message \<open>type\<close>, \<open>code\<close>, checksum, \<open>body\<close> and nothing else.\<close>

definition icmp_message :: "u32 \<Rightarrow> u32 \<Rightarrow> u8 \<Rightarrow> u8 \<Rightarrow> bytes \<Rightarrow> bytes \<Rightarrow> bool" where
  "icmp_message src dst type code body p \<longleftrightarrow> ip_hdr_valid p \<and> iph_ihl p = 5
     \<and> iph_protocol p = IPPROTO_ICMP \<and> iph_ttl p = DEFAULT_TTL
     \<and> ntohl (iph_saddr p) = src \<and> ntohl (iph_daddr p) = dst
     \<and> ntohs (iph_tot_len p) = of_nat (24 + length body) \<and> length p = 38 + length body
     \<and> ld8 p 34 = type \<and> ld8 p 35 = code \<and> checksum (drop 34 p) 0 = 0 \<and> drop 38 p = body"

lemma ip_hdr_valid_cong:
  assumes "ip_hdr_valid p" "iph_ihl p = 5" "length q = length p" "\<And>i. i < 34 \<Longrightarrow> q ! i = p ! i"
  shows "ip_hdr_valid q" "iph_ihl q = 5" "iph_protocol q = iph_protocol p" "iph_ttl q = iph_ttl p"
    "iph_saddr q = iph_saddr p" "iph_daddr q = iph_daddr p" "iph_tot_len q = iph_tot_len p"
proof -
  show ihl: "iph_ihl q = 5" "iph_protocol q = iph_protocol p" "iph_ttl q = iph_ttl p"
    "iph_saddr q = iph_saddr p" "iph_daddr q = iph_daddr p" "iph_tot_len q = iph_tot_len p"
    using assms(2) assms(4) by (simp_all add: iph_defs ld8_def ld16_def ld32_def)
  have "slice q 14 20 = slice p 14 20"
    by (rule slice_cong_bytes) (use assms(3,4) in auto)
  with ihl assms(1,2,3) show "ip_hdr_valid q"
    by (simp add: ip_hdr_valid_def has_ip_hdr_def IP_DATA_def IP_HDR_SIZE_def ip_consts)
qed

lemma drop_slice: "length p = off + n \<Longrightarrow> slice p off n = drop off p"
  by (simp add: slice_def)

lemma icmp_finish_message:
  assumes hdr: "ip_init_hdr rnd res0 src dst (of_nat (24 + m)) IPPROTO_ICMP = Inr res"
    and len: "length res0 = 38 + m" "m \<le> 65511"
    and q: "length q = length res" "\<And>i. i < 34 \<Longrightarrow> q ! i = res ! i" "drop 38 q = body"
  shows "\<exists>p. icmp_finish q (4 + m) type code s = ip_send_packet p s \<and> icmp_message src dst type code body p"
proof -
  note f = ip_init_hdr_fields[OF hdr]
  define r where "r = st8 (st8 q 34 type) 35 code"
  define p where "p = st16 r 36 (icmp_checksum r 34 (4 + m))"
  have lq: "length q = 38 + m" using q(1) f(9) len by simp
  have off: "IP_DATA q = 34"
    using q(2)[of 14] f(2) by (simp add: IP_DATA_def IP_HDR_SIZE_def iph_ihl_def ld8_def ip_consts)
  have fin: "icmp_finish q (4 + m) type code s = ip_send_packet p s"
    by (simp add: icmp_finish_def off Let_def p_def r_def)
  have lp: "length p = 38 + m" "length r = 38 + m" by (simp_all add: p_def r_def lq)
  have same: "p ! i = res ! i" if "i < 34" for i
    using that q(2)[OF that] by (simp add: p_def r_def st16_def st8_def)
  have sl: "slice (st16 r 36 v) 34 (4 + m) = st16 (slice r 34 (4 + m)) 2 v" for v
    using slice_st16_inside[of 34 2 "4 + m" r v] lp by simp
  have "checksum (st16 (slice r 34 (4 + m)) (2 * 1)
      (checksum (st16 (slice r 34 (4 + m)) (2 * 1) 0) 0)) 0 = 0"
  proof (rule checksum_verifies)
    have "word_sum (st16 (slice r 34 (4 + m)) (2 * 1) 0) \<le> 65535 * (4 + m)"
      using word_sum_bound[of "st16 (slice r 34 (4 + m)) (2 * 1) 0"] lp by simp
    then show "word_sum (st16 (slice r 34 (4 + m)) (2 * 1) 0) + unat (0 :: u32) < 4294836224"
      using len(2) by simp
  qed (use lp len in simp_all)
  then have "checksum (slice p 34 (4 + m)) 0 = 0" by (simp add: p_def sl icmp_checksum_def)
  then have ck: "checksum (drop 34 p) 0 = 0" using lp drop_slice[of p 34 "4 + m"] by simp
  have "drop 38 p = drop 38 q" by (simp add: p_def r_def st16_def st8_def)
  moreover from this have "m = length body" using lp q(3) by (metis add_diff_cancel_left' length_drop)
  moreover have "ld8 p 34 = type" "ld8 p 35 = code" using lp lq by (simp_all add: p_def r_def bytes_simps)
  ultimately have "icmp_message src dst type code body p"
    using ip_hdr_valid_cong[OF f(1,2) _ same] lp f len ck q(3) by (simp add: icmp_message_def)
  with fin show ?thesis by blast
qed

lemma nth_blit_below: "i < off \<Longrightarrow> off + length src \<le> length dst \<Longrightarrow> blit dst off src ! i = dst ! i"
  by (simp add: nth_blit)

lemma echo_reply_message:
  assumes "has_ip_hdr pkt" "5 \<le> iph_ihl pkt" "unat (ntohs (iph_tot_len pkt)) = IP_HDR_SIZE pkt + 4 + m"
    "ETHER_HDR_SIZE + unat (ntohs (iph_tot_len pkt)) \<le> length pkt"
  shows "\<exists>p. icmp_send_packet pkt ICMP_ECHOREPLY 0 s = ip_send_packet p (snd (net_random s)) \<and>
    icmp_message (ntohl (iph_daddr pkt)) (ntohl (iph_saddr pkt)) ICMP_ECHOREPLY 0
      (slice pkt (IP_DATA pkt + 4) m) p"
proof -
  define n where "n = 4 + m"
  define rnd where "rnd = fst (net_random s)"
  have tot: "unat (ntohs (iph_tot_len pkt)) - IP_HDR_SIZE pkt = n" using assms(3) by (simp add: n_def)
  have m: "m \<le> 65511"
    using unat_u16_less[of "ntohs (iph_tot_len pkt)"] assms(2,3) by (simp add: IP_HDR_SIZE_def)
  have room: "has_ip_hdr (zeros (38 + m))" by (simp add: has_ip_hdr_def ip_consts)
  obtain res where hdr: "ip_init_hdr rnd (zeros (38 + m)) (ntohl (iph_daddr pkt)) (ntohl (iph_saddr pkt))
      (of_nat (24 + m)) IPPROTO_ICMP = Inr res"
    using ip_init_hdr_ok[OF room] by blast
  note f = ip_init_hdr_fields[OF hdr]
  define q where "q = blit res (IP_DATA res) (slice pkt (IP_DATA pkt) n)"
  have off: "IP_DATA res = 34" using f(2) by (simp add: IP_DATA_def IP_HDR_SIZE_def ip_consts)
  have sl: "length (slice pkt (IP_DATA pkt) n) = n"
    using assms(3,4) by (simp add: IP_DATA_def n_def)
  have lq: "length q = length res" using f(9) sl by (simp add: q_def off n_def)
  have "icmp_send_packet pkt ICMP_ECHOREPLY 0 s = icmp_finish q n ICMP_ECHOREPLY 0 (snd (net_random s))"
  proof -
    have A: "ETHER_HDR_SIZE + IP_BASE_HDR_SIZE + n = 38 + m" "IP_BASE_HDR_SIZE + n = 24 + m"
      by (simp_all add: n_def ip_consts)
    have B: "\<not> (unat (ntohs (iph_tot_len pkt)) < IP_HDR_SIZE pkt \<or>
        length pkt < ETHER_HDR_SIZE + unat (ntohs (iph_tot_len pkt)))" using assms(3,4) by simp
    show ?thesis
      unfolding icmp_send_packet_def Let_def tot A case_prod_beta
      using assms(1) B hdr[unfolded rnd_def] by (simp only: not_False_eq_True if_True if_False bind_res_simps q_def simp_thms)
  qed
  moreover have "\<exists>p. icmp_finish q (4 + m) ICMP_ECHOREPLY 0 (snd (net_random s)) = ip_send_packet p (snd (net_random s))
     \<and> icmp_message (ntohl (iph_daddr pkt)) (ntohl (iph_saddr pkt)) ICMP_ECHOREPLY 0 (slice pkt (IP_DATA pkt + 4) m) p"
  proof (rule icmp_finish_message[OF hdr _ m lq])
    show "q ! i = res ! i" if "i < 34" for i
      using that f(9) sl by (simp add: q_def off nth_blit_below n_def)
    show "drop 38 q = slice pkt (IP_DATA pkt + 4) m"
      using f(9) sl by (simp add: q_def off blit_def n_def slice_def drop_take add.commute)
  qed simp
  ultimately show ?thesis by (simp add: n_def)
qed

lemma icmp_error_message:
  assumes "has_ip_hdr pkt" "type \<noteq> ICMP_ECHOREPLY"
    and "IP_DATA pkt + ICMP_COPIED_DATA_LEN \<le> length pkt"
    and "longest_prefix_match (net_rtable s) (ntohl (iph_saddr pkt)) = Some m"
  shows "\<exists>p. icmp_send_packet pkt type code s = ip_send_packet p (snd (net_random s)) \<and>
    icmp_message (if_ip (rt_iface m)) (ntohl (iph_saddr pkt)) type code
      (zeros 4 @ slice pkt ETHER_HDR_SIZE (IP_HDR_SIZE pkt + ICMP_COPIED_DATA_LEN)) p"
proof -
  define h where "h = IP_HDR_SIZE pkt + 8"
  define rnd where "rnd = fst (net_random s)"
  have h: "h \<le> 68" using iph_ihl_less[of pkt] by (simp add: h_def IP_HDR_SIZE_def)
  have room: "has_ip_hdr (zeros (38 + (4 + h)))" by (simp add: has_ip_hdr_def ip_consts)
  obtain res where hdr: "ip_init_hdr rnd (zeros (38 + (4 + h))) (if_ip (rt_iface m)) (ntohl (iph_saddr pkt))
      (of_nat (24 + (4 + h))) IPPROTO_ICMP = Inr res"
    using ip_init_hdr_ok[OF room] by blast
  note f = ip_init_hdr_fields[OF hdr]
  define q where "q = blit res (IP_DATA res + 8) (slice pkt 14 h)"
  have off: "IP_DATA res = 34" using f(2) by (simp add: IP_DATA_def IP_HDR_SIZE_def ip_consts)
  have sl: "length (slice pkt 14 h) = h"
    using assms(3) by (simp add: IP_DATA_def ip_consts icmp_consts h_def)
  have lq: "length q = length res" using f(9) sl by (simp add: q_def off)
  have "icmp_send_packet pkt type code s = icmp_finish q (4 + (4 + h)) type code (snd (net_random s))"
  proof -
    have L: "ICMP_HDR_SIZE + IP_HDR_SIZE pkt + ICMP_COPIED_DATA_LEN = 4 + (4 + h)"
      by (simp add: icmp_consts h_def)
    have A: "ETHER_HDR_SIZE + IP_BASE_HDR_SIZE + (4 + (4 + h)) = 38 + (4 + h)"
      "IP_BASE_HDR_SIZE + (4 + (4 + h)) = 24 + (4 + h)" "4 + (4 + h) - ICMP_HDR_SIZE = h"
      by (simp_all add: icmp_consts ip_consts)
    have B: "\<not> length pkt < ETHER_HDR_SIZE + h" using assms(3) by (simp add: IP_DATA_def icmp_consts h_def)
    show ?thesis
      unfolding icmp_send_packet_def Let_def L A case_prod_beta assms(4)
      using assms(1,2) B hdr[unfolded rnd_def]
      by (simp only: not_False_eq_True if_True if_False bind_res_simps q_def simp_thms option.case ETHER_HDR_SIZE_def
          ICMP_HDR_SIZE_def)
  qed
  moreover have "\<exists>p. icmp_finish q (4 + (4 + h)) type code (snd (net_random s)) = ip_send_packet p (snd (net_random s))
     \<and> icmp_message (if_ip (rt_iface m)) (ntohl (iph_saddr pkt)) type code (zeros 4 @ slice pkt 14 h) p"
  proof (rule icmp_finish_message[OF hdr])
    show "q ! i = res ! i" if "i < 34" for i
      using that f(9) sl by (simp add: q_def off nth_blit_below)
    have "take 4 (drop 38 res) = zeros 4"
      using f(9,10) by (intro nth_equalityI) (auto simp: zeros_def)
    then show "drop 38 q = zeros 4 @ slice pkt 14 h"
      using f(9) sl by (simp add: q_def off blit_def drop_take)
  qed (use h lq in simp_all)
  ultimately show ?thesis by (simp add: h_def ip_consts icmp_consts)
qed
section \<open>Runs\<close>

text \<open>What happens to the router: a frame arrives, or the sweeping thread wakes up at a later time.\<close>

datatype router_event = Received ip_iface bytes | SweepAt int

fun router_run :: "router_event list \<Rightarrow> 'a net_scheme \<Rightarrow> 'a net_scheme res" where
  "router_run [] s = Inr s"
| "router_run (Received iface pkt # evs) s = bind_res (router_handle_packet iface pkt s) (router_run evs)"
| "router_run (SweepAt now # evs) s = bind_res (arpcache_sweep (s\<lparr>net_clock := now\<rparr>)) (router_run evs)"

lemma router_wf_clock [simp]: "router_wf (s\<lparr>net_clock := now\<rparr>) = router_wf s"
  by (simp add: router_wf_def arp_wf_def req_wf_def)

text \<open>A concrete echo request of 42 bytes, for the witnesses.\<close>

definition example_packet :: "u8 \<Rightarrow> bytes \<Rightarrow> bytes" where
  "example_packet ttl daddr = zeros 12 @ [8, 0, 0x45, 0, 0, 28, 0, 0, 0, 0, ttl, 1, 0, 0, 10, 0, 1, 9] @ daddr
     @ [8, 0, 0, 0, 1, 2, 3, 4]"

lemma example_packet_fields:
  assumes "length daddr = 4"
    and p_def: "p = example_packet ttl daddr"
  shows "length p = 42" "has_ip_hdr p" "iph_ihl p = 5" "IP_HDR_SIZE p = 20" "IP_DATA p = 34" "iph_ttl p = ttl"
    "iph_protocol p = IPPROTO_ICMP" "ld8 p 34 = ICMP_ECHOREQUEST" "ntohs (iph_tot_len p) = 28"
    "ntohl (iph_saddr p) = 0x0A000109" "iph_daddr p = ld32 daddr 0" "ntohs (ether_type p) = ETH_P_IP"
proof -
  obtain a b c d where d: "daddr = [a, b, c, d]" using assms(1) by (auto simp: numeral_eq_Suc length_Suc_conv)
  have p: "p = [0,0,0,0,0,0,0,0,0,0,0,0,8, 0, 0x45, 0, 0, 28, 0, 0, 0, 0, ttl, 1, 0, 0, 10, 0, 1, 9, a, b, c, d, 8, 0, 0, 0, 1, 2, 3, 4]"
    by (simp add: p_def example_packet_def d zeros_def numeral_eq_Suc)
  show "length p = 42" "has_ip_hdr p" "iph_ttl p = ttl"
    "iph_protocol p = IPPROTO_ICMP" "ld8 p 34 = ICMP_ECHOREQUEST" "iph_daddr p = ld32 daddr 0"
    by (simp_all add: p d has_ip_hdr_def ip_consts icmp_consts iph_defs ld8_def ld16_def ld32_def)
  show ihl: "iph_ihl p = 5" by (simp add: p iph_ihl_def ld8_def nibble_simps)
  then show "IP_HDR_SIZE p = 20" "IP_DATA p = 34" by (simp_all add: IP_HDR_SIZE_def IP_DATA_def ip_consts)
  show "ntohs (iph_tot_len p) = 28" "ntohs (ether_type p) = ETH_P_IP"
    by (simp_all add: p iph_defs ether_type_def ETH_P_IP_def ld16_def ntohs_def htons_def push_bit_eq_mult drop_bit_eq_div)
  show "ntohl (iph_saddr p) = 0x0A000109"
    by (simp add: p iph_defs ld32_def ld16_def ntohl_def htonl_def push_bit_eq_mult drop_bit_eq_div)
qed

lemma example_addrs:
  "ntohl (ld32 [10, 0, 2, 22] 0) = 0x0A000216" "ntohl (ld32 [10, 0, 1, 2] 0) = 0x0A000102"
  by (simp_all add: ld32_def ld16_def ntohl_def htonl_def push_bit_eq_mult drop_bit_eq_div)

lemma example_routes:
  "longest_prefix_match example_rtable 0x0A000216 =
    Some (new_rt_entry 0x0A000200 0xFFFFFF00 0 (example_iface 2 0x0A000201))"
  "longest_prefix_match example_rtable 0x0A000109 =
    Some (new_rt_entry 0 0 0x0A000101 (example_iface 1 0x0A000102))"
  by (simp_all add: longest_prefix_match_def example_rtable_def rt_matches_def new_rt_entry_def)
lemma by_arp_ok:
  "ETHER_HDR_SIZE \<le> length p \<Longrightarrow> \<exists>t. iface_send_packet_by_arp iface ip p s = Inr t"
  by (cases "arpcache_lookup (arp_entries s) ip") (auto simp: iface_send_packet_by_arp_def Let_def)

section \<open>Properties\<close>

text \<open>
  C10: forwarding.  A packet that is not an echo request for the receiving interface, with a header of
  at least 20 bytes inside the buffer, a TTL above one and a route for its destination, is handed to
  \<open>iface_send_packet_by_arp\<close> on the interface of the longest matching route and for its gateway, or
  for the destination itself when the gateway is zero.  The packet handed on has its TTL one
  lower, a header checksum that verifies whatever the received one was, and is otherwise the same.
\<close>
theorem handle_ip_packet_forwards:
  assumes "has_ip_hdr pkt" "5 \<le> iph_ihl pkt" "IP_DATA pkt < length pkt" "1 < iph_ttl pkt"
    and "\<not> (ntohl (iph_daddr pkt) = if_ip iface \<and> iph_protocol pkt = IPPROTO_ICMP
          \<and> ld8 pkt (IP_DATA pkt) = ICMP_ECHOREQUEST)"
    and "longest_prefix_match (net_rtable s) (ntohl (iph_daddr pkt)) = Some m"
  shows "\<exists>p. handle_ip_packet iface pkt s =
      iface_send_packet_by_arp (rt_iface m) (next_hop m (ntohl (iph_daddr pkt))) p s
    \<and> ip_hdr_valid p \<and> iph_ttl p = iph_ttl pkt - 1 \<and> length p = length pkt
    \<and> (\<forall>i. i \<notin> {22, 24, 25} \<longrightarrow> p ! i = pkt ! i)"
proof -
  define q where "q = st8 pkt 22 (iph_ttl pkt - 1)"
  have len: "34 \<le> length pkt" using assms(1) by (simp add: has_ip_hdr_def ip_consts)
  have q: "iph_ttl q = iph_ttl pkt - 1" "iph_ihl q = iph_ihl pkt" "length q = length pkt"
    using len by (simp_all add: q_def iph_ttl_def bytes_simps)
  have ttl: "\<not> iph_ttl q \<le> 0"
    using assms(4) q(1) by (simp add: word_neq_0_conv[symmetric])
  have dat: "IP_DATA q = IP_DATA pkt" by (simp add: IP_DATA_def IP_HDR_SIZE_def q)
  have "\<exists>p. ip_set_checksum q = Inr p"
    using assms(3) len by (simp add: ip_set_checksum_def ip_checksum_def has_ip_hdr_def ip_consts q dat)
  then obtain p where p: "ip_set_checksum q = Inr p" ..
  have same: "p ! i = pkt ! i" if "i \<notin> {22, 24, 25}" for i
  proof -
    have "i < 24 \<or> 25 < i" using that by auto
    then show ?thesis using ip_set_checksum_other(2)[OF p, of i] that by (simp add: q_def st8_def)
  qed
  have p22: "iph_ttl p = iph_ttl q"
    using ip_set_checksum_other(2)[OF p, of 22] by (simp add: iph_ttl_def ld8_def)
  have "handle_ip_packet iface pkt s =
      iface_send_packet_by_arp (rt_iface m) (next_hop m (ntohl (iph_daddr pkt))) p s"
    using assms ttl p by (auto simp: handle_ip_packet_def Let_def q_def)
  moreover have "ip_hdr_valid p"
    using ip_set_checksum_valid[OF p] assms(2) q by simp
  ultimately show ?thesis
    using same p22 q ip_set_checksum_other(1)[OF p] by auto
qed

theorem handle_ip_packet_forwards_witness:
  "\<exists>p. handle_ip_packet (example_iface 1 0x0A000102) (example_packet 64 [10, 0, 2, 22]) example_net =
      iface_send_packet_by_arp (example_iface 2 0x0A000201) 0x0A000216 p example_net
    \<and> ip_hdr_valid p \<and> iph_ttl p = 63"
  using handle_ip_packet_forwards[of "example_packet 64 [10, 0, 2, 22]" "example_iface 1 0x0A000102" example_net
      "new_rt_entry 0x0A000200 0xFFFFFF00 0 (example_iface 2 0x0A000201)"]
  by (auto simp: example_packet_fields[OF _ refl] example_addrs example_routes example_net_def
      new_rt_entry_def next_hop_def example_iface_def)

text \<open>
  C26: echo.  An echo request for the address of the receiving interface is answered with one IP packet
  from that address to the sender: TTL 64, a valid header checksum, type and code zero, an ICMP
  checksum that verifies over the whole message, and the identifier, sequence number and data of
  the request byte for byte.
\<close>
theorem echo_request_answered:
  assumes "has_ip_hdr pkt" "5 \<le> iph_ihl pkt"
    and "ntohl (iph_daddr pkt) = if_ip iface" "iph_protocol pkt = IPPROTO_ICMP"
    and "ld8 pkt (IP_DATA pkt) = ICMP_ECHOREQUEST"
    and "unat (ntohs (iph_tot_len pkt)) = IP_HDR_SIZE pkt + 4 + n"
    and "ETHER_HDR_SIZE + unat (ntohs (iph_tot_len pkt)) \<le> length pkt"
  shows "\<exists>p. handle_ip_packet iface pkt s = ip_send_packet p (snd (net_random s)) \<and>
    icmp_message (if_ip iface) (ntohl (iph_saddr pkt)) ICMP_ECHOREPLY 0 (slice pkt (IP_DATA pkt + 4) n) p"
  using assms echo_reply_message[OF assms(1,2,6,7), of s]
  by (simp add: handle_ip_packet_def Let_def IP_DATA_def)

theorem echo_request_answered_witness:
  "\<exists>p. handle_ip_packet (example_iface 1 0x0A000102) (example_packet 64 [10, 0, 1, 2]) example_net =
      ip_send_packet p (snd (net_random example_net)) \<and>
    icmp_message 0x0A000102 0x0A000109 ICMP_ECHOREPLY 0 [1, 2, 3, 4] p"
proof -
  have "slice (example_packet 64 [10, 0, 1, 2]) 38 4 = [1, 2, 3, 4]"
    by (simp add: example_packet_def slice_def)
  then show ?thesis
    using echo_request_answered[of "example_packet 64 [10, 0, 1, 2]" "example_iface 1 0x0A000102" 4 example_net]
    by (simp add: example_packet_fields[OF _ refl] example_addrs example_iface_def ip_consts icmp_consts)
qed

text \<open>
  C25: ICMP errors.  A packet to forward whose TTL reaches zero makes the router send a time exceeded
  message to its source, and one for which there is no route a destination unreachable message.
  The message comes from the address of the interface the route to the source uses, its
  checksums verify, and it quotes the IP header and eight bytes of the packet with its TTL as
  decremented; the packet itself goes nowhere.
\<close>
theorem undeliverable_answered:
  assumes "has_ip_hdr pkt \<and> 5 \<le> iph_ihl pkt" "IP_DATA pkt + ICMP_COPIED_DATA_LEN \<le> length pkt"
    and "\<not> (ntohl (iph_daddr pkt) = if_ip iface \<and> iph_protocol pkt = IPPROTO_ICMP
          \<and> ld8 pkt (IP_DATA pkt) = ICMP_ECHOREQUEST)"
    and "iph_ttl pkt = 1 \<or> longest_prefix_match (net_rtable s) (ntohl (iph_daddr pkt)) = None"
    and "longest_prefix_match (net_rtable s) (ntohl (iph_saddr pkt)) = Some m"
  shows "\<exists>p quoted. handle_ip_packet iface pkt s = ip_send_packet p (snd (net_random s)) \<and>
    icmp_message (if_ip (rt_iface m)) (ntohl (iph_saddr pkt))
      (if iph_ttl pkt = 1 then ICMP_TIME_EXCEEDED else ICMP_DEST_UNREACH)
      (if iph_ttl pkt = 1 then ICMP_EXC_TTL else ICMP_NET_UNREACH) (zeros 4 @ quoted) p \<and>
    length quoted = IP_HDR_SIZE pkt + 8 \<and> quoted ! 8 = iph_ttl pkt - 1 \<and>
    (\<forall>i < length quoted. i \<notin> {8, 10, 11} \<longrightarrow> quoted ! i = pkt ! (14 + i))"
proof -
  define q where "q = st8 pkt 22 (iph_ttl pkt - 1)"
  have len: "34 \<le> length pkt" using assms(1) by (simp add: has_ip_hdr_def ip_consts)
  have q: "iph_ttl q = iph_ttl pkt - 1" "iph_ihl q = iph_ihl pkt" "length q = length pkt" "has_ip_hdr q"
    "iph_saddr q = iph_saddr pkt"
    using len by (simp_all add: q_def iph_defs bytes_simps has_ip_hdr_def ip_consts)
  have dat: "IP_DATA q = IP_DATA pkt" "IP_HDR_SIZE q = IP_HDR_SIZE pkt" by (simp_all add: IP_DATA_def IP_HDR_SIZE_def q)
  obtain p where p: "ip_set_checksum q = Inr p"
    using assms(2) by (simp add: ip_set_checksum_def ip_checksum_def q dat)
  then have pc: "\<exists>c. p = st16 q 24 c" by (auto simp: ip_set_checksum_def bind_res_Inr_conv)
  define r where "r = (if iph_ttl pkt = 1 then q else p)"
  have r: "iph_ihl r = iph_ihl pkt" "length r = length pkt" "has_ip_hdr r" "iph_saddr r = iph_saddr pkt"
    "ld8 r 22 = iph_ttl pkt - 1"
    using q pc len by (auto simp: r_def bytes_simps has_ip_hdr_def iph_ttl_def)
  have rdat: "IP_DATA r = IP_DATA pkt" "IP_HDR_SIZE r = IP_HDR_SIZE pkt"
    by (simp_all add: IP_DATA_def IP_HDR_SIZE_def r)
  have rsame: "r ! i = pkt ! i" if "i \<notin> {22, 24, 25}" for i
    using that pc by (auto simp: r_def q_def st8_def st16_def)
  have "\<not> length pkt \<le> IP_DATA pkt" using assms(2) by (simp add: icmp_consts)
  moreover have "iph_ttl q \<le> 0 \<longleftrightarrow> iph_ttl pkt = 1" unfolding q(1) by simp
  ultimately have h: "handle_ip_packet iface pkt s = icmp_send_packet r
      (if iph_ttl pkt = 1 then ICMP_TIME_EXCEEDED else ICMP_DEST_UNREACH)
      (if iph_ttl pkt = 1 then ICMP_EXC_TTL else ICMP_NET_UNREACH) s"
    using assms(1,3,4) p by (auto simp: handle_ip_packet_def Let_def q_def[symmetric] r_def)
  have "\<exists>p. icmp_send_packet r
      (if iph_ttl pkt = 1 then ICMP_TIME_EXCEEDED else ICMP_DEST_UNREACH)
      (if iph_ttl pkt = 1 then ICMP_EXC_TTL else ICMP_NET_UNREACH) s = ip_send_packet p (snd (net_random s)) \<and>
    icmp_message (if_ip (rt_iface m)) (ntohl (iph_saddr pkt))
      (if iph_ttl pkt = 1 then ICMP_TIME_EXCEEDED else ICMP_DEST_UNREACH)
      (if iph_ttl pkt = 1 then ICMP_EXC_TTL else ICMP_NET_UNREACH)
      (zeros 4 @ slice r ETHER_HDR_SIZE (IP_HDR_SIZE r + ICMP_COPIED_DATA_LEN)) p"
    unfolding r(4)[symmetric]
    by (rule icmp_error_message) (use r rdat assms(2,5) in \<open>auto simp: icmp_consts\<close>)
  then obtain e where e: "icmp_send_packet r
      (if iph_ttl pkt = 1 then ICMP_TIME_EXCEEDED else ICMP_DEST_UNREACH)
      (if iph_ttl pkt = 1 then ICMP_EXC_TTL else ICMP_NET_UNREACH) s = ip_send_packet e (snd (net_random s))"
    "icmp_message (if_ip (rt_iface m)) (ntohl (iph_saddr pkt))
      (if iph_ttl pkt = 1 then ICMP_TIME_EXCEEDED else ICMP_DEST_UNREACH)
      (if iph_ttl pkt = 1 then ICMP_EXC_TTL else ICMP_NET_UNREACH)
      (zeros 4 @ slice r 14 (IP_HDR_SIZE pkt + 8)) e"
    unfolding rdat ETHER_HDR_SIZE_def ICMP_COPIED_DATA_LEN_def by blast
  moreover define qd where "qd = slice r 14 (IP_HDR_SIZE pkt + 8)"
  have lq: "length qd = IP_HDR_SIZE pkt + 8"
    using r assms(2) by (simp add: qd_def IP_DATA_def icmp_consts ip_consts)
  have nq: "qd ! i = r ! (14 + i)" if "i < IP_HDR_SIZE pkt + 8" for i
    using that r assms(2) by (simp add: qd_def nth_slice IP_DATA_def icmp_consts ip_consts)
  have "qd ! 8 = iph_ttl pkt - 1"
    using r(5) nq[of 8] assms(1) by (simp add: ld8_def IP_HDR_SIZE_def)
  moreover have "\<forall>i < length qd. i \<notin> {8, 10, 11} \<longrightarrow> qd ! i = pkt ! (14 + i)"
    using nq rsame by (simp add: lq)
  ultimately show ?thesis
    using h lq by (intro exI[of _ e] exI[of _ qd] conjI) (simp_all add: qd_def)
qed

theorem undeliverable_answered_witness:
  "\<exists>p. handle_ip_packet (example_iface 1 0x0A000102) (example_packet 1 [10, 0, 2, 22]) example_net =
      ip_send_packet p (snd (net_random example_net))"
proof -
  have "longest_prefix_match (net_rtable example_net) (ntohl (iph_saddr (example_packet 1 [10, 0, 2, 22]))) =
    Some (new_rt_entry 0 0 0x0A000101 (example_iface 1 0x0A000102))"
    by (simp add: example_packet_fields[OF _ refl] example_routes example_net_def)
  from undeliverable_answered[OF _ _ _ _ this, of "example_iface 1 0x0A000102"] show ?thesis
    by (auto simp: example_packet_fields[OF _ refl] example_addrs example_iface_def icmp_consts)
qed

text \<open>
  Invariant of the router's runs.  Whatever frames arrive on its interfaces and whenever the sweep
  wakes up, as long as no packet makes the code read outside its buffer, the ARP layer stays well
  formed (the cache a partial map, one pending request per interface and address, sent at most
  five times and holding at least one packet with an Ethernet header), interfaces and routes
  stay as they were, and every frame that leaves does so on one of the router's interfaces.
\<close>

lemma router_run_invariant:
  assumes "router_run evs s = Inr t" "router_wf s"
    and "\<forall>iface pkt. Received iface pkt \<in> set evs \<longrightarrow> iface \<in> set (net_ifaces s)"
  shows "router_wf t \<and> net_ifaces t = net_ifaces s \<and> net_rtable t = net_rtable s"
  using assms
proof (induction evs s rule: router_run.induct)
  case (2 iface pkt evs s)
  then obtain u where u: "router_handle_packet iface pkt s = Inr u" "router_run evs u = Inr t"
    by (auto simp: bind_res_Inr_conv)
  have "iface \<in> set (net_ifaces s)" using "2.prems" by simp
  then have st: "router_step s u"
    using router_step_handle_packet[OF u(1)] routes_ok_wf "2.prems"(2) by blast
  then have eq: "net_ifaces u = net_ifaces s" "net_rtable u = net_rtable s" "router_wf u"
    using "2.prems"(2) by (auto simp: router_step_def same_frame_def)
  with "2.IH"[OF u(2)] "2.prems"(3) show ?case by auto
next
  case (3 now evs s)
  then obtain u where u: "arpcache_sweep (s\<lparr>net_clock := now\<rparr>) = Inr u" "router_run evs u = Inr t"
    by (auto simp: bind_res_Inr_conv)
  have "router_step (s\<lparr>net_clock := now\<rparr>) u"
    using router_step_sweep[OF u(1)] 3 routes_ok_wf[of "s\<lparr>net_clock := now\<rparr>"] by simp
  then have eq: "net_ifaces u = net_ifaces s" "net_rtable u = net_rtable s" "router_wf u"
    using "3.prems"(2) by (auto simp: router_step_def same_frame_def)
  with "3.IH"[OF u(2)] "3.prems"(3) show ?case by auto
qed simp

text \<open>One second passes, then the sweeping thread runs.\<close>

fun seconds :: "nat \<Rightarrow> 'a net_scheme \<Rightarrow> 'a net_scheme res" where
  "seconds 0 s = Inr s"
| "seconds (Suc n) s = bind_res (arpcache_sweep (s\<lparr>net_clock := net_clock s + 1\<rparr>)) (seconds n)"

lemma sweep_no_drop:
  assumes "\<forall>r \<in> set (arp_reqs s). \<not> given_up (net_clock s) r"
  shows "arpcache_sweep s = Inr (s\<lparr>arp_entries := map age_cache_entry (arp_entries s),
     net_sent := net_sent s @ map (\<lambda>r. (rq_iface r, request_frame (rq_iface r) (rq_ip4 r)))
       (filter (due (net_clock s)) (arp_reqs s)),
     arp_reqs := map (retried (net_clock s)) (arp_reqs s)\<rparr>)"
proof -
  have 1: "filter (\<lambda>r. \<not> given_up (net_clock s) r) (arp_reqs s) = arp_reqs s"
    "filter (given_up (net_clock s)) (arp_reqs s) = []"
    using assms by (simp_all add: filter_id_conv filter_empty_conv)
  have 2: "filter (\<lambda>r. due (net_clock s) r \<and> \<not> given_up (net_clock s) r) (arp_reqs s)
      = filter (due (net_clock s)) (arp_reqs s)"
    using assms by (auto intro!: filter_cong)
  show ?thesis by (simp add: arpcache_sweep_def Let_def sweep_reqs_eq 1 2)
qed

lemma seconds_end:
  "seconds (Suc n) s = bind_res (seconds n s) (\<lambda>t. arpcache_sweep (t\<lparr>net_clock := net_clock t + 1\<rparr>))"
proof (induction n arbitrary: s)
  case 0
  have "bind_res r Inr = r" for r :: "'a net_scheme res" by (cases r) auto
  moreover have "seconds 0 = (Inr :: 'a net_scheme \<Rightarrow> 'a net_scheme res)" by (rule ext) simp
  ultimately show ?case by simp
next
  case (Suc n)
  have "seconds (Suc n) = (\<lambda>s :: 'a net_scheme. bind_res (seconds n s) (\<lambda>t. arpcache_sweep (t\<lparr>net_clock := net_clock t + 1\<rparr>)))"
    by (rule ext) (rule Suc)
  then have "seconds (Suc (Suc n)) s = bind_res (arpcache_sweep (s\<lparr>net_clock := net_clock s + 1\<rparr>))
      (\<lambda>s. bind_res (seconds n s) (\<lambda>t. arpcache_sweep (t\<lparr>net_clock := net_clock t + 1\<rparr>)))"
    by (simp only: seconds.simps(2)[of "Suc n"])
  then show ?case by (simp add: bind_res_assoc)
qed

text \<open>All requests have been sent \<open>k\<close> times, the last time at the state's clock.\<close>

definition all_tried :: "int \<Rightarrow> 'a net_scheme \<Rightarrow> bool" where
  "all_tried k s \<longleftrightarrow> (\<forall>r \<in> set (arp_reqs s). rq_sent r = net_clock s \<and> rq_retries r = k)"

definition request_frames :: "'a net_scheme \<Rightarrow> (ip_iface \<times> bytes) list" where
  "request_frames s = map (\<lambda>r. (rq_iface r, request_frame (rq_iface r) (rq_ip4 r))) (arp_reqs s)"

lemma second_retries:
  assumes "all_tried k s" "k < 5"
  shows "\<exists>t. arpcache_sweep (s\<lparr>net_clock := net_clock s + 1\<rparr>) = Inr t \<and> all_tried (k + 1) t \<and>
    net_sent t = net_sent s @ request_frames s \<and> request_frames t = request_frames s \<and>
    map rq_packets (arp_reqs t) = map rq_packets (arp_reqs s)"
proof -
  define c where "c = net_clock s + 1"
  have due: "due c r" "retried c r = r\<lparr>rq_retries := k + 1, rq_sent := c\<rparr>" "\<not> given_up c r"
    if "r \<in> set (arp_reqs s)" for r
    using that assms by (auto simp: all_tried_def due_def retried_def given_up_def c_def ARP_REQUEST_MAX_RETRIES_def)
  have "filter (due c) (arp_reqs s) = arp_reqs s" using due by (simp add: filter_id_conv)
  moreover have "map (retried c) (arp_reqs s) = map (\<lambda>r. r\<lparr>rq_retries := k + 1, rq_sent := c\<rparr>) (arp_reqs s)"
    using due by simp
  ultimately show ?thesis
    using sweep_no_drop[of "s\<lparr>net_clock := c\<rparr>"] due
    by (simp add: c_def[symmetric] all_tried_def request_frames_def comp_def)
qed

lemma seconds_retry:
  "all_tried k s \<Longrightarrow> k + int n \<le> 5 \<Longrightarrow> \<exists>t. seconds n s = Inr t \<and> all_tried (k + int n) t \<and>
    net_sent t = net_sent s @ concat (replicate n (request_frames s)) \<and> request_frames t = request_frames s \<and>
    map rq_packets (arp_reqs t) = map rq_packets (arp_reqs s)"
proof (induction n arbitrary: k s)
  case (Suc n)
  then obtain u where u: "arpcache_sweep (s\<lparr>net_clock := net_clock s + 1\<rparr>) = Inr u" "all_tried (k + 1) u"
    "net_sent u = net_sent s @ request_frames s" "request_frames u = request_frames s"
    "map rq_packets (arp_reqs u) = map rq_packets (arp_reqs s)"
    using second_retries[of k s] by auto
  from Suc.IH[OF u(2)] Suc.prems(2) u show ?case by (auto simp: add_ac)
qed simp

text \<open>
  C18: unanswered requests are given up.  When every pending request has just been sent for the first
  time and nothing arrives, then in each of the next four seconds every request is sent again, with
  the queued packets kept; the sweep of the fifth second sends none, empties the list of requests,
  and answers every queued packet, in order, with an ICMP host unreachable.
\<close>
theorem unanswered_requests_given_up:
  assumes "all_tried 1 s"
  shows "\<exists>t u. seconds 4 s = Inr t \<and>
    net_sent t = net_sent s @ concat (replicate 4 (request_frames s)) \<and>
    map rq_packets (arp_reqs t) = map rq_packets (arp_reqs s) \<and>
    seconds 5 s = fold_res (\<lambda>p. icmp_send_packet p ICMP_DEST_UNREACH ICMP_HOST_UNREACH)
      (concat (map rq_packets (arp_reqs s))) u \<and>
    arp_reqs u = [] \<and> net_sent u = net_sent t"
proof -
  from seconds_retry[OF assms, of 4] obtain t where t: "seconds 4 s = Inr t" "all_tried 5 t"
    "net_sent t = net_sent s @ concat (replicate 4 (request_frames s))"
    "map rq_packets (arp_reqs t) = map rq_packets (arp_reqs s)" by auto
  define c where "c = net_clock t + 1"
  define u where "u = t\<lparr>net_clock := c, arp_entries := map age_cache_entry (arp_entries t), net_sent := net_sent t, arp_reqs := []\<rparr>"
  have g: "given_up c r" if "r \<in> set (arp_reqs t)" for r
    using that t(2) by (auto simp: all_tried_def given_up_def due_def c_def ARP_REQUEST_MAX_RETRIES_def)
  have f: "filter (given_up c) (arp_reqs t) = arp_reqs t" "filter (\<lambda>r. \<not> given_up c r) (arp_reqs t) = []"
    "filter (\<lambda>r. due c r \<and> \<not> given_up c r) (arp_reqs t) = []"
    using g by (auto simp: filter_id_conv filter_empty_conv)
  have "seconds 5 s = arpcache_sweep (t\<lparr>net_clock := c\<rparr>)"
    using seconds_end[of 4 s] t(1) by (simp add: c_def)
  also have "\<dots> = fold_res (\<lambda>p. icmp_send_packet p ICMP_DEST_UNREACH ICMP_HOST_UNREACH)
      (concat (map rq_packets (arp_reqs s))) u"
    by (simp add: arpcache_sweep_def Let_def sweep_reqs_eq f u_def t(4))
  finally show ?thesis using t by (intro exI[of _ t] exI[of _ u]) (simp add: u_def)
qed

theorem unanswered_requests_given_up_witness:
  "\<exists>t. seconds 4 (example_net\<lparr>arp_reqs := [\<lparr>rq_iface = example_iface 1 0x0A000102, rq_ip4 = 7,
      rq_sent = 100, rq_retries = 1, rq_packets = [example_packet 64 [10, 0, 2, 22]]\<rparr>]\<rparr>) = Inr t"
  using unanswered_requests_given_up[of "example_net\<lparr>arp_reqs := [\<lparr>rq_iface = example_iface 1 0x0A000102,
      rq_ip4 = 7, rq_sent = 100, rq_retries = 1, rq_packets = [example_packet 64 [10, 0, 2, 22]]\<rparr>]\<rparr>"]
  by (auto simp: all_tried_def example_net_def)

text \<open>
  The age of a cache entry.  \<open>arpcache_insert\<close> stores the wall-clock time in \<open>added\<close>, while the
  sweep counts \<open>added\<close> up and compares it with 15, so an entry inserted at any time from second 15 of
  the epoch on is gone after the first sweep, however soon that is, and not after 15 seconds.
\<close>

lemma fresh_entry_dies_at_first_sweep:
  assumes "cache_inv (arp_entries s)" "ARP_ENTRY_TIMEOUT \<le> net_clock s" "arp_reqs s = []"
  shows "\<exists>t. arpcache_lookup (arp_entries (arpcache_insert ip4 mac s)) ip4 = Some mac \<and>
    arpcache_sweep (arpcache_insert ip4 mac s) = Inr t \<and> arpcache_lookup (arp_entries t) ip4 = None"
proof -
  define c where "c = arp_entries (arpcache_insert ip4 mac s)"
  have c: "c = cache_put (net_rand s (net_rpos s)) (net_clock s) ip4 mac (arp_entries s)"
    by (simp add: c_def arpcache_insert_eq)
  have inv: "cache_inv c" using assms(1) by (simp add: c cache_inv_put)
  have look: "arpcache_lookup c ip4 = Some mac" using assms(1) by (simp add: c nc.put_same)
  define k where "k = fst (cache_slot (net_rand s (net_rpos s)) (arp_entries s) ip4)"
  have k: "k < length c" "c ! k = \<lparr>ce_ip4 = ip4, ce_mac = mac, ce_added = net_clock s, ce_valid = True\<rparr>"
    using assms(1) cache_slot_less by (simp_all add: c cache_put_def k_def cache_inv_def)
  have dead: "\<not> ce_valid (age_cache_entry (c ! k))"
    using assms(2) k by (simp add: age_cache_entry_def Let_def)
  have "arpcache_lookup (map age_cache_entry c) ip4 \<noteq> Some m" for m
  proof
    assume "arpcache_lookup (map age_cache_entry c) ip4 = Some m"
    then obtain i where i: "i < length c" "ce_valid (age_cache_entry (c ! i))" "ce_ip4 (age_cache_entry (c ! i)) = ip4"
      using cache_inv_age[OF inv] by (auto simp: lookup_iff)
    then have "ce_valid (c ! i)" "ce_ip4 (c ! i) = ip4"
      by (auto simp: age_cache_entry_def Let_def split: if_splits)
    with cache_invD[OF inv i(1) k(1)] k have "i = k" by simp
    with i dead show False by simp
  qed
  then have none: "arpcache_lookup (map age_cache_entry c) ip4 = None" by (meson option.exhaust)
  have "arp_reqs (arpcache_insert ip4 mac s) = []" using assms(3) by (simp add: arpcache_insert_eq)
  then have "\<exists>t. arpcache_sweep (arpcache_insert ip4 mac s) = Inr t \<and> arp_entries t = map age_cache_entry c"
    by (simp add: arpcache_sweep_def Let_def c_def)
  with look none show ?thesis by (auto simp: c_def)
qed

text \<open>A TTL of zero wraps around to 255 and the packet is forwarded.\<close>

lemma ttl_zero_forwarded:
  assumes "has_ip_hdr pkt" "IP_DATA pkt < length pkt" "iph_ttl pkt = 0"
    and "ntohl (iph_daddr pkt) \<noteq> if_ip iface"
    and "longest_prefix_match (net_rtable s) (ntohl (iph_daddr pkt)) = Some m"
  shows "\<exists>p. handle_ip_packet iface pkt s =
      iface_send_packet_by_arp (rt_iface m) (next_hop m (ntohl (iph_daddr pkt))) p s \<and> iph_ttl p = 255"
proof -
  define q where "q = st8 pkt 22 (iph_ttl pkt - 1)"
  have len: "34 \<le> length pkt" using assms(1) by (simp add: has_ip_hdr_def ip_consts)
  have "(0 :: u8) - 1 = 255" by simp
  then have q: "iph_ttl q = 255" "iph_ihl q = iph_ihl pkt" "length q = length pkt"
    using len assms(3) by (simp_all add: q_def iph_ttl_def bytes_simps)
  have "IP_DATA q = IP_DATA pkt" by (simp add: IP_DATA_def IP_HDR_SIZE_def q)
  then have "\<exists>p. ip_set_checksum q = Inr p"
    using assms(2) len by (simp add: ip_set_checksum_def ip_checksum_def has_ip_hdr_def ip_consts q)
  then obtain p where p: "ip_set_checksum q = Inr p" ..
  then have "iph_ttl p = 255" using q by (auto simp: ip_set_checksum_def bind_res_Inr_conv bytes_simps)
  moreover have "\<not> iph_ttl q \<le> 0" using q by simp
  then have "handle_ip_packet iface pkt s =
      iface_send_packet_by_arp (rt_iface m) (next_hop m (ntohl (iph_daddr pkt))) p s"
    using assms(1,2,4,5) p by (simp add: handle_ip_packet_def Let_def q_def[symmetric])
  ultimately show ?thesis by blast
qed

end
