(* ===== verification/Tcp_Sock.thy ===== *)
theory Tcp_Sock
  imports Tcp_Packet Ring_Buffer Synch_Wait Router
begin

text \<open>
  The sockets of the TCP stack (labs 12 and 13): \<open>struct tcp_sock\<close>, the three hash tables and the
  socket calls (\<open>tcp_sock.c\<close>, \<open>tcp_sock.h\<close>, \<open>tcp_hash.h\<close>), sending (\<open>tcp_out.c\<close>) and the timers
  (\<open>tcp_timer.c\<close>).  Sockets live in a store indexed by number; a released one is gone from the store,
  and every later access is the fault \<open>UseAfterFree\<close>.  A socket is linked into the tables by list
  nodes inside it: \<open>NodeUnset\<close> is the zeroed node of a new socket, whose pointers are null,
  \<open>NodeStale\<close> a node that was unlinked and still points to its old neighbours.  \<open>list_empty\<close> is false
  of both, so that unlinking them is a fault.  Calls that sleep are split there: they
  return \<open>Blocked\<close> with the state in which they sleep, and are taken up again by calling them anew.
  The log files of the socket are left out.
\<close>

section \<open>State\<close>

datatype tcp_state = TCP_CLOSED | TCP_LISTEN | TCP_SYN_RECV | TCP_SYN_SENT | TCP_ESTABLISHED
  | TCP_CLOSE_WAIT | TCP_LAST_ACK | TCP_FIN_WAIT_1 | TCP_FIN_WAIT_2 | TCP_CLOSING | TCP_TIME_WAIT

datatype list_node = NodeUnset | NodeLinked | NodeStale

record tcp_timer =
  tm_type :: int
  tm_timeout :: int
  tm_enable :: bool

record send_packet =
  sp_packet :: bytes
  sp_seq_end :: u32

record recv_packet =
  rp_packet :: bytes
  rp_len :: int
  rp_seq :: u32
  rp_seq_end :: u32
  rp_flags :: u8

record tcp_sock =
  sk_sip :: u32
  sk_sport :: u16
  sk_dip :: u32
  sk_dport :: u16
  sk_parent :: "nat option"
  sk_ref_cnt :: int
  sk_hash_node :: list_node
  sk_bind_node :: list_node
  sk_listen_queue :: "nat list"
  sk_accept_queue :: "nat list"
  sk_accept_backlog :: int
  sk_backlog :: int
  sk_timewait :: tcp_timer
  sk_retrans :: tcp_timer
  sk_wait_connect :: synch_wait
  sk_wait_accept :: synch_wait
  sk_wait_recv :: synch_wait
  sk_wait_send :: synch_wait
  sk_rcv_buf :: ring_buffer
  sk_send_buf :: "send_packet list"
  sk_rcv_ofo_buf :: "recv_packet list"
  sk_state :: tcp_state
  sk_iss :: u32
  sk_snd_una :: u32
  sk_snd_nxt :: u32
  sk_rcv_nxt :: u32
  sk_recovery_point :: u32
  sk_duack :: u32
  sk_dupacks :: int
  sk_snd_wnd :: u32
  sk_adv_wnd :: u16
  sk_rcv_wnd :: u16
  sk_cwnd :: u32
  sk_temp_cwnd :: int
  sk_capacks :: int
  sk_frpacks :: int
  sk_ssthresh :: u32

datatype timer_kind = Timewait | Retrans

record tcp_net = net +
  socks :: "nat \<Rightarrow> tcp_sock option"
  next_sock :: nat
  established_table :: "u8 \<Rightarrow> nat list"
  listen_table :: "u8 \<Rightarrow> nat list"
  bind_table :: "u8 \<Rightarrow> nat list"
  timer_list :: "(nat \<times> timer_kind) list"

definition TCP_DEFAULT_WINDOW :: nat where "TCP_DEFAULT_WINDOW = 65535"
definition PORT_MIN :: nat where "PORT_MIN = 12345"
definition PORT_MAX :: nat where "PORT_MAX = 23456"
definition TCP_TIMER_SCAN_INTERVAL :: int where "TCP_TIMER_SCAN_INTERVAL = 10000"
definition TCP_TIMEWAIT_TIMEOUT :: int where "TCP_TIMEWAIT_TIMEOUT = 2 * 1000000"
definition TCP_RETRANS_INTERVAL_INITIAL :: int where "TCP_RETRANS_INTERVAL_INITIAL = 200000"

text \<open>Access through a socket pointer.\<close>

definition with_sock :: "nat \<Rightarrow> (tcp_sock \<Rightarrow> 'b tcp_net_scheme \<Rightarrow> 'c res) \<Rightarrow> 'b tcp_net_scheme \<Rightarrow> 'c res" where
  "with_sock k F s = (case socks s k of None \<Rightarrow> Inl UseAfterFree | Some t \<Rightarrow> F t s)"

definition put_sock :: "nat \<Rightarrow> tcp_sock \<Rightarrow> 'b tcp_net_scheme \<Rightarrow> 'b tcp_net_scheme" where
  "put_sock k t s = s\<lparr>socks := (socks s)(k \<mapsto> t)\<rparr>"

definition upd_sock :: "nat \<Rightarrow> (tcp_sock \<Rightarrow> tcp_sock) \<Rightarrow> 'b tcp_net_scheme \<Rightarrow> 'b tcp_net_scheme res" where
  "upd_sock k f = with_sock k (\<lambda>t s. Inr (put_sock k (f t) s))"

definition tcp_set_state :: "nat \<Rightarrow> tcp_state \<Rightarrow> 'b tcp_net_scheme \<Rightarrow> 'b tcp_net_scheme res" where
  "tcp_set_state k st = upd_sock k (\<lambda>t. t\<lparr>sk_state := st\<rparr>)"

definition init_tcp_stack :: "'b tcp_net_scheme \<Rightarrow> 'b tcp_net_scheme" where
  "init_tcp_stack s = s\<lparr>established_table := (\<lambda>_. []), listen_table := (\<lambda>_. []), bind_table := (\<lambda>_. []),
     timer_list := []\<rparr>"

definition new_tcp_sock :: tcp_sock where
  "new_tcp_sock = \<lparr>sk_sip = 0, sk_sport = 0, sk_dip = 0, sk_dport = 0, sk_parent = None, sk_ref_cnt = 0,
     sk_hash_node = NodeUnset, sk_bind_node = NodeUnset, sk_listen_queue = [], sk_accept_queue = [],
     sk_accept_backlog = 0, sk_backlog = 0,
     sk_timewait = \<lparr>tm_type = 0, tm_timeout = 0, tm_enable = False\<rparr>,
     sk_retrans = \<lparr>tm_type = 0, tm_timeout = 0, tm_enable = False\<rparr>,
     sk_wait_connect = wait_init, sk_wait_accept = wait_init, sk_wait_recv = wait_init, sk_wait_send = wait_init,
     sk_rcv_buf = alloc_ring_buffer TCP_DEFAULT_WINDOW, sk_send_buf = [], sk_rcv_ofo_buf = [],
     sk_state = TCP_CLOSED, sk_iss = 0, sk_snd_una = 0, sk_snd_nxt = 0, sk_rcv_nxt = 0,
     sk_recovery_point = 0, sk_duack = 0, sk_dupacks = 0, sk_snd_wnd = 0, sk_adv_wnd = 0,
     sk_rcv_wnd = 65535, sk_cwnd = 1, sk_temp_cwnd = 0, sk_capacks = 0, sk_frpacks = - 1,
     sk_ssthresh = 4294967295\<rparr>"

definition alloc_tcp_sock :: "'b tcp_net_scheme \<Rightarrow> nat \<times> 'b tcp_net_scheme" where
  "alloc_tcp_sock s = (next_sock s, put_sock (next_sock s) new_tcp_sock (s\<lparr>next_sock := next_sock s + 1\<rparr>))"

definition free_tcp_sock :: "nat \<Rightarrow> 'b tcp_net_scheme \<Rightarrow> 'b tcp_net_scheme res" where
  "free_tcp_sock k = with_sock k (\<lambda>t s.
     let t = t\<lparr>sk_ref_cnt := sk_ref_cnt t - 1\<rparr> in
     if sk_ref_cnt t \<le> 0 then Inr (s\<lparr>socks := (socks s)(k := None)\<rparr>) else Inr (put_sock k t s))"

section \<open>Hash tables\<close>

text \<open>\<open>hash8\<close> over the bytes of the four arguments as they stand in memory.\<close>

definition hash8_32 :: "u32 \<Rightarrow> u8" where
  "hash8_32 v = ucast v XOR ucast (drop_bit 8 v) XOR ucast (drop_bit 16 v) XOR ucast (drop_bit 24 v)"

definition hash8_16 :: "u16 \<Rightarrow> u8" where
  "hash8_16 v = ucast v XOR ucast (drop_bit 8 v)"

definition tcp_hash_function :: "u32 \<Rightarrow> u32 \<Rightarrow> u16 \<Rightarrow> u16 \<Rightarrow> u8" where
  "tcp_hash_function saddr daddr sport dport =
     (hash8_32 saddr XOR hash8_32 daddr XOR hash8_16 sport XOR hash8_16 dport) AND 255"

text \<open>\<open>list_for_each_entry\<close> over a bucket, up to the first socket that fits.\<close>

fun find_sock :: "(tcp_sock \<Rightarrow> bool) \<Rightarrow> nat list \<Rightarrow> 'b tcp_net_scheme \<Rightarrow> nat option res" where
  "find_sock P [] s = Inr None"
| "find_sock P (k # ks) s = with_sock k (\<lambda>t s. if P t then Inr (Some k) else find_sock P ks s) s"

definition tcp_sock_lookup_established :: "u32 \<Rightarrow> u32 \<Rightarrow> u16 \<Rightarrow> u16 \<Rightarrow> 'b tcp_net_scheme \<Rightarrow> nat option res" where
  "tcp_sock_lookup_established saddr daddr sport dport s =
    find_sock (\<lambda>t. sk_sip t = saddr \<and> sk_sport t = sport \<and> sk_dip t = daddr \<and> sk_dport t = dport)
      (established_table s (tcp_hash_function saddr daddr sport dport)) s"

definition tcp_sock_lookup_listen :: "u32 \<Rightarrow> u16 \<Rightarrow> 'b tcp_net_scheme \<Rightarrow> nat option res" where
  "tcp_sock_lookup_listen saddr sport s =
    find_sock (\<lambda>t. sk_sport t = sport) (listen_table s (tcp_hash_function 0 0 sport 0)) s"

definition tcp_sock_lookup :: "tcp_cb \<Rightarrow> 'b tcp_net_scheme \<Rightarrow> nat option res" where
  "tcp_sock_lookup cb s =
    bind_res (tcp_sock_lookup_established (cb_daddr cb) (cb_saddr cb) (cb_dport cb) (cb_sport cb) s)
      (\<lambda>tsk. case tsk of Some k \<Rightarrow> Inr (Some k) | None \<Rightarrow> tcp_sock_lookup_listen (cb_daddr cb) (cb_dport cb) s)"

text \<open>Linking a node that is linked already would break the list it is on.\<close>

definition tcp_bind_hash :: "nat \<Rightarrow> 'b tcp_net_scheme \<Rightarrow> 'b tcp_net_scheme res" where
  "tcp_bind_hash k = with_sock k (\<lambda>t s.
     if sk_bind_node t = NodeLinked then Inl StaleNode
     else let h = tcp_hash_function 0 0 (sk_sport t) 0 in
       Inr (put_sock k (t\<lparr>sk_bind_node := NodeLinked, sk_ref_cnt := sk_ref_cnt t + 1\<rparr>)
         (s\<lparr>bind_table := (bind_table s)(h := k # bind_table s h)\<rparr>)))"

definition tcp_bind_unhash :: "nat \<Rightarrow> 'b tcp_net_scheme \<Rightarrow> 'b tcp_net_scheme res" where
  "tcp_bind_unhash k = with_sock k (\<lambda>t s. case sk_bind_node t of
       NodeUnset \<Rightarrow> Inl NullDeref
     | NodeStale \<Rightarrow> Inl StaleNode
     | NodeLinked \<Rightarrow> free_tcp_sock k (put_sock k (t\<lparr>sk_bind_node := NodeStale\<rparr>)
         (s\<lparr>bind_table := (\<lambda>h. removeAll k (bind_table s h))\<rparr>)))"

definition tcp_port_in_use :: "u16 \<Rightarrow> 'b tcp_net_scheme \<Rightarrow> bool res" where
  "tcp_port_in_use sport s =
    bind_res (find_sock (\<lambda>t. sk_sport t = sport) (bind_table s (tcp_hash_function 0 0 sport 0)) s)
      (\<lambda>r. Inr (r \<noteq> None))"

fun get_port_loop :: "nat list \<Rightarrow> 'b tcp_net_scheme \<Rightarrow> u16 res" where
  "get_port_loop [] s = Inr 0"
| "get_port_loop (port # ports) s =
    bind_res (tcp_port_in_use (of_nat port) s)
      (\<lambda>used. if \<not> used then Inr (of_nat port) else get_port_loop ports s)"

definition tcp_get_port :: "'b tcp_net_scheme \<Rightarrow> u16 res" where
  "tcp_get_port s = get_port_loop [PORT_MIN..<PORT_MAX] s"

text \<open>The result of a C call and the state after it.\<close>

definition tcp_sock_set_sport :: "nat \<Rightarrow> u16 \<Rightarrow> 'b tcp_net_scheme \<Rightarrow> (int \<times> 'b tcp_net_scheme) res" where
  "tcp_sock_set_sport k port s =
    bind_res (if port \<noteq> 0
              then bind_res (tcp_port_in_use port s) (\<lambda>used. Inr (if used then 0 else port))
              else tcp_get_port s)
      (\<lambda>port. if port = 0 then Inr (- 1, s)
              else bind_res (run_all [upd_sock k (\<lambda>t. t\<lparr>sk_sport := port\<rparr>), tcp_bind_hash k] s)
                (\<lambda>s. Inr (0, s)))"

definition tcp_hash :: "nat \<Rightarrow> 'b tcp_net_scheme \<Rightarrow> (int \<times> 'b tcp_net_scheme) res" where
  "tcp_hash k = with_sock k (\<lambda>t s.
     if sk_state t = TCP_CLOSED then Inr (- 1, s)
     else if sk_state t = TCP_LISTEN then
       (if sk_hash_node t = NodeLinked then Inl StaleNode
        else let h = tcp_hash_function 0 0 (sk_sport t) 0 in
          Inr (0, put_sock k (t\<lparr>sk_hash_node := NodeLinked, sk_ref_cnt := sk_ref_cnt t + 1\<rparr>)
             (s\<lparr>listen_table := (listen_table s)(h := k # listen_table s h)\<rparr>)))
     else let h = tcp_hash_function (sk_sip t) (sk_dip t) (sk_sport t) (sk_dport t) in
       bind_res (find_sock (\<lambda>tmp. sk_sip t = sk_sip tmp \<and> sk_dip t = sk_dip tmp \<and>
            sk_sport t = sk_sport tmp \<and> sk_dport t = sk_dport tmp) (established_table s h) s)
         (\<lambda>r. if r \<noteq> None then Inr (- 1, s)
              else if sk_hash_node t = NodeLinked then Inl StaleNode
              else Inr (0, put_sock k (t\<lparr>sk_hash_node := NodeLinked, sk_ref_cnt := sk_ref_cnt t + 1\<rparr>)
                (s\<lparr>established_table := (established_table s)(h := k # established_table s h)\<rparr>))))"

definition tcp_unhash :: "nat \<Rightarrow> 'b tcp_net_scheme \<Rightarrow> 'b tcp_net_scheme res" where
  "tcp_unhash k = with_sock k (\<lambda>t s. case sk_hash_node t of
       NodeUnset \<Rightarrow> Inl NullDeref
     | NodeStale \<Rightarrow> Inl StaleNode
     | NodeLinked \<Rightarrow> free_tcp_sock k (put_sock k (t\<lparr>sk_hash_node := NodeStale\<rparr>)
         (s\<lparr>established_table := (\<lambda>h. removeAll k (established_table s h)),
            listen_table := (\<lambda>h. removeAll k (listen_table s h))\<rparr>)))"

section \<open>Sending\<close>

text \<open>\<open>min(adv_wnd / TCP_MSS, w)\<close>, computed in \<open>size_t\<close>.\<close>

definition send_window :: "u16 \<Rightarrow> u32 \<Rightarrow> u32" where
  "send_window adv w = of_nat (min (unat adv div TCP_MSS) (unat w))"

definition tcp_new_iss :: "'b tcp_net_scheme \<Rightarrow> u32 \<times> 'b tcp_net_scheme" where
  "tcp_new_iss s = (case net_random s of (r, s) \<Rightarrow> (of_nat r, s))"

definition tcp_send_packet :: "nat \<Rightarrow> bytes \<Rightarrow> 'b tcp_net_scheme \<Rightarrow> 'b tcp_net_scheme res" where
  "tcp_send_packet k packet = with_sock k (\<lambda>t s.
     (case net_random s of (rnd, s1) \<Rightarrow>
        bind_res (tcp_data_packet rnd packet (sk_sip t) (sk_dip t) (sk_sport t) (sk_dport t)
            (sk_snd_nxt t) (sk_rcv_nxt t) (TCP_PSH OR TCP_ACK) (sk_rcv_wnd t))
          (\<lambda>p. let tcp_data_len = length packet - ETHER_HDR_SIZE - IP_BASE_HDR_SIZE - TCP_BASE_HDR_SIZE;
                   nxt = sk_snd_nxt t + of_nat tcp_data_len;
                   t1 = t\<lparr>sk_snd_nxt := nxt, sk_send_buf := sk_send_buf t @ [\<lparr>sp_packet = p, sp_seq_end = nxt\<rparr>]\<rparr>
               in ip_send_packet p (put_sock k t1 s1))))"

definition tcp_send_control_packet :: "nat \<Rightarrow> u8 \<Rightarrow> 'b tcp_net_scheme \<Rightarrow> 'b tcp_net_scheme res" where
  "tcp_send_control_packet k flags = with_sock k (\<lambda>t s.
     (case net_random s of (rnd, s1) \<Rightarrow>
        bind_res (tcp_control_packet rnd (sk_sip t) (sk_dip t) (sk_sport t) (sk_dport t)
            (sk_snd_nxt t) (sk_rcv_nxt t) flags (sk_rcv_wnd t))
          (\<lambda>p. let t1 = (if has_flag flags (TCP_SYN OR TCP_FIN)
                         then let nxt = sk_snd_nxt t + 1 in
                           t\<lparr>sk_snd_nxt := nxt,
                             sk_send_buf := sk_send_buf t @ [\<lparr>sp_packet = p, sp_seq_end = nxt\<rparr>]\<rparr>
                         else t)
               in ip_send_packet p (put_sock k t1 s1))))"

definition tcp_send_reset :: "tcp_cb \<Rightarrow> 'b tcp_net_scheme \<Rightarrow> 'b tcp_net_scheme res" where
  "tcp_send_reset cb s =
     (case net_random s of (rnd, s1) \<Rightarrow>
        bind_res (tcp_control_packet rnd (cb_daddr cb) (cb_saddr cb) (cb_dport cb) (cb_sport cb)
            0 (cb_seq_end cb) (TCP_RST OR TCP_ACK) 0)
          (\<lambda>p. ip_send_packet p s1))"

text \<open>Sending a copy of the oldest unacknowledged packet.\<close>

definition resend_first :: "nat \<Rightarrow> 'b tcp_net_scheme \<Rightarrow> 'b tcp_net_scheme res" where
  "resend_first k = with_sock k (\<lambda>t s. case sk_send_buf t of
       [] \<Rightarrow> Inr s | sp # _ \<Rightarrow> ip_send_packet (sp_packet sp) s)"

section \<open>Timers\<close>

definition tcp_set_retrans_timer :: "nat \<Rightarrow> nat \<Rightarrow> 'b tcp_net_scheme \<Rightarrow> 'b tcp_net_scheme res" where
  "tcp_set_retrans_timer k mode = with_sock k (\<lambda>t s.
     if \<not> tm_enable (sk_retrans t) then
       Inr (put_sock k (t\<lparr>sk_retrans := \<lparr>tm_type = 1, tm_timeout = TCP_RETRANS_INTERVAL_INITIAL, tm_enable = True\<rparr>,
              sk_ref_cnt := sk_ref_cnt t + 1\<rparr>)
            (s\<lparr>timer_list := timer_list s @ [(k, Retrans)]\<rparr>))
     else if mode = 0 then
       Inr (put_sock k (t\<lparr>sk_retrans := (sk_retrans t)\<lparr>tm_type := 1, tm_timeout := TCP_RETRANS_INTERVAL_INITIAL\<rparr>\<rparr>) s)
     else Inr s)"

definition tcp_unset_retrans_timer :: "nat \<Rightarrow> 'b tcp_net_scheme \<Rightarrow> 'b tcp_net_scheme res" where
  "tcp_unset_retrans_timer k = with_sock k (\<lambda>t s.
     if tm_enable (sk_retrans t) then
       (if (k, Retrans) \<in> set (timer_list s)
        then free_tcp_sock k (put_sock k (t\<lparr>sk_retrans := (sk_retrans t)\<lparr>tm_enable := False\<rparr>\<rparr>)
               (s\<lparr>timer_list := removeAll (k, Retrans) (timer_list s)\<rparr>))
        else Inl StaleNode)
     else Inr s)"

definition tcp_set_timewait_timer :: "nat \<Rightarrow> 'b tcp_net_scheme \<Rightarrow> 'b tcp_net_scheme res" where
  "tcp_set_timewait_timer k = with_sock k (\<lambda>t s.
     if (k, Timewait) \<in> set (timer_list s) then Inl StaleNode
     else Inr (put_sock k (t\<lparr>sk_timewait := \<lparr>tm_type = 0, tm_timeout = TCP_TIMEWAIT_TIMEOUT, tm_enable = True\<rparr>,
              sk_ref_cnt := sk_ref_cnt t + 1\<rparr>)
            (s\<lparr>timer_list := timer_list s @ [(k, Timewait)]\<rparr>)))"

text \<open>The three places where a timer gives the connection up.\<close>

definition timer_close :: "nat \<Rightarrow> timer_kind \<Rightarrow> 'b tcp_net_scheme \<Rightarrow> 'b tcp_net_scheme res" where
  "timer_close k kind = run_all
     [tcp_set_state k TCP_CLOSED, tcp_unhash k, tcp_bind_unhash k,
      with_sock k (\<lambda>t s. Inr (s\<lparr>timer_list := removeAll (k, kind) (timer_list s)\<rparr>)), free_tcp_sock k]"

definition retrans_timeout :: "tcp_sock \<Rightarrow> tcp_sock" where
  "retrans_timeout t =
    (let ty = tm_type (sk_retrans t) + 1;
         t = t\<lparr>sk_retrans := (sk_retrans t)\<lparr>tm_type := ty, tm_timeout := TCP_RETRANS_INTERVAL_INITIAL * 2 ^ nat (ty - 1)\<rparr>,
               sk_recovery_point := 0, sk_duack := 0, sk_dupacks := 0,
               sk_ssthresh := (if sk_cwnd t div 2 < 2 then 2 else sk_cwnd t div 2),
               sk_cwnd := 1, sk_temp_cwnd := 0, sk_capacks := 0, sk_frpacks := - 1\<rparr>
     in t\<lparr>sk_snd_wnd := send_window (sk_adv_wnd t) (sk_cwnd t + of_int (sk_temp_cwnd t))\<rparr>)"

definition timewait_expired :: "nat \<Rightarrow> 'b tcp_net_scheme \<Rightarrow> 'b tcp_net_scheme res" where
  "timewait_expired k = with_sock k (\<lambda>t s.
     if sk_send_buf t = [] then timer_close k Timewait s
     else Inr (put_sock k (t\<lparr>sk_timewait := (sk_timewait t)\<lparr>tm_timeout := TCP_TIMEWAIT_TIMEOUT\<rparr>\<rparr>) s))"

definition retrans_expired :: "nat \<Rightarrow> 'b tcp_net_scheme \<Rightarrow> 'b tcp_net_scheme res" where
  "retrans_expired k = with_sock k (\<lambda>t s.
     if tm_type (sk_retrans t) < 9 \<and> sk_send_buf t \<noteq> []
     then run_all [resend_first k, upd_sock k retrans_timeout] s
     else timer_close k Retrans s)"

fun scan_timer :: "nat \<times> timer_kind \<Rightarrow> 'b tcp_net_scheme \<Rightarrow> 'b tcp_net_scheme res" where
  "scan_timer (k, Timewait) s = with_sock k (\<lambda>t s.
     let tm = sk_timewait t; left = tm_timeout tm - TCP_TIMER_SCAN_INTERVAL in
     if \<not> tm_enable tm then Inr s
     else let s1 = put_sock k (t\<lparr>sk_timewait := tm\<lparr>tm_timeout := left\<rparr>\<rparr>) s in
       if left \<le> 0 then timewait_expired k s1 else Inr s1) s"
| "scan_timer (k, Retrans) s = with_sock k (\<lambda>t s.
     let tm = sk_retrans t; left = tm_timeout tm - TCP_TIMER_SCAN_INTERVAL in
     if \<not> tm_enable tm then Inr s
     else let s1 = put_sock k (t\<lparr>sk_retrans := tm\<lparr>tm_timeout := left\<rparr>\<rparr>) s in
       if left \<le> 0 then retrans_expired k s1 else Inr s1) s"

text \<open>The body of the loop unlinks at most the entry it is at, so the list is walked as it was.\<close>

definition tcp_scan_timer_list :: "'b tcp_net_scheme \<Rightarrow> 'b tcp_net_scheme res" where
  "tcp_scan_timer_list s = fold_res scan_timer (timer_list s) s"

section \<open>Socket calls\<close>

datatype 'r call_result = Returned 'r | Blocked

definition tcp_sock_bind :: "nat \<Rightarrow> u16 \<Rightarrow> 'b tcp_net_scheme \<Rightarrow> (int \<times> 'b tcp_net_scheme) res" where
  "tcp_sock_bind k port = tcp_sock_set_sport k (ntohs port)"

definition tcp_sock_listen :: "nat \<Rightarrow> int \<Rightarrow> 'b tcp_net_scheme \<Rightarrow> (int \<times> 'b tcp_net_scheme) res" where
  "tcp_sock_listen k backlog s =
    bind_res (run_all [upd_sock k (\<lambda>t. t\<lparr>sk_backlog := backlog\<rparr>), tcp_set_state k TCP_LISTEN] s) (tcp_hash k)"

definition tcp_sock_connect :: "nat \<Rightarrow> u32 \<Rightarrow> u16 \<Rightarrow> 'b tcp_net_scheme \<Rightarrow> (int call_result \<times> 'b tcp_net_scheme) res" where
  "tcp_sock_connect k ip port s =
    bind_res (upd_sock k (\<lambda>t. t\<lparr>sk_dip := ntohl ip, sk_dport := ntohs port\<rparr>) s) (\<lambda>s.
    case longest_prefix_match (net_rtable s) (ntohl ip) of
      None \<Rightarrow> Inr (Returned (- 1), s)
    | Some m \<Rightarrow>
      bind_res (upd_sock k (\<lambda>t. t\<lparr>sk_sip := if_ip (rt_iface m)\<rparr>) s) (\<lambda>s.
      bind_res (tcp_sock_set_sport k 0 s) (\<lambda>(err, s).
      if err \<noteq> 0 then Inr (Returned (- 1), s)
      else bind_res (tcp_set_state k TCP_SYN_SENT s) (\<lambda>s.
      bind_res (tcp_hash k s) (\<lambda>(err, s).
      if err \<noteq> 0 then Inr (Returned (- 1), s)
      else case tcp_new_iss s of (iss, s) \<Rightarrow>
      bind_res (run_all [upd_sock k (\<lambda>t. t\<lparr>sk_iss := iss, sk_snd_una := iss, sk_snd_nxt := iss\<rparr>),
          tcp_send_control_packet k TCP_SYN, tcp_set_retrans_timer k 1] s) (\<lambda>s.
      with_sock k (\<lambda>t s. case sleep_begin (sk_wait_connect t) of
          (w, Blocks) \<Rightarrow> Inr (Blocked, put_sock k (t\<lparr>sk_wait_connect := w\<rparr>) s)
        | (w, Returns r) \<Rightarrow> Inr (Returned (if r \<noteq> 0 then - 1 else 0), put_sock k (t\<lparr>sk_wait_connect := w\<rparr>) s)) s))))))"

text \<open>What is left of \<open>tcp_sock_connect\<close> once the condition is signalled.\<close>

definition tcp_sock_connect_resume :: "nat \<Rightarrow> 'b tcp_net_scheme \<Rightarrow> (int \<times> 'b tcp_net_scheme) res" where
  "tcp_sock_connect_resume k = with_sock k (\<lambda>t s. case sleep_end (sk_wait_connect t) of
      (w, r) \<Rightarrow> Inr (if r \<noteq> 0 then - 1 else 0, put_sock k (t\<lparr>sk_wait_connect := w\<rparr>) s))"

text \<open>
  A loop \<open>while (cond) sleep_on(wait)\<close> whose condition only other threads can change: a pending
  notification is consumed, the second round blocks.  On a dead structure \<open>sleep_on\<close> returns at
  once and the loop spins.
\<close>

definition sleep_loop :: "synch_wait \<Rightarrow> synch_wait res" where
  "sleep_loop w = (case sleep_begin w of
       (w1, Blocks) \<Rightarrow> Inr w1
     | (w1, Returns r) \<Rightarrow> (case sleep_begin w1 of (w2, Blocks) \<Rightarrow> Inr w2 | (w2, Returns r) \<Rightarrow> Inl Sleeps))"

definition tcp_sock_accept_queue_full :: "tcp_sock \<Rightarrow> bool" where
  "tcp_sock_accept_queue_full t \<longleftrightarrow> sk_accept_backlog t \<ge> sk_backlog t"

text \<open>The node \<open>list\<close> of a child is on the listen queue of its parent, or on no list.\<close>

definition tcp_sock_accept_enqueue :: "nat \<Rightarrow> 'b tcp_net_scheme \<Rightarrow> 'b tcp_net_scheme res" where
  "tcp_sock_accept_enqueue k = with_sock k (\<lambda>t s. case sk_parent t of
       None \<Rightarrow> Inl NullDeref
     | Some pk \<Rightarrow> upd_sock pk (\<lambda>p. p\<lparr>sk_listen_queue := removeAll k (sk_listen_queue p),
         sk_accept_queue := sk_accept_queue p @ [k], sk_accept_backlog := sk_accept_backlog p + 1\<rparr>) s)"

definition tcp_sock_accept :: "nat \<Rightarrow> 'b tcp_net_scheme \<Rightarrow> (nat call_result \<times> 'b tcp_net_scheme) res" where
  "tcp_sock_accept k = with_sock k (\<lambda>t s. case sk_accept_queue t of
       [] \<Rightarrow> bind_res (sleep_loop (sk_wait_accept t)) (\<lambda>w. Inr (Blocked, put_sock k (t\<lparr>sk_wait_accept := w\<rparr>) s))
     | c # cs \<Rightarrow> bind_res
         (run_all [upd_sock k (\<lambda>t. t\<lparr>sk_accept_queue := cs, sk_accept_backlog := sk_accept_backlog t - 1\<rparr>),
            upd_sock c (\<lambda>t. t\<lparr>sk_parent := None\<rparr>), tcp_bind_hash c] s)
         (\<lambda>s. Inr (Returned c, s)))"

definition tcp_sock_close :: "nat \<Rightarrow> 'b tcp_net_scheme \<Rightarrow> 'b tcp_net_scheme res" where
  "tcp_sock_close k = with_sock k (\<lambda>t s. case sk_state t of
       TCP_ESTABLISHED \<Rightarrow> run_all [tcp_set_state k TCP_FIN_WAIT_1,
         tcp_send_control_packet k (TCP_FIN OR TCP_ACK), tcp_set_retrans_timer k 1] s
     | TCP_CLOSE_WAIT \<Rightarrow> run_all [tcp_set_state k TCP_LAST_ACK,
         tcp_send_control_packet k (TCP_FIN OR TCP_ACK), tcp_set_retrans_timer k 1] s
     | _ \<Rightarrow> Inr s)"

definition tcp_sock_read :: "nat \<Rightarrow> nat \<Rightarrow> 'b tcp_net_scheme \<Rightarrow> (bytes call_result \<times> 'b tcp_net_scheme) res" where
  "tcp_sock_read k len = with_sock k (\<lambda>t s.
     if ring_buffer_empty (sk_rcv_buf t) then
       (if sk_state t = TCP_CLOSE_WAIT then Inr (Returned [], s)
        else bind_res (sleep_loop (sk_wait_recv t)) (\<lambda>w. Inr (Blocked, put_sock k (t\<lparr>sk_wait_recv := w\<rparr>) s)))
     else case read_ring_buffer (sk_rcv_buf t) len of (buf, rb) \<Rightarrow>
       Inr (Returned buf, put_sock k (t\<lparr>sk_rcv_buf := rb, sk_rcv_wnd := of_nat (ring_buffer_free rb),
         sk_wait_recv := fst (wake_up (sk_wait_recv t))\<rparr>) s))"

text \<open>One round of the loop of \<open>tcp_sock_write\<close> for a segment; \<open>None\<close>: it sleeps on a closed window.\<close>

definition write_segment :: "nat \<Rightarrow> bytes \<Rightarrow> 'b tcp_net_scheme \<Rightarrow> (bool \<times> 'b tcp_net_scheme) res" where
  "write_segment k seg = with_sock k (\<lambda>t s.
     if sk_snd_wnd t \<le> 0 then
       bind_res (sleep_loop (sk_wait_send t)) (\<lambda>w.
         Inr (False, put_sock k (t\<lparr>sk_snd_wnd := 0, sk_wait_send := w\<rparr>) s))
     else let adv = sk_adv_wnd t - of_nat (length seg);
              t1 = t\<lparr>sk_adv_wnd := adv, sk_snd_wnd := send_window adv (sk_cwnd t)\<rparr>;
              packet = zeros (ETHER_HDR_SIZE + IP_BASE_HDR_SIZE + TCP_BASE_HDR_SIZE) @ seg
          in bind_res (run_all [tcp_send_packet k packet, tcp_set_retrans_timer k 1] (put_sock k t1 s))
               (\<lambda>s. Inr (True, s)))"

text \<open>The result: what is left to write when the call sleeps, or nothing when it returns.\<close>

function (sequential) tcp_sock_write :: "nat \<Rightarrow> bytes \<Rightarrow> 'b tcp_net_scheme \<Rightarrow> (bytes \<times> 'b tcp_net_scheme) res" where
  "tcp_sock_write k [] s = Inr ([], s)"
| "tcp_sock_write k (b # buf) s =
    (let wlen = min (length (b # buf)) TCP_MSS in
     bind_res (write_segment k (take wlen (b # buf)) s) (\<lambda>(sent, s).
       if sent then tcp_sock_write k (drop wlen (b # buf)) s else Inr (b # buf, s)))"
  by pat_completeness auto

termination
  by (relation "measure (\<lambda>(_, buf, _). length buf)") (auto simp: TCP_MSS_eq)

end
