(* ===== verification/Tcp_In.thy ===== *)
theory Tcp_In
  imports Tcp_Sock
begin

text \<open>
  Receiving in the TCP stack (labs 12 and 13): \<open>tcp_in.c\<close> with the congestion window, the receive path
  with its out-of-order buffer and the state machine \<open>tcp_process\<close>; \<open>handle_tcp_packet\<close> (\<open>tcp.c\<close>),
  \<open>handle_ip_packet\<close> (\<open>ip.c\<close>) and \<open>handle_packet\<close> (\<open>main.c\<close>).
\<close>

section \<open>Windows\<close>

definition wake_send :: "tcp_sock \<Rightarrow> tcp_sock" where
  "wake_send t = t\<lparr>sk_wait_send := fst (wake_up (sk_wait_send t))\<rparr>"

definition wake_recv :: "tcp_sock \<Rightarrow> tcp_sock" where
  "wake_recv t = t\<lparr>sk_wait_recv := fst (wake_up (sk_wait_recv t))\<rparr>"

text \<open>Slow start and congestion avoidance.\<close>

definition grow_cwnd :: "tcp_sock \<Rightarrow> tcp_sock" where
  "grow_cwnd t =
    (if sk_cwnd t < sk_ssthresh t then t\<lparr>sk_cwnd := sk_cwnd t + 1\<rparr>
     else let cap = sk_capacks t + 1 in
       if (of_int cap :: u32) \<ge> sk_cwnd t then t\<lparr>sk_cwnd := sk_cwnd t + 1, sk_capacks := 0\<rparr>
       else t\<lparr>sk_capacks := cap\<rparr>)"

text \<open>
  Counting duplicate acknowledgements: the new socket, and whether the fourth in a row makes it
  retransmit the oldest packet.
\<close>

definition count_dupacks :: "u32 \<Rightarrow> tcp_sock \<Rightarrow> tcp_sock \<times> bool" where
  "count_dupacks ack t =
    (if ack = sk_duack t then
       (if sk_dupacks t + 1 \<ge> 4
        then (t\<lparr>sk_ssthresh := sk_cwnd t div 2, sk_duack := 0, sk_dupacks := 0, sk_frpacks := sint (sk_cwnd t)\<rparr>, True)
        else (t\<lparr>sk_dupacks := sk_dupacks t + 1\<rparr>, False))
     else (t\<lparr>sk_duack := ack, sk_dupacks := 1\<rparr>, False))"

definition shrink_cwnd :: "tcp_sock \<Rightarrow> tcp_sock" where
  "shrink_cwnd t =
    (let fr = sk_frpacks t - 1;
         t = t\<lparr>sk_frpacks := fr, sk_cwnd := (if fr mod 2 \<noteq> 0 then sk_cwnd t - 1 else sk_cwnd t)\<rparr>
     in if fr = 0 then t\<lparr>sk_frpacks := - 1, sk_recovery_point := sk_snd_nxt t\<rparr> else t)"

definition tcp_update_window :: "nat \<Rightarrow> tcp_cb \<Rightarrow> 'b tcp_net_scheme \<Rightarrow> 'b tcp_net_scheme res" where
  "tcp_update_window k cb = with_sock k (\<lambda>t s.
     if sk_state t = TCP_SYN_RECV \<or> sk_state t = TCP_SYN_SENT then
       (let adv = ucast (cb_rwnd cb); cw = sk_cwnd t + 1 in
        Inr (put_sock k (t\<lparr>sk_snd_una := cb_ack cb, sk_adv_wnd := adv, sk_cwnd := cw,
          sk_snd_wnd := send_window adv cw\<rparr>) s))
     else
       let t1 = t\<lparr>sk_adv_wnd := ucast (ucast (sk_adv_wnd t) + (cb_ack cb - sk_snd_una t)), sk_snd_una := cb_ack cb\<rparr>;
           (t2, resend) =
             (if sk_recovery_point t1 = 0 \<and> sk_frpacks t1 = - 1 then count_dupacks (cb_ack cb) (grow_cwnd t1)
              else if sk_recovery_point t1 = 0 then (shrink_cwnd t1, False)
              else (t1, False));
           t3 = t2\<lparr>sk_snd_wnd := send_window (sk_adv_wnd t2) (sk_cwnd t2)\<rparr>
       in run_all ((if resend then [resend_first k] else []) @ [\<lambda>s. Inr (put_sock k (wake_send t3) s)]) s)"

definition tcp_update_window_safe :: "nat \<Rightarrow> tcp_cb \<Rightarrow> 'b tcp_net_scheme \<Rightarrow> 'b tcp_net_scheme res" where
  "tcp_update_window_safe k cb = with_sock k (\<lambda>t s.
     if less_or_equal_32b (sk_snd_una t) (cb_ack cb) \<and> less_or_equal_32b (cb_ack cb) (sk_snd_nxt t)
     then tcp_update_window k cb s else Inr s)"

definition seq_in_window :: "tcp_sock \<Rightarrow> tcp_cb \<Rightarrow> bool" where
  "seq_in_window t cb \<longleftrightarrow>
    (let rcv_end = sk_rcv_nxt t + of_int (max (int (unat (sk_rcv_wnd t))) 1) in
     less_than_32b (cb_seq cb) rcv_end \<and> less_or_equal_32b (sk_rcv_nxt t) (cb_seq_end cb))"

text \<open>The result of \<open>is_tcp_seq_valid\<close>, and the state: an invalid number is answered with an ACK.\<close>

definition is_tcp_seq_valid :: "nat \<Rightarrow> tcp_cb \<Rightarrow> 'b tcp_net_scheme \<Rightarrow> (bool \<times> 'b tcp_net_scheme) res" where
  "is_tcp_seq_valid k cb = with_sock k (\<lambda>t s.
     if seq_in_window t cb then Inr (True, s)
     else bind_res (tcp_send_control_packet k TCP_ACK s) (\<lambda>s. Inr (False, s)))"

section \<open>Receiving data\<close>

text \<open>
  Writing to the receive buffer.  While there is no room the thread wakes the reader and sleeps on
  the same structure, in the middle of the handler; it goes on only after another thread has read.  A handler is one step here,
  so that no reader comes in between, and the fault \<open>Sleeps\<close> stands for this wait.
\<close>

definition deliver :: "nat \<Rightarrow> bytes \<Rightarrow> int \<Rightarrow> 'b tcp_net_scheme \<Rightarrow> 'b tcp_net_scheme res" where
  "deliver k buf len = with_sock k (\<lambda>t s.
     if len = 0 then Inr s
     else if int (ring_buffer_free (sk_rcv_buf t)) < len then Inl Sleeps
     else if len < 0 then Inl AssertFailed
     else bind_res (write_ring_buffer (sk_rcv_buf t) buf) (\<lambda>rb. Inr (put_sock k (t\<lparr>sk_rcv_buf := rb\<rparr>) s)))"

definition receive_fin :: "nat \<Rightarrow> u8 \<Rightarrow> 'b tcp_net_scheme \<Rightarrow> 'b tcp_net_scheme res" where
  "receive_fin k flags = with_sock k (\<lambda>t s.
     if has_flag flags TCP_FIN then
       (case sk_state t of
          TCP_ESTABLISHED \<Rightarrow> run_all [tcp_set_state k TCP_CLOSE_WAIT, upd_sock k wake_recv] s
        | TCP_FIN_WAIT_1 \<Rightarrow> run_all [tcp_set_state k TCP_TIME_WAIT, tcp_set_timewait_timer k] s
        | TCP_FIN_WAIT_2 \<Rightarrow> run_all [tcp_set_state k TCP_TIME_WAIT, tcp_set_timewait_timer k] s
        | _ \<Rightarrow> Inr s)
     else Inr s)"

text \<open>The out-of-order buffer is kept in ascending order of \<open>seq\<close>, compared as plain numbers.\<close>

fun insert_ofo :: "recv_packet \<Rightarrow> recv_packet list \<Rightarrow> recv_packet list" where
  "insert_ofo pend [] = [pend]"
| "insert_ofo pend (entry # es) = (if rp_seq entry > rp_seq pend then pend # entry # es else entry # insert_ofo pend es)"

text \<open>The loop that moves packets from the out-of-order buffer, as long as the first one is next.\<close>

fun drain_ofo :: "nat \<Rightarrow> recv_packet list \<Rightarrow> 'b tcp_net_scheme \<Rightarrow> 'b tcp_net_scheme res" where
  "drain_ofo k [] s = Inr s"
| "drain_ofo k (pend # rest) s = with_sock k (\<lambda>t s.
     if sk_rcv_nxt t \<noteq> rp_seq pend then Inr s
     else bind_res (run_all [deliver k (rp_packet pend) (rp_len pend), receive_fin k (rp_flags pend),
            upd_sock k (\<lambda>t. t\<lparr>sk_rcv_nxt := rp_seq_end pend, sk_rcv_ofo_buf := rest\<rparr>)] s)
          (drain_ofo k rest)) s"

definition tcp_sock_recv :: "nat \<Rightarrow> tcp_cb \<Rightarrow> 'b tcp_net_scheme \<Rightarrow> 'b tcp_net_scheme res" where
  "tcp_sock_recv k cb = with_sock k (\<lambda>t s.
     if less_or_equal_32b (cb_seq_end cb) (sk_rcv_nxt t) \<or> cb_seq cb \<in> rp_seq ` set (sk_rcv_ofo_buf t) then
       (if cb_pl_len cb = 0 \<and> \<not> has_flag (cb_flags cb) TCP_FIN then Inr s else tcp_send_control_packet k TCP_ACK s)
     else run_all
       [if sk_rcv_nxt t = cb_seq cb
        then run_all [deliver k (cb_payload cb) (cb_pl_len cb), receive_fin k (cb_flags cb),
               upd_sock k (\<lambda>t. t\<lparr>sk_rcv_nxt := cb_seq_end cb\<rparr>)]
        else upd_sock k (\<lambda>t. t\<lparr>sk_rcv_ofo_buf := insert_ofo
               \<lparr>rp_packet = cb_payload cb, rp_len = cb_pl_len cb, rp_seq = cb_seq cb,
                rp_seq_end = cb_seq_end cb, rp_flags = cb_flags cb\<rparr> (sk_rcv_ofo_buf t)\<rparr>),
        with_sock k (\<lambda>t s. drain_ofo k (sk_rcv_ofo_buf t) s),
        upd_sock k (\<lambda>t. wake_recv (t\<lparr>sk_rcv_wnd := of_nat (ring_buffer_free (sk_rcv_buf t))\<rparr>)),
        tcp_send_control_packet k TCP_ACK] s)"

section \<open>Acknowledgements\<close>

definition unacked :: "u32 \<Rightarrow> send_packet list \<Rightarrow> send_packet list" where
  "unacked ack = filter (\<lambda>sp. \<not> greater_or_equal_32b ack (sp_seq_end sp))"

text \<open>Fast recovery; \<open>changed\<close>: the acknowledgement took a packet off the send buffer.\<close>

definition fast_recovery :: "nat \<Rightarrow> u32 \<Rightarrow> bool \<Rightarrow> 'b tcp_net_scheme \<Rightarrow> 'b tcp_net_scheme res" where
  "fast_recovery k ack changed = with_sock k (\<lambda>t s.
     if sk_recovery_point t = 0 then Inr s
     else if \<not> changed then
       Inr (put_sock k (wake_send (t\<lparr>sk_temp_cwnd := sk_temp_cwnd t + 1,
         sk_snd_wnd := send_window (sk_adv_wnd t) (sk_cwnd t)\<rparr>)) s)
     else if ack < sk_recovery_point t then resend_first k s
     else Inr (put_sock k (wake_send (t\<lparr>sk_recovery_point := 0, sk_temp_cwnd := 0,
         sk_snd_wnd := send_window (sk_adv_wnd t) (sk_cwnd t)\<rparr>)) s))"

definition tcp_ack_send_buf :: "nat \<Rightarrow> tcp_cb \<Rightarrow> 'b tcp_net_scheme \<Rightarrow> 'b tcp_net_scheme res" where
  "tcp_ack_send_buf k cb = with_sock k (\<lambda>t s.
     let left = unacked (cb_ack cb) (sk_send_buf t);
         changed = (left \<noteq> sk_send_buf t)
     in run_all
       [\<lambda>s. Inr (put_sock k (t\<lparr>sk_send_buf := left\<rparr>) s),
        fast_recovery k (cb_ack cb) changed,
        if left = [] then tcp_unset_retrans_timer k
        else if changed then tcp_set_retrans_timer k 0 else Inr] s)"

section \<open>The state machine\<close>

definition receive_ack :: "nat \<Rightarrow> tcp_cb \<Rightarrow> ('b tcp_net_scheme \<Rightarrow> 'b tcp_net_scheme res) list" where
  "receive_ack k cb = [tcp_sock_recv k cb, tcp_update_window_safe k cb, tcp_ack_send_buf k cb]"

text \<open>The guard \<open>if(!is_tcp_seq_valid(tsk, cb)) return;\<close> in front of a block.\<close>

definition when_seq_valid ::
    "nat \<Rightarrow> tcp_cb \<Rightarrow> ('b tcp_net_scheme \<Rightarrow> 'b tcp_net_scheme res) \<Rightarrow> 'b tcp_net_scheme \<Rightarrow> 'b tcp_net_scheme res" where
  "when_seq_valid k cb body s = bind_res (is_tcp_seq_valid k cb s) (\<lambda>(valid, s). if valid then body s else Inr s)"

definition process_listen :: "nat \<Rightarrow> tcp_cb \<Rightarrow> 'b tcp_net_scheme \<Rightarrow> 'b tcp_net_scheme res" where
  "process_listen k cb s =
    (if cb_flags cb = TCP_SYN then
       (case alloc_tcp_sock s of (c, s) \<Rightarrow>
          bind_res (run_all
            [upd_sock c (\<lambda>t. t\<lparr>sk_sip := cb_daddr cb, sk_dip := cb_saddr cb, sk_sport := cb_dport cb,
               sk_dport := cb_sport cb, sk_parent := Some k\<rparr>),
             upd_sock k (\<lambda>t. t\<lparr>sk_listen_queue := sk_listen_queue t @ [c]\<rparr>),
             tcp_set_state c TCP_SYN_RECV,
             \<lambda>s. bind_res (tcp_hash c s) (\<lambda>(err, s). Inr s)] s)
          (\<lambda>s. case tcp_new_iss s of (iss, s) \<Rightarrow> run_all
            [upd_sock c (\<lambda>t. t\<lparr>sk_iss := iss, sk_snd_una := iss, sk_snd_nxt := iss, sk_rcv_nxt := cb_seq_end cb\<rparr>),
             tcp_send_control_packet c (TCP_SYN OR TCP_ACK),
             tcp_set_retrans_timer c 1] s))
     else Inr s)"

definition process_syn_recv :: "nat \<Rightarrow> tcp_cb \<Rightarrow> 'b tcp_net_scheme \<Rightarrow> 'b tcp_net_scheme res" where
  "process_syn_recv k cb =
     when_seq_valid k cb (run_all
       [tcp_update_window_safe k cb, tcp_ack_send_buf k cb,
        with_sock k (\<lambda>t s. case sk_parent t of
            None \<Rightarrow> Inl NullDeref
          | Some pk \<Rightarrow> with_sock pk (\<lambda>p s.
              if tcp_sock_accept_queue_full p
              then run_all [tcp_set_state k TCP_CLOSED, tcp_send_reset cb,
                upd_sock pk (\<lambda>p. p\<lparr>sk_listen_queue := removeAll k (sk_listen_queue p)\<rparr>),
                tcp_unset_retrans_timer k, tcp_unhash k] s
              else run_all [tcp_set_state k TCP_ESTABLISHED, tcp_sock_accept_enqueue k,
                upd_sock pk (\<lambda>p. p\<lparr>sk_wait_accept := fst (wake_up (sk_wait_accept p))\<rparr>)] s) s)])"

definition process_last_ack :: "nat \<Rightarrow> tcp_cb \<Rightarrow> 'b tcp_net_scheme \<Rightarrow> 'b tcp_net_scheme res" where
  "process_last_ack k cb = run_all
     [tcp_update_window_safe k cb, tcp_ack_send_buf k cb,
      with_sock k (\<lambda>t s. if sk_send_buf t = []
        then run_all [tcp_set_state k TCP_CLOSED, tcp_unhash k, tcp_bind_unhash k] s else Inr s)]"

definition tcp_process :: "nat option \<Rightarrow> tcp_cb \<Rightarrow> 'b tcp_net_scheme \<Rightarrow> 'b tcp_net_scheme res" where
  "tcp_process tsk cb s = (case tsk of
     None \<Rightarrow> tcp_send_reset cb s
   | Some k \<Rightarrow> with_sock k (\<lambda>t s.
       let ack = has_flag (cb_flags cb) TCP_ACK in
       if cb_flags cb = TCP_RST OR TCP_ACK then
         run_all [tcp_set_state k TCP_CLOSED, tcp_unset_retrans_timer k, tcp_unhash k, tcp_bind_unhash k] s
       else (case sk_state t of
         TCP_LISTEN \<Rightarrow> process_listen k cb s
       | TCP_SYN_SENT \<Rightarrow>
           if cb_flags cb = TCP_SYN OR TCP_ACK then
             run_all [upd_sock k (\<lambda>t. t\<lparr>sk_rcv_nxt := cb_seq_end cb\<rparr>), tcp_update_window_safe k cb,
               tcp_set_state k TCP_ESTABLISHED, tcp_ack_send_buf k cb, tcp_send_control_packet k TCP_ACK,
               upd_sock k (\<lambda>t. t\<lparr>sk_wait_connect := fst (wake_up (sk_wait_connect t))\<rparr>)] s
           else Inr s
       | TCP_SYN_RECV \<Rightarrow> if cb_flags cb = TCP_ACK then process_syn_recv k cb s else Inr s
       | TCP_ESTABLISHED \<Rightarrow> when_seq_valid k cb (\<lambda>s.
           if cb_flags cb = TCP_SYN OR TCP_ACK then tcp_send_control_packet k TCP_ACK s
           else if ack then run_all (receive_ack k cb) s else Inr s) s
       | TCP_FIN_WAIT_1 \<Rightarrow> when_seq_valid k cb (\<lambda>s.
           if ack then run_all (receive_ack k cb @ [tcp_set_state k TCP_FIN_WAIT_2]) s else Inr s) s
       | TCP_FIN_WAIT_2 \<Rightarrow> when_seq_valid k cb (\<lambda>s. if ack then run_all (receive_ack k cb) s else Inr s) s
       | TCP_TIME_WAIT \<Rightarrow> when_seq_valid k cb (\<lambda>s. if ack then run_all (receive_ack k cb) s else Inr s) s
       | TCP_CLOSE_WAIT \<Rightarrow> when_seq_valid k cb (\<lambda>s. if ack then run_all (receive_ack k cb) s else Inr s) s
       | TCP_LAST_ACK \<Rightarrow> when_seq_valid k cb (\<lambda>s. if ack then process_last_ack k cb s else Inr s) s
       | _ \<Rightarrow> Inr s)) s)"

section \<open>Packets\<close>

definition handle_tcp_packet :: "bytes \<Rightarrow> 'b tcp_net_scheme \<Rightarrow> 'b tcp_net_scheme res" where
  "handle_tcp_packet packet s =
    (let t = packet_to_tcp_hdr packet in
     if \<not> has_ip_hdr packet then Inl OutOfBounds
     else bind_res (tcp_checksum packet t) (\<lambda>c.
       if c \<noteq> th_checksum packet t then Inr s
       else let cb = tcp_cb_init packet t in
         bind_res (tcp_sock_lookup cb s) (\<lambda>tsk. tcp_process tsk cb s)))"

definition host_handle_ip_packet :: "ip_iface \<Rightarrow> bytes \<Rightarrow> 'b tcp_net_scheme \<Rightarrow> 'b tcp_net_scheme res" where
  "host_handle_ip_packet iface packet s =
    (if \<not> has_ip_hdr packet then Inl OutOfBounds
     else if ntohl (iph_daddr packet) = if_ip iface then
       (if iph_protocol packet = IPPROTO_ICMP then
          (if length packet \<le> IP_DATA packet then Inl OutOfBounds
           else if ld8 packet (IP_DATA packet) = ICMP_ECHOREQUEST then icmp_send_packet packet ICMP_ECHOREPLY 0 s
           else Inr s)
        else if iph_protocol packet = IPPROTO_TCP then handle_tcp_packet packet s
        else Inr s)
     else Inr s)"

definition host_handle_packet :: "ip_iface \<Rightarrow> bytes \<Rightarrow> 'b tcp_net_scheme \<Rightarrow> 'b tcp_net_scheme res" where
  "host_handle_packet iface packet s =
    (if length packet < ETHER_HDR_SIZE then Inl OutOfBounds
     else if ntohs (ether_type packet) = ETH_P_IP then host_handle_ip_packet iface packet s
     else if ntohs (ether_type packet) = ETH_P_ARP then handle_arp_packet iface packet s
     else Inr s)"

definition host_ustack_run :: "ip_iface list \<Rightarrow> poll_event list \<Rightarrow> 'b tcp_net_scheme \<Rightarrow> 'b tcp_net_scheme res" where
  "host_ustack_run = ustack_run_unchecked host_handle_packet"

end
