(* ===== verification/Packet_Service.thy ===== *)
theory Packet_Service
  imports Router
begin

text \<open>
  The network layer as the layers above it use it.  The locale \<open>packet_service\<close> is the interface: handing
  over a packet that has room for an IP header succeeds and leaves everything above the network layer
  alone; \<open>ip_send_packet\<close> provides it.  The other operations of the layer (ICMP, ARP, the sweep) leave
  what is above alone as well: it is the \<open>more\<close> part of the state record.
\<close>

section \<open>The interface\<close>

locale packet_service =
  fixes send :: "bytes \<Rightarrow> 's \<Rightarrow> 's res"
    and upper :: "'s \<Rightarrow> 'v"
  assumes send_total: "34 \<le> length p \<Longrightarrow> \<exists>s'. send p s = Inr s' \<and> upper s' = upper s"
begin

lemma send_upper: "34 \<le> length p \<Longrightarrow> send p s = Inr s' \<Longrightarrow> upper s' = upper s"
  using send_total[of p s] by auto

text \<open>Any number of packets.\<close>

lemma send_many_total: "\<forall>p \<in> set ps. 34 \<le> length p \<Longrightarrow> \<exists>s'. fold_res send ps s = Inr s' \<and> upper s' = upper s"
proof (induction ps arbitrary: s)
  case (Cons p ps)
  then obtain s1 where 1: "send p s = Inr s1" "upper s1 = upper s" using send_total[of p s] by auto
  with Cons.IH[of s1] Cons.prems show ?case by auto
qed simp

end

lemma ip_send_packet_more: "34 \<le> length p \<Longrightarrow> \<exists>s'. ip_send_packet p s = Inr s' \<and> net.more s' = net.more s"
  by (auto simp: ip_send_packet_def has_ip_hdr_def ip_consts Let_def iface_send_packet_by_arp_def
      net_iface_send_packet_def arpcache_append_packet_def arp_send_request_def split: option.splits)

interpretation ip: packet_service ip_send_packet net.more
  by unfold_locales (rule ip_send_packet_more)

section \<open>Operations that leave the upper layer alone\<close>

lemma arp_more:
  "net.more (net_iface_send_packet i p s) = net.more s" "net.more (arp_send_request i a s) = net.more s"
  "net.more (arp_send_reply i p s) = net.more s" "net.more (snd (net_random s)) = net.more s"
  "net.more (flush_packets i m ps s) = net.more s"
  by (simp_all add: net_iface_send_packet_def arp_send_request_def arp_send_reply_def net_random_def)
    (induction ps arbitrary: s; simp add: net_iface_send_packet_def)

lemma flush_reqs_more: "flush_reqs a m rs s = (kept, s') \<Longrightarrow> net.more s' = net.more s"
  by (induction rs arbitrary: s kept) (auto split: if_splits prod.splits simp: arp_more)

lemma arpcache_insert_more: "net.more (arpcache_insert a m s) = net.more s"
  by (auto simp: arpcache_insert_def Let_def arp_more split: prod.split dest!: flush_reqs_more)

lemma handle_arp_more: "handle_arp_packet iface p s = Inr s' \<Longrightarrow> net.more s' = net.more s"
  by (auto simp: handle_arp_packet_def Let_def arp_more arpcache_insert_more split: if_splits)

lemma ip_send_more: "ip_send_packet p s = Inr s' \<Longrightarrow> net.more s' = net.more s"
  using ip.send_upper[of p s s'] by (cases "34 \<le> length p") (auto simp: ip_send_packet_def has_ip_hdr_def ip_consts)

lemma icmp_finish_more: "icmp_finish res n type code s = Inr s' \<Longrightarrow> net.more s' = net.more s"
  by (auto simp: icmp_finish_def Let_def dest: ip_send_more split: if_splits)

lemma net_random_more: "net_random s = (r, s') \<Longrightarrow> net.more s' = net.more s"
  using arp_more(4)[of s] by simp

lemma icmp_send_more: "icmp_send_packet p type code s = Inr s' \<Longrightarrow> net.more s' = net.more s"
  by (auto simp: icmp_send_packet_def Let_def bind_res_Inr_conv
      dest!: icmp_finish_more net_random_more split: if_splits prod.splits option.splits)

lemma sweep_reqs_more: "sweep_reqs now rs s = (kept, drops, s') \<Longrightarrow> net.more s' = net.more s"
  by (induction rs arbitrary: s kept drops) (auto simp: Let_def arp_more split: if_splits prod.splits)

lemma arpcache_sweep_more:
  assumes "arpcache_sweep s = Inr s'"
  shows "net.more s' = net.more s"
proof -
  obtain kept drops s2 where w: "sweep_reqs (net_clock s) (arp_reqs s) (s\<lparr>arp_entries := map age_cache_entry (arp_entries s)\<rparr>)
      = (kept, drops, s2)" by (metis prod_cases3)
  have "net.more s2 = net.more s" using sweep_reqs_more[OF w] by simp
  moreover have "fold_res (\<lambda>p. icmp_send_packet p ICMP_DEST_UNREACH ICMP_HOST_UNREACH) drops (s2\<lparr>arp_reqs := kept\<rparr>) = Inr s'"
    using assms w by (simp add: arpcache_sweep_def)
  then have "net.more s' = net.more s2"
    by (rule fold_res_invariant[where P = "\<lambda>u. net.more u = net.more s2"]) (auto dest!: icmp_send_more)
  ultimately show ?thesis by simp
qed

end
