(* ===== verification/Tcp_Steps.thy ===== *)
theory Tcp_Steps
  imports Tcp_In Packet_Service
begin

text \<open>
  What the TCP operations do to the state, one socket at a time.  The IP layer below (theory
  \<open>Packet_Service\<close>) leaves the TCP layer alone.  \<open>updates k F R\<close> says of an operation that on a
  live socket it returns and changes nothing but that socket; its rules compose along \<open>run_all\<close>.
\<close>

section \<open>What the IP layer leaves alone\<close>

text \<open>What the TCP layer keeps, as a function of the part of the record above the network layer.\<close>

definition same_tcp :: "'b tcp_net_scheme \<Rightarrow> 'b tcp_net_scheme \<Rightarrow> bool" where
  "same_tcp s s' \<longleftrightarrow> socks s' = socks s \<and> next_sock s' = next_sock s \<and> established_table s' = established_table s
     \<and> listen_table s' = listen_table s \<and> bind_table s' = bind_table s \<and> timer_list s' = timer_list s"

lemma same_tcp_more: "net.more s' = net.more (s :: 'b tcp_net_scheme) \<Longrightarrow> same_tcp s s'"
  by (cases s; cases s') (simp add: same_tcp_def)

lemma same_tcp_random: "same_tcp s (snd (net_random s))"
  by (simp add: net_random_def same_tcp_def)

lemma ip_send_same_tcp: "34 \<le> length p \<Longrightarrow> \<exists>s'. ip_send_packet p s = Inr s' \<and> same_tcp s s'"
  using ip.send_total[of p s] same_tcp_more by blast

lemma same_tcp_trans: "same_tcp s t \<Longrightarrow> same_tcp t u \<Longrightarrow> same_tcp s u"
  by (simp add: same_tcp_def)

section \<open>Steps on one socket\<close>

text \<open>Only socket \<open>k\<close> changes, to \<open>t'\<close>.\<close>

definition sock_step :: "nat \<Rightarrow> tcp_sock \<Rightarrow> 'b tcp_net_scheme \<Rightarrow> 'b tcp_net_scheme \<Rightarrow> bool" where
  "sock_step k t' s s' \<longleftrightarrow> socks s' = (socks s)(k \<mapsto> t') \<and> next_sock s' = next_sock s
     \<and> established_table s' = established_table s \<and> listen_table s' = listen_table s
     \<and> bind_table s' = bind_table s \<and> timer_list s' = timer_list s"

lemma sock_step_put: "same_tcp s s1 \<Longrightarrow> sock_step k t s (put_sock k t s1)"
  by (simp add: sock_step_def put_sock_def same_tcp_def)

lemma sock_step_same: "sock_step k t s s1 \<Longrightarrow> same_tcp s1 s2 \<Longrightarrow> sock_step k t s s2"
  by (simp add: sock_step_def same_tcp_def)

lemma sock_step_trans: "sock_step k t s s1 \<Longrightarrow> sock_step k u s1 s2 \<Longrightarrow> sock_step k u s s2"
  by (auto simp: sock_step_def)

lemma sock_step_refl: "socks s k = Some t \<Longrightarrow> same_tcp s s' \<Longrightarrow> sock_step k t s s'"
  by (auto simp: sock_step_def same_tcp_def)

lemma sock_step_socks: "sock_step k t s s' \<Longrightarrow> socks s' k = Some t"
  by (simp add: sock_step_def)

text \<open>
  \<open>updates k F R\<close>: on a live socket \<open>k\<close> the operation \<open>F\<close> returns, changes nothing but that socket in
  the TCP layer, and the socket before and after are related by \<open>R\<close>.
\<close>

definition updates :: "nat \<Rightarrow> ('b tcp_net_scheme \<Rightarrow> 'b tcp_net_scheme res) \<Rightarrow> (tcp_sock \<Rightarrow> tcp_sock \<Rightarrow> bool) \<Rightarrow> bool" where
  "updates k F R \<longleftrightarrow> (\<forall>s t. socks s k = Some t \<longrightarrow> (\<exists>t' s'. F s = Inr s' \<and> sock_step k t' s s' \<and> R t t'))"

lemma updatesI: "(\<And>s t. socks s k = Some t \<Longrightarrow> \<exists>t' s'. F s = Inr s' \<and> sock_step k t' s s' \<and> R t t') \<Longrightarrow> updates k F R"
  by (simp add: updates_def)

lemma updatesE:
  assumes "updates k F R" "socks s k = Some t"
  obtains t' s' where "F s = Inr s'" "sock_step k t' s s'" "R t t'" "socks s' k = Some t'"
  using assms sock_step_socks unfolding updates_def by blast

lemma updates_mono: "updates k F R \<Longrightarrow> (\<And>t t'. R t t' \<Longrightarrow> Q t t') \<Longrightarrow> updates k F Q"
  unfolding updates_def by blast

lemma updates_upd: "updates k (upd_sock k f) (\<lambda>t t'. t' = f t)"
  by (rule updatesI) (simp add: upd_sock_def with_sock_def sock_step_put same_tcp_def)

lemma updates_Nil: "updates k (run_all []) (\<lambda>t t'. t' = t)"
  by (rule updatesI) (auto simp: intro!: sock_step_refl simp: same_tcp_def)

lemma updates_Inr: "updates k Inr (\<lambda>t t'. t' = t)"
  using updates_Nil[of k] unfolding updates_def run_all.simps .

lemma updates_Cons:
  assumes "updates k F R" "updates k (run_all Fs) Q"
  shows "updates k (run_all (F # Fs)) (R OO Q)"
proof (rule updatesI)
  fix s :: "'a tcp_net_scheme" and t assume "socks s k = Some t"
  with assms(1) obtain t1 s1 where 1: "F s = Inr s1" "sock_step k t1 s s1" "R t t1" "socks s1 k = Some t1" by (rule updatesE)
  from assms(2) 1(4) obtain t2 s2 where 2: "run_all Fs s1 = Inr s2" "sock_step k t2 s1 s2" "Q t1 t2"
    "socks s2 k = Some t2" by (rule updatesE)
  from 1 2 show "\<exists>t' s'. run_all (F # Fs) s = Inr s' \<and> sock_step k t' s s' \<and> (R OO Q) t t'"
    by (auto intro: sock_step_trans)
qed

lemma updates_with:
  assumes "\<And>t. updates k (F t) (R t)"
  shows "updates k (with_sock k F) (\<lambda>t t'. R t t t')"
  using assms by (simp add: updates_def with_sock_def)

lemma updates_if: "(c \<Longrightarrow> updates k F R) \<Longrightarrow> (\<not> c \<Longrightarrow> updates k G R) \<Longrightarrow> updates k (\<lambda>s. if c then F s else G s) R"
  by (cases c) simp_all

lemma updates_put: "updates k (with_sock k (\<lambda>t s. Inr (put_sock k (f t) s))) (\<lambda>t t'. t' = f t)"
  using updates_upd by (simp add: upd_sock_def)

definition control_fields_of :: "tcp_sock \<Rightarrow> u8 \<Rightarrow> tcp_fields" where
  "control_fields_of t flags = \<lparr>tf_saddr = sk_sip t, tf_daddr = sk_dip t, tf_sport = sk_sport t, tf_dport = sk_dport t,
     tf_seq = sk_snd_nxt t, tf_ack = sk_rcv_nxt t, tf_flags = flags, tf_rwnd = sk_rcv_wnd t, tf_data = []\<rparr>"

definition data_fields_of :: "tcp_sock \<Rightarrow> bytes \<Rightarrow> tcp_fields" where
  "data_fields_of t data = \<lparr>tf_saddr = sk_sip t, tf_daddr = sk_dip t, tf_sport = sk_sport t, tf_dport = sk_dport t,
     tf_seq = sk_snd_nxt t, tf_ack = sk_rcv_nxt t, tf_flags = TCP_PSH OR TCP_ACK, tf_rwnd = sk_rcv_wnd t, tf_data = data\<rparr>"

definition control_sent :: "u8 \<Rightarrow> bytes \<Rightarrow> tcp_sock \<Rightarrow> tcp_sock" where
  "control_sent flags p t = (if has_flag flags (TCP_SYN OR TCP_FIN)
     then t\<lparr>sk_snd_nxt := sk_snd_nxt t + 1,
            sk_send_buf := sk_send_buf t @ [\<lparr>sp_packet = p, sp_seq_end = sk_snd_nxt t + 1\<rparr>]\<rparr>
     else t)"

text \<open>A control segment goes out with the fields of the socket.\<close>

lemma send_control:
  assumes "socks s k = Some t"
  shows "\<exists>p s1 s'. tcp_segment (control_fields_of t flags) p \<and> same_tcp s s1 \<and>
    tcp_send_control_packet k flags s = ip_send_packet p (put_sock k (control_sent flags p t) s1) \<and>
    ip_send_packet p (put_sock k (control_sent flags p t) s1) = Inr s' \<and> sock_step k (control_sent flags p t) s s'"
proof -
  obtain p where p: "tcp_control_packet (fst (net_random s)) (sk_sip t) (sk_dip t) (sk_sport t) (sk_dport t)
      (sk_snd_nxt t) (sk_rcv_nxt t) flags (sk_rcv_wnd t) = Inr p" "tcp_segment (control_fields_of t flags) p"
    using tcp_control_packet_segment unfolding control_fields_of_def by blast
  have len: "34 \<le> length p" using p(2) by (simp add: tcp_segment_def has_fields_def)
  have eq: "tcp_send_control_packet k flags s
      = ip_send_packet p (put_sock k (control_sent flags p t) (snd (net_random s)))"
    using assms p(1) by (cases "net_random s") (simp add: tcp_send_control_packet_def with_sock_def control_sent_def Let_def)
  from ip_send_same_tcp[OF len] obtain s' where
    "ip_send_packet p (put_sock k (control_sent flags p t) (snd (net_random s))) = Inr s'"
    "same_tcp (put_sock k (control_sent flags p t) (snd (net_random s))) s'" by blast
  with p(2) eq same_tcp_random[of s] show ?thesis
    by (blast intro: sock_step_same sock_step_put)
qed

lemma updates_control: "updates k (tcp_send_control_packet k flags) (\<lambda>t t'. \<exists>p. 34 \<le> length p \<and> t' = control_sent flags p t)"
proof (rule updatesI)
  fix s :: "'a tcp_net_scheme" and t assume "socks s k = Some t"
  from send_control[OF this, of flags] show "\<exists>t' s'. tcp_send_control_packet k flags s = Inr s' \<and>
      sock_step k t' s s' \<and> (\<exists>p. 34 \<le> length p \<and> t' = control_sent flags p t)"
    by (elim exE conjE) (auto simp: tcp_segment_def has_fields_def intro!: exI)
qed

lemma updates_ack: "updates k (tcp_send_control_packet k TCP_ACK) (\<lambda>t t'. t' = t)"
  by (rule updates_mono[OF updates_control]) (auto simp: control_sent_def has_flag_def tcp_flag_defs)

end
