(* ===== verification/Tcp_Refs.thy ===== *)
theory Tcp_Refs
  imports Tcp_Steps
begin

text \<open>
  Ownership in the TCP stack: the reference count of a socket is the number of tables and timers it
  is linked into (the listen and accept queues hold no reference), and every operation of the stack (\<open>tcp_sock.c\<close>, \<open>tcp_in.c\<close>, \<open>tcp_timer.c\<close>) keeps it that way.
  \<open>keeps F\<close> and \<open>keeps_call F\<close> say so of one operation; their rules are in \<open>wf_intros\<close> and compose.
\<close>

section \<open>Who holds a socket\<close>

definition in_table :: "nat \<Rightarrow> (u8 \<Rightarrow> nat list) \<Rightarrow> bool" where
  "in_table k T \<longleftrightarrow> (\<exists>h. k \<in> set (T h))"

definition hashed :: "nat \<Rightarrow> 'b tcp_net_scheme \<Rightarrow> bool" where
  "hashed k s \<longleftrightarrow> in_table k (established_table s) \<or> in_table k (listen_table s)"

definition holders :: "nat \<Rightarrow> 'b tcp_net_scheme \<Rightarrow> int" where
  "holders k s = of_bool (hashed k s) + of_bool (in_table k (bind_table s))
     + of_bool ((k, Retrans) \<in> set (timer_list s)) + of_bool ((k, Timewait) \<in> set (timer_list s))"

text \<open>
  The invariant.  A socket that is not in the store is held by nobody.  The count of a live
  one is the number of its holders, and its nodes say whether it is linked.
\<close>

definition sock_wf :: "nat \<Rightarrow> tcp_sock \<Rightarrow> 'b tcp_net_scheme \<Rightarrow> bool" where
  "sock_wf k t s \<longleftrightarrow> sk_ref_cnt t = holders k s \<and> (sk_hash_node t = NodeLinked \<longleftrightarrow> hashed k s)
     \<and> (sk_bind_node t = NodeLinked \<longleftrightarrow> in_table k (bind_table s))
     \<and> ((k, Retrans) \<in> set (timer_list s) \<longrightarrow> tm_enable (sk_retrans t))"

definition slot_wf :: "'b tcp_net_scheme \<Rightarrow> nat \<Rightarrow> bool" where
  "slot_wf s k \<longleftrightarrow> (case socks s k of None \<Rightarrow> holders k s = 0 | Some t \<Rightarrow> sock_wf k t s)"

definition tcp_wf :: "'b tcp_net_scheme \<Rightarrow> bool" where
  "tcp_wf s \<longleftrightarrow> (\<forall>k. slot_wf s k) \<and> (\<forall>k \<ge> next_sock s. socks s k = None) \<and> distinct (timer_list s)"

lemma holders_0: "holders k s = 0 \<longleftrightarrow> \<not> hashed k s \<and> \<not> in_table k (bind_table s)
    \<and> (k, Retrans) \<notin> set (timer_list s) \<and> (k, Timewait) \<notin> set (timer_list s)"
  by (auto simp: holders_def of_bool_def split: if_splits)

lemma holders_nonneg: "0 \<le> holders k s"
  by (simp add: holders_def)

lemma tcp_wf_slot: "tcp_wf s \<Longrightarrow> slot_wf s k"
  by (simp add: tcp_wf_def)

lemma tcp_wfD: "tcp_wf s \<Longrightarrow> socks s k = Some t \<Longrightarrow> sock_wf k t s"
  using tcp_wf_slot[of s k] by (simp add: slot_wf_def)

lemma tcp_wf_dead: "tcp_wf s \<Longrightarrow> socks s k = None \<Longrightarrow> holders k s = 0"
  using tcp_wf_slot[of s k] by (simp add: slot_wf_def)

text \<open>What the invariant says of socket \<open>k\<close> depends only on this.\<close>

definition same_slot :: "nat \<Rightarrow> 'b tcp_net_scheme \<Rightarrow> 'b tcp_net_scheme \<Rightarrow> bool" where
  "same_slot k s s' \<longleftrightarrow> (hashed k s' \<longleftrightarrow> hashed k s) \<and> (in_table k (bind_table s') \<longleftrightarrow> in_table k (bind_table s))
     \<and> (\<forall>x. (k, x) \<in> set (timer_list s') \<longleftrightarrow> (k, x) \<in> set (timer_list s))"

lemma same_slot_holders: "same_slot k s s' \<Longrightarrow> holders k s' = holders k s"
  by (simp add: same_slot_def holders_def)

lemma same_slot_sock: "same_slot k s s' \<Longrightarrow> sock_wf k t s' = sock_wf k t s"
  by (simp add: sock_wf_def same_slot_holders) (simp add: same_slot_def)

lemma same_slot_wf: "same_slot k s s' \<Longrightarrow> socks s' k = socks s k \<Longrightarrow> slot_wf s' k = slot_wf s k"
  by (simp add: slot_wf_def same_slot_holders same_slot_sock split: option.split)

text \<open>A step that changes socket \<open>k\<close> only.\<close>

lemma tcp_wf_change:
  assumes "tcp_wf s" "\<And>j. j \<noteq> k \<Longrightarrow> same_slot j s s' \<and> socks s' j = socks s j" "slot_wf s' k"
    and "next_sock s' = next_sock s" "k < next_sock s" "distinct (timer_list s')"
  shows "tcp_wf s'"
  unfolding tcp_wf_def
proof (intro conjI allI impI)
  fix j show "slot_wf s' j" using assms(1-3) same_slot_wf tcp_wf_slot by (cases "j = k") blast+
next
  fix j assume "next_sock s' \<le> j"
  with assms show "socks s' j = None" by (metis not_less tcp_wf_def)
qed (rule assms(6))

lemma tcp_wf_next: "tcp_wf s \<Longrightarrow> socks s k = Some t \<Longrightarrow> k < next_sock s"
  by (metis not_less option.distinct(1) tcp_wf_def)

definition keeps :: "('b tcp_net_scheme \<Rightarrow> 'b tcp_net_scheme res) \<Rightarrow> bool" where
  "keeps F \<longleftrightarrow> (\<forall>s s'. tcp_wf s \<longrightarrow> F s = Inr s' \<longrightarrow> tcp_wf s')"

lemma keepsI: "(\<And>s s'. tcp_wf s \<Longrightarrow> F s = Inr s' \<Longrightarrow> tcp_wf s') \<Longrightarrow> keeps F"
  by (simp add: keeps_def)

lemma keepsD: "keeps F \<Longrightarrow> tcp_wf s \<Longrightarrow> F s = Inr s' \<Longrightarrow> tcp_wf s'"
  by (auto simp: keeps_def)

lemma keeps_Inr [wf_intros]: "keeps Inr" "keeps (\<lambda>s. Inr s)"
  by (simp_all add: keeps_def)

lemma keeps_Inl [wf_intros]: "keeps (\<lambda>s. Inl e)"
  by (simp add: keeps_def)

lemma keeps_run_all [wf_intros]: "\<forall>F \<in> set Fs. keeps F \<Longrightarrow> keeps (run_all Fs)"
  using run_all_invariant[of Fs _ _ tcp_wf] by (auto simp: keeps_def)

lemma keeps_bind [wf_intros]: "keeps F \<Longrightarrow> keeps G \<Longrightarrow> keeps (\<lambda>s. bind_res (F s) G)"
  unfolding keeps_def bind_res_Inr_conv by blast

lemma keeps_with [wf_intros]: "(\<And>t. keeps (F t)) \<Longrightarrow> keeps (with_sock k F)"
  by (auto simp: keeps_def with_sock_def split: option.splits)

lemma keeps_option [wf_intros]:
  "keeps F \<Longrightarrow> (\<And>x. keeps (G x)) \<Longrightarrow> keeps (\<lambda>s. case v of None \<Rightarrow> F s | Some x \<Rightarrow> G x s)"
  by (cases v) simp_all

lemma keeps_if [wf_intros]: "keeps F \<Longrightarrow> keeps G \<Longrightarrow> keeps (\<lambda>s. if c then F s else G s)" "keeps F \<Longrightarrow> keeps G \<Longrightarrow> keeps (if c then F else G)"
  by (cases c; simp)+

text \<open>Changes to a socket the invariant does not see.\<close>

definition neutral :: "tcp_sock \<Rightarrow> tcp_sock \<Rightarrow> bool" where
  "neutral t t' \<longleftrightarrow> sk_ref_cnt t' = sk_ref_cnt t \<and> sk_hash_node t' = sk_hash_node t \<and> sk_bind_node t' = sk_bind_node t
     \<and> tm_enable (sk_retrans t') = tm_enable (sk_retrans t)"

lemma same_tcp_wf: "same_tcp s s' \<Longrightarrow> tcp_wf s' = tcp_wf s"
proof -
  assume s: "same_tcp s s'"
  then have "same_slot k s s'" for k by (simp add: same_tcp_def same_slot_def hashed_def)
  with s same_slot_wf[of _ s s'] show ?thesis by (simp add: tcp_wf_def same_tcp_def)
qed

lemma sock_step_slot: "sock_step k t' s s' \<Longrightarrow> same_slot j s s'"
  by (simp add: sock_step_def same_slot_def hashed_def)

lemma sock_step_wf:
  assumes st: "sock_step k t' s s'" and t: "socks s k = Some t" "neutral t t'" and wf: "tcp_wf s"
  shows "tcp_wf s'"
proof (rule tcp_wf_change[OF wf, of k])
  have "sock_wf k t' s" using tcp_wfD[OF wf t(1)] t(2) by (simp add: sock_wf_def neutral_def)
  then show "slot_wf s' k" using sock_step_socks[OF st] same_slot_sock[OF sock_step_slot[OF st]] by (simp add: slot_wf_def)
qed (use st wf tcp_wf_next[OF wf t(1)] sock_step_slot[OF st] in \<open>auto simp: sock_step_def tcp_wf_def\<close>)

lemma put_sock_wf: "socks s k = Some t \<Longrightarrow> neutral t t' \<Longrightarrow> tcp_wf s \<Longrightarrow> tcp_wf (put_sock k t' s)"
  by (rule sock_step_wf[OF sock_step_put]) (auto simp: same_tcp_def)

lemma keeps_put [wf_intros]: "(\<And>t. neutral t (f t)) \<Longrightarrow> keeps (with_sock k (\<lambda>t s. Inr (put_sock k (f t) s)))"
  by (auto simp: keeps_def with_sock_def intro: put_sock_wf split: option.splits)

lemma keeps_upd [wf_intros]: "(\<And>t. neutral t (f t)) \<Longrightarrow> keeps (upd_sock k f)"
  unfolding upd_sock_def by (rule keeps_put)

lemma keeps_set_state [wf_intros]: "keeps (tcp_set_state k st)"
  unfolding tcp_set_state_def by (rule keeps_upd) (simp add: neutral_def)

lemma ip_send_same: "ip_send_packet p s = Inr s' \<Longrightarrow> same_tcp s s'"
  using ip.send_upper[of p s s'] same_tcp_more[of s' s]
  by (cases "34 \<le> length p") (auto simp: ip_send_packet_def has_ip_hdr_def ip_consts)

lemma ip_send_wf: "ip_send_packet p s = Inr s' \<Longrightarrow> tcp_wf s \<Longrightarrow> tcp_wf s'"
  using ip_send_same same_tcp_wf by blast

lemma keeps_ip_send [wf_intros]: "keeps (ip_send_packet p)" "keeps (\<lambda>s. ip_send_packet p s)"
  by (simp_all add: keeps_def ip_send_wf)

lemma keeps_control [wf_intros]: "keeps (tcp_send_control_packet k flags)"
proof (rule keepsI)
  fix s s' :: "'a tcp_net_scheme" assume *: "tcp_wf s" "tcp_send_control_packet k flags s = Inr s'"
  show "tcp_wf s'"
  proof (cases "socks s k")
    case None
    with *(2) show ?thesis by (simp add: tcp_send_control_packet_def with_sock_def)
  next
    case (Some t)
    from send_control[OF this, of flags] *(2) obtain p where "sock_step k (control_sent flags p t) s s'" by auto
    from sock_step_wf[OF this Some _ *(1)] show ?thesis by (simp add: neutral_def control_sent_def)
  qed
qed

lemma net_random_wf: "net_random s = (r, s') \<Longrightarrow> tcp_wf s' = tcp_wf s"
  using same_tcp_wf[OF same_tcp_random, of s] by simp

lemma keeps_reset [wf_intros]: "keeps (tcp_send_reset cb)"
  by (auto simp: keeps_def tcp_send_reset_def bind_res_Inr_conv net_random_wf dest: ip_send_wf split: prod.splits)

lemma keeps_resend [wf_intros]: "keeps (resend_first k)"
  unfolding resend_first_def by (intro wf_intros) (auto simp: keeps_def intro: ip_send_wf split: list.splits)

section \<open>Linking and unlinking\<close>

lemma removeAll_table [simp]: "in_table j (\<lambda>h. removeAll k (T h)) \<longleftrightarrow> j \<noteq> k \<and> in_table j T"
  by (auto simp: in_table_def)

lemma in_table_add [simp]: "in_table j (T(h := k # T h)) \<longleftrightarrow> j = k \<or> in_table j T"
  by (auto simp: in_table_def)

text \<open>Dropping a reference, after the caller has taken the socket out of one place.\<close>

lemma free_tcp_sock_wf:
  assumes wf: "tcp_wf s0" and t0: "socks s0 k = Some t0" and t: "socks s k = Some t" and free: "free_tcp_sock k s = Inr s'"
    and count: "sk_ref_cnt t = holders k s + 1"
    and nodes: "sk_hash_node t = NodeLinked \<longleftrightarrow> hashed k s" "sk_bind_node t = NodeLinked \<longleftrightarrow> in_table k (bind_table s)"
      "(k, Retrans) \<in> set (timer_list s) \<longrightarrow> tm_enable (sk_retrans t)"
    and other: "\<And>j. j \<noteq> k \<Longrightarrow> same_slot j s0 s \<and> socks s j = socks s0 j" "next_sock s = next_sock s0"
      "distinct (timer_list s)"
  shows "tcp_wf s'"
proof -
  have s': "s' = (if sk_ref_cnt t - 1 \<le> 0 then s\<lparr>socks := (socks s)(k := None)\<rparr>
      else put_sock k (t\<lparr>sk_ref_cnt := sk_ref_cnt t - 1\<rparr>) s)"
    using t free by (simp add: free_tcp_sock_def with_sock_def split: if_splits)
  then have same: "same_slot j s s'" for j by (simp add: same_slot_def hashed_def put_sock_def)
  have "slot_wf s' k"
  proof (cases "sk_ref_cnt t - 1 \<le> 0")
    case True
    then have "holders k s = 0" using count holders_nonneg[of k s] by linarith
    with True same_slot_holders[OF same] show ?thesis by (simp add: s' slot_wf_def)
  next
    case False
    then have "socks s' k = Some (t\<lparr>sk_ref_cnt := sk_ref_cnt t - 1\<rparr>)" by (simp add: s' put_sock_def)
    moreover have "sock_wf k (t\<lparr>sk_ref_cnt := sk_ref_cnt t - 1\<rparr>) s" using count nodes by (simp add: sock_wf_def)
    ultimately show ?thesis using same_slot_sock[OF same] by (simp add: slot_wf_def)
  qed
  moreover have "same_slot j s0 s' \<and> socks s' j = socks s0 j" if "j \<noteq> k" for j
    using same[of j] other(1)[OF that] that by (auto simp: same_slot_def s' put_sock_def)
  moreover have "next_sock s' = next_sock s0" "timer_list s' = timer_list s" by (simp_all add: s' put_sock_def other(2))
  ultimately show ?thesis using tcp_wf_change[OF wf, of k s'] tcp_wf_next[OF wf t0] other(3) by simp
qed

lemma keeps_bind_hash [wf_intros]: "keeps (tcp_bind_hash k)"
proof (rule keepsI)
  fix s s' :: "'a tcp_net_scheme" assume wf: "tcp_wf s" and r: "tcp_bind_hash k s = Inr s'"
  then obtain t where t: "socks s k = Some t" by (auto simp: tcp_bind_hash_def with_sock_def split: option.splits)
  note w = tcp_wfD[OF wf t]
  from r t have un: "sk_bind_node t \<noteq> NodeLinked"
    and s': "s' = put_sock k (t\<lparr>sk_bind_node := NodeLinked, sk_ref_cnt := sk_ref_cnt t + 1\<rparr>)
      (s\<lparr>bind_table := (bind_table s)(tcp_hash_function 0 0 (sk_sport t) 0 := k # bind_table s (tcp_hash_function 0 0 (sk_sport t) 0))\<rparr>)"
    by (auto simp: tcp_bind_hash_def with_sock_def Let_def split: if_splits)
  show "tcp_wf s'"
    by (rule tcp_wf_change[OF wf, of k])
      (use w un wf tcp_wf_next[OF wf t] in \<open>auto simp: s' put_sock_def same_slot_def hashed_def slot_wf_def sock_wf_def
         holders_def tcp_wf_def\<close>)
qed

lemma keeps_bind_unhash [wf_intros]: "keeps (tcp_bind_unhash k)"
proof (rule keepsI)
  fix s s' :: "'a tcp_net_scheme" assume wf: "tcp_wf s" and r: "tcp_bind_unhash k s = Inr s'"
  then obtain t where t: "socks s k = Some t" by (auto simp: tcp_bind_unhash_def with_sock_def split: option.splits)
  let ?s = "put_sock k (t\<lparr>sk_bind_node := NodeStale\<rparr>) (s\<lparr>bind_table := (\<lambda>h. removeAll k (bind_table s h))\<rparr>)"
  from r t have l: "sk_bind_node t = NodeLinked" and f: "free_tcp_sock k ?s = Inr s'"
    by (auto simp: tcp_bind_unhash_def with_sock_def split: list_node.splits)
  show "tcp_wf s'"
    by (rule free_tcp_sock_wf[OF wf t _ f])
      (use tcp_wfD[OF wf t] l wf in \<open>auto simp: put_sock_def same_slot_def hashed_def sock_wf_def holders_def tcp_wf_def\<close>)
qed

lemma keeps_unhash [wf_intros]: "keeps (tcp_unhash k)"
proof (rule keepsI)
  fix s s' :: "'a tcp_net_scheme" assume wf: "tcp_wf s" and r: "tcp_unhash k s = Inr s'"
  then obtain t where t: "socks s k = Some t" by (auto simp: tcp_unhash_def with_sock_def split: option.splits)
  let ?s = "put_sock k (t\<lparr>sk_hash_node := NodeStale\<rparr>) (s\<lparr>established_table := (\<lambda>h. removeAll k (established_table s h)),
            listen_table := (\<lambda>h. removeAll k (listen_table s h))\<rparr>)"
  from r t have l: "sk_hash_node t = NodeLinked" and f: "free_tcp_sock k ?s = Inr s'"
    by (auto simp: tcp_unhash_def with_sock_def split: list_node.splits)
  show "tcp_wf s'"
    by (rule free_tcp_sock_wf[OF wf t _ f])
      (use tcp_wfD[OF wf t] l wf in \<open>auto simp: put_sock_def same_slot_def hashed_def sock_wf_def holders_def tcp_wf_def\<close>)
qed

lemma keeps_unset_retrans [wf_intros]: "keeps (tcp_unset_retrans_timer k)"
proof (rule keepsI)
  fix s s' :: "'a tcp_net_scheme" assume wf: "tcp_wf s" and r: "tcp_unset_retrans_timer k s = Inr s'"
  then obtain t where t: "socks s k = Some t" by (auto simp: tcp_unset_retrans_timer_def with_sock_def split: option.splits)
  let ?s = "put_sock k (t\<lparr>sk_retrans := (sk_retrans t)\<lparr>tm_enable := False\<rparr>\<rparr>) (s\<lparr>timer_list := removeAll (k, Retrans) (timer_list s)\<rparr>)"
  show "tcp_wf s'"
  proof (cases "tm_enable (sk_retrans t)")
    case True
    with r t have l: "(k, Retrans) \<in> set (timer_list s)" and f: "free_tcp_sock k ?s = Inr s'"
      by (auto simp: tcp_unset_retrans_timer_def with_sock_def split: if_splits)
    show ?thesis
      by (rule free_tcp_sock_wf[OF wf t _ f])
        (use tcp_wfD[OF wf t] l wf in \<open>auto simp: put_sock_def same_slot_def hashed_def sock_wf_def holders_def tcp_wf_def
           distinct_removeAll\<close>)
  next
    case False
    with r t wf show ?thesis by (simp add: tcp_unset_retrans_timer_def with_sock_def)
  qed
qed

lemma keeps_set_retrans [wf_intros]: "keeps (tcp_set_retrans_timer k mode)"
proof (rule keepsI)
  fix s s' :: "'a tcp_net_scheme" assume wf: "tcp_wf s" and r: "tcp_set_retrans_timer k mode s = Inr s'"
  then obtain t where t: "socks s k = Some t" by (auto simp: tcp_set_retrans_timer_def with_sock_def split: option.splits)
  note w = tcp_wfD[OF wf t]
  show "tcp_wf s'"
  proof (cases "tm_enable (sk_retrans t)")
    case True
    then have "neutral t (t\<lparr>sk_retrans := (sk_retrans t)\<lparr>tm_type := 1, tm_timeout := TCP_RETRANS_INTERVAL_INITIAL\<rparr>\<rparr>)"
      by (simp add: neutral_def)
    from put_sock_wf[OF t this wf] r t wf True show ?thesis
      by (auto simp: tcp_set_retrans_timer_def with_sock_def split: if_splits)
  next
    case False
    with r t have s': "s' = put_sock k (t\<lparr>sk_retrans := \<lparr>tm_type = 1, tm_timeout = TCP_RETRANS_INTERVAL_INITIAL, tm_enable = True\<rparr>,
              sk_ref_cnt := sk_ref_cnt t + 1\<rparr>) (s\<lparr>timer_list := timer_list s @ [(k, Retrans)]\<rparr>)"
      by (simp add: tcp_set_retrans_timer_def with_sock_def)
    show ?thesis
      by (rule tcp_wf_change[OF wf, of k])
        (use w False wf tcp_wf_next[OF wf t] in \<open>auto simp: s' put_sock_def same_slot_def hashed_def slot_wf_def sock_wf_def
           holders_def tcp_wf_def\<close>)
  qed
qed

lemma keeps_set_timewait [wf_intros]: "keeps (tcp_set_timewait_timer k)"
proof (rule keepsI)
  fix s s' :: "'a tcp_net_scheme" assume wf: "tcp_wf s" and r: "tcp_set_timewait_timer k s = Inr s'"
  then obtain t where t: "socks s k = Some t" by (auto simp: tcp_set_timewait_timer_def with_sock_def split: option.splits)
  with r have n: "(k, Timewait) \<notin> set (timer_list s)"
    and s': "s' = put_sock k (t\<lparr>sk_timewait := \<lparr>tm_type = 0, tm_timeout = TCP_TIMEWAIT_TIMEOUT, tm_enable = True\<rparr>,
              sk_ref_cnt := sk_ref_cnt t + 1\<rparr>) (s\<lparr>timer_list := timer_list s @ [(k, Timewait)]\<rparr>)"
    by (auto simp: tcp_set_timewait_timer_def with_sock_def split: if_splits)
  show "tcp_wf s'"
    by (rule tcp_wf_change[OF wf, of k])
      (use tcp_wfD[OF wf t] n wf tcp_wf_next[OF wf t] in \<open>auto simp: s' put_sock_def same_slot_def hashed_def slot_wf_def
         sock_wf_def holders_def tcp_wf_def\<close>)
qed

section \<open>Calls with a result\<close>

definition keeps_call :: "('b tcp_net_scheme \<Rightarrow> ('r \<times> 'b tcp_net_scheme) res) \<Rightarrow> bool" where
  "keeps_call F \<longleftrightarrow> (\<forall>s r s'. tcp_wf s \<longrightarrow> F s = Inr (r, s') \<longrightarrow> tcp_wf s')"

lemma keeps_callD: "keeps_call F \<Longrightarrow> tcp_wf s \<Longrightarrow> F s = Inr (r, s') \<Longrightarrow> tcp_wf s'"
  by (auto simp: keeps_call_def)

lemma keeps_callI: "(\<And>s r s'. tcp_wf s \<Longrightarrow> F s = Inr (r, s') \<Longrightarrow> tcp_wf s') \<Longrightarrow> keeps_call F"
  unfolding keeps_call_def by blast

lemma keeps_call_Inr [wf_intros]: "keeps_call (\<lambda>s. Inr (r, s))"
  by (simp add: keeps_call_def)

lemma keeps_call_then [wf_intros]: "keeps F \<Longrightarrow> keeps_call G \<Longrightarrow> keeps_call (\<lambda>s. bind_res (F s) G)"
  unfolding keeps_def keeps_call_def bind_res_Inr_conv by blast

lemma keeps_call_bind: "keeps_call F \<Longrightarrow> (\<And>r. keeps_call (G r)) \<Longrightarrow> keeps_call (\<lambda>s. bind_res (F s) (\<lambda>(r, s). G r s))"
  unfolding keeps_call_def bind_res_Inr_conv by (metis case_prod_conv surj_pair)

lemma keeps_of_call: "keeps_call F \<Longrightarrow> (\<And>r. keeps (G r)) \<Longrightarrow> keeps (\<lambda>s. bind_res (F s) (\<lambda>(r, s). G r s))"
  unfolding keeps_def keeps_call_def bind_res_Inr_conv by (metis case_prod_conv surj_pair)

lemma keeps_call_with [wf_intros]: "(\<And>t. keeps_call (F t)) \<Longrightarrow> keeps_call (with_sock k F)"
  by (auto simp: keeps_call_def with_sock_def split: option.splits)

lemma keeps_call_if [wf_intros]: "keeps_call F \<Longrightarrow> keeps_call G \<Longrightarrow> keeps_call (\<lambda>s. if c then F s else G s)"
  by (cases c; simp)

text \<open>Reading the state before doing something.\<close>

lemma keeps_call_peek: "(\<And>x. keeps_call (G x)) \<Longrightarrow> keeps_call (\<lambda>s. bind_res (f s) (\<lambda>x. G x s))"
  unfolding keeps_call_def bind_res_Inr_conv by blast

lemma keeps_peek: "(\<And>x. keeps (G x)) \<Longrightarrow> keeps (\<lambda>s. bind_res (f s) (\<lambda>x. G x s))"
  unfolding keeps_def bind_res_Inr_conv by blast

lemma keeps_call_random: "(\<And>r. keeps_call (G r)) \<Longrightarrow> keeps_call (\<lambda>s. case tcp_new_iss s of (r, s) \<Rightarrow> G r s)"
  unfolding keeps_call_def tcp_new_iss_def
  by (auto split: prod.splits) (metis net_random_wf)

lemma keeps_random: "(\<And>r. keeps (G r)) \<Longrightarrow> keeps (\<lambda>s. case tcp_new_iss s of (r, s) \<Rightarrow> G r s)"
  unfolding keeps_def tcp_new_iss_def
  by (auto split: prod.splits) (metis net_random_wf)

lemma hash_established_wf:
  assumes wf: "tcp_wf s" and t: "socks s k = Some t" and un: "sk_hash_node t \<noteq> NodeLinked"
  shows "tcp_wf (put_sock k (t\<lparr>sk_hash_node := NodeLinked, sk_ref_cnt := sk_ref_cnt t + 1\<rparr>)
    (s\<lparr>established_table := (established_table s)(h := k # established_table s h)\<rparr>))"
  by (rule tcp_wf_change[OF wf, of k])
    (use tcp_wfD[OF wf t] un wf tcp_wf_next[OF wf t] in \<open>auto simp: put_sock_def same_slot_def hashed_def slot_wf_def
       sock_wf_def holders_def tcp_wf_def\<close>)

lemma hash_listen_wf:
  assumes wf: "tcp_wf s" and t: "socks s k = Some t" and un: "sk_hash_node t \<noteq> NodeLinked"
  shows "tcp_wf (put_sock k (t\<lparr>sk_hash_node := NodeLinked, sk_ref_cnt := sk_ref_cnt t + 1\<rparr>)
    (s\<lparr>listen_table := (listen_table s)(h := k # listen_table s h)\<rparr>))"
  by (rule tcp_wf_change[OF wf, of k])
    (use tcp_wfD[OF wf t] un wf tcp_wf_next[OF wf t] in \<open>auto simp: put_sock_def same_slot_def hashed_def slot_wf_def
       sock_wf_def holders_def tcp_wf_def\<close>)

lemma keeps_hash [wf_intros]: "keeps_call (tcp_hash k)"
proof (rule keeps_callI)
  fix s r s' assume wf: "tcp_wf s" and r: "tcp_hash k s = Inr (r :: int, s' :: 'a tcp_net_scheme)"
  then obtain t where t: "socks s k = Some t" by (auto simp: tcp_hash_def with_sock_def split: option.splits)
  show "tcp_wf s'"
  proof (cases "sk_state t = TCP_LISTEN")
    case True
    with r t hash_listen_wf[OF wf t] show ?thesis
      by (auto simp: tcp_hash_def with_sock_def Let_def split: if_splits)
  next
    case False
    show ?thesis
    proof (cases "s' = s")
      case True
      with wf show ?thesis by simp
    next
      case n: False
      from r t False n obtain h where "sk_hash_node t \<noteq> NodeLinked" "s' = put_sock k
          (t\<lparr>sk_hash_node := NodeLinked, sk_ref_cnt := sk_ref_cnt t + 1\<rparr>)
          (s\<lparr>established_table := (established_table s)(h := k # established_table s h)\<rparr>)"
        by (auto simp: tcp_hash_def with_sock_def Let_def bind_res_Inr_conv split: if_splits)
      with hash_established_wf[OF wf t] show ?thesis by simp
    qed
  qed
qed

lemma keeps_set_sport [wf_intros]: "keeps_call (tcp_sock_set_sport k port)"
  unfolding tcp_sock_set_sport_def
  by (rule keeps_call_peek) (intro wf_intros keeps_call_then ballI, auto intro!: wf_intros simp: neutral_def)

lemma alloc_wf: "tcp_wf s \<Longrightarrow> alloc_tcp_sock s = (k, s') \<Longrightarrow> tcp_wf s'"
proof -
  assume wf: "tcp_wf s" and a: "alloc_tcp_sock s = (k, s')"
  have k: "k = next_sock s" and s': "s' = put_sock k new_tcp_sock (s\<lparr>next_sock := k + 1\<rparr>)"
    using a by (auto simp: alloc_tcp_sock_def)
  have "holders k s = 0" using tcp_wf_dead[OF wf] wf k by (simp add: tcp_wf_def)
  from this[unfolded holders_0] have "slot_wf s' k"
    by (simp add: s' slot_wf_def put_sock_def sock_wf_def holders_def hashed_def new_tcp_sock_def)
  moreover have "slot_wf s' j" if "j \<noteq> k" for j
    using that same_slot_wf[of j s s'] tcp_wf_slot[OF wf] by (simp add: s' put_sock_def same_slot_def hashed_def)
  ultimately show ?thesis using wf k by (auto simp: tcp_wf_def s' put_sock_def) metis
qed

lemma keeps_alloc: "(\<And>k. keeps (G k)) \<Longrightarrow> keeps (\<lambda>s. case alloc_tcp_sock s of (k, s) \<Rightarrow> G k s)"
  unfolding keeps_def by (metis alloc_wf case_prod_conv surj_pair)

section \<open>Timers\<close>

lemma free_timers: "free_tcp_sock k s = Inr s' \<Longrightarrow> timer_list s' = timer_list s"
  by (auto simp: free_tcp_sock_def with_sock_def Let_def put_sock_def split: option.splits if_splits)

lemma unhash_timers: "tcp_unhash k s = Inr s' \<Longrightarrow> timer_list s' = timer_list s"
  by (auto simp: tcp_unhash_def with_sock_def put_sock_def split: option.splits list_node.splits dest: free_timers)

lemma bind_unhash_timers: "tcp_bind_unhash k s = Inr s' \<Longrightarrow> timer_list s' = timer_list s"
  by (auto simp: tcp_bind_unhash_def with_sock_def put_sock_def split: option.splits list_node.splits dest: free_timers)

lemma timer_close_wf:
  assumes wf: "tcp_wf s" and l: "(k, kind) \<in> set (timer_list s)" and r: "timer_close k kind s = Inr s'"
  shows "tcp_wf s' \<and> timer_list s' = removeAll (k, kind) (timer_list s)"
proof -
  from r obtain s1 s2 s3 where 1: "tcp_set_state k TCP_CLOSED s = Inr s1" and 2: "tcp_unhash k s1 = Inr s2"
    and 3: "tcp_bind_unhash k s2 = Inr s3"
    and 4: "bind_res (with_sock k (\<lambda>t s. Inr (s\<lparr>timer_list := removeAll (k, kind) (timer_list s)\<rparr>)) s3) (free_tcp_sock k) = Inr s'"
    by (auto simp: timer_close_def bind_res_Inr_conv)
  have wf3: "tcp_wf s3"
    using keepsD[OF keeps_bind_unhash keepsD[OF keeps_unhash keepsD[OF keeps_set_state wf 1] 2] 3] .
  have "timer_list s1 = timer_list s" using 1 by (auto simp: tcp_set_state_def upd_sock_def with_sock_def put_sock_def split: option.splits)
  then have tl: "timer_list s3 = timer_list s" using unhash_timers[OF 2] bind_unhash_timers[OF 3] by simp
  let ?s = "s3\<lparr>timer_list := removeAll (k, kind) (timer_list s3)\<rparr>"
  obtain t where t: "socks s3 k = Some t" and f: "free_tcp_sock k ?s = Inr s'"
    using 4 by (auto simp: with_sock_def split: option.splits)
  note w = tcp_wfD[OF wf3 t]
  have c: "sk_ref_cnt t = holders k ?s + 1"
    using w l tl by (cases kind) (simp_all add: sock_wf_def holders_def hashed_def)
  have d: "distinct (timer_list ?s)" using wf3 by (simp add: tcp_wf_def distinct_removeAll)
  have n: "sk_hash_node t = NodeLinked \<longleftrightarrow> hashed k ?s" "sk_bind_node t = NodeLinked \<longleftrightarrow> in_table k (bind_table ?s)"
    "(k, Retrans) \<in> set (timer_list ?s) \<longrightarrow> tm_enable (sk_retrans t)"
    using w by (simp_all add: sock_wf_def hashed_def)
  have o: "same_slot j s3 ?s \<and> socks ?s j = socks s3 j" if "j \<noteq> k" for j
    using that by (simp add: same_slot_def hashed_def)
  have "tcp_wf s'" by (rule free_tcp_sock_wf[OF wf3 t _ f c n o _ d]) (simp_all add: t)
  then show ?thesis using free_timers[OF f] tl by simp
qed

lemma updates_resend: "34 \<le> length (sp_packet sp) \<Longrightarrow> socks s k = Some t \<Longrightarrow> sk_send_buf t = sp # sps \<Longrightarrow>
    \<exists>s'. resend_first k s = Inr s' \<and> ip_send_packet (sp_packet sp) s = Inr s' \<and> same_tcp s s'"
  using ip_send_same_tcp[of "sp_packet sp" s] by (auto simp: resend_first_def with_sock_def)

lemma ip_send_timers: "ip_send_packet p s = Inr s' \<Longrightarrow> timer_list s' = timer_list s"
  using ip_send_same by (auto simp: same_tcp_def)

lemma scan_timewait_cases:
  assumes "scan_timer (k, Timewait) s = Inr s'" "socks s k = Some t"
  shows "s' = s \<or> (\<exists>s1. s1 = put_sock k (t\<lparr>sk_timewait := (sk_timewait t)\<lparr>tm_timeout := tm_timeout (sk_timewait t)
      - TCP_TIMER_SCAN_INTERVAL\<rparr>\<rparr>) s \<and> (s' = s1 \<or> timewait_expired k s1 = Inr s'))"
  using assms by (simp add: with_sock_def Let_def split: if_split_asm)

lemma scan_retrans_cases:
  assumes "scan_timer (k, Retrans) s = Inr s'" "socks s k = Some t"
  shows "s' = s \<or> (\<exists>s1. s1 = put_sock k (t\<lparr>sk_retrans := (sk_retrans t)\<lparr>tm_timeout := tm_timeout (sk_retrans t)
      - TCP_TIMER_SCAN_INTERVAL\<rparr>\<rparr>) s \<and> (s' = s1 \<or> retrans_expired k s1 = Inr s'))"
  using assms by (simp add: with_sock_def Let_def split: if_split_asm)

lemma timewait_expired_wf:
  assumes wf: "tcp_wf s" and l: "(k, Timewait) \<in> set (timer_list s)" and r: "timewait_expired k s = Inr s'"
  shows "tcp_wf s' \<and> (timer_list s' = timer_list s \<or> timer_list s' = removeAll (k, Timewait) (timer_list s))"
proof -
  obtain t where t: "socks s k = Some t" using r by (auto simp: timewait_expired_def with_sock_def split: option.splits)
  have "timewait_expired k s = (if sk_send_buf t = [] then timer_close k Timewait s
      else Inr (put_sock k (t\<lparr>sk_timewait := (sk_timewait t)\<lparr>tm_timeout := TCP_TIMEWAIT_TIMEOUT\<rparr>\<rparr>) s))"
    using t by (simp add: timewait_expired_def with_sock_def)
  with r consider "timer_close k Timewait s = Inr s'"
    | "s' = put_sock k (t\<lparr>sk_timewait := (sk_timewait t)\<lparr>tm_timeout := TCP_TIMEWAIT_TIMEOUT\<rparr>\<rparr>) s"
    by (metis sum.inject(2))
  then show ?thesis
  proof cases
    case 1
    from timer_close_wf[OF wf l 1] show ?thesis by simp
  next
    case 2
    have "tcp_wf s'" unfolding 2 by (rule put_sock_wf[OF t _ wf]) (simp add: neutral_def)
    with 2 show ?thesis by (simp add: put_sock_def)
  qed
qed

lemma retrans_expired_wf:
  assumes wf: "tcp_wf s" and l: "(k, Retrans) \<in> set (timer_list s)" and r: "retrans_expired k s = Inr s'"
  shows "tcp_wf s' \<and> (timer_list s' = timer_list s \<or> timer_list s' = removeAll (k, Retrans) (timer_list s))"
proof -
  from r consider "timer_close k Retrans s = Inr s'" | s1 where "resend_first k s = Inr s1" "upd_sock k retrans_timeout s1 = Inr s'"
    by (auto simp: retrans_expired_def with_sock_def bind_res_Inr_conv split: if_splits option.splits)
  then show ?thesis
  proof cases
    case 1
    from timer_close_wf[OF wf l 1] show ?thesis by simp
  next
    case 2
    have "keeps (upd_sock k retrans_timeout)" by (rule keeps_upd) (simp add: neutral_def retrans_timeout_def Let_def)
    from keepsD[OF this keepsD[OF keeps_resend wf 2(1)] 2(2)] have "tcp_wf s'" .
    moreover have "timer_list s' = timer_list s1" using 2(2) by (auto simp: upd_sock_def with_sock_def put_sock_def split: option.splits)
    moreover have "timer_list s1 = timer_list s"
      using 2(1) ip_send_timers by (auto simp: resend_first_def with_sock_def split: option.splits list.splits)
    ultimately show ?thesis by simp
  qed
qed

lemma scan_timer_wf:
  assumes wf: "tcp_wf s" and l: "x \<in> set (timer_list s)" and r: "scan_timer x s = Inr s'"
  shows "tcp_wf s' \<and> (timer_list s' = timer_list s \<or> timer_list s' = removeAll x (timer_list s))"
proof -
  obtain k kind where x: "x = (k, kind)" by (cases x)
  obtain t where t: "socks s k = Some t" using r x by (cases kind) (auto simp: with_sock_def split: option.splits)
  show ?thesis
  proof (cases kind)
    case Timewait
    let ?s = "put_sock k (t\<lparr>sk_timewait := (sk_timewait t)\<lparr>tm_timeout := tm_timeout (sk_timewait t) - TCP_TIMER_SCAN_INTERVAL\<rparr>\<rparr>) s"
    have wf1: "tcp_wf ?s" by (rule put_sock_wf[OF t _ wf]) (simp add: neutral_def)
    have tl: "timer_list ?s = timer_list s" by (simp add: put_sock_def)
    consider "s' = s" | "s' = ?s" | "timewait_expired k ?s = Inr s'"
      using scan_timewait_cases[of k s s' t] r x t Timewait by blast
    then show ?thesis using wf wf1 tl timewait_expired_wf[OF wf1, of k s'] l x Timewait by cases simp_all
  next
    case Retrans
    let ?s = "put_sock k (t\<lparr>sk_retrans := (sk_retrans t)\<lparr>tm_timeout := tm_timeout (sk_retrans t) - TCP_TIMER_SCAN_INTERVAL\<rparr>\<rparr>) s"
    have wf1: "tcp_wf ?s" by (rule put_sock_wf[OF t _ wf]) (simp add: neutral_def)
    have tl: "timer_list ?s = timer_list s" by (simp add: put_sock_def)
    consider "s' = s" | "s' = ?s" | "retrans_expired k ?s = Inr s'"
      using scan_retrans_cases[of k s s' t] r x t Retrans by blast
    then show ?thesis using wf wf1 tl retrans_expired_wf[OF wf1, of k s'] l x Retrans by cases simp_all
  qed
qed

lemma scan_list_wf:
  "tcp_wf s \<Longrightarrow> distinct xs \<Longrightarrow> set xs \<subseteq> set (timer_list s) \<Longrightarrow> fold_res scan_timer xs s = Inr s' \<Longrightarrow> tcp_wf s'"
proof (induction xs arbitrary: s)
  case (Cons x xs)
  then obtain s1 where 1: "scan_timer x s = Inr s1" "fold_res scan_timer xs s1 = Inr s'" by (auto simp: bind_res_Inr_conv)
  from scan_timer_wf[OF Cons.prems(1) _ 1(1)] Cons.prems(2,3) have "tcp_wf s1" "set xs \<subseteq> set (timer_list s1)" by auto
  with Cons.IH[OF _ _ _ 1(2)] Cons.prems(2) show ?case by simp
qed simp

lemma keeps_scan [wf_intros]: "keeps tcp_scan_timer_list"
proof (rule keepsI)
  fix s s' :: "'a tcp_net_scheme" assume "tcp_wf s" "tcp_scan_timer_list s = Inr s'"
  then show "tcp_wf s'"
    using scan_list_wf[of s "timer_list s" s'] by (simp add: tcp_scan_timer_list_def tcp_wf_def)
qed

section \<open>Every operation keeps the counts\<close>

lemma neutral_simps [simp]: "neutral t t"
  by (simp add: neutral_def)

lemma neutral_retrans_timeout [simp]: "neutral t (retrans_timeout t)"
  by (simp add: neutral_def retrans_timeout_def Let_def)

lemma neutral_windows [simp]: "neutral t (wake_send t')= neutral t t'" "neutral t (wake_recv t') = neutral t t'"
  by (simp_all add: neutral_def wake_send_def wake_recv_def)

lemma keeps_put_now: "neutral t t' \<Longrightarrow> socks s k = Some t \<Longrightarrow> tcp_wf s \<Longrightarrow> Inr (put_sock k t' s) = Inr s' \<Longrightarrow> tcp_wf s'"
  using put_sock_wf by auto

lemma neutral_trans: "neutral t u \<Longrightarrow> neutral u v \<Longrightarrow> neutral t v"
  by (simp add: neutral_def)

lemma neutral_cwnd: "neutral t (grow_cwnd t)" "neutral t (shrink_cwnd t)" "neutral t (fst (count_dupacks a t))"
  by (simp_all add: neutral_def grow_cwnd_def shrink_cwnd_def count_dupacks_def Let_def)

lemma keeps_update_window [wf_intros]: "keeps (tcp_update_window k cb)"
proof (rule keepsI)
  fix s s' :: "'a tcp_net_scheme" assume wf: "tcp_wf s" and r: "tcp_update_window k cb s = Inr s'"
  then obtain t where t: "socks s k = Some t" by (auto simp: tcp_update_window_def with_sock_def split: option.splits)
  show "tcp_wf s'"
  proof (cases "sk_state t = TCP_SYN_RECV \<or> sk_state t = TCP_SYN_SENT")
    case True
    with r t put_sock_wf[OF t _ wf] show ?thesis
      by (auto simp: tcp_update_window_def with_sock_def Let_def neutral_def)
  next
    case False
    define t1 where "t1 = t\<lparr>sk_adv_wnd := ucast (ucast (sk_adv_wnd t) + (cb_ack cb - sk_snd_una t)), sk_snd_una := cb_ack cb\<rparr>"
    define r2 where "r2 = (if sk_recovery_point t1 = 0 \<and> sk_frpacks t1 = - 1 then count_dupacks (cb_ack cb) (grow_cwnd t1)
              else if sk_recovery_point t1 = 0 then (shrink_cwnd t1, False) else (t1, False))"
    define t3 where "t3 = wake_send ((fst r2)\<lparr>sk_snd_wnd := send_window (sk_adv_wnd (fst r2)) (sk_cwnd (fst r2))\<rparr>)"
    have "neutral t t1" by (simp add: t1_def neutral_def)
    moreover have "neutral t1 (fst r2)"
      using neutral_cwnd(2) neutral_trans[OF neutral_cwnd(1,3)] by (simp add: r2_def)
    moreover have "neutral (fst r2) t3" by (simp add: t3_def neutral_def wake_send_def)
    ultimately have n: "neutral t t3" using neutral_trans by blast
    have eq: "tcp_update_window k cb s = run_all ((if snd r2 then [resend_first k] else []) @ [\<lambda>s. Inr (put_sock k t3 s)]) s"
      using False t by (simp add: tcp_update_window_def with_sock_def Let_def t1_def[symmetric] r2_def[symmetric] t3_def
          split: prod.split)
    show ?thesis
    proof (cases "snd r2")
      case False
      with r put_sock_wf[OF t n wf] show ?thesis by (simp add: eq)
    next
      case True
      with r obtain s1 where 1: "resend_first k s = Inr s1" "s' = put_sock k t3 s1" by (auto simp: eq bind_res_Inr_conv)
      have "socks s1 k = Some t"
        using 1(1) t
        by (cases "sk_send_buf t") (auto simp: resend_first_def with_sock_def same_tcp_def dest!: ip_send_same)
      with 1 put_sock_wf[OF _ n keepsD[OF keeps_resend wf 1(1)]] show ?thesis by simp
    qed
  qed
qed

lemma keeps_update_window_safe [wf_intros]: "keeps (tcp_update_window_safe k cb)"
  unfolding tcp_update_window_safe_def by (intro wf_intros)

lemma keeps_seq_valid: "keeps_call (is_tcp_seq_valid k cb)"
  unfolding is_tcp_seq_valid_def by (intro wf_intros)

lemma keeps_deliver [wf_intros]: "keeps (deliver k buf len)"
proof (rule keepsI)
  fix s s' :: "'a tcp_net_scheme" assume wf: "tcp_wf s" and r: "deliver k buf len s = Inr s'"
  then obtain t where t: "socks s k = Some t" by (auto simp: deliver_def with_sock_def split: option.splits)
  with r wf put_sock_wf[OF t _ wf] show "tcp_wf s'"
    by (auto simp: deliver_def with_sock_def bind_res_Inr_conv neutral_def split: if_splits)
qed

lemma keeps_receive_fin [wf_intros]: "keeps (receive_fin k flags)"
proof -
  have "keeps (\<lambda>s. case st of TCP_ESTABLISHED \<Rightarrow> run_all [tcp_set_state k TCP_CLOSE_WAIT, upd_sock k wake_recv] s
        | TCP_FIN_WAIT_1 \<Rightarrow> run_all [tcp_set_state k TCP_TIME_WAIT, tcp_set_timewait_timer k] s
        | TCP_FIN_WAIT_2 \<Rightarrow> run_all [tcp_set_state k TCP_TIME_WAIT, tcp_set_timewait_timer k] s
        | _ \<Rightarrow> Inr (s :: 'a tcp_net_scheme))" for st
    by (cases st) (simp_all only: tcp_state.case, (intro wf_intros, auto intro!: wf_intros)+)
  then show ?thesis unfolding receive_fin_def by (intro wf_intros)
qed

lemma keeps_drain [wf_intros]: "keeps (drain_ofo k ps)"
proof (induction ps)
  case (Cons p ps)
  show ?case unfolding drain_ofo.simps
    by (intro wf_intros Cons.IH) (auto intro!: wf_intros simp: neutral_def)
qed (simp add: wf_intros)

lemma keeps_recv [wf_intros]: "keeps (tcp_sock_recv k cb)"
  unfolding tcp_sock_recv_def
  by (intro wf_intros ballI) (auto intro!: wf_intros simp: neutral_def wake_recv_def)

lemma keeps_fast_recovery [wf_intros]: "keeps (fast_recovery k ack changed)"
proof (rule keepsI)
  fix s s' :: "'a tcp_net_scheme" assume wf: "tcp_wf s" and r: "fast_recovery k ack changed s = Inr s'"
  then obtain t where t: "socks s k = Some t" by (auto simp: fast_recovery_def with_sock_def split: option.splits)
  with r wf put_sock_wf[OF t _ wf] keepsD[OF keeps_resend wf] show "tcp_wf s'"
    by (auto simp: fast_recovery_def with_sock_def neutral_def wake_send_def split: if_splits)
qed

lemma keeps_ack_send_buf [wf_intros]: "keeps (tcp_ack_send_buf k cb)"
proof (rule keepsI)
  fix s s' :: "'a tcp_net_scheme" assume wf: "tcp_wf s" and r: "tcp_ack_send_buf k cb s = Inr s'"
  then obtain t where t: "socks s k = Some t" by (auto simp: tcp_ack_send_buf_def with_sock_def split: option.splits)
  define left where "left = unacked (cb_ack cb) (sk_send_buf t)"
  have wf1: "tcp_wf (put_sock k (t\<lparr>sk_send_buf := left\<rparr>) s)" by (rule put_sock_wf[OF t _ wf]) (simp add: neutral_def)
  have k: "keeps (run_all [fast_recovery k (cb_ack cb) c, if a then tcp_unset_retrans_timer k
        else if c then tcp_set_retrans_timer k 0 else Inr])" for a c
    by (intro wf_intros) (auto intro!: wf_intros)
  have "tcp_ack_send_buf k cb s = run_all [fast_recovery k (cb_ack cb) (left \<noteq> sk_send_buf t), if left = [] then tcp_unset_retrans_timer k
        else if left \<noteq> sk_send_buf t then tcp_set_retrans_timer k 0 else Inr] (put_sock k (t\<lparr>sk_send_buf := left\<rparr>) s)"
    using t by (simp add: tcp_ack_send_buf_def with_sock_def left_def Let_def)
  with keepsD[OF k wf1] r show "tcp_wf s'" by (simp only:)
qed

lemma keeps_when_valid [wf_intros]: "keeps body \<Longrightarrow> keeps (when_seq_valid k cb body)"
  unfolding when_seq_valid_def
  by (rule keeps_of_call[OF keeps_seq_valid]) (intro wf_intros)

lemma keeps_receive_ack: "\<forall>F \<in> set (receive_ack k cb). keeps F"
  by (auto simp: receive_ack_def intro!: wf_intros)

lemma keeps_hash_ignored [wf_intros]: "keeps (\<lambda>s. bind_res (tcp_hash k s) (\<lambda>(err, s). Inr s))"
  by (rule keeps_of_call[OF keeps_hash]) (rule wf_intros)

lemma keeps_listen [wf_intros]: "keeps (process_listen k cb)"
proof -
  have "keeps (\<lambda>s. case alloc_tcp_sock s of (c, s) \<Rightarrow>
      bind_res (run_all
            [upd_sock c (\<lambda>t. t\<lparr>sk_sip := cb_daddr cb, sk_dip := cb_saddr cb, sk_sport := cb_dport cb,
               sk_dport := cb_sport cb, sk_parent := Some k\<rparr>),
             upd_sock k (\<lambda>t. t\<lparr>sk_listen_queue := sk_listen_queue t @ [c]\<rparr>),
             tcp_set_state c TCP_SYN_RECV,
             \<lambda>s. bind_res (tcp_hash c s) (\<lambda>(err, s). Inr s)] s)
          (\<lambda>s. case tcp_new_iss s of (iss, s) \<Rightarrow> run_all
            [upd_sock c (\<lambda>t. t\<lparr>sk_iss := iss, sk_snd_una := iss, sk_snd_nxt := iss, sk_rcv_nxt := cb_seq_end cb\<rparr>),
             tcp_send_control_packet c (TCP_SYN OR TCP_ACK),
             tcp_set_retrans_timer c 1] (s :: 'a tcp_net_scheme)))"
    by (rule keeps_alloc, rule keeps_bind, rule keeps_run_all)
      (auto intro!: wf_intros keeps_random simp: neutral_def)
  then show ?thesis unfolding process_listen_def by (intro wf_intros)
qed

lemma keeps_accept_enqueue [wf_intros]: "keeps (tcp_sock_accept_enqueue k)"
  unfolding tcp_sock_accept_enqueue_def
  by (intro wf_intros) (simp add: neutral_def)

lemma keeps_syn_recv [wf_intros]: "keeps (process_syn_recv k cb)"
  unfolding process_syn_recv_def
  by (intro wf_intros ballI) (auto intro!: wf_intros simp: neutral_def)

lemma keeps_last_ack [wf_intros]: "keeps (process_last_ack k cb)"
  unfolding process_last_ack_def
  by (intro wf_intros) (auto intro!: wf_intros)

lemma keeps_tcp_process: "keeps (tcp_process tsk cb)"
proof (cases tsk)
  case None
  then show ?thesis using keeps_reset by (simp add: tcp_process_def keeps_def)
next
  case (Some k)
  show ?thesis
  proof (rule keepsI)
    fix s s' :: "'a tcp_net_scheme" assume wf: "tcp_wf s" and r: "tcp_process tsk cb s = Inr s'"
    obtain t where t: "socks s k = Some t" using r Some by (auto simp: tcp_process_def with_sock_def split: option.splits)
    have ra: "keeps (run_all (receive_ack k cb))" "keeps (run_all (receive_ack k cb @ [tcp_set_state k TCP_FIN_WAIT_2]))"
      by (intro keeps_run_all keeps_receive_ack, intro keeps_run_all)
        (auto dest: bspec[OF keeps_receive_ack] intro!: wf_intros)
    note d = keepsD[OF _ wf]
    have rst: "keeps (run_all [tcp_set_state k TCP_CLOSED, tcp_unset_retrans_timer k, tcp_unhash k, tcp_bind_unhash k])"
      and syn0: "keeps (run_all [upd_sock k (\<lambda>t. t\<lparr>sk_rcv_nxt := cb_seq_end cb\<rparr>), tcp_update_window_safe k cb,
               tcp_set_state k TCP_ESTABLISHED, tcp_ack_send_buf k cb, tcp_send_control_packet k TCP_ACK,
               upd_sock k (\<lambda>t. t\<lparr>sk_wait_connect := fst (wake_up (sk_wait_connect t))\<rparr>)])"
      by (auto intro!: wf_intros simp: neutral_def)
    have v: "keeps (when_seq_valid k cb (\<lambda>s. if c then run_all (receive_ack k cb) s else Inr s))"
      "keeps (when_seq_valid k cb (\<lambda>s. if c then run_all (receive_ack k cb @ [tcp_set_state k TCP_FIN_WAIT_2]) s else Inr s))"
      "keeps (when_seq_valid k cb (\<lambda>s. if c then process_last_ack k cb s else Inr s))"
      "keeps (when_seq_valid k cb (\<lambda>s. if b then tcp_send_control_packet k TCP_ACK s
           else if c then run_all (receive_ack k cb) s else Inr s))" for b c
      by (intro wf_intros ra)+
    have syn: "keeps (\<lambda>s. if b then run_all [upd_sock k (\<lambda>t. t\<lparr>sk_rcv_nxt := cb_seq_end cb\<rparr>), tcp_update_window_safe k cb,
               tcp_set_state k TCP_ESTABLISHED, tcp_ack_send_buf k cb, tcp_send_control_packet k TCP_ACK,
               upd_sock k (\<lambda>t. t\<lparr>sk_wait_connect := fst (wake_up (sk_wait_connect t))\<rparr>)] s else Inr s)"
      and sr: "keeps (\<lambda>s. if b then process_syn_recv k cb s else Inr s)" for b
      by (intro keeps_if syn0 keeps_syn_recv keeps_Inr)+
    note v = v[THEN d] and e = keeps_listen[THEN d] sr[THEN d] rst[THEN d] syn[THEN d]
    show "tcp_wf s'"
    proof (cases "cb_flags cb = TCP_RST OR TCP_ACK")
      case True
      with r Some t e(3) show ?thesis by (simp add: tcp_process_def with_sock_def del: run_all.simps)
    next
      case False
      with r Some t have r: "(case sk_state t of
         TCP_LISTEN \<Rightarrow> process_listen k cb s
       | TCP_SYN_SENT \<Rightarrow> if cb_flags cb = TCP_SYN OR TCP_ACK then run_all [upd_sock k (\<lambda>t. t\<lparr>sk_rcv_nxt := cb_seq_end cb\<rparr>), tcp_update_window_safe k cb,
               tcp_set_state k TCP_ESTABLISHED, tcp_ack_send_buf k cb, tcp_send_control_packet k TCP_ACK,
               upd_sock k (\<lambda>t. t\<lparr>sk_wait_connect := fst (wake_up (sk_wait_connect t))\<rparr>)] s else Inr s
       | TCP_SYN_RECV \<Rightarrow> if cb_flags cb = TCP_ACK then process_syn_recv k cb s else Inr s
       | TCP_ESTABLISHED \<Rightarrow> when_seq_valid k cb (\<lambda>s.
           if cb_flags cb = TCP_SYN OR TCP_ACK then tcp_send_control_packet k TCP_ACK s
           else if has_flag (cb_flags cb) TCP_ACK then run_all (receive_ack k cb) s else Inr s) s
       | TCP_FIN_WAIT_1 \<Rightarrow> when_seq_valid k cb (\<lambda>s.
           if has_flag (cb_flags cb) TCP_ACK then run_all (receive_ack k cb @ [tcp_set_state k TCP_FIN_WAIT_2]) s else Inr s) s
       | TCP_FIN_WAIT_2 \<Rightarrow> when_seq_valid k cb (\<lambda>s. if has_flag (cb_flags cb) TCP_ACK then run_all (receive_ack k cb) s else Inr s) s
       | TCP_TIME_WAIT \<Rightarrow> when_seq_valid k cb (\<lambda>s. if has_flag (cb_flags cb) TCP_ACK then run_all (receive_ack k cb) s else Inr s) s
       | TCP_CLOSE_WAIT \<Rightarrow> when_seq_valid k cb (\<lambda>s. if has_flag (cb_flags cb) TCP_ACK then run_all (receive_ack k cb) s else Inr s) s
       | TCP_LAST_ACK \<Rightarrow> when_seq_valid k cb (\<lambda>s. if has_flag (cb_flags cb) TCP_ACK then process_last_ack k cb s else Inr s) s
       | _ \<Rightarrow> Inr s) = Inr s'"
        by (simp add: tcp_process_def with_sock_def Let_def del: run_all.simps)
      show ?thesis
        by (cases "sk_state t")
          (use r wf v e in \<open>simp_all only: tcp_state.case sum.inject\<close>)
    qed
  qed
qed

section \<open>The layers below keep TCP's state\<close>

lemma more_wf: "net.more s' = net.more (s :: 'b tcp_net_scheme) \<Longrightarrow> tcp_wf s \<Longrightarrow> tcp_wf s'"
  using same_tcp_wf[OF same_tcp_more] by blast

section \<open>Everything that happens to a host\<close>

text \<open>
  The calls of the applications, the packets that arrive, and the two threads that run on their own:
  the timer thread and the sweep of the ARP cache.
\<close>

datatype host_event = Alloc | Bind nat u16 | Listen nat int | Connect nat u32 u16 | Connected nat | Accept nat
  | Close nat | Read nat nat | Write nat bytes | Frame ip_iface bytes | Scan | Sweep

fun host_step :: "host_event \<Rightarrow> 'b tcp_net_scheme \<Rightarrow> 'b tcp_net_scheme res" where
  "host_step Alloc s = Inr (snd (alloc_tcp_sock s))"
| "host_step (Bind k port) s = bind_res (tcp_sock_bind k port s) (\<lambda>(r, s). Inr s)"
| "host_step (Listen k backlog) s = bind_res (tcp_sock_listen k backlog s) (\<lambda>(r, s). Inr s)"
| "host_step (Connect k ip port) s = bind_res (tcp_sock_connect k ip port s) (\<lambda>(r, s). Inr s)"
| "host_step (Connected k) s = bind_res (tcp_sock_connect_resume k s) (\<lambda>(r, s). Inr s)"
| "host_step (Accept k) s = bind_res (tcp_sock_accept k s) (\<lambda>(r, s). Inr s)"
| "host_step (Close k) s = tcp_sock_close k s"
| "host_step (Read k n) s = bind_res (tcp_sock_read k n s) (\<lambda>(r, s). Inr s)"
| "host_step (Write k buf) s = bind_res (tcp_sock_write k buf s) (\<lambda>(r, s). Inr s)"
| "host_step (Frame iface p) s = host_handle_packet iface p s"
| "host_step Scan s = tcp_scan_timer_list s"
| "host_step Sweep s = arpcache_sweep s"

lemma keeps_handle_tcp: "keeps (handle_tcp_packet p)"
  by (auto simp: keeps_def handle_tcp_packet_def Let_def bind_res_Inr_conv split: if_splits
      dest: keepsD[OF keeps_tcp_process])

lemma keeps_frame: "keeps (host_handle_packet iface p)"
  by (auto simp: keeps_def host_handle_packet_def host_handle_ip_packet_def split: if_splits
      dest: keepsD[OF keeps_handle_tcp] handle_arp_more icmp_send_more intro: more_wf)

lemma keeps_call_listen: "keeps_call (tcp_sock_listen k backlog)"
  unfolding tcp_sock_listen_def by (intro wf_intros) (auto intro!: wf_intros simp: neutral_def)

lemma keeps_call_write_sock: "socks s k = Some t \<Longrightarrow> neutral t t' \<Longrightarrow> tcp_wf s \<Longrightarrow> Inr (r, put_sock k t' s) = Inr (r', s') \<Longrightarrow> tcp_wf s'"
  using put_sock_wf by auto

lemma keeps_connect_sleep:
  assumes "with_sock k (\<lambda>t s. case sleep_begin (sk_wait_connect t) of
          (w, Blocks) \<Rightarrow> Inr (Blocked, put_sock k (t\<lparr>sk_wait_connect := w\<rparr>) s)
        | (w, Returns r) \<Rightarrow> Inr (Returned (if r \<noteq> 0 then - 1 else 0), put_sock k (t\<lparr>sk_wait_connect := w\<rparr>) s)) s = Inr (r, s')"
    and wf: "tcp_wf s"
  shows "tcp_wf s'"
proof -
  obtain t where t: "socks s k = Some t" using assms(1) by (auto simp: with_sock_def split: option.splits)
  with assms put_sock_wf[OF t _ wf] show "tcp_wf s'"
    by (auto simp: with_sock_def neutral_def split: prod.splits sleep_result.splits)
qed

lemma keeps_call_connect: "keeps_call (tcp_sock_connect k ip port)"
proof -
  have u: "keeps (upd_sock k f)" if "\<And>t. neutral t (f t)" for f :: "tcp_sock \<Rightarrow> tcp_sock"
    using that by (rule keeps_upd)
  show ?thesis
  proof (rule keeps_callI)
    fix s :: "'a tcp_net_scheme" and r s' assume wf: "tcp_wf s" and r: "tcp_sock_connect k ip port s = Inr (r, s')"
    from r obtain s1 where 1: "upd_sock k (\<lambda>t. t\<lparr>sk_dip := ntohl ip, sk_dport := ntohs port\<rparr>) s = Inr s1"
      by (auto simp: tcp_sock_connect_def bind_res_Inr_conv)
    have wf1: "tcp_wf s1" by (rule keepsD[OF u wf 1]) (simp add: neutral_def)
    show "tcp_wf s'"
    proof (cases "longest_prefix_match (net_rtable s1) (ntohl ip)")
      case None
      with r 1 wf1 show ?thesis by (simp add: tcp_sock_connect_def)
    next
      case (Some m)
      with r 1 obtain s2 s3 e3 where 2: "upd_sock k (\<lambda>t. t\<lparr>sk_sip := if_ip (rt_iface m)\<rparr>) s1 = Inr s2"
        and 3: "tcp_sock_set_sport k 0 s2 = Inr (e3, s3)"
        by (auto simp: tcp_sock_connect_def bind_res_Inr_conv)
      have wf2: "tcp_wf s2" by (rule keepsD[OF u wf1 2]) (simp add: neutral_def)
      note wf3 = keeps_callD[OF keeps_set_sport wf2 3]
      show ?thesis
      proof (cases "e3 = 0")
        case False
        with r 1 Some 2 3 wf3 show ?thesis by (simp add: tcp_sock_connect_def)
      next
        case True
        with r 1 Some 2 3 obtain s4 s5 e5 where 4: "tcp_set_state k TCP_SYN_SENT s3 = Inr s4" "tcp_hash k s4 = Inr (e5, s5)"
          by (auto simp: tcp_sock_connect_def bind_res_Inr_conv)
        note wf5 = keeps_callD[OF keeps_hash keepsD[OF keeps_set_state wf3 4(1)] 4(2)]
        show ?thesis
        proof (cases "e5 = 0")
          case False
          with r 1 Some 2 3 4 True wf5 show ?thesis by (simp add: tcp_sock_connect_def)
        next
          case t: True
          obtain iss s6 where 6: "tcp_new_iss s5 = (iss, s6)" by (cases "tcp_new_iss s5")
          have wf6: "tcp_wf s6" using 6 wf5 net_random_wf by (auto simp: tcp_new_iss_def split: prod.splits)
          from r 1 Some 2 3 4 True t 6 obtain s7 where 7: "run_all [upd_sock k (\<lambda>t. t\<lparr>sk_iss := iss, sk_snd_una := iss, sk_snd_nxt := iss\<rparr>),
              tcp_send_control_packet k TCP_SYN, tcp_set_retrans_timer k 1] s6 = Inr s7"
            "with_sock k (\<lambda>t s. case sleep_begin (sk_wait_connect t) of
              (w, Blocks) \<Rightarrow> Inr (Blocked, put_sock k (t\<lparr>sk_wait_connect := w\<rparr>) s)
            | (w, Returns r) \<Rightarrow> Inr (Returned (if r \<noteq> 0 then - 1 else 0), put_sock k (t\<lparr>sk_wait_connect := w\<rparr>) s)) s7 = Inr (r, s')"
            by (auto simp: tcp_sock_connect_def bind_res_Inr_conv simp del: run_all.simps)
          have "keeps (run_all [upd_sock k (\<lambda>t. t\<lparr>sk_iss := iss, sk_snd_una := iss, sk_snd_nxt := iss\<rparr>),
              tcp_send_control_packet k TCP_SYN, tcp_set_retrans_timer k 1])"
            by (auto intro!: wf_intros simp: neutral_def)
          from keeps_connect_sleep[OF 7(2) keepsD[OF this wf6 7(1)]] show ?thesis .
        qed
      qed
    qed
  qed
qed

lemma keeps_call_resume: "keeps_call (tcp_sock_connect_resume k)"
proof (rule keeps_callI)
  fix s :: "'a tcp_net_scheme" and r s' assume wf: "tcp_wf s" and r: "tcp_sock_connect_resume k s = Inr (r, s')"
  then obtain t where t: "socks s k = Some t" by (auto simp: tcp_sock_connect_resume_def with_sock_def split: option.splits)
  with r put_sock_wf[OF t _ wf] show "tcp_wf s'"
    by (auto simp: tcp_sock_connect_resume_def with_sock_def neutral_def split: prod.splits)
qed

lemma keeps_call_accept: "keeps_call (tcp_sock_accept k)"
proof (rule keeps_callI)
  fix s :: "'a tcp_net_scheme" and r s' assume wf: "tcp_wf s" and r: "tcp_sock_accept k s = Inr (r, s')"
  then obtain t where t: "socks s k = Some t" by (auto simp: tcp_sock_accept_def with_sock_def split: option.splits)
  show "tcp_wf s'"
  proof (cases "sk_accept_queue t")
    case Nil
    with r t put_sock_wf[OF t _ wf] show ?thesis
      by (auto simp: tcp_sock_accept_def with_sock_def neutral_def bind_res_Inr_conv)
  next
    case (Cons c cs)
    have "keeps (run_all [upd_sock k (\<lambda>t. t\<lparr>sk_accept_queue := cs, sk_accept_backlog := sk_accept_backlog t - 1\<rparr>),
            upd_sock c (\<lambda>t. t\<lparr>sk_parent := None\<rparr>), tcp_bind_hash c])"
      by (auto intro!: wf_intros simp: neutral_def)
    from keepsD[OF this wf] r t Cons show ?thesis
      by (auto simp: tcp_sock_accept_def with_sock_def bind_res_Inr_conv)
  qed
qed

lemma keeps_close: "keeps (tcp_sock_close k)"
proof -
  have "keeps (\<lambda>s. case st of
       TCP_ESTABLISHED \<Rightarrow> run_all [tcp_set_state k TCP_FIN_WAIT_1,
         tcp_send_control_packet k (TCP_FIN OR TCP_ACK), tcp_set_retrans_timer k 1] s
     | TCP_CLOSE_WAIT \<Rightarrow> run_all [tcp_set_state k TCP_LAST_ACK,
         tcp_send_control_packet k (TCP_FIN OR TCP_ACK), tcp_set_retrans_timer k 1] s
     | _ \<Rightarrow> Inr (s :: 'a tcp_net_scheme))" for st
    by (cases st) (simp_all only: tcp_state.case, (intro wf_intros, auto intro!: wf_intros)+)
  then show ?thesis unfolding tcp_sock_close_def by (intro wf_intros)
qed

lemma keeps_call_read: "keeps_call (tcp_sock_read k n)"
proof (rule keeps_callI)
  fix s :: "'a tcp_net_scheme" and r s' assume wf: "tcp_wf s" and r: "tcp_sock_read k n s = Inr (r, s')"
  then obtain t where t: "socks s k = Some t" by (auto simp: tcp_sock_read_def with_sock_def split: option.splits)
  with r wf put_sock_wf[OF t _ wf] show "tcp_wf s'"
    by (auto simp: tcp_sock_read_def with_sock_def neutral_def bind_res_Inr_conv split: if_splits prod.splits)
qed

lemma keeps_send_packet [wf_intros]: "keeps (tcp_send_packet k p)"
proof (rule keepsI)
  fix s s' :: "'a tcp_net_scheme" assume wf: "tcp_wf s" and r: "tcp_send_packet k p s = Inr s'"
  then obtain t where t: "socks s k = Some t" by (auto simp: tcp_send_packet_def with_sock_def split: option.splits)
  obtain rnd s1 where 1: "net_random s = (rnd, s1)" by (cases "net_random s")
  have t1: "socks s1 k = Some t" using t 1 by (auto simp: net_random_def)
  have wf1: "tcp_wf s1" using wf net_random_wf[OF 1] by simp
  from r t 1 put_sock_wf[OF t1 _ wf1] show "tcp_wf s'"
    by (auto simp: tcp_send_packet_def with_sock_def bind_res_Inr_conv Let_def neutral_def dest!: ip_send_wf)
qed

lemma keeps_call_segment: "keeps_call (write_segment k seg)"
proof (rule keeps_callI)
  fix s :: "'a tcp_net_scheme" and r s' assume wf: "tcp_wf s" and r: "write_segment k seg s = Inr (r, s')"
  then obtain t where t: "socks s k = Some t" by (auto simp: write_segment_def with_sock_def split: option.splits)
  show "tcp_wf s'"
  proof (cases "sk_snd_wnd t \<le> 0")
    case True
    with r t put_sock_wf[OF t _ wf] show ?thesis
      by (auto simp: write_segment_def with_sock_def neutral_def bind_res_Inr_conv)
  next
    case False
    define t1 where "t1 = t\<lparr>sk_adv_wnd := sk_adv_wnd t - of_nat (length seg),
      sk_snd_wnd := send_window (sk_adv_wnd t - of_nat (length seg)) (sk_cwnd t)\<rparr>"
    define packet where "packet = zeros (ETHER_HDR_SIZE + IP_BASE_HDR_SIZE + TCP_BASE_HDR_SIZE) @ seg"
    have n: "neutral t t1" by (simp add: t1_def neutral_def)
    have k: "keeps (run_all [tcp_send_packet k packet, tcp_set_retrans_timer k 1])"
      by (auto intro!: wf_intros)
    have "run_all [tcp_send_packet k packet, tcp_set_retrans_timer k 1] (put_sock k t1 s) = Inr s'"
      using False r t by (simp add: write_segment_def with_sock_def bind_res_Inr_conv Let_def t1_def packet_def
          del: run_all.simps)
    from keepsD[OF k put_sock_wf[OF t n wf] this] show ?thesis .
  qed
qed

lemma keeps_call_write: "keeps_call (tcp_sock_write k buf)"
proof (rule keeps_callI)
  fix s :: "'a tcp_net_scheme" and r s' assume "tcp_wf s" "tcp_sock_write k buf s = Inr (r, s')"
  then show "tcp_wf s'"
  proof (induction k buf s rule: tcp_sock_write.induct)
    case (2 k b buf s)
    then show ?case
      by (auto simp: Let_def bind_res_Inr_conv split: if_splits dest: keeps_callD[OF keeps_call_segment])
  qed simp
qed

lemma alloc_snd_wf: "tcp_wf s \<Longrightarrow> tcp_wf (snd (alloc_tcp_sock s))"
  using alloc_wf[of s "fst (alloc_tcp_sock s)"] by simp

lemma host_step_wf: "host_step e s = Inr s' \<Longrightarrow> tcp_wf s \<Longrightarrow> tcp_wf s'"
  by (cases e) (auto simp: bind_res_Inr_conv tcp_sock_bind_def dest: keeps_callD[OF keeps_set_sport]
      keeps_callD[OF keeps_call_listen] keeps_callD[OF keeps_call_connect] keeps_callD[OF keeps_call_resume]
      keeps_callD[OF keeps_call_accept] keepsD[OF keeps_close] keeps_callD[OF keeps_call_read]
      keeps_callD[OF keeps_call_write] keepsD[OF keeps_frame] keepsD[OF keeps_scan] arpcache_sweep_more
      intro: alloc_snd_wf more_wf)

lemma host_run_wf: "fold_res host_step es s = Inr s' \<Longrightarrow> tcp_wf s \<Longrightarrow> tcp_wf s'"
  by (rule fold_res_invariant[where P = tcp_wf]) (auto dest: host_step_wf)

lemma init_wf: "(\<And>k. socks s k = None) \<Longrightarrow> tcp_wf (init_tcp_stack s)"
  by (simp add: init_tcp_stack_def tcp_wf_def slot_wf_def holders_0 hashed_def in_table_def)

lemma find_sock_total:
  "(\<And>k. k \<in> set ks \<Longrightarrow> socks s k \<noteq> None) \<Longrightarrow> \<exists>r. find_sock P ks s = Inr r \<and>
    (r = None \<longleftrightarrow> (\<forall>k \<in> set ks. \<not> P (the (socks s k)))) \<and>
    (\<forall>k. r = Some k \<longrightarrow> k \<in> set ks \<and> P (the (socks s k)))"
proof (induction ks)
  case (Cons k ks)
  then obtain r where r: "find_sock P ks s = Inr r" "r = None \<longleftrightarrow> (\<forall>k \<in> set ks. \<not> P (the (socks s k)))"
    "\<forall>k. r = Some k \<longrightarrow> k \<in> set ks \<and> P (the (socks s k))" by auto
  from Cons.prems[of k] obtain t where "socks s k = Some t" by auto
  with r show ?case by (cases "P t") (auto simp: with_sock_def)
qed simp

lemma find_sock_live:
  assumes "\<And>k. k \<in> set ks \<Longrightarrow> socks s k \<noteq> None"
  shows "\<exists>r. find_sock P ks s = Inr r \<and> (\<forall>k. r = Some k \<longrightarrow> socks s k \<noteq> None)"
proof -
  obtain r where "find_sock P ks s = Inr r" "\<forall>k. r = Some k \<longrightarrow> k \<in> set ks"
    using find_sock_total[of ks s P] assms by auto
  with assms show ?thesis by blast
qed

lemma bucket_live:
  assumes "tcp_wf s"
  shows "k \<in> set (established_table s h) \<Longrightarrow> socks s k \<noteq> None" "k \<in> set (listen_table s h) \<Longrightarrow> socks s k \<noteq> None"
    "k \<in> set (bind_table s h) \<Longrightarrow> socks s k \<noteq> None"
  using tcp_wf_dead[OF assms, of k] by (auto simp: holders_0 hashed_def in_table_def)

lemma find_in_tables:
  assumes "tcp_wf s"
  shows "\<exists>r. find_sock P (established_table s h) s = Inr r \<and> (\<forall>k. r = Some k \<longrightarrow> socks s k \<noteq> None)"
    "\<exists>r. find_sock P (listen_table s h) s = Inr r \<and> (\<forall>k. r = Some k \<longrightarrow> socks s k \<noteq> None)"
    "\<exists>r. find_sock P (bind_table s h) s = Inr r \<and> (r = None \<longleftrightarrow> (\<forall>k \<in> set (bind_table s h). \<not> P (the (socks s k)))) \<and>
      (\<forall>k. r = Some k \<longrightarrow> k \<in> set (bind_table s h) \<and> P (the (socks s k)))"
  by (rule find_sock_live, erule bucket_live[OF assms])+ (rule find_sock_total, erule bucket_live[OF assms])

lemma lookup_total:
  assumes wf: "tcp_wf s"
  shows "\<exists>r. tcp_sock_lookup cb s = Inr r \<and> (\<forall>k. r = Some k \<longrightarrow> socks s k \<noteq> None)"
proof -
  obtain r where r: "tcp_sock_lookup_established (cb_daddr cb) (cb_saddr cb) (cb_dport cb) (cb_sport cb) s = Inr r"
    "\<forall>k. r = Some k \<longrightarrow> socks s k \<noteq> None"
    unfolding tcp_sock_lookup_established_def using find_in_tables(1)[OF wf] by blast
  obtain r' where r': "tcp_sock_lookup_listen (cb_daddr cb) (cb_dport cb) s = Inr r'"
    "\<forall>k. r' = Some k \<longrightarrow> socks s k \<noteq> None"
    unfolding tcp_sock_lookup_listen_def using find_in_tables(2)[OF wf] by blast
  show ?thesis using r r' by (cases r) (auto simp: tcp_sock_lookup_def)
qed

lemma port_total:
  assumes wf: "tcp_wf s"
  shows "tcp_port_in_use p s = Inr (\<exists>k \<in> set (bind_table s (tcp_hash_function 0 0 p 0)). sk_sport (the (socks s k)) = p)"
proof -
  obtain r where "find_sock (\<lambda>t. sk_sport t = p) (bind_table s (tcp_hash_function 0 0 p 0)) s = Inr r"
    "r = None \<longleftrightarrow> (\<forall>k \<in> set (bind_table s (tcp_hash_function 0 0 p 0)). sk_sport (the (socks s k)) \<noteq> p)"
    using find_in_tables(3)[OF wf, of "\<lambda>t. sk_sport t = p" "tcp_hash_function 0 0 p 0"] by blast
  then show ?thesis by (cases r) (auto simp: tcp_port_in_use_def)
qed

section \<open>What is not counted\<close>

text \<open>
  The listen and accept queues of a listening socket name its children without holding a reference: putting a
  child at the end of the accept queue changes neither its count nor that of any other socket, though
  the comment on \<open>free_tcp_sock\<close> has the count go up whenever a socket is referred to.
\<close>

lemma accept_queue_uncounted:
  assumes "tcp_sock_accept_enqueue k s = Inr s'"
  shows "map_option sk_ref_cnt (socks s' j) = map_option sk_ref_cnt (socks s j)" "holders j s' = holders j s"
    "\<exists>t pk p. socks s k = Some t \<and> sk_parent t = Some pk \<and> socks s' pk = Some p \<and> last (sk_accept_queue p) = k \<and> k \<in> set (sk_accept_queue p)"
  using assms by (auto simp: tcp_sock_accept_enqueue_def with_sock_def upd_sock_def put_sock_def holders_def hashed_def
      split: option.splits)

section \<open>Properties\<close>

text \<open>
  C12: the reference counts of the TCP stack are right.  From an empty stack, after any sequence of socket
  calls, received frames, timer scans and ARP sweeps that runs without a fault, the count of every
  live socket is exactly the number of counted places it is linked into: the hash table of its state, the bind table, the
  retransmission timer and the time-wait timer (the queues of a listening socket hold no reference in this
  code).  No table and no timer names a released socket, so looking up the socket of a
  segment or a free port never touches released memory.
\<close>
theorem reference_counts:
  assumes "fold_res host_step es (init_tcp_stack s) = Inr s'" and "\<And>k. socks s k = None"
  shows "(case socks s' k of None \<Rightarrow> holders k s' = 0 | Some t \<Rightarrow> sk_ref_cnt t = holders k s') \<and>
    (\<exists>r. tcp_sock_lookup cb s' = Inr r \<and> (\<forall>k. r = Some k \<longrightarrow> socks s' k \<noteq> None)) \<and>
    (\<exists>used. tcp_port_in_use p s' = Inr used \<and>
      (used \<longleftrightarrow> (\<exists>k \<in> set (bind_table s' (tcp_hash_function 0 0 p 0)). sk_sport (the (socks s' k)) = p)))"
proof -
  have wf: "tcp_wf s'" using host_run_wf[OF assms(1) init_wf] assms(2) by blast
  moreover have "case socks s' k of None \<Rightarrow> holders k s' = 0 | Some t \<Rightarrow> sk_ref_cnt t = holders k s'"
    using tcp_wf_dead[OF wf, of k] tcp_wfD[OF wf, of k] by (auto simp: sock_wf_def split: option.split)
  ultimately show ?thesis using lookup_total port_total by blast
qed

definition empty_net :: tcp_net where
  "empty_net = \<lparr>net_ifaces = [], net_rtable = [], arp_entries = [], arp_reqs = [], net_clock = 0,
     net_rand = (\<lambda>_. 0), net_rpos = 0, net_sent = [], socks = (\<lambda>_. None), next_sock = 0,
     established_table = (\<lambda>_. []), listen_table = (\<lambda>_. []), bind_table = (\<lambda>_. []), timer_list = []\<rparr>"

theorem reference_counts_witness:
  "\<exists>s' t. fold_res host_step [Alloc, Bind 0 (htons 80), Listen 0 5] (init_tcp_stack empty_net) = Inr s' \<and>
    socks s' 0 = Some t \<and> sk_ref_cnt t = 2 \<and> holders 0 s' = 2"
proof -
  have "\<exists>s' t. fold_res host_step [Alloc, Bind 0 (htons 80), Listen 0 5] (init_tcp_stack empty_net) = Inr s' \<and>
      socks s' 0 = Some t \<and> sk_ref_cnt t = 2"
    by (simp add: empty_net_def init_tcp_stack_def alloc_tcp_sock_def put_sock_def tcp_sock_bind_def
        tcp_sock_set_sport_def tcp_port_in_use_def upd_sock_def with_sock_def new_tcp_sock_def tcp_bind_hash_def
        tcp_sock_listen_def tcp_set_state_def tcp_hash_def Let_def)
  then obtain s' t where "fold_res host_step [Alloc, Bind 0 (htons 80), Listen 0 5] (init_tcp_stack empty_net) = Inr s'"
    "socks s' 0 = Some t" "sk_ref_cnt t = 2" by blast
  with reference_counts[OF this(1), of 0] show ?thesis by (auto simp: empty_net_def)
qed

end
