(* ===== verification/Tcp_Locked.thy ===== *)
theory Tcp_Locked
  imports Tcp_Refs
begin

text \<open>
  The lock around the tables of lab 10 (\<open>tcp_sock.c\<close>, \<open>tcp_sock_table_lock\<close>): look-up, linking and unlinking, with every
  \<open>pthread_mutex_lock\<close> and \<open>pthread_mutex_unlock\<close> where the code has them, and the calls that use them.  The state is
  that of Tcp_Sock with the mutex.  Called one after the other they are the operations of Tcp_Sock; called by two threads
  between whose critical sections the other runs, they are not.
\<close>

section \<open>The lock\<close>

record locked_net = tcp_net +
  table_locked :: bool

text \<open>A mutex that is taken again by its holder blocks for ever.\<close>

definition lock_table :: "'b locked_net_scheme \<Rightarrow> 'b locked_net_scheme res" where
  "lock_table s = (if table_locked s then Inl Sleeps else Inr (s\<lparr>table_locked := True\<rparr>))"

definition unlock_table :: "'b locked_net_scheme \<Rightarrow> 'b locked_net_scheme res" where
  "unlock_table s = (if table_locked s then Inr (s\<lparr>table_locked := False\<rparr>) else Inl Undefined)"

section \<open>The tables\<close>

definition locked_init :: "'b locked_net_scheme \<Rightarrow> 'b locked_net_scheme" where
  "locked_init s = (init_tcp_stack s)\<lparr>table_locked := False\<rparr>"

text \<open>A search under the lock, which both of its exits give back.\<close>

definition locked_find :: "(tcp_sock \<Rightarrow> bool) \<Rightarrow> ('b locked_net_scheme \<Rightarrow> nat list) \<Rightarrow> 'b locked_net_scheme \<Rightarrow>
    (nat option \<times> 'b locked_net_scheme) res" where
  "locked_find P bucket s =
    bind_res (lock_table s) (\<lambda>s.
    bind_res (find_sock P (bucket s) s) (\<lambda>r. case r of
        Some k \<Rightarrow> bind_res (unlock_table s) (\<lambda>s. Inr (Some k, s))
      | None \<Rightarrow> bind_res (unlock_table s) (\<lambda>s. Inr (None, s))))"

definition locked_lookup_established ::
    "u32 \<Rightarrow> u32 \<Rightarrow> u16 \<Rightarrow> u16 \<Rightarrow> 'b locked_net_scheme \<Rightarrow> (nat option \<times> 'b locked_net_scheme) res" where
  "locked_lookup_established saddr daddr sport dport =
    (let key = tcp_hash_function saddr daddr sport dport in
     locked_find (\<lambda>t. sk_sip t = saddr \<and> sk_sport t = sport \<and> sk_dip t = daddr \<and> sk_dport t = dport)
       (\<lambda>s. established_table s key))"

definition locked_lookup_listen :: "u32 \<Rightarrow> u16 \<Rightarrow> 'b locked_net_scheme \<Rightarrow> (nat option \<times> 'b locked_net_scheme) res" where
  "locked_lookup_listen saddr sport =
    (let key = tcp_hash_function 0 0 sport 0 in locked_find (\<lambda>t. sk_sport t = sport) (\<lambda>s. listen_table s key))"

definition locked_lookup :: "tcp_cb \<Rightarrow> 'b locked_net_scheme \<Rightarrow> (nat option \<times> 'b locked_net_scheme) res" where
  "locked_lookup cb s =
    bind_res (locked_lookup_established (cb_daddr cb) (cb_saddr cb) (cb_dport cb) (cb_sport cb) s)
      (\<lambda>(tsk, s). case tsk of Some k \<Rightarrow> Inr (Some k, s) | None \<Rightarrow> locked_lookup_listen (cb_daddr cb) (cb_dport cb) s)"

text \<open>The count is raised behind the lock.\<close>

definition locked_bind_hash :: "nat \<Rightarrow> 'b locked_net_scheme \<Rightarrow> 'b locked_net_scheme res" where
  "locked_bind_hash k = with_sock k (\<lambda>t s.
     let h = tcp_hash_function 0 0 (sk_sport t) 0 in
     bind_res (lock_table s) (\<lambda>s.
     if sk_bind_node t = NodeLinked then Inl StaleNode
     else run_all [unlock_table, upd_sock k (\<lambda>t. t\<lparr>sk_ref_cnt := sk_ref_cnt t + 1\<rparr>)]
       (put_sock k (t\<lparr>sk_bind_node := NodeLinked\<rparr>) (s\<lparr>bind_table := (bind_table s)(h := k # bind_table s h)\<rparr>))))"

definition locked_bind_unhash :: "nat \<Rightarrow> 'b locked_net_scheme \<Rightarrow> 'b locked_net_scheme res" where
  "locked_bind_unhash k = with_sock k (\<lambda>t s.
     bind_res (lock_table s) (\<lambda>s. case sk_bind_node t of
       NodeUnset \<Rightarrow> Inl NullDeref
     | NodeStale \<Rightarrow> Inl StaleNode
     | NodeLinked \<Rightarrow> run_all [unlock_table, free_tcp_sock k] (put_sock k (t\<lparr>sk_bind_node := NodeStale\<rparr>)
         (s\<lparr>bind_table := (\<lambda>h. removeAll k (bind_table s h))\<rparr>))))"

definition locked_port_in_use :: "u16 \<Rightarrow> 'b locked_net_scheme \<Rightarrow> (bool \<times> 'b locked_net_scheme) res" where
  "locked_port_in_use sport s =
    (let value = tcp_hash_function 0 0 sport 0 in
     bind_res (locked_find (\<lambda>t. sk_sport t = sport) (\<lambda>s. bind_table s value) s) (\<lambda>(r, s). Inr (r \<noteq> None, s)))"

fun locked_port_loop :: "nat list \<Rightarrow> 'b locked_net_scheme \<Rightarrow> (u16 \<times> 'b locked_net_scheme) res" where
  "locked_port_loop [] s = Inr (0, s)"
| "locked_port_loop (port # ports) s =
    bind_res (locked_port_in_use (of_nat port) s)
      (\<lambda>(used, s). if \<not> used then Inr (of_nat port, s) else locked_port_loop ports s)"

definition locked_get_port :: "'b locked_net_scheme \<Rightarrow> (u16 \<times> 'b locked_net_scheme) res" where
  "locked_get_port = locked_port_loop [PORT_MIN..<PORT_MAX]"

text \<open>\<open>tcp_sock_set_sport\<close> up to the port it settles on (0: none), and what it does with it.\<close>

definition choose_sport :: "u16 \<Rightarrow> 'b locked_net_scheme \<Rightarrow> (u16 \<times> 'b locked_net_scheme) res" where
  "choose_sport port s =
    (if port \<noteq> 0 then bind_res (locked_port_in_use port s) (\<lambda>(used, s). Inr (if used then 0 else port, s))
     else locked_get_port s)"

definition take_sport :: "nat \<Rightarrow> u16 \<Rightarrow> 'b locked_net_scheme \<Rightarrow> (int \<times> 'b locked_net_scheme) res" where
  "take_sport k port s =
    (if port = 0 then Inr (- 1, s)
     else bind_res (run_all [upd_sock k (\<lambda>t. t\<lparr>sk_sport := port\<rparr>), locked_bind_hash k] s) (\<lambda>s. Inr (0, s)))"

definition locked_set_sport :: "nat \<Rightarrow> u16 \<Rightarrow> 'b locked_net_scheme \<Rightarrow> (int \<times> 'b locked_net_scheme) res" where
  "locked_set_sport k port s = bind_res (choose_sport port s) (\<lambda>(port, s). take_sport k port s)"

text \<open>\<open>tcp_hash\<close> takes the lock for its search, and once more to link the socket.\<close>

definition locked_link :: "nat \<Rightarrow> ('b locked_net_scheme \<Rightarrow> 'b locked_net_scheme) \<Rightarrow> 'b locked_net_scheme \<Rightarrow> (int \<times> 'b locked_net_scheme) res" where
  "locked_link k add = with_sock k (\<lambda>t s.
     bind_res (lock_table s) (\<lambda>s.
     if sk_hash_node t = NodeLinked then Inl StaleNode
     else bind_res (run_all [unlock_table, upd_sock k (\<lambda>t. t\<lparr>sk_ref_cnt := sk_ref_cnt t + 1\<rparr>)]
       (put_sock k (t\<lparr>sk_hash_node := NodeLinked\<rparr>) (add s))) (\<lambda>s. Inr (0, s))))"

definition locked_hash :: "nat \<Rightarrow> 'b locked_net_scheme \<Rightarrow> (int \<times> 'b locked_net_scheme) res" where
  "locked_hash k = with_sock k (\<lambda>t s.
     if sk_state t = TCP_CLOSED then Inr (- 1, s)
     else if sk_state t = TCP_LISTEN then
       (let h = tcp_hash_function 0 0 (sk_sport t) 0 in
        locked_link k (\<lambda>s. s\<lparr>listen_table := (listen_table s)(h := k # listen_table s h)\<rparr>) s)
     else let h = tcp_hash_function (sk_sip t) (sk_dip t) (sk_sport t) (sk_dport t) in
       bind_res (locked_find (\<lambda>tmp. sk_sip t = sk_sip tmp \<and> sk_dip t = sk_dip tmp \<and>
            sk_sport t = sk_sport tmp \<and> sk_dport t = sk_dport tmp) (\<lambda>s. established_table s h) s)
         (\<lambda>(r, s). if r \<noteq> None then Inr (- 1, s)
           else locked_link k (\<lambda>s. s\<lparr>established_table := (established_table s)(h := k # established_table s h)\<rparr>) s))"

definition locked_unhash :: "nat \<Rightarrow> 'b locked_net_scheme \<Rightarrow> 'b locked_net_scheme res" where
  "locked_unhash k = with_sock k (\<lambda>t s.
     bind_res (lock_table s) (\<lambda>s. case sk_hash_node t of
       NodeUnset \<Rightarrow> Inl NullDeref
     | NodeStale \<Rightarrow> Inl StaleNode
     | NodeLinked \<Rightarrow> run_all [unlock_table, free_tcp_sock k] (put_sock k (t\<lparr>sk_hash_node := NodeStale\<rparr>)
         (s\<lparr>established_table := (\<lambda>h. removeAll k (established_table s h)),
            listen_table := (\<lambda>h. removeAll k (listen_table s h))\<rparr>))))"

section \<open>Calls that use the tables\<close>

definition locked_bind :: "nat \<Rightarrow> u16 \<Rightarrow> 'b locked_net_scheme \<Rightarrow> (int \<times> 'b locked_net_scheme) res" where
  "locked_bind k port = locked_set_sport k (ntohs port)"

definition locked_listen :: "nat \<Rightarrow> int \<Rightarrow> 'b locked_net_scheme \<Rightarrow> (int \<times> 'b locked_net_scheme) res" where
  "locked_listen k backlog s =
    bind_res (run_all [upd_sock k (\<lambda>t. t\<lparr>sk_backlog := backlog\<rparr>), tcp_set_state k TCP_LISTEN] s) (locked_hash k)"

definition locked_accept :: "nat \<Rightarrow> 'b locked_net_scheme \<Rightarrow> (nat call_result \<times> 'b locked_net_scheme) res" where
  "locked_accept k = with_sock k (\<lambda>t s. case sk_accept_queue t of
       [] \<Rightarrow> bind_res (sleep_loop (sk_wait_accept t)) (\<lambda>w. Inr (Blocked, put_sock k (t\<lparr>sk_wait_accept := w\<rparr>) s))
     | c # cs \<Rightarrow> bind_res
         (run_all [upd_sock k (\<lambda>t. t\<lparr>sk_accept_queue := cs, sk_accept_backlog := sk_accept_backlog t - 1\<rparr>),
            upd_sock c (\<lambda>t. t\<lparr>sk_parent := None\<rparr>), locked_bind_hash c] s)
         (\<lambda>s. Inr (Returned c, s)))"

section \<open>With the lock free\<close>

lemma bind_res_cong: "r = r' \<Longrightarrow> (\<And>x. f x = g x) \<Longrightarrow> bind_res r f = bind_res r' g"
  by (simp add: bind_res_def split: sum.split)

lemma unlocked_id [simp]: "\<not> table_locked s \<Longrightarrow> s\<lparr>table_locked := False\<rparr> = s"
  by (cases s) simp

lemma find_sock_lock [simp]: "find_sock P ks (s\<lparr>table_locked := b\<rparr>) = find_sock P ks s"
  by (induction ks) (auto simp: with_sock_def split: option.split)

lemma put_sock_lock [simp]:
  "table_locked (put_sock k t s) = table_locked s" "(put_sock k t s)\<lparr>table_locked := b\<rparr> = put_sock k t (s\<lparr>table_locked := b\<rparr>)"
  by (simp_all add: put_sock_def)

lemma locked_find_eq:
  assumes "\<not> table_locked s" "\<And>b. bucket (s\<lparr>table_locked := b\<rparr>) = bucket s"
  shows "locked_find P bucket s = bind_res (find_sock P (bucket s) s) (\<lambda>r. Inr (r, s))"
  using assms by (auto simp: locked_find_def lock_table_def unlock_table_def bind_res_def split: option.split sum.split)

lemma locked_lookup_eq: "\<not> table_locked s \<Longrightarrow> locked_lookup cb s = bind_res (tcp_sock_lookup cb s) (\<lambda>r. Inr (r, s))"
  by (auto simp: locked_lookup_def locked_lookup_established_def locked_lookup_listen_def locked_find_eq tcp_sock_lookup_def
      tcp_sock_lookup_established_def tcp_sock_lookup_listen_def Let_def bind_res_def split: sum.split option.split)

lemma locked_bind_hash_eq: "\<not> table_locked s \<Longrightarrow> locked_bind_hash k s = tcp_bind_hash k s"
  by (auto simp: locked_bind_hash_def tcp_bind_hash_def with_sock_def lock_table_def unlock_table_def upd_sock_def put_sock_def Let_def
      split: option.split)

lemma locked_bind_unhash_eq: "\<not> table_locked s \<Longrightarrow> locked_bind_unhash k s = tcp_bind_unhash k s"
  by (auto simp: locked_bind_unhash_def tcp_bind_unhash_def with_sock_def lock_table_def unlock_table_def put_sock_def Let_def bind_res_def
      split: option.split list_node.split sum.split)

lemma locked_port_in_use_eq: "\<not> table_locked s \<Longrightarrow> locked_port_in_use p s = bind_res (tcp_port_in_use p s) (\<lambda>u. Inr (u, s))"
  by (auto simp: locked_port_in_use_def locked_find_eq tcp_port_in_use_def bind_res_assoc Let_def)

lemma locked_get_port_eq: "\<not> table_locked s \<Longrightarrow> locked_get_port s = bind_res (tcp_get_port s) (\<lambda>p. Inr (p, s))"
proof -
  assume "\<not> table_locked s"
  then have "locked_port_loop ps s = bind_res (get_port_loop ps s) (\<lambda>p. Inr (p, s))" for ps
    by (induction ps) (auto simp: locked_port_in_use_eq bind_res_def split: sum.split)
  then show ?thesis by (simp add: locked_get_port_def tcp_get_port_def)
qed

lemma take_sport_eq:
  assumes "\<not> table_locked s"
  shows "run_all [upd_sock k (\<lambda>t. t\<lparr>sk_sport := p\<rparr>), locked_bind_hash k] s = run_all [upd_sock k (\<lambda>t. t\<lparr>sk_sport := p\<rparr>), tcp_bind_hash k] s"
  using assms by (simp add: upd_sock_def with_sock_def locked_bind_hash_eq split: option.split)

lemma locked_set_sport_eq: "\<not> table_locked s \<Longrightarrow> locked_set_sport k p s = tcp_sock_set_sport k p s"
  by (auto simp: locked_set_sport_def choose_sport_def take_sport_def locked_port_in_use_eq locked_get_port_eq tcp_sock_set_sport_def
      bind_res_assoc take_sport_eq simp del: run_all.simps intro!: bind_res_cong)

lemma locked_link_eq:
  assumes "\<not> table_locked s" "\<And>b. add (s\<lparr>table_locked := b\<rparr>) = (add s)\<lparr>table_locked := b\<rparr>" "socks s k = Some t" "\<not> table_locked (add s)"
  shows "locked_link k add s = (if sk_hash_node t = NodeLinked then Inl StaleNode
    else Inr (0, put_sock k (t\<lparr>sk_hash_node := NodeLinked, sk_ref_cnt := sk_ref_cnt t + 1\<rparr>) (add s)))"
  using assms by (auto simp: locked_link_def with_sock_def lock_table_def unlock_table_def upd_sock_def put_sock_def)

lemma locked_hash_eq: "\<not> table_locked s \<Longrightarrow> locked_hash k s = tcp_hash k s"
proof (cases "socks s k")
  case (Some t)
  assume free: "\<not> table_locked s"
  note link = locked_link_eq[OF free _ Some]
  show ?thesis
    by (auto simp: locked_hash_def tcp_hash_def with_sock_def Some locked_find_eq free link bind_res_assoc Let_def intro!: bind_res_cong)
qed (simp add: locked_hash_def tcp_hash_def with_sock_def)

lemma locked_unhash_eq: "\<not> table_locked s \<Longrightarrow> locked_unhash k s = tcp_unhash k s"
  by (auto simp: locked_unhash_def tcp_unhash_def with_sock_def lock_table_def unlock_table_def put_sock_def Let_def bind_res_def
      split: option.split list_node.split sum.split)

lemma locked_bind_eq: "\<not> table_locked s \<Longrightarrow> locked_bind k p s = tcp_sock_bind k p s"
  by (simp add: locked_bind_def tcp_sock_bind_def locked_set_sport_eq)

lemma locked_listen_eq: "\<not> table_locked s \<Longrightarrow> locked_listen k n s = tcp_sock_listen k n s"
  by (simp add: locked_listen_def tcp_sock_listen_def upd_sock_def tcp_set_state_def with_sock_def locked_hash_eq split: option.split)

lemma locked_accept_eq: "\<not> table_locked s \<Longrightarrow> locked_accept k s = tcp_sock_accept k s"
  by (auto simp: locked_accept_def tcp_sock_accept_def upd_sock_def with_sock_def locked_bind_hash_eq split: option.split list.split)

text \<open>The tables of lab 12 do not touch the lock, so that of lab 10 is free again after every call.\<close>

lemma free_sock_lock: "free_tcp_sock k s = Inr t \<Longrightarrow> table_locked t = table_locked s"
  by (auto simp: free_tcp_sock_def with_sock_def put_sock_def Let_def split: option.splits if_splits)

lemma tables_keep_lock:
  "tcp_bind_hash k s = Inr t \<Longrightarrow> table_locked t = table_locked s"
  "tcp_bind_unhash k s = Inr t \<Longrightarrow> table_locked t = table_locked s"
  "tcp_unhash k s = Inr t \<Longrightarrow> table_locked t = table_locked s"
  "tcp_hash k s = Inr (r, t) \<Longrightarrow> table_locked t = table_locked s"
  "upd_sock k f s = Inr t \<Longrightarrow> table_locked t = table_locked s"
  by (auto simp: tcp_bind_hash_def tcp_bind_unhash_def tcp_unhash_def tcp_hash_def upd_sock_def with_sock_def Let_def bind_res_Inr_conv
      dest!: free_sock_lock split: option.splits list_node.splits if_splits)

lemma calls_keep_lock:
  "tcp_sock_bind k p s = Inr (r, t) \<Longrightarrow> table_locked t = table_locked s"
  "tcp_sock_listen k n s = Inr (r, t) \<Longrightarrow> table_locked t = table_locked s"
  "tcp_sock_accept k s = Inr (a, t) \<Longrightarrow> table_locked t = table_locked s"
  by (auto simp: tcp_sock_bind_def tcp_sock_set_sport_def tcp_sock_listen_def tcp_set_state_def tcp_sock_accept_def with_sock_def
      bind_res_Inr_conv dest!: tables_keep_lock split: option.splits if_splits list.splits)

section \<open>Sequences of calls\<close>

datatype table_call = CallLookup tcp_cb | CallBind nat u16 | CallListen nat int | CallAccept nat | CallHash nat
  | CallUnhash nat | CallBindUnhash nat

datatype table_answer = Found "nat option" | Code int | Accepted "nat call_result" | Nothing

definition answered :: "('r \<Rightarrow> table_answer) \<Rightarrow> table_answer list \<Rightarrow> ('r \<times> 's) res \<Rightarrow> (table_answer list \<times> 's) res" where
  "answered wrap as r = bind_res r (\<lambda>(x, s). Inr (as @ [wrap x], s))"

fun locked_call :: "table_call \<Rightarrow> table_answer list \<times> 'b locked_net_scheme \<Rightarrow> (table_answer list \<times> 'b locked_net_scheme) res" where
  "locked_call (CallLookup cb) (as, s) = answered Found as (locked_lookup cb s)"
| "locked_call (CallBind k p) (as, s) = answered Code as (locked_bind k p s)"
| "locked_call (CallListen k n) (as, s) = answered Code as (locked_listen k n s)"
| "locked_call (CallAccept k) (as, s) = answered Accepted as (locked_accept k s)"
| "locked_call (CallHash k) (as, s) = answered Code as (locked_hash k s)"
| "locked_call (CallUnhash k) (as, s) = bind_res (locked_unhash k s) (\<lambda>s. Inr (as @ [Nothing], s))"
| "locked_call (CallBindUnhash k) (as, s) = bind_res (locked_bind_unhash k s) (\<lambda>s. Inr (as @ [Nothing], s))"

fun plain_call :: "table_call \<Rightarrow> table_answer list \<times> 'b tcp_net_scheme \<Rightarrow> (table_answer list \<times> 'b tcp_net_scheme) res" where
  "plain_call (CallLookup cb) (as, s) = answered Found as (bind_res (tcp_sock_lookup cb s) (\<lambda>r. Inr (r, s)))"
| "plain_call (CallBind k p) (as, s) = answered Code as (tcp_sock_bind k p s)"
| "plain_call (CallListen k n) (as, s) = answered Code as (tcp_sock_listen k n s)"
| "plain_call (CallAccept k) (as, s) = answered Accepted as (tcp_sock_accept k s)"
| "plain_call (CallHash k) (as, s) = answered Code as (tcp_hash k s)"
| "plain_call (CallUnhash k) (as, s) = bind_res (tcp_unhash k s) (\<lambda>s. Inr (as @ [Nothing], s))"
| "plain_call (CallBindUnhash k) (as, s) = bind_res (tcp_bind_unhash k s) (\<lambda>s. Inr (as @ [Nothing], s))"

lemma locked_call_eq: "\<not> table_locked s \<Longrightarrow> locked_call c (as, s) = plain_call c (as, s)"
  by (cases c) (simp_all add: locked_lookup_eq locked_bind_eq locked_listen_eq locked_accept_eq locked_hash_eq locked_unhash_eq
      locked_bind_unhash_eq)

lemma plain_call_lock: "plain_call c (as, s) = Inr (bs, t) \<Longrightarrow> table_locked t = table_locked s"
  by (cases c) (auto simp: answered_def bind_res_Inr_conv dest: calls_keep_lock tables_keep_lock)

section \<open>Two threads\<close>

text \<open>
  \<open>tcp_sock_set_sport(tsk, 0)\<close> of several threads, each about its own socket \<open>k\<close>: \<open>ports k\<close> is the local variable of the call.
  Between the steps, and nowhere inside them for this schedule, the lock is free.
\<close>

datatype port_event = Chooses nat | Takes nat

fun port_step :: "port_event \<Rightarrow> (nat \<Rightarrow> u16) \<times> 'b locked_net_scheme \<Rightarrow> ((nat \<Rightarrow> u16) \<times> 'b locked_net_scheme) res" where
  "port_step (Chooses k) (ports, s) = bind_res (choose_sport 0 s) (\<lambda>(p, s). Inr (ports(k := p), s))"
| "port_step (Takes k) (ports, s) = bind_res (take_sport k (ports k) s) (\<lambda>(err, s). Inr (ports, s))"

lemma chooses: "\<not> table_locked s \<Longrightarrow> port_step (Chooses k) (ports, s) = bind_res (tcp_get_port s) (\<lambda>p. Inr (ports(k := p), s))"
  by (simp add: choose_sport_def locked_get_port_eq bind_res_assoc)

definition ported :: "nat \<Rightarrow> u16 \<Rightarrow> tcp_sock \<Rightarrow> 'b tcp_net_scheme \<Rightarrow> 'b tcp_net_scheme" where
  "ported k p t s = (let h = tcp_hash_function 0 0 p 0 in
    put_sock k (t\<lparr>sk_sport := p, sk_bind_node := NodeLinked, sk_ref_cnt := sk_ref_cnt t + 1\<rparr>)
      (s\<lparr>bind_table := (bind_table s)(h := k # bind_table s h)\<rparr>))"

lemma takes:
  assumes "\<not> table_locked s" "ports k = p" "p \<noteq> 0" "socks s k = Some t" "sk_bind_node t \<noteq> NodeLinked"
  shows "port_step (Takes k) (ports, s) = Inr (ports, ported k p t s)"
proof -
  have "tcp_bind_hash k (put_sock k (t\<lparr>sk_sport := p\<rparr>) s) = Inr (ported k p t s)"
    using assms(5) by (simp add: tcp_bind_hash_def with_sock_def put_sock_def ported_def Let_def)
  then show ?thesis
    using assms by (simp add: take_sport_def upd_sock_def with_sock_def locked_bind_hash_eq)
qed

lemma ported_simps:
  "table_locked (ported k p t s) = table_locked s"
  "socks (ported k p t s) j = (if j = k then Some (t\<lparr>sk_sport := p, sk_bind_node := NodeLinked, sk_ref_cnt := sk_ref_cnt t + 1\<rparr>) else socks s j)"
  "bind_table (ported k p t s) h = (if h = tcp_hash_function 0 0 p 0 then k # bind_table s h else bind_table s h)"
  by (auto simp: ported_def put_sock_def Let_def)

definition binds_live :: "'b tcp_net_scheme \<Rightarrow> bool" where
  "binds_live s \<longleftrightarrow> (\<forall>h. \<forall>k \<in> set (bind_table s h). socks s k \<noteq> None)"

lemma port_in_use_total:
  assumes "binds_live s"
  shows "\<exists>u. tcp_port_in_use p s = Inr u"
proof -
  let ?h = "tcp_hash_function 0 0 p 0"
  have "socks s k \<noteq> None" if "k \<in> set (bind_table s ?h)" for k using assms that by (simp add: binds_live_def)
  then obtain r where "find_sock (\<lambda>t. sk_sport t = p) (bind_table s ?h) s = Inr r"
    using find_sock_total[of "bind_table s ?h" s "\<lambda>t. sk_sport t = p"] by blast
  then show ?thesis by (simp add: tcp_port_in_use_def)
qed

lemma port_loop_total:
  assumes "binds_live s"
  shows "\<exists>q. get_port_loop ps s = Inr q \<and> (q \<noteq> 0 \<longrightarrow> tcp_port_in_use q s = Inr False)"
proof (induction ps)
  case (Cons p ps)
  from port_in_use_total[OF assms] obtain u where "tcp_port_in_use (of_nat p) s = Inr u" by blast
  with Cons show ?case by (cases u) auto
qed simp

text \<open>A host with two new sockets, and nothing in its tables.\<close>

definition example_locked :: locked_net where
  "example_locked = \<lparr>net_ifaces = [example_iface 1 0x0A000102], net_rtable = example_rtable, arp_entries = empty_cache, arp_reqs = [],
     net_clock = 100, net_rand = (\<lambda>n. n), net_rpos = 0, net_sent = [], socks = [0 \<mapsto> new_tcp_sock, 1 \<mapsto> new_tcp_sock], next_sock = 2,
     established_table = (\<lambda>_. []), listen_table = (\<lambda>_. []), bind_table = (\<lambda>_. []), timer_list = [], table_locked = False\<rparr>"

lemma example_locked_fields:
  "\<not> table_locked example_locked" "socks example_locked 0 = Some new_tcp_sock" "socks example_locked 1 = Some new_tcp_sock"
  "bind_table example_locked h = []" "binds_live example_locked" "tcp_get_port example_locked = Inr 12345"
  by (simp_all add: example_locked_def binds_live_def tcp_get_port_def PORT_MIN_def PORT_MAX_def upt_conv_Cons tcp_port_in_use_def)

section \<open>Properties\<close>

text \<open>
  C14: the lock of lab 10.  For calls that are not made at the same time the lock changes nothing: any sequence of look-ups and of
  calls that link and unlink sockets answers as without it, leaves the same state, faults where it did, never waits
  for a lock that is held, and gives it back on every path.
\<close>
theorem lock_transparent:
  assumes "\<not> table_locked s"
  shows "fold_res locked_call cs (as, s) = fold_res plain_call cs (as, s) \<and>
    (\<forall>bs t. fold_res locked_call cs (as, s) = Inr (bs, t) \<longrightarrow> \<not> table_locked t)"
  using assms
proof (induction cs arbitrary: as s)
  case (Cons c cs)
  note eq = locked_call_eq[OF Cons.prems, of c as]
  show ?case
  proof (cases "plain_call c (as, s)")
    case (Inr x)
    then obtain bs u where x: "plain_call c (as, s) = Inr (bs, u)" by (cases x) auto
    from plain_call_lock[OF this] Cons.prems have "\<not> table_locked u" by simp
    from Cons.IH[OF this, of bs] show ?thesis by (simp add: eq x)
  qed (simp add: eq)
qed simp


theorem lock_transparent_witness:
  "\<exists>t. fold_res locked_call [CallBind 0 (htons 80), CallListen 0 5, CallUnhash 0] ([], example_locked) =
      Inr ([Code 0, Code 0, Nothing], t) \<and> \<not> table_locked t"
proof -
  have "\<exists>t. fold_res plain_call [CallBind 0 (htons 80), CallListen 0 5, CallUnhash 0] ([], example_locked) = Inr ([Code 0, Code 0, Nothing], t)"
    by (simp add: answered_def tcp_sock_bind_def tcp_sock_set_sport_def tcp_port_in_use_def example_locked_fields upd_sock_def
        with_sock_def tcp_bind_hash_def tcp_sock_listen_def tcp_set_state_def tcp_hash_def tcp_unhash_def free_tcp_sock_def
        put_sock_def new_tcp_sock_def Let_def)
  then show ?thesis
    using lock_transparent[OF example_locked_fields(1), of "[CallBind 0 (htons 80), CallListen 0 5, CallUnhash 0]" "[]"]
    by (auto simp del: fold_res.simps)
qed

text \<open>
  C13: the lock does not keep two threads from the same port.  The search for a free port and the binding of it are critical sections of
  their own.  When two threads connect at the same time and both have searched before either has bound, both get the
  first free port and both calls succeed: two sockets that are linked in the same bucket under one port.  If
  the second searches after the first has bound, it does not get that port.
\<close>
theorem port_given_twice:
  assumes "\<not> table_locked s" "tcp_get_port s = Inr p" "p \<noteq> 0" "a \<noteq> b"
    and "socks s a = Some ta" "sk_bind_node ta \<noteq> NodeLinked" "socks s b = Some tb" "sk_bind_node tb \<noteq> NodeLinked"
    and "binds_live s"
  shows "(\<exists>ports t ta' tb'. fold_res port_step [Chooses a, Chooses b, Takes a, Takes b] (ports0, s) = Inr (ports, t) \<and>
      socks t a = Some ta' \<and> socks t b = Some tb' \<and> sk_sport ta' = p \<and> sk_sport tb' = p \<and>
      {a, b} \<subseteq> set (bind_table t (tcp_hash_function 0 0 p 0)) \<and> \<not> table_locked t) \<and>
    (\<exists>ports t. fold_res port_step [Chooses a, Takes a, Chooses b] (ports0, s) = Inr (ports, t) \<and> ports a = p \<and> ports b \<noteq> p)"
proof
  let ?ports = "ports0(a := p, b := p)" and ?u = "ported a p ta s"
  have "port_step (Chooses a) (ports0, s) = Inr (ports0(a := p), s)"
    and ch: "port_step (Chooses b) (ports0(a := p), s) = Inr (?ports, s)"
    using chooses[OF assms(1)] assms(2) by simp_all
  moreover have tk: "port_step (Takes a) (ports, s) = Inr (ports, ?u)" if "ports a = p" for ports
    by (rule takes[where t = ta]) (use that assms in simp_all)
  moreover have "port_step (Takes b) (?ports, ?u) = Inr (?ports, ported b p tb ?u)"
    using assms by (intro takes) (simp_all add: ported_simps)
  ultimately have run: "fold_res port_step [Chooses a, Chooses b, Takes a, Takes b] (ports0, s) = Inr (?ports, ported b p tb ?u)"
    using assms(4) by (simp del: port_step.simps)
  show "\<exists>ports t ta' tb'. fold_res port_step [Chooses a, Chooses b, Takes a, Takes b] (ports0, s) = Inr (ports, t) \<and>
      socks t a = Some ta' \<and> socks t b = Some tb' \<and> sk_sport ta' = p \<and> sk_sport tb' = p \<and>
      {a, b} \<subseteq> set (bind_table t (tcp_hash_function 0 0 p 0)) \<and> \<not> table_locked t"
    unfolding run using assms(1,4) by (auto simp: ported_simps)
  have "binds_live ?u" using assms(9) by (auto simp: binds_live_def ported_simps)
  from port_loop_total[OF this] obtain q where q: "tcp_get_port ?u = Inr q" "q \<noteq> 0 \<longrightarrow> tcp_port_in_use q ?u = Inr False"
    by (fastforce simp: tcp_get_port_def)
  have "tcp_port_in_use p ?u = Inr True"
    by (simp add: tcp_port_in_use_def ported_simps with_sock_def)
  with q assms(3) have "q \<noteq> p" by auto
  have "port_step (Chooses b) (ports0(a := p), ?u) = Inr (ports0(a := p, b := q), ?u)"
    using chooses[of ?u b "ports0(a := p)"] assms(1) q(1) by (simp add: ported_simps del: port_step.simps)
  then have "fold_res port_step [Chooses a, Takes a, Chooses b] (ports0, s) = Inr (ports0(a := p, b := q), ?u)"
    using chooses[OF assms(1), of a ports0] assms(2) tk[of "ports0(a := p)"] by (simp del: port_step.simps)
  with \<open>q \<noteq> p\<close> assms(4) show "\<exists>ports t. fold_res port_step [Chooses a, Takes a, Chooses b] (ports0, s) = Inr (ports, t) \<and> ports a = p \<and> ports b \<noteq> p"
    by simp
qed


theorem port_given_twice_witness:
  "\<exists>ports t ta tb. fold_res port_step [Chooses 0, Chooses 1, Takes 0, Takes 1] (\<lambda>_. 0, example_locked) = Inr (ports, t) \<and>
      socks t 0 = Some ta \<and> socks t 1 = Some tb \<and> sk_sport ta = 12345 \<and> sk_sport tb = 12345"
proof -
  have "sk_bind_node new_tcp_sock \<noteq> NodeLinked" by (simp add: new_tcp_sock_def)
  from port_given_twice[OF example_locked_fields(1,6) _ _ example_locked_fields(2) this example_locked_fields(3) this example_locked_fields(5),
      of "\<lambda>_. 0"]
  show ?thesis by (auto simp del: fold_res.simps)
qed

end
