(* ===== verification/Http.thy ===== *)
theory Http
  imports Tcp_Sock "HOL-Library.Signed_Division"
begin

text \<open>
  The HTTP servers: the one of lab 13 that runs over the stack's own TCP (\<open>13-http_tcpstack/tcp_apps.c\<close>) and the one of
  lab 2 over the system's (\<open>02-socket/http-server.c\<close>), which share the parser of requests, up to the size of the buffer,
  and the construction of responses.  Buffers are byte lists of their full size; an access outside
  of one is a fault.  Sockets, OpenSSL and the file system are the environment: a session is driven by what the
  reads return, the files are a function from paths to contents, and the result is what is written.  \<open>int\<close>
  numbers of ranges are computed at their width.  Creating the sockets and threads, loading the certificate and reporting errors
  are left out.
\<close>

section \<open>Strings\<close>

definition text_of :: "string \<Rightarrow> bytes" where
  "text_of = map of_char"

definition CR :: u8 where "CR = 13"
definition LF :: u8 where "LF = 10"
definition SP :: u8 where "SP = 32"
definition SLASH :: u8 where "SLASH = 47"
definition crlf :: bytes where "crlf = [CR, LF]"

text \<open>Reading one character of a buffer.\<close>

definition peek :: "bytes \<Rightarrow> nat \<Rightarrow> u8 res" where
  "peek buf i = (if i < length buf then Inr (buf ! i) else Inl OutOfBounds)"

text \<open>
  \<open>while (buf[idx] != stop) dst[i++] = buf[idx++]\<close> into an array of \<open>cap\<close> bytes; \<open>acc\<close> is what it
  holds so far.
\<close>

function copy_until :: "u8 \<Rightarrow> nat \<Rightarrow> bytes \<Rightarrow> bytes \<Rightarrow> nat \<Rightarrow> (bytes \<times> nat) res" where
  "copy_until stop cap acc buf idx =
    (if idx \<ge> length buf then Inl OutOfBounds
     else if buf ! idx = stop then Inr (acc, idx)
     else if length acc \<ge> cap then Inl OutOfBounds
     else copy_until stop cap (acc @ [buf ! idx]) buf (Suc idx))"
  by pat_completeness auto
termination
  by (relation "measure (\<lambda>(stop, cap, acc, buf, idx). length buf - idx)") auto

text \<open>\<open>while (buf[idx] != '\\r') idx++\<close>\<close>

function skip_to_cr :: "bytes \<Rightarrow> nat \<Rightarrow> nat res" where
  "skip_to_cr buf idx =
    (if idx \<ge> length buf then Inl OutOfBounds
     else if buf ! idx = CR then Inr idx else skip_to_cr buf (Suc idx))"
  by pat_completeness auto
termination
  by (relation "measure (\<lambda>(buf, idx). length buf - idx)") auto

declare copy_until.simps [simp del] skip_to_cr.simps [simp del]

text \<open>The string in an array of \<open>cap\<close> bytes that was zero before \<open>acc\<close> was written to it: it ends at a zero, if there is one.\<close>

definition c_string :: "nat \<Rightarrow> bytes \<Rightarrow> bytes res" where
  "c_string cap acc = (if 0 \<in> set acc \<or> length acc < cap then Inr (takeWhile (\<lambda>c. c \<noteq> 0) acc) else Inl OutOfBounds)"

definition is_digit :: "u8 \<Rightarrow> bool" where
  "is_digit c \<longleftrightarrow> 48 \<le> c \<and> c \<le> 57"

function read_digits :: "u32 \<Rightarrow> bytes \<Rightarrow> nat \<Rightarrow> (u32 \<times> nat) res" where
  "read_digits n buf idx =
    (if idx \<ge> length buf then Inl OutOfBounds
     else if is_digit (buf ! idx) then read_digits (n * 10 + (ucast (buf ! idx) - 48)) buf (Suc idx)
     else Inr (n, idx))"
  by pat_completeness auto
termination
  by (relation "measure (\<lambda>(n, buf, idx). length buf - idx)") auto

declare read_digits.simps [simp del]

section \<open>Requests\<close>

text \<open>What the header loop finds out; \<open>range_end\<close> is \<open>-1\<close> for an open range.\<close>

record http_head =
  hh_keep_alive :: bool
  hh_range :: bool
  hh_range_begin :: int
  hh_range_end :: int

text \<open>The value of \<open>Range: bytes=100-200\<close>, from \<open>idx\<close> on.\<close>

definition read_range :: "bytes \<Rightarrow> nat \<Rightarrow> ((int \<times> int) \<times> nat) res" where
  "read_range buf idx =
    bind_res (read_digits 0 buf idx) (\<lambda>(b, idx).
    bind_res (peek buf (Suc idx)) (\<lambda>c.
      if \<not> is_digit c then Inr ((sint b, -1), Suc idx)
      else bind_res (read_digits 0 buf (Suc idx)) (\<lambda>(e, idx). Inr ((sint b, sint e), idx))))"

lemma copy_until_le: "copy_until stop cap acc buf idx = Inr (a, i) \<Longrightarrow> idx \<le> i \<and> i < length buf"
  by (induction stop cap acc buf idx rule: copy_until.induct) (subst (asm) (2) copy_until.simps, auto split: if_splits)

lemma skip_to_cr_le: "skip_to_cr buf idx = Inr i \<Longrightarrow> idx \<le> i \<and> i < length buf"
  by (induction buf idx rule: skip_to_cr.induct) (subst (asm) (2) skip_to_cr.simps, auto split: if_splits)

lemma read_digits_le: "read_digits n buf idx = Inr (m, i) \<Longrightarrow> idx \<le> i"
  by (induction n buf idx rule: read_digits.induct) (subst (asm) (2) read_digits.simps, auto split: if_splits)

lemma read_range_le: "read_range buf idx = Inr (r, i) \<Longrightarrow> idx \<le> i"
  by (auto simp: read_range_def bind_res_Inr_conv split: if_splits dest!: read_digits_le)

text \<open>
  The loop over the header lines.  A name is compared by putting a zero behind it for a while; after \<open>Connection:\<close>
  the byte is put back at the new \<open>idx + 11\<close> as well, which is twelve bytes farther.
\<close>

function header_loop :: "bytes \<Rightarrow> nat \<Rightarrow> http_head \<Rightarrow> http_head res" where
  "header_loop buf idx h =
    (let idx = idx + 2 in
     if idx \<ge> length buf then Inl OutOfBounds
     else if buf ! idx = CR then Inr h
     else if idx + 6 \<ge> length buf then Inl OutOfBounds
     else if slice buf idx 6 = text_of ''Range:'' then
       (case read_range buf (idx + 13) of
          Inl e \<Rightarrow> Inl e
        | Inr ((b, e), i) \<Rightarrow>
            let h = h\<lparr>hh_range := True, hh_range_begin := b, hh_range_end := e\<rparr> in
            if i < length buf then header_loop buf i h else Inr h)
     else if idx + 11 \<ge> length buf then Inl OutOfBounds
     else if slice buf idx 11 = text_of ''Connection:'' then
       (if idx + 23 \<ge> length buf then Inl OutOfBounds
        else let c = buf ! (idx + 12);
                 h = (if c = of_char (CHR ''k'') then h\<lparr>hh_keep_alive := True\<rparr>
                      else if c = of_char (CHR ''c'') then h\<lparr>hh_keep_alive := False\<rparr> else h);
                 buf = buf[idx + 23 := buf ! (idx + 11)]
             in case skip_to_cr buf (idx + 12) of Inl e \<Rightarrow> Inl e | Inr i \<Rightarrow> header_loop buf i h)
     else case skip_to_cr buf idx of Inl e \<Rightarrow> Inl e | Inr i \<Rightarrow> header_loop buf i h)"
  by pat_completeness auto
termination
  by (relation "measure (\<lambda>(buf, idx, h). length buf - idx)") (auto dest!: read_range_le skip_to_cr_le)

declare header_loop.simps [simp del]

text \<open>The start of the path in an absolute address: the third slash.\<close>

fun third_slash :: "nat \<Rightarrow> bytes \<Rightarrow> bytes res" where
  "third_slash 0 url = Inl OutOfBounds"
| "third_slash k [] = Inl OutOfBounds"
| "third_slash (Suc k) (c # url) =
    (if c = SLASH then (if k = 0 then Inr (c # url) else third_slash k url) else third_slash (Suc k) url)"

record http_request =
  rq_path :: bytes
  rq_version :: bytes
  rq_head :: http_head

definition request_path :: "bool \<Rightarrow> bytes \<Rightarrow> bytes res" where
  "request_path relative_url temp_url =
    (if relative_url then bind_res (c_string 50 temp_url) (\<lambda>u. Inr (of_char (CHR ''.'') # u))
     else bind_res (third_slash 3 (temp_url @ zeros (50 - length temp_url))) (\<lambda>u.
       bind_res (c_string (length u) u) (\<lambda>u. Inr (of_char (CHR ''.'') # u))))"

definition parse_request :: "bool \<Rightarrow> bytes \<Rightarrow> http_request res" where
  "parse_request keep_alive buf =
    bind_res (peek buf 4) (\<lambda>c.
    bind_res (copy_until SP 50 [] buf 4) (\<lambda>(temp_url, idx).
    bind_res (copy_until CR 9 [] buf (Suc idx)) (\<lambda>(version, idx).
    bind_res (header_loop buf idx \<lparr>hh_keep_alive = keep_alive, hh_range = False, hh_range_begin = 0, hh_range_end = 0\<rparr>) (\<lambda>h.
    bind_res (request_path (c = SLASH) temp_url) (\<lambda>path.
    bind_res (c_string 9 version) (\<lambda>version.
      Inr \<lparr>rq_path = path, rq_version = version, rq_head = h\<rparr>))))))"

section \<open>Responses\<close>

text \<open>An \<open>int\<close> computed from wider values.\<close>

definition wrap32 :: "int \<Rightarrow> int" where
  "wrap32 i = sint (of_int i :: u32)"

text \<open>
  The digits of \<open>Content-Length\<close>: least significant first, then reversed in place.  When there is none, the
  swap writes in front of the array.
\<close>

function digits_rev :: "int \<Rightarrow> bytes" where
  "digits_rev temp = (if temp = 0 then [] else of_int (temp smod 10 + 48) # digits_rev (temp sdiv 10))"
  by pat_completeness auto
termination
  by (relation "measure (\<lambda>t. nat \<bar>t\<bar>)") (auto simp: signed_divide_int_def sgn_if abs_mult)

declare digits_rev.simps [simp del]

fun reverse_swaps :: "nat \<Rightarrow> nat list \<Rightarrow> bytes \<Rightarrow> bytes" where
  "reverse_swaps i [] b = b"
| "reverse_swaps i (j # js) b = reverse_swaps i js (b[j := b ! (i - j), i - j := b ! j])"

definition size_text :: "int \<Rightarrow> bytes res" where
  "size_text size' =
    (let b = digits_rev size' in
     if b = [] then Inl OutOfBounds
     else Inr (reverse_swaps (length b - 1) [0..<Suc ((length b - 1) div 2)] b))"

text \<open>The size that is announced, and where the file is read from.\<close>

definition response_size :: "http_head \<Rightarrow> bytes \<Rightarrow> int" where
  "response_size h content =
    (if hh_range h then
       (if hh_range_end h = -1 then wrap32 (int (length content) - hh_range_begin h + 1)
        else wrap32 (hh_range_end h - hh_range_begin h + 1))
     else int (length content))"

definition read_from :: "http_head \<Rightarrow> bytes \<Rightarrow> nat" where
  "read_from h content =
    (if \<not> hh_range h then 0
     else if 0 \<le> hh_range_begin h then nat (hh_range_begin h)
     else if hh_range_end h = -1 then length content else 0)"

definition response_head :: "bytes \<Rightarrow> http_head \<Rightarrow> bytes \<Rightarrow> bytes" where
  "response_head version h size_s =
    version @ text_of (if hh_range h then '' 206 Partial Content'' else '' 200 OK'') @ crlf @
    text_of ''Content-Length: '' @ size_s @ crlf @ text_of ''Connection: '' @
    text_of (if hh_keep_alive h then ''keep-alive'' else ''close'') @ crlf @ crlf"

text \<open>\<open>fread\<close> of \<open>size\<close> bytes, converted to \<open>size_t\<close>.\<close>

definition file_part :: "http_head \<Rightarrow> bytes \<Rightarrow> int \<Rightarrow> bytes" where
  "file_part h content size' =
    (let rest = drop (read_from h content) content in if size' < 0 then rest else take (nat size') rest)"

text \<open>The buffer of \<open>size + 200\<close> bytes, and the length of the head in it.\<close>

definition response_buffer :: "bytes \<Rightarrow> http_head \<Rightarrow> bytes \<Rightarrow> (bytes \<times> nat \<times> int) res" where
  "response_buffer version h content =
    (let size' = response_size h content in
     bind_res (size_text size') (\<lambda>size_s.
       let room = wrap32 (size' + 200); head = response_head version h size_s; part = file_part h content size' in
       if room < 0 then Inl NullDeref
       else if nat room \<le> length head \<or> nat room < length head + length part then Inl OutOfBounds
       else Inr (head @ part @ zeros (nat room - length head - length part), length head, size')))"

definition not_found :: "bytes \<Rightarrow> bytes" where
  "not_found version = version @ text_of '' 404 Not Found'' @ crlf @ crlf @ crlf @ crlf"

section \<open>Lab 13: the server over the stack's own TCP\<close>

text \<open>
  One round of the loop on what \<open>tcp_sock_read\<close> left in the buffer: what is written, whether the loop goes on,
  and \<open>keep_alive\<close>.  A negative length makes \<open>tcp_sock_write\<close> copy that many bytes, as a \<open>size_t\<close>, into its first packet.
\<close>

definition serve :: "(bytes \<Rightarrow> bytes option) \<Rightarrow> bool \<Rightarrow> bytes \<Rightarrow> (bytes \<times> bool \<times> bool) res" where
  "serve files keep_alive buf =
    bind_res (parse_request keep_alive buf) (\<lambda>r. let h = rq_head r in
      case files (rq_path r) of
        None \<Rightarrow> Inr (not_found (rq_version r), False, hh_keep_alive h)
      | Some content \<Rightarrow>
          bind_res (response_buffer (rq_version r) h content) (\<lambda>(response, len1, size').
            if int len1 + size' < 0 then Inl OutOfBounds
            else Inr (take (nat (int len1 + size')) response, \<not> (hh_range h \<and> hh_range_end h = -1), hh_keep_alive h)))"

text \<open>
  A session, for what the reads return one after the other: \<open>None\<close> is a negative result.  The writes; the
  list of reads may end while the server waits for more.
\<close>

fun handle_http_request :: "(bytes \<Rightarrow> bytes option) \<Rightarrow> bool \<Rightarrow> bytes option list \<Rightarrow> bytes list res" where
  "handle_http_request files keep_alive [] = Inr []"
| "handle_http_request files keep_alive (rd # reads) =
    (if \<not> keep_alive then Inr []
     else case rd of
       None \<Rightarrow> Inl Exited
     | Some bytes \<Rightarrow>
         if length bytes > 2000 then Inl OutOfBounds
         else let buf = bytes @ zeros (2000 - length bytes) in
           if hd buf = 0 then Inr []
           else bind_res (serve files keep_alive buf) (\<lambda>(w, more, keep_alive).
             if more then bind_res (handle_http_request files keep_alive reads) (\<lambda>ws. Inr (w # ws)) else Inr [w]))"

text \<open>The listening part of \<open>tcp_server\<close>, up to the first \<open>tcp_sock_accept\<close>; the port comes in network byte order.\<close>

definition tcp_server_listen :: "u16 \<Rightarrow> 'b tcp_net_scheme \<Rightarrow> (nat \<times> 'b tcp_net_scheme) res" where
  "tcp_server_listen port s =
    (case alloc_tcp_sock s of (tsk, s) \<Rightarrow>
       bind_res (tcp_sock_bind tsk port s) (\<lambda>(err, s).
         if err < 0 then Inl Exited
         else bind_res (tcp_sock_listen tsk 10 s) (\<lambda>(err, s). if err < 0 then Inl Exited else Inr (tsk, s))))"

section \<open>Lab 2: the server over the system's TCP and OpenSSL\<close>

text \<open>The reply on port 443 is cut at its first zero byte: its length is \<open>strlen(response)\<close>.\<close>

definition ssl_serve :: "(bytes \<Rightarrow> bytes option) \<Rightarrow> bool \<Rightarrow> bytes \<Rightarrow> (bytes \<times> bool \<times> bool) res" where
  "ssl_serve files keep_alive buf =
    bind_res (parse_request keep_alive buf) (\<lambda>r. let h = rq_head r in
      case files (rq_path r) of
        None \<Rightarrow> Inr (not_found (rq_version r), False, hh_keep_alive h)
      | Some content \<Rightarrow>
          bind_res (response_buffer (rq_version r) h content) (\<lambda>(response, len1, size').
          bind_res (c_string (length response) response) (\<lambda>sent.
            Inr (sent, \<not> (hh_range h \<and> hh_range_end h = -1), hh_keep_alive h))))"

fun handle_https_request :: "(bytes \<Rightarrow> bytes option) \<Rightarrow> bool \<Rightarrow> bytes option list \<Rightarrow> bytes list res" where
  "handle_https_request files keep_alive [] = Inr []"
| "handle_https_request files keep_alive (rd # reads) =
    (if \<not> keep_alive then Inr []
     else case rd of
       None \<Rightarrow> Inl Exited
     | Some bytes \<Rightarrow>
         if length bytes > 1024 then Inl OutOfBounds
         else let buf = bytes @ zeros (1024 - length bytes) in
           if hd buf = 0 then Inr []
           else bind_res (ssl_serve files keep_alive buf) (\<lambda>(w, more, keep_alive).
             if more then bind_res (handle_https_request files keep_alive reads) (\<lambda>ws. Inr (w # ws)) else Inr [w]))"

text \<open>
  The search for the \<open>Host:\<close> line, whose value is copied into an array of 100 bytes.  The comparison writes a
  zero behind the name and puts the byte back.
\<close>

function host_loop :: "bytes \<Rightarrow> nat \<Rightarrow> bytes res" where
  "host_loop buf idx =
    (let idx = idx + 2 in
     if idx + 5 \<ge> length buf then Inl OutOfBounds
     else if slice buf idx 5 \<noteq> text_of ''Host:'' then
       (case skip_to_cr buf idx of Inl e \<Rightarrow> Inl e | Inr i \<Rightarrow> host_loop buf i)
     else bind_res (copy_until CR 100 [] buf (idx + 6)) (\<lambda>(host, idx). c_string 100 host))"
  by pat_completeness auto
termination
  by (relation "measure (\<lambda>(buf, idx). length buf - idx)") (auto dest!: skip_to_cr_le)

declare host_loop.simps [simp del]

text \<open>The answer on port 80: everything has moved to the same place on port 443.\<close>

definition redirect :: "bytes \<Rightarrow> bytes res" where
  "redirect bytes =
    (if length bytes > 1024 then Inl OutOfBounds
     else let buf = bytes @ zeros (1024 - length bytes) in
       bind_res (peek buf 4) (\<lambda>c.
       bind_res (copy_until SP 50 [] buf 4) (\<lambda>(temp_url, idx).
       bind_res (copy_until CR 9 [] buf (Suc idx)) (\<lambda>(version, idx).
       bind_res (c_string 9 version) (\<lambda>version.
       bind_res
         (if c = SLASH
          then bind_res (host_loop buf idx) (\<lambda>host. bind_res (c_string 50 temp_url) (\<lambda>u. Inr (host @ u)))
          else let u = drop 7 (temp_url @ zeros (50 - length temp_url)) in c_string (length u) u)
         (\<lambda>place. Inr (version @ text_of '' 301 Moved Permanently'' @ crlf @ text_of ''Location: https://'' @ place @
            crlf @ crlf @ crlf @ crlf)))))))"

end
