(* ===== verification/Http_Listen.thy ===== *)
theory Http_Listen
  imports Http
begin

text \<open>
  Lab 2: the two listening threads of the HTTP server (\<open>listen_http_request\<close>, \<open>listen_https_request\<close>, \<open>main\<close> of \<open>http-server.c\<close>).  What the system
  and OpenSSL answer are arguments: the results of \<open>socket\<close>, \<open>setsockopt\<close> and \<open>bind\<close>, of loading the certificate and
  the key, and for each connection those of \<open>accept\<close>, of \<open>pthread_create\<close>, of the handshake and of the reads.  The threads share nothing but the process, which
  \<open>exit\<close> ends: the first fault is the result of the program.
\<close>

section \<open>Listening\<close>

definition open_listener :: "int \<Rightarrow> int \<Rightarrow> int \<Rightarrow> int res" where
  "open_listener sock option_set bound =
    (if sock < 0 then Inl Exited
     else if option_set < 0 then Inl Exited
     else if bound < 0 then Inl Exited
     else Inr sock)"

record 'r connection =
  cn_sock :: int
  cn_thread :: int
  cn_reads :: 'r

fun accept_loop :: "('r \<Rightarrow> 'a res) \<Rightarrow> 'r connection list \<Rightarrow> 'a list res" where
  "accept_loop session [] = Inr []"
| "accept_loop session (c # cs) =
    (if cn_sock c < 0 then Inl Exited
     else if cn_thread c \<noteq> 0 then Inl Exited
     else bind_res (session (cn_reads c)) (\<lambda>a. bind_res (accept_loop session cs) (\<lambda>as. Inr (a # as))))"

section \<open>Sessions\<close>

text \<open>One \<open>recv\<close>, \<open>None\<close> if it fails, and the redirection.\<close>

definition http_session :: "bytes option \<Rightarrow> bytes res" where
  "http_session rd = (case rd of None \<Rightarrow> Inl Exited | Some bytes \<Rightarrow> redirect bytes)"

text \<open>The result of \<open>SSL_accept\<close>, and what the reads return.\<close>

definition https_session :: "(bytes \<Rightarrow> bytes option) \<Rightarrow> int \<times> bytes option list \<Rightarrow> bytes list res" where
  "https_session files = (\<lambda>(handshake, reads). if handshake = - 1 then Inl Exited else handle_https_request files True reads)"

definition listen_http_request :: "int \<Rightarrow> int \<Rightarrow> int \<Rightarrow> bytes option connection list \<Rightarrow> bytes list res" where
  "listen_http_request sock option_set bound cs =
    bind_res (open_listener sock option_set bound) (\<lambda>_. accept_loop http_session cs)"

definition listen_https_request ::
    "int \<Rightarrow> int \<Rightarrow> int \<Rightarrow> int \<Rightarrow> int \<Rightarrow> (bytes \<Rightarrow> bytes option) \<Rightarrow> (int \<times> bytes option list) connection list \<Rightarrow> bytes list list res" where
  "listen_https_request cert key sock option_set bound files cs =
    (if cert \<le> 0 then Inl Exited
     else if key \<le> 0 then Inl Exited
     else bind_res (open_listener sock option_set bound) (\<lambda>_. accept_loop (https_session files) cs))"

definition http_server_main :: "int \<Rightarrow> bytes list res \<Rightarrow> bytes list list res \<Rightarrow> (bytes list \<times> bytes list list) res" where
  "http_server_main created http https =
    (if created \<noteq> 0 then Inl Exited
     else bind_res http (\<lambda>h. bind_res https (\<lambda>s. Inr (h, s))))"

section \<open>Sessions do not depend on one another, and any of them can end the server\<close>

lemma accept_loop_serves:
  "\<forall>c \<in> set cs. 0 \<le> cn_sock c \<and> cn_thread c = 0 \<and> session (cn_reads c) = Inr (answer c) \<Longrightarrow> accept_loop session cs = Inr (map answer cs)"
  by (induction cs) auto

lemma accept_loop_fault:
  assumes "\<forall>c \<in> set cs. 0 \<le> cn_sock c \<and> cn_thread c = 0 \<and> session (cn_reads c) = Inr (answer c)" "session (cn_reads d) = Inl e"
    "0 \<le> cn_sock d" "cn_thread d = 0"
  shows "accept_loop session (cs @ d # ds) = Inl e"
  using assms by (induction cs) auto

text \<open>A client that breaks off the handshake, or a connection that is reset while it is read, ends the server for everyone.\<close>

lemma handshake_failure_ends_server:
  assumes "\<forall>c \<in> set cs. 0 \<le> cn_sock c \<and> cn_thread c = 0 \<and> https_session files (cn_reads c) = Inr (answer c)"
    and "0 \<le> cn_sock d" "cn_thread d = 0" "fst (cn_reads d) = - 1" "0 < cert" "0 < key"
  shows "listen_https_request cert key 3 0 0 files (cs @ d # ds) = Inl Exited"
  using accept_loop_fault[OF assms(1), of d Exited ds] assms
  by (cases "cn_reads d") (simp add: listen_https_request_def open_listener_def https_session_def)

end
