(* ===== verification/Tcp_Basic.thy ===== *)
theory Tcp_Basic
  imports Tcp_In
begin

text \<open>
  The TCP stack of lab 10 (\<open>10-tcp_stack\<close>), the version before retransmission and congestion control: sending (\<open>tcp_out.c\<close>),
  the timer (\<open>tcp_timer.c\<close>), the calls that differ (\<open>tcp_sock.c\<close>) and the state machine (\<open>tcp_in.c\<close>).  The
  tables, lookup, \<open>bind\<close>, \<open>listen\<close>, \<open>accept\<close> and \<open>read\<close> are the same code as in lab 12 and are
  those of theory \<open>Tcp_Sock\<close>, but for a lock around each table access, which theory \<open>Tcp_Locked\<close> adds.  The members of \<open>struct tcp_sock\<close> that lab 10
  does not have or does not use keep what \<open>memset\<close> put there.
\<close>

section \<open>Sockets and sending\<close>

definition basic_tcp_sock :: tcp_sock where
  "basic_tcp_sock = new_tcp_sock\<lparr>sk_cwnd := 0, sk_frpacks := 0, sk_ssthresh := 0\<rparr>"

definition basic_alloc :: "'b tcp_net_scheme \<Rightarrow> nat \<times> 'b tcp_net_scheme" where
  "basic_alloc s = (next_sock s, put_sock (next_sock s) basic_tcp_sock (s\<lparr>next_sock := next_sock s + 1\<rparr>))"

definition basic_send_packet :: "nat \<Rightarrow> bytes \<Rightarrow> 'b tcp_net_scheme \<Rightarrow> 'b tcp_net_scheme res" where
  "basic_send_packet k packet = with_sock k (\<lambda>t s.
     (case net_random s of (rnd, s1) \<Rightarrow>
        bind_res (tcp_data_packet rnd packet (sk_sip t) (sk_dip t) (sk_sport t) (sk_dport t)
            (sk_snd_nxt t) (sk_rcv_nxt t) (TCP_PSH OR TCP_ACK) (sk_rcv_wnd t))
          (\<lambda>p. let tcp_data_len = length packet - ETHER_HDR_SIZE - IP_BASE_HDR_SIZE - TCP_BASE_HDR_SIZE
               in ip_send_packet p (put_sock k (t\<lparr>sk_snd_nxt := sk_snd_nxt t + of_nat tcp_data_len\<rparr>) s1))))"

definition basic_send_control :: "nat \<Rightarrow> u8 \<Rightarrow> 'b tcp_net_scheme \<Rightarrow> 'b tcp_net_scheme res" where
  "basic_send_control k flags = with_sock k (\<lambda>t s.
     (case net_random s of (rnd, s1) \<Rightarrow>
        bind_res (tcp_control_packet rnd (sk_sip t) (sk_dip t) (sk_sport t) (sk_dport t)
            (sk_snd_nxt t) (sk_rcv_nxt t) flags (sk_rcv_wnd t))
          (\<lambda>p. let t1 = (if has_flag flags (TCP_SYN OR TCP_FIN) then t\<lparr>sk_snd_nxt := sk_snd_nxt t + 1\<rparr> else t)
               in ip_send_packet p (put_sock k t1 s1))))"

section \<open>The timer\<close>

definition BASIC_SCAN_INTERVAL :: int where "BASIC_SCAN_INTERVAL = 100000"

text \<open>No operation of lab 10 sets a retransmission timer; the branch for one is empty.\<close>

fun basic_scan_timer :: "nat \<times> timer_kind \<Rightarrow> 'b tcp_net_scheme \<Rightarrow> 'b tcp_net_scheme res" where
  "basic_scan_timer (k, Timewait) s = with_sock k (\<lambda>t s.
     let tm = sk_timewait t; left = tm_timeout tm - BASIC_SCAN_INTERVAL in
     if \<not> tm_enable tm then Inr s
     else let s1 = put_sock k (t\<lparr>sk_timewait := tm\<lparr>tm_timeout := left\<rparr>\<rparr>) s in
       if left \<le> 0 then timer_close k Timewait s1 else Inr s1) s"
| "basic_scan_timer (k, Retrans) s = with_sock k (\<lambda>t s.
     let tm = sk_retrans t in
     if \<not> tm_enable tm then Inr s
     else Inr (put_sock k (t\<lparr>sk_retrans := tm\<lparr>tm_timeout := tm_timeout tm - BASIC_SCAN_INTERVAL\<rparr>\<rparr>) s)) s"

definition basic_scan_timer_list :: "'b tcp_net_scheme \<Rightarrow> 'b tcp_net_scheme res" where
  "basic_scan_timer_list s = fold_res basic_scan_timer (timer_list s) s"

section \<open>Socket calls\<close>

definition basic_sock_connect :: "nat \<Rightarrow> u32 \<Rightarrow> u16 \<Rightarrow> 'b tcp_net_scheme \<Rightarrow> (int call_result \<times> 'b tcp_net_scheme) res" where
  "basic_sock_connect k ip port s =
    bind_res (upd_sock k (\<lambda>t. t\<lparr>sk_dip := ntohl ip, sk_dport := ntohs port\<rparr>) s) (\<lambda>s.
    case longest_prefix_match (net_rtable s) (ntohl ip) of
      None \<Rightarrow> Inr (Returned (- 1), s)
    | Some m \<Rightarrow>
      bind_res (upd_sock k (\<lambda>t. t\<lparr>sk_sip := if_ip (rt_iface m)\<rparr>) s) (\<lambda>s.
      bind_res (tcp_sock_set_sport k 0 s) (\<lambda>(err, s).
      if err \<noteq> 0 then Inr (Returned (- 1), s)
      else bind_res (tcp_set_state k TCP_SYN_SENT s) (\<lambda>s.
      bind_res (tcp_hash k s) (\<lambda>(err, s).
      if err \<noteq> 0 then Inr (Returned (- 1), s)
      else case tcp_new_iss s of (iss, s) \<Rightarrow>
      bind_res (run_all [upd_sock k (\<lambda>t. t\<lparr>sk_iss := iss, sk_snd_una := iss, sk_snd_nxt := iss\<rparr>),
          basic_send_control k TCP_SYN] s) (\<lambda>s.
      with_sock k (\<lambda>t s. case sleep_begin (sk_wait_connect t) of
          (w, Blocks) \<Rightarrow> Inr (Blocked, put_sock k (t\<lparr>sk_wait_connect := w\<rparr>) s)
        | (w, Returns r) \<Rightarrow> Inr (Returned (if r \<noteq> 0 then - 1 else 0), put_sock k (t\<lparr>sk_wait_connect := w\<rparr>) s)) s))))))"

definition basic_sock_close :: "nat \<Rightarrow> 'b tcp_net_scheme \<Rightarrow> 'b tcp_net_scheme res" where
  "basic_sock_close k = with_sock k (\<lambda>t s. case sk_state t of
       TCP_ESTABLISHED \<Rightarrow> run_all [tcp_set_state k TCP_FIN_WAIT_1, basic_send_control k (TCP_FIN OR TCP_ACK)] s
     | TCP_CLOSE_WAIT \<Rightarrow> run_all [tcp_set_state k TCP_LAST_ACK, basic_send_control k (TCP_FIN OR TCP_ACK)] s
     | _ \<Rightarrow> Inr s)"

text \<open>A window that is smaller than the segment is set to zero before the call sleeps.\<close>

definition basic_write_segment :: "nat \<Rightarrow> bytes \<Rightarrow> 'b tcp_net_scheme \<Rightarrow> (bool \<times> 'b tcp_net_scheme) res" where
  "basic_write_segment k seg = with_sock k (\<lambda>t s.
     if unat (sk_snd_wnd t) < length seg then
       bind_res (sleep_loop (sk_wait_send t)) (\<lambda>w.
         Inr (False, put_sock k (t\<lparr>sk_snd_wnd := 0, sk_wait_send := w\<rparr>) s))
     else let packet = zeros (ETHER_HDR_SIZE + IP_BASE_HDR_SIZE + TCP_BASE_HDR_SIZE) @ seg
          in bind_res (basic_send_packet k packet (put_sock k (t\<lparr>sk_snd_wnd := sk_snd_wnd t - of_nat (length seg)\<rparr>) s))
               (\<lambda>s. Inr (True, s)))"

function (sequential) basic_sock_write :: "nat \<Rightarrow> bytes \<Rightarrow> 'b tcp_net_scheme \<Rightarrow> (bytes \<times> 'b tcp_net_scheme) res" where
  "basic_sock_write k [] s = Inr ([], s)"
| "basic_sock_write k (b # buf) s =
    (let wlen = min (length (b # buf)) TCP_MSS in
     bind_res (basic_write_segment k (take wlen (b # buf)) s) (\<lambda>(sent, s).
       if sent then basic_sock_write k (drop wlen (b # buf)) s else Inr (b # buf, s)))"
  by pat_completeness auto

termination
  by (relation "measure (\<lambda>(_, buf, _). length buf)") (auto simp: TCP_MSS_eq)

section \<open>Receiving\<close>

definition basic_update_window :: "nat \<Rightarrow> tcp_cb \<Rightarrow> 'b tcp_net_scheme \<Rightarrow> 'b tcp_net_scheme res" where
  "basic_update_window k cb = with_sock k (\<lambda>t s.
     if sk_state t = TCP_SYN_RECV \<or> sk_state t = TCP_SYN_SENT then
       Inr (put_sock k (t\<lparr>sk_snd_wnd := cb_rwnd cb, sk_snd_una := cb_ack cb, sk_adv_wnd := ucast (cb_rwnd cb)\<rparr>) s)
     else
       let old_snd_wnd = (ucast (sk_snd_wnd t) :: u16);
           t1 = t\<lparr>sk_snd_wnd := sk_snd_wnd t + (cb_ack cb - sk_snd_una t), sk_snd_una := cb_ack cb,
                  sk_adv_wnd := ucast (cb_rwnd cb)\<rparr>
       in Inr (put_sock k (if old_snd_wnd = 0 then wake_send t1 else t1) s))"

definition basic_update_window_safe :: "nat \<Rightarrow> tcp_cb \<Rightarrow> 'b tcp_net_scheme \<Rightarrow> 'b tcp_net_scheme res" where
  "basic_update_window_safe k cb = with_sock k (\<lambda>t s.
     if less_or_equal_32b (sk_snd_una t) (cb_ack cb) \<and> less_or_equal_32b (cb_ack cb) (sk_snd_nxt t)
     then basic_update_window k cb s else Inr s)"

text \<open>The guard in front of every state; an invalid number is dropped without an answer.\<close>

definition basic_when_valid ::
    "nat \<Rightarrow> tcp_cb \<Rightarrow> ('b tcp_net_scheme \<Rightarrow> 'b tcp_net_scheme res) \<Rightarrow> 'b tcp_net_scheme \<Rightarrow> 'b tcp_net_scheme res" where
  "basic_when_valid k cb body = with_sock k (\<lambda>t s. if seq_in_window t cb then body s else Inr s)"

text \<open>The result of \<open>tcp_sock_recv\<close> is \<open>pl_len\<close>: what is written to the buffer is not checked against \<open>rcv_nxt\<close>.\<close>

definition basic_sock_recv :: "nat \<Rightarrow> tcp_cb \<Rightarrow> 'b tcp_net_scheme \<Rightarrow> 'b tcp_net_scheme res" where
  "basic_sock_recv k cb s =
    (if cb_pl_len cb = 0 then Inr s
     else run_all [deliver k (cb_payload cb) (cb_pl_len cb),
            upd_sock k (\<lambda>t. wake_recv (t\<lparr>sk_rcv_wnd := of_nat (ring_buffer_free (sk_rcv_buf t))\<rparr>))] s)"

definition basic_expect :: "nat \<Rightarrow> tcp_cb \<Rightarrow> 'b tcp_net_scheme \<Rightarrow> 'b tcp_net_scheme res" where
  "basic_expect k cb = upd_sock k (\<lambda>t. t\<lparr>sk_rcv_nxt := cb_seq_end cb\<rparr>)"

definition basic_process_listen :: "nat \<Rightarrow> tcp_cb \<Rightarrow> 'b tcp_net_scheme \<Rightarrow> 'b tcp_net_scheme res" where
  "basic_process_listen k cb s =
    (if cb_flags cb = TCP_SYN then
       (case basic_alloc s of (c, s) \<Rightarrow>
          bind_res (run_all
            [upd_sock c (\<lambda>t. t\<lparr>sk_sip := cb_daddr cb, sk_dip := cb_saddr cb, sk_sport := cb_dport cb,
               sk_dport := cb_sport cb, sk_parent := Some k\<rparr>),
             upd_sock k (\<lambda>t. t\<lparr>sk_listen_queue := sk_listen_queue t @ [c]\<rparr>),
             tcp_set_state c TCP_SYN_RECV,
             \<lambda>s. bind_res (tcp_hash c s) (\<lambda>(err, s). Inr s)] s)
          (\<lambda>s. case tcp_new_iss s of (iss, s) \<Rightarrow> run_all
            [upd_sock c (\<lambda>t. t\<lparr>sk_iss := iss, sk_snd_una := iss, sk_snd_nxt := iss, sk_rcv_nxt := cb_seq_end cb\<rparr>),
             basic_send_control c (TCP_SYN OR TCP_ACK)] s))
     else Inr s)"

text \<open>
  With a full accept queue the child is released right away.  It is still linked in the table, from which it is
  not taken: \<open>free_tcp_sock\<close> gives up the one reference the table has.
\<close>

definition basic_process_syn_recv :: "nat \<Rightarrow> tcp_cb \<Rightarrow> 'b tcp_net_scheme \<Rightarrow> 'b tcp_net_scheme res" where
  "basic_process_syn_recv k cb =
     basic_when_valid k cb (run_all
       [basic_update_window_safe k cb,
        with_sock k (\<lambda>t s. case sk_parent t of
            None \<Rightarrow> Inl NullDeref
          | Some pk \<Rightarrow> with_sock pk (\<lambda>p s.
              if tcp_sock_accept_queue_full p
              then run_all [tcp_set_state k TCP_CLOSED, tcp_send_reset cb,
                upd_sock pk (\<lambda>p. p\<lparr>sk_listen_queue := removeAll k (sk_listen_queue p)\<rparr>), free_tcp_sock k] s
              else run_all [tcp_set_state k TCP_ESTABLISHED, tcp_sock_accept_enqueue k,
                upd_sock pk (\<lambda>p. p\<lparr>sk_wait_accept := fst (wake_up (sk_wait_accept p))\<rparr>)] s) s)])"

definition basic_established :: "nat \<Rightarrow> tcp_cb \<Rightarrow> 'b tcp_net_scheme \<Rightarrow> 'b tcp_net_scheme res" where
  "basic_established k cb =
    (let fin = has_flag (cb_flags cb) TCP_FIN; counts = cb_pl_len cb \<noteq> 0 \<or> fin in
     run_all ([basic_sock_recv k cb] @ (if counts then [basic_expect k cb] else []) @ [basic_update_window_safe k cb] @
       (if fin then [tcp_set_state k TCP_CLOSE_WAIT, upd_sock k wake_recv] else []) @
       (if counts then [basic_send_control k TCP_ACK] else [])))"

definition basic_data :: "nat \<Rightarrow> tcp_cb \<Rightarrow> ('b tcp_net_scheme \<Rightarrow> 'b tcp_net_scheme res) list \<Rightarrow> 'b tcp_net_scheme \<Rightarrow> 'b tcp_net_scheme res" where
  "basic_data k cb actions =
    (let counts = cb_pl_len cb \<noteq> 0 in
     run_all ([basic_sock_recv k cb] @ (if counts then [basic_expect k cb] else []) @ [basic_update_window_safe k cb] @ actions @
       (if counts then [basic_send_control k TCP_ACK] else [])))"

definition basic_fin :: "nat \<Rightarrow> tcp_cb \<Rightarrow> 'b tcp_net_scheme \<Rightarrow> 'b tcp_net_scheme res" where
  "basic_fin k cb = run_all [basic_expect k cb, tcp_set_state k TCP_TIME_WAIT, basic_send_control k TCP_ACK, tcp_set_timewait_timer k]"

definition basic_process :: "nat option \<Rightarrow> tcp_cb \<Rightarrow> 'b tcp_net_scheme \<Rightarrow> 'b tcp_net_scheme res" where
  "basic_process tsk cb s = (case tsk of
     None \<Rightarrow> tcp_send_reset cb s
   | Some k \<Rightarrow> with_sock k (\<lambda>t s.
       let ack = has_flag (cb_flags cb) TCP_ACK; fin = has_flag (cb_flags cb) TCP_FIN in
       if cb_flags cb = TCP_RST OR TCP_ACK then
         run_all [tcp_set_state k TCP_CLOSED, tcp_unhash k, tcp_bind_unhash k] s
       else (case sk_state t of
         TCP_LISTEN \<Rightarrow> basic_process_listen k cb s
       | TCP_SYN_SENT \<Rightarrow>
           if cb_flags cb = TCP_SYN OR TCP_ACK then
             run_all [basic_expect k cb, basic_update_window_safe k cb, tcp_set_state k TCP_ESTABLISHED,
               basic_send_control k TCP_ACK, upd_sock k (\<lambda>t. t\<lparr>sk_wait_connect := fst (wake_up (sk_wait_connect t))\<rparr>)] s
           else Inr s
       | TCP_SYN_RECV \<Rightarrow> if cb_flags cb = TCP_ACK then basic_process_syn_recv k cb s else Inr s
       | TCP_ESTABLISHED \<Rightarrow> basic_when_valid k cb (\<lambda>s. if ack then basic_established k cb s else Inr s) s
       | TCP_FIN_WAIT_1 \<Rightarrow> basic_when_valid k cb (run_all
           [if ack then basic_data k cb [tcp_set_state k TCP_FIN_WAIT_2] else Inr, if fin \<and> ack then basic_fin k cb else Inr]) s
       | TCP_FIN_WAIT_2 \<Rightarrow> basic_when_valid k cb (run_all
           [if ack then basic_data k cb [] else Inr, if fin then basic_fin k cb else Inr]) s
       | TCP_LAST_ACK \<Rightarrow> basic_when_valid k cb (\<lambda>s. if ack
           then run_all [basic_update_window_safe k cb, tcp_set_state k TCP_CLOSED, tcp_unhash k, tcp_bind_unhash k] s else Inr s) s
       | TCP_CLOSE_WAIT \<Rightarrow> basic_when_valid k cb (\<lambda>s. if ack then basic_update_window_safe k cb s else Inr s) s
       | _ \<Rightarrow> Inr s)) s)"

definition basic_handle_tcp_packet :: "bytes \<Rightarrow> 'b tcp_net_scheme \<Rightarrow> 'b tcp_net_scheme res" where
  "basic_handle_tcp_packet packet s =
    (let t = packet_to_tcp_hdr packet in
     if \<not> has_ip_hdr packet then Inl OutOfBounds
     else bind_res (tcp_checksum packet t) (\<lambda>c.
       if c \<noteq> th_checksum packet t then Inr s
       else let cb = tcp_cb_init packet t in
         bind_res (tcp_sock_lookup cb s) (\<lambda>tsk. basic_process tsk cb s)))"

definition basic_handle_ip_packet :: "ip_iface \<Rightarrow> bytes \<Rightarrow> 'b tcp_net_scheme \<Rightarrow> 'b tcp_net_scheme res" where
  "basic_handle_ip_packet iface packet s =
    (if \<not> has_ip_hdr packet then Inl OutOfBounds
     else if ntohl (iph_daddr packet) = if_ip iface then
       (if iph_protocol packet = IPPROTO_ICMP then
          (if length packet \<le> IP_DATA packet then Inl OutOfBounds
           else if ld8 packet (IP_DATA packet) = ICMP_ECHOREQUEST then icmp_send_packet packet ICMP_ECHOREPLY 0 s
           else Inr s)
        else if iph_protocol packet = IPPROTO_TCP then basic_handle_tcp_packet packet s
        else Inr s)
     else Inr s)"

definition basic_handle_packet :: "ip_iface \<Rightarrow> bytes \<Rightarrow> 'b tcp_net_scheme \<Rightarrow> 'b tcp_net_scheme res" where
  "basic_handle_packet iface packet s =
    (if length packet < ETHER_HDR_SIZE then Inl OutOfBounds
     else if ntohs (ether_type packet) = ETH_P_IP then basic_handle_ip_packet iface packet s
     else if ntohs (ether_type packet) = ETH_P_ARP then handle_arp_packet iface packet s
     else Inr s)"

definition basic_ustack_run :: "ip_iface list \<Rightarrow> poll_event list \<Rightarrow> 'b tcp_net_scheme \<Rightarrow> 'b tcp_net_scheme res" where
  "basic_ustack_run = ustack_run_unchecked basic_handle_packet"

end
