(* ===== verification/Tcp_Conn.thy ===== *)
theory Tcp_Conn
  imports Tcp_Refs
begin

text \<open>
  Opening a connection: \<open>tcp_sock_connect\<close> on one host, a listening socket on the other, and the frames between
  them, from the socket calls down to the bytes (\<open>tcp_sock.c\<close>, \<open>tcp_in.c\<close>, \<open>tcp_out.c\<close>, \<open>ip_base.c\<close>).  \<open>resolved\<close>: the
  next hop to an address has a route and an ARP entry; \<open>net_step\<close>: what a step sends and that it leaves
  the network layer as it was.
\<close>

section \<open>Frames on the wire\<close>

definition ip_frame :: "ip_iface \<Rightarrow> bytes \<Rightarrow> bytes \<Rightarrow> bytes" where
  "ip_frame iface dmac p = blit (st16 (blit p 6 (if_mac iface)) 12 (htons ETH_P_IP)) 0 dmac"

text \<open>The next hop to \<open>ip\<close> is known: an interface and a hardware address.\<close>

definition resolved :: "'a net_scheme \<Rightarrow> u32 \<Rightarrow> ip_iface \<Rightarrow> bytes \<Rightarrow> bool" where
  "resolved s ip iface dmac \<longleftrightarrow> (\<exists>m. longest_prefix_match (net_rtable s) ip = Some m \<and> rt_iface m = iface
     \<and> arpcache_lookup (arp_entries s) (next_hop m ip) = Some dmac) \<and> length dmac = 6 \<and> length (if_mac iface) = 6"

text \<open>The network layer below TCP after sending the frames \<open>fs\<close>.\<close>

definition net_step :: "(ip_iface \<times> bytes) list \<Rightarrow> 'a net_scheme \<Rightarrow> 'a net_scheme \<Rightarrow> bool" where
  "net_step fs s s' \<longleftrightarrow> net_rtable s' = net_rtable s \<and> arp_entries s' = arp_entries s \<and> net_ifaces s' = net_ifaces s
     \<and> net_sent s' = net_sent s @ fs"

lemma net_step_trans: "net_step fs s t \<Longrightarrow> net_step gs t u \<Longrightarrow> net_step (fs @ gs) s u"
  by (simp add: net_step_def)

lemma net_step_resolved: "net_step fs s s' \<Longrightarrow> resolved s' = resolved s"
  by (auto simp: net_step_def resolved_def fun_eq_iff)

lemma net_step_put [simp]: "net_step [] s (put_sock k t s)" "net_step [] s (snd (net_random s))" "net_step [] s s"
  by (simp_all add: net_step_def put_sock_def net_random_def)

lemma ip_send_resolved:
  assumes "tcp_segment f p" "resolved s (tf_daddr f) iface dmac"
  shows "\<exists>s'. ip_send_packet p s = Inr s' \<and> net_step [(iface, ip_frame iface dmac p)] s s'"
proof -
  have "54 \<le> length p" "ntohl (iph_daddr p) = tf_daddr f" using assms(1) by (auto simp: tcp_segment_def has_fields_def)
  with assms(2) show ?thesis
    by (auto simp: ip_send_packet_def has_ip_hdr_def ip_consts resolved_def iface_send_packet_by_arp_def
        net_iface_send_packet_def net_step_def ip_frame_def)
qed

lemma ip_frame_bytes:
  assumes "length dmac = 6" "length (if_mac iface) = 6" "54 \<le> length p"
  shows "length (ip_frame iface dmac p) = length p" "14 \<le> i \<Longrightarrow> i < length p \<Longrightarrow> ip_frame iface dmac p ! i = p ! i"
    "ether_type (ip_frame iface dmac p) = htons ETH_P_IP"
proof -
  define q where "q = st16 (blit p 6 (if_mac iface)) 12 (htons ETH_P_IP)"
  have q: "length q = length p" "ld16 q 12 = htons ETH_P_IP" using assms by (simp_all add: q_def bytes_simps)
  have f: "ip_frame iface dmac p = blit q 0 dmac" by (simp add: ip_frame_def q_def)
  show "length (ip_frame iface dmac p) = length p" using q assms by (simp add: f)
  show "ether_type (ip_frame iface dmac p) = htons ETH_P_IP"
    using q assms by (simp add: f ether_type_def bytes_simps)
  show "ip_frame iface dmac p ! i = p ! i" if "14 \<le> i" "i < length p"
    using that q(1) assms by (simp add: f nth_blit) (simp add: q_def nth_blit st16_def nth_list_update)
qed

lemma segment_of_tail:
  assumes "tcp_segment f p" "length q = length p" "\<And>i. 14 \<le> i \<Longrightarrow> i < length p \<Longrightarrow> q ! i = p ! i"
    "length (tf_data f) \<le> 65495"
  shows "tcp_segment f q"
proof -
  have f: "has_fields f p" "ip_hdr_valid p" "tcp_checksum p 34 = Inr (th_checksum p 34)" "54 \<le> length p"
    using assms(1) by (auto simp: tcp_segment_def has_fields_def)
  have iph: "iph_ihl q = iph_ihl p" "iph_tot_len q = iph_tot_len p" "iph_protocol q = iph_protocol p"
    "iph_saddr q = iph_saddr p" "iph_daddr q = iph_daddr p"
    using f(4) assms(3) by (simp_all add: iph_defs ld8_def ld16_def ld32_def)
  have th: "th_sport q 34 = th_sport p 34" "th_dport q 34 = th_dport p 34" "th_seq q 34 = th_seq p 34"
    "th_ack q 34 = th_ack p 34" "th_off q 34 = th_off p 34" "th_flags q 34 = th_flags p 34"
    "th_rwnd q 34 = th_rwnd p 34" "th_checksum q 34 = th_checksum p 34"
    using f(4) assms(3) by (simp_all add: th_defs ld8_def ld16_def ld32_def)
  have "drop 54 q = drop 54 p" by (rule nth_equalityI) (use assms(2,3) in auto)
  then have hf: "has_fields f q" using f(1) iph th assms(2) by (simp add: has_fields_def)
  have ihl: "iph_ihl p = 5" using f(1) by (simp add: has_fields_def)
  have sl: "slice q 14 n = slice p 14 n" "slice (st16 q 50 0) 34 n = slice (st16 p 50 0) 34 n" for n
    by (rule slice_cong_bytes; use assms(2,3) f(4) in \<open>auto simp: st16_def nth_list_update\<close>)+
  have "ip_hdr_valid q" using f(2,4) assms(2) iph ihl sl
    by (simp add: ip_hdr_valid_def has_ip_hdr_def IP_DATA_def IP_HDR_SIZE_def ip_consts)
  moreover have "tcp_checksum q 34 = tcp_checksum p 34"
    using iph sl assms(2) by (simp add: tcp_checksum_def IP_HDR_SIZE_def Let_def)
  ultimately show ?thesis using f(3) th hf by (simp add: tcp_segment_def)
qed

text \<open>What the other host makes of a frame.\<close>

lemma receive_frame:
  assumes seg: "tcp_segment f p" and dmac: "length dmac = 6" "length (if_mac iface) = 6"
    and data: "length (tf_data f) \<le> 65495" and dst: "if_ip there = tf_daddr f"
  shows "host_handle_packet there (ip_frame iface dmac p) s =
    bind_res (tcp_sock_lookup (cb_of_fields f) s) (\<lambda>tsk. tcp_process tsk (cb_of_fields f) s)"
proof -
  let ?q = "ip_frame iface dmac p"
  have len: "54 \<le> length p" using seg by (simp add: tcp_segment_def has_fields_def)
  note b = ip_frame_bytes[OF dmac len]
  have q: "tcp_segment f ?q" by (rule segment_of_tail[OF seg b(1,2) data])
  then have h: "ntohl (iph_daddr ?q) = if_ip there" "iph_protocol ?q = IPPROTO_TCP" "packet_to_tcp_hdr ?q = 34"
    "tcp_checksum ?q 34 = Inr (th_checksum ?q 34)" "has_ip_hdr ?q"
    using dst by (auto simp: tcp_segment_def has_fields_def packet_to_tcp_hdr_def IP_HDR_SIZE_def ip_consts ip_hdr_valid_def)
  have "host_handle_packet there ?q s = handle_tcp_packet ?q s"
    using len b h by (simp add: host_handle_packet_def host_handle_ip_packet_def ip_consts)
  also have "\<dots> = bind_res (tcp_sock_lookup (cb_of_fields f) s) (\<lambda>tsk. tcp_process tsk (cb_of_fields f) s)"
    using h tcp_segment_cb[OF q data] by (simp add: handle_tcp_packet_def Let_def)
  finally show ?thesis .
qed

lemma control_frame:
  assumes t: "socks s k = Some t" and r: "resolved s (sk_dip t) iface dmac"
  shows "\<exists>p s'. tcp_segment (control_fields_of t flags) p \<and> tcp_send_control_packet k flags s = Inr s' \<and>
    sock_step k (control_sent flags p t) s s' \<and> net_step [(iface, ip_frame iface dmac p)] s s'"
proof -
  obtain p where p: "tcp_segment (control_fields_of t flags) p"
    "tcp_control_packet (fst (net_random s)) (sk_sip t) (sk_dip t) (sk_sport t) (sk_dport t)
      (sk_snd_nxt t) (sk_rcv_nxt t) flags (sk_rcv_wnd t) = Inr p"
    using tcp_control_packet_segment unfolding control_fields_of_def by blast
  let ?s = "put_sock k (control_sent flags p t) (snd (net_random s))"
  have eq: "tcp_send_control_packet k flags s = ip_send_packet p ?s"
    using t p(2) by (cases "net_random s") (simp add: tcp_send_control_packet_def with_sock_def control_sent_def Let_def)
  have n: "net_step [] s ?s" by (simp add: net_step_def put_sock_def net_random_def)
  have "resolved ?s (tf_daddr (control_fields_of t flags)) iface dmac"
    using r net_step_resolved[OF n] by (simp add: control_fields_of_def)
  from ip_send_resolved[OF p(1) this] obtain s2 where 2: "ip_send_packet p ?s = Inr s2"
    "net_step [(iface, ip_frame iface dmac p)] ?s s2" by blast
  have "sock_step k (control_sent flags p t) s s2"
    using sock_step_same[OF sock_step_put[OF same_tcp_random] ip_send_same[OF 2(1)]] .
  moreover have "net_step [(iface, ip_frame iface dmac p)] s s2" using net_step_trans[OF n 2(2)] by simp
  ultimately show ?thesis using p(1) eq 2(1) by auto
qed

section \<open>The window check\<close>

lemma sint_small_diff:
  assumes "n < 2147483648"
  shows "sint (of_nat n :: u32) = int n" "sint (- of_nat n :: u32) = - int n"
proof -
  have "(of_nat n :: u32) = of_int (int n)" by simp
  with assms show "sint (of_nat n :: u32) = int n"
    by (simp only: signed_of_int) (simp add: signed_take_bit_int_eq_self)
  have "(- of_nat n :: u32) = of_int (- int n)" by simp
  with assms show "sint (- of_nat n :: u32) = - int n"
    by (simp only: signed_of_int) (simp add: signed_take_bit_int_eq_self)
qed

text \<open>A segment that starts with the next number is in the window, whatever its length.\<close>

lemma next_seq_in_window:
  assumes "cb_seq cb = sk_rcv_nxt t" "cb_seq_end cb = sk_rcv_nxt t + of_nat n" "n < 2147483648"
  shows "seq_in_window t cb" "less_or_equal_32b (cb_seq_end cb) (sk_rcv_nxt t) \<longleftrightarrow> n = 0"
proof -
  define w where "w = nat (max (int (unat (sk_rcv_wnd t))) 1)"
  have w: "0 < w" "w < 65536" "max (int (unat (sk_rcv_wnd t))) 1 = int w"
    using unat_u16_less[of "sk_rcv_wnd t"] by (auto simp: w_def max_def)
  show "seq_in_window t cb" unfolding seq_in_window_def Let_def w(3) of_int_of_nat_eq
    using w(1,2) assms(3) by (simp add: assms(1,2) less_than_32b_def less_or_equal_32b_def sint_small_diff)
  show "less_or_equal_32b (cb_seq_end cb) (sk_rcv_nxt t) \<longleftrightarrow> n = 0"
    using assms(3) by (simp add: assms(2) less_or_equal_32b_def sint_small_diff)
qed

section \<open>Opening a connection\<close>

lemma find_sock_cong:
  "(\<And>j. j \<in> set ks \<Longrightarrow> socks s' j = socks s j) \<Longrightarrow> find_sock P ks s' = find_sock P ks s"
  by (induction ks) (auto simp: with_sock_def split: option.split)

lemma find_sock_put: "k \<notin> set ks \<Longrightarrow> find_sock P ks (put_sock k t s) = find_sock P ks s"
  by (rule find_sock_cong) (auto simp: put_sock_def)

definition handshaking :: "tcp_sock \<Rightarrow> bool" where
  "handshaking t \<longleftrightarrow> (\<exists>sp. sk_send_buf t = [sp] \<and> sp_seq_end sp = sk_snd_nxt t) \<and> sk_snd_nxt t = sk_snd_una t + 1
     \<and> sk_recovery_point t = 0 \<and> tm_enable (sk_retrans t) \<and> 2 \<le> sk_ref_cnt t"

text \<open>The first acknowledgement opens the window, empties the send buffer and stops the timer.\<close>

definition window_opened :: "tcp_cb \<Rightarrow> tcp_sock \<Rightarrow> tcp_sock" where
  "window_opened cb t = t\<lparr>sk_snd_una := cb_ack cb, sk_adv_wnd := ucast (cb_rwnd cb), sk_cwnd := sk_cwnd t + 1,
     sk_snd_wnd := send_window (ucast (cb_rwnd cb)) (sk_cwnd t + 1)\<rparr>"

lemma window_opens:
  assumes "socks s k = Some t" "sk_state t = TCP_SYN_SENT \<or> sk_state t = TCP_SYN_RECV" "handshaking t" "cb_ack cb = sk_snd_nxt t"
  shows "tcp_update_window_safe k cb s = Inr (put_sock k (window_opened cb t) s)"
proof -
  have "less_or_equal_32b (sk_snd_una t) (cb_ack cb)" "less_or_equal_32b (cb_ack cb) (sk_snd_nxt t)"
    using assms(3,4) by (auto simp: handshaking_def less_or_equal_32b_def)
  with assms show ?thesis
    by (auto simp: tcp_update_window_safe_def tcp_update_window_def with_sock_def Let_def window_opened_def)
qed

definition all_acked :: "tcp_sock \<Rightarrow> tcp_sock" where
  "all_acked t = t\<lparr>sk_send_buf := [], sk_retrans := (sk_retrans t)\<lparr>tm_enable := False\<rparr>, sk_ref_cnt := sk_ref_cnt t - 1\<rparr>"

lemma ack_completes:
  assumes "socks s k = Some t" "sk_send_buf t = [sp]" "sp_seq_end sp = cb_ack cb" "sk_recovery_point t = 0"
    and "tm_enable (sk_retrans t)" "2 \<le> sk_ref_cnt t" "(k, Retrans) \<in> set (timer_list s)"
  shows "tcp_ack_send_buf k cb s = Inr (put_sock k (all_acked t) (s\<lparr>timer_list := removeAll (k, Retrans) (timer_list s)\<rparr>))"
  using assms
  by (simp add: tcp_ack_send_buf_def with_sock_def unacked_def greater_or_equal_32b_def fast_recovery_def put_sock_def
      tcp_unset_retrans_timer_def free_tcp_sock_def all_acked_def Let_def)

lemma set_retrans_first:
  assumes "socks s k = Some t" "\<not> tm_enable (sk_retrans t)"
  shows "tcp_set_retrans_timer k m s = Inr (put_sock k (t\<lparr>sk_retrans := \<lparr>tm_type = 1, tm_timeout = TCP_RETRANS_INTERVAL_INITIAL,
      tm_enable = True\<rparr>, sk_ref_cnt := sk_ref_cnt t + 1\<rparr>) (s\<lparr>timer_list := timer_list s @ [(k, Retrans)]\<rparr>))"
  using assms by (simp add: tcp_set_retrans_timer_def with_sock_def)

text \<open>Choosing the sequence number, sending the SYN and starting the timer: the end of either way to open.\<close>

definition syn_sent :: "u32 \<Rightarrow> u8 \<Rightarrow> bytes \<Rightarrow> tcp_sock \<Rightarrow> tcp_sock" where
  "syn_sent iss flags p t = t\<lparr>sk_iss := iss, sk_snd_una := iss, sk_snd_nxt := iss + 1,
     sk_send_buf := [\<lparr>sp_packet = p, sp_seq_end = iss + 1\<rparr>],
     sk_retrans := \<lparr>tm_type = 1, tm_timeout = TCP_RETRANS_INTERVAL_INITIAL, tm_enable = True\<rparr>,
     sk_ref_cnt := sk_ref_cnt t + 1\<rparr>"

lemma syn_goes_out:
  assumes t: "socks s k = Some t" and f: "\<And>t. sk_dip (f t) = sk_dip t" "f t = t\<lparr>sk_iss := iss, sk_snd_una := iss, sk_snd_nxt := iss, sk_rcv_nxt := r\<rparr>"
    and fresh: "sk_send_buf t = []" "\<not> tm_enable (sk_retrans t)" and fl: "has_flag flags (TCP_SYN OR TCP_FIN)"
    and r: "resolved s (sk_dip t) iface dmac"
  shows "\<exists>p s'. run_all [upd_sock k f, tcp_send_control_packet k flags, tcp_set_retrans_timer k 1] s = Inr s' \<and>
    tcp_segment (control_fields_of (f t) flags) p \<and> net_step [(iface, ip_frame iface dmac p)] s s' \<and>
    socks s' = (socks s)(k \<mapsto> (syn_sent iss flags p t)\<lparr>sk_rcv_nxt := r\<rparr>) \<and> timer_list s' = timer_list s @ [(k, Retrans)] \<and>
    established_table s' = established_table s \<and> listen_table s' = listen_table s \<and> bind_table s' = bind_table s \<and>
    next_sock s' = next_sock s"
proof -
  let ?s = "put_sock k (f t) s"
  have k: "socks ?s k = Some (f t)" by (simp add: put_sock_def)
  have n0: "net_step [] s ?s" by simp
  have "resolved ?s (sk_dip (f t)) iface dmac" using r f(1) net_step_resolved[OF n0] by simp
  from control_frame[OF k this, of flags] obtain p s1 where 1: "tcp_segment (control_fields_of (f t) flags) p"
    "tcp_send_control_packet k flags ?s = Inr s1" "sock_step k (control_sent flags p (f t)) ?s s1"
    "net_step [(iface, ip_frame iface dmac p)] ?s s1" by blast
  have s1: "socks s1 k = Some (control_sent flags p (f t))" using sock_step_socks[OF 1(3)] .
  have e: "\<not> tm_enable (sk_retrans (control_sent flags p (f t)))" using fresh f(2) by (simp add: control_sent_def)
  let ?u = "(control_sent flags p (f t))\<lparr>sk_retrans := \<lparr>tm_type = 1, tm_timeout = TCP_RETRANS_INTERVAL_INITIAL,
      tm_enable = True\<rparr>, sk_ref_cnt := sk_ref_cnt (control_sent flags p (f t)) + 1\<rparr>"
  let ?s2 = "put_sock k ?u (s1\<lparr>timer_list := timer_list s1 @ [(k, Retrans)]\<rparr>)"
  have "run_all [upd_sock k f, tcp_send_control_packet k flags, tcp_set_retrans_timer k 1] s = Inr ?s2"
    using t 1(2) set_retrans_first[OF s1 e, of 1] by (simp add: upd_sock_def with_sock_def del: One_nat_def)
  moreover have "?u = (syn_sent iss flags p t)\<lparr>sk_rcv_nxt := r\<rparr>"
    using fl fresh f(2) by (simp add: control_sent_def syn_sent_def)
  moreover have "socks ?s2 = (socks s)(k \<mapsto> ?u)" "timer_list ?s2 = timer_list s @ [(k, Retrans)]"
    "established_table ?s2 = established_table s" "listen_table ?s2 = listen_table s" "bind_table ?s2 = bind_table s"
    "next_sock ?s2 = next_sock s"
    using 1(3) by (auto simp: sock_step_def put_sock_def)
  moreover have "net_step [(iface, ip_frame iface dmac p)] s ?s2"
    using net_step_trans[OF n0 1(4)] by (simp add: net_step_def put_sock_def)
  ultimately show ?thesis using 1(1) by (intro exI[of _ p] exI[of _ ?s2]) simp
qed

text \<open>The client: \<open>tcp_sock_connect\<close> on a new socket.\<close>

definition hashed_sock :: "tcp_sock \<Rightarrow> tcp_state \<Rightarrow> u32 \<Rightarrow> u32 \<Rightarrow> u16 \<Rightarrow> u16 \<Rightarrow> tcp_sock" where
  "hashed_sock t st sip dip sport dport = t\<lparr>sk_sip := sip, sk_dip := dip, sk_sport := sport, sk_dport := dport,
     sk_state := st, sk_hash_node := NodeLinked, sk_ref_cnt := sk_ref_cnt t + 1\<rparr>"

lemma find_established:
  assumes "tcp_sock_lookup_established sip dip sport dport s = Inr None" "k \<notin> set (established_table s (tcp_hash_function sip dip sport dport))"
    and "\<And>j. j \<noteq> k \<Longrightarrow> socks s' j = socks s j"
  shows "find_sock (\<lambda>tmp. sip = sk_sip tmp \<and> dip = sk_dip tmp \<and> sport = sk_sport tmp \<and> dport = sk_dport tmp)
      (established_table s (tcp_hash_function sip dip sport dport)) s' = Inr None"
proof -
  have "(\<lambda>tmp :: tcp_sock. sip = sk_sip tmp \<and> dip = sk_dip tmp \<and> sport = sk_sport tmp \<and> dport = sk_dport tmp)
    = (\<lambda>t. sk_sip t = sip \<and> sk_sport t = sport \<and> sk_dip t = dip \<and> sk_dport t = dport)" by (auto simp: fun_eq_iff)
  moreover have "find_sock P (established_table s (tcp_hash_function sip dip sport dport)) s'
    = find_sock P (established_table s (tcp_hash_function sip dip sport dport)) s" for P
    by (rule find_sock_cong) (metis assms(2,3))
  ultimately show ?thesis using assms(1) unfolding tcp_sock_lookup_established_def by (simp only:)
qed

lemma unlinked_not_in:
  assumes "tcp_wf s" "socks s k = None \<or> (\<exists>t. socks s k = Some t \<and> sk_hash_node t \<noteq> NodeLinked \<and> sk_bind_node t \<noteq> NodeLinked)"
  shows "k \<notin> set (established_table s h)" "k \<notin> set (listen_table s h)" "k \<notin> set (bind_table s h)"
  using assms tcp_wf_dead[OF assms(1), of k] tcp_wfD[OF assms(1), of k]
  by (auto simp: holders_0 hashed_def in_table_def sock_wf_def)

lemma get_port_cong:
  assumes "bind_table s' = bind_table s" "\<And>h j. j \<in> set (bind_table s h) \<Longrightarrow> socks s' j = socks s j"
  shows "tcp_get_port s' = tcp_get_port s"
proof -
  have "tcp_port_in_use p s' = tcp_port_in_use p s" for p
    using find_sock_cong[of "bind_table s (tcp_hash_function 0 0 p 0)" s' s] assms by (simp add: tcp_port_in_use_def)
  then have "get_port_loop ps s' = get_port_loop ps s" for ps by (induction ps) (simp_all cong: if_cong)
  then show ?thesis by (simp add: tcp_get_port_def)
qed

definition bound_sock :: "tcp_sock \<Rightarrow> tcp_sock" where
  "bound_sock t = t\<lparr>sk_bind_node := NodeLinked, sk_ref_cnt := sk_ref_cnt t + 1\<rparr>"

definition bound_to :: "nat \<Rightarrow> u16 \<Rightarrow> u8 \<Rightarrow> tcp_sock \<Rightarrow> 'b tcp_net_scheme \<Rightarrow> 'b tcp_net_scheme" where
  "bound_to k sport h t s = put_sock k t (s\<lparr>bind_table := (bind_table s)(tcp_hash_function 0 0 sport 0 := k # bind_table s (tcp_hash_function 0 0 sport 0)),
     established_table := (established_table s)(h := k # established_table s h)\<rparr>)"

text \<open>Up to the choice of a sequence number: addresses, port, state and tables.\<close>

lemma connect_prepares:
  assumes wf: "tcp_wf s" and t: "socks s k = Some new_tcp_sock" and m: "longest_prefix_match (net_rtable s) dip = Some m"
    and port: "tcp_get_port s = Inr sport" "sport \<noteq> 0" and free: "tcp_sock_lookup_established (if_ip (rt_iface m)) dip sport dport s = Inr None"
  defines "h \<equiv> tcp_hash_function (if_ip (rt_iface m)) dip sport dport"
    and "t5 \<equiv> bound_sock (hashed_sock new_tcp_sock TCP_SYN_SENT (if_ip (rt_iface m)) dip sport dport)"
  shows "tcp_sock_connect k (htonl dip) (htons dport) s = (case tcp_new_iss (bound_to k sport h t5 s) of (iss, s) \<Rightarrow>
      bind_res (run_all [upd_sock k (\<lambda>t. t\<lparr>sk_iss := iss, sk_snd_una := iss, sk_snd_nxt := iss\<rparr>),
          tcp_send_control_packet k TCP_SYN, tcp_set_retrans_timer k 1] s) (\<lambda>s.
      with_sock k (\<lambda>t s. case sleep_begin (sk_wait_connect t) of
          (w, Blocks) \<Rightarrow> Inr (Blocked, put_sock k (t\<lparr>sk_wait_connect := w\<rparr>) s)
        | (w, Returns r) \<Rightarrow> Inr (Returned (if r \<noteq> 0 then - 1 else 0), put_sock k (t\<lparr>sk_wait_connect := w\<rparr>) s)) s))"
proof -
  define sip where "sip = if_ip (rt_iface m)"
  define hb where "hb = tcp_hash_function 0 0 sport 0"
  have un: "k \<notin> set (established_table s j)" "k \<notin> set (bind_table s j)" for j
    using unlinked_not_in[OF wf, of k] t by (auto simp: new_tcp_sock_def)
  define t1 where "t1 = new_tcp_sock\<lparr>sk_dip := dip, sk_dport := dport\<rparr>"
  define t2 where "t2 = t1\<lparr>sk_sip := sip\<rparr>"
  define t3 where "t3 = t2\<lparr>sk_sport := sport, sk_bind_node := NodeLinked, sk_ref_cnt := 1\<rparr>"
  define b where "b = s\<lparr>bind_table := (bind_table s)(hb := k # bind_table s hb)\<rparr>"
  let ?s1 = "put_sock k t1 s" and ?s2 = "put_sock k t2 s" and ?s3 = "put_sock k t3 b" and ?s4 = "put_sock k (t3\<lparr>sk_state := TCP_SYN_SENT\<rparr>) b"
  note td = t1_def t2_def t3_def t5_def sip_def b_def bound_sock_def hashed_sock_def new_tcp_sock_def
  have 1: "upd_sock k (\<lambda>t. t\<lparr>sk_dip := ntohl (htonl dip), sk_dport := ntohs (htons dport)\<rparr>) s = Inr ?s1"
    using t by (simp add: upd_sock_def with_sock_def t1_def)
  have rt: "longest_prefix_match (net_rtable ?s1) (ntohl (htonl dip)) = Some m" using m by (simp add: put_sock_def)
  have 2: "upd_sock k (\<lambda>t. t\<lparr>sk_sip := sip\<rparr>) ?s1 = Inr ?s2"
    by (simp add: upd_sock_def with_sock_def put_sock_def t2_def)
  have "tcp_get_port ?s2 = tcp_get_port s" by (rule get_port_cong) (use un in \<open>auto simp: put_sock_def\<close>)
  then have 3: "tcp_sock_set_sport k 0 ?s2 = Inr (0, ?s3)"
    using port by (simp add: tcp_sock_set_sport_def upd_sock_def with_sock_def put_sock_def tcp_bind_hash_def td hb_def Let_def)
  have 4: "tcp_set_state k TCP_SYN_SENT ?s3 = Inr ?s4"
    by (simp add: tcp_set_state_def upd_sock_def with_sock_def put_sock_def)
  have f: "find_sock (\<lambda>tmp. sip = sk_sip tmp \<and> dip = sk_dip tmp \<and> sport = sk_sport tmp \<and> dport = sk_dport tmp)
      (established_table s h) ?s4 = Inr None"
    unfolding h_def sip_def[symmetric] by (rule find_established[OF _ un(1)]) (use free in \<open>simp_all add: sip_def put_sock_def b_def\<close>)
  have 5: "tcp_hash k ?s4 = Inr (0, bound_to k sport h t5 s)"
  proof -
    have "sk_state (t3\<lparr>sk_state := TCP_SYN_SENT\<rparr>) = TCP_SYN_SENT" "established_table ?s4 = established_table s"
      "sk_sip t3 = sip" "sk_dip t3 = dip" "sk_sport t3 = sport" "sk_dport t3 = dport" "sk_hash_node t3 = NodeUnset" by (simp_all add: put_sock_def td)
    then have "tcp_hash k ?s4 = Inr (0, put_sock k (t3\<lparr>sk_state := TCP_SYN_SENT, sk_hash_node := NodeLinked, sk_ref_cnt := sk_ref_cnt t3 + 1\<rparr>)
        (?s4\<lparr>established_table := (established_table s)(h := k # established_table s h)\<rparr>))"
      using f by (simp add: tcp_hash_def with_sock_def put_sock_def Let_def h_def sip_def[symmetric])
    also have "\<dots> = Inr (0, bound_to k sport h t5 s)" by (simp add: bound_to_def put_sock_def hb_def[symmetric] td)
    finally show ?thesis .
  qed
  show ?thesis
    unfolding tcp_sock_connect_def
    by (simp only: 1 rt bind_res_simps option.case 2[unfolded sip_def] 3 4 5 case_prod_conv simp_thms if_False if_True)
qed

lemma connect_sends_syn:
  assumes wf: "tcp_wf s" and t: "socks s k = Some new_tcp_sock"
    and m: "longest_prefix_match (net_rtable s) dip = Some m"
    and port: "tcp_get_port s = Inr sport" "sport \<noteq> 0"
    and free: "tcp_sock_lookup_established (if_ip (rt_iface m)) dip sport dport s = Inr None"
    and r: "resolved s dip iface dmac"
  shows "\<exists>iss p s' t'. tcp_sock_connect k (htonl dip) (htons dport) s = Inr (Blocked, s') \<and>
    t' = (syn_sent iss TCP_SYN p (bound_sock (hashed_sock new_tcp_sock TCP_SYN_SENT (if_ip (rt_iface m)) dip sport dport)))
      \<lparr>sk_wait_connect := \<lparr>w_notified = False, w_dead = False, w_sleep = True\<rparr>\<rparr> \<and>
    tcp_segment (control_fields_of (t'\<lparr>sk_snd_nxt := iss\<rparr>) TCP_SYN) p \<and>
    net_step [(iface, ip_frame iface dmac p)] s s' \<and> socks s' k = Some t' \<and>
    (\<exists>ks. established_table s' (tcp_hash_function (if_ip (rt_iface m)) dip sport dport) = k # ks) \<and>
    (k, Retrans) \<in> set (timer_list s')"
proof -
  define t5 where "t5 = bound_sock (hashed_sock new_tcp_sock TCP_SYN_SENT (if_ip (rt_iface m)) dip sport dport)"
  define h where "h = tcp_hash_function (if_ip (rt_iface m)) dip sport dport"
  let ?s5 = "bound_to k sport h t5 s"
  obtain iss s6 where 6: "tcp_new_iss ?s5 = (iss, s6)" by (cases "tcp_new_iss ?s5")
  have s6: "net_step [] s s6" "socks s6 k = Some t5" "established_table s6 h = k # established_table s h"
    using 6 by (auto simp: tcp_new_iss_def net_random_def net_step_def bound_to_def put_sock_def)
  have f5: "sk_dip t5 = dip" "sk_send_buf t5 = []" "\<not> tm_enable (sk_retrans t5)" "sk_rcv_nxt t5 = 0" "sk_wait_connect t5 = wait_init"
    by (simp_all add: t5_def bound_sock_def hashed_sock_def new_tcp_sock_def)
  let ?f = "\<lambda>t :: tcp_sock. t\<lparr>sk_iss := iss, sk_snd_una := iss, sk_snd_nxt := iss\<rparr>"
  have dipf: "\<And>t. sk_dip (?f t) = sk_dip t" by simp
  have e5: "?f t5 = t5\<lparr>sk_iss := iss, sk_snd_una := iss, sk_snd_nxt := iss, sk_rcv_nxt := 0\<rparr>" using f5(4) by simp
  have fl: "has_flag TCP_SYN (TCP_SYN OR TCP_FIN)" by (simp add: has_flag_def tcp_flag_defs)
  have r6: "resolved s6 (sk_dip t5) iface dmac" using r net_step_resolved[OF s6(1)] f5 by simp
  obtain p s7 where 7: "run_all [upd_sock k ?f, tcp_send_control_packet k TCP_SYN, tcp_set_retrans_timer k 1] s6 = Inr s7"
    "tcp_segment (control_fields_of (?f t5) TCP_SYN) p" "net_step [(iface, ip_frame iface dmac p)] s6 s7"
    "socks s7 = (socks s6)(k \<mapsto> (syn_sent iss TCP_SYN p t5)\<lparr>sk_rcv_nxt := 0\<rparr>)" "timer_list s7 = timer_list s6 @ [(k, Retrans)]"
    "established_table s7 = established_table s6"
    using syn_goes_out[OF s6(2) dipf e5 f5(2,3) fl r6] by blast
  let ?t = "(syn_sent iss TCP_SYN p t5)\<lparr>sk_wait_connect := \<lparr>w_notified = False, w_dead = False, w_sleep = True\<rparr>\<rparr>"
  have e: "(syn_sent iss TCP_SYN p t5)\<lparr>sk_rcv_nxt := 0\<rparr> = syn_sent iss TCP_SYN p t5" using f5(4) by (simp add: syn_sent_def)
  have w: "sk_wait_connect (syn_sent iss TCP_SYN p t5) = wait_init" using f5(5) by (simp add: syn_sent_def)
  have con: "tcp_sock_connect k (htonl dip) (htons dport) s = Inr (Blocked, put_sock k ?t s7)"
    unfolding connect_prepares[OF wf t m port free, folded h_def t5_def]
    using 6 7(1,4) e w by (simp add: with_sock_def sleep_begin_def wait_init_def del: run_all.simps)
  have seg: "tcp_segment (control_fields_of (?t\<lparr>sk_snd_nxt := iss\<rparr>) TCP_SYN) p"
    using 7(2) by (simp add: control_fields_of_def syn_sent_def)
  have net: "net_step [(iface, ip_frame iface dmac p)] s (put_sock k ?t s7)"
    using net_step_trans[OF s6(1) 7(3)] by (simp add: net_step_def put_sock_def)
  show ?thesis
    unfolding h_def[symmetric] t5_def[symmetric]
    by (intro exI[of _ iss] exI[of _ p] exI[of _ "put_sock k ?t s7"] exI[of _ ?t] conjI refl con seg net)
      (use 7(5,6) s6(3) in \<open>simp_all add: put_sock_def\<close>)
qed

text \<open>The server: a SYN at a listening socket.\<close>

definition child_sock :: "nat \<Rightarrow> tcp_cb \<Rightarrow> u32 \<Rightarrow> bytes \<Rightarrow> tcp_sock" where
  "child_sock l cb iss p = (syn_sent iss (TCP_SYN OR TCP_ACK) p (hashed_sock (new_tcp_sock\<lparr>sk_parent := Some l\<rparr>) TCP_SYN_RECV
     (cb_daddr cb) (cb_saddr cb) (cb_dport cb) (cb_sport cb)))\<lparr>sk_rcv_nxt := cb_seq_end cb\<rparr>"

text \<open>The child before it answers.\<close>

definition child_begun :: "nat \<Rightarrow> tcp_sock \<Rightarrow> tcp_cb \<Rightarrow> 'b tcp_net_scheme \<Rightarrow> 'b tcp_net_scheme" where
  "child_begun l t cb s = (let c = next_sock s; h = tcp_hash_function (cb_daddr cb) (cb_saddr cb) (cb_dport cb) (cb_sport cb) in
     s\<lparr>next_sock := c + 1,
       socks := (socks s)(c \<mapsto> hashed_sock (new_tcp_sock\<lparr>sk_parent := Some l\<rparr>) TCP_SYN_RECV (cb_daddr cb) (cb_saddr cb) (cb_dport cb) (cb_sport cb),
         l \<mapsto> t\<lparr>sk_listen_queue := sk_listen_queue t @ [c]\<rparr>),
       established_table := (established_table s)(h := c # established_table s h)\<rparr>)"

lemma find_sock_queue:
  assumes "socks s l = Some t" "\<And>n. P (t\<lparr>sk_listen_queue := n\<rparr>) = P t"
  shows "find_sock P ks (put_sock l (t\<lparr>sk_listen_queue := q\<rparr>) s) = find_sock P ks s"
  using assms by (induction ks) (auto simp: with_sock_def put_sock_def split: option.split)

lemma child_begins:
  assumes wf: "tcp_wf s" and t: "socks s l = Some t"
    and free: "tcp_sock_lookup_established (cb_daddr cb) (cb_saddr cb) (cb_dport cb) (cb_sport cb) s = Inr None"
  defines "c \<equiv> next_sock s"
  shows "run_all [upd_sock c (\<lambda>t. t\<lparr>sk_sip := cb_daddr cb, sk_dip := cb_saddr cb, sk_sport := cb_dport cb,
               sk_dport := cb_sport cb, sk_parent := Some l\<rparr>),
             upd_sock l (\<lambda>t. t\<lparr>sk_listen_queue := sk_listen_queue t @ [c]\<rparr>),
             tcp_set_state c TCP_SYN_RECV, \<lambda>s. bind_res (tcp_hash c s) (\<lambda>(err, s). Inr s)]
    (put_sock c new_tcp_sock (s\<lparr>next_sock := c + 1\<rparr>)) = Inr (child_begun l t cb s)"
proof -
  define h where "h = tcp_hash_function (cb_daddr cb) (cb_saddr cb) (cb_dport cb) (cb_sport cb)"
  have cn: "socks s c = None" using wf by (simp add: c_def tcp_wf_def)
  have lc: "l \<noteq> c" using t cn by auto
  have un: "c \<notin> set (established_table s j)" for j using unlinked_not_in[OF wf, of c] cn by simp
  define t1 where "t1 = new_tcp_sock\<lparr>sk_sip := cb_daddr cb, sk_dip := cb_saddr cb, sk_sport := cb_dport cb,
               sk_dport := cb_sport cb, sk_parent := Some l, sk_state := TCP_SYN_RECV\<rparr>"
  define q where "q = t\<lparr>sk_listen_queue := sk_listen_queue t @ [c]\<rparr>"
  define s1 where "s1 = s\<lparr>next_sock := c + 1, socks := (socks s)(c \<mapsto> t1, l \<mapsto> q)\<rparr>"
  have f: "find_sock (\<lambda>tmp. cb_daddr cb = sk_sip tmp \<and> cb_saddr cb = sk_dip tmp \<and> cb_dport cb = sk_sport tmp \<and> cb_sport cb = sk_dport tmp)
      (established_table s h) s1 = Inr None"
  proof -
    have "find_sock P (established_table s h) s1 = find_sock P (established_table s h) (put_sock l q s)" for P
      by (rule find_sock_cong) (use un in \<open>auto simp: s1_def put_sock_def\<close>)
    moreover have "tcp_sock_lookup_established (cb_daddr cb) (cb_saddr cb) (cb_dport cb) (cb_sport cb) (put_sock l q s) = Inr None"
      using free unfolding tcp_sock_lookup_established_def q_def by (subst find_sock_queue[OF t]) (simp_all add: put_sock_def)
    ultimately show ?thesis using find_established[of _ _ _ _ "put_sock l q s" c "put_sock l q s"] un
      by (simp add: h_def put_sock_def)
  qed
  have 1: "run_all [upd_sock c (\<lambda>t. t\<lparr>sk_sip := cb_daddr cb, sk_dip := cb_saddr cb, sk_sport := cb_dport cb,
               sk_dport := cb_sport cb, sk_parent := Some l\<rparr>),
             upd_sock l (\<lambda>t. t\<lparr>sk_listen_queue := sk_listen_queue t @ [c]\<rparr>),
             tcp_set_state c TCP_SYN_RECV] (put_sock c new_tcp_sock (s\<lparr>next_sock := c + 1\<rparr>)) = Inr s1"
    using t lc by (simp add: upd_sock_def with_sock_def put_sock_def tcp_set_state_def s1_def t1_def q_def
        new_tcp_sock_def fun_upd_twist[OF lc])
  have 2: "tcp_hash c s1 = Inr (0, child_begun l t cb s)"
    using f lc by (simp add: tcp_hash_def with_sock_def Let_def s1_def put_sock_def t1_def hashed_sock_def child_begun_def
        new_tcp_sock_def h_def[symmetric] c_def[symmetric] q_def fun_upd_twist[OF lc])
  show ?thesis using run_all_append[of "[upd_sock c (\<lambda>t. t\<lparr>sk_sip := cb_daddr cb, sk_dip := cb_saddr cb, sk_sport := cb_dport cb,
               sk_dport := cb_sport cb, sk_parent := Some l\<rparr>),
             upd_sock l (\<lambda>t. t\<lparr>sk_listen_queue := sk_listen_queue t @ [c]\<rparr>),
             tcp_set_state c TCP_SYN_RECV]" "[\<lambda>s. bind_res (tcp_hash c s) (\<lambda>(err, s). Inr s)]"
      "put_sock c new_tcp_sock (s\<lparr>next_sock := c + 1\<rparr>)"] 1 2 by simp
qed

lemma listen_answers_syn:
  assumes wf: "tcp_wf s" and t: "socks s l = Some t" "sk_state t = TCP_LISTEN" and syn: "cb_flags cb = TCP_SYN"
    and free: "tcp_sock_lookup_established (cb_daddr cb) (cb_saddr cb) (cb_dport cb) (cb_sport cb) s = Inr None"
    and r: "resolved s (cb_saddr cb) iface dmac"
  shows "\<exists>iss p s'. tcp_process (Some l) cb s = Inr s' \<and>
    tcp_segment (control_fields_of ((child_sock l cb iss p)\<lparr>sk_snd_nxt := iss\<rparr>) (TCP_SYN OR TCP_ACK)) p \<and>
    net_step [(iface, ip_frame iface dmac p)] s s' \<and> socks s' (next_sock s) = Some (child_sock l cb iss p) \<and>
    socks s' l = Some (t\<lparr>sk_listen_queue := sk_listen_queue t @ [next_sock s]\<rparr>) \<and>
    (\<exists>cs. established_table s' (tcp_hash_function (cb_daddr cb) (cb_saddr cb) (cb_dport cb) (cb_sport cb)) = next_sock s # cs) \<and>
    (next_sock s, Retrans) \<in> set (timer_list s')"
proof -
  define c where "c = next_sock s"
  define h where "h = tcp_hash_function (cb_daddr cb) (cb_saddr cb) (cb_dport cb) (cb_sport cb)"
  define t2 where "t2 = hashed_sock (new_tcp_sock\<lparr>sk_parent := Some l\<rparr>) TCP_SYN_RECV
     (cb_daddr cb) (cb_saddr cb) (cb_dport cb) (cb_sport cb)"
  let ?s2 = "child_begun l t cb s"
  have "socks s c = None" using wf by (simp add: c_def tcp_wf_def)
  then have lc: "l \<noteq> c" using t by auto
  have al: "alloc_tcp_sock s = (c, put_sock c new_tcp_sock (s\<lparr>next_sock := c + 1\<rparr>))" by (simp add: alloc_tcp_sock_def c_def)
  obtain iss s3 where 3: "tcp_new_iss ?s2 = (iss, s3)" by (cases "tcp_new_iss ?s2")
  have s3: "net_step [] s s3" "socks s3 c = Some t2" "socks s3 l = Some (t\<lparr>sk_listen_queue := sk_listen_queue t @ [c]\<rparr>)"
    "established_table s3 h = c # established_table s h"
    using 3 lc by (auto simp: tcp_new_iss_def net_random_def net_step_def child_begun_def Let_def t2_def c_def h_def)
  let ?f = "\<lambda>t :: tcp_sock. t\<lparr>sk_iss := iss, sk_snd_una := iss, sk_snd_nxt := iss, sk_rcv_nxt := cb_seq_end cb\<rparr>"
  have f2: "sk_send_buf t2 = []" "\<not> tm_enable (sk_retrans t2)" by (simp_all add: t2_def hashed_sock_def new_tcp_sock_def)
  have fl: "has_flag (TCP_SYN OR TCP_ACK) (TCP_SYN OR TCP_FIN)" by (simp add: has_flag_def tcp_flag_defs)
  have r3: "resolved s3 (sk_dip t2) iface dmac"
    using r net_step_resolved[OF s3(1)] by (simp add: t2_def hashed_sock_def)
  have dipf: "\<And>t. sk_dip (?f t) = sk_dip t" by simp
  obtain p s4 where 4: "run_all [upd_sock c ?f, tcp_send_control_packet c (TCP_SYN OR TCP_ACK), tcp_set_retrans_timer c 1] s3 = Inr s4"
    "tcp_segment (control_fields_of (?f t2) (TCP_SYN OR TCP_ACK)) p" "net_step [(iface, ip_frame iface dmac p)] s3 s4"
    "socks s4 = (socks s3)(c \<mapsto> (syn_sent iss (TCP_SYN OR TCP_ACK) p t2)\<lparr>sk_rcv_nxt := cb_seq_end cb\<rparr>)"
    "timer_list s4 = timer_list s3 @ [(c, Retrans)]" "established_table s4 = established_table s3"
    using syn_goes_out[OF s3(2) dipf refl f2 fl r3] by blast
  have "process_listen l cb s = Inr s4"
    unfolding process_listen_def
    by (simp only: syn al case_prod_conv child_begins[OF wf t(1) free, folded c_def] bind_res_simps 3 4(1) if_True simp_thms)
  then have proc: "tcp_process (Some l) cb s = Inr s4"
    using t syn by (simp add: tcp_process_def with_sock_def tcp_flag_defs)
  have ch: "(syn_sent iss (TCP_SYN OR TCP_ACK) p t2)\<lparr>sk_rcv_nxt := cb_seq_end cb\<rparr> = child_sock l cb iss p"
    by (simp add: child_sock_def t2_def)
  have "tcp_segment (control_fields_of ((child_sock l cb iss p)\<lparr>sk_snd_nxt := iss\<rparr>) (TCP_SYN OR TCP_ACK)) p"
    using 4(2) unfolding ch[symmetric] by (simp add: control_fields_of_def syn_sent_def)
  moreover have "net_step [(iface, ip_frame iface dmac p)] s s4" using net_step_trans[OF s3(1) 4(3)] by simp
  ultimately show ?thesis unfolding c_def[symmetric] h_def[symmetric]
    using proc 4(4-6) ch s3(3,4) lc by (intro exI[of _ iss] exI[of _ p] exI[of _ s4]) simp
qed

text \<open>The SYN|ACK at the client, and the ACK at the server's child.\<close>

lemma lookup_first:
  assumes "established_table s (tcp_hash_function (cb_daddr cb) (cb_saddr cb) (cb_dport cb) (cb_sport cb)) = k # ks"
    and "socks s k = Some t" "sk_sip t = cb_daddr cb" "sk_dip t = cb_saddr cb" "sk_sport t = cb_dport cb" "sk_dport t = cb_sport cb"
  shows "tcp_sock_lookup cb s = Inr (Some k)"
  using assms by (simp add: tcp_sock_lookup_def tcp_sock_lookup_established_def with_sock_def)

lemma client_answers_syn_ack:
  assumes t: "socks s k = Some t" "sk_state t = TCP_SYN_SENT" "handshaking t" and tl: "(k, Retrans) \<in> set (timer_list s)"
    and cb: "cb_flags cb = TCP_SYN OR TCP_ACK" "cb_ack cb = sk_snd_nxt t" and r: "resolved s (sk_dip t) iface dmac"
  shows "\<exists>p s' t'. tcp_process (Some k) cb s = Inr s' \<and> tcp_segment (control_fields_of t' TCP_ACK) p \<and>
    net_step [(iface, ip_frame iface dmac p)] s s' \<and> socks s' k = Some t' \<and>
    t' = (all_acked (window_opened cb (t\<lparr>sk_rcv_nxt := cb_seq_end cb\<rparr>)))\<lparr>sk_state := TCP_ESTABLISHED,
      sk_wait_connect := fst (wake_up (sk_wait_connect t))\<rparr> \<and> (k, Retrans) \<notin> set (timer_list s')"
proof -
  define t1 where "t1 = t\<lparr>sk_rcv_nxt := cb_seq_end cb\<rparr>"
  define t2 where "t2 = (window_opened cb t1)\<lparr>sk_state := TCP_ESTABLISHED\<rparr>"
  define s2 where "s2 = put_sock k t2 s"
  define s3 where "s3 = put_sock k (all_acked t2) (s2\<lparr>timer_list := removeAll (k, Retrans) (timer_list s2)\<rparr>)"
  have "handshaking t1 = handshaking t" by (simp add: t1_def handshaking_def)
  then have h1: "handshaking t1" "sk_snd_nxt t1 = sk_snd_nxt t" using t(3) by (simp_all add: t1_def)
  have 1: "tcp_update_window_safe k cb (put_sock k t1 s) = Inr (put_sock k (window_opened cb t1) s)"
    using window_opens[of "put_sock k t1 s" k t1 cb] h1 t(2) cb(2) by (simp add: put_sock_def t1_def)
  obtain sp where sp: "sk_send_buf t = [sp]" "sp_seq_end sp = sk_snd_nxt t" using t(3) by (auto simp: handshaking_def)
  have 2: "tcp_ack_send_buf k cb s2 = Inr s3"
    unfolding s3_def
    by (rule ack_completes[of _ _ _ sp]) (use sp t(3) tl cb(2) in \<open>simp_all add: s2_def put_sock_def t2_def t1_def window_opened_def handshaking_def\<close>)
  have k3: "socks s3 k = Some (all_acked t2)" by (simp add: s3_def put_sock_def)
  have n3: "net_step [] s s3" by (simp add: s3_def s2_def net_step_def put_sock_def)
  have "resolved s3 (sk_dip (all_acked t2)) iface dmac"
    using r net_step_resolved[OF n3] by (simp add: all_acked_def t2_def t1_def window_opened_def)
  from control_frame[OF k3 this, of TCP_ACK] obtain p s4 where 3: "tcp_segment (control_fields_of (all_acked t2) TCP_ACK) p"
    "tcp_send_control_packet k TCP_ACK s3 = Inr s4" "sock_step k (control_sent TCP_ACK p (all_acked t2)) s3 s4"
    "net_step [(iface, ip_frame iface dmac p)] s3 s4" by blast
  have k4: "socks s4 k = Some (all_acked t2)"
    using sock_step_socks[OF 3(3)] by (simp add: control_sent_def has_flag_def tcp_flag_defs)
  let ?t = "(all_acked t2)\<lparr>sk_wait_connect := fst (wake_up (sk_wait_connect (all_acked t2)))\<rparr>"
  have u1: "upd_sock k (\<lambda>t. t\<lparr>sk_rcv_nxt := cb_seq_end cb\<rparr>) s = Inr (put_sock k t1 s)"
    using t(1) by (simp add: upd_sock_def with_sock_def t1_def)
  have u2: "tcp_set_state k TCP_ESTABLISHED (put_sock k (window_opened cb t1) s) = Inr s2"
    by (simp add: tcp_set_state_def upd_sock_def with_sock_def put_sock_def s2_def t2_def)
  have u3: "upd_sock k (\<lambda>t. t\<lparr>sk_wait_connect := fst (wake_up (sk_wait_connect t))\<rparr>) s4 = Inr (put_sock k ?t s4)"
    using k4 by (simp add: upd_sock_def with_sock_def)
  have "tcp_process (Some k) cb s = run_all [upd_sock k (\<lambda>t. t\<lparr>sk_rcv_nxt := cb_seq_end cb\<rparr>), tcp_update_window_safe k cb,
               tcp_set_state k TCP_ESTABLISHED, tcp_ack_send_buf k cb, tcp_send_control_packet k TCP_ACK,
               upd_sock k (\<lambda>t. t\<lparr>sk_wait_connect := fst (wake_up (sk_wait_connect t))\<rparr>)] s"
    using t(1,2) cb(1) by (simp add: tcp_process_def with_sock_def tcp_flag_defs del: run_all.simps)
  also have "\<dots> = Inr (put_sock k ?t s4)" by (simp only: run_all.simps u1 1 u2 2 3(2) u3 bind_res_simps)
  finally have proc: "tcp_process (Some k) cb s = Inr (put_sock k ?t s4)" .
  have t': "?t = (all_acked (window_opened cb t1))\<lparr>sk_state := TCP_ESTABLISHED, sk_wait_connect := fst (wake_up (sk_wait_connect t))\<rparr>"
    by (simp add: all_acked_def t2_def t1_def window_opened_def)
  have seg: "tcp_segment (control_fields_of ?t TCP_ACK) p" using 3(1) by (simp add: control_fields_of_def)
  have net: "net_step [(iface, ip_frame iface dmac p)] s (put_sock k ?t s4)"
    using net_step_trans[OF n3 3(4)] by (simp add: net_step_def put_sock_def)
  show ?thesis
    unfolding t1_def[symmetric] t'[symmetric]
    by (intro exI[of _ p] exI[of _ "put_sock k ?t s4"] exI[of _ ?t] conjI proc seg net refl)
      (use 3(3) in \<open>simp_all add: put_sock_def sock_step_def s3_def\<close>)
qed

lemma child_accepts_ack:
  assumes t: "socks s c = Some t" "sk_state t = TCP_SYN_RECV" "handshaking t" "sk_parent t = Some l"
    and p: "socks s l = Some q" "l \<noteq> c" "sk_accept_backlog q < sk_backlog q" and tl: "(c, Retrans) \<in> set (timer_list s)"
    and cb: "cb_flags cb = TCP_ACK" "cb_ack cb = sk_snd_nxt t" "cb_seq cb = sk_rcv_nxt t" "cb_seq_end cb = cb_seq cb"
  shows "tcp_process (Some c) cb s = Inr (put_sock l (q\<lparr>sk_listen_queue := removeAll c (sk_listen_queue q),
      sk_accept_queue := sk_accept_queue q @ [c], sk_accept_backlog := sk_accept_backlog q + 1,
      sk_wait_accept := fst (wake_up (sk_wait_accept q))\<rparr>)
    (put_sock c ((all_acked (window_opened cb t))\<lparr>sk_state := TCP_ESTABLISHED\<rparr>)
      (s\<lparr>timer_list := removeAll (c, Retrans) (timer_list s)\<rparr>)))"
proof -
  define s1 where "s1 = put_sock c (window_opened cb t) s"
  define s2 where "s2 = put_sock c (all_acked (window_opened cb t)) (s1\<lparr>timer_list := removeAll (c, Retrans) (timer_list s1)\<rparr>)"
  have v: "seq_in_window t cb" using next_seq_in_window(1)[of cb t 0] cb(3,4) by simp
  have 1: "tcp_update_window_safe c cb s = Inr s1"
    unfolding s1_def using window_opens[OF t(1) _ t(3)] t(2) cb(2) by simp
  obtain sp where sp: "sk_send_buf t = [sp]" "sp_seq_end sp = sk_snd_nxt t" using t(3) by (auto simp: handshaking_def)
  have 2: "tcp_ack_send_buf c cb s1 = Inr s2"
    unfolding s2_def
    by (rule ack_completes[of _ _ _ sp]) (use sp t(3) tl cb(2) in \<open>simp_all add: s1_def put_sock_def window_opened_def handshaking_def\<close>)
  have "tcp_process (Some c) cb s = process_syn_recv c cb s"
    using t(1,2) cb(1) by (simp add: tcp_process_def with_sock_def tcp_flag_defs)
  also have "\<dots> = with_sock c (\<lambda>t s. case sk_parent t of
            None \<Rightarrow> Inl NullDeref
          | Some pk \<Rightarrow> with_sock pk (\<lambda>p s.
              if tcp_sock_accept_queue_full p
              then run_all [tcp_set_state c TCP_CLOSED, tcp_send_reset cb,
                upd_sock pk (\<lambda>p. p\<lparr>sk_listen_queue := removeAll c (sk_listen_queue p)\<rparr>),
                tcp_unset_retrans_timer c, tcp_unhash c] s
              else run_all [tcp_set_state c TCP_ESTABLISHED, tcp_sock_accept_enqueue c,
                upd_sock pk (\<lambda>p. p\<lparr>sk_wait_accept := fst (wake_up (sk_wait_accept p))\<rparr>)] s) s) s2"
    using t(1) v 1 2 by (simp add: process_syn_recv_def when_seq_valid_def is_tcp_seq_valid_def with_sock_def[of c _ s]
        bind_res_assoc del: run_all.simps(2)) (simp add: bind_res_def split: sum.split)
  also have "\<dots> = Inr (put_sock l (q\<lparr>sk_listen_queue := removeAll c (sk_listen_queue q),
      sk_accept_queue := sk_accept_queue q @ [c], sk_accept_backlog := sk_accept_backlog q + 1,
      sk_wait_accept := fst (wake_up (sk_wait_accept q))\<rparr>)
    (put_sock c ((all_acked (window_opened cb t))\<lparr>sk_state := TCP_ESTABLISHED\<rparr>)
      (s\<lparr>timer_list := removeAll (c, Retrans) (timer_list s)\<rparr>)))"
    using t(4) p by (simp add: with_sock_def s2_def s1_def put_sock_def all_acked_def window_opened_def
        tcp_sock_accept_queue_full_def tcp_set_state_def upd_sock_def tcp_sock_accept_enqueue_def fun_upd_twist)
  finally show ?thesis .
qed

section \<open>The four legs\<close>

definition ends :: "u32 \<Rightarrow> u16 \<Rightarrow> u32 \<Rightarrow> u16 \<Rightarrow> tcp_sock \<Rightarrow> bool" where
  "ends sip sport dip dport t \<longleftrightarrow> sk_sip t = sip \<and> sk_sport t = sport \<and> sk_dip t = dip \<and> sk_dport t = dport"

text \<open>A socket whose SYN is out and not acknowledged, and one that is established with nothing out.\<close>

definition half_open :: "tcp_state \<Rightarrow> u32 \<Rightarrow> u32 \<Rightarrow> nat \<Rightarrow> tcp_sock \<Rightarrow> 'b tcp_net_scheme \<Rightarrow> bool" where
  "half_open st iss rcv k t s \<longleftrightarrow> socks s k = Some t \<and> sk_state t = st \<and> sk_snd_nxt t = iss + 1 \<and> sk_rcv_nxt t = rcv \<and> handshaking t
     \<and> (\<exists>ks. established_table s (tcp_hash_function (sk_sip t) (sk_dip t) (sk_sport t) (sk_dport t)) = k # ks)
     \<and> (k, Retrans) \<in> set (timer_list s)"

definition both_acked :: "u32 \<Rightarrow> u32 \<Rightarrow> tcp_sock \<Rightarrow> bool" where
  "both_acked nxt rcv t \<longleftrightarrow> sk_state t = TCP_ESTABLISHED \<and> sk_snd_nxt t = nxt \<and> sk_snd_una t = nxt \<and> sk_rcv_nxt t = rcv \<and> sk_send_buf t = []"

abbreviation control_cb :: "tcp_sock \<Rightarrow> u8 \<Rightarrow> tcp_cb" where
  "control_cb t flags \<equiv> cb_of_fields (control_fields_of t flags)"

lemma control_cb:
  "cb_saddr (control_cb t flags) = sk_sip t" "cb_daddr (control_cb t flags) = sk_dip t" "cb_sport (control_cb t flags) = sk_sport t"
  "cb_dport (control_cb t flags) = sk_dport t" "cb_flags (control_cb t flags) = flags" "cb_seq (control_cb t flags) = sk_snd_nxt t"
  "cb_ack (control_cb t flags) = sk_rcv_nxt t" "cb_seq_end (control_cb t flags) = sk_snd_nxt t + (if has_flag flags (TCP_SYN OR TCP_FIN) then 1 else 0)"
  by (simp_all add: cb_of_fields_def control_fields_of_def)

lemma control_received:
  assumes "tcp_segment (control_fields_of t flags) p" "length dmac = 6" "length (if_mac iface) = 6" "if_ip there = sk_dip t"
    and "tcp_sock_lookup (control_cb t flags) s = Inr (Some k)"
  shows "host_handle_packet there (ip_frame iface dmac p) s = tcp_process (Some k) (control_cb t flags) s"
  using receive_frame[OF assms(1-3), of there s] assms(4,5) by (simp add: control_fields_of_def)

lemma half_open_found:
  assumes "half_open st iss rcv k t s" "ends sip sport dip dport t" "ends dip dport sip sport u"
  shows "tcp_sock_lookup (control_cb u flags) s = Inr (Some k)"
proof -
  obtain ks where "established_table s (tcp_hash_function (sk_sip t) (sk_dip t) (sk_sport t) (sk_dport t)) = k # ks" "socks s k = Some t"
    using assms(1) by (auto simp: half_open_def)
  with assms(2,3) show ?thesis by (intro lookup_first[where t = t and ks = ks]) (simp_all add: control_cb ends_def)
qed

lemma syn_leg:
  assumes wf: "tcp_wf a" and client: "socks a k = Some new_tcp_sock" "longest_prefix_match (net_rtable a) dip = Some m"
      "rt_iface m = ia" "resolved a dip ia mb"
    and port: "tcp_get_port a = Inr sport" "sport \<noteq> 0" "tcp_sock_lookup_established (if_ip ia) dip sport dport a = Inr None"
  shows "\<exists>iss p a1 t. tcp_sock_connect k (htonl dip) (htons dport) a = Inr (Blocked, a1) \<and> net_step [(ia, ip_frame ia mb p)] a a1 \<and>
    tcp_segment (control_fields_of (t\<lparr>sk_snd_nxt := iss\<rparr>) TCP_SYN) p \<and> half_open TCP_SYN_SENT iss 0 k t a1 \<and> ends (if_ip ia) sport dip dport t \<and>
    sk_wait_connect t = \<lparr>w_notified = False, w_dead = False, w_sleep = True\<rparr>"
proof -
  have free: "tcp_sock_lookup_established (if_ip (rt_iface m)) dip sport dport a = Inr None" using port(3) client(3) by simp
  obtain iss p a1 t where 1: "tcp_sock_connect k (htonl dip) (htons dport) a = Inr (Blocked, a1)"
    "t = (syn_sent iss TCP_SYN p (bound_sock (hashed_sock new_tcp_sock TCP_SYN_SENT (if_ip ia) dip sport dport)))
      \<lparr>sk_wait_connect := \<lparr>w_notified = False, w_dead = False, w_sleep = True\<rparr>\<rparr>"
    "tcp_segment (control_fields_of (t\<lparr>sk_snd_nxt := iss\<rparr>) TCP_SYN) p" "net_step [(ia, ip_frame ia mb p)] a a1" "socks a1 k = Some t"
    "\<exists>ks. established_table a1 (tcp_hash_function (if_ip ia) dip sport dport) = k # ks" "(k, Retrans) \<in> set (timer_list a1)"
    using connect_sends_syn[OF wf client(1,2) port(1,2) free client(4)] unfolding client(3)
    by (elim exE conjE) (rule that; (assumption | (rule exI, assumption)))
  have t: "sk_sip t = if_ip ia" "sk_dip t = dip" "sk_sport t = sport" "sk_dport t = dport" "sk_snd_nxt t = iss + 1"
    "sk_state t = TCP_SYN_SENT" "handshaking t" "sk_rcv_nxt t = 0" "sk_wait_connect t = \<lparr>w_notified = False, w_dead = False, w_sleep = True\<rparr>"
    unfolding 1(2) by (simp_all add: syn_sent_def bound_sock_def hashed_sock_def new_tcp_sock_def handshaking_def)
  with 1 show ?thesis by (intro exI[of _ iss] exI[of _ p] exI[of _ a1] exI[of _ t]) (simp add: half_open_def ends_def)
qed

lemma syn_ack_leg:
  assumes wf: "tcp_wf b" and macs: "length mb = 6" "length (if_mac ia) = 6"
    and server: "tcp_sock_lookup_listen (if_ip ib) dport b = Inr (Some l)" "socks b l = Some q" "sk_state q = TCP_LISTEN" "resolved b sip ib ma"
      "tcp_sock_lookup_established (if_ip ib) sip dport sport b = Inr None"
    and syn: "tcp_segment (control_fields_of t TCP_SYN) p" "ends sip sport (if_ip ib) dport t"
  shows "\<exists>iss p' b1 u. host_handle_packet ib (ip_frame ia mb p) b = Inr b1 \<and> net_step [(ib, ip_frame ib ma p')] b b1 \<and>
    tcp_segment (control_fields_of (u\<lparr>sk_snd_nxt := iss\<rparr>) (TCP_SYN OR TCP_ACK)) p' \<and> half_open TCP_SYN_RECV iss (sk_snd_nxt t + 1) (next_sock b) u b1 \<and>
    ends (if_ip ib) dport sip sport u \<and> sk_parent u = Some l \<and> socks b1 l = Some (q\<lparr>sk_listen_queue := sk_listen_queue q @ [next_sock b]\<rparr>)"
proof -
  let ?cb = "control_cb t TCP_SYN"
  have cb: "cb_daddr ?cb = if_ip ib" "cb_saddr ?cb = sip" "cb_dport ?cb = dport" "cb_sport ?cb = sport" "cb_flags ?cb = TCP_SYN"
    "cb_seq_end ?cb = sk_snd_nxt t + 1" using syn(2) by (simp_all add: control_cb ends_def has_flag_def tcp_flag_defs)
  have "tcp_sock_lookup ?cb b = Inr (Some l)" using server(1,5) cb by (simp add: tcp_sock_lookup_def)
  from control_received[OF syn(1) macs _ this] syn(2) have r: "host_handle_packet ib (ip_frame ia mb p) b = tcp_process (Some l) ?cb b"
    by (simp add: ends_def)
  have free: "tcp_sock_lookup_established (cb_daddr ?cb) (cb_saddr ?cb) (cb_dport ?cb) (cb_sport ?cb) b = Inr None"
    and res: "resolved b (cb_saddr ?cb) ib ma" using server(4,5) cb by simp_all
  obtain iss p' b1 where 2: "tcp_process (Some l) ?cb b = Inr b1"
    "tcp_segment (control_fields_of ((child_sock l ?cb iss p')\<lparr>sk_snd_nxt := iss\<rparr>) (TCP_SYN OR TCP_ACK)) p'"
    "net_step [(ib, ip_frame ib ma p')] b b1" "socks b1 (next_sock b) = Some (child_sock l ?cb iss p')"
    "socks b1 l = Some (q\<lparr>sk_listen_queue := sk_listen_queue q @ [next_sock b]\<rparr>)"
    "\<exists>cs. established_table b1 (tcp_hash_function (if_ip ib) sip dport sport) = next_sock b # cs" "(next_sock b, Retrans) \<in> set (timer_list b1)"
    using listen_answers_syn[OF wf server(2,3) cb(5) free res, unfolded cb(1-4)]
    by (elim exE conjE) (rule that; (assumption | (rule exI, assumption)))
  let ?u = "child_sock l ?cb iss p'"
  have u: "sk_sip ?u = if_ip ib" "sk_dip ?u = sip" "sk_sport ?u = dport" "sk_dport ?u = sport" "sk_snd_nxt ?u = iss + 1"
    "sk_state ?u = TCP_SYN_RECV" "handshaking ?u" "sk_rcv_nxt ?u = sk_snd_nxt t + 1" "sk_parent ?u = Some l"
    by (simp_all add: child_sock_def syn_sent_def hashed_sock_def new_tcp_sock_def handshaking_def cb)
  have "half_open TCP_SYN_RECV iss (sk_snd_nxt t + 1) (next_sock b) ?u b1" "ends (if_ip ib) dport sip sport ?u"
    using 2(4,6,7) u by (simp_all add: half_open_def ends_def)
  with r 2(1-3,5) u(9) show ?thesis by (intro exI[of _ iss] exI[of _ p'] exI[of _ b1] exI[of _ ?u]) simp
qed

lemma ack_leg:
  assumes macs: "length ma = 6" "length (if_mac ib) = 6" and res: "resolved a dip ia mb"
    and client: "half_open TCP_SYN_SENT iss rcv k t a" "ends (if_ip ia) sport dip dport t"
    and syn_ack: "tcp_segment (control_fields_of u (TCP_SYN OR TCP_ACK)) p" "ends dip dport (if_ip ia) sport u" "sk_rcv_nxt u = iss + 1"
  shows "\<exists>p' a' t'. host_handle_packet ia (ip_frame ib ma p) a = Inr a' \<and> net_step [(ia, ip_frame ia mb p')] a a' \<and>
    tcp_segment (control_fields_of t' TCP_ACK) p' \<and> socks a' k = Some t' \<and> both_acked (iss + 1) (sk_snd_nxt u + 1) t' \<and> ends (if_ip ia) sport dip dport t' \<and>
    sk_wait_connect t' = fst (wake_up (sk_wait_connect t)) \<and> (k, Retrans) \<notin> set (timer_list a')"
proof -
  let ?cb = "control_cb u (TCP_SYN OR TCP_ACK)"
  note t = client(1)[unfolded half_open_def]
  have cb: "cb_flags ?cb = TCP_SYN OR TCP_ACK" "cb_seq_end ?cb = sk_snd_nxt u + 1" "cb_ack ?cb = sk_snd_nxt t"
    using t syn_ack(3) by (simp_all add: control_cb has_flag_def tcp_flag_defs)
  have r: "host_handle_packet ia (ip_frame ib ma p) a = tcp_process (Some k) ?cb a"
    using control_received[OF syn_ack(1) macs _ half_open_found[OF client syn_ack(2)]] syn_ack(2) by (simp add: ends_def)
  have "resolved a (sk_dip t) ia mb" using res client(2) by (simp add: ends_def)
  with client_answers_syn_ack[of a k t ?cb ia mb] t cb(1,3) obtain p' a' t' where
    3: "tcp_process (Some k) ?cb a = Inr a'" "tcp_segment (control_fields_of t' TCP_ACK) p'"
    "net_step [(ia, ip_frame ia mb p')] a a'" "socks a' k = Some t'"
    "t' = (all_acked (window_opened ?cb (t\<lparr>sk_rcv_nxt := cb_seq_end ?cb\<rparr>)))\<lparr>sk_state := TCP_ESTABLISHED,
      sk_wait_connect := fst (wake_up (sk_wait_connect t))\<rparr>" "(k, Retrans) \<notin> set (timer_list a')" by blast
  have "both_acked (iss + 1) (sk_snd_nxt u + 1) t'" "ends (if_ip ia) sport dip dport t'" "sk_wait_connect t' = fst (wake_up (sk_wait_connect t))"
    unfolding 3(5) using t cb client(2) by (simp_all add: all_acked_def window_opened_def both_acked_def ends_def)
  with r 3(1-4,6) show ?thesis by (intro exI[of _ p'] exI[of _ a'] exI[of _ t']) simp
qed

lemma accept_leg:
  assumes macs: "length mb = 6" "length (if_mac ia) = 6"
    and server: "half_open TCP_SYN_RECV iss rcv c u b" "ends (if_ip ib) dport sip sport u" "sk_parent u = Some l" "socks b l = Some q" "l \<noteq> c"
      "sk_accept_backlog q < sk_backlog q"
    and ack: "tcp_segment (control_fields_of t TCP_ACK) p" "ends sip sport (if_ip ib) dport t" "both_acked rcv (iss + 1) t"
  shows "\<exists>b' u' q'. host_handle_packet ib (ip_frame ia mb p) b = Inr b' \<and> net_sent b' = net_sent b \<and> socks b' c = Some u' \<and>
    both_acked (iss + 1) rcv u' \<and> ends (if_ip ib) dport sip sport u' \<and> (c, Retrans) \<notin> set (timer_list b') \<and>
    socks b' l = Some q' \<and> sk_accept_queue q' = sk_accept_queue q @ [c]"
proof -
  let ?cb = "control_cb t TCP_ACK"
  note u = server(1)[unfolded half_open_def]
  have cb: "cb_flags ?cb = TCP_ACK" "cb_ack ?cb = sk_snd_nxt u" "cb_seq ?cb = sk_rcv_nxt u" "cb_seq_end ?cb = cb_seq ?cb"
    using u ack(3) by (simp_all add: control_cb both_acked_def has_flag_def tcp_flag_defs)
  have r: "host_handle_packet ib (ip_frame ia mb p) b = tcp_process (Some c) ?cb b"
    using control_received[OF ack(1) macs _ half_open_found[OF server(1,2) ack(2)]] ack(2) by (simp add: ends_def)
  let ?u = "(all_acked (window_opened ?cb u))\<lparr>sk_state := TCP_ESTABLISHED\<rparr>"
  let ?q = "q\<lparr>sk_listen_queue := removeAll c (sk_listen_queue q), sk_accept_queue := sk_accept_queue q @ [c],
      sk_accept_backlog := sk_accept_backlog q + 1, sk_wait_accept := fst (wake_up (sk_wait_accept q))\<rparr>"
  let ?b = "put_sock l ?q (put_sock c ?u (b\<lparr>timer_list := removeAll (c, Retrans) (timer_list b)\<rparr>))"
  have "tcp_process (Some c) ?cb b = Inr ?b" using u server(3-6) cb by (intro child_accepts_ack) auto
  moreover have "both_acked (iss + 1) rcv ?u" "ends (if_ip ib) dport sip sport ?u" using u cb(2) server(2) by (simp_all add: both_acked_def ends_def all_acked_def window_opened_def)
  ultimately show ?thesis using r server(5)
    by (intro exI[of _ ?b] exI[of _ ?u] exI[of _ ?q]) (simp add: put_sock_def)
qed

text \<open>
  C7: the three-way handshake, from one host to the other.  On host \<open>a\<close> an application connects a new
  socket to a port on which host \<open>b\<close> listens, and the address resolution of both is done.  \<open>connect\<close> sends
  one frame and sleeps; \<open>b\<close>, given that frame, answers with one frame; \<open>a\<close>, given that, answers with one
  and wakes the caller; \<open>b\<close>, given the last one, sends nothing.  Then the socket on \<open>a\<close> and the new
  socket on \<open>b\<close> are both established, with each other's addresses, ports and sequence numbers,
  nothing left to be acknowledged and no timer running, and the one on \<open>b\<close> is last on the accept queue.
\<close>
theorem three_way_handshake:
  assumes wf: "tcp_wf a" "tcp_wf b"
    and client: "socks a k = Some new_tcp_sock" "longest_prefix_match (net_rtable a) (if_ip ib) = Some m"
      "rt_iface m = ia" "resolved a (if_ip ib) ia mb"
    and port: "tcp_get_port a = Inr sport" "sport \<noteq> 0"
      "tcp_sock_lookup_established (if_ip ia) (if_ip ib) sport dport a = Inr None"
    and server: "tcp_sock_lookup_listen (if_ip ib) dport b = Inr (Some l)" "socks b l = Some q" "sk_state q = TCP_LISTEN"
      "sk_accept_backlog q < sk_backlog q" "resolved b (if_ip ia) ib ma"
      "tcp_sock_lookup_established (if_ip ib) (if_ip ia) dport sport b = Inr None"
  shows "\<exists>a1 f1 b1 f2 a2 f3 b2 t c u q'.
    tcp_sock_connect k (htonl (if_ip ib)) (htons dport) a = Inr (Blocked, a1) \<and> net_sent a1 = net_sent a @ [(ia, f1)] \<and>
    host_handle_packet ib f1 b = Inr b1 \<and> net_sent b1 = net_sent b @ [(ib, f2)] \<and>
    host_handle_packet ia f2 a1 = Inr a2 \<and> net_sent a2 = net_sent a1 @ [(ia, f3)] \<and>
    host_handle_packet ib f3 b1 = Inr b2 \<and> net_sent b2 = net_sent b1 \<and>
    socks a2 k = Some t \<and> socks b2 c = Some u \<and> sk_state t = TCP_ESTABLISHED \<and> sk_state u = TCP_ESTABLISHED \<and>
    sk_sip t = sk_dip u \<and> sk_dip t = sk_sip u \<and> sk_sport t = sk_dport u \<and> sk_dport t = sk_sport u \<and>
    sk_snd_nxt t = sk_rcv_nxt u \<and> sk_rcv_nxt t = sk_snd_nxt u \<and> sk_snd_una t = sk_snd_nxt t \<and> sk_snd_una u = sk_snd_nxt u \<and>
    sk_send_buf t = [] \<and> sk_send_buf u = [] \<and> (k, Retrans) \<notin> set (timer_list a2) \<and> (c, Retrans) \<notin> set (timer_list b2) \<and>
    w_notified (sk_wait_connect t) \<and> socks b2 l = Some q' \<and> sk_accept_queue q' = sk_accept_queue q @ [c]"
proof -
  have macs: "length (if_mac ia) = 6" "length mb = 6" "length (if_mac ib) = 6" "length ma = 6"
    using client(4) server(5) by (simp_all add: resolved_def)
  obtain issA p1 a1 t1 where 1: "tcp_sock_connect k (htonl (if_ip ib)) (htons dport) a = Inr (Blocked, a1)"
    "net_step [(ia, ip_frame ia mb p1)] a a1" "tcp_segment (control_fields_of (t1\<lparr>sk_snd_nxt := issA\<rparr>) TCP_SYN) p1"
    "half_open TCP_SYN_SENT issA 0 k t1 a1" "ends (if_ip ia) sport (if_ip ib) dport t1"
    "sk_wait_connect t1 = \<lparr>w_notified = False, w_dead = False, w_sleep = True\<rparr>"
    using syn_leg[OF wf(1) client port] by blast
  have e1: "ends (if_ip ia) sport (if_ip ib) dport (t1\<lparr>sk_snd_nxt := issA\<rparr>)" using 1(5) by (simp add: ends_def)
  define c where "c = next_sock b"
  obtain issB p2 b1 u1 where 2: "host_handle_packet ib (ip_frame ia mb p1) b = Inr b1" "net_step [(ib, ip_frame ib ma p2)] b b1"
    "tcp_segment (control_fields_of (u1\<lparr>sk_snd_nxt := issB\<rparr>) (TCP_SYN OR TCP_ACK)) p2" "half_open TCP_SYN_RECV issB (issA + 1) c u1 b1"
    "ends (if_ip ib) dport (if_ip ia) sport u1" "sk_parent u1 = Some l" "socks b1 l = Some (q\<lparr>sk_listen_queue := sk_listen_queue q @ [c]\<rparr>)"
    using syn_ack_leg[OF wf(2) macs(2,1) server(1-3,5,6) 1(3) e1] by (auto simp: c_def)
  have e2: "ends (if_ip ib) dport (if_ip ia) sport (u1\<lparr>sk_snd_nxt := issB\<rparr>)" using 2(5) by (simp add: ends_def)
  have res: "resolved a1 (if_ip ib) ia mb" using client(4) net_step_resolved[OF 1(2)] by simp
  have "sk_rcv_nxt (u1\<lparr>sk_snd_nxt := issB\<rparr>) = issA + 1" using 2(4) by (simp add: half_open_def)
  from ack_leg[OF macs(4,3) res 1(4,5) 2(3) e2 this] obtain p3 a2 t where
    3: "host_handle_packet ia (ip_frame ib ma p2) a1 = Inr a2" "net_step [(ia, ip_frame ia mb p3)] a1 a2"
    "tcp_segment (control_fields_of t TCP_ACK) p3" "socks a2 k = Some t" "both_acked (issA + 1) (issB + 1) t" "ends (if_ip ia) sport (if_ip ib) dport t"
    "sk_wait_connect t = fst (wake_up (sk_wait_connect t1))" "(k, Retrans) \<notin> set (timer_list a2)" by auto
  have lc: "l \<noteq> c" using wf(2) server(2) by (auto simp: c_def tcp_wf_def)
  have bl: "sk_accept_backlog (q\<lparr>sk_listen_queue := sk_listen_queue q @ [c]\<rparr>) < sk_backlog (q\<lparr>sk_listen_queue := sk_listen_queue q @ [c]\<rparr>)"
    using server(4) by simp
  from accept_leg[OF macs(2,1) 2(4-7) lc bl 3(3,6,5)] obtain b2 u q' where
    4: "host_handle_packet ib (ip_frame ia mb p3) b1 = Inr b2" "net_sent b2 = net_sent b1" "socks b2 c = Some u" "both_acked (issB + 1) (issA + 1) u"
    "ends (if_ip ib) dport (if_ip ia) sport u" "(c, Retrans) \<notin> set (timer_list b2)" "socks b2 l = Some q'" "sk_accept_queue q' = sk_accept_queue q @ [c]" by auto
  have "w_notified (sk_wait_connect t)" using 3(7) 1(6) by (simp add: wake_up_def)
  with 1(1,2) 2(1,2) 3 4 show ?thesis
    by (intro exI[of _ a1] exI[of _ "ip_frame ia mb p1"] exI[of _ b1] exI[of _ "ip_frame ib ma p2"] exI[of _ a2]
        exI[of _ "ip_frame ia mb p3"] exI[of _ b2] exI[of _ t] exI[of _ c] exI[of _ u] exI[of _ q'])
      (simp add: net_step_def both_acked_def ends_def)
qed

text \<open>Two hosts on one network that know each other's hardware addresses.\<close>

definition example_host :: "ip_iface \<Rightarrow> u32 \<Rightarrow> bytes \<Rightarrow> tcp_net" where
  "example_host iface peer mac = init_tcp_stack (empty_net\<lparr>net_ifaces := [iface],
     net_rtable := [new_rt_entry (if_ip iface AND if_mask iface) (if_mask iface) 0 iface],
     arp_entries := [\<lparr>ce_ip4 = peer, ce_mac = mac, ce_added = 0, ce_valid = True\<rparr>]\<rparr>)"

theorem three_way_handshake_witness:
  "\<exists>a b a1 f1 b1 f2 a2 f3 b2 t c u.
    fold_res host_step [Alloc] (example_host (example_iface 1 0x0A000101) 0x0A000102 (if_mac (example_iface 2 0x0A000102))) = Inr a \<and>
    fold_res host_step [Alloc, Bind 0 (htons 80), Listen 0 5]
      (example_host (example_iface 2 0x0A000102) 0x0A000101 (if_mac (example_iface 1 0x0A000101))) = Inr b \<and>
    tcp_sock_connect 0 (htonl 0x0A000102) (htons 80) a = Inr (Blocked, a1) \<and> net_sent a1 = [(example_iface 1 0x0A000101, f1)] \<and>
    host_handle_packet (example_iface 2 0x0A000102) f1 b = Inr b1 \<and> net_sent b1 = [(example_iface 2 0x0A000102, f2)] \<and>
    host_handle_packet (example_iface 1 0x0A000101) f2 a1 = Inr a2 \<and> net_sent a2 = net_sent a1 @ [(example_iface 1 0x0A000101, f3)] \<and>
    host_handle_packet (example_iface 2 0x0A000102) f3 b1 = Inr b2 \<and>
    socks a2 0 = Some t \<and> socks b2 c = Some u \<and> sk_state t = TCP_ESTABLISHED \<and> sk_state u = TCP_ESTABLISHED"
proof -
  let ?i = "example_iface 1 0x0A000101" and ?j = "example_iface 2 0x0A000102"
  let ?a = "put_sock 0 new_tcp_sock (example_host ?i 0x0A000102 (if_mac ?j)\<lparr>next_sock := 1\<rparr>)"
  have a: "fold_res host_step [Alloc] (example_host ?i 0x0A000102 (if_mac ?j)) = Inr ?a"
    by (simp add: example_host_def empty_net_def init_tcp_stack_def alloc_tcp_sock_def)
  have "\<exists>b q. fold_res host_step [Alloc, Bind 0 (htons 80), Listen 0 5] (example_host ?j 0x0A000101 (if_mac ?i)) = Inr b \<and>
     socks b 0 = Some q \<and> sk_state q = TCP_LISTEN \<and> sk_accept_backlog q < sk_backlog q \<and>
     tcp_sock_lookup_listen (if_ip ?j) 80 b = Inr (Some 0) \<and> established_table b = (\<lambda>_. []) \<and> net_sent b = [] \<and>
     net_rtable b = net_rtable (example_host ?j 0x0A000101 (if_mac ?i)) \<and>
     arp_entries b = arp_entries (example_host ?j 0x0A000101 (if_mac ?i))"
    by (simp add: example_host_def empty_net_def init_tcp_stack_def alloc_tcp_sock_def put_sock_def tcp_sock_bind_def
        tcp_sock_set_sport_def tcp_port_in_use_def upd_sock_def with_sock_def new_tcp_sock_def tcp_bind_hash_def
        tcp_sock_listen_def tcp_set_state_def tcp_hash_def Let_def tcp_sock_lookup_listen_def)
  then obtain b q where b: "fold_res host_step [Alloc, Bind 0 (htons 80), Listen 0 5] (example_host ?j 0x0A000101 (if_mac ?i)) = Inr b"
     "socks b 0 = Some q" "sk_state q = TCP_LISTEN" "sk_accept_backlog q < sk_backlog q"
     "tcp_sock_lookup_listen (if_ip ?j) 80 b = Inr (Some 0)" "established_table b = (\<lambda>_. [])" "net_sent b = []"
     "net_rtable b = net_rtable (example_host ?j 0x0A000101 (if_mac ?i))"
     "arp_entries b = arp_entries (example_host ?j 0x0A000101 (if_mac ?i))" by blast
  have wf: "tcp_wf ?a" "tcp_wf b"
    by (rule host_run_wf[OF a] host_run_wf[OF b(1)], simp add: example_host_def init_wf empty_net_def)+
  let ?m = "new_rt_entry (if_ip ?i AND if_mask ?i) (if_mask ?i) 0 ?i"
  have c: "socks ?a 0 = Some new_tcp_sock" "longest_prefix_match (net_rtable ?a) (if_ip ?j) = Some ?m" "rt_iface ?m = ?i"
    "resolved ?a (if_ip ?j) ?i (if_mac ?j)"
    by (simp_all add: put_sock_def example_host_def init_tcp_stack_def longest_prefix_match_def rt_matches_def
        example_iface_def new_rt_entry_def resolved_def arpcache_lookup_def next_hop_def MAX_ARP_SIZE_def)
  have "[PORT_MIN..<PORT_MAX] = PORT_MIN # [Suc PORT_MIN..<PORT_MAX]" by (rule upt_conv_Cons) (simp add: PORT_MIN_def PORT_MAX_def)
  then have p: "tcp_get_port ?a = Inr 12345"
    by (simp add: tcp_get_port_def tcp_port_in_use_def put_sock_def example_host_def init_tcp_stack_def empty_net_def)
      (simp add: PORT_MIN_def)
  have p': "(12345 :: u16) \<noteq> 0" "tcp_sock_lookup_established (if_ip ?i) (if_ip ?j) 12345 80 ?a = Inr None"
    by (simp_all add: tcp_sock_lookup_established_def put_sock_def example_host_def init_tcp_stack_def)
  have r: "resolved b (if_ip ?i) ?j (if_mac ?i)" "tcp_sock_lookup_established (if_ip ?j) (if_ip ?i) 80 12345 b = Inr None"
    using b(6,8,9) by (simp_all add: example_host_def init_tcp_stack_def longest_prefix_match_def rt_matches_def
        example_iface_def new_rt_entry_def resolved_def arpcache_lookup_def next_hop_def MAX_ARP_SIZE_def tcp_sock_lookup_established_def)
  have ip: "if_ip ?j = 0x0A000102" by (simp add: example_iface_def)
  have sent: "net_sent ?a = []" by (simp add: put_sock_def example_host_def init_tcp_stack_def empty_net_def)
  note three_way_handshake[OF wf c p p' b(5,2,3,4) r, unfolded sent b(7) append_Nil ip]
  with a b(1) show ?thesis by blast
qed

end
