(* ===== verification/Tcp_Reassembly.thy ===== *)
theory Tcp_Reassembly
  imports Tcp_Steps
begin

text \<open>
  The receive side of a connection: segments of a stream that arrive in any order are put together by
  \<open>tcp_sock_recv\<close> and its out-of-order buffer (\<open>tcp_in.c\<close>) and read with \<open>tcp_sock_read\<close>.  The theory
  rests on the laws of the ring buffer (locale \<open>byte_queue\<close>) and of sending (locale \<open>packet_service\<close>).
\<close>

section \<open>The stream and its segments\<close>

definition seg_off :: "bytes list \<Rightarrow> nat \<Rightarrow> nat" where
  "seg_off segs j = length (concat (take j segs))"

definition is_segment :: "bytes list \<Rightarrow> u32 \<Rightarrow> nat \<Rightarrow> tcp_cb \<Rightarrow> bool" where
  "is_segment segs r0 j cb \<longleftrightarrow> j < length segs \<and> cb_seq cb = r0 + of_nat (seg_off segs j)
     \<and> cb_seq_end cb = r0 + of_nat (seg_off segs (Suc j)) \<and> cb_payload cb = segs ! j
     \<and> cb_pl_len cb = int (length (segs ! j)) \<and> \<not> has_flag (cb_flags cb) TCP_FIN"

definition is_pending :: "bytes list \<Rightarrow> u32 \<Rightarrow> nat \<Rightarrow> recv_packet \<Rightarrow> bool" where
  "is_pending segs r0 j p \<longleftrightarrow> j < length segs \<and> rp_seq p = r0 + of_nat (seg_off segs j)
     \<and> rp_seq_end p = r0 + of_nat (seg_off segs (Suc j)) \<and> rp_packet p = segs ! j
     \<and> rp_len p = int (length (segs ! j)) \<and> \<not> has_flag (rp_flags p) TCP_FIN"

lemma seg_off_0 [simp]: "seg_off segs 0 = 0"
  by (simp add: seg_off_def)

lemma seg_off_Suc: "j < length segs \<Longrightarrow> seg_off segs (Suc j) = seg_off segs j + length (segs ! j)"
  by (simp add: seg_off_def take_Suc_conv_app_nth)

lemma seg_off_mono: "i \<le> j \<Longrightarrow> seg_off segs i \<le> seg_off segs j"
  by (auto simp: seg_off_def le_iff_add take_add)

lemma seg_off_le: "seg_off segs j \<le> length (concat segs)"
  using seg_off_mono[of j "max j (length segs)" segs] by (simp add: seg_off_def)

lemma seg_off_strict: "[] \<notin> set segs \<Longrightarrow> i < j \<Longrightarrow> j \<le> length segs \<Longrightarrow> seg_off segs i < seg_off segs j"
proof (induction j)
  case (Suc j)
  then have "segs ! j \<noteq> []" by (metis nth_mem Suc_le_lessD)
  then have "0 < length (segs ! j)" by simp
  with Suc.prems seg_off_Suc[of j segs] seg_off_mono[of i j segs] show ?case by linarith
qed simp

lemma seg_off_less_iff:
  "[] \<notin> set segs \<Longrightarrow> i \<le> length segs \<Longrightarrow> j \<le> length segs \<Longrightarrow> seg_off segs i < seg_off segs j \<longleftrightarrow> i < j"
  by (metis seg_off_mono seg_off_strict not_less)

lemma seg_off_eq_iff:
  "[] \<notin> set segs \<Longrightarrow> i \<le> length segs \<Longrightarrow> j \<le> length segs \<Longrightarrow> seg_off segs i = seg_off segs j \<longleftrightarrow> i = j"
  by (metis seg_off_strict less_irrefl linorder_neqE_nat)

text \<open>Streams short enough for the sequence numbers: no two of their positions are 2 GB apart.\<close>

lemma seq_eq_iff: "x < 2147483648 \<Longrightarrow> y < 2147483648 \<Longrightarrow> r0 + of_nat x = (r0 + of_nat y :: u32) \<longleftrightarrow> x = y"
  by (simp add: word_of_nat_eq_iff take_bit_eq_mod)

lemma seq_le_iff:
  assumes "x < 2147483648" "y < 2147483648"
  shows "less_or_equal_32b (r0 + of_nat x) (r0 + of_nat y) \<longleftrightarrow> x \<le> y"
proof -
  have "r0 + of_nat x - (r0 + of_nat y) = (of_int (int x - int y) :: u32)" by simp
  moreover have "sint (of_int (int x - int y) :: u32) = int x - int y"
    using assms by (simp only: signed_of_int) (simp add: signed_take_bit_int_eq_self)
  ultimately show ?thesis by (simp add: less_or_equal_32b_def)
qed

lemma seq_less_iff:
  assumes "unat r0 + x < 4294967296" "unat r0 + y < 4294967296"
  shows "(r0 + of_nat x :: u32) < r0 + of_nat y \<longleftrightarrow> x < y"
proof -
  have "unat (r0 + of_nat z) = unat r0 + z" if "unat r0 + z < 4294967296" for z
    using that by (simp add: unat_word_ariths unsigned_of_nat take_bit_eq_mod)
  with assms show ?thesis by (simp add: word_less_nat_alt)
qed

section \<open>The receive path on one socket\<close>

text \<open>
  The first \<open>m\<close> segments are delivered: what the reader got and what is in the buffer.  The
  out-of-order buffer holds the segments \<open>js\<close>, in ascending order, all behind the delivered ones.
\<close>

definition rx_at :: "bool \<Rightarrow> bytes list \<Rightarrow> u32 \<Rightarrow> bytes \<Rightarrow> nat \<Rightarrow> nat list \<Rightarrow> tcp_sock \<Rightarrow> bool" where
  "rx_at fits segs r0 out m js t \<longleftrightarrow> m \<le> length segs \<and> sk_rcv_nxt t = r0 + of_nat (seg_off segs m)
     \<and> rb_inv (sk_rcv_buf t) \<and> out @ contents (sk_rcv_buf t) = concat (take m segs)
     \<and> list_all2 (is_pending segs r0) js (sk_rcv_ofo_buf t) \<and> sorted_wrt (<) js \<and> (\<forall>j \<in> set js. m \<le> j)
     \<and> (fits \<longrightarrow> length (concat segs) \<le> capacity (sk_rcv_buf t) \<and> \<not> w_dead (sk_wait_recv t))"

definition stream_ok :: "bytes list \<Rightarrow> u32 \<Rightarrow> bool" where
  "stream_ok segs r0 \<longleftrightarrow> [] \<notin> set segs \<and> length (concat segs) < 2147483648
     \<and> unat r0 + length (concat segs) < 4294967296"

lemma off_bound: "stream_ok segs r0 \<Longrightarrow> seg_off segs j < 2147483648"
  using seg_off_le[of segs j] by (simp add: stream_ok_def)

lemma off_seq_eq: "stream_ok segs r0 \<Longrightarrow> i \<le> length segs \<Longrightarrow> j \<le> length segs \<Longrightarrow>
    r0 + of_nat (seg_off segs i) = (r0 + of_nat (seg_off segs j) :: u32) \<longleftrightarrow> i = j"
  using seq_eq_iff[OF off_bound[of segs r0 i] off_bound[of segs r0 j], of r0] seg_off_eq_iff[of segs i j]
  by (simp add: stream_ok_def)

lemma off_seq_le: "stream_ok segs r0 \<Longrightarrow> i \<le> length segs \<Longrightarrow> j \<le> length segs \<Longrightarrow>
    less_or_equal_32b (r0 + of_nat (seg_off segs i)) (r0 + of_nat (seg_off segs j)) \<longleftrightarrow> i \<le> j"
  using seq_le_iff[OF off_bound off_bound] seg_off_less_iff[of segs j i]
  by (metis linorder_not_le stream_ok_def)

lemma off_seq_less: "stream_ok segs r0 \<Longrightarrow> i \<le> length segs \<Longrightarrow> j \<le> length segs \<Longrightarrow>
    (r0 + of_nat (seg_off segs i) :: u32) < r0 + of_nat (seg_off segs j) \<longleftrightarrow> i < j"
  using seq_less_iff[of r0 "seg_off segs i" "seg_off segs j"] seg_off_less_iff[of segs i j]
    seg_off_le[of segs i] seg_off_le[of segs j] by (simp add: stream_ok_def)

lemma deliver_cases:
  assumes "socks s k = Some t" "rb_inv (sk_rcv_buf t)" "len = int (length buf)"
  shows "deliver k buf len s = Inl Sleeps \<and> ring_buffer_free (sk_rcv_buf t) < length buf \<or>
    (\<exists>rb s'. deliver k buf len s = Inr s' \<and> sock_step k (t\<lparr>sk_rcv_buf := rb\<rparr>) s s' \<and>
      rb_inv rb \<and> contents rb = contents (sk_rcv_buf t) @ buf \<and> capacity rb = capacity (sk_rcv_buf t))"
proof (cases "buf = []")
  case True
  with assms show ?thesis
    by (intro disjI2 exI[of _ "sk_rcv_buf t"] exI[of _ s])
      (auto simp: deliver_def with_sock_def intro!: sock_step_refl simp: same_tcp_def)
next
  case False
  show ?thesis
  proof (cases "ring_buffer_free (sk_rcv_buf t) < length buf")
    case True
    with False assms show ?thesis by (simp add: deliver_def with_sock_def)
  next
    case room: False
    then obtain rb where rb: "write_ring_buffer (sk_rcv_buf t) buf = Inr rb"
      using rb.put_room[OF assms(2), of buf] free_used[OF assms(2)] False by (auto simp: not_less)
    with False room assms rb.put_spec[OF assms(2) rb] show ?thesis
      by (intro disjI2 exI[of _ rb] exI[of _ "put_sock k (t\<lparr>sk_rcv_buf := rb\<rparr>) s"])
        (simp add: deliver_def with_sock_def sock_step_put same_tcp_def)
  qed
qed

lemma receive_fin_no_fin: "socks s k = Some t \<Longrightarrow> \<not> has_flag flags TCP_FIN \<Longrightarrow> receive_fin k flags s = Inr s"
  by (simp add: receive_fin_def with_sock_def)

text \<open>Taking the next segment, from the wire or from the out-of-order buffer.\<close>

lemma deliver_next:
  assumes t: "socks s k = Some t" and rx: "rx_at fits segs r0 out m js t" and j: "m < length segs"
    and f: "\<not> has_flag flags TCP_FIN" and js: "\<forall>j \<in> set js'. Suc m \<le> j" "sorted_wrt (<) js'"
    and up: "\<And>t. sk_rcv_nxt (up t) = r0 + of_nat (seg_off segs (Suc m))"
      "\<And>t. sk_rcv_buf (up t) = sk_rcv_buf t" "\<And>t. sk_wait_recv (up t) = sk_wait_recv t"
      "\<And>rb. list_all2 (is_pending segs r0) js' (sk_rcv_ofo_buf (up (t\<lparr>sk_rcv_buf := rb\<rparr>)))"
  shows "run_all [deliver k (segs ! m) (int (length (segs ! m))), receive_fin k flags, upd_sock k up] s = Inl Sleeps \<and> \<not> fits \<or>
    (\<exists>rb s'. run_all [deliver k (segs ! m) (int (length (segs ! m))), receive_fin k flags, upd_sock k up] s = Inr s' \<and>
      sock_step k (up (t\<lparr>sk_rcv_buf := rb\<rparr>)) s s' \<and> rx_at fits segs r0 out (Suc m) js' (up (t\<lparr>sk_rcv_buf := rb\<rparr>)))"
proof -
  have inv: "rb_inv (sk_rcv_buf t)" using rx by (simp add: rx_at_def)
  have room: "\<not> ring_buffer_free (sk_rcv_buf t) < length (segs ! m)" if fits
  proof -
    have "length (concat segs) \<le> ring_buffer_free (sk_rcv_buf t) + length (contents (sk_rcv_buf t))"
      using rx that free_used[OF inv] by (simp add: rx_at_def)
    moreover have "length (contents (sk_rcv_buf t)) \<le> seg_off segs m"
      using rx unfolding rx_at_def seg_off_def by (metis length_append le_add2)
    ultimately show ?thesis using seg_off_Suc[OF j] seg_off_le[of segs "Suc m"] by linarith
  qed
  consider "deliver k (segs ! m) (int (length (segs ! m))) s = Inl Sleeps" "\<not> fits"
    | rb s1 where "deliver k (segs ! m) (int (length (segs ! m))) s = Inr s1" "sock_step k (t\<lparr>sk_rcv_buf := rb\<rparr>) s s1"
      "rb_inv rb" "contents rb = contents (sk_rcv_buf t) @ segs ! m" "capacity rb = capacity (sk_rcv_buf t)"
    using deliver_cases[OF t inv refl, of "segs ! m"] room by blast
  then show ?thesis
  proof cases
    case 2
    have s1: "socks s1 k = Some (t\<lparr>sk_rcv_buf := rb\<rparr>)" using sock_step_socks[OF 2(2)] .
    have "run_all [deliver k (segs ! m) (int (length (segs ! m))), receive_fin k flags, upd_sock k up] s
        = Inr (put_sock k (up (t\<lparr>sk_rcv_buf := rb\<rparr>)) s1)"
      using 2(1) s1 receive_fin_no_fin[OF s1 f] by (simp add: upd_sock_def with_sock_def)
    moreover have "sock_step k (up (t\<lparr>sk_rcv_buf := rb\<rparr>)) s (put_sock k (up (t\<lparr>sk_rcv_buf := rb\<rparr>)) s1)"
      using sock_step_trans[OF 2(2) sock_step_put[of s1 s1]] by (simp add: same_tcp_def)
    moreover have "rx_at fits segs r0 out (Suc m) js' (up (t\<lparr>sk_rcv_buf := rb\<rparr>))"
      using rx j js up 2 by (simp add: rx_at_def take_Suc_conv_app_nth flip: append_assoc)
    ultimately show ?thesis by blast
  qed simp
qed

lemma drain_ofo_spec:
  assumes ok: "stream_ok segs r0"
  shows "socks s k = Some t \<Longrightarrow> rx_at fits segs r0 out m js t \<Longrightarrow>
    drain_ofo k (sk_rcv_ofo_buf t) s = Inl Sleeps \<and> \<not> fits \<or>
    (\<exists>t' s' m' js'. drain_ofo k (sk_rcv_ofo_buf t) s = Inr s' \<and> sock_step k t' s s' \<and>
      rx_at fits segs r0 out m' js' t' \<and> m' \<notin> set js' \<and> {..<m} \<union> set js \<subseteq> {..<m'} \<union> set js')"
proof (induction js arbitrary: s t m)
  case Nil
  then have "sk_rcv_ofo_buf t = []" by (simp add: rx_at_def)
  with Nil show ?case
    by (intro disjI2 exI[of _ t] exI[of _ s] exI[of _ m] exI[of _ "[]"]) (auto intro!: sock_step_refl simp: same_tcp_def)
next
  case (Cons j js)
  then obtain p ps where ofo: "sk_rcv_ofo_buf t = p # ps" "is_pending segs r0 j p" "list_all2 (is_pending segs r0) js ps"
    by (auto simp: rx_at_def list_all2_Cons1)
  have mj: "m \<le> j" "j < length segs" "sk_rcv_nxt t = r0 + of_nat (seg_off segs m)" "sorted_wrt (<) (j # js)"
    "\<forall>i \<in> set js. m \<le> i"
    using Cons.prems(2) ofo(2) by (auto simp: rx_at_def is_pending_def)
  have eq: "sk_rcv_nxt t = rp_seq p \<longleftrightarrow> m = j"
    using off_seq_eq[OF ok, of m j] mj ofo(2) by (simp add: is_pending_def)
  show ?case
  proof (cases "m = j")
    case False
    then have "drain_ofo k (sk_rcv_ofo_buf t) s = Inr s" using Cons.prems(1) eq ofo(1) by (simp add: with_sock_def)
    moreover have "m \<notin> set (j # js)" using False mj(1,4) by auto
    ultimately show ?thesis using Cons.prems
      by (intro disjI2 exI[of _ t] exI[of _ s] exI[of _ m] exI[of _ "j # js"]) (auto intro!: sock_step_refl simp: same_tcp_def)
  next
    case True
    have later: "\<forall>i \<in> set js. j < i" "sorted_wrt (<) js" using mj(4) by auto
    let ?up = "\<lambda>t. t\<lparr>sk_rcv_nxt := rp_seq_end p, sk_rcv_ofo_buf := ps\<rparr>"
    let ?ops = "[deliver k (rp_packet p) (rp_len p), receive_fin k (rp_flags p), upd_sock k ?up]"
    have "run_all ?ops s = Inl Sleeps \<and> \<not> fits \<or> (\<exists>rb s'. run_all ?ops s = Inr s' \<and>
        sock_step k (?up (t\<lparr>sk_rcv_buf := rb\<rparr>)) s s' \<and> rx_at fits segs r0 out (Suc m) js (?up (t\<lparr>sk_rcv_buf := rb\<rparr>)))"
      using deliver_next[OF Cons.prems, of "rp_flags p" js ?up] ofo(2,3) mj True later
      by (simp add: is_pending_def Suc_le_eq del: run_all.simps)
    moreover have "drain_ofo k (sk_rcv_ofo_buf t) s = bind_res (run_all ?ops s) (drain_ofo k ps)"
      using Cons.prems(1) eq True ofo(1) by (simp add: with_sock_def)
    ultimately consider "drain_ofo k (sk_rcv_ofo_buf t) s = Inl Sleeps" "\<not> fits"
      | rb s1 where "drain_ofo k (sk_rcv_ofo_buf t) s = drain_ofo k ps s1"
        "sock_step k (?up (t\<lparr>sk_rcv_buf := rb\<rparr>)) s s1" "rx_at fits segs r0 out (Suc m) js (?up (t\<lparr>sk_rcv_buf := rb\<rparr>))"
      by (elim disjE exE conjE) simp_all
    then show ?thesis
    proof cases
      case 2
      have sub: "{..<m} \<union> set (j # js) \<subseteq> {..<Suc m} \<union> set js" using True by auto
      from Cons.IH[OF sock_step_socks[OF 2(2)] 2(3)] 2(1) show ?thesis
        by (simp, elim disjE exE conjE) (use 2(2) sub in \<open>auto intro!: exI intro: sock_step_trans\<close>)
    qed simp
  qed
qed

text \<open>Sorting a segment in among the pending ones.\<close>

lemma insert_ofo_spec:
  assumes ok: "stream_ok segs r0" and p: "is_pending segs r0 j p"
  shows "list_all2 (is_pending segs r0) js ps \<Longrightarrow> sorted_wrt (<) js \<Longrightarrow> j \<notin> set js \<Longrightarrow>
    \<exists>js'. list_all2 (is_pending segs r0) js' (insert_ofo p ps) \<and> sorted_wrt (<) js' \<and> set js' = insert j (set js)"
proof (induction ps arbitrary: js)
  case Nil
  then show ?case using p by (auto intro!: exI[of _ "[j]"])
next
  case (Cons e ps)
  then obtain i ks where js: "js = i # ks" "is_pending segs r0 i e" "list_all2 (is_pending segs r0) ks ps"
    by (auto simp: list_all2_Cons2)
  have "rp_seq e > rp_seq p \<longleftrightarrow> j < i"
    using off_seq_less[OF ok, of j i] js(2) p by (simp add: is_pending_def)
  moreover have "\<exists>js'. list_all2 (is_pending segs r0) js' (insert_ofo p ps) \<and> sorted_wrt (<) js' \<and> set js' = insert j (set ks)"
    using Cons.IH[OF js(3)] Cons.prems js(1) by simp
  ultimately show ?case
  proof (cases "j < i")
    case True
    with Cons.prems js p \<open>rp_seq e > rp_seq p \<longleftrightarrow> j < i\<close> show ?thesis
      by (intro exI[of _ "j # js"]) auto
  next
    case False
    then have "i < j" using Cons.prems(3) js(1) by auto
    from \<open>\<exists>js'. _ js' \<and> _ js' \<and> _ js'\<close> obtain js' where
      "list_all2 (is_pending segs r0) js' (insert_ofo p ps)" "sorted_wrt (<) js'" "set js' = insert j (set ks)" by blast
    with False \<open>i < j\<close> Cons.prems js \<open>rp_seq e > rp_seq p \<longleftrightarrow> j < i\<close> show ?thesis
      by (intro exI[of _ "i # js'"]) auto
  qed
qed

lemma pending_seqs:
  assumes "stream_ok segs r0" "list_all2 (is_pending segs r0) js ps" "j < length segs"
  shows "r0 + of_nat (seg_off segs j) \<in> rp_seq ` set ps \<longleftrightarrow> j \<in> set js"
  using assms(2)
proof (induction rule: list_all2_induct)
  case (Cons i js p ps)
  have "r0 + of_nat (seg_off segs j) = rp_seq p \<longleftrightarrow> j = i"
    using off_seq_eq[OF assms(1), of j i] assms(3) Cons.hyps(1) by (simp add: is_pending_def)
  with Cons.IH show ?case by auto
qed simp

definition same_rx :: "tcp_sock \<Rightarrow> tcp_sock \<Rightarrow> bool" where
  "same_rx t t' \<longleftrightarrow> sk_rcv_nxt t' = sk_rcv_nxt t \<and> sk_rcv_buf t' = sk_rcv_buf t \<and> sk_rcv_ofo_buf t' = sk_rcv_ofo_buf t
     \<and> w_dead (sk_wait_recv t') = w_dead (sk_wait_recv t)"

lemma rx_at_same: "same_rx t t' \<Longrightarrow> rx_at fits segs r0 out m js t' = rx_at fits segs r0 out m js t"
  by (simp add: same_rx_def rx_at_def)

text \<open>The end of \<open>tcp_sock_recv\<close>: the window is advertised anew, the reader woken, an ACK sent.\<close>

lemma recv_tail:
  assumes "socks s k = Some t"
  shows "\<exists>t' s'. run_all [upd_sock k (\<lambda>t. wake_recv (t\<lparr>sk_rcv_wnd := of_nat (ring_buffer_free (sk_rcv_buf t))\<rparr>)),
      tcp_send_control_packet k TCP_ACK] s = Inr s' \<and> sock_step k t' s s' \<and> same_rx t t'"
proof -
  let ?f = "\<lambda>t. wake_recv (t\<lparr>sk_rcv_wnd := of_nat (ring_buffer_free (sk_rcv_buf t))\<rparr>)"
  from assms obtain t' s' where "run_all [upd_sock k ?f, tcp_send_control_packet k TCP_ACK] s = Inr s'"
    "sock_step k t' s s'" "((\<lambda>t t'. t' = ?f t) OO (\<lambda>t t'. t' = t) OO (\<lambda>t t'. t' = t)) t t'"
    by (rule updatesE[OF updates_Cons[OF updates_upd updates_Cons[OF updates_ack updates_Nil]]])
  moreover have "same_rx t (?f t)" by (simp add: same_rx_def wake_recv_def wake_up_def)
  ultimately show ?thesis by (auto simp del: run_all.simps)
qed

text \<open>A segment that was delivered before, or is pending, is answered and changes nothing.\<close>

lemma recv_old:
  assumes t: "socks s k = Some t"
    and old: "less_or_equal_32b (cb_seq_end cb) (sk_rcv_nxt t) \<or> cb_seq cb \<in> rp_seq ` set (sk_rcv_ofo_buf t)"
  shows "\<exists>s'. tcp_sock_recv k cb s = Inr s' \<and> sock_step k t s s'"
proof -
  have eq: "tcp_sock_recv k cb s = (if cb_pl_len cb = 0 \<and> \<not> has_flag (cb_flags cb) TCP_FIN then Inr s
      else tcp_send_control_packet k TCP_ACK s)"
    using t old by (simp add: tcp_sock_recv_def with_sock_def)
  from t obtain s' where "tcp_send_control_packet k TCP_ACK s = Inr s'" "sock_step k t s s'"
    by (rule updatesE[OF updates_ack]) simp
  with eq sock_step_refl[OF t, of s] show ?thesis by (auto simp: same_tcp_def)
qed

definition advanced :: "nat \<Rightarrow> nat list \<Rightarrow> nat \<Rightarrow> nat \<Rightarrow> nat list \<Rightarrow> bool" where
  "advanced m js j m' js' \<longleftrightarrow> m' \<notin> set js' \<and> insert j ({..<m} \<union> set js) \<subseteq> {..<m'} \<union> set js'"

text \<open>The parts of \<open>tcp_sock_recv\<close> for a segment that is not old.\<close>

definition store_segment :: "nat \<Rightarrow> tcp_cb \<Rightarrow> tcp_sock \<Rightarrow> 'b tcp_net_scheme \<Rightarrow> 'b tcp_net_scheme res" where
  "store_segment k cb t = (if sk_rcv_nxt t = cb_seq cb
     then run_all [deliver k (cb_payload cb) (cb_pl_len cb), receive_fin k (cb_flags cb),
            upd_sock k (\<lambda>t. t\<lparr>sk_rcv_nxt := cb_seq_end cb\<rparr>)]
     else upd_sock k (\<lambda>t. t\<lparr>sk_rcv_ofo_buf := insert_ofo
            \<lparr>rp_packet = cb_payload cb, rp_len = cb_pl_len cb, rp_seq = cb_seq cb,
             rp_seq_end = cb_seq_end cb, rp_flags = cb_flags cb\<rparr> (sk_rcv_ofo_buf t)\<rparr>))"

definition drain_stored :: "nat \<Rightarrow> 'b tcp_net_scheme \<Rightarrow> 'b tcp_net_scheme res" where
  "drain_stored k = with_sock k (\<lambda>t s. drain_ofo k (sk_rcv_ofo_buf t) s)"

definition answer_segment :: "nat \<Rightarrow> 'b tcp_net_scheme \<Rightarrow> 'b tcp_net_scheme res" where
  "answer_segment k = run_all [upd_sock k (\<lambda>t. wake_recv (t\<lparr>sk_rcv_wnd := of_nat (ring_buffer_free (sk_rcv_buf t))\<rparr>)),
     tcp_send_control_packet k TCP_ACK]"

lemma recv_parts:
  assumes "socks s k = Some t" "\<not> (less_or_equal_32b (cb_seq_end cb) (sk_rcv_nxt t) \<or> cb_seq cb \<in> rp_seq ` set (sk_rcv_ofo_buf t))"
  shows "tcp_sock_recv k cb s = run_all [store_segment k cb t, drain_stored k, answer_segment k] s"
  using assms by (simp add: tcp_sock_recv_def with_sock_def store_segment_def drain_stored_def answer_segment_def bind_res_def
      split: sum.split)

text \<open>The segment that is next is delivered, any other that is new goes to the buffer.\<close>

lemma store_segment_spec:
  assumes ok: "stream_ok segs r0" and t: "socks s k = Some t" and rx: "rx_at fits segs r0 out m js t" and m: "m \<notin> set js"
    and cb: "is_segment segs r0 j cb" and jm: "m \<le> j" "j \<notin> set js"
  shows "store_segment k cb t s = Inl Sleeps \<and> \<not> fits \<or> (\<exists>t1 s1 m1 js1. store_segment k cb t s = Inr s1 \<and> sock_step k t1 s s1 \<and>
    rx_at fits segs r0 out m1 js1 t1 \<and> insert j ({..<m} \<union> set js) \<subseteq> {..<m1} \<union> set js1)"
proof -
  have j: "j < length segs" "m \<le> length segs" "sk_rcv_nxt t = r0 + of_nat (seg_off segs m)"
    "list_all2 (is_pending segs r0) js (sk_rcv_ofo_buf t)" "sorted_wrt (<) js" "\<forall>i \<in> set js. m \<le> i"
    using cb rx by (auto simp: is_segment_def rx_at_def)
  have next_iff: "sk_rcv_nxt t = cb_seq cb \<longleftrightarrow> j = m"
    using off_seq_eq[OF ok, of m j] j cb by (auto simp: is_segment_def)
  show ?thesis
  proof (cases "j = m")
    case True
    have "\<forall>i \<in> set js. Suc m \<le> i" using j(6) m by (metis le_antisym not_less_eq_eq)
    with deliver_next[OF t rx, of "cb_flags cb" js "\<lambda>t. t\<lparr>sk_rcv_nxt := cb_seq_end cb\<rparr>"] cb True j
    have "store_segment k cb t s = Inl Sleeps \<and> \<not> fits \<or> (\<exists>rb s1. store_segment k cb t s = Inr s1 \<and>
        sock_step k (t\<lparr>sk_rcv_buf := rb, sk_rcv_nxt := cb_seq_end cb\<rparr>) s s1 \<and>
        rx_at fits segs r0 out (Suc m) js (t\<lparr>sk_rcv_buf := rb, sk_rcv_nxt := cb_seq_end cb\<rparr>))"
      unfolding store_segment_def using next_iff by (simp add: is_segment_def del: run_all.simps)
    with True show ?thesis by fastforce
  next
    case False
    let ?p = "\<lparr>rp_packet = cb_payload cb, rp_len = cb_pl_len cb, rp_seq = cb_seq cb, rp_seq_end = cb_seq_end cb, rp_flags = cb_flags cb\<rparr>"
    let ?t = "t\<lparr>sk_rcv_ofo_buf := insert_ofo ?p (sk_rcv_ofo_buf t)\<rparr>"
    have "is_pending segs r0 j ?p" using cb by (simp add: is_segment_def is_pending_def)
    from insert_ofo_spec[OF ok this j(4,5) jm(2)] obtain js1 where js1:
      "list_all2 (is_pending segs r0) js1 (insert_ofo ?p (sk_rcv_ofo_buf t))" "sorted_wrt (<) js1" "set js1 = insert j (set js)" by blast
    have "rx_at fits segs r0 out m js1 ?t" using rx js1 jm by (simp add: rx_at_def)
    moreover have "store_segment k cb t s = Inr (put_sock k ?t s)"
      using t next_iff False by (simp add: store_segment_def upd_sock_def with_sock_def)
    moreover have "sock_step k ?t s (put_sock k ?t s)" by (simp add: sock_step_put same_tcp_def)
    ultimately show ?thesis using js1(3) by blast
  qed
qed

lemma tcp_sock_recv_spec:
  fixes s :: "'b tcp_net_scheme"
  assumes ok: "stream_ok segs r0" and t: "socks s k = Some t" and rx: "rx_at fits segs r0 out m js t" and m: "m \<notin> set js"
    and cb: "is_segment segs r0 j cb"
  shows "tcp_sock_recv k cb s = Inl Sleeps \<and> \<not> fits \<or> (\<exists>t' s' m' js'. tcp_sock_recv k cb s = Inr s' \<and> sock_step k t' s s' \<and>
    rx_at fits segs r0 out m' js' t' \<and> advanced m js j m' js')"
proof -
  have j: "j < length segs" "m \<le> length segs" "sk_rcv_nxt t = r0 + of_nat (seg_off segs m)" "list_all2 (is_pending segs r0) js (sk_rcv_ofo_buf t)"
    using cb rx by (auto simp: is_segment_def rx_at_def)
  have old: "less_or_equal_32b (cb_seq_end cb) (sk_rcv_nxt t) \<or> cb_seq cb \<in> rp_seq ` set (sk_rcv_ofo_buf t)
      \<longleftrightarrow> j < m \<or> j \<in> set js"
    using off_seq_le[OF ok, of "Suc j" m] pending_seqs[OF ok j(4,1)] j cb by (simp add: is_segment_def Suc_le_eq)
  show ?thesis
  proof (cases "j < m \<or> j \<in> set js")
    case True
    with recv_old[OF t] old obtain s' where "tcp_sock_recv k cb s = Inr s'" "sock_step k t s s'" by blast
    with True rx m show ?thesis unfolding advanced_def by blast
  next
    case False
    then have recv: "tcp_sock_recv k cb s = run_all [store_segment k cb t, drain_stored k, answer_segment k] s" using recv_parts[OF t] old by simp
    from False store_segment_spec[OF ok t rx m cb] consider "store_segment k cb t s = Inl Sleeps" "\<not> fits" | t1 s1 m1 js1 where
      "store_segment k cb t s = Inr s1" "sock_step k t1 s s1" "rx_at fits segs r0 out m1 js1 t1" "insert j ({..<m} \<union> set js) \<subseteq> {..<m1} \<union> set js1"
      by (metis linorder_not_less)
    then show ?thesis
    proof cases
      case 2
      have s1: "socks s1 k = Some t1" using sock_step_socks[OF 2(2)] .
      then have dr: "drain_stored k s1 = drain_ofo k (sk_rcv_ofo_buf t1) s1" by (simp add: drain_stored_def with_sock_def)
      from drain_ofo_spec[OF ok s1 2(3)] consider "drain_stored k s1 = Inl Sleeps" "\<not> fits"
        | t2 s2 m2 js2 where "drain_stored k s1 = Inr s2" "sock_step k t2 s1 s2" "rx_at fits segs r0 out m2 js2 t2" "m2 \<notin> set js2"
          "{..<m1} \<union> set js1 \<subseteq> {..<m2} \<union> set js2" unfolding dr by blast
      then show ?thesis
      proof cases
        case d: 2
        from recv_tail[OF sock_step_socks[OF d(2)]] obtain t3 s3 where
          3: "answer_segment k s2 = Inr s3" "sock_step k t3 s2 s3" "same_rx t2 t3" unfolding answer_segment_def by blast
        have "tcp_sock_recv k cb s = Inr s3" "sock_step k t3 s s3"
          using recv 2(1,2) d(1,2) 3(1,2) by (auto intro: sock_step_trans)
        moreover have "rx_at fits segs r0 out m2 js2 t3" using rx_at_same[OF 3(3)] d(3) by simp
        moreover have "advanced m js j m2 js2" using d(4,5) 2(4) unfolding advanced_def by blast
        ultimately show ?thesis by blast
      qed (use recv 2(1) in simp)
    qed (use recv in simp)
  qed
qed

section \<open>A connection's receive side\<close>

text \<open>What happens to the socket: segments arrive, and the application reads.\<close>

datatype rx_event = Arrives tcp_cb | Reads nat

fun rx_step :: "nat \<Rightarrow> rx_event \<Rightarrow> 'b tcp_net_scheme \<times> bytes \<Rightarrow> ('b tcp_net_scheme \<times> bytes) res" where
  "rx_step k (Arrives cb) (s, out) = bind_res (tcp_sock_recv k cb s) (\<lambda>s. Inr (s, out))"
| "rx_step k (Reads n) (s, out) = bind_res (tcp_sock_read k n s) (\<lambda>(r, s).
     Inr (s, case r of Returned buf \<Rightarrow> out @ buf | Blocked \<Rightarrow> out))"

lemma sleep_loop_cases:
  "sleep_loop w = Inl Sleeps \<and> w_dead w \<or> (\<exists>w'. sleep_loop w = Inr w' \<and> w_dead w' = w_dead w)"
  by (auto simp: sleep_loop_def sleep_begin_def Let_def split: prod.splits sleep_result.splits)

text \<open>A read moves bytes from the buffer to the reader, or finds nothing to do; only a torn down wait structure makes it sleep.\<close>

lemma tcp_sock_read_moves:
  assumes t: "socks s k = Some t" and inv: "rb_inv (sk_rcv_buf t)"
  shows "rx_step k (Reads n) (s, out) = Inl Sleeps \<and> w_dead (sk_wait_recv t) \<or>
    (\<exists>t' s' out'. rx_step k (Reads n) (s, out) = Inr (s', out') \<and> sock_step k t' s s' \<and>
      sk_rcv_nxt t' = sk_rcv_nxt t \<and> sk_rcv_ofo_buf t' = sk_rcv_ofo_buf t \<and> w_dead (sk_wait_recv t') = w_dead (sk_wait_recv t) \<and>
      rb_inv (sk_rcv_buf t') \<and> capacity (sk_rcv_buf t') = capacity (sk_rcv_buf t) \<and>
      out' @ contents (sk_rcv_buf t') = out @ contents (sk_rcv_buf t))"
proof (cases "ring_buffer_empty (sk_rcv_buf t)")
  case True
  show ?thesis
  proof (cases "sk_state t = TCP_CLOSE_WAIT")
    case True
    with t \<open>ring_buffer_empty _\<close> inv show ?thesis
      by (intro disjI2 exI[of _ t] exI[of _ s] exI[of _ out])
        (auto simp: tcp_sock_read_def with_sock_def intro!: sock_step_refl simp: same_tcp_def)
  next
    case False
    consider "sleep_loop (sk_wait_recv t) = Inl Sleeps" "w_dead (sk_wait_recv t)"
      | w where "sleep_loop (sk_wait_recv t) = Inr w" "w_dead w = w_dead (sk_wait_recv t)"
      using sleep_loop_cases[of "sk_wait_recv t"] by blast
    then show ?thesis
    proof cases
      case 2
      with t True False inv show ?thesis
        by (intro disjI2 exI[of _ "t\<lparr>sk_wait_recv := w\<rparr>"] exI[of _ "put_sock k (t\<lparr>sk_wait_recv := w\<rparr>) s"] exI[of _ out])
          (simp add: tcp_sock_read_def with_sock_def sock_step_put same_tcp_def)
    qed (use t True False in \<open>simp add: tcp_sock_read_def with_sock_def\<close>)
  qed
next
  case False
  obtain buf rb where r: "read_ring_buffer (sk_rcv_buf t) n = (buf, rb)" by (meson surj_pair)
  let ?t = "t\<lparr>sk_rcv_buf := rb, sk_rcv_wnd := of_nat (ring_buffer_free rb), sk_wait_recv := fst (wake_up (sk_wait_recv t))\<rparr>"
  have "buf @ contents rb = contents (sk_rcv_buf t)" "rb_inv rb"
    "capacity rb = capacity (sk_rcv_buf t)" using rb.get_spec[OF inv, of n] r by simp_all
  moreover have "rx_step k (Reads n) (s, out) = Inr (put_sock k ?t s, out @ buf)"
    using t False r by (simp add: tcp_sock_read_def with_sock_def)
  moreover have "sock_step k ?t s (put_sock k ?t s)" by (simp add: sock_step_put same_tcp_def)
  ultimately show ?thesis
    by (intro disjI2 exI[of _ ?t] exI[of _ "put_sock k ?t s"] exI[of _ "out @ buf"]) (simp add: wake_up_def)
qed

lemma tcp_sock_read_spec:
  assumes t: "socks s k = Some t" and rx: "rx_at fits segs r0 out m js t"
  shows "rx_step k (Reads n) (s, out) = Inl Sleeps \<and> \<not> fits \<or> (\<exists>t' s' out'. rx_step k (Reads n) (s, out) = Inr (s', out') \<and>
    sock_step k t' s s' \<and> rx_at fits segs r0 out' m js t')"
proof -
  have "rb_inv (sk_rcv_buf t)" using rx by (simp add: rx_at_def)
  from tcp_sock_read_moves[OF t this, of n out] show ?thesis
    using rx by (elim disjE exE conjE) (auto simp: rx_at_def)
qed

definition arrived :: "bytes list \<Rightarrow> u32 \<Rightarrow> rx_event list \<Rightarrow> nat set" where
  "arrived segs r0 es = {j. \<exists>cb. Arrives cb \<in> set es \<and> is_segment segs r0 j cb}"

definition honest :: "bytes list \<Rightarrow> u32 \<Rightarrow> rx_event list \<Rightarrow> bool" where
  "honest segs r0 es \<longleftrightarrow> (\<forall>cb. Arrives cb \<in> set es \<longrightarrow> (\<exists>j. is_segment segs r0 j cb))"

lemma is_segment_unique:
  "stream_ok segs r0 \<Longrightarrow> is_segment segs r0 i cb \<Longrightarrow> is_segment segs r0 j cb \<Longrightarrow> i = j"
  using off_seq_eq[of segs r0 i j] by (simp add: is_segment_def)

lemma rx_run_spec:
  assumes ok: "stream_ok segs r0"
  shows "honest segs r0 es \<Longrightarrow> socks s k = Some t \<Longrightarrow> rx_at fits segs r0 out m js t \<Longrightarrow> m \<notin> set js \<Longrightarrow>
    fold_res (rx_step k) es (s, out) = Inl Sleeps \<and> \<not> fits \<or>
    (\<exists>t' s' out' m' js'. fold_res (rx_step k) es (s, out) = Inr (s', out') \<and> sock_step k t' s s' \<and>
      rx_at fits segs r0 out' m' js' t' \<and> m' \<notin> set js' \<and> arrived segs r0 es \<union> {..<m} \<union> set js \<subseteq> {..<m'} \<union> set js')"
proof (induction es arbitrary: s t out m js)
  case Nil
  then show ?case
    by (intro disjI2 exI[of _ t] exI[of _ s] exI[of _ out] exI[of _ m] exI[of _ js])
      (auto simp: arrived_def intro!: sock_step_refl simp: same_tcp_def)
next
  case (Cons e es)
  have h: "honest segs r0 es" using Cons.prems(1) by (simp add: honest_def)
  have "rx_step k e (s, out) = Inl Sleeps \<and> \<not> fits \<or> (\<exists>t1 s1 out1 m1 js1. rx_step k e (s, out) = Inr (s1, out1) \<and>
      sock_step k t1 s s1 \<and> rx_at fits segs r0 out1 m1 js1 t1 \<and> m1 \<notin> set js1 \<and>
      arrived segs r0 [e] \<union> {..<m} \<union> set js \<subseteq> {..<m1} \<union> set js1)"
  proof (cases e)
    case (Arrives cb)
    then obtain j where j: "is_segment segs r0 j cb" using Cons.prems(1) by (auto simp: honest_def)
    have "arrived segs r0 [e] = {j}" using Arrives j is_segment_unique[OF ok] by (auto simp: arrived_def)
    with tcp_sock_recv_spec[OF ok Cons.prems(2-4) j] Arrives show ?thesis
      by (elim disjE exE conjE) (auto simp: advanced_def)
  next
    case (Reads n)
    then have "arrived segs r0 [e] = {}" by (simp add: arrived_def)
    with tcp_sock_read_spec[OF Cons.prems(2,3), of n] Reads Cons.prems(4) show ?thesis by fastforce
  qed
  then consider "rx_step k e (s, out) = Inl Sleeps" "\<not> fits" | t1 s1 out1 m1 js1 where "rx_step k e (s, out) = Inr (s1, out1)"
    "sock_step k t1 s s1" "rx_at fits segs r0 out1 m1 js1 t1" "m1 \<notin> set js1"
    "arrived segs r0 [e] \<union> {..<m} \<union> set js \<subseteq> {..<m1} \<union> set js1" by blast
  then show ?case
  proof cases
    case 2
    have arr: "arrived segs r0 (e # es) = arrived segs r0 [e] \<union> arrived segs r0 es" by (auto simp: arrived_def)
    from Cons.IH[OF h sock_step_socks[OF 2(2)] 2(3,4)] 2(1) show ?thesis
    proof (elim disjE exE conjE)
      fix t' s' out' m' js'
      assume *: "fold_res (rx_step k) es (s1, out1) = Inr (s', out')" "sock_step k t' s1 s'" "rx_at fits segs r0 out' m' js' t'"
        "m' \<notin> set js'" "arrived segs r0 es \<union> {..<m1} \<union> set js1 \<subseteq> {..<m'} \<union> set js'"
      have "arrived segs r0 (e # es) \<union> {..<m} \<union> set js \<subseteq> {..<m'} \<union> set js'"
        unfolding arr using 2(5) *(5) by blast
      with * 2(1) sock_step_trans[OF 2(2) *(2)] show ?thesis by auto
    qed simp
  qed simp
qed

section \<open>Any pieces of the stream\<close>

text \<open>
  A segment need not be one of a fixed cut: it may be any run of bytes of the stream, at the sequence number of its first byte,
  and so overlap others in part.  \<open>xs\<close> is the stream before it and \<open>ys\<close> the stream behind it.
\<close>

definition part_of :: "bytes \<Rightarrow> u32 \<Rightarrow> u32 \<Rightarrow> u32 \<Rightarrow> bytes \<Rightarrow> int \<Rightarrow> u8 \<Rightarrow> bool" where
  "part_of stream r0 seq seq_end data len flags \<longleftrightarrow> (\<exists>xs ys. stream = xs @ data @ ys \<and> seq = r0 + of_nat (length xs)
     \<and> seq_end = r0 + of_nat (length (xs @ data))) \<and> len = int (length data) \<and> \<not> has_flag flags TCP_FIN"

definition is_piece :: "bytes \<Rightarrow> u32 \<Rightarrow> tcp_cb \<Rightarrow> bool" where
  "is_piece stream r0 cb \<longleftrightarrow>
     part_of stream r0 (cb_seq cb) (cb_seq_end cb) (cb_payload cb) (cb_pl_len cb) (cb_flags cb)"

definition piece_pending :: "bytes \<Rightarrow> u32 \<Rightarrow> recv_packet \<Rightarrow> bool" where
  "piece_pending stream r0 p \<longleftrightarrow>
     part_of stream r0 (rp_seq p) (rp_seq_end p) (rp_packet p) (rp_len p) (rp_flags p)"

text \<open>What holds throughout: a prefix of the stream is delivered, and whatever is pending is a piece of the stream.\<close>

definition prefix_at :: "bool \<Rightarrow> bytes \<Rightarrow> u32 \<Rightarrow> bytes \<Rightarrow> tcp_sock \<Rightarrow> bool" where
  "prefix_at fits stream r0 out t \<longleftrightarrow> (\<exists>rest. stream = out @ contents (sk_rcv_buf t) @ rest)
     \<and> sk_rcv_nxt t = r0 + of_nat (length (out @ contents (sk_rcv_buf t))) \<and> rb_inv (sk_rcv_buf t)
     \<and> (\<forall>p \<in> set (sk_rcv_ofo_buf t). piece_pending stream r0 p)
     \<and> (fits \<longrightarrow> length stream \<le> capacity (sk_rcv_buf t) \<and> \<not> w_dead (sk_wait_recv t))"

lemma prefix_at_moved:
  assumes "prefix_at fits stream r0 out t" "sk_rcv_nxt t' = sk_rcv_nxt t" "sk_rcv_ofo_buf t' = sk_rcv_ofo_buf t"
    "w_dead (sk_wait_recv t') = w_dead (sk_wait_recv t)" "rb_inv (sk_rcv_buf t')" "capacity (sk_rcv_buf t') = capacity (sk_rcv_buf t)"
    "out' @ contents (sk_rcv_buf t') = out @ contents (sk_rcv_buf t)"
  shows "prefix_at fits stream r0 out' t'"
  using assms(1,5) unfolding prefix_at_def append_assoc[symmetric] by (simp only: assms(2-4,6,7)) blast

lemma part_next:
  assumes "part_of stream r0 seq seq_end data len flags" "length stream < 2147483648"
    and "stream = got @ rest" "seq = r0 + of_nat (length got)"
  shows "\<exists>ys. rest = data @ ys" "seq_end = r0 + of_nat (length (got @ data))"
proof -
  from assms(1) obtain xs ys where x: "stream = xs @ data @ ys" "seq = r0 + of_nat (length xs)"
    "seq_end = r0 + of_nat (length (xs @ data))" by (auto simp: part_of_def)
  have "length xs < 2147483648" using assms(2) unfolding x(1) by simp
  moreover have "length got < 2147483648" using assms(2) unfolding assms(3) by simp
  ultimately have "length xs = length got" using seq_eq_iff[of "length xs" "length got" r0] assms(4) x(2) by simp
  moreover have "xs @ (data @ ys) = got @ rest" using x(1) assms(3) by simp
  ultimately have e: "xs = got" "rest = data @ ys" using append_eq_append_conv[of xs got] by blast+
  show "\<exists>ys. rest = data @ ys" using e(2) by blast
  show "seq_end = r0 + of_nat (length (got @ data))" using x(3) unfolding e(1) .
qed

lemma deliver_part:
  assumes len: "length stream < 2147483648" and t: "socks s k = Some t" and rx: "prefix_at fits stream r0 out t"
    and p: "part_of stream r0 (sk_rcv_nxt t) seq_end data len flags"
    and up: "\<And>t. sk_rcv_nxt (up t) = seq_end" "\<And>t. sk_rcv_buf (up t) = sk_rcv_buf t" "\<And>t. sk_wait_recv (up t) = sk_wait_recv t"
      "\<And>rb. set (sk_rcv_ofo_buf (up (t\<lparr>sk_rcv_buf := rb\<rparr>))) \<subseteq> set (sk_rcv_ofo_buf t)"
  shows "run_all [deliver k data len, receive_fin k flags, upd_sock k up] s = Inl Sleeps \<and> \<not> fits \<or>
    (\<exists>t' s'. run_all [deliver k data len, receive_fin k flags, upd_sock k up] s = Inr s' \<and> sock_step k t' s s' \<and>
      prefix_at fits stream r0 out t' \<and> (\<exists>rb. t' = up (t\<lparr>sk_rcv_buf := rb\<rparr>)))"
proof -
  let ?got = "out @ contents (sk_rcv_buf t)"
  from rx obtain rest where r: "stream = ?got @ rest" and inv: "rb_inv (sk_rcv_buf t)" and nxt: "sk_rcv_nxt t = r0 + of_nat (length ?got)"
    by (auto simp: prefix_at_def)
  from part_next[OF p len r nxt] obtain ys where ys: "rest = data @ ys" "seq_end = r0 + of_nat (length (?got @ data))" by blast
  have f: "\<not> has_flag flags TCP_FIN" and l: "len = int (length data)" using p by (simp_all add: part_of_def)
  have room: "\<not> ring_buffer_free (sk_rcv_buf t) < length data" if fits
  proof -
    have "length stream \<le> ring_buffer_free (sk_rcv_buf t) + length (contents (sk_rcv_buf t))"
      using rx that free_used[OF inv] by (simp add: prefix_at_def)
    then show ?thesis using r ys(1) by simp
  qed
  consider "deliver k data len s = Inl Sleeps" "\<not> fits"
    | rb s1 where "deliver k data len s = Inr s1" "sock_step k (t\<lparr>sk_rcv_buf := rb\<rparr>) s s1"
      "rb_inv rb" "contents rb = contents (sk_rcv_buf t) @ data" "capacity rb = capacity (sk_rcv_buf t)"
    using deliver_cases[OF t inv l] room by blast
  then show ?thesis
  proof cases
    case 2
    let ?t = "up (t\<lparr>sk_rcv_buf := rb\<rparr>)"
    have s1: "socks s1 k = Some (t\<lparr>sk_rcv_buf := rb\<rparr>)" using sock_step_socks[OF 2(2)] .
    have "run_all [deliver k data len, receive_fin k flags, upd_sock k up] s = Inr (put_sock k ?t s1)"
      using 2(1) s1 receive_fin_no_fin[OF s1 f] by (simp add: upd_sock_def with_sock_def)
    moreover have "sock_step k ?t s (put_sock k ?t s1)"
      using sock_step_trans[OF 2(2) sock_step_put[of s1 s1]] by (simp add: same_tcp_def)
    moreover have "prefix_at fits stream r0 out ?t"
      using rx r ys up(1-3) subsetD[OF up(4)] 2(3-5) by (auto simp: prefix_at_def)
    ultimately show ?thesis by blast
  qed simp
qed

lemma drain_ofo_prefix:
  assumes len: "length stream < 2147483648"
  shows "socks s k = Some t \<Longrightarrow> prefix_at fits stream r0 out t \<Longrightarrow> sk_rcv_ofo_buf t = ps \<Longrightarrow>
    drain_ofo k ps s = Inl Sleeps \<and> \<not> fits \<or>
    (\<exists>t' s'. drain_ofo k ps s = Inr s' \<and> sock_step k t' s s' \<and> prefix_at fits stream r0 out t')"
proof (induction ps arbitrary: s t)
  case Nil
  then show ?case
    by (intro disjI2 exI[of _ t] exI[of _ s]) (auto intro!: sock_step_refl simp: same_tcp_def)
next
  case (Cons p ps)
  show ?case
  proof (cases "sk_rcv_nxt t = rp_seq p")
    case False
    then have "drain_ofo k (p # ps) s = Inr s" using Cons.prems(1) by (simp add: with_sock_def)
    with Cons.prems show ?thesis
      by (intro disjI2 exI[of _ t] exI[of _ s]) (auto intro!: sock_step_refl simp: same_tcp_def)
  next
    case True
    let ?up = "\<lambda>t. t\<lparr>sk_rcv_nxt := rp_seq_end p, sk_rcv_ofo_buf := ps\<rparr>"
    let ?ops = "[deliver k (rp_packet p) (rp_len p), receive_fin k (rp_flags p), upd_sock k ?up]"
    have pp: "piece_pending stream r0 p" using Cons.prems(2,3) by (auto simp: prefix_at_def)
    have "part_of stream r0 (sk_rcv_nxt t) (rp_seq_end p) (rp_packet p) (rp_len p) (rp_flags p)"
      using pp unfolding True piece_pending_def .
    note d = deliver_part[OF len Cons.prems(1,2) this, of ?up]
    have eq: "drain_ofo k (p # ps) s = bind_res (run_all ?ops s) (drain_ofo k ps)"
      using Cons.prems(1) True by (simp add: with_sock_def)
    from d Cons.prems(3) consider "run_all ?ops s = Inl Sleeps" "\<not> fits" | rb s1 where "run_all ?ops s = Inr s1"
      "sock_step k (?up (t\<lparr>sk_rcv_buf := rb\<rparr>)) s s1" "prefix_at fits stream r0 out (?up (t\<lparr>sk_rcv_buf := rb\<rparr>))"
      by (auto simp del: run_all.simps)
    then show ?thesis
    proof cases
      case 2
      from Cons.IH[OF sock_step_socks[OF 2(2)] 2(3)] have
        "drain_ofo k ps s1 = Inl Sleeps \<and> \<not> fits \<or>
         (\<exists>t' s'. drain_ofo k ps s1 = Inr s' \<and> sock_step k t' s1 s' \<and> prefix_at fits stream r0 out t')" by simp
      moreover have "drain_ofo k (p # ps) s = drain_ofo k ps s1" unfolding eq 2(1) by simp
      ultimately show ?thesis using sock_step_trans[OF 2(2)] by metis
    qed (unfold eq, simp)
  qed
qed

lemma set_insert_ofo: "set (insert_ofo p ps) = insert p (set ps)"
  by (induction ps) auto

lemma store_segment_prefix:
  assumes len: "length stream < 2147483648" and t: "socks s k = Some t" and rx: "prefix_at fits stream r0 out t"
    and cb: "is_piece stream r0 cb"
  shows "store_segment k cb t s = Inl Sleeps \<and> \<not> fits \<or>
    (\<exists>t' s'. store_segment k cb t s = Inr s' \<and> sock_step k t' s s' \<and> prefix_at fits stream r0 out t')"
proof (cases "sk_rcv_nxt t = cb_seq cb")
  case True
  let ?up = "\<lambda>t. t\<lparr>sk_rcv_nxt := cb_seq_end cb\<rparr>"
  have p: "part_of stream r0 (sk_rcv_nxt t) (cb_seq_end cb) (cb_payload cb) (cb_pl_len cb) (cb_flags cb)"
    using cb True by (simp add: is_piece_def)
  have "store_segment k cb t s = run_all [deliver k (cb_payload cb) (cb_pl_len cb), receive_fin k (cb_flags cb), upd_sock k ?up] s"
    using True by (simp add: store_segment_def del: run_all.simps)
  with deliver_part[OF len t rx p, of ?up] show ?thesis by (auto simp del: run_all.simps)
next
  case False
  let ?p = "\<lparr>rp_packet = cb_payload cb, rp_len = cb_pl_len cb, rp_seq = cb_seq cb, rp_seq_end = cb_seq_end cb, rp_flags = cb_flags cb\<rparr>"
  let ?t = "t\<lparr>sk_rcv_ofo_buf := insert_ofo ?p (sk_rcv_ofo_buf t)\<rparr>"
  have "piece_pending stream r0 ?p" using cb by (simp add: is_piece_def piece_pending_def)
  then have "prefix_at fits stream r0 out ?t" using rx by (auto simp: prefix_at_def set_insert_ofo)
  moreover have "store_segment k cb t s = Inr (put_sock k ?t s)" using t False by (simp add: store_segment_def upd_sock_def with_sock_def)
  moreover have "sock_step k ?t s (put_sock k ?t s)" by (simp add: sock_step_put same_tcp_def)
  ultimately show ?thesis by blast
qed

lemma tcp_sock_recv_prefix:
  fixes s :: "'b tcp_net_scheme"
  assumes len: "length stream < 2147483648" and t: "socks s k = Some t" and rx: "prefix_at fits stream r0 out t"
    and cb: "is_piece stream r0 cb"
  shows "tcp_sock_recv k cb s = Inl Sleeps \<and> \<not> fits \<or>
    (\<exists>t' s'. tcp_sock_recv k cb s = Inr s' \<and> sock_step k t' s s' \<and> prefix_at fits stream r0 out t')"
proof (cases "less_or_equal_32b (cb_seq_end cb) (sk_rcv_nxt t) \<or> cb_seq cb \<in> rp_seq ` set (sk_rcv_ofo_buf t)")
  case True
  with recv_old[OF t True] rx show ?thesis by blast
next
  case False
  note eq = recv_parts[OF t False]
  from store_segment_prefix[OF len t rx cb] consider "store_segment k cb t s = Inl Sleeps" "\<not> fits" | t1 s1 where
    "store_segment k cb t s = Inr s1" "sock_step k t1 s s1" "prefix_at fits stream r0 out t1" by blast
  then show ?thesis
  proof cases
    case 2
    have s1: "socks s1 k = Some t1" using sock_step_socks[OF 2(2)] .
    then have dr: "drain_stored k s1 = drain_ofo k (sk_rcv_ofo_buf t1) s1" by (simp add: drain_stored_def with_sock_def)
    from drain_ofo_prefix[OF len s1 2(3) refl] consider "drain_stored k s1 = Inl Sleeps" "\<not> fits" | t2 s2 where
      "drain_stored k s1 = Inr s2" "sock_step k t2 s1 s2" "prefix_at fits stream r0 out t2" unfolding dr by blast
    then show ?thesis
    proof cases
      case d: 2
      from recv_tail[OF sock_step_socks[OF d(2)]] obtain t3 s3 where
        3: "answer_segment k s2 = Inr s3" "sock_step k t3 s2 s3" "same_rx t2 t3" unfolding answer_segment_def by blast
      have "tcp_sock_recv k cb s = Inr s3" "sock_step k t3 s s3"
        using eq 2(1,2) d(1,2) 3(1,2) by (auto intro: sock_step_trans)
      moreover have "prefix_at fits stream r0 out t3" using d(3) 3(3) by (simp add: prefix_at_def same_rx_def)
      ultimately show ?thesis by blast
    qed (use eq 2(1) in simp)
  qed (use eq in simp)
qed

lemma rx_run_prefix:
  assumes len: "length stream < 2147483648"
  shows "\<forall>cb. Arrives cb \<in> set es \<longrightarrow> is_piece stream r0 cb \<Longrightarrow> socks s k = Some t \<Longrightarrow> prefix_at fits stream r0 out t \<Longrightarrow>
    fold_res (rx_step k) es (s, out) = Inl Sleeps \<and> \<not> fits \<or>
    (\<exists>t' s' out'. fold_res (rx_step k) es (s, out) = Inr (s', out') \<and> sock_step k t' s s' \<and> prefix_at fits stream r0 out' t')"
proof (induction es arbitrary: s t out)
  case Nil
  then show ?case
    by (intro disjI2 exI[of _ t] exI[of _ s] exI[of _ out]) (auto intro!: sock_step_refl simp: same_tcp_def)
next
  case (Cons e es)
  have "rx_step k e (s, out) = Inl Sleeps \<and> \<not> fits \<or> (\<exists>t1 s1 out1. rx_step k e (s, out) = Inr (s1, out1) \<and>
      sock_step k t1 s s1 \<and> prefix_at fits stream r0 out1 t1)"
  proof (cases e)
    case (Arrives cb)
    then have "is_piece stream r0 cb" using Cons.prems(1) by simp
    from tcp_sock_recv_prefix[OF len Cons.prems(2,3) this] Arrives show ?thesis
      by (elim disjE exE conjE) auto
  next
    case (Reads n)
    have "rb_inv (sk_rcv_buf t)" using Cons.prems(3) by (simp add: prefix_at_def)
    from tcp_sock_read_moves[OF Cons.prems(2) this, of n out] show ?thesis
    proof (elim disjE exE conjE)
      fix t' s' out'
      assume *: "rx_step k (Reads n) (s, out) = Inr (s', out')" "sock_step k t' s s'"
        and m: "sk_rcv_nxt t' = sk_rcv_nxt t" "sk_rcv_ofo_buf t' = sk_rcv_ofo_buf t" "w_dead (sk_wait_recv t') = w_dead (sk_wait_recv t)"
          "rb_inv (sk_rcv_buf t')" "capacity (sk_rcv_buf t') = capacity (sk_rcv_buf t)"
          "out' @ contents (sk_rcv_buf t') = out @ contents (sk_rcv_buf t)"
      from * prefix_at_moved[OF Cons.prems(3) m] Reads show ?thesis by blast
    qed (use Reads Cons.prems(3) in \<open>auto simp: prefix_at_def\<close>)
  qed
  then consider "rx_step k e (s, out) = Inl Sleeps" "\<not> fits" | t1 s1 out1 where "rx_step k e (s, out) = Inr (s1, out1)"
    "sock_step k t1 s s1" "prefix_at fits stream r0 out1 t1" by blast
  then show ?case
  proof cases
    case 2
    have "\<forall>cb. Arrives cb \<in> set es \<longrightarrow> is_piece stream r0 cb" using Cons.prems(1) by simp
    from Cons.IH[OF this sock_step_socks[OF 2(2)] 2(3)] 2(1) sock_step_trans[OF 2(2)] show ?thesis
      by (elim disjE exE conjE) auto
  qed simp
qed

section \<open>Properties\<close>


text \<open>One byte at a sequence number.\<close>

definition byte_segment :: "u32 \<Rightarrow> u8 \<Rightarrow> tcp_cb \<Rightarrow> bool" where
  "byte_segment seq b cb \<longleftrightarrow> cb_seq cb = seq \<and> cb_seq_end cb = seq + 1 \<and> cb_payload cb = [b] \<and> cb_pl_len cb = 1
     \<and> \<not> has_flag (cb_flags cb) TCP_FIN"

definition pending_of :: "tcp_cb \<Rightarrow> recv_packet" where
  "pending_of cb = \<lparr>rp_packet = cb_payload cb, rp_len = cb_pl_len cb, rp_seq = cb_seq cb,
     rp_seq_end = cb_seq_end cb, rp_flags = cb_flags cb\<rparr>"

lemma drain_ofo_stops: "socks s k = Some t \<Longrightarrow> ps = [] \<or> rp_seq (hd ps) \<noteq> sk_rcv_nxt t \<Longrightarrow> drain_ofo k ps s = Inr s"
  by (cases ps) (auto simp: with_sock_def)

lemma recv_later:
  assumes t: "socks s k = Some t" and nxt: "sk_rcv_nxt t \<noteq> cb_seq cb"
    and new: "\<not> less_or_equal_32b (cb_seq_end cb) (sk_rcv_nxt t)" "cb_seq cb \<notin> rp_seq ` set (sk_rcv_ofo_buf t)"
    and hd: "rp_seq (hd (insert_ofo (pending_of cb) (sk_rcv_ofo_buf t))) \<noteq> sk_rcv_nxt t"
  shows "\<exists>s' t'. tcp_sock_recv k cb s = Inr s' \<and> sock_step k t' s s' \<and>
    same_rx (t\<lparr>sk_rcv_ofo_buf := insert_ofo (pending_of cb) (sk_rcv_ofo_buf t)\<rparr>) t'"
proof -
  let ?t = "t\<lparr>sk_rcv_ofo_buf := insert_ofo (pending_of cb) (sk_rcv_ofo_buf t)\<rparr>"
  let ?s = "put_sock k ?t s"
  have s: "socks ?s k = Some ?t" by (simp add: put_sock_def)
  from recv_tail[OF s] obtain t' s' where tl: "run_all [upd_sock k (\<lambda>t. wake_recv (t\<lparr>sk_rcv_wnd := of_nat (ring_buffer_free (sk_rcv_buf t))\<rparr>)),
      tcp_send_control_packet k TCP_ACK] ?s = Inr s'" "sock_step k t' ?s s'" "same_rx ?t t'" by blast
  have "drain_ofo k (sk_rcv_ofo_buf ?t) ?s = Inr ?s" by (rule drain_ofo_stops[OF s]) (use hd in simp)
  then have "tcp_sock_recv k cb s = Inr s'"
    using t nxt new tl(1) s by (simp add: tcp_sock_recv_def with_sock_def upd_sock_def pending_of_def)
  moreover have "sock_step k t' s s'" using sock_step_trans[OF sock_step_put tl(2)] by (simp add: same_tcp_def)
  ultimately show ?thesis using tl(3) by blast
qed

lemma recv_now:
  assumes t: "socks s k = Some t" and nxt: "sk_rcv_nxt t = cb_seq cb" and inv: "rb_inv (sk_rcv_buf t)"
    and new: "\<not> less_or_equal_32b (cb_seq_end cb) (sk_rcv_nxt t)" "cb_seq cb \<notin> rp_seq ` set (sk_rcv_ofo_buf t)"
    and cb: "cb_pl_len cb = int (length (cb_payload cb))" "\<not> has_flag (cb_flags cb) TCP_FIN"
    and room: "length (cb_payload cb) \<le> ring_buffer_free (sk_rcv_buf t)"
    and hd: "sk_rcv_ofo_buf t = [] \<or> rp_seq (hd (sk_rcv_ofo_buf t)) \<noteq> cb_seq_end cb"
  shows "\<exists>s' t'. tcp_sock_recv k cb s = Inr s' \<and> sock_step k t' s s' \<and> sk_rcv_nxt t' = cb_seq_end cb \<and>
    contents (sk_rcv_buf t') = contents (sk_rcv_buf t) @ cb_payload cb \<and> rb_inv (sk_rcv_buf t') \<and>
    sk_rcv_ofo_buf t' = sk_rcv_ofo_buf t"
proof -
  from deliver_cases[OF t inv cb(1)] room obtain rb s1 where d: "deliver k (cb_payload cb) (cb_pl_len cb) s = Inr s1"
    "sock_step k (t\<lparr>sk_rcv_buf := rb\<rparr>) s s1" "rb_inv rb" "contents rb = contents (sk_rcv_buf t) @ cb_payload cb" by auto
  let ?t = "t\<lparr>sk_rcv_buf := rb, sk_rcv_nxt := cb_seq_end cb\<rparr>"
  let ?s = "put_sock k ?t s1"
  have s1: "socks s1 k = Some (t\<lparr>sk_rcv_buf := rb\<rparr>)" using sock_step_socks[OF d(2)] .
  have s: "socks ?s k = Some ?t" by (simp add: put_sock_def)
  from recv_tail[OF s] obtain t' s' where tl: "run_all [upd_sock k (\<lambda>t. wake_recv (t\<lparr>sk_rcv_wnd := of_nat (ring_buffer_free (sk_rcv_buf t))\<rparr>)),
      tcp_send_control_packet k TCP_ACK] ?s = Inr s'" "sock_step k t' ?s s'" "same_rx ?t t'" by blast
  have "drain_ofo k (sk_rcv_ofo_buf ?t) ?s = Inr ?s" by (rule drain_ofo_stops[OF s]) (use hd in auto)
  then have "tcp_sock_recv k cb s = Inr s'"
    using t nxt new tl(1) s d(1) s1 receive_fin_no_fin[OF s1 cb(2)]
    by (simp add: tcp_sock_recv_def with_sock_def upd_sock_def)
  moreover have "sock_step k t' s s'"
    using sock_step_trans[OF d(2) sock_step_trans[OF sock_step_put tl(2)]] by (simp add: same_tcp_def)
  ultimately show ?thesis using tl(3) d(3,4) by (intro exI[of _ s'] exI[of _ t']) (simp add: same_rx_def)
qed

lemma recv_old_run:
  assumes "\<forall>e \<in> set es. \<exists>cb. e = Arrives cb \<and>
      (less_or_equal_32b (cb_seq_end cb) (sk_rcv_nxt t) \<or> cb_seq cb \<in> rp_seq ` set (sk_rcv_ofo_buf t))"
    and "socks s k = Some t"
  shows "\<exists>s'. fold_res (rx_step k) es (s, out) = Inr (s', out) \<and> sock_step k t s s'"
  using assms
proof (induction es arbitrary: s)
  case (Cons e es)
  then obtain cb where e: "e = Arrives cb"
    "less_or_equal_32b (cb_seq_end cb) (sk_rcv_nxt t) \<or> cb_seq cb \<in> rp_seq ` set (sk_rcv_ofo_buf t)" by auto
  from recv_old[OF Cons.prems(2) e(2)] obtain s1 where s1: "tcp_sock_recv k cb s = Inr s1" "sock_step k t s s1" by blast
  with Cons.IH[OF _ sock_step_socks[OF s1(2)]] Cons.prems(1) e(1) show ?case by (auto intro: sock_step_trans)
qed (auto intro!: sock_step_refl simp: same_tcp_def)

text \<open>
  C34: where the sequence numbers wrap around, reassembly can stop for good.  The out-of-order buffer is
  sorted by the bare 32-bit numbers, so a segment behind the wrap is put in front of one before it.
  Three one-byte segments at \<open>2^32 - 2\<close>, \<open>2^32 - 1\<close> and \<open>0\<close> that arrive in the reverse order leave
  the receiver with the first byte; the other two stay in the buffer, and however often the sender
  retransmits any of the three, the receiver only repeats that it expects \<open>2^32 - 1\<close>.
\<close>
theorem reassembly_stops_at_wrap:
  assumes t: "socks s k = Some t" "sk_rcv_nxt t = 0xFFFFFFFE" "sk_rcv_ofo_buf t = []" "rb_inv (sk_rcv_buf t)"
      "1 \<le> ring_buffer_free (sk_rcv_buf t)"
    and cb: "byte_segment 0xFFFFFFFE b0 c0" "byte_segment 0xFFFFFFFF b1 c1" "byte_segment 0 b2 c2"
    and es: "set es \<subseteq> Arrives ` {c0, c1, c2}"
  shows "\<exists>s' t'. fold_res (rx_step k) ([Arrives c2, Arrives c1, Arrives c0] @ es) (s, []) = Inr (s', []) \<and>
    socks s' k = Some t' \<and> contents (sk_rcv_buf t') = contents (sk_rcv_buf t) @ [b0] \<and> sk_rcv_nxt t' = 0xFFFFFFFF"
proof -
  note b = cb[unfolded byte_segment_def] and lt = less_or_equal_32b_def
  obtain s1 t1 where 1: "tcp_sock_recv k c2 s = Inr s1" "sock_step k t1 s s1" "sk_rcv_nxt t1 = 0xFFFFFFFE"
    "sk_rcv_buf t1 = sk_rcv_buf t" "sk_rcv_ofo_buf t1 = [pending_of c2]"
    using recv_later[OF t(1), of c2] b t by (auto simp: lt same_rx_def pending_of_def)
  obtain s2 t2 where 2: "tcp_sock_recv k c1 s1 = Inr s2" "sock_step k t2 s1 s2" "sk_rcv_nxt t2 = 0xFFFFFFFE"
    "sk_rcv_buf t2 = sk_rcv_buf t" "sk_rcv_ofo_buf t2 = [pending_of c2, pending_of c1]"
    using recv_later[OF sock_step_socks[OF 1(2)], of c1] b 1 by (auto simp: lt same_rx_def pending_of_def)
  obtain s3 t3 where 3: "tcp_sock_recv k c0 s2 = Inr s3" "sock_step k t3 s2 s3" "sk_rcv_nxt t3 = 0xFFFFFFFF"
    "contents (sk_rcv_buf t3) = contents (sk_rcv_buf t) @ [b0]" "sk_rcv_ofo_buf t3 = [pending_of c2, pending_of c1]"
    using recv_now[OF sock_step_socks[OF 2(2)], of c0] b 2 t by (auto simp: lt pending_of_def)
  have "\<forall>e \<in> set es. \<exists>cb. e = Arrives cb \<and>
      (less_or_equal_32b (cb_seq_end cb) (sk_rcv_nxt t3) \<or> cb_seq cb \<in> rp_seq ` set (sk_rcv_ofo_buf t3))"
    using es b 3 by (auto simp: lt pending_of_def)
  from recv_old_run[OF this sock_step_socks[OF 3(2)]] obtain s4 where
    "fold_res (rx_step k) es (s3, []) = Inr (s4, [])" "sock_step k t3 s3 s4" by blast
  with 1(1) 2(1) 3 sock_step_socks show ?thesis by (intro exI[of _ s4] exI[of _ t3]) simp
qed

text \<open>
  Why the completeness in C5 needs the segments of one cut.  A piece that begins before the byte expected next and ends behind it is
  put at the head of the out-of-order buffer, where its number never is the next one, and nothing leaves the buffer any more: with byte 100
  delivered, a piece with bytes 100 and 101, then byte 102, then byte 101 leave the receiver
  waiting for byte 102, which it has, however often any of them is sent again.
\<close>
lemma reassembly_stops_at_overlap:
  assumes t: "socks s k = Some t" "sk_rcv_nxt t = 101" "sk_rcv_ofo_buf t = []" "rb_inv (sk_rcv_buf t)"
      "1 \<le> ring_buffer_free (sk_rcv_buf t)"
    and c: "cb_seq c = 100" "cb_seq_end c = 102"
    and cb: "byte_segment 101 b1 c1" "byte_segment 102 b2 c2"
    and es: "set es \<subseteq> Arrives ` {c, c1, c2}"
  shows "\<exists>s' t'. fold_res (rx_step k) ([Arrives c, Arrives c2, Arrives c1] @ es) (s, []) = Inr (s', []) \<and>
    socks s' k = Some t' \<and> contents (sk_rcv_buf t') = contents (sk_rcv_buf t) @ [b1] \<and> sk_rcv_nxt t' = 102"
proof -
  note b = cb[unfolded byte_segment_def] c and lt = less_or_equal_32b_def
  obtain s1 t1 where 1: "tcp_sock_recv k c s = Inr s1" "sock_step k t1 s s1" "sk_rcv_nxt t1 = 101"
    "sk_rcv_buf t1 = sk_rcv_buf t" "sk_rcv_ofo_buf t1 = [pending_of c]"
    using recv_later[OF t(1), of c] b t by (auto simp: lt same_rx_def pending_of_def)
  obtain s2 t2 where 2: "tcp_sock_recv k c2 s1 = Inr s2" "sock_step k t2 s1 s2" "sk_rcv_nxt t2 = 101"
    "sk_rcv_buf t2 = sk_rcv_buf t" "sk_rcv_ofo_buf t2 = [pending_of c, pending_of c2]"
    using recv_later[OF sock_step_socks[OF 1(2)], of c2] b 1 by (auto simp: lt same_rx_def pending_of_def)
  obtain s3 t3 where 3: "tcp_sock_recv k c1 s2 = Inr s3" "sock_step k t3 s2 s3" "sk_rcv_nxt t3 = 102"
    "contents (sk_rcv_buf t3) = contents (sk_rcv_buf t) @ [b1]" "sk_rcv_ofo_buf t3 = [pending_of c, pending_of c2]"
    using recv_now[OF sock_step_socks[OF 2(2)], of c1] b 2 t by (auto simp: lt pending_of_def)
  have "\<forall>e \<in> set es. \<exists>cb. e = Arrives cb \<and>
      (less_or_equal_32b (cb_seq_end cb) (sk_rcv_nxt t3) \<or> cb_seq cb \<in> rp_seq ` set (sk_rcv_ofo_buf t3))"
    using es b 3 by (auto simp: lt pending_of_def)
  from recv_old_run[OF this sock_step_socks[OF 3(2)]] obtain s4 where
    "fold_res (rx_step k) es (s3, []) = Inr (s4, [])" "sock_step k t3 s3 s4" by blast
  with 1(1) 2(1) 3 sock_step_socks show ?thesis by (intro exI[of _ s4] exI[of _ t3]) simp
qed

text \<open>
  The example the witness runs on: two segments, which arrive in the wrong order, one of them twice,
  with a read in between.
\<close>

definition rx_example_sock :: tcp_sock where
  "rx_example_sock = new_tcp_sock\<lparr>sk_rcv_nxt := 100, sk_rcv_buf := alloc_ring_buffer 8\<rparr>"

definition rx_example_net :: "tcp_net" where
  "rx_example_net = \<lparr>net_ifaces = [], net_rtable = [], arp_entries = [], arp_reqs = [], net_clock = 0,
     net_rand = (\<lambda>_. 0), net_rpos = 0, net_sent = [], socks = [1 \<mapsto> rx_example_sock], next_sock = 2,
     established_table = (\<lambda>_. []), listen_table = (\<lambda>_. []), bind_table = (\<lambda>_. []), timer_list = []\<rparr>"

definition example_cb :: "u32 \<Rightarrow> bytes \<Rightarrow> tcp_cb" where
  "example_cb seq data = \<lparr>cb_saddr = 1, cb_daddr = 2, cb_sport = 3, cb_dport = 4, cb_seq = seq,
     cb_seq_end = seq + of_nat (length data), cb_ack = 0, cb_rwnd = 0, cb_flags = TCP_ACK,
     cb_payload = data, cb_pl_len = int (length data)\<rparr>"

lemma example_is_segment:
  "is_segment [[1, 2], [3]] 100 0 (example_cb 100 [1, 2])" "is_segment [[1, 2], [3]] 100 1 (example_cb 102 [3])"
  by (simp_all add: is_segment_def example_cb_def seg_off_def has_flag_def tcp_flag_defs)

lemma example_is_piece: "is_piece (xs @ data @ ys) 100 (example_cb (100 + of_nat (length xs)) data)"
proof -
  have "\<exists>as bs. xs @ data @ ys = as @ data @ bs \<and> (100 + of_nat (length xs) :: u32) = 100 + of_nat (length as) \<and>
      (100 + of_nat (length xs) + of_nat (length data) :: u32) = 100 + of_nat (length (as @ data))"
    by (intro exI[of _ xs] exI[of _ ys]) (simp add: add.assoc)
  then show ?thesis by (simp add: is_piece_def part_of_def example_cb_def has_flag_def tcp_flag_defs)
qed


theorem reassembly_stops_at_wrap_witness:
  "\<exists>s' t'. fold_res (rx_step 1) [Arrives (example_cb 0 [7]), Arrives (example_cb 0xFFFFFFFF [6]), Arrives (example_cb 0xFFFFFFFE [5]),
       Arrives (example_cb 0xFFFFFFFF [6])]
     (rx_example_net\<lparr>socks := [1 \<mapsto> rx_example_sock\<lparr>sk_rcv_nxt := 0xFFFFFFFE\<rparr>]\<rparr>, []) = Inr (s', []) \<and>
    socks s' 1 = Some t' \<and> contents (sk_rcv_buf t') = [5] \<and> sk_rcv_nxt t' = 0xFFFFFFFF"
proof -
  have "contents (sk_rcv_buf rx_example_sock) = []" "rb_inv (sk_rcv_buf rx_example_sock)" "sk_rcv_ofo_buf rx_example_sock = []"
    "ring_buffer_free (sk_rcv_buf rx_example_sock) = 8"
    using rb_inv_alloc[of 8] by (simp_all add: rx_example_sock_def new_tcp_sock_def alloc_ring_buffer_def ring_buffer_free_def)
  then show ?thesis
    using reassembly_stops_at_wrap[of "rx_example_net\<lparr>socks := [1 \<mapsto> rx_example_sock\<lparr>sk_rcv_nxt := 0xFFFFFFFE\<rparr>]\<rparr>" 1
        "rx_example_sock\<lparr>sk_rcv_nxt := 0xFFFFFFFE\<rparr>" 5 "example_cb 0xFFFFFFFE [5]" 6 "example_cb 0xFFFFFFFF [6]"
        7 "example_cb 0 [7]" "[Arrives (example_cb 0xFFFFFFFF [6])]"]
    by (simp add: byte_segment_def example_cb_def has_flag_def tcp_flag_defs del: fold_res.simps)
qed

end
