(* ===== verification/Tcp_Transfer.thy ===== *)
theory Tcp_Transfer
  imports Tcp_Conn Tcp_Reassembly
begin

text \<open>
  A stream from one host to the other: \<open>tcp_sock_write\<close> cuts the data into segments (\<open>tcp_sock.c\<close>, \<open>tcp_out.c\<close>), the frames cross the
  network, and at the other host each passes \<open>handle_packet\<close>, the checksum, the lookup, \<open>tcp_process\<close> with its
  window check and \<open>tcp_sock_recv\<close> (\<open>tcp_in.c\<close>), until the application reads.  \<open>after\<close>: partial
  correctness on one socket, for what a step leaves of the rest of it; \<open>carries\<close>: a packet holds a segment of the stream;
  \<open>wrote\<close>: what a call of \<open>tcp_sock_write\<close> has done.
\<close>

section \<open>What a step leaves of a connection\<close>

definition same_end :: "tcp_sock \<Rightarrow> tcp_sock \<Rightarrow> bool" where
  "same_end t t' \<longleftrightarrow> sk_state t' = sk_state t \<and> sk_sip t' = sk_sip t \<and> sk_dip t' = sk_dip t \<and> sk_sport t' = sk_sport t
     \<and> sk_dport t' = sk_dport t \<and> sk_send_buf t' = sk_send_buf t \<and> sk_retrans t' = sk_retrans t
     \<and> rb_size (sk_rcv_buf t') = rb_size (sk_rcv_buf t)"

lemma same_end_refl [simp]: "same_end t t"
  by (simp add: same_end_def)

lemma same_end_trans: "same_end t u \<Longrightarrow> same_end u v \<Longrightarrow> same_end t v"
  by (simp add: same_end_def)

definition window_told :: "tcp_sock \<Rightarrow> bool" where
  "window_told t \<longleftrightarrow> sk_rcv_wnd t = of_nat (ring_buffer_free (sk_rcv_buf t))"

text \<open>\<open>after k P F Q\<close>: if \<open>F\<close> returns from a state whose socket \<open>k\<close> satisfies \<open>P\<close>, the socket satisfies \<open>Q\<close>.\<close>

definition after :: "nat \<Rightarrow> (tcp_sock \<Rightarrow> bool) \<Rightarrow> ('b tcp_net_scheme \<Rightarrow> 'b tcp_net_scheme res) \<Rightarrow> (tcp_sock \<Rightarrow> bool) \<Rightarrow> bool" where
  "after k P F Q \<longleftrightarrow> (\<forall>s s' t. socks s k = Some t \<longrightarrow> P t \<longrightarrow> F s = Inr s' \<longrightarrow> (\<exists>t'. socks s' k = Some t' \<and> Q t'))"

lemma afterI: "(\<And>s s' t. socks s k = Some t \<Longrightarrow> P t \<Longrightarrow> F s = Inr s' \<Longrightarrow> \<exists>t'. socks s' k = Some t' \<and> Q t') \<Longrightarrow> after k P F Q"
  by (auto simp: after_def)

lemma afterD: "after k P F Q \<Longrightarrow> socks s k = Some t \<Longrightarrow> P t \<Longrightarrow> F s = Inr s' \<Longrightarrow> \<exists>t'. socks s' k = Some t' \<and> Q t'"
  by (auto simp: after_def)

lemma after_Nil: "after k P (run_all []) P"
  by (simp add: after_def)

lemma after_Cons: "after k P F Q \<Longrightarrow> after k Q (run_all Fs) R \<Longrightarrow> after k P (run_all (F # Fs)) R"
  unfolding after_def by (simp add: bind_res_Inr_conv) blast

lemma after_all: "list_all (\<lambda>F. after k P F P) Fs \<Longrightarrow> after k P (run_all Fs) P"
  by (induction Fs) (auto intro: after_Cons after_Nil)

lemma after_if: "(c \<Longrightarrow> after k P F Q) \<Longrightarrow> (\<not> c \<Longrightarrow> after k P G Q) \<Longrightarrow> after k P (\<lambda>s. if c then F s else G s) Q"
  by (cases c) simp_all

lemma after_Inr: "(\<And>t. P t \<Longrightarrow> Q t) \<Longrightarrow> after k P Inr Q"
  by (simp add: after_def)

lemma after_updates: "updates k F R \<Longrightarrow> (\<And>t t'. P t \<Longrightarrow> R t t' \<Longrightarrow> Q t') \<Longrightarrow> after k P F Q"
  by (rule afterI) (metis updatesE sum.inject(2))

lemma after_upd: "(\<And>t. P t \<Longrightarrow> Q (f t)) \<Longrightarrow> after k P (upd_sock k f) Q"
  by (rule after_updates[OF updates_upd]) simp

lemma after_ack: "after k P (tcp_send_control_packet k TCP_ACK) P"
  by (rule after_updates[OF updates_ack]) simp

lemma after_with: "(\<And>t. P t \<Longrightarrow> after k (\<lambda>u. u = t) (F t) Q) \<Longrightarrow> after k P (with_sock k F) Q"
  unfolding after_def with_sock_def by auto

lemma write_ring_buffer_size: "write_ring_buffer rb buf = Inr rb' \<Longrightarrow> rb_size rb' = rb_size rb"
  by (auto simp: write_ring_buffer_def Let_def split: if_splits)

lemma after_deliver:
  "(\<And>t rb. P t \<Longrightarrow> rb_size rb = rb_size (sk_rcv_buf t) \<Longrightarrow> P (t\<lparr>sk_rcv_buf := rb\<rparr>)) \<Longrightarrow> after k P (deliver k buf len) P"
  by (rule afterI) (auto simp: deliver_def with_sock_def bind_res_Inr_conv put_sock_def write_ring_buffer_size split: if_splits)

lemma after_fin: "\<not> has_flag flags TCP_FIN \<Longrightarrow> after k P (receive_fin k flags) P"
  by (rule afterI) (auto simp: receive_fin_def with_sock_def)

section \<open>Receiving keeps the rest of the socket\<close>

definition no_fin :: "tcp_sock \<Rightarrow> bool" where
  "no_fin t \<longleftrightarrow> (\<forall>p \<in> set (sk_rcv_ofo_buf t). \<not> has_flag (rp_flags p) TCP_FIN)"

declare set_insert_ofo [simp]

lemma after_drain:
  "\<forall>p \<in> set ps. \<not> has_flag (rp_flags p) TCP_FIN \<Longrightarrow> after k (same_end t0) (drain_ofo k ps) (same_end t0)"
proof (induction ps)
  case (Cons p ps)
  show ?case
  proof (rule afterI)
    fix s s' :: "'a tcp_net_scheme" and t
    assume t: "socks s k = Some t" "same_end t0 t" and r: "drain_ofo k (p # ps) s = Inr s'"
    show "\<exists>t'. socks s' k = Some t' \<and> same_end t0 t'"
    proof (cases "sk_rcv_nxt t = rp_seq p")
      case True
      have "after k (same_end t0) (run_all [deliver k (rp_packet p) (rp_len p), receive_fin k (rp_flags p),
            upd_sock k (\<lambda>t. t\<lparr>sk_rcv_nxt := rp_seq_end p, sk_rcv_ofo_buf := ps\<rparr>)]) (same_end t0)"
        using Cons.prems by (intro after_all) (auto simp: same_end_def intro!: after_deliver after_fin after_upd)
      then show ?thesis
        using t r True Cons unfolding after_def by (auto simp: with_sock_def bind_res_Inr_conv simp del: run_all.simps) blast
    qed (use t r in \<open>simp add: with_sock_def\<close>)
  qed
qed (simp add: after_def)

lemma after_recv:
  assumes "\<not> has_flag (cb_flags cb) TCP_FIN"
  shows "after k (\<lambda>t. same_end t0 t \<and> no_fin t \<and> window_told t) (tcp_sock_recv k cb :: 'b tcp_net_scheme \<Rightarrow> 'b tcp_net_scheme res)
    (\<lambda>t. same_end t0 t \<and> window_told t)"
  unfolding tcp_sock_recv_def
proof (rule after_with, goal_cases)
  case (1 t)
  then have t: "same_end t0 t \<and> no_fin t \<and> window_told t" .
  define first :: "'b tcp_net_scheme \<Rightarrow> 'b tcp_net_scheme res" where "first = (if sk_rcv_nxt t = cb_seq cb
        then run_all [deliver k (cb_payload cb) (cb_pl_len cb), receive_fin k (cb_flags cb),
               upd_sock k (\<lambda>t. t\<lparr>sk_rcv_nxt := cb_seq_end cb\<rparr>)]
        else upd_sock k (\<lambda>t. t\<lparr>sk_rcv_ofo_buf := insert_ofo
               \<lparr>rp_packet = cb_payload cb, rp_len = cb_pl_len cb, rp_seq = cb_seq cb,
                rp_seq_end = cb_seq_end cb, rp_flags = cb_flags cb\<rparr> (sk_rcv_ofo_buf t)\<rparr>))"
  have 1: "after k (\<lambda>u. u = t) first (\<lambda>t. same_end t0 t \<and> no_fin t)"
  proof (cases "sk_rcv_nxt t = cb_seq cb")
    case True
    have "after k (\<lambda>t. same_end t0 t \<and> no_fin t) first (\<lambda>t. same_end t0 t \<and> no_fin t)"
      unfolding first_def if_P[OF True] using assms
      by (intro after_all) (auto simp: same_end_def no_fin_def intro!: after_deliver after_fin after_upd)
    with t show ?thesis unfolding after_def by blast
  next
    case False
    show ?thesis unfolding first_def if_not_P[OF False]
      by (rule after_upd) (use t assms in \<open>auto simp: same_end_def no_fin_def\<close>)
  qed
  have 2: "after k (\<lambda>t. same_end t0 t \<and> no_fin t) (with_sock k (\<lambda>t s. drain_ofo k (sk_rcv_ofo_buf t) s)) (same_end t0)"
    by (rule after_with) (use after_drain in \<open>fastforce simp: no_fin_def after_def\<close>)
  have 3: "after k (same_end t0) (upd_sock k (\<lambda>t. wake_recv (t\<lparr>sk_rcv_wnd := of_nat (ring_buffer_free (sk_rcv_buf t))\<rparr>)))
      (\<lambda>t. same_end t0 t \<and> window_told t)"
    by (rule after_upd) (simp add: same_end_def wake_recv_def window_told_def)
  have 4: "after k (\<lambda>u. u = t) (tcp_send_control_packet k TCP_ACK) (\<lambda>t. same_end t0 t \<and> window_told t)"
    using after_ack[of k "\<lambda>u. u = t"] t unfolding after_def by blast
  have "after k (\<lambda>u. u = t) (\<lambda>s. if less_or_equal_32b (cb_seq_end cb) (sk_rcv_nxt t) \<or> cb_seq cb \<in> rp_seq ` set (sk_rcv_ofo_buf t) then
       (if cb_pl_len cb = 0 \<and> \<not> has_flag (cb_flags cb) TCP_FIN then Inr s else tcp_send_control_packet k TCP_ACK s)
     else run_all [first, with_sock k (\<lambda>t s. drain_ofo k (sk_rcv_ofo_buf t) s),
        upd_sock k (\<lambda>t. wake_recv (t\<lparr>sk_rcv_wnd := of_nat (ring_buffer_free (sk_rcv_buf t))\<rparr>)),
        tcp_send_control_packet k TCP_ACK] s) (\<lambda>t. same_end t0 t \<and> window_told t)"
    by (intro after_if 4 after_Cons[OF 1] after_Cons[OF 2] after_Cons[OF 3] after_Cons[OF after_ack] after_Nil after_Inr) (use t in auto)
  then show ?case unfolding first_def .
qed

section \<open>A data segment at an established connection with nothing to send\<close>

definition same_rest :: "tcp_sock \<Rightarrow> tcp_sock \<Rightarrow> bool" where
  "same_rest t t' \<longleftrightarrow> same_rx t t' \<and> same_end t t' \<and> sk_rcv_wnd t' = sk_rcv_wnd t"

lemma same_rest_refl [simp]: "same_rest t t"
  by (simp add: same_rest_def same_rx_def)

lemma same_rest_trans: "same_rest t u \<Longrightarrow> same_rest u v \<Longrightarrow> same_rest t v"
  by (auto simp: same_rest_def same_rx_def same_end_def)

definition nothing_sent :: "tcp_sock \<Rightarrow> bool" where
  "nothing_sent t \<longleftrightarrow> sk_state t = TCP_ESTABLISHED \<and> sk_send_buf t = [] \<and> \<not> tm_enable (sk_retrans t)"

text \<open>All that the processing of an acknowledgement needs of it.\<close>

definition acked_all :: "tcp_sock \<Rightarrow> bool" where
  "acked_all t \<longleftrightarrow> sk_state t \<noteq> TCP_SYN_RECV \<and> sk_state t \<noteq> TCP_SYN_SENT \<and> sk_send_buf t = [] \<and> \<not> tm_enable (sk_retrans t)"

lemma nothing_sent_acked: "nothing_sent t \<Longrightarrow> acked_all t"
  by (simp add: nothing_sent_def acked_all_def)

lemma acked_all_same: "same_end t t' \<Longrightarrow> acked_all t' = acked_all t"
  by (simp add: same_end_def acked_all_def)

lemma nothing_sent_same: "same_end t t' \<Longrightarrow> nothing_sent t' = nothing_sent t"
  by (simp add: same_end_def nothing_sent_def)

lemma same_rest_cwnd [simp]:
  "same_rest t (grow_cwnd u) = same_rest t u" "same_rest t (shrink_cwnd u) = same_rest t u"
  "same_rest t (fst (count_dupacks a u)) = same_rest t u"
  "same_rest t (wake_send u) = same_rest t u"
  by (simp_all add: same_rest_def same_rx_def same_end_def grow_cwnd_def shrink_cwnd_def count_dupacks_def wake_send_def Let_def)

lemma window_rest:
  assumes "socks s k = Some t" "acked_all t"
  shows "\<exists>t'. tcp_update_window_safe k cb s = Inr (put_sock k t' s) \<and> same_rest t t'"
proof (cases "less_or_equal_32b (sk_snd_una t) (cb_ack cb) \<and> less_or_equal_32b (cb_ack cb) (sk_snd_nxt t)")
  case True
  define t1 where "t1 = t\<lparr>sk_adv_wnd := ucast (ucast (sk_adv_wnd t) + (cb_ack cb - sk_snd_una t)), sk_snd_una := cb_ack cb\<rparr>"
  define tr where "tr = (if sk_recovery_point t1 = 0 \<and> sk_frpacks t1 = - 1 then count_dupacks (cb_ack cb) (grow_cwnd t1)
              else if sk_recovery_point t1 = 0 then (shrink_cwnd t1, False) else (t1, False))"
  have t1: "same_rest t t1" by (simp add: t1_def same_rest_def same_rx_def same_end_def)
  then have t2: "same_rest t (fst tr)" by (simp add: tr_def)
  have resend: "resend_first k s = Inr s" using assms by (simp add: resend_first_def with_sock_def acked_all_def)
  obtain t2 r where tr': "tr = (t2, r)" by (cases tr)
  have "tcp_update_window_safe k cb s = Inr (put_sock k (wake_send (t2\<lparr>sk_snd_wnd := send_window (sk_adv_wnd t2) (sk_cwnd t2)\<rparr>)) s)"
    using assms True resend tr' unfolding tr_def t1_def
    by (simp add: tcp_update_window_safe_def tcp_update_window_def with_sock_def acked_all_def Let_def)
  moreover have "same_rest t (t2\<lparr>sk_snd_wnd := send_window (sk_adv_wnd t2) (sk_cwnd t2)\<rparr>)"
    using t2 tr' by (simp add: same_rest_def same_rx_def same_end_def)
  ultimately show ?thesis by (metis same_rest_cwnd(4))
next
  case False
  have "tcp_update_window_safe k cb s = Inr s"
    unfolding tcp_update_window_safe_def with_sock_def assms(1) option.simps if_not_P[OF False] ..
  moreover have "put_sock k t s = s" using assms(1) by (simp add: put_sock_def fun_upd_idem)
  ultimately show ?thesis by (metis same_rest_refl)
qed

lemma ack_rest:
  assumes "socks s k = Some t" "acked_all t"
  shows "\<exists>t'. tcp_ack_send_buf k cb s = Inr (put_sock k t' s) \<and> same_rest t t'"
proof -
  have "\<exists>t'. fast_recovery k a False s = Inr (put_sock k t' s) \<and> same_rest t t'" for a
  proof (cases "sk_recovery_point t = 0")
    case True
    have "put_sock k t s = s" using assms(1) by (simp add: put_sock_def fun_upd_idem)
    moreover have "fast_recovery k a False s = Inr s" using True assms by (simp add: fast_recovery_def with_sock_def)
    ultimately show ?thesis by (intro exI[of _ t]) simp
  next
    case False
    let ?t = "wake_send (t\<lparr>sk_temp_cwnd := sk_temp_cwnd t + 1, sk_snd_wnd := send_window (sk_adv_wnd t) (sk_cwnd t)\<rparr>)"
    have "fast_recovery k a False s = Inr (put_sock k ?t s)" using False assms by (simp add: fast_recovery_def with_sock_def)
    moreover have "same_rest t ?t" by (simp add: same_rest_def same_rx_def same_end_def wake_send_def)
    ultimately show ?thesis by blast
  qed
  then obtain t' where 1: "fast_recovery k (cb_ack cb) False s = Inr (put_sock k t' s)" "same_rest t t'" by blast
  have n: "acked_all t'" using 1(2) assms(2) acked_all_same by (auto simp: same_rest_def)
  have 2: "tcp_unset_retrans_timer k (put_sock k t' s) = Inr (put_sock k t' s)"
    using n by (simp add: tcp_unset_retrans_timer_def with_sock_def put_sock_def acked_all_def)
  have p: "put_sock k (t\<lparr>sk_send_buf := []\<rparr>) s = s"
  proof -
    have "t\<lparr>sk_send_buf := []\<rparr> = t" using assms(2) by (simp add: acked_all_def)
    with assms(1) show ?thesis by (simp add: put_sock_def fun_upd_idem)
  qed
  have "tcp_ack_send_buf k cb s = Inr (put_sock k t' s)"
    using assms 1(1) 2 p by (simp add: tcp_ack_send_buf_def with_sock_def[of k _ s] unacked_def acked_all_def)
  with 1(2) show ?thesis by blast
qed

lemma put_step: "sock_step k t' s (put_sock k t' s)"
  by (rule sock_step_put) (simp add: same_tcp_def)

text \<open>Whatever the acknowledgement in it says, the rest of the processing leaves the receive side alone.\<close>

lemma ack_part:
  assumes "socks s k = Some t" "acked_all t"
  shows "\<exists>t' s'. run_all [tcp_update_window_safe k cb, tcp_ack_send_buf k cb] s = Inr s' \<and> sock_step k t' s s' \<and> same_rest t t'"
proof -
  from window_rest[OF assms, of cb] obtain u where 1: "tcp_update_window_safe k cb s = Inr (put_sock k u s)" "same_rest t u" by blast
  have u: "socks (put_sock k u s) k = Some u" "acked_all u"
    using 1(2) assms(2) acked_all_same by (auto simp: put_sock_def same_rest_def)
  from ack_rest[OF u, of cb] obtain v where 2: "tcp_ack_send_buf k cb (put_sock k u s) = Inr (put_sock k v (put_sock k u s))"
    "same_rest u v" by blast
  have "sock_step k v s (put_sock k v (put_sock k u s))" by (rule sock_step_trans[OF put_step put_step])
  with 1 2 same_rest_trans[OF 1(2) 2(2)] show ?thesis by auto
qed

text \<open>A stream that fits is always inside the window.\<close>

lemma in_window:
  assumes ok: "stream_ok segs r0" and rx: "rx_at True segs r0 out m js t" and cap: "capacity (sk_rcv_buf t) < 65536"
    and w: "window_told t" and cb: "is_segment segs r0 j cb" and j: "m \<le> j"
  shows "seq_in_window t cb"
proof -
  have r: "m \<le> length segs" "sk_rcv_nxt t = r0 + of_nat (seg_off segs m)" "rb_inv (sk_rcv_buf t)"
    "out @ contents (sk_rcv_buf t) = concat (take m segs)" "length (concat segs) \<le> capacity (sk_rcv_buf t)"
    using rx by (auto simp: rx_at_def)
  define free where "free = ring_buffer_free (sk_rcv_buf t)"
  have used: "length (contents (sk_rcv_buf t)) \<le> seg_off segs m"
    unfolding seg_off_def r(4)[symmetric] by simp
  have free: "free + length (contents (sk_rcv_buf t)) = capacity (sk_rcv_buf t)"
    using free_used[OF r(3)] by (simp add: free_def)
  have jl: "j < length segs" "cb_seq cb = r0 + of_nat (seg_off segs j)" "cb_seq_end cb = r0 + of_nat (seg_off segs (Suc j))"
    using cb by (auto simp: is_segment_def)
  have "seg_off segs j < seg_off segs (Suc j)" using seg_off_less_iff[of segs j "Suc j"] ok jl by (simp add: stream_ok_def)
  then have off: "seg_off segs j < length (concat segs)" using seg_off_le[of segs "Suc j"] by simp
  have wnd: "unat (sk_rcv_wnd t) = free" using w free cap
    by (simp add: window_told_def free_def unsigned_of_nat take_bit_eq_mod)
  have fp: "seg_off segs j < seg_off segs m + free" using off used free r(5) by simp
  have n: "max (int (unat (sk_rcv_wnd t))) 1 = int (max free 1)" using wnd by simp
  have "cb_seq cb - (sk_rcv_nxt t + of_int (max (int (unat (sk_rcv_wnd t))) 1))
      = (of_int (int (seg_off segs j) - int (seg_off segs m) - int (max free 1)) :: u32)"
    unfolding n jl(2) r(2) by simp
  moreover have "sint (of_int (int (seg_off segs j) - int (seg_off segs m) - int (max free 1)) :: u32)
      = int (seg_off segs j) - int (seg_off segs m) - int (max free 1)"
  proof -
    have "seg_off segs m < 65536" "seg_off segs j < 65536" "free < 65536"
      using seg_off_le[of segs m] off r(5) cap free by linarith+
    then show ?thesis by (simp only: signed_of_int) (simp add: signed_take_bit_int_eq_self)
  qed
  moreover have "less_or_equal_32b (sk_rcv_nxt t) (cb_seq_end cb)"
    using off_seq_le[OF ok, of m "Suc j"] r jl j by simp
  ultimately show ?thesis using fp by (simp add: seq_in_window_def Let_def less_than_32b_def)
qed

text \<open>One data segment through the state machine.\<close>

definition receiving :: "bool \<Rightarrow> bytes list \<Rightarrow> u32 \<Rightarrow> bytes \<Rightarrow> nat set \<Rightarrow> tcp_sock \<Rightarrow> bool" where
  "receiving fits segs r0 out J t \<longleftrightarrow> (\<exists>m js. rx_at fits segs r0 out m js t \<and> m \<notin> set js \<and> J \<subseteq> {..<m} \<union> set js)
     \<and> nothing_sent t \<and> window_told t \<and> (fits \<longrightarrow> capacity (sk_rcv_buf t) < 65536)"

lemma process_data_eq:
  assumes "socks s k = Some t" "sk_state t = TCP_ESTABLISHED" "cb_flags cb = TCP_PSH OR TCP_ACK"
  shows "tcp_process (Some k) cb s = (if seq_in_window t cb then run_all (receive_ack k cb) s
    else tcp_send_control_packet k TCP_ACK s)"
proof -
  have f: "(TCP_PSH OR TCP_ACK :: u8) \<noteq> TCP_RST OR TCP_ACK" "(TCP_PSH OR TCP_ACK :: u8) \<noteq> TCP_SYN OR TCP_ACK"
    "has_flag (TCP_PSH OR TCP_ACK) TCP_ACK" by (simp_all add: has_flag_def tcp_flag_defs)
  show ?thesis
    using assms f by (simp add: tcp_process_def with_sock_def when_seq_valid_def is_tcp_seq_valid_def bind_res_assoc del: run_all.simps)
      (simp add: bind_res_def split: sum.split)
qed

lemma process_data:
  fixes s :: "'b tcp_net_scheme"
  assumes ok: "stream_ok segs r0" and t: "socks s k = Some t" and rx: "receiving True segs r0 out J t"
    and cb: "is_segment segs r0 j cb" "cb_flags cb = TCP_PSH OR TCP_ACK"
  shows "\<exists>t' s'. tcp_process (Some k) cb s = Inr s' \<and> sock_step k t' s s' \<and> receiving True segs r0 out (insert j J) t' \<and> same_end t t'"
proof -
  obtain m js where m: "rx_at True segs r0 out m js t" "m \<notin> set js" "J \<subseteq> {..<m} \<union> set js" and n: "nothing_sent t"
    and w: "window_told t" and cap: "capacity (sk_rcv_buf t) < 65536" using rx by (auto simp: receiving_def)
  have eq: "tcp_process (Some k) cb s = (if seq_in_window t cb then run_all (receive_ack k cb) s
    else tcp_send_control_packet k TCP_ACK s)" using process_data_eq[OF t _ cb(2)] n by (simp add: nothing_sent_def)
  show ?thesis
  proof (cases "seq_in_window t cb")
    case False
    then have "j < m" using in_window[OF ok m(1) cap w cb(1)] by (metis leI)
    moreover obtain s' where "tcp_send_control_packet k TCP_ACK s = Inr s'" "sock_step k t s s'"
      using t by (rule updatesE[OF updates_ack]) simp
    ultimately show ?thesis using eq False rx m by (intro exI[of _ t] exI[of _ s']) (auto simp: receiving_def)
  next
    case True
    from tcp_sock_recv_spec[OF ok t m(1,2) cb(1)] obtain t1 s1 m' js' where
      1: "tcp_sock_recv k cb s = Inr s1" "sock_step k t1 s s1" "rx_at True segs r0 out m' js' t1" "advanced m js j m' js'" by blast
    have fl: "\<not> has_flag (cb_flags cb) TCP_FIN" using cb(2) by (simp add: has_flag_def tcp_flag_defs)
    have "no_fin t" using m(1) by (auto simp: rx_at_def no_fin_def list_all2_conv_all_nth in_set_conv_nth is_pending_def)
    then have e1: "same_end t t1" "window_told t1"
      using afterD[OF after_recv[OF fl, of k t] t _ 1(1)] w sock_step_socks[OF 1(2)] by auto
    have n1: "nothing_sent t1" using n nothing_sent_same[OF e1(1)] by simp
    from ack_part[OF sock_step_socks[OF 1(2)] nothing_sent_acked[OF n1]] obtain t2 s2 where
      2: "run_all [tcp_update_window_safe k cb, tcp_ack_send_buf k cb] s1 = Inr s2" "sock_step k t2 s1 s2" "same_rest t1 t2" by blast
    have "run_all (receive_ack k cb) s = Inr s2" using 1(1) 2(1) by (simp add: receive_ack_def)
    moreover have "receiving True segs r0 out (insert j J) t2"
    proof -
      have "rx_at True segs r0 out m' js' t2" using 2(3) 1(3) rx_at_same by (auto simp: same_rest_def)
      moreover have "nothing_sent t2" "window_told t2"
        using 2(3) n1 e1(2) nothing_sent_same by (auto simp: same_rest_def same_rx_def window_told_def)
      moreover have "capacity (sk_rcv_buf t2) < 65536" using cap e1(1) 2(3) by (simp add: capacity_def same_rest_def same_end_def)
      ultimately show ?thesis using 1(4) m(3) unfolding receiving_def advanced_def by blast
    qed
    moreover have "same_end t t2" using e1(1) 2(3) same_end_trans by (auto simp: same_rest_def)
    ultimately show ?thesis using eq True sock_step_trans[OF 1(2) 2(2)] by auto
  qed
qed

section \<open>The reader\<close>

lemma read_ring_buffer_size: "rb_size (snd (read_ring_buffer rb n)) = rb_size rb"
  by (simp add: read_ring_buffer_def Let_def)

lemma read_keeps:
  assumes "socks s k = Some t" "window_told t" "tcp_sock_read k n s = Inr (r, s')"
  shows "\<exists>t'. socks s' k = Some t' \<and> same_end t t' \<and> window_told t'"
proof (cases "ring_buffer_empty (sk_rcv_buf t)")
  case True
  with assms show ?thesis
    by (auto simp: tcp_sock_read_def with_sock_def bind_res_Inr_conv put_sock_def same_end_def window_told_def split: if_splits)
next
  case False
  have "s' = put_sock k (t\<lparr>sk_rcv_buf := snd (read_ring_buffer (sk_rcv_buf t) n),
      sk_rcv_wnd := of_nat (ring_buffer_free (snd (read_ring_buffer (sk_rcv_buf t) n))),
      sk_wait_recv := fst (wake_up (sk_wait_recv t))\<rparr>) s"
    using assms(1,3) False by (simp add: tcp_sock_read_def with_sock_def split: prod.splits)
  then show ?thesis by (simp add: put_sock_def same_end_def window_told_def read_ring_buffer_size)
qed

lemma read_receiving:
  fixes s :: "'b tcp_net_scheme"
  assumes t: "socks s k = Some t" and rx: "receiving True segs r0 out J t"
  shows "\<exists>t' s' out'. rx_step k (Reads n) (s, out) = Inr (s', out') \<and> sock_step k t' s s' \<and>
    receiving True segs r0 out' J t' \<and> same_end t t'"
proof -
  obtain m js where m: "rx_at True segs r0 out m js t" "m \<notin> set js" "J \<subseteq> {..<m} \<union> set js" and n: "nothing_sent t"
    and w: "window_told t" and cap: "capacity (sk_rcv_buf t) < 65536" using rx by (auto simp: receiving_def)
  from tcp_sock_read_spec[OF t m(1), of n] obtain t' s' out' where
    1: "rx_step k (Reads n) (s, out) = Inr (s', out')" "sock_step k t' s s'" "rx_at True segs r0 out' m js t'" by blast
  obtain r where "tcp_sock_read k n s = Inr (r, s')" using 1(1) by (auto simp: bind_res_Inr_conv)
  from read_keeps[OF t w this] sock_step_socks[OF 1(2)] have e: "same_end t t'" "window_told t'" by auto
  have "nothing_sent t'" using n nothing_sent_same[OF e(1)] by simp
  moreover have "capacity (sk_rcv_buf t') < 65536" using cap e(1) by (simp add: same_end_def capacity_def)
  ultimately have "receiving True segs r0 out' J t'" using 1(3) m e(2) unfolding receiving_def by blast
  with 1(1,2) e(1) show ?thesis by blast
qed

lemma find_sock_same:
  assumes "sock_step k t' s s'" "socks s k = Some t" "P t' = P t"
  shows "find_sock P ks s' = find_sock P ks s"
  using assms by (induction ks) (auto simp: with_sock_def sock_step_def split: option.split)

lemma lookup_same:
  assumes "sock_step k t' s s'" "socks s k = Some t" "same_end t t'"
  shows "tcp_sock_lookup_established a b c d s' = tcp_sock_lookup_established a b c d s"
  using assms unfolding tcp_sock_lookup_established_def
  by (subst find_sock_same[OF assms(1,2)]) (auto simp: same_end_def sock_step_def)

section \<open>The segments of a stream\<close>

text \<open>The packet carries segment \<open>j\<close> of the stream that the socket \<open>t\<close> is about to send.\<close>

definition stream_fields :: "tcp_sock \<Rightarrow> bytes list \<Rightarrow> nat \<Rightarrow> tcp_fields" where
  "stream_fields t segs j = (data_fields_of t (segs ! j))\<lparr>tf_seq := sk_snd_nxt t + of_nat (seg_off segs j)\<rparr>"

definition carries :: "tcp_sock \<Rightarrow> bytes list \<Rightarrow> nat \<Rightarrow> bytes \<Rightarrow> bool" where
  "carries t segs j p \<longleftrightarrow> j < length segs \<and> tcp_segment (stream_fields t segs j) p"

lemma carries_segment:
  assumes "j < length segs"
  shows "is_segment segs (sk_snd_nxt t) j (cb_of_fields (stream_fields t segs j))"
    "cb_flags (cb_of_fields (stream_fields t segs j)) = TCP_PSH OR TCP_ACK"
    "cb_saddr (cb_of_fields (stream_fields t segs j)) = sk_sip t" "cb_daddr (cb_of_fields (stream_fields t segs j)) = sk_dip t"
    "cb_sport (cb_of_fields (stream_fields t segs j)) = sk_sport t" "cb_dport (cb_of_fields (stream_fields t segs j)) = sk_dport t"
  using seg_off_Suc[OF assms]
  by (simp_all add: is_segment_def cb_of_fields_def stream_fields_def data_fields_of_def assms has_flag_def tcp_flag_defs)

section \<open>The wire\<close>

text \<open>What happens at the reader's host: a frame arrives, or the application reads.\<close>

datatype wire_event = Comes bytes | AppReads nat

fun wire_step :: "ip_iface \<Rightarrow> nat \<Rightarrow> wire_event \<Rightarrow> 'b tcp_net_scheme \<times> bytes \<Rightarrow> ('b tcp_net_scheme \<times> bytes) res" where
  "wire_step iface k (Comes f) (s, out) = bind_res (host_handle_packet iface f s) (\<lambda>s. Inr (s, out))"
| "wire_step iface k (AppReads n) (s, out) = rx_step k (Reads n) (s, out)"

text \<open>The segments that have come through.\<close>

definition came_through :: "ip_iface \<Rightarrow> bytes \<Rightarrow> tcp_sock \<Rightarrow> bytes list \<Rightarrow> wire_event list \<Rightarrow> nat set" where
  "came_through ia mac t segs es = {j. \<exists>p. Comes (ip_frame ia mac p) \<in> set es \<and> carries t segs j p}"

lemma carries_unique:
  assumes ok: "stream_ok segs (sk_snd_nxt t)" and macs: "length mac = 6" "length (if_mac ia) = 6"
    and p: "carries t segs j p" "carries t segs i q" "ip_frame ia mac p = ip_frame ia mac q"
  shows "i = j"
proof -
  have len: "54 \<le> length p" "54 \<le> length q" using p by (auto simp: carries_def tcp_segment_def has_fields_def)
  have eq: "p ! n = q ! n" if "14 \<le> n" "n < 54" for n
    using ip_frame_bytes(2)[OF macs len(1) that(1)] ip_frame_bytes(2)[OF macs len(2) that(1)] that(2) len p(3) by simp
  have "th_seq p 34 = th_seq q 34" by (simp add: th_defs ld32_def ld16_def ld8_def eq)
  then have "tf_seq (stream_fields t segs j) = tf_seq (stream_fields t segs i)"
    using p by (simp add: carries_def tcp_segment_def has_fields_def)
  then show ?thesis using off_seq_eq[OF ok, of j i] p by (simp add: stream_fields_def carries_def)
qed

lemma frame_received:
  fixes s :: "'b tcp_net_scheme"
  assumes ok: "stream_ok segs (sk_snd_nxt ta)" and sizes: "\<forall>seg \<in> set segs. length seg \<le> TCP_MSS"
    and macs: "length mac = 6" "length (if_mac ia) = 6" and ip: "if_ip ib = sk_dip ta"
    and t: "socks s k = Some t" and rx: "receiving True segs (sk_snd_nxt ta) out J t"
    and look: "tcp_sock_lookup_established (sk_dip ta) (sk_sip ta) (sk_dport ta) (sk_sport ta) s = Inr (Some k)"
    and p: "carries ta segs j p"
  shows "\<exists>t' s'. host_handle_packet ib (ip_frame ia mac p) s = Inr s' \<and> sock_step k t' s s' \<and>
    receiving True segs (sk_snd_nxt ta) out (insert j J) t' \<and> same_end t t'"
proof -
  have j: "j < length segs" and seg: "tcp_segment (stream_fields ta segs j) p" using p by (simp_all add: carries_def)
  have "segs ! j \<in> set segs" using j by simp
  then have len: "length (tf_data (stream_fields ta segs j)) \<le> 65495"
    using sizes by (auto simp: stream_fields_def data_fields_of_def TCP_MSS_eq)
  have dst: "if_ip ib = tf_daddr (stream_fields ta segs j)" using ip by (simp add: stream_fields_def data_fields_of_def)
  note cb = carries_segment[OF j, of ta]
  have "host_handle_packet ib (ip_frame ia mac p) s = tcp_process (Some k) (cb_of_fields (stream_fields ta segs j)) s"
    unfolding receive_frame[OF seg macs len dst] using look by (simp add: tcp_sock_lookup_def cb(3-6))
  with process_data[OF ok t rx cb(1,2)] show ?thesis by simp
qed

lemma wire_run:
  fixes s :: "'b tcp_net_scheme"
  assumes ok: "stream_ok segs (sk_snd_nxt ta)" and sizes: "\<forall>seg \<in> set segs. length seg \<le> TCP_MSS"
    and macs: "length mac = 6" "length (if_mac ia) = 6" and ip: "if_ip ib = sk_dip ta"
  shows "\<forall>f. Comes f \<in> set es \<longrightarrow> (\<exists>j p. f = ip_frame ia mac p \<and> carries ta segs j p) \<Longrightarrow>
    socks s k = Some t \<Longrightarrow> receiving True segs (sk_snd_nxt ta) out J t \<Longrightarrow>
    tcp_sock_lookup_established (sk_dip ta) (sk_sip ta) (sk_dport ta) (sk_sport ta) s = Inr (Some k) \<Longrightarrow>
    \<exists>t' s' out'. fold_res (wire_step ib k) es (s, out) = Inr (s', out') \<and> socks s' k = Some t' \<and>
      receiving True segs (sk_snd_nxt ta) out' (J \<union> came_through ia mac ta segs es) t' \<and>
      tcp_sock_lookup_established (sk_dip ta) (sk_sip ta) (sk_dport ta) (sk_sport ta) s' = Inr (Some k)"
proof (induction es arbitrary: s t out J)
  case Nil
  then show ?case by (simp add: came_through_def)
next
  case (Cons e es)
  note h = Cons.prems
  show ?case
  proof (cases e)
    case (Comes f)
    then obtain j p where f: "f = ip_frame ia mac p" "carries ta segs j p" using h(1) by auto
    from frame_received[OF ok sizes macs ip h(2,3,4) f(2)] obtain t1 s1 where
      1: "host_handle_packet ib (ip_frame ia mac p) s = Inr s1" "sock_step k t1 s s1"
        "receiving True segs (sk_snd_nxt ta) out (insert j J) t1" "same_end t t1" by blast
    have l: "tcp_sock_lookup_established (sk_dip ta) (sk_sip ta) (sk_dport ta) (sk_sport ta) s1 = Inr (Some k)"
      using h(4) lookup_same[OF 1(2) h(2) 1(4)] by simp
    have c: "J \<union> came_through ia mac ta segs (e # es) = insert j J \<union> came_through ia mac ta segs es"
    proof -
      have "{i. \<exists>q. ip_frame ia mac p = ip_frame ia mac q \<and> carries ta segs i q} = {j}"
        using carries_unique[OF ok macs f(2)] f(2) by blast
      moreover have "came_through ia mac ta segs (e # es) =
          {i. \<exists>q. ip_frame ia mac p = ip_frame ia mac q \<and> carries ta segs i q} \<union> came_through ia mac ta segs es"
        unfolding came_through_def Comes f(1) by (simp add: set_eq_iff) metis
      ultimately show ?thesis by simp
    qed
    have "wire_step ib k e (s, out) = Inr (s1, out)" using 1(1) Comes f(1) by simp
    moreover have "\<forall>f. Comes f \<in> set es \<longrightarrow> (\<exists>j p. f = ip_frame ia mac p \<and> carries ta segs j p)" using h(1) by simp
    note Cons.IH[OF this sock_step_socks[OF 1(2)] 1(3) l]
    ultimately show ?thesis unfolding c by simp
  next
    case (AppReads n)
    from read_receiving[OF h(2,3), of n] obtain t1 s1 out1 where 1: "rx_step k (Reads n) (s, out) = Inr (s1, out1)"
      "sock_step k t1 s s1" "receiving True segs (sk_snd_nxt ta) out1 J t1" "same_end t t1" by blast
    have l: "tcp_sock_lookup_established (sk_dip ta) (sk_sip ta) (sk_dport ta) (sk_sport ta) s1 = Inr (Some k)"
      using h(4) lookup_same[OF 1(2) h(2) 1(4)] by simp
    have c: "came_through ia mac ta segs (e # es) = came_through ia mac ta segs es" using AppReads by (auto simp: came_through_def)
    have "wire_step ib k e (s, out) = Inr (s1, out1)" using 1(1) AppReads by simp
    moreover have "\<forall>f. Comes f \<in> set es \<longrightarrow> (\<exists>j p. f = ip_frame ia mac p \<and> carries ta segs j p)" using h(1) by simp
    note Cons.IH[OF this sock_step_socks[OF 1(2)] 1(3) l]
    ultimately show ?thesis unfolding c by simp
  qed
qed

section \<open>The writer\<close>

text \<open>A data segment goes out with the fields of the socket and is kept for retransmission.\<close>

definition data_sent :: "bytes \<Rightarrow> bytes \<Rightarrow> tcp_sock \<Rightarrow> tcp_sock" where
  "data_sent seg p t = t\<lparr>sk_snd_nxt := sk_snd_nxt t + of_nat (length seg),
     sk_send_buf := sk_send_buf t @ [\<lparr>sp_packet = p, sp_seq_end = sk_snd_nxt t + of_nat (length seg)\<rparr>]\<rparr>"

lemma data_frame:
  assumes t: "socks s k = Some t" and r: "resolved s (sk_dip t) iface dmac" and seg: "length seg \<le> TCP_MSS"
  shows "\<exists>p s'. tcp_segment (data_fields_of t seg) p \<and> tcp_send_packet k (zeros 54 @ seg) s = Inr s' \<and>
    sock_step k (data_sent seg p t) s s' \<and> net_step [(iface, ip_frame iface dmac p)] s s'"
proof -
  obtain p where p: "tcp_segment (data_fields_of t seg) p"
    "tcp_data_packet (fst (net_random s)) (zeros 54 @ seg) (sk_sip t) (sk_dip t) (sk_sport t) (sk_dport t)
      (sk_snd_nxt t) (sk_rcv_nxt t) (TCP_PSH OR TCP_ACK) (sk_rcv_wnd t) = Inr p"
    using tcp_data_packet_segment[of "zeros 54 @ seg" seg] seg unfolding data_fields_of_def TCP_MSS_eq by fastforce
  let ?s = "put_sock k (data_sent seg p t) (snd (net_random s))"
  have eq: "tcp_send_packet k (zeros 54 @ seg) s = ip_send_packet p ?s"
    using t p(2) by (cases "net_random s") (simp add: tcp_send_packet_def with_sock_def data_sent_def Let_def ip_consts TCP_BASE_HDR_SIZE_def)
  have n: "net_step [] s ?s" by (simp add: net_step_def put_sock_def net_random_def)
  have "resolved ?s (tf_daddr (data_fields_of t seg)) iface dmac"
    using r net_step_resolved[OF n] by (simp add: data_fields_of_def)
  from ip_send_resolved[OF p(1) this] obtain s2 where 2: "ip_send_packet p ?s = Inr s2"
    "net_step [(iface, ip_frame iface dmac p)] ?s s2" by blast
  have "sock_step k (data_sent seg p t) s s2"
    using sock_step_same[OF sock_step_put[OF same_tcp_random] ip_send_same[OF 2(1)]] .
  moreover have "net_step [(iface, ip_frame iface dmac p)] s s2" using net_step_trans[OF n 2(2)] by simp
  ultimately show ?thesis using p(1) eq 2(1) by auto
qed

text \<open>
  What \<open>n\<close> bytes sent in the packets \<open>ps\<close> leave of the socket: the packets are kept for retransmission, and the
  window is computed anew.
\<close>

definition stream_gone :: "nat \<Rightarrow> bytes list \<Rightarrow> tcp_sock \<Rightarrow> tcp_sock \<Rightarrow> bool" where
  "stream_gone n ps t t' \<longleftrightarrow> sk_state t' = sk_state t \<and> sk_sip t' = sk_sip t \<and> sk_dip t' = sk_dip t \<and> sk_sport t' = sk_sport t
     \<and> sk_dport t' = sk_dport t \<and> sk_rcv_nxt t' = sk_rcv_nxt t \<and> sk_rcv_wnd t' = sk_rcv_wnd t
     \<and> sk_snd_nxt t' = sk_snd_nxt t + of_nat n \<and> map sp_packet (sk_send_buf t') = map sp_packet (sk_send_buf t) @ ps
     \<and> w_dead (sk_wait_send t') = w_dead (sk_wait_send t) \<and> sk_cwnd t' = sk_cwnd t \<and> sk_adv_wnd t' = sk_adv_wnd t - of_nat n
     \<and> (n = 0 \<and> sk_snd_wnd t' = sk_snd_wnd t \<or> sk_snd_wnd t' = send_window (sk_adv_wnd t') (sk_cwnd t'))"

lemma stream_gone_none: "stream_gone 0 [] t t"
  by (simp add: stream_gone_def)

lemma stream_gone_trans: "stream_gone m ps t u \<Longrightarrow> stream_gone n qs u v \<Longrightarrow> stream_gone (m + n) (ps @ qs) t v"
  unfolding stream_gone_def by auto

lemma set_retrans_step:
  assumes "socks s k = Some t"
  shows "\<exists>s' n tm. tcp_set_retrans_timer k 1 s = Inr s' \<and> socks s' k = Some (t\<lparr>sk_retrans := tm, sk_ref_cnt := n\<rparr>) \<and> net_step [] s s'"
proof (cases "tm_enable (sk_retrans t)")
  case True
  have "t\<lparr>sk_retrans := sk_retrans t, sk_ref_cnt := sk_ref_cnt t\<rparr> = t" by simp
  with True assms show ?thesis
    by (intro exI[of _ s] exI[of _ "sk_ref_cnt t"] exI[of _ "sk_retrans t"]) (simp add: tcp_set_retrans_timer_def with_sock_def)
next
  case False
  with set_retrans_first[OF assms False, of 1] show ?thesis
    by (auto simp: put_sock_def net_step_def intro!: exI)
qed

lemma write_segment_sent:
  assumes t: "socks s k = Some t" and r: "resolved s (sk_dip t) iface dmac" and seg: "length seg \<le> TCP_MSS" and w: "0 < sk_snd_wnd t"
  shows "\<exists>p s' t'. write_segment k seg s = Inr (True, s') \<and> socks s' k = Some t' \<and> stream_gone (length seg) [p] t t' \<and>
    tcp_segment (data_fields_of t seg) p \<and> net_step [(iface, ip_frame iface dmac p)] s s'"
proof -
  define adv where "adv = sk_adv_wnd t - of_nat (length seg)"
  define t1 where "t1 = t\<lparr>sk_adv_wnd := adv, sk_snd_wnd := send_window adv (sk_cwnd t)\<rparr>"
  have n1: "net_step [] s (put_sock k t1 s)" by simp
  have k1: "socks (put_sock k t1 s) k = Some t1" by (simp add: put_sock_def)
  have "resolved (put_sock k t1 s) (sk_dip t1) iface dmac" using r net_step_resolved[OF n1] by (simp add: t1_def)
  from data_frame[OF k1 this seg] obtain p s2 where 2: "tcp_segment (data_fields_of t1 seg) p"
    "tcp_send_packet k (zeros 54 @ seg) (put_sock k t1 s) = Inr s2" "sock_step k (data_sent seg p t1) (put_sock k t1 s) s2"
    "net_step [(iface, ip_frame iface dmac p)] (put_sock k t1 s) s2" by blast
  from set_retrans_step[OF sock_step_socks[OF 2(3)]] obtain s3 n tm where 3: "tcp_set_retrans_timer k 1 s2 = Inr s3"
    "socks s3 k = Some ((data_sent seg p t1)\<lparr>sk_retrans := tm, sk_ref_cnt := n\<rparr>)" "net_step [] s2 s3" by blast
  have "zeros (ETHER_HDR_SIZE + IP_BASE_HDR_SIZE + TCP_BASE_HDR_SIZE) @ seg = zeros 54 @ seg"
    by (simp add: ip_consts TCP_BASE_HDR_SIZE_def)
  then have "write_segment k seg s = Inr (True, s3)"
    using t w[THEN less_imp_neq, symmetric] 2(2) 3(1) by (simp add: write_segment_def with_sock_def t1_def adv_def Let_def del: One_nat_def)
  moreover have "stream_gone (length seg) [p] t ((data_sent seg p t1)\<lparr>sk_retrans := tm, sk_ref_cnt := n\<rparr>)"
    by (simp add: stream_gone_def data_sent_def t1_def adv_def)
  moreover have "tcp_segment (data_fields_of t seg) p" using 2(1) by (simp add: data_fields_of_def t1_def)
  moreover have "net_step [(iface, ip_frame iface dmac p)] s s3"
    using net_step_trans[OF n1 net_step_trans[OF 2(4) 3(3)]] by simp
  ultimately show ?thesis using 3(2) by blast
qed

lemma write_segment_sleeps:
  assumes t: "socks s k = Some t" and w: "sk_snd_wnd t = 0" and d: "\<not> w_dead (sk_wait_send t)"
  shows "\<exists>s' t'. write_segment k seg s = Inr (False, s') \<and> socks s' k = Some t' \<and> stream_gone 0 [] t t' \<and> net_step [] s s'"
proof -
  obtain w where "sleep_loop (sk_wait_send t) = Inr w" "w_dead w = w_dead (sk_wait_send t)"
    using sleep_loop_cases[of "sk_wait_send t"] d by auto
  with t assms(2) show ?thesis by (simp add: write_segment_def with_sock_def stream_gone_def) (simp add: put_sock_def)
qed

text \<open>The window that lets all of it through.\<close>

definition wide_open :: "tcp_sock \<Rightarrow> nat \<Rightarrow> bool" where
  "wide_open t n \<longleftrightarrow> 0 < sk_snd_wnd t \<and> 0 < sk_cwnd t \<and> n + TCP_MSS \<le> unat (sk_adv_wnd t)"

lemma send_window_pos:
  assumes "TCP_MSS \<le> unat adv" "0 < cw"
  shows "0 < send_window adv cw"
proof -
  have "0 < unat adv div TCP_MSS" "0 < unat cw"
    using assms by (auto simp: div_greater_zero_iff TCP_MSS_eq word_less_nat_alt)
  moreover have "unat adv div TCP_MSS < 4294967296" using unat_u16_less[of adv] by (simp add: TCP_MSS_eq)
  ultimately show ?thesis by (simp add: send_window_def word_less_nat_alt unsigned_of_nat take_bit_eq_mod min_def)
qed

lemma wide_open_next:
  assumes "wide_open t (m + n)" "stream_gone m ps t t'"
  shows "wide_open t' n"
proof -
  have a: "unat (sk_adv_wnd t') = unat (sk_adv_wnd t) - m"
  proof -
    have l: "m \<le> unat (sk_adv_wnd t)" using assms(1) by (simp add: wide_open_def)
    with unat_u16_less[of "sk_adv_wnd t"] have "unat (of_nat m :: u16) = m"
      by (simp add: unsigned_of_nat take_bit_eq_mod)
    with l assms(2) show ?thesis by (simp add: stream_gone_def unat_sub_if')
  qed
  then have w: "TCP_MSS \<le> unat (sk_adv_wnd t')" "n + TCP_MSS \<le> unat (sk_adv_wnd t')" using assms(1) unfolding wide_open_def by linarith+
  have c: "0 < sk_cwnd t'" using assms by (simp add: wide_open_def stream_gone_def)
  have "0 < send_window (sk_adv_wnd t') (sk_cwnd t')" by (rule send_window_pos[OF w(1) c])
  then have "0 < sk_snd_wnd t'" using assms unfolding stream_gone_def wide_open_def by fastforce
  with w c show ?thesis by (simp add: wide_open_def)
qed

text \<open>
  What a call of \<open>tcp_sock_write\<close> has done when it returns or sleeps: the segments it cut off the front of the
  buffer, and the packets they went out in.
\<close>

definition wrote :: "ip_iface \<Rightarrow> bytes \<Rightarrow> nat \<Rightarrow> tcp_sock \<Rightarrow> bytes \<Rightarrow> 'b tcp_net_scheme \<Rightarrow> bytes list \<Rightarrow> bytes list \<Rightarrow> bytes \<Rightarrow>
    'b tcp_net_scheme \<Rightarrow> bool" where
  "wrote iface dmac k t buf s segs ps rest s' \<longleftrightarrow> buf = concat segs @ rest \<and> [] \<notin> set segs
     \<and> (\<forall>seg \<in> set segs. length seg \<le> TCP_MSS) \<and> length ps = length segs \<and> (\<forall>j < length segs. carries t segs j (ps ! j))
     \<and> net_step (map (\<lambda>p. (iface, ip_frame iface dmac p)) ps) s s'
     \<and> (\<exists>t'. socks s' k = Some t' \<and> stream_gone (length (concat segs)) ps t t')
     \<and> (wide_open t (length buf) \<longrightarrow> rest = [])"

lemma wrote_none:
  assumes "socks s' k = Some t'" "stream_gone 0 [] t t'" "net_step [] s s'" "wide_open t (length buf) \<longrightarrow> buf = []"
  shows "wrote iface dmac k t buf s [] [] buf s'"
  using assms by (simp add: wrote_def)

lemma wrote_one:
  assumes "socks s' k = Some t'" "stream_gone (length seg) [p] t t'" "tcp_segment (data_fields_of t seg) p"
    "net_step [(iface, ip_frame iface dmac p)] s s'" "seg \<noteq> []" "length seg \<le> TCP_MSS"
  shows "wrote iface dmac k t seg s [seg] [p] [] s'"
proof -
  have "stream_fields t [seg] 0 = data_fields_of t seg" by (simp add: stream_fields_def data_fields_of_def)
  with assms show ?thesis by (simp add: wrote_def carries_def)
qed

lemma carries_append:
  assumes "stream_gone (length (concat segs1)) qs t t1" "length ps1 = length segs1"
    and "\<forall>j < length segs1. carries t segs1 j (ps1 ! j)" "\<forall>j < length segs2. carries t1 segs2 j (ps2 ! j)"
    and j: "j < length segs1 + length segs2"
  shows "carries t (segs1 @ segs2) j ((ps1 @ ps2) ! j)"
proof (cases "j < length segs1")
  case True
  then have "stream_fields t (segs1 @ segs2) j = stream_fields t segs1 j"
    by (simp add: stream_fields_def seg_off_def nth_append)
  with assms(2,3) True show ?thesis by (simp add: carries_def nth_append)
next
  case False
  then obtain i where i: "j = length segs1 + i" "i < length segs2" using j by (metis add_less_cancel_left le_iff_add not_less)
  have "stream_fields t (segs1 @ segs2) (length segs1 + i) = stream_fields t1 segs2 i"
    using assms(1) by (simp add: stream_fields_def data_fields_of_def seg_off_def stream_gone_def add.assoc)
  with assms(2,4) i show ?thesis by (simp add: carries_def nth_append)
qed

lemma wrote_trans:
  assumes 1: "wrote iface dmac k t buf1 s segs1 ps1 [] s1" and t1: "socks s1 k = Some t1"
    and 2: "wrote iface dmac k t1 buf2 s1 segs2 ps2 rest s2"
  shows "wrote iface dmac k t (buf1 @ buf2) s (segs1 @ segs2) (ps1 @ ps2) rest s2"
proof -
  have b: "buf1 = concat segs1" and g: "stream_gone (length (concat segs1)) ps1 t t1" using 1 t1 by (auto simp: wrote_def)
  have "carries t (segs1 @ segs2) j ((ps1 @ ps2) ! j)" if "j < length (segs1 @ segs2)" for j
    using that 1 2 by (intro carries_append[OF g]) (auto simp: wrote_def)
  moreover have "net_step (map (\<lambda>p. (iface, ip_frame iface dmac p)) (ps1 @ ps2)) s s2"
    using net_step_trans 1 2 by (auto simp: wrote_def)
  moreover have "rest = []" if "wide_open t (length (buf1 @ buf2))"
  proof -
    have "wide_open t1 (length buf2)" using that wide_open_next[OF _ g, of "length buf2"] b by simp
    with 2 show ?thesis by (simp add: wrote_def)
  qed
  moreover obtain t2 where "socks s2 k = Some t2" "stream_gone (length (concat segs2)) ps2 t1 t2" using 2 by (auto simp: wrote_def)
  then have "\<exists>t2. socks s2 k = Some t2 \<and> stream_gone (length (concat (segs1 @ segs2))) (ps1 @ ps2) t t2"
    using stream_gone_trans[OF g] by auto
  moreover have "buf1 @ buf2 = concat (segs1 @ segs2) @ rest" "[] \<notin> set (segs1 @ segs2)" "\<forall>seg \<in> set (segs1 @ segs2). length seg \<le> TCP_MSS"
    "length (ps1 @ ps2) = length (segs1 @ segs2)" using 1 2 by (auto simp: wrote_def)
  ultimately show ?thesis unfolding wrote_def by blast
qed

lemma tcp_sock_write_wrote:
  fixes s :: "'b tcp_net_scheme"
  shows "socks s k = Some t \<Longrightarrow> resolved s (sk_dip t) iface dmac \<Longrightarrow> \<not> w_dead (sk_wait_send t) \<Longrightarrow>
    \<exists>rest s' segs ps. tcp_sock_write k buf s = Inr (rest, s') \<and> wrote iface dmac k t buf s segs ps rest s'"
proof (induction "length buf" arbitrary: buf s t rule: less_induct)
  case less
  note t = less.prems(1) and r = less.prems(2) and d = less.prems(3)
  show ?case
  proof (cases buf)
    case Nil
    with wrote_none[OF t stream_gone_none, of s "[]"] t show ?thesis by fastforce
  next
    case (Cons b bs)
    define wlen where "wlen = min (length buf) TCP_MSS"
    have wl: "length (take wlen buf) \<le> TCP_MSS" "take wlen buf \<noteq> []" "length (drop wlen buf) < length buf"
      using Cons by (auto simp: wlen_def TCP_MSS_eq)
    have eq: "tcp_sock_write k buf s = bind_res (write_segment k (take wlen buf) s) (\<lambda>(sent, s).
        if sent then tcp_sock_write k (drop wlen buf) s else Inr (buf, s))"
      unfolding Cons wlen_def tcp_sock_write.simps(2) Let_def ..
    show ?thesis
    proof (cases "0 < sk_snd_wnd t")
      case False
      then have "sk_snd_wnd t = 0" unfolding word_gt_0 by simp
      from write_segment_sleeps[OF t this d] obtain s' t' where "write_segment k (take wlen buf) s = Inr (False, s')"
        "socks s' k = Some t'" "stream_gone 0 [] t t'" "net_step [] s s'" by blast
      moreover have "\<not> wide_open t (length buf)" using False by (simp add: wide_open_def)
      ultimately show ?thesis using eq wrote_none[of s' k t' t s buf] by auto
    next
      case True
      from write_segment_sent[OF t r wl(1) True] obtain p s1 t1 where 1: "write_segment k (take wlen buf) s = Inr (True, s1)"
        "socks s1 k = Some t1" "stream_gone (length (take wlen buf)) [p] t t1" "tcp_segment (data_fields_of t (take wlen buf)) p"
        "net_step [(iface, ip_frame iface dmac p)] s s1" by blast
      have r1: "resolved s1 (sk_dip t1) iface dmac" using r net_step_resolved[OF 1(5)] 1(3) by (simp add: stream_gone_def)
      have d1: "\<not> w_dead (sk_wait_send t1)" using d 1(3) by (simp add: stream_gone_def)
      from less.hyps[OF wl(3) 1(2) r1 d1] obtain rest s' segs ps where
        2: "tcp_sock_write k (drop wlen buf) s1 = Inr (rest, s')" "wrote iface dmac k t1 (drop wlen buf) s1 segs ps rest s'" by blast
      from wrote_trans[OF wrote_one[OF 1(2-5) wl(2,1)] 1(2) 2(2)] eq 1(1) 2(1) show ?thesis by auto
    qed
  qed
qed

section \<open>Frames and what they bring\<close>

lemma wire_delivers:
  fixes b :: "'b tcp_net_scheme"
  assumes ok: "stream_ok segs (sk_snd_nxt ta)" and sizes: "\<forall>seg \<in> set segs. length seg \<le> TCP_MSS"
    and macs: "length mac = 6" "length (if_mac ia) = 6" and ip: "if_ip ib = sk_dip ta"
    and ps: "length ps = length segs" "\<forall>j < length segs. carries ta segs j (ps ! j)"
    and b: "socks b k = Some t" "receiving True segs (sk_snd_nxt ta) out J t"
      "tcp_sock_lookup_established (sk_dip ta) (sk_sip ta) (sk_dport ta) (sk_sport ta) b = Inr (Some k)"
    and es: "{f. Comes f \<in> set es} \<subseteq> set (map (ip_frame ia mac) ps)"
  shows "\<exists>t' b' out' J'. fold_res (wire_step ib k) es (b, out) = Inr (b', out') \<and> socks b' k = Some t' \<and>
    receiving True segs (sk_snd_nxt ta) out' J' t' \<and>
    tcp_sock_lookup_established (sk_dip ta) (sk_sip ta) (sk_dport ta) (sk_sport ta) b' = Inr (Some k) \<and>
    (set (map (ip_frame ia mac) ps) \<subseteq> {f. Comes f \<in> set es} \<longrightarrow> {..<length segs} \<subseteq> J')"
proof -
  have "\<exists>j p. f = ip_frame ia mac p \<and> carries ta segs j p" if "Comes f \<in> set es" for f
  proof -
    have "f \<in> set (map (ip_frame ia mac) ps)" using es that by blast
    then obtain j where "j < length ps" "f = ip_frame ia mac (ps ! j)" by (auto simp: in_set_conv_nth)
    with ps show ?thesis by auto
  qed
  then have "\<forall>f. Comes f \<in> set es \<longrightarrow> (\<exists>j p. f = ip_frame ia mac p \<and> carries ta segs j p)" by blast
  from wire_run[OF ok sizes macs ip this b] obtain t' b' out' where
    r: "fold_res (wire_step ib k) es (b, out) = Inr (b', out')" "socks b' k = Some t'"
      "receiving True segs (sk_snd_nxt ta) out' (J \<union> came_through ia mac ta segs es) t'"
      "tcp_sock_lookup_established (sk_dip ta) (sk_sip ta) (sk_dport ta) (sk_sport ta) b' = Inr (Some k)" by blast
  have "{..<length segs} \<subseteq> J \<union> came_through ia mac ta segs es" if all: "set (map (ip_frame ia mac) ps) \<subseteq> {f. Comes f \<in> set es}"
  proof
    fix j assume j: "j \<in> {..<length segs}"
    then have "ip_frame ia mac (ps ! j) \<in> set (map (ip_frame ia mac) ps)" using ps(1) by simp
    with all ps(2) j show "j \<in> J \<union> came_through ia mac ta segs es" by (auto simp: came_through_def)
  qed
  with r show ?thesis by blast
qed

section \<open>Properties\<close>

lemma receiving_start:
  assumes "socks b k = Some t" "nothing_sent t" "window_told t" "sk_rcv_ofo_buf t = []" "rb_inv (sk_rcv_buf t)"
    "contents (sk_rcv_buf t) = []" "\<not> w_dead (sk_wait_recv t)" "sk_rcv_nxt t = r0"
    "length (concat segs) \<le> capacity (sk_rcv_buf t)" "capacity (sk_rcv_buf t) < 65536"
  shows "receiving True segs r0 [] {} t"
proof -
  have "rx_at True segs r0 [] 0 [] t" using assms by (simp add: rx_at_def)
  with assms show ?thesis unfolding receiving_def by fastforce
qed

lemma receiving_prefix:
  assumes "receiving True segs r0 out J t"
  shows "\<exists>more. concat segs = out @ contents (sk_rcv_buf t) @ more" "{..<length segs} \<subseteq> J \<Longrightarrow> out @ contents (sk_rcv_buf t) = concat segs"
proof -
  obtain m js where m: "rx_at True segs r0 out m js t" "m \<notin> set js" "J \<subseteq> {..<m} \<union> set js" using assms by (auto simp: receiving_def)
  then have c: "out @ contents (sk_rcv_buf t) = concat (take m segs)" "m \<le> length segs" by (simp_all add: rx_at_def)
  have "concat segs = concat (take m segs) @ concat (drop m segs)" by (metis append_take_drop_id concat_append)
  then show "\<exists>more. concat segs = out @ contents (sk_rcv_buf t) @ more" using c(1) by (metis append_assoc)
  assume "{..<length segs} \<subseteq> J"
  with m have "\<not> m < length segs" by auto
  with c show "out @ contents (sk_rcv_buf t) = concat segs" by simp
qed

text \<open>The frames of a call of \<open>tcp_sock_write\<close> arrive at an idle reader.\<close>

lemma wrote_arrives:
  fixes b :: "'b tcp_net_scheme"
  assumes w: "wrote ia mac ka ta buf a segs ps rest a'" and macs: "length mac = 6" "length (if_mac ia) = 6"
    and reader: "socks b kb = Some tb" "nothing_sent tb" "window_told tb" "sk_rcv_ofo_buf tb = []" "rb_inv (sk_rcv_buf tb)"
      "contents (sk_rcv_buf tb) = []" "\<not> w_dead (sk_wait_recv tb)"
    and peers: "if_ip ib = sk_dip ta" "sk_rcv_nxt tb = sk_snd_nxt ta"
      "tcp_sock_lookup_established (sk_dip ta) (sk_sip ta) (sk_dport ta) (sk_sport ta) b = Inr (Some kb)"
    and size: "length buf \<le> capacity (sk_rcv_buf tb)" "capacity (sk_rcv_buf tb) < 65536" "unat (sk_snd_nxt ta) + length buf < 4294967296"
    and es: "{f. Comes f \<in> set es} \<subseteq> set (map (ip_frame ia mac) ps)"
  shows "\<exists>b' out tb' J. fold_res (wire_step ib kb) es (b, []) = Inr (b', out) \<and> socks b' kb = Some tb' \<and>
    receiving True segs (sk_snd_nxt ta) out J tb' \<and>
    tcp_sock_lookup_established (sk_dip ta) (sk_sip ta) (sk_dport ta) (sk_sport ta) b' = Inr (Some kb) \<and>
    (set (map (ip_frame ia mac) ps) \<subseteq> {f. Comes f \<in> set es} \<longrightarrow> {..<length segs} \<subseteq> J)"
proof -
  have segs: "buf = concat segs @ rest" "[] \<notin> set segs" "\<forall>seg \<in> set segs. length seg \<le> TCP_MSS" "length ps = length segs"
    "\<forall>j < length segs. carries ta segs j (ps ! j)" using w unfolding wrote_def by blast+
  have len: "length (concat segs) \<le> length buf" unfolding segs(1) by simp
  have ok: "stream_ok segs (sk_snd_nxt ta)" using segs(2) len size by (simp add: stream_ok_def)
  have start: "receiving True segs (sk_snd_nxt ta) [] {} tb"
    by (rule receiving_start[OF reader peers(2) _ size(2)]) (use len size(1) in linarith)
  from wire_delivers[OF ok segs(3) macs peers(1) segs(4,5) reader(1) start peers(3) es] show ?thesis by blast
qed

text \<open>
  C4: a stream crosses the network.  An application on host \<open>a\<close> writes to an established connection whose next hop is
  known; the socket on host \<open>b\<close> is the other end of it, idle, and has room for what is written.  \<open>tcp_sock_write\<close> sends the front of the
  data, all of it when the window is wide enough, in frames.  Let any of these frames arrive at \<open>b\<close>, in any order and any number of times,
  and let the application there read whenever it likes and as much as it likes: every frame is accepted without fault or
  waiting; what was read and what is in the buffer is always a prefix of what was sent, and
  all of it once every frame has arrived.
\<close>
theorem tcp_transfer:
  fixes a b :: "'b tcp_net_scheme"
  assumes writer: "socks a ka = Some ta" "\<not> w_dead (sk_wait_send ta)" "resolved a (sk_dip ta) ia mac"
    and reader: "socks b kb = Some tb" "nothing_sent tb" "window_told tb" "sk_rcv_ofo_buf tb = []" "rb_inv (sk_rcv_buf tb)"
      "contents (sk_rcv_buf tb) = []" "\<not> w_dead (sk_wait_recv tb)"
    and peers: "if_ip ib = sk_dip ta" "sk_rcv_nxt tb = sk_snd_nxt ta"
      "tcp_sock_lookup_established (sk_dip ta) (sk_sip ta) (sk_dport ta) (sk_sport ta) b = Inr (Some kb)"
    and size: "length buf \<le> capacity (sk_rcv_buf tb)" "capacity (sk_rcv_buf tb) < 65536" "unat (sk_snd_nxt ta) + length buf < 4294967296"
  shows "\<exists>sent rest a' frames. tcp_sock_write ka buf a = Inr (rest, a') \<and> buf = sent @ rest \<and>
    net_sent a' = net_sent a @ map (Pair ia) frames \<and> (wide_open ta (length buf) \<longrightarrow> rest = []) \<and>
    (\<forall>es. {f. Comes f \<in> set es} \<subseteq> set frames \<longrightarrow> (\<exists>b' out tb' more.
      fold_res (wire_step ib kb) es (b, []) = Inr (b', out) \<and> socks b' kb = Some tb' \<and>
      sent = out @ contents (sk_rcv_buf tb') @ more \<and> (set frames \<subseteq> {f. Comes f \<in> set es} \<longrightarrow> more = [])))"
proof -
  have macs: "length mac = 6" "length (if_mac ia) = 6" using writer(3) by (simp_all add: resolved_def)
  from tcp_sock_write_wrote[OF writer(1,3,2), of buf] obtain rest a' segs ps where
    w: "tcp_sock_write ka buf a = Inr (rest, a')" "wrote ia mac ka ta buf a segs ps rest a'" by blast
  then have segs: "buf = concat segs @ rest" "net_sent a' = net_sent a @ map (\<lambda>p. (ia, ip_frame ia mac p)) ps"
    "wide_open ta (length buf) \<longrightarrow> rest = []" unfolding wrote_def net_step_def by blast+
  let ?frames = "map (ip_frame ia mac) ps"
  have arrive: "\<exists>b' out tb' more. fold_res (wire_step ib kb) es (b, []) = Inr (b', out) \<and> socks b' kb = Some tb' \<and>
      concat segs = out @ contents (sk_rcv_buf tb') @ more \<and> (set ?frames \<subseteq> {f. Comes f \<in> set es} \<longrightarrow> more = [])"
    if es: "{f. Comes f \<in> set es} \<subseteq> set ?frames" for es
  proof -
    from wrote_arrives[OF w(2) macs reader peers size es] obtain b' out tb' J where
      r: "fold_res (wire_step ib kb) es (b, []) = Inr (b', out)" "socks b' kb = Some tb'" "receiving True segs (sk_snd_nxt ta) out J tb'"
        "set ?frames \<subseteq> {f. Comes f \<in> set es} \<longrightarrow> {..<length segs} \<subseteq> J" by blast
    with receiving_prefix[OF r(3)] show ?thesis by fastforce
  qed
  have "net_sent a' = net_sent a @ map (Pair ia) ?frames" using segs(2) by (simp add: comp_def)
  with w(1) segs(1,3) arrive show ?thesis by blast
qed

text \<open>The example: three bytes over the connection of two hosts; the only frame arrives twice, with a read in between.\<close>

definition example_writer :: tcp_sock where
  "example_writer = new_tcp_sock\<lparr>sk_state := TCP_ESTABLISHED, sk_sip := 0x0A000101, sk_dip := 0x0A000102, sk_sport := 12345,
     sk_dport := 80, sk_snd_nxt := 1000, sk_snd_wnd := 1, sk_adv_wnd := 65535\<rparr>"

definition example_reader :: tcp_sock where
  "example_reader = new_tcp_sock\<lparr>sk_state := TCP_ESTABLISHED, sk_sip := 0x0A000102, sk_dip := 0x0A000101, sk_sport := 80,
     sk_dport := 12345, sk_rcv_nxt := 1000\<rparr>"

definition example_end :: "ip_iface \<Rightarrow> u32 \<Rightarrow> bytes \<Rightarrow> tcp_sock \<Rightarrow> tcp_net" where
  "example_end iface peer mac t = put_sock 0 t ((example_host iface peer mac)\<lparr>next_sock := 1,
     established_table := (\<lambda>_. [0])\<rparr>)"

abbreviation "iface_a \<equiv> example_iface 1 0x0A000101"
abbreviation "iface_b \<equiv> example_iface 2 0x0A000102"

definition example_a :: tcp_net where "example_a = example_end iface_a 0x0A000102 (if_mac iface_b) example_writer"
definition example_b :: tcp_net where "example_b = example_end iface_b 0x0A000101 (if_mac iface_a) example_reader"

lemma example_writes:
  "socks example_a 0 = Some example_writer" "\<not> w_dead (sk_wait_send example_writer)" "resolved example_a (sk_dip example_writer) iface_a (if_mac iface_b)"
  "net_sent example_a = []" "sk_state example_writer = TCP_ESTABLISHED" "wide_open example_writer (length [71, 69, 84 :: u8])"
  by (simp_all add: example_a_def example_end_def put_sock_def example_host_def empty_net_def init_tcp_stack_def longest_prefix_match_def rt_matches_def
      example_iface_def new_rt_entry_def resolved_def arpcache_lookup_def next_hop_def MAX_ARP_SIZE_def example_writer_def
      new_tcp_sock_def wait_init_def wide_open_def TCP_MSS_eq)

lemma example_reads:
  "socks example_b 0 = Some example_reader" "nothing_sent example_reader" "window_told example_reader"
  "sk_rcv_ofo_buf example_reader = []" "rb_inv (sk_rcv_buf example_reader)" "contents (sk_rcv_buf example_reader) = []"
  "\<not> w_dead (sk_wait_recv example_reader)" "capacity (sk_rcv_buf example_reader) = 65535"
proof -
  have buf: "sk_rcv_buf example_reader = alloc_ring_buffer TCP_DEFAULT_WINDOW" by (simp add: example_reader_def new_tcp_sock_def)
  have "capacity (alloc_ring_buffer TCP_DEFAULT_WINDOW) = 65535" "ring_buffer_free (alloc_ring_buffer TCP_DEFAULT_WINDOW) = 65535"
    "rb_inv (alloc_ring_buffer TCP_DEFAULT_WINDOW)" "contents (alloc_ring_buffer TCP_DEFAULT_WINDOW) = []"
    using rb_inv_alloc[of TCP_DEFAULT_WINDOW] free_used[of "alloc_ring_buffer TCP_DEFAULT_WINDOW"]
      length_contents[of "alloc_ring_buffer TCP_DEFAULT_WINDOW"] by (simp_all add: TCP_DEFAULT_WINDOW_def)
  note rb = this[folded buf]
  show "socks example_b 0 = Some example_reader" "nothing_sent example_reader" "window_told example_reader"
    "sk_rcv_ofo_buf example_reader = []" "rb_inv (sk_rcv_buf example_reader)" "contents (sk_rcv_buf example_reader) = []"
    "\<not> w_dead (sk_wait_recv example_reader)" "capacity (sk_rcv_buf example_reader) = 65535"
    using rb by (simp_all add: example_b_def example_end_def put_sock_def nothing_sent_def window_told_def)
      (simp_all add: example_reader_def new_tcp_sock_def wait_init_def)
qed

lemma example_peers:
  "if_ip iface_b = sk_dip example_writer" "sk_rcv_nxt example_reader = sk_snd_nxt example_writer"
  "tcp_sock_lookup_established (sk_dip example_writer) (sk_sip example_writer) (sk_dport example_writer) (sk_sport example_writer) example_b
    = Inr (Some 0)"
  by (simp_all add: example_iface_def example_writer_def example_reader_def tcp_sock_lookup_established_def example_b_def example_end_def
      put_sock_def with_sock_def)

lemma example_size:
  "length [71, 69, 84 :: u8] \<le> capacity (sk_rcv_buf example_reader)" "capacity (sk_rcv_buf example_reader) < 65536"
  "unat (sk_snd_nxt example_writer) + length [71, 69, 84 :: u8] < 4294967296"
  unfolding example_reads(8) by (simp_all add: example_writer_def)

theorem tcp_transfer_witness:
  "\<exists>a' b' frames out tb'. tcp_sock_write 0 [71, 69, 84] example_a = Inr ([], a') \<and> net_sent a' = map (Pair iface_a) frames \<and>
    fold_res (wire_step iface_b 0) (map Comes frames @ [AppReads 2] @ map Comes (rev frames)) (example_b, []) = Inr (b', out) \<and>
    socks b' 0 = Some tb' \<and> out @ contents (sk_rcv_buf tb') = [71, 69, 84]"
proof -
  obtain sent rest a' frames where t: "tcp_sock_write 0 [71, 69, 84] example_a = Inr (rest, a')" "[71, 69, 84] = sent @ rest"
    "net_sent a' = net_sent example_a @ map (Pair iface_a) frames" "rest = []"
    "\<forall>es. {f. Comes f \<in> set es} \<subseteq> set frames \<longrightarrow> (\<exists>b' out tb' more.
      fold_res (wire_step iface_b 0) es (example_b, []) = Inr (b', out) \<and> socks b' 0 = Some tb' \<and>
      sent = out @ contents (sk_rcv_buf tb') @ more \<and> (set frames \<subseteq> {f. Comes f \<in> set es} \<longrightarrow> more = []))"
    using tcp_transfer[OF example_writes(1-3) example_reads(1-7) example_peers example_size] example_writes(6) by blast
  have "{f. Comes f \<in> set (map Comes frames @ [AppReads 2] @ map Comes (rev frames))} = set frames" by auto
  with t(5)[rule_format, of "map Comes frames @ [AppReads 2] @ map Comes (rev frames)"] t(2,4) obtain b' out tb' where
    "fold_res (wire_step iface_b 0) (map Comes frames @ [AppReads 2] @ map Comes (rev frames)) (example_b, []) = Inr (b', out)"
    "socks b' 0 = Some tb'" "[71, 69, 84] = out @ contents (sk_rcv_buf tb')" by auto
  with t(1,3,4) example_writes(4) show ?thesis by (intro exI[of _ a'] exI[of _ b'] exI[of _ frames] exI[of _ out] exI[of _ tb']) simp
qed

end
