(* ===== verification/Tcp_Basic_Stream.thy ===== *)
theory Tcp_Basic_Stream
  imports Tcp_Basic Tcp_Transfer
begin

text \<open>
  The TCP stack of lab 10 against the one of lab 12: on segments that arrive in order the two receive the same stream
  (a simulation between the two state machines), and where lab 10 falls short of it: a gap, a segment sent
  again, a handshake that ends at a full accept queue.
\<close>

section \<open>Where the two versions agree\<close>

text \<open>The receive sides of a socket of lab 12 and one of lab 10.\<close>

definition same_stream :: "tcp_sock \<Rightarrow> tcp_sock \<Rightarrow> bool" where
  "same_stream t u \<longleftrightarrow> sk_rcv_nxt u = sk_rcv_nxt t \<and> sk_rcv_buf u = sk_rcv_buf t \<and> sk_rcv_wnd u = sk_rcv_wnd t
     \<and> sk_state u = TCP_ESTABLISHED \<and> \<not> w_dead (sk_wait_recv u) \<and> nothing_sent t \<and> sk_rcv_ofo_buf t = []
     \<and> \<not> w_dead (sk_wait_recv t)"

text \<open>A data segment, and the one expected after \<open>r\<close>.\<close>

definition data_segment :: "tcp_cb \<Rightarrow> bool" where
  "data_segment cb \<longleftrightarrow> cb_payload cb \<noteq> [] \<and> cb_pl_len cb = int (length (cb_payload cb)) \<and> length (cb_payload cb) \<le> 65495
     \<and> cb_seq_end cb = cb_seq cb + of_nat (length (cb_payload cb)) \<and> cb_flags cb = TCP_PSH OR TCP_ACK"

definition next_data :: "u32 \<Rightarrow> tcp_cb \<Rightarrow> bool" where
  "next_data r cb \<longleftrightarrow> cb_seq cb = r \<and> data_segment cb"

lemma next_in_window:
  assumes "next_data (sk_rcv_nxt t) cb"
  shows "seq_in_window t cb" "\<not> less_or_equal_32b (cb_seq_end cb) (sk_rcv_nxt t)"
  using next_seq_in_window[of cb t "length (cb_payload cb)"] assms by (auto simp: next_data_def data_segment_def)

text \<open>What either version makes of the socket.\<close>

definition taken :: "ring_buffer \<Rightarrow> tcp_cb \<Rightarrow> tcp_sock \<Rightarrow> tcp_sock" where
  "taken rb cb t = wake_recv (t\<lparr>sk_rcv_buf := rb, sk_rcv_nxt := cb_seq_end cb, sk_rcv_wnd := of_nat (ring_buffer_free rb)\<rparr>)"

lemma deliver_data:
  assumes "socks s k = Some t" "buf \<noteq> []"
  shows "deliver k buf (int (length buf)) s = (if ring_buffer_free (sk_rcv_buf t) < length buf then Inl Sleeps
    else bind_res (write_ring_buffer (sk_rcv_buf t) buf) (\<lambda>rb. Inr (put_sock k (t\<lparr>sk_rcv_buf := rb\<rparr>) s)))"
  using assms by (simp add: deliver_def with_sock_def)

lemma write_ring_buffer_room:
  "buf \<noteq> [] \<Longrightarrow> length buf \<le> ring_buffer_free rb \<Longrightarrow> \<exists>rb'. write_ring_buffer rb buf = Inr rb'"
  by (simp add: write_ring_buffer_def Let_def)

text \<open>What is expected next is stored, and one ACK goes out.\<close>

lemma recv_next_eq:
  assumes t: "socks s k = Some t" and ofo: "sk_rcv_ofo_buf t = []" and cb: "next_data (sk_rcv_nxt t) cb"
  shows "tcp_sock_recv k cb s = (if ring_buffer_free (sk_rcv_buf t) < length (cb_payload cb) then Inl Sleeps
    else bind_res (write_ring_buffer (sk_rcv_buf t) (cb_payload cb)) (\<lambda>rb. tcp_send_control_packet k TCP_ACK (put_sock k (taken rb cb t) s)))"
proof -
  have p: "cb_payload cb \<noteq> []" "cb_pl_len cb = int (length (cb_payload cb))" "cb_seq cb = sk_rcv_nxt t" using cb by (simp_all add: next_data_def data_segment_def)
  have fl: "\<not> has_flag (cb_flags cb) TCP_FIN" using cb by (simp add: next_data_def data_segment_def has_flag_def tcp_flag_defs)
  have eq: "tcp_sock_recv k cb s = run_all [run_all [deliver k (cb_payload cb) (cb_pl_len cb), receive_fin k (cb_flags cb),
               upd_sock k (\<lambda>t. t\<lparr>sk_rcv_nxt := cb_seq_end cb\<rparr>)], with_sock k (\<lambda>t s. drain_ofo k (sk_rcv_ofo_buf t) s),
        upd_sock k (\<lambda>t. wake_recv (t\<lparr>sk_rcv_wnd := of_nat (ring_buffer_free (sk_rcv_buf t))\<rparr>)),
        tcp_send_control_packet k TCP_ACK] s"
    using t ofo p(3) next_in_window(2)[OF cb] by (simp add: tcp_sock_recv_def with_sock_def)
  show ?thesis
  proof (cases "ring_buffer_free (sk_rcv_buf t) < length (cb_payload cb)")
    case True
    then show ?thesis using deliver_data[OF t p(1)] p(2) by (simp add: eq)
  next
    case False
    then obtain rb where "write_ring_buffer (sk_rcv_buf t) (cb_payload cb) = Inr rb"
      using write_ring_buffer_room[OF p(1)] by (meson leI)
    moreover have "wake_recv (t\<lparr>sk_rcv_buf := rb, sk_rcv_nxt := cb_seq_end cb, sk_rcv_wnd := of_nat (ring_buffer_free rb)\<rparr>) = taken rb cb t"
      by (simp add: taken_def)
    ultimately show ?thesis using deliver_data[OF t p(1)] p(2) False fl ofo
      by (simp add: eq receive_fin_def with_sock_def[of k] upd_sock_def put_sock_def bind_res_def split: sum.split)
  qed
qed

lemma recv_next:
  assumes t: "socks s k = Some t" and ofo: "sk_rcv_ofo_buf t = []" and cb: "next_data (sk_rcv_nxt t) cb"
  shows "if ring_buffer_free (sk_rcv_buf t) < length (cb_payload cb) then tcp_sock_recv k cb s = Inl Sleeps
    else \<exists>rb s'. write_ring_buffer (sk_rcv_buf t) (cb_payload cb) = Inr rb \<and> tcp_sock_recv k cb s = Inr s' \<and>
      sock_step k (taken rb cb t) s s'"
proof (cases "ring_buffer_free (sk_rcv_buf t) < length (cb_payload cb)")
  case True
  then show ?thesis using recv_next_eq[OF assms] by simp
next
  case False
  then obtain rb where rb: "write_ring_buffer (sk_rcv_buf t) (cb_payload cb) = Inr rb"
    using write_ring_buffer_room[of "cb_payload cb" "sk_rcv_buf t"] cb by (auto simp: next_data_def data_segment_def)
  have "socks (put_sock k (taken rb cb t) s) k = Some (taken rb cb t)" by (simp add: put_sock_def)
  then obtain s' where "tcp_send_control_packet k TCP_ACK (put_sock k (taken rb cb t) s) = Inr s'"
    "sock_step k (taken rb cb t) (put_sock k (taken rb cb t) s) s'" by (rule updatesE[OF updates_ack]) simp
  then show ?thesis using False rb recv_next_eq[OF assms] sock_step_trans[OF put_step] by auto
qed

lemma basic_send_ack: "basic_send_control k TCP_ACK = tcp_send_control_packet k TCP_ACK"
  by (simp add: basic_send_control_def tcp_send_control_packet_def has_flag_def tcp_flag_defs)

lemma basic_window_step:
  assumes "socks s k = Some t" "sk_state t = TCP_ESTABLISHED"
  shows "\<exists>t'. basic_update_window_safe k cb s = Inr (put_sock k t' s) \<and> sk_rcv_nxt t' = sk_rcv_nxt t \<and> sk_rcv_buf t' = sk_rcv_buf t \<and>
    sk_rcv_wnd t' = sk_rcv_wnd t \<and> sk_state t' = sk_state t \<and> sk_wait_recv t' = sk_wait_recv t"
proof (cases "less_or_equal_32b (sk_snd_una t) (cb_ack cb) \<and> less_or_equal_32b (cb_ack cb) (sk_snd_nxt t)")
  case True
  with assms show ?thesis
    by (auto simp: basic_update_window_safe_def basic_update_window_def with_sock_def Let_def wake_send_def)
next
  case False
  have "basic_update_window_safe k cb s = Inr s"
    unfolding basic_update_window_safe_def with_sock_def assms(1) option.simps if_not_P[OF False] ..
  moreover have "put_sock k t s = s" using assms(1) by (simp add: put_sock_def fun_upd_idem)
  ultimately show ?thesis by (intro exI[of _ t]) simp
qed

lemma basic_in_window:
  assumes t: "socks s k = Some t" "sk_state t = TCP_ESTABLISHED" and cb: "data_segment cb" "seq_in_window t cb"
  shows "if ring_buffer_free (sk_rcv_buf t) < length (cb_payload cb) then basic_process (Some k) cb s = Inl Sleeps
    else \<exists>rb s' t'. write_ring_buffer (sk_rcv_buf t) (cb_payload cb) = Inr rb \<and> basic_process (Some k) cb s = Inr s' \<and>
      socks s' k = Some t' \<and> sk_rcv_nxt t' = cb_seq_end cb \<and> sk_rcv_buf t' = rb \<and> sk_rcv_wnd t' = of_nat (ring_buffer_free rb) \<and>
      sk_state t' = TCP_ESTABLISHED \<and> w_dead (sk_wait_recv t') = w_dead (sk_wait_recv t)"
proof -
  have p: "cb_payload cb \<noteq> []" "cb_pl_len cb = int (length (cb_payload cb))" using cb by (simp_all add: data_segment_def)
  have fl: "\<not> has_flag (cb_flags cb) TCP_FIN" "has_flag (cb_flags cb) TCP_ACK" "cb_flags cb \<noteq> TCP_RST OR TCP_ACK"
    using cb by (simp_all add: data_segment_def has_flag_def tcp_flag_defs)
  have eq: "basic_process (Some k) cb s = run_all [basic_sock_recv k cb, basic_expect k cb, basic_update_window_safe k cb,
      tcp_send_control_packet k TCP_ACK] s"
    using t fl p(1,2) cb(2)
    by (simp add: basic_process_def with_sock_def basic_when_valid_def basic_established_def basic_send_ack)
  show ?thesis
  proof (cases "ring_buffer_free (sk_rcv_buf t) < length (cb_payload cb)")
    case True
    then show ?thesis using deliver_data[OF t(1) p(1)] p(1,2) by (simp add: eq basic_sock_recv_def)
  next
    case False
    then obtain rb where rb: "write_ring_buffer (sk_rcv_buf t) (cb_payload cb) = Inr rb"
      using write_ring_buffer_room[OF p(1)] by (meson leI)
    let ?s1 = "put_sock k (taken rb cb t) s"
    have 1: "run_all [basic_sock_recv k cb, basic_expect k cb] s = Inr ?s1"
    proof -
      have "(wake_recv (t\<lparr>sk_rcv_buf := rb, sk_rcv_wnd := of_nat (ring_buffer_free rb)\<rparr>))\<lparr>sk_rcv_nxt := cb_seq_end cb\<rparr> = taken rb cb t"
        by (rule tcp_sock.equality) (simp_all add: taken_def wake_recv_def)
      then show ?thesis
        using deliver_data[OF t(1) p(1)] p(1,2) False rb
        by (simp add: basic_sock_recv_def basic_expect_def with_sock_def upd_sock_def put_sock_def)
    qed
    have k1: "socks ?s1 k = Some (taken rb cb t)" "sk_state (taken rb cb t) = TCP_ESTABLISHED" using t(2) by (simp_all add: put_sock_def taken_def wake_recv_def)
    from basic_window_step[OF k1, of cb] obtain t2 where 2: "basic_update_window_safe k cb ?s1 = Inr (put_sock k t2 ?s1)"
      "sk_rcv_nxt t2 = sk_rcv_nxt (taken rb cb t)" "sk_rcv_buf t2 = sk_rcv_buf (taken rb cb t)" "sk_rcv_wnd t2 = sk_rcv_wnd (taken rb cb t)"
      "sk_state t2 = sk_state (taken rb cb t)" "sk_wait_recv t2 = sk_wait_recv (taken rb cb t)" by blast
    have "socks (put_sock k t2 ?s1) k = Some t2" by (simp add: put_sock_def)
    then obtain s' where 3: "tcp_send_control_packet k TCP_ACK (put_sock k t2 ?s1) = Inr s'" "socks s' k = Some t2"
      by (rule updatesE[OF updates_ack]) simp
    have "basic_process (Some k) cb s = Inr s'"
      using run_all_append[of "[basic_sock_recv k cb, basic_expect k cb]" "[basic_update_window_safe k cb, tcp_send_control_packet k TCP_ACK]" s]
        1 2(1) 3(1) by (simp add: eq)
    with False rb 3(2) 2(2-6) k1(2) show ?thesis by (auto simp: taken_def wake_recv_def wake_up_def)
  qed
qed

lemma basic_next:
  assumes t: "socks s k = Some t" "sk_state t = TCP_ESTABLISHED" and cb: "next_data (sk_rcv_nxt t) cb"
  shows "if ring_buffer_free (sk_rcv_buf t) < length (cb_payload cb) then basic_process (Some k) cb s = Inl Sleeps
    else \<exists>rb s' t'. write_ring_buffer (sk_rcv_buf t) (cb_payload cb) = Inr rb \<and> basic_process (Some k) cb s = Inr s' \<and>
      socks s' k = Some t' \<and> sk_rcv_nxt t' = cb_seq_end cb \<and> sk_rcv_buf t' = rb \<and> sk_rcv_wnd t' = of_nat (ring_buffer_free rb) \<and>
      sk_state t' = TCP_ESTABLISHED \<and> w_dead (sk_wait_recv t') = w_dead (sk_wait_recv t)"
  using basic_in_window[OF t _ next_in_window(1)[OF cb]] cb by (simp add: next_data_def)

lemma full_next:
  assumes t: "socks s k = Some t" "nothing_sent t" "sk_rcv_ofo_buf t = []" and cb: "next_data (sk_rcv_nxt t) cb"
  shows "if ring_buffer_free (sk_rcv_buf t) < length (cb_payload cb) then tcp_process (Some k) cb s = Inl Sleeps
    else \<exists>rb s' t'. write_ring_buffer (sk_rcv_buf t) (cb_payload cb) = Inr rb \<and> tcp_process (Some k) cb s = Inr s' \<and>
      socks s' k = Some t' \<and> same_rest (taken rb cb t) t'"
proof -
  have fl: "cb_flags cb = TCP_PSH OR TCP_ACK" using cb by (simp add: next_data_def data_segment_def)
  have eq: "tcp_process (Some k) cb s = bind_res (tcp_sock_recv k cb s) (run_all [tcp_update_window_safe k cb, tcp_ack_send_buf k cb])"
    using process_data_eq[OF t(1) _ fl] t(2) next_in_window(1)[OF cb] by (simp add: nothing_sent_def receive_ack_def)
  show ?thesis
  proof (cases "ring_buffer_free (sk_rcv_buf t) < length (cb_payload cb)")
    case True
    with recv_next[OF t(1,3) cb] eq show ?thesis by simp
  next
    case False
    with recv_next[OF t(1,3) cb] obtain rb s1 where 1: "write_ring_buffer (sk_rcv_buf t) (cb_payload cb) = Inr rb"
      "tcp_sock_recv k cb s = Inr s1" "sock_step k (taken rb cb t) s s1" by auto
    have "acked_all (taken rb cb t)" using t(2) by (simp add: acked_all_def nothing_sent_def taken_def wake_recv_def)
    from ack_part[OF sock_step_socks[OF 1(3)] this, of cb] obtain t' s' where
      2: "run_all [tcp_update_window_safe k cb, tcp_ack_send_buf k cb] s1 = Inr s'" "sock_step k t' s1 s'" "same_rest (taken rb cb t) t'" by blast
    with False 1 eq sock_step_socks[OF 2(2)] show ?thesis by (simp del: run_all.simps)
  qed
qed

text \<open>One event at either socket.\<close>

fun basic_step :: "nat \<Rightarrow> rx_event \<Rightarrow> 'b tcp_net_scheme \<times> bytes \<Rightarrow> ('b tcp_net_scheme \<times> bytes) res" where
  "basic_step k (Arrives cb) (s, out) = bind_res (basic_process (Some k) cb s) (\<lambda>s. Inr (s, out))"
| "basic_step k (Reads n) (s, out) = rx_step k (Reads n) (s, out)"

fun full_step :: "nat \<Rightarrow> rx_event \<Rightarrow> 'b tcp_net_scheme \<times> bytes \<Rightarrow> ('b tcp_net_scheme \<times> bytes) res" where
  "full_step k (Arrives cb) (s, out) = bind_res (tcp_process (Some k) cb s) (\<lambda>s. Inr (s, out))"
| "full_step k (Reads n) (s, out) = rx_step k (Reads n) (s, out)"

text \<open>Data segments that follow on one another, from \<open>r\<close> on.\<close>

fun in_order :: "u32 \<Rightarrow> rx_event list \<Rightarrow> bool" where
  "in_order r [] = True"
| "in_order r (Arrives cb # es) = (next_data r cb \<and> in_order (cb_seq_end cb) es)"
| "in_order r (Reads n # es) = in_order r es"

definition both :: "nat \<Rightarrow> 'b tcp_net_scheme \<times> bytes \<Rightarrow> 'b tcp_net_scheme \<times> bytes \<Rightarrow> bool" where
  "both k x y \<longleftrightarrow> snd x = snd y \<and> (\<exists>t u. socks (fst x) k = Some t \<and> socks (fst y) k = Some u \<and> same_stream t u)"

lemma both_arrives:
  fixes s s' :: "'b tcp_net_scheme"
  assumes t: "socks s k = Some t" "socks s' k = Some u" and b: "same_stream t u" and cb: "next_data (sk_rcv_nxt t) cb"
  shows "tcp_process (Some k) cb s = Inl Sleeps \<and> basic_process (Some k) cb s' = Inl Sleeps \<or>
    (\<exists>s1 s1' t1 u1. tcp_process (Some k) cb s = Inr s1 \<and> basic_process (Some k) cb s' = Inr s1' \<and>
      socks s1 k = Some t1 \<and> socks s1' k = Some u1 \<and> same_stream t1 u1 \<and> sk_rcv_nxt t1 = cb_seq_end cb)"
proof -
  have u: "sk_state u = TCP_ESTABLISHED" "next_data (sk_rcv_nxt u) cb" "sk_rcv_buf u = sk_rcv_buf t" using b cb by (auto simp: same_stream_def)
  have t': "nothing_sent t" "sk_rcv_ofo_buf t = []" using b by (auto simp: same_stream_def)
  note 1 = full_next[OF t(1) t' cb] and 2 = basic_next[OF t(2) u(1,2)]
  show ?thesis
  proof (cases "ring_buffer_free (sk_rcv_buf t) < length (cb_payload cb)")
    case True
    with 1 2 u(3) show ?thesis by simp
  next
    case False
    from 1 False obtain rb s1 t1 where 3: "write_ring_buffer (sk_rcv_buf t) (cb_payload cb) = Inr rb" "tcp_process (Some k) cb s = Inr s1"
      "socks s1 k = Some t1" "same_rest (taken rb cb t) t1" by auto
    from 2 False 3(1) u(3) obtain s1' u1 where 4: "basic_process (Some k) cb s' = Inr s1'" "socks s1' k = Some u1"
      "sk_rcv_nxt u1 = cb_seq_end cb" "sk_rcv_buf u1 = rb" "sk_rcv_wnd u1 = of_nat (ring_buffer_free rb)"
      "sk_state u1 = TCP_ESTABLISHED" "w_dead (sk_wait_recv u1) = w_dead (sk_wait_recv u)" by auto
    have "same_stream t1 u1" "sk_rcv_nxt t1 = cb_seq_end cb" using 3(4) 4(3-7) b
      by (auto simp: same_stream_def same_rest_def same_rx_def same_end_def taken_def wake_recv_def wake_up_def nothing_sent_def)
    with 3(2,3) 4(1,2) show ?thesis by blast
  qed
qed

lemma both_reads:
  fixes s s' :: "'b tcp_net_scheme"
  assumes t: "socks s k = Some t" "socks s' k = Some u" and b: "same_stream t u"
  shows "\<exists>s1 s1' t1 u1 out'. rx_step k (Reads n) (s, out) = Inr (s1, out') \<and> rx_step k (Reads n) (s', out) = Inr (s1', out') \<and>
    socks s1 k = Some t1 \<and> socks s1' k = Some u1 \<and> same_stream t1 u1 \<and> sk_rcv_nxt t1 = sk_rcv_nxt t"
proof -
  have st: "sk_state t \<noteq> TCP_CLOSE_WAIT" "sk_state u \<noteq> TCP_CLOSE_WAIT" "sk_rcv_buf u = sk_rcv_buf t"
    using b by (auto simp: same_stream_def nothing_sent_def)
  show ?thesis
  proof (cases "ring_buffer_empty (sk_rcv_buf t)")
    case True
    obtain w where w: "sleep_loop (sk_wait_recv t) = Inr w" "\<not> w_dead w"
      using sleep_loop_cases[of "sk_wait_recv t"] b by (auto simp: same_stream_def)
    obtain w' where w': "sleep_loop (sk_wait_recv u) = Inr w'" "\<not> w_dead w'"
      using sleep_loop_cases[of "sk_wait_recv u"] b by (auto simp: same_stream_def)
    have "same_stream (t\<lparr>sk_wait_recv := w\<rparr>) (u\<lparr>sk_wait_recv := w'\<rparr>)" using b w(2) w'(2) by (simp add: same_stream_def nothing_sent_def)
    with t st True w(1) w'(1) show ?thesis by (simp add: tcp_sock_read_def with_sock_def put_sock_def)
  next
    case False
    obtain buf rb where r: "read_ring_buffer (sk_rcv_buf t) n = (buf, rb)" by (meson surj_pair)
    let ?f = "\<lambda>t. t\<lparr>sk_rcv_buf := rb, sk_rcv_wnd := of_nat (ring_buffer_free rb), sk_wait_recv := fst (wake_up (sk_wait_recv t))\<rparr>"
    have "same_stream (?f t) (?f u)" using b by (simp add: same_stream_def nothing_sent_def wake_up_def)
    with t st False r show ?thesis by (simp add: tcp_sock_read_def with_sock_def put_sock_def)
  qed
qed

lemma both_run:
  fixes s s' :: "'b tcp_net_scheme"
  shows "in_order (sk_rcv_nxt t) es \<Longrightarrow> socks s k = Some t \<Longrightarrow> socks s' k = Some u \<Longrightarrow> same_stream t u \<Longrightarrow>
    fold_res (full_step k) es (s, out) = Inl Sleeps \<and> fold_res (basic_step k) es (s', out) = Inl Sleeps \<or>
    (\<exists>x y. fold_res (full_step k) es (s, out) = Inr x \<and> fold_res (basic_step k) es (s', out) = Inr y \<and> both k x y)"
proof (induction es arbitrary: s s' t u out)
  case Nil
  then show ?case by (auto simp: both_def)
next
  case (Cons e es)
  note b = Cons.prems(4) and t = Cons.prems(2,3)
  show ?case
  proof (cases e)
    case (Arrives cb)
    then have cb: "next_data (sk_rcv_nxt t) cb" "in_order (cb_seq_end cb) es" using Cons.prems(1) by simp_all
    from both_arrives[OF t b cb(1)] consider "tcp_process (Some k) cb s = Inl Sleeps" "basic_process (Some k) cb s' = Inl Sleeps"
      | s1 s1' t1 u1 where "tcp_process (Some k) cb s = Inr s1" "basic_process (Some k) cb s' = Inr s1'"
        "socks s1 k = Some t1" "socks s1' k = Some u1" "same_stream t1 u1" "sk_rcv_nxt t1 = cb_seq_end cb" by blast
    then show ?thesis
    proof cases
      case 2
      have "in_order (sk_rcv_nxt t1) es" using cb(2) 2(6) by simp
      from Cons.IH[OF this 2(3-5), of out] 2(1,2) Arrives show ?thesis by simp
    qed (simp add: Arrives)
  next
    case (Reads n)
    from both_reads[OF t b, of n out] obtain s1 s1' t1 u1 out' where
      1: "rx_step k (Reads n) (s, out) = Inr (s1, out')" "rx_step k (Reads n) (s', out) = Inr (s1', out')"
        "socks s1 k = Some t1" "socks s1' k = Some u1" "same_stream t1 u1" "sk_rcv_nxt t1 = sk_rcv_nxt t" by blast
    have "in_order (sk_rcv_nxt t1) es" using Cons.prems(1) Reads 1(6) by simp
    from Cons.IH[OF this 1(3-5), of out'] 1(1,2) Reads show ?thesis by (simp del: rx_step.simps)
  qed
qed

section \<open>Properties\<close>

text \<open>
  C9: lab 10 receives what lab 12 receives, as long as nothing is lost or reordered.  Take a connection that sends nothing itself,
  with the same receive state on both stacks, and let data segments that follow on one another
  arrive, with reads of any size in between.  Then either both receive threads wait for room at the same
  segment, or both runs return, the applications have read the same bytes, and the sockets hold
  the same buffer, expect the same number and advertise the same window.
\<close>
theorem basic_agrees_in_order:
  fixes s s' :: "'b tcp_net_scheme"
  assumes "socks s k = Some t" "socks s' k = Some u" "same_stream t u" "in_order (sk_rcv_nxt t) es"
  shows "fold_res (full_step k) es (s, []) = Inl Sleeps \<and> fold_res (basic_step k) es (s', []) = Inl Sleeps \<or>
    (\<exists>s1 s1' out t1 u1. fold_res (full_step k) es (s, []) = Inr (s1, out) \<and> fold_res (basic_step k) es (s', []) = Inr (s1', out) \<and>
      socks s1 k = Some t1 \<and> socks s1' k = Some u1 \<and> sk_rcv_buf u1 = sk_rcv_buf t1 \<and> sk_rcv_nxt u1 = sk_rcv_nxt t1 \<and>
      sk_rcv_wnd u1 = sk_rcv_wnd t1)"
  using both_run[OF assms(4,1-3), of "[]"] by (auto simp: both_def same_stream_def)

text \<open>The example: two segments and a read, on a small buffer.\<close>

definition basic_example_sock :: tcp_sock where
  "basic_example_sock = rx_example_sock\<lparr>sk_state := TCP_ESTABLISHED, sk_rcv_wnd := 8\<rparr>"

definition data_cb :: "u32 \<Rightarrow> bytes \<Rightarrow> tcp_cb" where
  "data_cb seq data = (example_cb seq data)\<lparr>cb_flags := TCP_PSH OR TCP_ACK\<rparr>"

definition basic_example_net :: tcp_net where
  "basic_example_net = put_sock 1 basic_example_sock rx_example_net"

lemma basic_reads:
  assumes "socks s k = Some t" "\<not> ring_buffer_empty (sk_rcv_buf t)"
  shows "\<exists>s' t'. rx_step k (Reads n) (s, out) = Inr (s', out @ fst (read_ring_buffer (sk_rcv_buf t) n)) \<and> socks s' k = Some t' \<and>
    sk_rcv_buf t' = snd (read_ring_buffer (sk_rcv_buf t) n) \<and> sk_rcv_nxt t' = sk_rcv_nxt t \<and> sk_state t' = sk_state t"
  using assms by (auto simp: tcp_sock_read_def with_sock_def put_sock_def split: prod.splits)

theorem basic_agrees_in_order_witness:
  "\<exists>s1 s1' out t1 u1. fold_res (full_step 1) [Arrives (data_cb 100 [1, 2]), Reads 1, Arrives (data_cb 102 [3])] (basic_example_net, []) = Inr (s1, out) \<and>
    fold_res (basic_step 1) [Arrives (data_cb 100 [1, 2]), Reads 1, Arrives (data_cb 102 [3])] (basic_example_net, []) = Inr (s1', out) \<and>
    socks s1 1 = Some t1 \<and> socks s1' 1 = Some u1 \<and> sk_rcv_buf u1 = sk_rcv_buf t1"
proof -
  let ?es = "[Arrives (data_cb 100 [1, 2]), Reads 1, Arrives (data_cb 102 [3])]"
  have t: "socks basic_example_net 1 = Some basic_example_sock" by (simp add: basic_example_net_def put_sock_def)
  have b: "same_stream basic_example_sock basic_example_sock"
    by (simp add: same_stream_def nothing_sent_def basic_example_sock_def rx_example_sock_def new_tcp_sock_def wait_init_def)
  have o: "in_order (sk_rcv_nxt basic_example_sock) ?es"
    by (simp add: next_data_def data_segment_def data_cb_def example_cb_def basic_example_sock_def rx_example_sock_def)
  let ?rb = "\<lparr>rb_size = 9, rb_head = 0, rb_tail = 2, rb_buf = [1, 2, 0, 0, 0, 0, 0, 0, 0]\<rparr>"
  have n: "next_data 100 (data_cb 100 [1, 2])" "next_data 102 (data_cb 102 [3])" by (simp_all add: next_data_def data_segment_def data_cb_def example_cb_def)
  have k: "sk_state basic_example_sock = TCP_ESTABLISHED" "sk_rcv_nxt basic_example_sock = 100"
    "sk_rcv_buf basic_example_sock = alloc_ring_buffer 8" "cb_payload (data_cb 100 [1, 2]) = [1, 2]" "cb_payload (data_cb 102 [3]) = [3]"
    "cb_seq_end (data_cb 100 [1, 2]) = 102"
    by (simp_all add: basic_example_sock_def rx_example_sock_def new_tcp_sock_def data_cb_def example_cb_def)
  have w: "write_ring_buffer (alloc_ring_buffer 8) [1, 2] = Inr ?rb" "\<not> ring_buffer_free (alloc_ring_buffer 8) < 2" by code_simp+
  from basic_next[OF t k(1), of "data_cb 100 [1, 2]"] n(1) w obtain s1 t1 where
    1: "basic_process (Some 1) (data_cb 100 [1, 2]) basic_example_net = Inr s1" "socks s1 1 = Some t1" "sk_rcv_nxt t1 = 102" "sk_rcv_buf t1 = ?rb"
      "sk_state t1 = TCP_ESTABLISHED" by (auto simp: k)
  have r: "\<not> ring_buffer_empty ?rb" "read_ring_buffer ?rb 1 = ([1], ?rb\<lparr>rb_head := 1\<rparr>)" "\<not> ring_buffer_free (?rb\<lparr>rb_head := 1\<rparr>) < 1" by code_simp+
  from basic_reads[OF 1(2), of 1 "[]"] r(1,2) obtain s2 t2 where
    2: "rx_step 1 (Reads 1) (s1, []) = Inr (s2, [1])" "socks s2 1 = Some t2" "sk_rcv_buf t2 = ?rb\<lparr>rb_head := 1\<rparr>" "sk_rcv_nxt t2 = 102"
      "sk_state t2 = TCP_ESTABLISHED" by (auto simp: 1(3-5))
  from basic_next[OF 2(2,5), of "data_cb 102 [3]"] n(2) r(3) have "basic_process (Some 1) (data_cb 102 [3]) s2 \<noteq> Inl Sleeps"
    by (auto simp: k 2(3,4))
  then have "fold_res (basic_step 1) ?es (basic_example_net, []) \<noteq> Inl Sleeps"
    using 1(1) 2(1) by (auto simp: bind_res_def split: sum.splits simp del: rx_step.simps)
  with basic_agrees_in_order[OF t t b o] show ?thesis by blast
qed

lemma basic_room:
  assumes "socks s k = Some t" "sk_state t = TCP_ESTABLISHED" "data_segment cb" "seq_in_window t cb" "rb_inv (sk_rcv_buf t)"
    "length (contents (sk_rcv_buf t)) + length (cb_payload cb) \<le> capacity (sk_rcv_buf t)"
  shows "\<exists>s' t'. basic_process (Some k) cb s = Inr s' \<and> socks s' k = Some t' \<and> sk_rcv_nxt t' = cb_seq_end cb \<and>
    contents (sk_rcv_buf t') = contents (sk_rcv_buf t) @ cb_payload cb \<and> rb_inv (sk_rcv_buf t') \<and> capacity (sk_rcv_buf t') = capacity (sk_rcv_buf t) \<and>
    sk_rcv_wnd t' = of_nat (ring_buffer_free (sk_rcv_buf t')) \<and> sk_state t' = TCP_ESTABLISHED"
proof -
  have "\<not> ring_buffer_free (sk_rcv_buf t) < length (cb_payload cb)"
    using assms(6) free_used[OF assms(5)] used_less[OF assms(5)] by (simp add: length_contents assms(5))
  with basic_in_window[OF assms(1-4)] obtain rb s' t' where "write_ring_buffer (sk_rcv_buf t) (cb_payload cb) = Inr rb"
    "basic_process (Some k) cb s = Inr s'" "socks s' k = Some t'" "sk_rcv_nxt t' = cb_seq_end cb" "sk_rcv_buf t' = rb"
    "sk_rcv_wnd t' = of_nat (ring_buffer_free rb)" "sk_state t' = TCP_ESTABLISHED" by auto
  with rb.put_spec[OF assms(5)] show ?thesis by (intro exI[of _ s'] exI[of _ t']) auto
qed

lemma basic_outside:
  assumes "socks s k = Some t" "sk_state t = TCP_ESTABLISHED" "data_segment cb" "\<not> seq_in_window t cb"
  shows "basic_process (Some k) cb s = Inr s"
proof -
  have "cb_flags cb \<noteq> TCP_RST OR TCP_ACK" using assms(3) by (simp add: data_segment_def has_flag_def tcp_flag_defs)
  with assms show ?thesis by (simp add: basic_process_def with_sock_def basic_when_valid_def)
qed

text \<open>
  C38: lab 10 loses what a gap leaves out.  The segment after the one expected, if it starts inside the window, is written to the
  buffer as if it were next, and its end is the number expected from then on; when the missing segment
  does arrive, it is dropped without an answer, so the reader never gets its bytes.
\<close>
theorem basic_gap_never_filled:
  fixes s :: "'b tcp_net_scheme"
  assumes "socks s k = Some t" "sk_state t = TCP_ESTABLISHED" "next_data (sk_rcv_nxt t) a" "next_data (cb_seq_end a) b"
    "length (cb_payload a) < unat (sk_rcv_wnd t)"
    "rb_inv (sk_rcv_buf t)" "length (contents (sk_rcv_buf t)) + length (cb_payload b) \<le> capacity (sk_rcv_buf t)"
  shows "\<exists>s' t'. fold_res (basic_step k) [Arrives b, Arrives a] (s, []) = Inr (s', []) \<and> socks s' k = Some t' \<and>
    contents (sk_rcv_buf t') = contents (sk_rcv_buf t) @ cb_payload b \<and> sk_rcv_nxt t' = cb_seq_end b"
proof -
  define la lb w where "la = length (cb_payload a)" and "lb = length (cb_payload b)" and "w = unat (sk_rcv_wnd t)"
  have l: "0 < la" "la \<le> 65495" "0 < lb" "lb \<le> 65495" "la < w" "w < 65536"
    using assms(3-5) unat_u16_less[of "sk_rcv_wnd t"] by (auto simp: next_data_def data_segment_def la_def lb_def w_def)
  have e: "cb_seq a = sk_rcv_nxt t" "cb_seq_end a = sk_rcv_nxt t + of_nat la" "cb_seq b = sk_rcv_nxt t + of_nat la"
    "cb_seq_end b = sk_rcv_nxt t + of_nat la + of_nat lb" using assms(3,4) by (simp_all add: next_data_def data_segment_def la_def lb_def)
  have m: "max (int (unat (sk_rcv_wnd t))) 1 = int w" using l(5) unfolding w_def by linarith
  have d: "cb_seq b - (sk_rcv_nxt t + of_nat w) = - of_nat (w - la)" "sk_rcv_nxt t - cb_seq_end b = - of_nat (la + lb)"
    using l by (simp_all add: e of_nat_diff)
  have in_b: "seq_in_window t b"
    unfolding seq_in_window_def Let_def m less_than_32b_def less_or_equal_32b_def of_int_of_nat_eq d
    using l by (simp add: sint_small_diff del: of_nat_add of_nat_diff)
  obtain s1 t1 where 1: "basic_process (Some k) b s = Inr s1" "socks s1 k = Some t1" "sk_rcv_nxt t1 = cb_seq_end b"
    "contents (sk_rcv_buf t1) = contents (sk_rcv_buf t) @ cb_payload b" "sk_state t1 = TCP_ESTABLISHED"
    using basic_room[OF assms(1,2) _ in_b assms(6,7)] assms(4) by (auto simp: next_data_def)
  have "\<not> seq_in_window t1 a" using l by (simp add: seq_in_window_def e 1(3) less_or_equal_32b_def sint_small_diff)
  then have "basic_process (Some k) a s1 = Inr s1" using basic_outside[OF 1(2,5)] assms(3) by (simp add: next_data_def)
  with 1 show ?thesis by simp
qed

lemma basic_example:
  "socks basic_example_net 1 = Some basic_example_sock" "sk_state basic_example_sock = TCP_ESTABLISHED" "sk_rcv_nxt basic_example_sock = 100"
  "sk_rcv_wnd basic_example_sock = 8" "sk_rcv_buf basic_example_sock = alloc_ring_buffer 8"
  by (simp_all add: basic_example_net_def put_sock_def basic_example_sock_def rx_example_sock_def new_tcp_sock_def)

theorem basic_gap_never_filled_witness:
  "\<exists>s' t'. fold_res (basic_step 1) [Arrives (data_cb 102 [3]), Arrives (data_cb 100 [1, 2])] (basic_example_net, []) = Inr (s', []) \<and>
    socks s' 1 = Some t' \<and> contents (sk_rcv_buf t') = [3] \<and> sk_rcv_nxt t' = 103"
  using basic_gap_never_filled[OF basic_example(1,2), of "data_cb 100 [1, 2]" "data_cb 102 [3]"] rb_inv_alloc[of 8]
  by (simp add: basic_example next_data_def data_segment_def data_cb_def example_cb_def del: fold_res.simps length_contents)

text \<open>A segment whose end is the number expected passes the check too: the last one, sent again, is delivered twice.\<close>

lemma basic_delivers_twice:
  assumes "socks s k = Some t" "sk_state t = TCP_ESTABLISHED" "next_data (sk_rcv_nxt t) a" "rb_inv (sk_rcv_buf t)"
    "length (contents (sk_rcv_buf t)) + 2 * length (cb_payload a) \<le> capacity (sk_rcv_buf t)"
  shows "\<exists>s' t'. fold_res (basic_step k) [Arrives a, Arrives a] (s, []) = Inr (s', []) \<and> socks s' k = Some t' \<and>
    contents (sk_rcv_buf t') = contents (sk_rcv_buf t) @ cb_payload a @ cb_payload a"
proof -
  have a: "data_segment a" "cb_seq a = sk_rcv_nxt t" using assms(3) by (simp_all add: next_data_def)
  obtain s1 t1 where 1: "basic_process (Some k) a s = Inr s1" "socks s1 k = Some t1" "sk_rcv_nxt t1 = cb_seq_end a"
    "contents (sk_rcv_buf t1) = contents (sk_rcv_buf t) @ cb_payload a" "sk_state t1 = TCP_ESTABLISHED"
    "rb_inv (sk_rcv_buf t1)" "capacity (sk_rcv_buf t1) = capacity (sk_rcv_buf t)"
    using basic_room[OF assms(1,2) a(1) next_in_window(1)[OF assms(3)] assms(4)] assms(5) by auto
  define l n where "l = length (cb_payload a)" and "n = nat (max (int (unat (sk_rcv_wnd t1))) 1)"
  have l: "l \<le> 65495" "0 < n" "n < 65536" "max (int (unat (sk_rcv_wnd t1))) 1 = int n" "cb_seq_end a = sk_rcv_nxt t + of_nat l"
    using a unat_u16_less[of "sk_rcv_wnd t1"] by (auto simp: data_segment_def l_def n_def max_def)
  have d: "cb_seq a - (cb_seq_end a + of_nat n) = - of_nat (l + n)" by (simp add: l(5) a(2))
  have "seq_in_window t1 a"
    unfolding seq_in_window_def Let_def 1(3) l(4) less_than_32b_def less_or_equal_32b_def of_int_of_nat_eq d
    using l(1-3) by (simp add: sint_small_diff del: of_nat_add)
  from basic_room[OF 1(2,5) a(1) this 1(6)] 1 assms(5) show ?thesis
    by (auto simp del: length_contents)
qed

lemma reset_same_tcp: "\<exists>s'. tcp_send_reset cb s = Inr s' \<and> same_tcp s s'"
proof -
  obtain p where p: "tcp_control_packet (fst (net_random s)) (cb_daddr cb) (cb_saddr cb) (cb_dport cb) (cb_sport cb)
      0 (cb_seq_end cb) (TCP_RST OR TCP_ACK) 0 = Inr p" "34 \<le> length p"
    using tcp_control_packet_segment by (force simp: tcp_segment_def has_fields_def)
  with ip_send_same_tcp[OF p(2), of "snd (net_random s)"] same_tcp_random[of s] show ?thesis
    by (cases "net_random s") (auto simp: tcp_send_reset_def intro: same_tcp_trans)
qed

text \<open>
  A reply to a handshake that finds the accept queue full: the child is released while the table still points to it, so
  the next lookup in its bucket reads released memory.
\<close>

lemma basic_full_queue_dangling:
  fixes s :: "'b tcp_net_scheme"
  assumes t: "socks s k = Some t" "sk_state t = TCP_SYN_RECV" "sk_ref_cnt t = 1" "sk_parent t = Some pk"
    and p: "socks s pk = Some p" "tcp_sock_accept_queue_full p" "pk \<noteq> k"
    and cb: "cb_flags cb = TCP_ACK" "seq_in_window t cb"
    and bucket: "established_table s (tcp_hash_function (cb_daddr cb) (cb_saddr cb) (cb_dport cb) (cb_sport cb)) = k # ks"
  shows "\<exists>s'. basic_process (Some k) cb s = Inr s' \<and> tcp_sock_lookup cb s' = Inl UseAfterFree"
proof -
  have fl: "cb_flags cb \<noteq> TCP_RST OR TCP_ACK" using cb(1) by (simp add: tcp_flag_defs)
  let ?rest = "with_sock k (\<lambda>t s. case sk_parent t of
            None \<Rightarrow> Inl NullDeref
          | Some pk \<Rightarrow> with_sock pk (\<lambda>p s.
              if tcp_sock_accept_queue_full p
              then run_all [tcp_set_state k TCP_CLOSED, tcp_send_reset cb,
                upd_sock pk (\<lambda>p. p\<lparr>sk_listen_queue := removeAll k (sk_listen_queue p)\<rparr>), free_tcp_sock k] s
              else run_all [tcp_set_state k TCP_ESTABLISHED, tcp_sock_accept_enqueue k,
                upd_sock pk (\<lambda>p. p\<lparr>sk_wait_accept := fst (wake_up (sk_wait_accept p))\<rparr>)] s) s)"
  have "\<exists>t1. basic_update_window_safe k cb s = Inr (put_sock k t1 s) \<and> sk_parent t1 = Some pk \<and> sk_ref_cnt t1 = 1"
  proof (cases "less_or_equal_32b (sk_snd_una t) (cb_ack cb) \<and> less_or_equal_32b (cb_ack cb) (sk_snd_nxt t)")
    case True
    then show ?thesis unfolding basic_update_window_safe_def basic_update_window_def with_sock_def t(1) option.simps if_P[OF True] using t(2-4)
      by (intro exI[of _ "t\<lparr>sk_snd_wnd := cb_rwnd cb, sk_snd_una := cb_ack cb, sk_adv_wnd := ucast (cb_rwnd cb)\<rparr>"]) simp
  next
    case False
    have "put_sock k t s = s" using t(1) by (simp add: put_sock_def fun_upd_idem)
    then show ?thesis unfolding basic_update_window_safe_def with_sock_def t(1) option.simps if_not_P[OF False] using t(3,4) by metis
  qed
  then obtain t1 where 1: "basic_update_window_safe k cb s = Inr (put_sock k t1 s)" "sk_parent t1 = Some pk" "sk_ref_cnt t1 = 1" by blast
  define t2 where "t2 = t1\<lparr>sk_state := TCP_CLOSED\<rparr>"
  let ?s2 = "put_sock k t2 (put_sock k t1 s)"
  obtain s3 where 3: "tcp_send_reset cb ?s2 = Inr s3" "same_tcp ?s2 s3" using reset_same_tcp by blast
  let ?s4 = "put_sock pk (p\<lparr>sk_listen_queue := removeAll k (sk_listen_queue p)\<rparr>) s3"
  have 4: "run_all [tcp_set_state k TCP_CLOSED, tcp_send_reset cb,
      upd_sock pk (\<lambda>p. p\<lparr>sk_listen_queue := removeAll k (sk_listen_queue p)\<rparr>), free_tcp_sock k] (put_sock k t1 s)
    = Inr (?s4\<lparr>socks := (socks ?s4)(k := None)\<rparr>)"
    using 3 p(1,3) 1(3)
    by (simp add: tcp_set_state_def upd_sock_def with_sock_def put_sock_def t2_def same_tcp_def free_tcp_sock_def Let_def)
  have "basic_process (Some k) cb s = run_all [basic_update_window_safe k cb, ?rest] s"
    using t(1,2) cb fl by (simp add: basic_process_def with_sock_def[of k] basic_process_syn_recv_def basic_when_valid_def)
  also have "\<dots> = Inr (?s4\<lparr>socks := (socks ?s4)(k := None)\<rparr>)"
    using 1 4 p by (simp add: with_sock_def put_sock_def)
  finally show ?thesis using bucket 3(2)
    by (simp add: tcp_sock_lookup_def tcp_sock_lookup_established_def same_tcp_def with_sock_def put_sock_def)
qed

end
