(* ===== verification/Tcp_Apps.thy ===== *)
theory Tcp_Apps
  imports Tcp_Transfer
begin

text \<open>
  The file transfer of \<open>tcp_apps.c\<close> (lab 12, and the same in lab 10): the server thread and the client thread over the socket calls,
  and the transfer of a file from one host to the other.  A thread that sleeps in a call keeps its place in its
  state and repeats the call when it runs again.
\<close>

section \<open>The server thread\<close>

text \<open>
  Where the thread is: in \<open>tcp_sock_accept\<close>, in the loop that reads from the connection with the bytes
  written to the file so far, at its end, or \<open>exit\<close> was called.
\<close>

datatype server_at = Accepting nat | Receiving nat bytes | Stored bytes | ServerExits

definition tcp_server_start :: "u16 \<Rightarrow> 'b tcp_net_scheme \<Rightarrow> (server_at \<times> 'b tcp_net_scheme) res" where
  "tcp_server_start port s = (case alloc_tcp_sock s of (k, s) \<Rightarrow>
     bind_res (tcp_sock_bind k port s) (\<lambda>(err, s).
       if err < 0 then Inr (ServerExits, s)
       else bind_res (tcp_sock_listen k 3 s) (\<lambda>(err, s).
         if err < 0 then Inr (ServerExits, s) else Inr (Accepting k, s))))"

text \<open>
  One pass of the loop.  \<open>opened\<close>: whether \<open>fopen\<close> succeeded; if it did not, the null pointer goes to \<open>fwrite\<close> or
  \<open>fclose\<close>.
\<close>

definition server_round :: "bool \<Rightarrow> nat \<Rightarrow> bytes \<Rightarrow> 'b tcp_net_scheme \<Rightarrow> (server_at \<times> 'b tcp_net_scheme) res" where
  "server_round opened c out s =
    bind_res (tcp_sock_read c 1000 s) (\<lambda>(r, s). case r of
      Blocked \<Rightarrow> Inr (Receiving c out, s)
    | Returned buf \<Rightarrow>
        if \<not> opened then Inl NullDeref
        else if buf \<noteq> [] then Inr (Receiving c (out @ buf), s)
        else bind_res (tcp_sock_close c s) (\<lambda>s. Inr (Stored out, s)))"

fun tcp_server :: "bool \<Rightarrow> server_at \<times> 'b tcp_net_scheme \<Rightarrow> (server_at \<times> 'b tcp_net_scheme) res" where
  "tcp_server opened (Accepting k, s) = bind_res (tcp_sock_accept k s) (\<lambda>(r, s). case r of
      Blocked \<Rightarrow> Inr (Accepting k, s)
    | Returned c \<Rightarrow> Inr (Receiving c [], s))"
| "tcp_server opened (Receiving c out, s) = server_round opened c out s"
| "tcp_server opened (st, s) = Inr (st, s)"

section \<open>The client thread\<close>

text \<open>\<open>Sending k buf data\<close>: \<open>buf\<close> is in \<open>tcp_sock_write\<close>, \<open>data\<close> not read yet.\<close>

datatype client_at = Connecting nat | Sending nat bytes bytes | Sent | ClientExits

text \<open>The loop, until it sleeps in \<open>tcp_sock_write\<close> or the file ends.\<close>

function (sequential) client_loop :: "nat \<Rightarrow> bytes \<Rightarrow> bytes \<Rightarrow> 'b tcp_net_scheme \<Rightarrow> (client_at \<times> 'b tcp_net_scheme) res" where
  "client_loop k buf data s =
    bind_res (tcp_sock_write k buf s) (\<lambda>(rest, s).
      if rest \<noteq> [] then Inr (Sending k rest data, s)
      else if data = [] then bind_res (tcp_sock_close k s) (\<lambda>s. Inr (Sent, s))
      else client_loop k (take 1000 data) (drop 1000 data) s)"
  by pat_completeness auto

termination
  by (relation "measure (\<lambda>(_, _, data, _). length data)") auto

declare client_loop.simps [simp del]

text \<open>\<open>data\<close> is \<open>None\<close> when \<open>fopen\<close> failed: \<open>fread\<close> is called with the null pointer.\<close>

definition client_connected :: "bytes option \<Rightarrow> nat \<Rightarrow> int \<Rightarrow> 'b tcp_net_scheme \<Rightarrow> (client_at \<times> 'b tcp_net_scheme) res" where
  "client_connected data k err s =
    (if err < 0 then Inr (ClientExits, s)
     else case data of None \<Rightarrow> Inl NullDeref | Some content \<Rightarrow> client_loop k [] content s)"

definition tcp_client_start :: "bytes option \<Rightarrow> u32 \<Rightarrow> u16 \<Rightarrow> 'b tcp_net_scheme \<Rightarrow> (client_at \<times> 'b tcp_net_scheme) res" where
  "tcp_client_start data ip port s = (case alloc_tcp_sock s of (k, s) \<Rightarrow>
     bind_res (tcp_sock_connect k ip port s) (\<lambda>(r, s). case r of
       Blocked \<Rightarrow> Inr (Connecting k, s)
     | Returned err \<Rightarrow> client_connected data k err s))"

text \<open>The thread goes on: it was woken in \<open>tcp_sock_connect\<close> or in \<open>tcp_sock_write\<close>.\<close>

fun tcp_client :: "bytes option \<Rightarrow> client_at \<times> 'b tcp_net_scheme \<Rightarrow> (client_at \<times> 'b tcp_net_scheme) res" where
  "tcp_client data (Connecting k, s) = bind_res (tcp_sock_connect_resume k s) (\<lambda>(err, s). client_connected data k err s)"
| "tcp_client data (Sending k buf content, s) = client_loop k buf content s"
| "tcp_client data (st, s) = Inr (st, s)"

section \<open>The client sends its file\<close>

definition fin_fields :: "tcp_sock \<Rightarrow> nat \<Rightarrow> tcp_fields" where
  "fin_fields t n = (control_fields_of t (TCP_FIN OR TCP_ACK))\<lparr>tf_seq := sk_snd_nxt t + of_nat n\<rparr>"

lemma close_sends_fin:
  assumes t: "socks s k = Some t" "sk_state t = TCP_ESTABLISHED" and r: "resolved s (sk_dip t) iface dmac"
  shows "\<exists>s' p. tcp_sock_close k s = Inr s' \<and> tcp_segment (fin_fields t 0) p \<and> net_step [(iface, ip_frame iface dmac p)] s s'"
proof -
  define t1 where "t1 = t\<lparr>sk_state := TCP_FIN_WAIT_1\<rparr>"
  let ?s1 = "put_sock k t1 s"
  have k1: "socks ?s1 k = Some t1" by (simp add: put_sock_def)
  have n1: "net_step [] s ?s1" by simp
  have "resolved ?s1 (sk_dip t1) iface dmac" using r net_step_resolved[OF n1] by (simp add: t1_def)
  from control_frame[OF k1 this, of "TCP_FIN OR TCP_ACK"] obtain p s2 where
    2: "tcp_segment (control_fields_of t1 (TCP_FIN OR TCP_ACK)) p" "tcp_send_control_packet k (TCP_FIN OR TCP_ACK) ?s1 = Inr s2"
      "sock_step k (control_sent (TCP_FIN OR TCP_ACK) p t1) ?s1 s2" "net_step [(iface, ip_frame iface dmac p)] ?s1 s2" by blast
  from set_retrans_step[OF sock_step_socks[OF 2(3)]] obtain s3 where 3: "tcp_set_retrans_timer k 1 s2 = Inr s3" "net_step [] s2 s3" by blast
  have "tcp_sock_close k s = Inr s3" using t 2(2) 3(1)
    by (simp add: tcp_sock_close_def with_sock_def[of k] tcp_set_state_def upd_sock_def t1_def del: One_nat_def)
  moreover have "tcp_segment (fin_fields t 0) p" using 2(1) by (simp add: fin_fields_def control_fields_of_def t1_def)
  ultimately show ?thesis using net_step_trans[OF n1 net_step_trans[OF 2(4) 3(2)]] by auto
qed

lemma client_loop_sends:
  fixes s :: "'b tcp_net_scheme"
  shows "socks s k = Some t \<Longrightarrow> sk_state t = TCP_ESTABLISHED \<Longrightarrow> \<not> w_dead (sk_wait_send t) \<Longrightarrow> resolved s (sk_dip t) iface dmac \<Longrightarrow>
    wide_open t (length (buf @ data)) \<Longrightarrow>
    \<exists>s0 segs ps fin s'. wrote iface dmac k t (buf @ data) s segs ps [] s0 \<and> client_loop k buf data s = Inr (Sent, s') \<and>
      tcp_segment (fin_fields t (length (buf @ data))) fin \<and> net_step [(iface, ip_frame iface dmac fin)] s0 s'"
proof (induction "length data" arbitrary: buf data s t rule: less_induct)
  case less
  note t = less.prems(1-3) and r = less.prems(4) and o = less.prems(5)
  from tcp_sock_write_wrote[OF t(1) r t(3), of buf] obtain rest s1 segs ps where
    1: "tcp_sock_write k buf s = Inr (rest, s1)" "wrote iface dmac k t buf s segs ps rest s1" by blast
  have "wide_open t (length buf)" using o by (simp add: wide_open_def)
  then have rest: "rest = []" "concat segs = buf" using 1(2) by (auto simp: wrote_def)
  then obtain t1 where t1: "socks s1 k = Some t1" "stream_gone (length buf) ps t t1" "net_step (map (\<lambda>p. (iface, ip_frame iface dmac p)) ps) s s1"
    using 1(2) by (auto simp: wrote_def)
  have k1: "sk_state t1 = TCP_ESTABLISHED" "\<not> w_dead (sk_wait_send t1)" "resolved s1 (sk_dip t1) iface dmac" "wide_open t1 (length data)"
    "fin_fields t1 n = fin_fields t (length buf + n)" for n
    using t t1(2) r net_step_resolved[OF t1(3)] wide_open_next[OF _ t1(2)] o
    by (auto simp: stream_gone_def fin_fields_def control_fields_of_def add.assoc)
  have eq: "client_loop k buf data s = (if data = [] then bind_res (tcp_sock_close k s1) (\<lambda>s. Inr (Sent, s))
      else client_loop k (take 1000 data) (drop 1000 data) s1)" using 1(1) rest(1) by (subst client_loop.simps) simp
  show ?case
  proof (cases "data = []")
    case True
    from close_sends_fin[OF t1(1) k1(1,3)] obtain s' p where 2: "tcp_sock_close k s1 = Inr s'" "tcp_segment (fin_fields t1 0) p"
      "net_step [(iface, ip_frame iface dmac p)] s1 s'" by blast
    with eq True 1(2) rest(1) k1(5)[of 0] show ?thesis by auto
  next
    case False
    then have "length (drop 1000 data) < length data" by simp
    from less.hyps[OF this t1(1) k1(1-3), of "take 1000 data"] k1(4) obtain s0 segs2 ps2 fin s' where
      2: "wrote iface dmac k t1 data s1 segs2 ps2 [] s0" "client_loop k (take 1000 data) (drop 1000 data) s1 = Inr (Sent, s')"
        "tcp_segment (fin_fields t1 (length data)) fin" "net_step [(iface, ip_frame iface dmac fin)] s0 s'" by auto
    have "wrote iface dmac k t (buf @ data) s (segs @ segs2) (ps @ ps2) [] s0"
      using wrote_trans[OF _ t1(1) 2(1)] 1(2) rest(1) by simp
    with 2(2-4) eq False k1(5)[of "length data"] show ?thesis by (intro exI[of _ s0] exI[of _ "segs @ segs2"] exI[of _ "ps @ ps2"] exI[of _ fin] exI[of _ s']) simp
  qed
qed

section \<open>The server stores what it reads\<close>

text \<open>The FIN at the end of the stream.\<close>

lemma fin_cb:
  fixes ta n
  defines "cb \<equiv> cb_of_fields (fin_fields ta n)"
  shows "cb_flags cb = TCP_FIN OR TCP_ACK" "cb_pl_len cb = 0" "cb_payload cb = []" "cb_seq cb = sk_snd_nxt ta + of_nat n"
    "cb_seq_end cb = sk_snd_nxt ta + of_nat n + 1" "cb_saddr cb = sk_sip ta" "cb_daddr cb = sk_dip ta" "cb_sport cb = sk_sport ta" "cb_dport cb = sk_dport ta"
  by (simp_all add: cb_def cb_of_fields_def fin_fields_def control_fields_of_def has_flag_def tcp_flag_defs)

lemma fin_in_window:
  assumes "cb_seq cb = sk_rcv_nxt t" "cb_seq_end cb = sk_rcv_nxt t + 1"
  shows "seq_in_window t cb" "\<not> less_or_equal_32b (cb_seq_end cb) (sk_rcv_nxt t)"
  using next_seq_in_window[of cb t 1] assms by auto

lemma recv_fin:
  assumes t: "socks s k = Some t" "sk_state t = TCP_ESTABLISHED" "sk_rcv_ofo_buf t = []"
    and cb: "has_flag (cb_flags cb) TCP_FIN" "cb_pl_len cb = 0" "cb_seq cb = sk_rcv_nxt t" "cb_seq_end cb = sk_rcv_nxt t + 1"
  shows "\<exists>t' s'. tcp_sock_recv k cb s = Inr s' \<and> sock_step k t' s s' \<and> sk_state t' = TCP_CLOSE_WAIT \<and> sk_rcv_buf t' = sk_rcv_buf t \<and>
    sk_send_buf t' = sk_send_buf t \<and> sk_retrans t' = sk_retrans t"
proof -
  define t1 where "t1 = (wake_recv (t\<lparr>sk_state := TCP_CLOSE_WAIT\<rparr>))\<lparr>sk_rcv_nxt := cb_seq_end cb\<rparr>"
  define t2 where "t2 = wake_recv (t1\<lparr>sk_rcv_wnd := of_nat (ring_buffer_free (sk_rcv_buf t1))\<rparr>)"
  have 1: "run_all [deliver k (cb_payload cb) (cb_pl_len cb), receive_fin k (cb_flags cb), upd_sock k (\<lambda>t. t\<lparr>sk_rcv_nxt := cb_seq_end cb\<rparr>)] s
      = Inr (put_sock k t1 s)"
    using t cb(1,2) by (simp add: deliver_def receive_fin_def tcp_set_state_def upd_sock_def with_sock_def put_sock_def t1_def)
  have "sk_rcv_ofo_buf t1 = []" using t(3) by (simp add: t1_def wake_recv_def)
  then have 2: "run_all [with_sock k (\<lambda>t s. drain_ofo k (sk_rcv_ofo_buf t) s),
        upd_sock k (\<lambda>t. wake_recv (t\<lparr>sk_rcv_wnd := of_nat (ring_buffer_free (sk_rcv_buf t))\<rparr>))] (put_sock k t1 s) = Inr (put_sock k t2 s)"
    by (simp add: with_sock_def put_sock_def upd_sock_def t2_def)
  have "socks (put_sock k t2 s) k = Some t2" by (simp add: put_sock_def)
  then obtain s' where 3: "tcp_send_control_packet k TCP_ACK (put_sock k t2 s) = Inr s'" "sock_step k t2 (put_sock k t2 s) s'"
    by (rule updatesE[OF updates_ack]) simp
  have "tcp_sock_recv k cb s = bind_res (run_all [deliver k (cb_payload cb) (cb_pl_len cb), receive_fin k (cb_flags cb),
        upd_sock k (\<lambda>t. t\<lparr>sk_rcv_nxt := cb_seq_end cb\<rparr>)] s) (\<lambda>s. bind_res (run_all [with_sock k (\<lambda>t s. drain_ofo k (sk_rcv_ofo_buf t) s),
        upd_sock k (\<lambda>t. wake_recv (t\<lparr>sk_rcv_wnd := of_nat (ring_buffer_free (sk_rcv_buf t))\<rparr>))] s) (tcp_send_control_packet k TCP_ACK))"
    using t(1,3) cb(3) fin_in_window(2)[OF cb(3,4)]
    by (simp add: tcp_sock_recv_def with_sock_def[of k _ s] bind_res_assoc del: run_all.simps)
       (simp add: run_all.simps bind_res_def split: sum.split)
  with 1 2 3(1) have "tcp_sock_recv k cb s = Inr s'" by (simp del: run_all.simps)
  moreover have "sock_step k t2 s s'" using sock_step_trans[OF put_step 3(2)] .
  ultimately show ?thesis by (intro exI[of _ t2] exI[of _ s']) (simp add: t2_def t1_def wake_recv_def)
qed

lemma process_fin:
  assumes t: "socks s k = Some t" "nothing_sent t" "sk_rcv_ofo_buf t = []"
    and cb: "cb_flags cb = TCP_FIN OR TCP_ACK" "cb_pl_len cb = 0" "cb_seq cb = sk_rcv_nxt t" "cb_seq_end cb = sk_rcv_nxt t + 1"
  shows "\<exists>s' t'. tcp_process (Some k) cb s = Inr s' \<and> socks s' k = Some t' \<and> sk_state t' = TCP_CLOSE_WAIT \<and> sk_rcv_buf t' = sk_rcv_buf t"
proof -
  have st: "sk_state t = TCP_ESTABLISHED" using t(2) by (simp add: nothing_sent_def)
  have f: "(TCP_FIN OR TCP_ACK :: u8) \<noteq> TCP_RST OR TCP_ACK" "(TCP_FIN OR TCP_ACK :: u8) \<noteq> TCP_SYN OR TCP_ACK"
    "has_flag (TCP_FIN OR TCP_ACK) TCP_ACK" "has_flag (TCP_FIN OR TCP_ACK) TCP_FIN" by (simp_all add: has_flag_def tcp_flag_defs)
  from recv_fin[OF t(1) st t(3) _ cb(2-4)] cb(1) f(4) obtain t1 s1 where
    1: "tcp_sock_recv k cb s = Inr s1" "sock_step k t1 s s1" "sk_state t1 = TCP_CLOSE_WAIT" "sk_rcv_buf t1 = sk_rcv_buf t"
      "sk_send_buf t1 = sk_send_buf t" "sk_retrans t1 = sk_retrans t" by auto
  have "acked_all t1" using 1(3,5,6) t(2) by (simp add: acked_all_def nothing_sent_def)
  from ack_part[OF sock_step_socks[OF 1(2)] this, of cb] obtain t2 s2 where
    2: "run_all [tcp_update_window_safe k cb, tcp_ack_send_buf k cb] s1 = Inr s2" "sock_step k t2 s1 s2" "same_rest t1 t2" by blast
  have "tcp_process (Some k) cb s = run_all (receive_ack k cb) s"
    using t(1) st cb(1) f(1-3) fin_in_window(1)[OF cb(3,4)]
    by (simp add: tcp_process_def with_sock_def when_seq_valid_def is_tcp_seq_valid_def del: run_all.simps)
  also have "\<dots> = Inr s2" using 1(1) 2(1) by (simp add: receive_ack_def)
  finally show ?thesis using sock_step_socks[OF 2(2)] 2(3) 1(3,4) by (auto simp: same_rest_def same_rx_def same_end_def)
qed

lemma receiving_all:
  assumes "receiving True segs r0 out J t" "{..<length segs} \<subseteq> J"
  shows "sk_rcv_ofo_buf t = []" "sk_rcv_nxt t = r0 + of_nat (length (concat segs))" "rb_inv (sk_rcv_buf t)" "nothing_sent t"
    "out @ contents (sk_rcv_buf t) = concat segs"
proof -
  obtain m js where m: "rx_at True segs r0 out m js t" "m \<notin> set js" "J \<subseteq> {..<m} \<union> set js" using assms(1) by (auto simp: receiving_def)
  then have "\<not> m < length segs" using assms(2) by auto
  then have ml: "m = length segs" using m(1) by (simp add: rx_at_def)
  have "js = []"
  proof (rule ccontr)
    assume "js \<noteq> []"
    then have "hd js \<in> set js" by simp
    moreover have "hd js < length segs" using m(1) \<open>js \<noteq> []\<close>
      by (cases js) (auto simp: rx_at_def list_all2_Cons1 is_pending_def)
    ultimately show False using m(1) ml by (auto simp: rx_at_def)
  qed
  then show "sk_rcv_ofo_buf t = []" using m(1) by (simp add: rx_at_def)
  show "sk_rcv_nxt t = r0 + of_nat (length (concat segs))" using m(1) ml by (simp add: rx_at_def seg_off_def)
  show "rb_inv (sk_rcv_buf t)" using m(1) by (simp add: rx_at_def)
  show "nothing_sent t" using assms(1) by (simp add: receiving_def)
  show "out @ contents (sk_rcv_buf t) = concat segs" by (rule receiving_prefix(2)[OF assms])
qed

lemma fin_arrives:
  assumes t: "socks s k = Some t" "receiving True segs (sk_snd_nxt ta) out J t" "{..<length segs} \<subseteq> J"
    and look: "tcp_sock_lookup_established (sk_dip ta) (sk_sip ta) (sk_dport ta) (sk_sport ta) s = Inr (Some k)"
    and macs: "length mac = 6" "length (if_mac ia) = 6" and ip: "if_ip ib = sk_dip ta"
    and p: "tcp_segment (fin_fields ta (length (concat segs))) p"
  shows "\<exists>s' t'. host_handle_packet ib (ip_frame ia mac p) s = Inr s' \<and> socks s' k = Some t' \<and> sk_state t' = TCP_CLOSE_WAIT \<and>
    sk_rcv_buf t' = sk_rcv_buf t"
proof -
  let ?f = "fin_fields ta (length (concat segs))"
  note cb = fin_cb[of ta "length (concat segs)"] and all = receiving_all[OF t(2,3)]
  have d: "length (tf_data ?f) \<le> 65495" "if_ip ib = tf_daddr ?f" using ip by (simp_all add: fin_fields_def control_fields_of_def)
  have "host_handle_packet ib (ip_frame ia mac p) s = tcp_process (Some k) (cb_of_fields ?f) s"
    unfolding receive_frame[OF p macs d] using look by (simp add: tcp_sock_lookup_def cb)
  with process_fin[OF t(1) all(4,1) cb(1,2)] cb(4,5) all(2) show ?thesis by simp
qed

text \<open>What happens at the server's host: a frame arrives, or the server thread runs.\<close>

datatype host_event = Receives bytes | ServerRuns

fun host_app :: "ip_iface \<Rightarrow> host_event \<Rightarrow> server_at \<times> 'b tcp_net_scheme \<Rightarrow> (server_at \<times> 'b tcp_net_scheme) res" where
  "host_app ib (Receives f) (st, s) = bind_res (host_handle_packet ib f s) (\<lambda>s. Inr (st, s))"
| "host_app ib ServerRuns (st, s) = tcp_server True (st, s)"

fun to_wire :: "host_event \<Rightarrow> wire_event" where
  "to_wire (Receives f) = Comes f"
| "to_wire ServerRuns = AppReads 1000"

lemma contents_empty: "ring_buffer_empty rb \<longleftrightarrow> contents rb = []"
  by (metis length_0_conv length_contents ring_buffer_empty_def)

lemma read_some:
  assumes "rb_inv rb" "\<not> ring_buffer_empty rb"
  shows "fst (read_ring_buffer rb 1000) = take 1000 (contents rb)" "take 1000 (contents rb) \<noteq> []"
    "contents (snd (read_ring_buffer rb 1000)) = drop 1000 (contents rb)" "rb_inv (snd (read_ring_buffer rb 1000))"
  using rb.get_spec[OF assms(1), of 1000] assms(2) by (auto simp: contents_empty)

lemma app_reads:
  assumes t: "socks s k = Some t" "receiving True segs r0 out J t"
  shows "tcp_server True (Receiving k out, s)
    = bind_res (wire_step ib k (AppReads 1000) (s, out)) (\<lambda>(s, out). Inr (Receiving k out, s))"
proof (cases "ring_buffer_empty (sk_rcv_buf t)")
  case True
  with t show ?thesis
    by (auto simp: receiving_def nothing_sent_def server_round_def tcp_sock_read_def with_sock_def bind_res_assoc bind_res_def split: sum.split)
next
  case False
  have "rb_inv (sk_rcv_buf t)" using t(2) by (auto simp: receiving_def rx_at_def)
  from read_some[OF this False] False t(1) show ?thesis
    by (auto simp: server_round_def tcp_sock_read_def with_sock_def split: prod.splits)
qed

text \<open>After the FIN the server empties the buffer and closes.\<close>

lemma close_wait_closes:
  assumes "socks s k = Some t" "sk_state t = TCP_CLOSE_WAIT"
  shows "\<exists>s'. tcp_sock_close k s = Inr s'"
proof -
  let ?s1 = "put_sock k (t\<lparr>sk_state := TCP_LAST_ACK\<rparr>) s"
  have "socks ?s1 k = Some (t\<lparr>sk_state := TCP_LAST_ACK\<rparr>)" by (simp add: put_sock_def)
  then obtain t2 s2 where 2: "tcp_send_control_packet k (TCP_FIN OR TCP_ACK) ?s1 = Inr s2" "sock_step k t2 ?s1 s2"
    by (rule updatesE[OF updates_control[of k "TCP_FIN OR TCP_ACK"]]) simp
  from set_retrans_step[OF sock_step_socks[OF 2(2)]] obtain s3 where "tcp_set_retrans_timer k 1 s2 = Inr s3" by blast
  with assms 2(1) show ?thesis
    by (simp add: tcp_sock_close_def with_sock_def[of k _ s] tcp_set_state_def upd_sock_def del: One_nat_def)
qed

lemma stored_stays: "fold_res (host_app ib) (replicate n ServerRuns) (Stored out, s) = Inr (Stored out, s)"
  by (induction n) simp_all

lemma server_drains:
  fixes s :: "'b tcp_net_scheme"
  shows "socks s k = Some t \<Longrightarrow> sk_state t = TCP_CLOSE_WAIT \<Longrightarrow> rb_inv (sk_rcv_buf t) \<Longrightarrow> length (contents (sk_rcv_buf t)) < n \<Longrightarrow>
    \<exists>s'. fold_res (host_app ib) (replicate n ServerRuns) (Receiving k out, s) = Inr (Stored (out @ contents (sk_rcv_buf t)), s')"
proof (induction n arbitrary: s t out)
  case (Suc n)
  note t = Suc.prems(1,2)
  show ?case
  proof (cases "ring_buffer_empty (sk_rcv_buf t)")
    case True
    from close_wait_closes[OF t] obtain s' where "tcp_sock_close k s = Inr s'" by blast
    with True t have "tcp_server True (Receiving k out, s) = Inr (Stored out, s')"
      by (simp add: server_round_def tcp_sock_read_def with_sock_def[of k _ s])
    with True stored_stays[of ib n out s'] show ?thesis by (simp add: contents_empty)
  next
    case False
    note r = read_some[OF Suc.prems(3) False]
    define rb where "rb = snd (read_ring_buffer (sk_rcv_buf t) 1000)"
    let ?t = "t\<lparr>sk_rcv_buf := rb, sk_rcv_wnd := of_nat (ring_buffer_free rb), sk_wait_recv := fst (wake_up (sk_wait_recv t))\<rparr>"
    have 1: "tcp_server True (Receiving k out, s) = Inr (Receiving k (out @ take 1000 (contents (sk_rcv_buf t))), put_sock k ?t s)"
      using t False r(1,2) by (auto simp: server_round_def tcp_sock_read_def with_sock_def rb_def split: prod.splits)
    have c: "contents (sk_rcv_buf ?t) = drop 1000 (contents (sk_rcv_buf t))" "rb_inv (sk_rcv_buf ?t)" using r(3,4) by (simp_all add: rb_def)
    have "length (contents (sk_rcv_buf ?t)) < n" using Suc.prems(4) r(2) unfolding c(1) by (cases "contents (sk_rcv_buf t)") auto
    moreover have "socks (put_sock k ?t s) k = Some ?t" "sk_state ?t = TCP_CLOSE_WAIT" using t by (simp_all add: put_sock_def)
    ultimately obtain s' where "fold_res (host_app ib) (replicate n ServerRuns) (Receiving k (out @ take 1000 (contents (sk_rcv_buf t))), put_sock k ?t s)
      = Inr (Stored ((out @ take 1000 (contents (sk_rcv_buf t))) @ contents (sk_rcv_buf ?t)), s')"
      using Suc.IH[of "put_sock k ?t s" ?t "out @ take 1000 (contents (sk_rcv_buf t))"] c(2) by blast
    with 1 show ?thesis unfolding c(1) by (simp del: tcp_server.simps)
  qed
qed simp

lemma comes_to_wire: "Comes f \<in> set (map to_wire es) \<longleftrightarrow> Receives f \<in> set es"
proof -
  have "to_wire e = Comes f \<longleftrightarrow> e = Receives f" for e by (cases e) auto
  then show ?thesis unfolding set_map image_iff by metis
qed

lemma app_run:
  fixes b :: "'b tcp_net_scheme"
  assumes ok: "stream_ok segs (sk_snd_nxt ta)" and sizes: "\<forall>seg \<in> set segs. length seg \<le> TCP_MSS"
    and macs: "length mac = 6" "length (if_mac ia) = 6" and ip: "if_ip ib = sk_dip ta"
    and ps: "length ps = length segs" "\<forall>j < length segs. carries ta segs j (ps ! j)"
    and b: "socks b k = Some t" "receiving True segs (sk_snd_nxt ta) out J t"
      "tcp_sock_lookup_established (sk_dip ta) (sk_sip ta) (sk_dport ta) (sk_sport ta) b = Inr (Some k)"
  shows "{f. Receives f \<in> set es} \<subseteq> set (map (ip_frame ia mac) ps) \<Longrightarrow> fold_res (host_app ib) es (Receiving k out, b)
    = bind_res (fold_res (wire_step ib k) (map to_wire es) (b, out)) (\<lambda>(s, out). Inr (Receiving k out, s))"
proof (induction es rule: rev_induct)
  case (snoc e es)
  have frames: "{f. Comes f \<in> set (map to_wire es)} \<subseteq> set (map (ip_frame ia mac) ps)"
    using snoc.prems unfolding comes_to_wire by auto
  from wire_delivers[OF ok sizes macs ip ps b frames] obtain t' b' out' J' where
    1: "fold_res (wire_step ib k) (map to_wire es) (b, out) = Inr (b', out')" "socks b' k = Some t'"
      "receiving True segs (sk_snd_nxt ta) out' J' t'" by blast
  have "fold_res (host_app ib) es (Receiving k out, b) = Inr (Receiving k out', b')"
    using snoc.IH snoc.prems 1(1) by auto
  then have "fold_res (host_app ib) (es @ [e]) (Receiving k out, b) = host_app ib e (Receiving k out', b')"
    by (simp add: fold_res_append bind_res_def split: sum.split)
  also have "\<dots> = bind_res (wire_step ib k (to_wire e) (b', out')) (\<lambda>(s, out). Inr (Receiving k out, s))"
    using app_reads[OF 1(2,3)] by (cases e) (simp_all add: bind_res_assoc del: tcp_server.simps)
  finally show ?case using 1(1) by (simp add: fold_res_append bind_res_def split: sum.split)
qed simp

section \<open>Properties\<close>

text \<open>
  C3: a file crosses the network.  The client thread on host \<open>a\<close> has connected, its next hop is known, and the window takes
  the file; the server thread on host \<open>b\<close> has accepted the other end of the connection and is about to read.  Then the
  client reads its file to the end, sends it in frames with a FIN behind them, and ends.  Let the frames arrive at \<open>b\<close> in any
  order and any number of times, with the server thread running in between, and the FIN behind them: the server
  thread, when it runs on, stores exactly the file and ends.
\<close>
theorem file_transfer:
  fixes a b :: "'b tcp_net_scheme"
  assumes client: "socks a ka = Some ta" "sk_state ta = TCP_ESTABLISHED" "\<not> w_dead (sk_wait_send ta)" "resolved a (sk_dip ta) ia mac"
      "wide_open ta (length data)"
    and server: "socks b kb = Some tb" "nothing_sent tb" "window_told tb" "sk_rcv_ofo_buf tb = []" "rb_inv (sk_rcv_buf tb)"
      "contents (sk_rcv_buf tb) = []" "\<not> w_dead (sk_wait_recv tb)"
    and peers: "if_ip ib = sk_dip ta" "sk_rcv_nxt tb = sk_snd_nxt ta"
      "tcp_sock_lookup_established (sk_dip ta) (sk_sip ta) (sk_dport ta) (sk_sport ta) b = Inr (Some kb)"
    and size: "length data \<le> capacity (sk_rcv_buf tb)" "capacity (sk_rcv_buf tb) < 65536" "unat (sk_snd_nxt ta) + length data < 4294967296"
  shows "\<exists>a' frames fin. client_connected (Some data) ka 0 a = Inr (Sent, a') \<and> net_sent a' = net_sent a @ map (Pair ia) (frames @ [fin]) \<and>
    (\<forall>es n. {f. Receives f \<in> set es} = set frames \<longrightarrow> length data < n \<longrightarrow>
      (\<exists>b'. fold_res (host_app ib) (es @ [Receives fin] @ replicate n ServerRuns) (Receiving kb [], b) = Inr (Stored data, b')))"
proof -
  have macs: "length mac = 6" "length (if_mac ia) = 6" using client(4) by (simp_all add: resolved_def)
  from client_loop_sends[OF client(1-4), of "[]" data] client(5) obtain s0 segs ps p a' where
    w: "wrote ia mac ka ta data a segs ps [] s0" "client_loop ka [] data a = Inr (Sent, a')"
      "tcp_segment (fin_fields ta (length data)) p" "net_step [(ia, ip_frame ia mac p)] s0 a'" by auto
  then have segs: "data = concat segs" "[] \<notin> set segs" "\<forall>seg \<in> set segs. length seg \<le> TCP_MSS" "length ps = length segs"
    "\<forall>j < length segs. carries ta segs j (ps ! j)" and sent: "net_step (map (\<lambda>p. (ia, ip_frame ia mac p)) ps) a s0" by (auto simp: wrote_def)
  let ?frames = "map (ip_frame ia mac) ps" and ?fin = "ip_frame ia mac p"
  have "net_sent a' = net_sent a @ map (Pair ia) (?frames @ [?fin])" using net_step_trans[OF sent w(4)] by (simp add: net_step_def comp_def)
  moreover have ok: "stream_ok segs (sk_snd_nxt ta)" using segs(1,2) size by (simp add: stream_ok_def)
  have start: "receiving True segs (sk_snd_nxt ta) [] {} tb"
    by (rule receiving_start[OF server peers(2) _ size(2)]) (use segs(1) size(1) in simp)
  have "\<exists>b'. fold_res (host_app ib) (es @ [Receives ?fin] @ replicate n ServerRuns) (Receiving kb [], b) = Inr (Stored data, b')"
    if es: "{f. Receives f \<in> set es} = set ?frames" and n: "length data < n" for es n
  proof -
    have fr: "{f. Comes f \<in> set (map to_wire es)} = set ?frames" using es unfolding comes_to_wire .
    from wire_delivers[OF ok segs(3) macs peers(1) segs(4,5) server(1) start peers(3), of "map to_wire es"] fr obtain t1 b1 out J where
      1: "fold_res (wire_step ib kb) (map to_wire es) (b, []) = Inr (b1, out)" "socks b1 kb = Some t1"
        "receiving True segs (sk_snd_nxt ta) out J t1" "{..<length segs} \<subseteq> J"
        "tcp_sock_lookup_established (sk_dip ta) (sk_sip ta) (sk_dport ta) (sk_sport ta) b1 = Inr (Some kb)" by auto
    have run: "fold_res (host_app ib) es (Receiving kb [], b) = Inr (Receiving kb out, b1)"
      using app_run[OF ok segs(3) macs peers(1) segs(4,5) server(1) start peers(3), of es] es 1(1) by simp
    have "tcp_segment (fin_fields ta (length (concat segs))) p" using w(3) segs(1) by simp
    from fin_arrives[OF 1(2-5) macs peers(1) this] obtain b2 t2 where
      2: "host_handle_packet ib ?fin b1 = Inr b2" "socks b2 kb = Some t2" "sk_state t2 = TCP_CLOSE_WAIT" "sk_rcv_buf t2 = sk_rcv_buf t1" by blast
    have c: "out @ contents (sk_rcv_buf t2) = data" "rb_inv (sk_rcv_buf t2)" using receiving_all[OF 1(3,4)] 2(4) segs(1) by simp_all
    then have "length (contents (sk_rcv_buf t2)) < n" using n by (metis le_add2 length_append order_le_less_trans)
    from server_drains[OF 2(2,3) c(2) this, of ib out] c(1) obtain b' where
      "fold_res (host_app ib) (replicate n ServerRuns) (Receiving kb out, b2) = Inr (Stored data, b')" by auto
    with run 2(1) show ?thesis by (simp add: fold_res_append)
  qed
  ultimately show ?thesis using w(2) by (intro exI[of _ a'] exI[of _ ?frames] exI[of _ ?fin]) (auto simp: client_connected_def)
qed

theorem file_transfer_witness:
  "\<exists>a' b' frames fin. client_connected (Some [71, 69, 84]) 0 0 example_a = Inr (Sent, a') \<and>
    net_sent a' = map (Pair iface_a) (frames @ [fin]) \<and>
    fold_res (host_app iface_b) (map Receives frames @ [ServerRuns] @ map Receives (rev frames) @ [Receives fin] @ replicate 4 ServerRuns)
      (Receiving 0 [], example_b) = Inr (Stored [71, 69, 84], b')"
proof -
  obtain a' frames fin where t: "client_connected (Some [71, 69, 84]) 0 0 example_a = Inr (Sent, a')"
    "net_sent a' = net_sent example_a @ map (Pair iface_a) (frames @ [fin])"
    "\<forall>es n. {f. Receives f \<in> set es} = set frames \<longrightarrow> length [71, 69, 84 :: u8] < n \<longrightarrow>
      (\<exists>b'. fold_res (host_app iface_b) (es @ [Receives fin] @ replicate n ServerRuns) (Receiving 0 [], example_b) = Inr (Stored [71, 69, 84], b'))"
    using file_transfer[OF example_writes(1,5,2,3,6) example_reads(1-7) example_peers example_size] by blast
  have "{f. Receives f \<in> set (map Receives frames @ [ServerRuns] @ map Receives (rev frames))} = set frames" by auto
  with t(3)[rule_format, of "map Receives frames @ [ServerRuns] @ map Receives (rev frames)" 4] obtain b' where
    "fold_res (host_app iface_b) ((map Receives frames @ [ServerRuns] @ map Receives (rev frames)) @ [Receives fin] @ replicate 4 ServerRuns)
      (Receiving 0 [], example_b) = Inr (Stored [71, 69, 84], b')" by auto
  with t(1,2) example_writes(4) show ?thesis by (intro exI[of _ a'] exI[of _ b'] exI[of _ frames] exI[of _ fin]) simp
qed

end
