(* ===== verification/Tcp_Exchange.thy ===== *)
theory Tcp_Exchange
  imports Tcp_Basic_Stream Tcp_Apps
begin

text \<open>
  A segment and its acknowledgement, with the congestion window (\<open>tcp_update_window\<close>), the retransmission timer and the send
  buffer (\<open>tcp_in.c\<close>, \<open>tcp_sock.c\<close>, \<open>tcp_timer.c\<close>): the two ends of a connection at rest, what a write of one segment makes of them, and the
  stream that comes back.  \<open>calm\<close>: not in fast retransmission; \<open>waiting_ack\<close>: one segment is out; \<open>at_rest\<close>, \<open>two_ends\<close>: an end of
  a connection and its peer.
\<close>

section \<open>One segment and its acknowledgement\<close>

text \<open>A socket outside fast retransmission, and the fourth acknowledgement with the same number not near.\<close>

definition calm :: "tcp_sock \<Rightarrow> bool" where
  "calm t \<longleftrightarrow> sk_recovery_point t = 0 \<and> sk_frpacks t = - 1 \<and> sk_dupacks t < 3 \<and> 0 < sk_cwnd t \<and> sk_cwnd t < 4294967295"

lemma calm_grows:
  assumes "calm t"
  shows "sk_recovery_point (grow_cwnd t) = 0" "sk_frpacks (grow_cwnd t) = - 1" "sk_dupacks (grow_cwnd t) < 3" "0 < sk_cwnd (grow_cwnd t)"
proof -
  have "sk_cwnd t + 1 \<noteq> 0"
  proof
    assume "sk_cwnd t + 1 = 0"
    then have "sk_cwnd t = - 1" by (simp add: eq_neg_iff_add_eq_0)
    with assms show False by (simp add: calm_def)
  qed
  then have "0 < sk_cwnd t + 1" by (simp add: word_gt_0)
  with assms show "sk_recovery_point (grow_cwnd t) = 0" "sk_frpacks (grow_cwnd t) = - 1" "sk_dupacks (grow_cwnd t) < 3" "0 < sk_cwnd (grow_cwnd t)"
    by (simp_all add: calm_def grow_cwnd_def Let_def)
qed

lemma window_calm:
  assumes t: "socks s k = Some t" "sk_state t = TCP_ESTABLISHED" "calm t"
    and ack: "less_or_equal_32b (sk_snd_una t) (cb_ack cb)" "less_or_equal_32b (cb_ack cb) (sk_snd_nxt t)"
  shows "\<exists>t'. tcp_update_window_safe k cb s = Inr (put_sock k t' s) \<and> same_rest t t' \<and> sk_recovery_point t' = 0 \<and> 0 < sk_cwnd t' \<and>
    sk_adv_wnd t' = ucast (ucast (sk_adv_wnd t) + (cb_ack cb - sk_snd_una t)) \<and> sk_snd_wnd t' = send_window (sk_adv_wnd t') (sk_cwnd t') \<and>
    sk_snd_nxt t' = sk_snd_nxt t \<and> sk_ref_cnt t' = sk_ref_cnt t \<and> w_dead (sk_wait_send t') = w_dead (sk_wait_send t)"
proof -
  let ?adv = "ucast (ucast (sk_adv_wnd t) + (cb_ack cb - sk_snd_una t))"
  define t1 where "t1 = t\<lparr>sk_adv_wnd := ?adv, sk_snd_una := cb_ack cb\<rparr>"
  have c1: "calm t1" using t(3) by (simp add: t1_def calm_def)
  define t2 where "t2 = fst (count_dupacks (cb_ack cb) (grow_cwnd t1))"
  note g = calm_grows[OF c1]
  have cd: "count_dupacks (cb_ack cb) (grow_cwnd t1) = (t2, False)" "sk_recovery_point t2 = 0" "0 < sk_cwnd t2" "sk_adv_wnd t2 = ?adv"
    "sk_snd_nxt t2 = sk_snd_nxt t" "sk_ref_cnt t2 = sk_ref_cnt t" "sk_wait_send t2 = sk_wait_send t"
    using g by (simp_all add: t2_def count_dupacks_def) (simp_all add: t1_def grow_cwnd_def Let_def)
  let ?t = "wake_send (t2\<lparr>sk_snd_wnd := send_window (sk_adv_wnd t2) (sk_cwnd t2)\<rparr>)"
  have "tcp_update_window_safe k cb s = Inr (put_sock k ?t s)"
    using t ack c1 cd(1) by (simp add: tcp_update_window_safe_def tcp_update_window_def with_sock_def Let_def calm_def flip: t1_def)
  moreover have "same_rest t t1" by (simp add: t1_def same_rest_def same_rx_def same_end_def)
  then have "same_rest t ?t" by (simp add: t2_def same_rest_def same_rx_def same_end_def wake_send_def count_dupacks_def grow_cwnd_def Let_def)
  ultimately show ?thesis using cd(2-) by (intro exI[of _ ?t]) (simp add: wake_send_def wake_up_def)
qed

lemma data_taken:
  assumes t: "socks s k = Some t" "nothing_sent t" "sk_rcv_ofo_buf t = []" "calm t" and cb: "next_data (sk_rcv_nxt t) cb"
    and room: "length (cb_payload cb) \<le> ring_buffer_free (sk_rcv_buf t)" and ack: "cb_ack cb = sk_snd_una t" "sk_snd_una t = sk_snd_nxt t"
    and r: "resolved s (sk_dip t) iface mac"
  shows "\<exists>rb p s' t'. tcp_process (Some k) cb s = Inr s' \<and> write_ring_buffer (sk_rcv_buf t) (cb_payload cb) = Inr rb \<and>
    tcp_segment (control_fields_of (taken rb cb t) TCP_ACK) p \<and> net_step [(iface, ip_frame iface mac p)] s s' \<and> sock_step k t' s s' \<and>
    same_rest (taken rb cb t) t' \<and> sk_snd_nxt t' = sk_snd_nxt t \<and> w_dead (sk_wait_send t') = w_dead (sk_wait_send t) \<and>
    (\<forall>n. wide_open t n \<longrightarrow> wide_open t' n)"
proof -
  have fl: "cb_flags cb = TCP_PSH OR TCP_ACK" using cb by (simp add: next_data_def data_segment_def)
  have eq: "tcp_process (Some k) cb s = bind_res (tcp_sock_recv k cb s) (run_all [tcp_update_window_safe k cb, tcp_ack_send_buf k cb])"
    using process_data_eq[OF t(1) _ fl] t(2) next_in_window(1)[OF cb] by (simp add: nothing_sent_def receive_ack_def)
  obtain rb where rb: "write_ring_buffer (sk_rcv_buf t) (cb_payload cb) = Inr rb"
    using write_ring_buffer_room[of "cb_payload cb"] room cb by (auto simp: next_data_def data_segment_def)
  let ?u = "taken rb cb t"
  have k1: "socks (put_sock k ?u s) k = Some ?u" by (simp add: put_sock_def)
  have n1: "net_step [] s (put_sock k ?u s)" by simp
  have u: "sk_dip ?u = sk_dip t" "calm ?u" "sk_state ?u = TCP_ESTABLISHED" "sk_send_buf ?u = []" "\<not> tm_enable (sk_retrans ?u)"
    "sk_snd_una ?u = sk_snd_una t" "sk_snd_nxt ?u = sk_snd_nxt t" "sk_wait_send ?u = sk_wait_send t" "sk_adv_wnd ?u = sk_adv_wnd t"
    using t(2,4) by (simp_all add: taken_def wake_recv_def calm_def nothing_sent_def)
  have "resolved (put_sock k ?u s) (sk_dip ?u) iface mac" using r net_step_resolved[OF n1] u(1) by simp
  from control_frame[OF k1 this, of TCP_ACK] obtain p s1 where 1: "tcp_segment (control_fields_of ?u TCP_ACK) p"
    "tcp_send_control_packet k TCP_ACK (put_sock k ?u s) = Inr s1" "sock_step k (control_sent TCP_ACK p ?u) (put_sock k ?u s) s1"
    "net_step [(iface, ip_frame iface mac p)] (put_sock k ?u s) s1" by blast
  have "control_sent TCP_ACK p ?u = ?u" by (simp add: control_sent_def has_flag_def tcp_flag_defs)
  with 1(3) have st1: "sock_step k ?u s s1" using sock_step_trans[OF put_step] by metis
  have recv: "tcp_sock_recv k cb s = Inr s1" using recv_next_eq[OF t(1,3) cb] room rb 1(2) by simp
  have le: "less_or_equal_32b (sk_snd_una ?u) (cb_ack cb)" "less_or_equal_32b (cb_ack cb) (sk_snd_nxt ?u)"
    using ack u(6,7) by (simp_all add: less_or_equal_32b_def)
  have adv: "ucast (ucast (sk_adv_wnd ?u) + (cb_ack cb - sk_snd_una ?u)) = sk_adv_wnd t"
    using ack u(6) by (simp add: u(9) ucast_up_ucast_id is_up)
  from window_calm[OF sock_step_socks[OF st1] u(3,2) le] obtain t' where
    2: "tcp_update_window_safe k cb s1 = Inr (put_sock k t' s1)" "same_rest ?u t'" "sk_recovery_point t' = 0" "0 < sk_cwnd t'"
      "sk_adv_wnd t' = sk_adv_wnd t" "sk_snd_wnd t' = send_window (sk_adv_wnd t') (sk_cwnd t')" "sk_snd_nxt t' = sk_snd_nxt t"
      "w_dead (sk_wait_send t') = w_dead (sk_wait_send t)" unfolding adv u(7,8) by blast
  let ?s2 = "put_sock k t' s1"
  have k2: "socks ?s2 k = Some t'" "sk_send_buf t' = []" "\<not> tm_enable (sk_retrans t')"
    using 2(2) u(4,5) by (simp_all add: put_sock_def same_rest_def same_end_def)
  have "t'\<lparr>sk_send_buf := []\<rparr> = t'" using k2(2) by simp
  then have p2: "put_sock k (t'\<lparr>sk_send_buf := []\<rparr>) ?s2 = ?s2" by (simp add: put_sock_def)
  have "tcp_ack_send_buf k cb ?s2 = Inr ?s2"
    using k2 2(3) p2 by (simp add: tcp_ack_send_buf_def with_sock_def[of k] unacked_def fast_recovery_def tcp_unset_retrans_timer_def)
  then have "tcp_process (Some k) cb s = Inr ?s2" using eq recv 2(1) by simp
  moreover have "sock_step k t' s ?s2" using sock_step_trans[OF st1 put_step] .
  moreover have "net_step [(iface, ip_frame iface mac p)] s ?s2"
    using net_step_trans[OF n1 1(4)] by (simp add: net_step_def put_sock_def)
  moreover have "wide_open t n \<longrightarrow> wide_open t' n" for n
    using send_window_pos[of "sk_adv_wnd t'" "sk_cwnd t'"] 2(4-6) by (auto simp: wide_open_def)
  ultimately show ?thesis using rb 1(1) 2(2,7,8) by blast
qed

text \<open>The sender: the segment goes out and waits for its acknowledgement.\<close>

definition waiting_ack :: "nat \<Rightarrow> bytes \<Rightarrow> tcp_sock \<Rightarrow> tcp_sock \<Rightarrow> bool" where
  "waiting_ack n p t t' \<longleftrightarrow> (\<exists>adv w tm. t' = t\<lparr>sk_adv_wnd := adv, sk_snd_wnd := w, sk_snd_nxt := sk_snd_nxt t + of_nat n,
     sk_send_buf := [\<lparr>sp_packet = p, sp_seq_end = sk_snd_nxt t + of_nat n\<rparr>], sk_retrans := tm, sk_ref_cnt := sk_ref_cnt t + 1\<rparr>
     \<and> tm_enable tm)"

lemma one_segment_write:
  fixes s :: "'b tcp_net_scheme"
  assumes t: "socks s k = Some t" "nothing_sent t" "0 < sk_snd_wnd t" and r: "resolved s (sk_dip t) iface mac"
    and buf: "buf \<noteq> []" "length buf \<le> TCP_MSS"
  shows "\<exists>p s' t'. tcp_sock_write k buf s = Inr ([], s') \<and> tcp_segment (data_fields_of t buf) p \<and> net_step [(iface, ip_frame iface mac p)] s s' \<and>
    waiting_ack (length buf) p t t' \<and> socks s' = (socks s)(k \<mapsto> t') \<and> established_table s' = established_table s \<and>
    (k, Retrans) \<in> set (timer_list s')"
proof -
  define adv where "adv = sk_adv_wnd t - of_nat (length buf)"
  define t1 where "t1 = t\<lparr>sk_adv_wnd := adv, sk_snd_wnd := send_window adv (sk_cwnd t)\<rparr>"
  have n1: "net_step [] s (put_sock k t1 s)" by simp
  have k1: "socks (put_sock k t1 s) k = Some t1" by (simp add: put_sock_def)
  have "resolved (put_sock k t1 s) (sk_dip t1) iface mac" using r net_step_resolved[OF n1] by (simp add: t1_def)
  from data_frame[OF k1 this buf(2)] obtain p s2 where 2: "tcp_segment (data_fields_of t1 buf) p"
    "tcp_send_packet k (zeros 54 @ buf) (put_sock k t1 s) = Inr s2" "sock_step k (data_sent buf p t1) (put_sock k t1 s) s2"
    "net_step [(iface, ip_frame iface mac p)] (put_sock k t1 s) s2" by blast
  have tm: "\<not> tm_enable (sk_retrans (data_sent buf p t1))" using t(2) by (simp add: data_sent_def t1_def nothing_sent_def)
  note k2 = sock_step_socks[OF 2(3)]
  define tr where "tr = \<lparr>tm_type = 1, tm_timeout = TCP_RETRANS_INTERVAL_INITIAL, tm_enable = True\<rparr>"
  define t3 where "t3 = (data_sent buf p t1)\<lparr>sk_retrans := tr, sk_ref_cnt := sk_ref_cnt (data_sent buf p t1) + 1\<rparr>"
  define s3 where "s3 = put_sock k t3 (s2\<lparr>timer_list := timer_list s2 @ [(k, Retrans)]\<rparr>)"
  have 3: "tcp_set_retrans_timer k 1 s2 = Inr s3" using set_retrans_first[OF k2 tm] by (simp add: t3_def s3_def tr_def)
  have z: "zeros (ETHER_HDR_SIZE + IP_BASE_HDR_SIZE + TCP_BASE_HDR_SIZE) @ buf = zeros 54 @ buf" by (simp add: ip_consts TCP_BASE_HDR_SIZE_def)
  then have "write_segment k buf s = Inr (True, s3)"
    using t(1) t(3)[THEN less_imp_neq, symmetric] 2(2) 3 by (simp add: write_segment_def with_sock_def t1_def adv_def Let_def del: One_nat_def)
  moreover obtain b bs where "buf = b # bs" using buf(1) by (cases buf) auto
  moreover have "min (length buf) TCP_MSS = length buf" using buf(2) by simp
  ultimately have "tcp_sock_write k buf s = Inr ([], s3)" by (simp add: Let_def)
  moreover have "t3 = t\<lparr>sk_adv_wnd := adv, sk_snd_wnd := send_window adv (sk_cwnd t), sk_snd_nxt := sk_snd_nxt t + of_nat (length buf),
     sk_send_buf := [\<lparr>sp_packet = p, sp_seq_end = sk_snd_nxt t + of_nat (length buf)\<rparr>], sk_retrans := tr, sk_ref_cnt := sk_ref_cnt t + 1\<rparr>"
    using t(2) by (simp add: t3_def data_sent_def t1_def nothing_sent_def)
  then have "waiting_ack (length buf) p t t3" unfolding waiting_ack_def tr_def by fastforce
  moreover have "socks s3 = (socks s)(k \<mapsto> t3)" "established_table s3 = established_table s" "(k, Retrans) \<in> set (timer_list s3)"
    using 2(3) by (auto simp: s3_def put_sock_def sock_step_def)
  moreover have "tcp_segment (data_fields_of t buf) p" using 2(1) by (simp add: data_fields_of_def t1_def)
  moreover have "net_step [(iface, ip_frame iface mac p)] s s3"
    using net_step_trans[OF n1 2(4)] by (simp add: net_step_def s3_def put_sock_def)
  ultimately show ?thesis by blast
qed

text \<open>The acknowledgement empties the send buffer and stops the timer.\<close>

lemma ack_taken:
  assumes w: "waiting_ack n p t t'" and t: "socks s k = Some t'" "sk_state t = TCP_ESTABLISHED" "calm t" "sk_snd_una t = sk_snd_nxt t" "1 \<le> sk_ref_cnt t"
      "(k, Retrans) \<in> set (timer_list s)" "n < 2147483648"
    and cb: "cb_flags cb = TCP_ACK" "cb_pl_len cb = 0" "cb_seq cb = sk_rcv_nxt t" "cb_seq_end cb = sk_rcv_nxt t" "cb_ack cb = sk_snd_nxt t + of_nat n"
  shows "\<exists>s' t2. tcp_process (Some k) cb s = Inr s' \<and> net_step [] s s' \<and> socks s' = (socks s)(k \<mapsto> t2) \<and>
    established_table s' = established_table s \<and> nothing_sent t2 \<and> same_rx t t2 \<and> sk_rcv_wnd t2 = sk_rcv_wnd t \<and>
    sk_sip t2 = sk_sip t \<and> sk_dip t2 = sk_dip t \<and> sk_sport t2 = sk_sport t \<and> sk_dport t2 = sk_dport t"
proof -
  have f: "(TCP_ACK :: u8) \<noteq> TCP_RST OR TCP_ACK" "(TCP_ACK :: u8) \<noteq> TCP_SYN OR TCP_ACK" "has_flag TCP_ACK TCP_ACK" "\<not> has_flag TCP_ACK TCP_FIN"
    by (simp_all add: has_flag_def tcp_flag_defs)
  have t': "sk_state t' = TCP_ESTABLISHED" "calm t'" "sk_snd_una t' = sk_snd_nxt t" "sk_snd_nxt t' = sk_snd_nxt t + of_nat n" "tm_enable (sk_retrans t')"
    "2 \<le> sk_ref_cnt t'" "sk_rcv_nxt t' = sk_rcv_nxt t" "\<exists>sp. sk_send_buf t' = [sp] \<and> sp_seq_end sp = sk_snd_nxt t + of_nat n"
    using w t by (auto simp: waiting_ack_def calm_def)
  have valid: "seq_in_window t' cb" "less_or_equal_32b (cb_seq_end cb) (sk_rcv_nxt t')"
    using next_seq_in_window[of cb t' 0] cb t'(7) by simp_all
  have recv: "tcp_sock_recv k cb s = Inr s" using t(1) valid(2) cb(1,2) f(4) by (simp add: tcp_sock_recv_def with_sock_def)
  have le: "less_or_equal_32b (sk_snd_una t') (cb_ack cb)" "less_or_equal_32b (cb_ack cb) (sk_snd_nxt t')"
    using t(7) by (simp_all add: less_or_equal_32b_def cb(5) t'(3,4) sint_small_diff)
  from window_calm[OF t(1) t'(1,2) le] obtain u where 1: "tcp_update_window_safe k cb s = Inr (put_sock k u s)" "same_rest t' u"
    "sk_recovery_point u = 0" "sk_ref_cnt u = sk_ref_cnt t'" by blast
  have u: "socks (put_sock k u s) k = Some u" "tm_enable (sk_retrans u)" "2 \<le> sk_ref_cnt u" "(k, Retrans) \<in> set (timer_list (put_sock k u s))"
    using 1(2,4) t'(5,6) t(6) by (simp_all add: put_sock_def same_rest_def same_end_def)
  obtain sp where sp: "sk_send_buf u = [sp]" "sp_seq_end sp = cb_ack cb" using t'(8) 1(2) cb(5) by (auto simp: same_rest_def same_end_def)
  let ?s = "put_sock k (all_acked u) ((put_sock k u s)\<lparr>timer_list := removeAll (k, Retrans) (timer_list (put_sock k u s))\<rparr>)"
  have "tcp_ack_send_buf k cb (put_sock k u s) = Inr ?s" by (rule ack_completes[OF u(1) sp 1(3) u(2-4)])
  then have "run_all (receive_ack k cb) s = Inr ?s" using recv 1(1) by (simp add: receive_ack_def)
  then have "tcp_process (Some k) cb s = Inr ?s"
    using t(1) t'(1) cb(1) f valid(1) by (simp add: tcp_process_def with_sock_def when_seq_valid_def is_tcp_seq_valid_def del: run_all.simps)
  moreover have "socks ?s = (socks s)(k \<mapsto> all_acked u)" by (simp add: put_sock_def)
  moreover have "nothing_sent (all_acked u)" "same_rx t (all_acked u)" "sk_rcv_wnd (all_acked u) = sk_rcv_wnd t"
    "sk_sip (all_acked u) = sk_sip t" "sk_dip (all_acked u) = sk_dip t" "sk_sport (all_acked u) = sk_sport t" "sk_dport (all_acked u) = sk_dport t"
    using 1(2) w t(2) by (auto simp: nothing_sent_def all_acked_def same_rest_def same_rx_def same_end_def waiting_ack_def)
  ultimately show ?thesis by (intro exI[of _ ?s] exI[of _ "all_acked u"]) (simp add: net_step_def put_sock_def)
qed

text \<open>
  A socket that only receives counts every data segment as a duplicate acknowledgement: at the fourth with nothing of its own
  outstanding it enters fast retransmission and halves its threshold, though nothing was lost.
\<close>

lemma data_counted_as_dupack:
  assumes t: "socks s k = Some t" "nothing_sent t" "sk_recovery_point t = 0" "sk_frpacks t = - 1"
    and d: "sk_dupacks t = 3" "sk_duack t = sk_snd_una t" and cb: "data_segment cb" "cb_ack cb = sk_snd_una t" "sk_snd_una t = sk_snd_nxt t"
  shows "\<exists>t'. tcp_update_window_safe k cb s = Inr (put_sock k t' s) \<and> sk_ssthresh t' = sk_cwnd t' div 2 \<and> sk_frpacks t' = sint (sk_cwnd t')"
proof -
  define t1 where "t1 = t\<lparr>sk_adv_wnd := ucast (ucast (sk_adv_wnd t) + (cb_ack cb - sk_snd_una t)), sk_snd_una := cb_ack cb\<rparr>"
  define g where "g = grow_cwnd t1"
  have g: "sk_dupacks g = 3" "sk_duack g = cb_ack cb" using d cb(2) by (simp_all add: g_def t1_def grow_cwnd_def Let_def)
  define t2 where "t2 = g\<lparr>sk_ssthresh := sk_cwnd g div 2, sk_duack := 0, sk_dupacks := 0, sk_frpacks := sint (sk_cwnd g)\<rparr>"
  have "count_dupacks (cb_ack cb) (grow_cwnd t1) = (t2, True)" using g by (simp add: count_dupacks_def t2_def flip: g_def)
  moreover have "sk_recovery_point t1 = 0" "sk_frpacks t1 = - 1" using t(3,4) by (simp_all add: t1_def)
  moreover have "resend_first k s = Inr s" using t(1,2) by (simp add: resend_first_def with_sock_def nothing_sent_def)
  moreover have "less_or_equal_32b (sk_snd_una t) (cb_ack cb)" "less_or_equal_32b (cb_ack cb) (sk_snd_nxt t)"
    using cb(2,3) by (simp_all add: less_or_equal_32b_def)
  ultimately have "tcp_update_window_safe k cb s = Inr (put_sock k (wake_send (t2\<lparr>sk_snd_wnd := send_window (sk_adv_wnd t2) (sk_cwnd t2)\<rparr>)) s)"
    using t(1,2) by (simp add: tcp_update_window_safe_def tcp_update_window_def with_sock_def Let_def nothing_sent_def flip: t1_def)
  moreover have "sk_ssthresh t2 = sk_cwnd t2 div 2" "sk_frpacks t2 = sint (sk_cwnd t2)" by (simp_all add: t2_def)
  ultimately show ?thesis
    by (intro exI[of _ "wake_send (t2\<lparr>sk_snd_wnd := send_window (sk_adv_wnd t2) (sk_cwnd t2)\<rparr>)"]) (simp add: wake_send_def)
qed

section \<open>An exchange between two hosts\<close>

text \<open>
  An end of a connection at rest: established, the socket found by its addresses, its buffers empty, everything
  acknowledged; and two ends that fit together.
\<close>

definition at_rest :: "ip_iface \<Rightarrow> bytes \<Rightarrow> nat \<Rightarrow> tcp_sock \<Rightarrow> 'b tcp_net_scheme \<Rightarrow> bool" where
  "at_rest iface mac k t s \<longleftrightarrow> socks s k = Some t \<and> if_ip iface = sk_sip t \<and> resolved s (sk_dip t) iface mac
     \<and> tcp_sock_lookup_established (sk_sip t) (sk_dip t) (sk_sport t) (sk_dport t) s = Inr (Some k)
     \<and> nothing_sent t \<and> sk_snd_una t = sk_snd_nxt t \<and> calm t \<and> 1 \<le> sk_ref_cnt t \<and> \<not> w_dead (sk_wait_send t)
     \<and> window_told t \<and> sk_rcv_ofo_buf t = [] \<and> rb_inv (sk_rcv_buf t) \<and> contents (sk_rcv_buf t) = []
     \<and> capacity (sk_rcv_buf t) < 65536 \<and> \<not> w_dead (sk_wait_recv t)"

definition two_ends :: "tcp_sock \<Rightarrow> tcp_sock \<Rightarrow> bool" where
  "two_ends t u \<longleftrightarrow> sk_sip u = sk_dip t \<and> sk_dip u = sk_sip t \<and> sk_sport u = sk_dport t \<and> sk_dport u = sk_sport t
     \<and> sk_rcv_nxt u = sk_snd_nxt t \<and> sk_rcv_nxt t = sk_snd_nxt u"

lemma lookup_upd:
  assumes "socks s k = Some t" "socks s' = (socks s)(k \<mapsto> t')" "established_table s' = established_table s"
    "sk_sip t' = sk_sip t" "sk_dip t' = sk_dip t" "sk_sport t' = sk_sport t" "sk_dport t' = sk_dport t"
  shows "tcp_sock_lookup_established w x y z s' = tcp_sock_lookup_established w x y z s"
proof -
  have "find_sock P ks s' = find_sock P ks s" if "P t' = P t" for P ks
    using that assms(1,2) by (induction ks) (auto simp: with_sock_def split: option.split)
  then show ?thesis using assms(3-) by (simp add: tcp_sock_lookup_established_def)
qed

text \<open>A segment and its acknowledgement: the buffer of the peer has the bytes, and the sender may receive again.\<close>

lemma segment_exchange:
  fixes a b :: "'b tcp_net_scheme"
  assumes a: "at_rest ia ma ka ta a" "0 < sk_snd_wnd ta" and b: "at_rest ib mb kb tb b" and e: "two_ends ta tb"
    and buf: "buf \<noteq> []" "length buf \<le> TCP_MSS" "length buf \<le> capacity (sk_rcv_buf tb)"
  shows "\<exists>a1 b1 a2 f g tb1 ta2. tcp_sock_write ka buf a = Inr ([], a1) \<and> net_step [(ia, f)] a a1 \<and>
    host_handle_packet ib f b = Inr b1 \<and> net_step [(ib, g)] b b1 \<and> socks b1 kb = Some tb1 \<and>
    contents (sk_rcv_buf tb1) = buf \<and> rb_inv (sk_rcv_buf tb1) \<and> sk_state tb1 = TCP_ESTABLISHED \<and>
    sk_dip tb1 = sk_dip tb \<and> sk_sip tb1 = sk_sip tb \<and> sk_sport tb1 = sk_sport tb \<and> sk_dport tb1 = sk_dport tb \<and> sk_snd_nxt tb1 = sk_snd_nxt tb \<and>
    \<not> w_dead (sk_wait_send tb1) \<and> (\<forall>n. wide_open tb n \<longrightarrow> wide_open tb1 n) \<and>
    host_handle_packet ia g a1 = Inr a2 \<and> socks a2 ka = Some ta2 \<and> nothing_sent ta2 \<and> same_rx ta ta2 \<and> sk_rcv_wnd ta2 = sk_rcv_wnd ta \<and>
    net_step [] a1 a2 \<and> tcp_sock_lookup_established (sk_sip ta) (sk_dip ta) (sk_sport ta) (sk_dport ta) a2 = Inr (Some ka)"
proof -
  define cb where "cb = cb_of_fields (data_fields_of ta buf)"
  have ta: "socks a ka = Some ta" "nothing_sent ta" "resolved a (sk_dip ta) ia ma" "if_ip ia = sk_sip ta" "calm ta"
    "tcp_sock_lookup_established (sk_sip ta) (sk_dip ta) (sk_sport ta) (sk_dport ta) a = Inr (Some ka)"
    "sk_snd_una ta = sk_snd_nxt ta" "1 \<le> sk_ref_cnt ta" "sk_state ta = TCP_ESTABLISHED" using a(1) by (simp_all add: at_rest_def nothing_sent_def)
  have tb: "socks b kb = Some tb" "nothing_sent tb" "sk_rcv_ofo_buf tb = []" "calm tb" "resolved b (sk_dip tb) ib mb" "rb_inv (sk_rcv_buf tb)"
    "contents (sk_rcv_buf tb) = []" "sk_snd_una tb = sk_snd_nxt tb" "if_ip ib = sk_sip tb"
    "tcp_sock_lookup_established (sk_sip tb) (sk_dip tb) (sk_sport tb) (sk_dport tb) b = Inr (Some kb)"
    "\<not> w_dead (sk_wait_send tb)" using b by (simp_all add: at_rest_def)
  have macs: "length ma = 6" "length (if_mac ia) = 6" "length mb = 6" "length (if_mac ib) = 6" using ta(3) tb(5) by (simp_all add: resolved_def)
  have ends: "sk_sip tb = sk_dip ta" "sk_dip tb = sk_sip ta" "sk_sport tb = sk_dport ta" "sk_dport tb = sk_sport ta"
    "sk_rcv_nxt tb = sk_snd_nxt ta" "sk_rcv_nxt ta = sk_snd_nxt tb" using e by (simp_all add: two_ends_def)
  have len: "length buf \<le> 65495" "length buf < 2147483648" using buf(2) by (simp_all add: TCP_MSS_eq)
  from one_segment_write[OF ta(1,2) a(2) ta(3) buf(1,2)] obtain p a1 ta1 where
    1: "tcp_sock_write ka buf a = Inr ([], a1)" "tcp_segment (data_fields_of ta buf) p" "net_step [(ia, ip_frame ia ma p)] a a1"
      "waiting_ack (length buf) p ta ta1" "socks a1 = (socks a)(ka \<mapsto> ta1)" "established_table a1 = established_table a"
      "(ka, Retrans) \<in> set (timer_list a1)" by blast
  have nx: "next_data (sk_rcv_nxt tb) cb"
    using buf(1) len(1) ends(5) by (simp add: next_data_def data_segment_def cb_def cb_of_fields_def data_fields_of_def has_flag_def tcp_flag_defs)
  have cb: "cb_payload cb = buf" "cb_ack cb = sk_snd_una tb" "cb_saddr cb = sk_dip tb" "cb_daddr cb = sk_sip tb" "cb_sport cb = sk_dport tb"
    "cb_dport cb = sk_sport tb" "cb_seq_end cb = sk_snd_nxt ta + of_nat (length buf)"
    using ends tb(8) by (simp_all add: cb_def cb_of_fields_def data_fields_of_def has_flag_def tcp_flag_defs)
  have "length (tf_data (data_fields_of ta buf)) \<le> 65495" "if_ip ib = tf_daddr (data_fields_of ta buf)"
    using len(1) tb(9) ends(1) by (simp_all add: data_fields_of_def)
  note rf = receive_frame[OF 1(2) macs(1,2) this, of b]
  have f: "host_handle_packet ib (ip_frame ia ma p) b = tcp_process (Some kb) cb b"
    using rf tb(10) by (simp add: tcp_sock_lookup_def cb flip: cb_def)
  have "length (cb_payload cb) \<le> ring_buffer_free (sk_rcv_buf tb)"
    using buf(3) tb(7) free_used[OF tb(6)] length_contents[of "sk_rcv_buf tb"] by (simp add: cb(1) tb(6))
  from data_taken[OF tb(1-4) nx this cb(2) tb(8,5)] obtain rb q b1 tb1 where
    2: "tcp_process (Some kb) cb b = Inr b1" "write_ring_buffer (sk_rcv_buf tb) (cb_payload cb) = Inr rb"
      "tcp_segment (control_fields_of (taken rb cb tb) TCP_ACK) q" "net_step [(ib, ip_frame ib mb q)] b b1" "sock_step kb tb1 b b1"
      "same_rest (taken rb cb tb) tb1" "sk_snd_nxt tb1 = sk_snd_nxt tb" "w_dead (sk_wait_send tb1) = w_dead (sk_wait_send tb)"
      "\<forall>n. wide_open tb n \<longrightarrow> wide_open tb1 n" by blast
  have tb1: "contents (sk_rcv_buf tb1) = buf" "rb_inv (sk_rcv_buf tb1)" "sk_state tb1 = TCP_ESTABLISHED" "sk_dip tb1 = sk_dip tb" "sk_sip tb1 = sk_sip tb"
    "sk_sport tb1 = sk_sport tb" "sk_dport tb1 = sk_dport tb"
    using rb.put_spec[OF tb(6) 2(2)] 2(6) tb(2,7) by (simp_all add: cb(1) same_rest_def same_rx_def same_end_def taken_def wake_recv_def nothing_sent_def)
  define cc where "cc = cb_of_fields (control_fields_of (taken rb cb tb) TCP_ACK)"
  have cc: "cb_flags cc = TCP_ACK" "cb_pl_len cc = 0" "cb_seq cc = sk_rcv_nxt ta" "cb_seq_end cc = sk_rcv_nxt ta" "cb_ack cc = sk_snd_nxt ta + of_nat (length buf)"
    "cb_saddr cc = sk_dip ta" "cb_daddr cc = sk_sip ta" "cb_sport cc = sk_dport ta" "cb_dport cc = sk_sport ta"
    using ends by (simp_all add: cc_def cb_of_fields_def control_fields_of_def has_flag_def tcp_flag_defs taken_def wake_recv_def cb(7))
  have "length (tf_data (control_fields_of (taken rb cb tb) TCP_ACK)) \<le> 65495" "if_ip ia = tf_daddr (control_fields_of (taken rb cb tb) TCP_ACK)"
    using ta(4) ends(2) by (simp_all add: control_fields_of_def taken_def wake_recv_def)
  note rg = receive_frame[OF 2(3) macs(3,4) this, of a1]
  have w: "sk_sip ta1 = sk_sip ta" "sk_dip ta1 = sk_dip ta" "sk_sport ta1 = sk_sport ta" "sk_dport ta1 = sk_dport ta" using 1(4) by (auto simp: waiting_ack_def)
  have "tcp_sock_lookup_established (sk_sip ta) (sk_dip ta) (sk_sport ta) (sk_dport ta) a1 = Inr (Some ka)"
    using lookup_upd[OF ta(1) 1(5,6) w] ta(6) by simp
  then have g: "host_handle_packet ia (ip_frame ib mb q) a1 = tcp_process (Some ka) cc a1"
    using rg by (simp add: tcp_sock_lookup_def cc flip: cc_def)
  have ta1: "socks a1 ka = Some ta1" using 1(5) by simp
  from ack_taken[OF 1(4) ta1 ta(9,5,7,8) 1(7) len(2) cc(1-5)] obtain a2 ta2 where
    3: "tcp_process (Some ka) cc a1 = Inr a2" "net_step [] a1 a2" "socks a2 = (socks a1)(ka \<mapsto> ta2)" "established_table a2 = established_table a1"
      "nothing_sent ta2" "same_rx ta ta2" "sk_rcv_wnd ta2 = sk_rcv_wnd ta" "sk_sip ta2 = sk_sip ta" "sk_dip ta2 = sk_dip ta"
      "sk_sport ta2 = sk_sport ta" "sk_dport ta2 = sk_dport ta" by blast
  have "tcp_sock_lookup_established (sk_sip ta) (sk_dip ta) (sk_sport ta) (sk_dport ta) a2 = Inr (Some ka)"
    using lookup_upd[OF ta(1), of a2 ta2] 1(5,6) 3(3,4,8-11) ta(6) by simp
  moreover have "socks a2 ka = Some ta2" "socks b1 kb = Some tb1" using 3(3) sock_step_socks[OF 2(5)] by simp_all
  ultimately show ?thesis using 1(1,3) f 2(1,4,7-9) tb1 tb(11) g 3(1,2,5-7)
    by (intro exI[of _ a1] exI[of _ b1] exI[of _ a2] exI[of _ "ip_frame ia ma p"] exI[of _ "ip_frame ib mb q"] exI[of _ tb1] exI[of _ ta2]) simp
qed


text \<open>The frames of a stream, all of them, leave it in the buffer of the idle peer.\<close>

lemma frames_only:
  "fold_res (wire_step ib k) (map Comes fs) (s, out) = bind_res (fold_res (host_handle_packet ib) fs s) (\<lambda>s. Inr (s, out))"
  by (induction fs arbitrary: s) (simp_all add: bind_res_assoc)

lemma stream_in_buffer:
  fixes b :: "'b tcp_net_scheme"
  assumes w: "wrote ia mac ka ta buf a segs ps [] a'" and macs: "length mac = 6" "length (if_mac ia) = 6"
    and reader: "socks b kb = Some tb" "nothing_sent tb" "window_told tb" "sk_rcv_ofo_buf tb = []" "rb_inv (sk_rcv_buf tb)"
      "contents (sk_rcv_buf tb) = []" "\<not> w_dead (sk_wait_recv tb)"
    and peers: "if_ip ib = sk_dip ta" "sk_rcv_nxt tb = sk_snd_nxt ta"
      "tcp_sock_lookup_established (sk_dip ta) (sk_sip ta) (sk_dport ta) (sk_sport ta) b = Inr (Some kb)"
    and size: "length buf \<le> capacity (sk_rcv_buf tb)" "capacity (sk_rcv_buf tb) < 65536" "unat (sk_snd_nxt ta) + length buf < 4294967296"
    and fs: "set fs = set (map (ip_frame ia mac) ps)"
  shows "\<exists>b' tb'. fold_res (host_handle_packet ib) fs b = Inr b' \<and> socks b' kb = Some tb' \<and> contents (sk_rcv_buf tb') = buf \<and>
    rb_inv (sk_rcv_buf tb') \<and> sk_state tb' = TCP_ESTABLISHED"
proof -
  have "{f. Comes f \<in> set (map Comes fs)} = set fs" by auto
  with wrote_arrives[OF w macs reader peers size, of "map Comes fs"] fs obtain b' out tb' J where
    1: "fold_res (wire_step ib kb) (map Comes fs) (b, []) = Inr (b', out)" "socks b' kb = Some tb'"
      "receiving True segs (sk_snd_nxt ta) out J tb'" "{..<length segs} \<subseteq> J" by auto
  from 1(1) have "fold_res (host_handle_packet ib) fs b = Inr b'" "out = []" by (auto simp: frames_only bind_res_Inr_conv)
  with receiving_all[OF 1(3,4)] 1(2) w show ?thesis by (auto simp: nothing_sent_def wrote_def)
qed

end
