(* ===== verification/Http_Server.thy ===== *)
theory Http_Server
  imports Http
begin

text \<open>
  What the servers answer.  The lemmas follow the parser over a request line by line, for requests that are built the way
  clients build them, and relate the digits of the length and the bounds of a range to decimal notation.
\<close>

section \<open>Decimal numbers\<close>

text \<open>The usual notation of a number, as the specification.\<close>

fun decimal :: "nat \<Rightarrow> bytes" where
  "decimal n = (if n < 10 then [of_nat (48 + n)] else decimal (n div 10) @ [of_nat (48 + n mod 10)])"

declare decimal.simps [simp del]

lemma digits_rev_decimal: "0 < n \<Longrightarrow> digits_rev (int n) = rev (decimal n)"
proof (induction n rule: decimal.induct)
  case (1 n)
  have q: "int n sdiv 10 = int (n div 10)" "int n smod 10 = int (n mod 10)"
    by (simp_all add: signed_divide_int_def signed_modulo_int_def zdiv_int zmod_int sgn_if)
  have d: "digits_rev (int n) = of_nat (n mod 10 + 48) # digits_rev (int (n div 10))"
    using 1(2) by (subst digits_rev.simps) (simp add: q)
  show ?case
  proof (cases "n < 10")
    case True
    then show ?thesis unfolding d by (subst decimal.simps) (simp add: digits_rev.simps add.commute)
  next
    case False
    then have "0 < n div 10" by (simp add: div_greater_zero_iff)
    with 1(1)[OF False this] False show ?thesis unfolding d by (subst decimal.simps) (simp add: add.commute)
  qed
qed

lemma length_reverse_swaps [simp]: "length (reverse_swaps i js b) = length b"
  by (induction i js b rule: reverse_swaps.induct) simp_all

lemma reverse_swaps_nth:
  "length b = Suc i \<Longrightarrow> js = [k..<m] \<Longrightarrow> m \<le> Suc (i div 2) \<Longrightarrow> p < Suc i \<Longrightarrow>
   reverse_swaps i js b ! p = (if k \<le> p \<and> p < m \<or> k \<le> i - p \<and> i - p < m then b ! (i - p) else b ! p)"
proof (induction i js b arbitrary: k rule: reverse_swaps.induct)
  case (2 i j js b)
  let ?b = "b[j := b ! (i - j), i - j := b ! j]"
  have j: "j = k" "k < m" "js = [Suc k..<m]" using 2(3)[symmetric] by (auto simp: upt_eq_Cons_conv)
  have "reverse_swaps i js ?b ! p = (if Suc k \<le> p \<and> p < m \<or> Suc k \<le> i - p \<and> i - p < m then ?b ! (i - p) else ?b ! p)"
    by (rule 2(1)[of "Suc k"]) (use 2 j in simp_all)
  moreover have "reverse_swaps i (j # js) b = reverse_swaps i js ?b" by simp
  moreover have "(if Suc k \<le> p \<and> p < m \<or> Suc k \<le> i - p \<and> i - p < m then ?b ! (i - p) else ?b ! p) =
      (if k \<le> p \<and> p < m \<or> k \<le> i - p \<and> i - p < m then b ! (i - p) else b ! p)"
  proof -
    have "k \<le> i div 2" using j(2) 2(4) by simp
    then have k: "k \<le> i - k" "k \<le> i" by linarith+
    show ?thesis
    proof (cases "i - k = k")
      case True
      then have i: "i = 2 * k" using k by linarith
      show ?thesis
      proof (cases "p = k")
        case True
        with j(1,2) 2(2,4,5) i show ?thesis by simp
      next
        case False
        then have "p \<le> k \<longleftrightarrow> Suc p \<le> k" "k \<le> p \<longleftrightarrow> Suc k \<le> p" "k \<le> i - p \<longleftrightarrow> Suc k \<le> i - p" using i 2(5) by linarith+
        with j(1,2) 2(2,4,5) i show ?thesis by (simp add: nth_list_update) linarith
      qed
    next
      case False
      with k have "Suc k \<le> i - k" by simp
      with j(1,2) 2(2,4,5) k show ?thesis by (auto simp: nth_list_update)
    qed
  qed
  ultimately show ?case by simp
next
  case (1 i b)
  from 1(2)[symmetric] have "m \<le> k" by (auto simp: upt_eq_Nil_conv)
  then show ?case by auto
qed

lemma reverse_swaps_rev: "length b = Suc i \<Longrightarrow> reverse_swaps i [0..<Suc (i div 2)] b = rev b"
proof (rule nth_equalityI)
  assume b: "length b = Suc i"
  then show "length (reverse_swaps i [0..<Suc (i div 2)] b) = length (rev b)" by simp
  fix p assume "p < length (reverse_swaps i [0..<Suc (i div 2)] b)"
  with b have p: "p < Suc i" by simp
  have "p < Suc (i div 2) \<or> i - p < Suc (i div 2)" using p by linarith
  then show "reverse_swaps i [0..<Suc (i div 2)] b ! p = rev b ! p"
    using reverse_swaps_nth[OF b refl le_refl p, of 0] b p by (auto simp: rev_nth simp del: upt_Suc)
qed

lemma size_text_decimal: "0 < n \<Longrightarrow> size_text (int n) = Inr (decimal n)"
proof -
  assume n: "0 < n"
  have "decimal n \<noteq> []" by (subst decimal.simps) simp
  then obtain i where i: "length (rev (decimal n)) = Suc i" by (cases "decimal n") auto
  then show ?thesis using reverse_swaps_rev[OF i] by (auto simp: size_text_def Let_def digits_rev_decimal[OF n])
qed

lemma digit_byte: "d < 10 \<Longrightarrow> is_digit (of_nat (48 + d)) \<and> ucast (of_nat (48 + d) :: u8) = (of_nat (48 + d) :: u32)"
proof -
  assume "d < 10"
  then have "d \<in> {0, 1, 2, 3, 4, 5, 6, 7, 8, 9}" by auto
  then show ?thesis by (auto simp: is_digit_def)
qed

lemma decimal_digits: "c \<in> set (decimal n) \<Longrightarrow> is_digit c"
proof (induction n rule: decimal.induct)
  case (1 n)
  then show ?case using digit_byte[of n] digit_byte[of "n mod 10"] by (subst (asm) (2) decimal.simps) (auto split: if_splits)
qed

text \<open>Reading a number back.\<close>

lemma read_digits_decimal:
  "\<not> is_digit c \<Longrightarrow> read_digits 0 (pre @ decimal n @ c # rest) (length pre) = Inr (of_nat n, length pre + length (decimal n))"
proof -
  assume c: "\<not> is_digit c"
  have more: "read_digits 0 (pre @ decimal n @ tl) (length pre) = read_digits (of_nat n) (pre @ decimal n @ tl) (length pre + length (decimal n))" for tl
  proof (induction n arbitrary: tl rule: decimal.induct)
    case (1 n)
    show ?case
    proof (cases "n < 10")
      case True
      then have e: "decimal n = [of_nat (48 + n)]" by (subst decimal.simps) simp
      show ?thesis unfolding e using digit_byte[OF True] by (subst read_digits.simps) (simp add: nth_append)
    next
      case False
      define d where "d = n mod 10"
      have e: "decimal n = decimal (n div 10) @ [of_nat (48 + d)]" using False by (subst decimal.simps) (simp add: d_def)
      have d: "d < 10" by (simp add: d_def)
      have n: "of_nat (n div 10) * 10 + of_nat d = (of_nat n :: u32)"
        unfolding d_def by (metis mult.commute mult_div_mod_eq of_nat_add of_nat_mult of_nat_numeral)
      have "read_digits 0 (pre @ decimal n @ tl) (length pre) =
          read_digits (of_nat (n div 10)) (pre @ decimal n @ tl) (length pre + length (decimal (n div 10)))"
        using 1[OF False, of "of_nat (48 + d) # tl"] by (simp add: e)
      also have "\<dots> = read_digits (of_nat n) (pre @ decimal n @ tl) (length pre + length (decimal n))"
        using digit_byte[OF d] n by (subst read_digits.simps) (simp add: e nth_append add.assoc)
      finally show ?thesis .
    qed
  qed
  show ?thesis using c unfolding more[of "c # rest"] by (subst read_digits.simps) (simp add: nth_append)
qed

section \<open>Scanning\<close>

lemma copy_until_text:
  "stop \<notin> set w \<Longrightarrow> length acc + length w \<le> cap \<Longrightarrow>
   copy_until stop cap acc (pre @ w @ stop # rest) (length pre) = Inr (acc @ w, length pre + length w)"
proof (induction w arbitrary: acc pre)
  case Nil
  then show ?case by (subst copy_until.simps) simp
next
  case (Cons c w)
  have "copy_until stop cap (acc @ [c]) ((pre @ [c]) @ w @ stop # rest) (length (pre @ [c])) = Inr ((acc @ [c]) @ w, length (pre @ [c]) + length w)"
    by (rule Cons.IH) (use Cons.prems in auto)
  with Cons.prems show ?case by (subst copy_until.simps) auto
qed

lemma skip_to_cr_text: "CR \<notin> set w \<Longrightarrow> skip_to_cr (pre @ w @ CR # rest) (length pre) = Inr (length pre + length w)"
proof (induction w arbitrary: pre)
  case Nil
  then show ?case by (subst skip_to_cr.simps) simp
next
  case (Cons c w)
  have "skip_to_cr ((pre @ [c]) @ w @ CR # rest) (length (pre @ [c])) = Inr (length (pre @ [c]) + length w)"
    by (rule Cons.IH) (use Cons.prems in auto)
  with Cons.prems show ?case by (subst skip_to_cr.simps) auto
qed

lemma c_string_text: "0 \<notin> set w \<Longrightarrow> length w < cap \<Longrightarrow> c_string cap w = Inr w"
  by (auto simp: c_string_def takeWhile_eq_all_conv)

lemma slice_pre: "slice (pre @ w) (length pre) n = take n w" "slice (pre @ a # b # w) (Suc (Suc (length pre))) n = take n w"
  by (simp_all add: slice_def)

lemma take_before_cr: "CR \<notin> set w \<Longrightarrow> take n (l @ CR # r) = w \<Longrightarrow> length w = n \<Longrightarrow> take n l = w"
proof -
  assume w: "CR \<notin> set w" "take n (l @ CR # r) = w" "length w = n"
  have "n \<le> length l"
  proof (rule ccontr)
    assume "\<not> n \<le> length l"
    then have "CR \<in> set (take n (l @ CR # r))" by (cases "n - length l") auto
    with w show False by simp
  qed
  with w show ?thesis by simp
qed

section \<open>Header lines\<close>

text \<open>A line that is not about ranges or the connection.\<close>

definition plain_line :: "bytes \<Rightarrow> bool" where
  "plain_line l \<longleftrightarrow> l \<noteq> [] \<and> CR \<notin> set l \<and> take 6 l \<noteq> text_of ''Range:'' \<and> take 11 l \<noteq> text_of ''Connection:''"

text \<open>The state of the loop between two lines: behind \<open>pre\<close> a line ends, and \<open>x\<close> is where its line feed is or was.\<close>

abbreviation headers :: "bytes \<Rightarrow> u8 \<Rightarrow> bytes \<Rightarrow> http_head \<Rightarrow> http_head res" where
  "headers pre x rest h \<equiv> header_loop (pre @ CR # x # rest) (length pre) h"

lemma headers_end: "headers pre x (CR # rest) h = Inr h"
  by (subst header_loop.simps) (simp add: nth_append)

lemma no_cr: "CR \<notin> set (text_of ''Range:'')" "CR \<notin> set (text_of ''Connection:'')"
  "length (text_of ''Range:'') = 6" "length (text_of ''Connection:'') = 11"
  by (simp_all add: text_of_def CR_def)

lemma headers_plain:
  assumes "plain_line l" "24 \<le> length rest"
  shows "headers pre x (l @ CR # y # rest) h = headers (pre @ CR # x # l) y rest h"
proof -
  let ?buf = "pre @ CR # x # l @ CR # y # rest"
  obtain c l' where l: "l = c # l'" using assms(1) by (cases l) (auto simp: plain_line_def)
  have c: "c \<noteq> CR" using assms(1) l by (auto simp: plain_line_def)
  have n: "take 6 (l @ CR # y # rest) \<noteq> text_of ''Range:''" "take 11 (l @ CR # y # rest) \<noteq> text_of ''Connection:''"
    using take_before_cr[OF no_cr(1), of 6 l "y # rest"] take_before_cr[OF no_cr(2), of 11 l "y # rest"] assms(1) no_cr
    by (auto simp: plain_line_def)
  have sl: "slice ?buf (length pre + 2) k = take k (l @ CR # y # rest)" for k
    by (simp add: slice_def)
  have at: "?buf ! (length pre + 2) = c" by (simp add: l nth_append)
  have sk: "skip_to_cr ?buf (length pre + 2) = Inr (length pre + 2 + length l)"
    using skip_to_cr_text[of l "pre @ [CR, x]" "y # rest"] assms(1) by (simp add: plain_line_def)
  show ?thesis
    using n c assms(2) at sl sk by (subst header_loop.simps) (simp add: Let_def l)
qed

text \<open>The line \<open>Range: bytes=a-\<close> or \<open>Range: bytes=a-b\<close>.\<close>

definition range_line :: "nat \<Rightarrow> nat option \<Rightarrow> bytes" where
  "range_line a b = text_of ''Range: bytes='' @ decimal a @ text_of ''-'' @ (case b of None \<Rightarrow> [] | Some b \<Rightarrow> decimal b)"

definition range_end_of :: "nat option \<Rightarrow> int" where
  "range_end_of b = (case b of None \<Rightarrow> -1 | Some b \<Rightarrow> int b)"

lemma sint_small: "n < 2147483648 \<Longrightarrow> sint (of_nat n :: u32) = int n"
  by (simp add: signed_of_nat signed_take_bit_int_eq_self)

lemma hd_decimal: "\<exists>c r. decimal n = c # r \<and> is_digit c"
proof -
  have "decimal n \<noteq> []" by (subst decimal.simps) simp
  then show ?thesis using decimal_digits[of _ n] by (cases "decimal n") auto
qed

lemma not_digits: "\<not> is_digit 45" "\<not> is_digit CR"
  by (simp_all add: is_digit_def CR_def)

lemma read_range_line:
  assumes "a < 2147483648" "\<forall>n. b = Some n \<longrightarrow> n < 2147483648"
  shows "read_range (pre @ decimal a @ text_of ''-'' @ (case b of None \<Rightarrow> [] | Some b \<Rightarrow> decimal b) @ CR # rest) (length pre) =
    Inr ((int a, range_end_of b), length pre + length (decimal a) + 1 + (case b of None \<Rightarrow> 0 | Some b \<Rightarrow> length (decimal b)))"
proof -
  have d: "text_of ''-'' = [45]" by (simp add: text_of_def)
  note r1 = read_digits_decimal[OF not_digits(1), of pre a]
  show ?thesis
  proof (cases b)
    case None
    then show ?thesis using r1[of "CR # rest"] not_digits assms(1)
      by (simp add: read_range_def d peek_def nth_append range_end_of_def sint_small)
  next
    case (Some n)
    obtain c r where c: "decimal n = c # r" "is_digit c" using hd_decimal by blast
    have r2: "read_digits 0 ((pre @ decimal a @ [45]) @ decimal n @ CR # rest) (length (pre @ decimal a @ [45])) =
        Inr (of_nat n, length (pre @ decimal a @ [45]) + length (decimal n))"
      by (rule read_digits_decimal[OF not_digits(2)])
    have "peek (pre @ decimal a @ 45 # decimal n @ CR # rest) (Suc (length pre + length (decimal a))) = Inr c"
      by (simp add: peek_def c nth_append)
    then show ?thesis using r1[of "decimal n @ CR # rest"] r2 assms Some c(2)
      by (simp add: read_range_def d range_end_of_def sint_small)
  qed
qed

text \<open>The branches of the loop, by the position \<open>i\<close> of the line.\<close>

lemma header_loop_range:
  "i = idx + 2 \<Longrightarrow> i + 6 < length buf \<Longrightarrow> buf ! i \<noteq> CR \<Longrightarrow> slice buf i 6 = text_of ''Range:'' \<Longrightarrow>
   read_range buf (i + 13) = Inr ((b, e), j) \<Longrightarrow> j < length buf \<Longrightarrow>
   header_loop buf idx h = header_loop buf j (h\<lparr>hh_range := True, hh_range_begin := b, hh_range_end := e\<rparr>)"
  by (subst header_loop.simps) (simp add: Let_def)

lemma header_loop_connection:
  "i = idx + 2 \<Longrightarrow> i + 23 < length buf \<Longrightarrow> buf ! i \<noteq> CR \<Longrightarrow> slice buf i 6 \<noteq> text_of ''Range:'' \<Longrightarrow> slice buf i 11 = text_of ''Connection:'' \<Longrightarrow>
   buf ! (i + 11) = SP \<Longrightarrow> buf ! (i + 12) = (if keep then of_char (CHR ''k'') else of_char (CHR ''c'')) \<Longrightarrow>
   skip_to_cr (buf[i + 23 := SP]) (i + 12) = Inr j \<Longrightarrow>
   header_loop buf idx h = header_loop (buf[i + 23 := SP]) j (h\<lparr>hh_keep_alive := keep\<rparr>)"
  by (subst header_loop.simps) (simp add: Let_def)

lemma range_prefix: "text_of ''Range: bytes='' = [82, 97, 110, 103, 101, 58, 32, 98, 121, 116, 101, 115, 61]" "text_of ''Range:'' = [82, 97, 110, 103, 101, 58]"
  by (simp_all add: text_of_def)

lemma headers_range:
  assumes "a < 2147483648" "\<forall>n. b = Some n \<longrightarrow> n < 2147483648"
  shows "headers pre x (range_line a b @ CR # y # rest) h =
    headers (pre @ CR # x # range_line a b) y rest (h\<lparr>hh_range := True, hh_range_begin := int a, hh_range_end := range_end_of b\<rparr>)"
proof -
  let ?buf = "pre @ CR # x # range_line a b @ CR # y # rest"
  let ?p = "pre @ CR # x # text_of ''Range: bytes=''"
  have buf: "?buf = ?p @ decimal a @ text_of ''-'' @ (case b of None \<Rightarrow> [] | Some b \<Rightarrow> decimal b) @ CR # y # rest"
    by (simp add: range_line_def)
  have lp: "length ?p = length pre + 2 + 13" by (simp add: range_prefix)
  have r: "read_range ?buf (length pre + 2 + 13) = Inr ((int a, range_end_of b), length pre + 2 + length (range_line a b))"
    using read_range_line[OF assms, of ?p "y # rest"] unfolding buf[symmetric] lp
    by (simp add: range_line_def range_prefix text_of_def split: option.splits)
  have sl: "slice ?buf (length pre + 2) 6 = text_of ''Range:''" by (simp add: slice_def range_line_def range_prefix)
  have at: "?buf ! (length pre + 2) \<noteq> CR" by (simp add: range_line_def range_prefix nth_append CR_def)
  have "length (range_line a b) \<ge> 14" by (simp add: range_line_def range_prefix text_of_def)
  then have len: "length pre + 2 + 6 < length ?buf" by simp
  have "header_loop ?buf (length pre) h = header_loop ?buf (length pre + 2 + length (range_line a b))
      (h\<lparr>hh_range := True, hh_range_begin := int a, hh_range_end := range_end_of b\<rparr>)"
    by (rule header_loop_range[OF refl len at sl r]) simp
  then show ?thesis by simp
qed

lemma connection_prefix: "text_of ''Connection: '' = text_of ''Connection:'' @ [SP]"
  "text_of ''Connection:'' = [67, 111, 110, 110, 101, 99, 116, 105, 111, 110, 58]"
  by (simp_all add: text_of_def SP_def)

definition connection_line :: "bool \<Rightarrow> bytes" where
  "connection_line keep = text_of ''Connection: '' @ text_of (if keep then ''keep-alive'' else ''close'')"

text \<open>What the line does: 23 bytes behind its start, a space is written.\<close>

lemma headers_connection:
  assumes "5 \<le> length rest"
  shows "headers pre x (connection_line keep @ CR # y # rest) h =
    header_loop ((pre @ CR # x # connection_line keep @ CR # y # rest)[length pre + 25 := SP])
      (length pre + 2 + length (connection_line keep)) (h\<lparr>hh_keep_alive := keep\<rparr>)"
proof -
  let ?buf = "pre @ CR # x # connection_line keep @ CR # y # rest"
  have chars: "text_of ''keep-alive'' = [107, 101, 101, 112, 45, 97, 108, 105, 118, 101]" "text_of ''close'' = [99, 108, 111, 115, 101]"
    by (simp_all add: text_of_def)
  have len: "length (connection_line keep) = (if keep then 22 else 17)"
    by (simp add: connection_line_def connection_prefix chars)
  have nth: "?buf ! (length pre + k) = (CR # x # connection_line keep @ CR # y # rest) ! k" for k by (simp add: nth_append)
  have n: "?buf ! (length pre + 2) \<noteq> CR" "?buf ! (length pre + 2 + 11) = SP" "?buf ! (length pre + 2 + 12) = (if keep then of_char (CHR ''k'') else of_char (CHR ''c''))"
    unfolding nth add.assoc by (simp_all add: connection_line_def connection_prefix chars CR_def)
  have sl: "slice ?buf (length pre + 2) 6 \<noteq> text_of ''Range:''" "slice ?buf (length pre + 2) 11 = text_of ''Connection:''"
    by (simp_all add: slice_def connection_line_def connection_prefix range_prefix)
  have sk: "skip_to_cr (?buf[length pre + 2 + 23 := SP]) (length pre + 2 + 12) = Inr (length pre + 2 + length (connection_line keep))"
  proof -
    let ?w = "text_of (if keep then ''keep-alive'' else ''close'')" and ?q = "pre @ CR # x # text_of ''Connection: ''"
    have "\<exists>r. ?buf[length pre + 2 + 23 := SP] = ?q @ ?w @ CR # r"
      by (cases keep) (simp_all add: connection_line_def connection_prefix chars list_update_append)
    then obtain r where r: "?buf[length pre + 2 + 23 := SP] = ?q @ ?w @ CR # r" ..
    have "CR \<notin> set ?w" by (simp add: chars CR_def)
    then have "skip_to_cr (?q @ ?w @ CR # r) (length ?q) = Inr (length ?q + length ?w)" by (rule skip_to_cr_text)
    moreover have "length ?q = length pre + 2 + 12" "length ?q + length ?w = length pre + 2 + length (connection_line keep)"
      by (simp_all add: connection_line_def connection_prefix)
    ultimately show ?thesis unfolding r by simp
  qed
  have "length pre + 2 + 23 < length ?buf" using assms len by simp
  from header_loop_connection[OF refl this n(1) sl n(2,3) sk] show ?thesis by (simp add: add.commute)
qed

lemma headers_keep_alive:
  assumes "5 \<le> length rest"
  shows "headers pre x (connection_line True @ CR # y # rest) h = headers (pre @ CR # x # connection_line True) SP rest (h\<lparr>hh_keep_alive := True\<rparr>)"
proof -
  have l: "length (connection_line True) = 22" by (simp add: connection_line_def text_of_def)
  have "(pre @ CR # x # connection_line True @ CR # y # rest)[length pre + 25 := SP] = (pre @ CR # x # connection_line True) @ CR # SP # rest"
    by (simp add: l list_update_append)
  moreover have "length pre + 2 + length (connection_line True) = length (pre @ CR # x # connection_line True)" by simp
  ultimately show ?thesis unfolding headers_connection[OF assms] by simp
qed

text \<open>At the end of the head the space does no harm.\<close>

lemma headers_close_last:
  assumes "5 \<le> length rest"
  shows "headers pre x (connection_line False @ CR # y # CR # rest) h = Inr (h\<lparr>hh_keep_alive := False\<rparr>)"
proof -
  have l: "length (connection_line False) = 17" by (simp add: connection_line_def text_of_def)
  have "\<exists>r. (pre @ CR # x # connection_line False @ CR # y # CR # rest)[length pre + 25 := SP] = (pre @ CR # x # connection_line False) @ CR # y # CR # r"
    by (simp add: l list_update_append)
  then obtain r where r: "(pre @ CR # x # connection_line False @ CR # y # CR # rest)[length pre + 25 := SP] = (pre @ CR # x # connection_line False) @ CR # y # CR # r" ..
  have "5 \<le> length (CR # rest)" using assms by simp
  moreover have "length pre + 2 + length (connection_line False) = length (pre @ CR # x # connection_line False)" by simp
  ultimately show ?thesis unfolding headers_connection[OF \<open>5 \<le> length (CR # rest)\<close>] r
    by (simp only: headers_end)
qed

section \<open>Requests as clients send them\<close>

datatype header = Plain bytes | Range nat "nat option" | KeepAlive

fun header_line :: "header \<Rightarrow> bytes" where
  "header_line (Plain l) = l"
| "header_line (Range a b) = range_line a b"
| "header_line KeepAlive = connection_line True"

fun valid_header :: "header \<Rightarrow> bool" where
  "valid_header (Plain l) = plain_line l"
| "valid_header (Range a b) = (a < 2147483648 \<and> (case b of None \<Rightarrow> True | Some b \<Rightarrow> b < 2147483648))"
| "valid_header KeepAlive = True"

fun apply_header :: "header \<Rightarrow> http_head \<Rightarrow> http_head" where
  "apply_header (Plain l) h = h"
| "apply_header (Range a b) h = h\<lparr>hh_range := True, hh_range_begin := int a, hh_range_end := range_end_of b\<rparr>"
| "apply_header KeepAlive h = h\<lparr>hh_keep_alive := True\<rparr>"

text \<open>A request; a line that asks to close the connection comes last.\<close>

definition get_request :: "bytes \<Rightarrow> bytes \<Rightarrow> header list \<Rightarrow> bool \<Rightarrow> bytes" where
  "get_request url version hs close =
    text_of ''GET '' @ url @ SP # version @ crlf @ concat (map (\<lambda>h. header_line h @ crlf) hs) @
    (if close then connection_line False @ crlf else []) @ crlf"

definition request_head :: "bool \<Rightarrow> header list \<Rightarrow> bool \<Rightarrow> http_head" where
  "request_head keep hs close =
    (let h = fold apply_header hs \<lparr>hh_keep_alive = keep, hh_range = False, hh_range_begin = 0, hh_range_end = 0\<rparr> in
     if close then h\<lparr>hh_keep_alive := False\<rparr> else h)"

lemma headers_one:
  assumes "valid_header hd'" "24 \<le> length rest"
  shows "\<exists>y'. headers pre x (header_line hd' @ CR # y # rest) h = headers (pre @ CR # x # header_line hd') y' rest (apply_header hd' h)"
proof (cases hd')
  case (Plain l)
  with assms headers_plain[of l rest pre x y h] show ?thesis by auto
next
  case (Range a b)
  with assms headers_range[of a b pre x y rest h] show ?thesis by (auto split: option.splits)
next
  case KeepAlive
  with assms headers_keep_alive[of rest pre x y h] show ?thesis by auto
qed

lemma headers_all:
  assumes "\<forall>h \<in> set hs. valid_header h" "24 \<le> length rest"
  shows "\<exists>pre' x'. headers pre x (concat (map (\<lambda>h. header_line h @ crlf) hs) @ rest) h0 = headers pre' x' rest (fold apply_header hs h0)"
  using assms(1)
proof (induction hs arbitrary: pre x h0)
  case (Cons hd' hs)
  let ?r = "concat (map (\<lambda>h. header_line h @ crlf) hs) @ rest"
  have "24 \<le> length ?r" using assms(2) by simp
  then obtain y where "headers pre x (header_line hd' @ CR # LF # ?r) h0 = headers (pre @ CR # x # header_line hd') y ?r (apply_header hd' h0)"
    using headers_one[of hd' ?r pre x LF h0] Cons.prems by auto
  with Cons.IH[of "pre @ CR # x # header_line hd'" y "apply_header hd' h0"] Cons.prems show ?case by (simp add: crlf_def)
qed auto

lemma headers_whole:
  assumes "\<forall>h \<in> set hs. valid_header h" "24 \<le> k"
  shows "headers pre LF (concat (map (\<lambda>h. header_line h @ crlf) hs) @ (if close then connection_line False @ crlf else []) @ crlf @ zeros k)
     \<lparr>hh_keep_alive = keep, hh_range = False, hh_range_begin = 0, hh_range_end = 0\<rparr> = Inr (request_head keep hs close)"
proof -
  let ?r = "(if close then connection_line False @ crlf else []) @ crlf @ zeros k"
  have "24 \<le> length ?r" using assms(2) by simp
  then obtain pre' x' where h: "headers pre LF (concat (map (\<lambda>h. header_line h @ crlf) hs) @ ?r)
     \<lparr>hh_keep_alive = keep, hh_range = False, hh_range_begin = 0, hh_range_end = 0\<rparr> =
     headers pre' x' ?r (fold apply_header hs \<lparr>hh_keep_alive = keep, hh_range = False, hh_range_begin = 0, hh_range_end = 0\<rparr>)"
    using headers_all[OF assms(1), of ?r pre LF "\<lparr>hh_keep_alive = keep, hh_range = False, hh_range_begin = 0, hh_range_end = 0\<rparr>"] by blast
  show ?thesis
  proof (cases close)
    case True
    have "5 \<le> length (LF # zeros k)" using assms(2) by simp
    from headers_close_last[OF this, of pre' x' LF] True h show ?thesis by (simp add: crlf_def request_head_def)
  next
    case False
    with h headers_end[of pre' x' "LF # zeros k"] show ?thesis by (simp add: crlf_def request_head_def)
  qed
qed

definition plain_url :: "bytes \<Rightarrow> bool" where
  "plain_url u \<longleftrightarrow> u \<noteq> [] \<and> hd u = SLASH \<and> SP \<notin> set u \<and> 0 \<notin> set u \<and> length u < 50"

definition plain_version :: "bytes \<Rightarrow> bool" where
  "plain_version v \<longleftrightarrow> CR \<notin> set v \<and> 0 \<notin> set v \<and> length v < 9"

lemma parse_request_text:
  assumes "plain_url u" "plain_version v"
    and h: "headers (text_of ''GET '' @ u @ SP # v) LF rest \<lparr>hh_keep_alive = keep, hh_range = False, hh_range_begin = 0, hh_range_end = 0\<rparr> = Inr h"
  shows "parse_request keep ((text_of ''GET '' @ u @ SP # v) @ CR # LF # rest) =
    Inr \<lparr>rq_path = of_char (CHR ''.'') # u, rq_version = v, rq_head = h\<rparr>"
proof -
  let ?pre = "text_of ''GET '' @ u @ SP # v"
  let ?buf = "?pre @ CR # LF # rest"
  have g: "length (text_of ''GET '') = 4" by (simp add: text_of_def)
  have buf: "?buf = text_of ''GET '' @ u @ SP # v @ CR # LF # rest" by simp
  have p: "peek ?buf 4 = Inr SLASH"
    using assms(1) unfolding buf by (cases u) (simp_all add: peek_def g plain_url_def nth_append)
  have c1: "copy_until SP 50 [] ?buf 4 = Inr (u, 4 + length u)"
    unfolding buf using copy_until_text[of SP u "[]" 50 "text_of ''GET ''"] assms(1) by (simp add: g plain_url_def)
  have c2: "copy_until CR 9 [] ?buf (Suc (4 + length u)) = Inr (v, Suc (4 + length u) + length v)"
    unfolding buf using copy_until_text[of CR v "[]" 9 "text_of ''GET '' @ u @ [SP]" "LF # rest"] assms(2) by (simp add: g plain_version_def)
  have pos: "Suc (4 + length u) + length v = length ?pre" by (simp add: g)
  have s: "c_string 50 u = Inr u" "c_string 9 v = Inr v"
    using assms(1,2) by (simp_all add: c_string_text plain_url_def plain_version_def)
  show ?thesis
    unfolding parse_request_def p bind_res_simps c1 case_prod_conv c2 pos h by (simp add: s request_path_def)
qed

lemma parse_get_request:
  assumes "plain_url u" "plain_version v" "\<forall>h \<in> set hs. valid_header h" "24 \<le> k"
  shows "parse_request keep (get_request u v hs close @ zeros k) =
    Inr \<lparr>rq_path = of_char (CHR ''.'') # u, rq_version = v, rq_head = request_head keep hs close\<rparr>"
proof -
  let ?tail = "concat (map (\<lambda>h. header_line h @ crlf) hs) @ (if close then connection_line False @ crlf else []) @ crlf @ zeros k"
  have "get_request u v hs close @ zeros k = (text_of ''GET '' @ u @ SP # v) @ CR # LF # ?tail" by (simp add: get_request_def crlf_def)
  then show ?thesis by (simp only: parse_request_text[OF assms(1,2) headers_whole[OF assms(3,4)]])
qed

section \<open>Responses\<close>

text \<open>
  The bytes a head asks for, when they can be served: the whole file, the bytes from one position to
  another, or from a position to the end.
\<close>

definition wanted :: "http_head \<Rightarrow> bytes \<Rightarrow> bytes option" where
  "wanted h c =
    (let a = nat (hh_range_begin h); b = nat (hh_range_end h) in
     if \<not> hh_range h then (if c = [] then None else Some c)
     else if hh_range_end h = -1 then (if a \<le> length c then Some (drop a c) else None)
     else if a \<le> b \<and> b < length c then Some (take (b - a + 1) (drop a c)) else None)"

definition open_range :: "http_head \<Rightarrow> bool" where
  "open_range h \<longleftrightarrow> hh_range h \<and> hh_range_end h = -1"

text \<open>The answer with a body: status line, length, state of the connection, empty line, body.\<close>

definition http_answer :: "bytes \<Rightarrow> http_head \<Rightarrow> bytes \<Rightarrow> bytes" where
  "http_answer v h body =
    v @ text_of (if hh_range h then '' 206 Partial Content'' else '' 200 OK'') @ crlf @
    text_of ''Content-Length: '' @ decimal (length body) @ crlf @
    text_of (if hh_keep_alive h then ''Connection: keep-alive'' else ''Connection: close'') @ crlf @ crlf @ body"

lemma http_answer_head: "http_answer v h body = response_head v h (decimal (length body)) @ body"
  by (simp add: http_answer_def response_head_def text_of_def)

text \<open>What the server makes of it: one byte more when the range is open.\<close>

definition served :: "http_head \<Rightarrow> bytes \<Rightarrow> bytes" where
  "served h body = (if open_range h then body @ [0] else body)"

definition good_head :: "http_head \<Rightarrow> bool" where
  "good_head h \<longleftrightarrow> hh_range h \<longrightarrow> 0 \<le> hh_range_begin h \<and> -1 \<le> hh_range_end h"

lemma fold_good: "good_head h \<Longrightarrow> good_head (fold apply_header hs h)"
proof (induction hs arbitrary: h)
  case (Cons x hs)
  have "good_head (apply_header x h)" using Cons.prems by (cases x) (auto simp: good_head_def range_end_of_def split: option.split)
  with Cons.IH show ?case by simp
qed simp

lemma request_head_good: "good_head (request_head keep hs close)"
  using fold_good[of "\<lparr>hh_keep_alive = keep, hh_range = False, hh_range_begin = 0, hh_range_end = 0\<rparr>" hs]
  by (simp add: request_head_def good_head_def Let_def)

lemma wrap32_id: "-2147483648 \<le> i \<Longrightarrow> i < 2147483648 \<Longrightarrow> wrap32 i = i"
  by (simp add: wrap32_def signed_of_int signed_take_bit_int_eq_self)

lemma length_decimal: "n < 10 ^ Suc k \<Longrightarrow> length (decimal n) \<le> Suc k"
proof (induction k arbitrary: n)
  case 0
  then show ?case by (subst decimal.simps) simp
next
  case (Suc k)
  have "n div 10 < 10 ^ Suc k" using Suc.prems by (simp add: less_mult_imp_div_less mult.commute)
  from Suc.IH[OF this] show ?case by (subst decimal.simps) simp
qed

lemma response_wanted:
  assumes "good_head h" "wanted h c = Some w" "length c < 2000000000" "length v < 9" and body: "body = served h w"
  shows "\<exists>r len1. response_buffer v h c = Inr (r, len1, int (length body)) \<and>
    take (nat (int len1 + int (length body))) r = http_answer v h body"
proof -
  let ?n = "length body"
  have n: "0 < ?n" "?n \<le> Suc (length c)"
    using assms(2) by (auto simp: body served_def open_range_def wanted_def Let_def split: if_splits)
  have size: "response_size h c = int ?n"
    using assms(1-3)
    by (auto simp: body served_def open_range_def response_size_def wanted_def good_head_def Let_def wrap32_id split: if_splits)
  have room: "wrap32 (int ?n + 200) = int ?n + 200" using n assms(3) by (simp add: wrap32_id)
  let ?head = "response_head v h (decimal ?n)"
  have "length (decimal ?n) \<le> 10" using length_decimal[of ?n 9] n assms(3) by simp
  then have hl: "length ?head < 200" using assms(4) by (simp add: response_head_def text_of_def crlf_def)
  have part: "file_part h c (int ?n) @ zeros (?n - length (file_part h c (int ?n))) = body" "length (file_part h c (int ?n)) \<le> ?n"
    using assms(1,2)
    by (auto simp: body served_def open_range_def file_part_def read_from_def wanted_def good_head_def Let_def zeros_def split: if_splits)
  let ?p = "file_part h c (int ?n)"
  have "response_buffer v h c = Inr (?head @ ?p @ zeros (?n + 200 - length ?head - length ?p), length ?head, int ?n)"
    using size size_text_decimal[OF n(1)] hl part(2) room
    by (simp add: response_buffer_def Let_def nat_add_distrib)
  moreover have "take (length ?head + ?n) (?head @ ?p @ zeros (?n + 200 - length ?head - length ?p)) = ?head @ ?p @ zeros (?n - length ?p)"
    using part(2) hl by (simp add: zeros_def min_def)
  ultimately show ?thesis using part(1) unfolding http_answer_head by (auto simp: nat_add_distrib)
qed

lemma request_answered:
  assumes "plain_url u" "plain_version v" "\<forall>h \<in> set hs. valid_header h" "length (get_request u v hs close) + 24 \<le> 2000"
    and "files (of_char (CHR ''.'') # u) = Some content" "length content < 2000000000"
    and "wanted (request_head keep hs close) content = Some body"
  shows "serve files keep (get_request u v hs close @ zeros (2000 - length (get_request u v hs close))) =
    Inr (http_answer v (request_head keep hs close) (served (request_head keep hs close) body),
      \<not> open_range (request_head keep hs close), hh_keep_alive (request_head keep hs close))"
proof -
  let ?b = "served (request_head keep hs close) body"
  have "24 \<le> 2000 - length (get_request u v hs close)" using assms(4) by simp
  note p = parse_get_request[OF assms(1-3) this, of keep close]
  have "length v < 9" using assms(2) by (simp add: plain_version_def)
  from response_wanted[OF request_head_good assms(7,6) this refl] obtain r len1 where
    "response_buffer v (request_head keep hs close) content = Inr (r, len1, int (length ?b))"
    "take (nat (int len1 + int (length ?b))) r = http_answer v (request_head keep hs close) ?b" by blast
  with p assms(5) show ?thesis by (simp add: serve_def Let_def open_range_def)
qed

section \<open>Properties\<close>

text \<open>
  C16: the server serves what is asked for.  Take a request for a path of less than fifty bytes, with any header lines,
  among them ranges with bounds below \<open>2\<^sup>3\<^sup>1\<close> and the wish to keep the connection, and at the end possibly the wish to close it, that
  leaves 24 bytes of the buffer free.  If the file is there, and the last range, if there is one, names its last byte and lies inside the file, the answer
  is the status line, the length in decimal, the state of the connection, an empty line and exactly the bytes asked for, and
  the session goes on if the connection is kept.  (A range that is left open is \<open>open_range_one_too_many\<close>.)
\<close>
theorem http_request_served:
  assumes "plain_url u" "plain_version v" "\<forall>h \<in> set hs. valid_header h" "length (get_request u v hs close) + 24 \<le> 2000"
    and "files (of_char (CHR ''.'') # u) = Some content" "length content < 2000000000"
    and "wanted (request_head keep hs close) content = Some body" "\<not> open_range (request_head keep hs close)"
  shows "serve files keep (get_request u v hs close @ zeros (2000 - length (get_request u v hs close))) =
    Inr (http_answer v (request_head keep hs close) body, True, hh_keep_alive (request_head keep hs close))"
  using request_answered[where files = files, OF assms(1-7)] assms(8) by (simp add: served_def)

text \<open>
  An open range (\<open>bytes=a-\<close>) is answered wrongly: the length announced is one more than the rest of the file has, behind the rest comes
  a zero byte, and the session ends even if the connection is to be kept.  The tests of the labs (\<open>test.py\<close>) expect the rest of the file.
\<close>
lemma open_range_one_too_many:
  assumes "plain_url u" "plain_version v" "\<forall>h \<in> set hs. valid_header h" "length (get_request u v hs close) + 24 \<le> 2000"
    and "files (of_char (CHR ''.'') # u) = Some content" "length content < 2000000000"
    and "wanted (request_head keep hs close) content = Some body" "open_range (request_head keep hs close)"
  shows "\<exists>keep_alive. serve files keep (get_request u v hs close @ zeros (2000 - length (get_request u v hs close))) =
    Inr (http_answer v (request_head keep hs close) (body @ [0]), False, keep_alive)"
  using request_answered[where files = files, OF assms(1-7)] assms(8) by (simp add: served_def)

text \<open>\<open>/a\<close> with the file \<open>hello\<close>, bytes 1 to 3.\<close>

definition example_files :: "bytes \<Rightarrow> bytes option" where
  "example_files path = (if path = text_of ''./a'' then Some (text_of ''hello'') else None)"

theorem http_request_served_witness:
  "serve example_files True (get_request (text_of ''/a'') (text_of ''HTTP/1.1'') [Plain (text_of ''Host: x''), Range 1 (Some 3)] True @
      zeros (2000 - length (get_request (text_of ''/a'') (text_of ''HTTP/1.1'') [Plain (text_of ''Host: x''), Range 1 (Some 3)] True))) =
    Inr (text_of ''HTTP/1.1 206 Partial Content'' @ crlf @ text_of ''Content-Length: 3'' @ crlf @ text_of ''Connection: close'' @ crlf @ crlf @
      text_of ''ell'', True, False)"
proof -
  let ?hs = "[Plain (text_of ''Host: x''), Range 1 (Some 3)]"
  have d: "decimal (Suc 0) = [49]" "decimal 3 = [51]" by (simp_all add: decimal.simps)
  have a: "plain_url (text_of ''/a'')" "plain_version (text_of ''HTTP/1.1'')" "\<forall>h \<in> set ?hs. valid_header h"
    by (simp_all add: plain_url_def plain_version_def plain_line_def text_of_def SLASH_def SP_def CR_def)
  have l: "length (get_request (text_of ''/a'') (text_of ''HTTP/1.1'') ?hs True) + 24 \<le> 2000"
    by (simp add: get_request_def text_of_def crlf_def range_line_def connection_line_def d)
  have f: "example_files (of_char (CHR ''.'') # text_of ''/a'') = Some (text_of ''hello'')" by (simp add: example_files_def text_of_def)
  have h: "request_head True ?hs True = \<lparr>hh_keep_alive = False, hh_range = True, hh_range_begin = 1, hh_range_end = 3\<rparr>"
    by (simp add: request_head_def range_end_of_def)
  have w: "wanted (request_head True ?hs True) (text_of ''hello'') = Some (text_of ''ell'')"
    unfolding h by (simp add: wanted_def text_of_def)
  have o: "\<not> open_range (request_head True ?hs True)" unfolding h by (simp add: open_range_def)
  have n: "length (text_of ''hello'') < 2000000000" "length (text_of ''ell'') = 3" by (simp_all add: text_of_def)
  show ?thesis
    using http_request_served[where files = example_files and keep = True and close = True and hs = ?hs, OF a l f n(1) w o] unfolding h http_answer_def n(2) d by (simp add: text_of_def crlf_def)
qed

lemma digit_not_cr: "is_digit c \<Longrightarrow> c \<noteq> CR"
  by (auto simp: is_digit_def CR_def)

lemma broken_range_line: "plain_line ((range_line a b)[4 := SP])"
proof -
  have "CR \<notin> set (decimal n)" for n using decimal_digits[of CR n] digit_not_cr by blast
  then show ?thesis
    by (auto simp: plain_line_def range_line_def range_prefix connection_prefix text_of_def SP_def split: option.split)
      (simp_all add: CR_def)
qed

lemma headers_broken:
  "headers pre x (connection_line False @ crlf @ range_line a b @ crlf @ crlf @ zeros k) h = Inr (h\<lparr>hh_keep_alive := False\<rparr>)" if "24 \<le> k"
proof -
  let ?rest = "range_line a b @ CR # LF # CR # LF # zeros k" and ?h = "h\<lparr>hh_keep_alive := False\<rparr>"
  have l: "length (connection_line False) = 17" by (simp add: connection_line_def text_of_def)
  have r: "5 \<le> length (range_line a b)" by (simp add: range_line_def range_prefix)
  have "(pre @ CR # x # connection_line False @ CR # LF # ?rest)[length pre + 25 := SP] =
      (pre @ CR # x # connection_line False) @ CR # LF # (range_line a b)[4 := SP] @ CR # LF # CR # LF # zeros k"
    using r by (simp add: list_update_append l)
  moreover have "length pre + 2 + length (connection_line False) = length (pre @ CR # x # connection_line False)" by simp
  moreover have "5 \<le> length ?rest" using r by simp
  ultimately have "headers pre x (connection_line False @ CR # LF # ?rest) h =
      headers (pre @ CR # x # connection_line False) LF ((range_line a b)[4 := SP] @ CR # LF # CR # LF # zeros k) ?h"
    using headers_connection[of ?rest pre x False LF h] by simp
  also have "\<dots> = headers ((pre @ CR # x # connection_line False) @ CR # LF # (range_line a b)[4 := SP]) LF (CR # LF # zeros k) ?h"
    by (rule headers_plain[OF broken_range_line]) (use that in simp)
  also have "\<dots> = Inr ?h" by (rule headers_end)
  finally show ?thesis by (simp add: crlf_def)
qed

text \<open>
  Closing loses the range.  When the line that asks to close the connection comes right before a range, the byte
  the code puts back lands in the name of the next line: whatever the range is, the answer is the
  whole file with status 200.
\<close>

lemma close_before_range_lost:
  assumes "plain_url u" "plain_version v" "valid_header (Range a b)"
    and "files (of_char (CHR ''.'') # u) = Some content" "length content < 2000000000" "content \<noteq> []"
    and "req = text_of ''GET '' @ u @ SP # v @ crlf @ connection_line False @ crlf @ range_line a b @ crlf @ crlf" "length req + 24 \<le> 2000"
  shows "serve files keep (req @ zeros (2000 - length req)) =
    Inr (v @ text_of '' 200 OK'' @ crlf @ text_of ''Content-Length: '' @ decimal (length content) @ crlf @
      text_of ''Connection: close'' @ crlf @ crlf @ content, True, False)"
proof -
  let ?k = "2000 - length req" and ?h = "\<lparr>hh_keep_alive = False, hh_range = False, hh_range_begin = 0, hh_range_end = 0\<rparr>"
  let ?tail = "connection_line False @ crlf @ range_line a b @ crlf @ crlf @ zeros ?k" and ?pre = "text_of ''GET '' @ u @ SP # v"
  have buf: "req @ zeros ?k = ?pre @ CR # LF # ?tail" using assms(7) by (simp add: crlf_def)
  have "headers ?pre LF ?tail \<lparr>hh_keep_alive = keep, hh_range = False, hh_range_begin = 0, hh_range_end = 0\<rparr> = Inr ?h"
    using headers_broken[of ?k ?pre LF a b] assms(8) by simp
  from parse_request_text[OF assms(1,2) this] have p: "parse_request keep (req @ zeros ?k) =
      Inr \<lparr>rq_path = of_char (CHR ''.'') # u, rq_version = v, rq_head = ?h\<rparr>" unfolding buf .
  have "good_head ?h" "wanted ?h content = Some content" "length v < 9" using assms(2,6) by (simp_all add: good_head_def wanted_def plain_version_def)
  from response_wanted[OF this(1,2) assms(5) this(3) refl] obtain r len1 where
    "response_buffer v ?h content = Inr (r, len1, int (length content))"
    "take (nat (int len1 + int (length content))) r = http_answer v ?h content" by (auto simp: served_def open_range_def)
  then show ?thesis using p assms(4) by (simp add: serve_def Let_def http_answer_def)
qed

end
