(* ===== verification/Device_Setup.thy ===== *)
theory Device_Setup
  imports Device
begin

text \<open>
  Setting the interfaces up (\<open>device_internal.c\<close>): \<open>open_device\<close>, \<open>read_iface_info\<close> of the switching labs (3 and 4) and
  of the IP labs (6 to 13), \<open>find_available_ifaces\<close>, \<open>init_all_ifaces\<close> and \<open>init_ustack\<close>.  What the system calls answer is a
  parameter, the record \<open>kernel\<close>; a name that does not fit its array, a request that is read though its \<open>ioctl\<close>
  failed, and \<open>exit\<close> are faults.
\<close>

section \<open>The kernel\<close>

text \<open>
  What the system calls answer: the addresses of \<open>getifaddrs\<close> (name, and whether the family is \<open>AF_PACKET\<close>), the
  descriptors of the \<open>n\<close>-th raw and datagram sockets (negative on failure), the \<open>ioctl\<close> queries by
  interface name, which fail on a negative descriptor, and \<open>bind\<close>.
\<close>

record kernel =
  k_ifaddrs :: "(string \<times> bool) list option"
  k_raw_socket :: "nat \<Rightarrow> int"
  k_dgram_socket :: "nat \<Rightarrow> int"
  k_index :: "string \<Rightarrow> int option"
  k_hwaddr :: "string \<Rightarrow> bytes option"
  k_addr :: "string \<Rightarrow> u32 option"
  k_netmask :: "string \<Rightarrow> u32 option"
  k_bind :: "int \<Rightarrow> bool"

definition query :: "int \<Rightarrow> (string \<Rightarrow> 'a option) \<Rightarrow> string \<Rightarrow> 'a option" where
  "query sd f name = (if sd < 0 then None else f name)"

definition IFNAMSIZ :: nat where "IFNAMSIZ = 16"

text \<open>\<open>strstr(name, pat) != NULL\<close>.\<close>

fun has_substring :: "string \<Rightarrow> string \<Rightarrow> bool" where
  "has_substring pat [] = (pat = [])"
| "has_substring pat (c # cs) = (take (length pat) (c # cs) = pat \<or> has_substring pat cs)"

section \<open>Opening the interfaces\<close>

text \<open>The \<open>n\<close>-th call.  A failure is \<open>- 1\<close>, and the socket stays open.\<close>

definition open_device :: "kernel \<Rightarrow> nat \<Rightarrow> string \<Rightarrow> int" where
  "open_device kn n dname =
    (let sd = k_raw_socket kn n in
     if sd < 0 then - 1
     else case query sd (k_index kn) dname of
       None \<Rightarrow> - 1
     | Some i \<Rightarrow> if \<not> k_bind kn i then - 1 else if query sd (k_hwaddr kn) dname = None then - 1 else sd)"

text \<open>
  \<open>read_iface_info\<close> of the switching labs: the queries for index and address are not checked, and leave
  the request as it was, which is not initialised.
\<close>

definition read_eth_info :: "kernel \<Rightarrow> nat \<Rightarrow> string \<Rightarrow> iface_info res" where
  "read_eth_info kn n name =
    (let fd = open_device kn n name; s = k_dgram_socket kn n in
     case query s (k_index kn) name of
       None \<Rightarrow> Inl Uninitialised
     | Some i \<Rightarrow> (case query s (k_hwaddr kn) name of
         None \<Rightarrow> Inl Uninitialised
       | Some mac \<Rightarrow> Inr \<lparr>if_fd = fd, if_index = i, if_mac = mac, if_name = name\<rparr>))"

text \<open>That of the IP labs goes on to the address and the mask; without one of them the program ends.\<close>

definition read_iface_info :: "kernel \<Rightarrow> nat \<Rightarrow> string \<Rightarrow> ip_iface res" where
  "read_iface_info kn n name =
    bind_res (read_eth_info kn n name) (\<lambda>i.
      case query (if_fd i) (k_addr kn) name of
        None \<Rightarrow> Inl Exited
      | Some a \<Rightarrow> (case query (if_fd i) (k_netmask kn) name of
          None \<Rightarrow> Inl Exited
        | Some m \<Rightarrow> Inr \<lparr>if_fd = if_fd i, if_index = if_index i, if_mac = if_mac i, if_name = if_name i,
            if_ip = ntohl a, if_mask = ntohl m\<rparr>))"

definition is_eth :: "string \<times> bool \<Rightarrow> bool" where
  "is_eth a \<longleftrightarrow> snd a \<and> has_substring ''-eth'' (fst a)"

definition eth_names :: "(string \<times> bool) list \<Rightarrow> string list" where
  "eth_names addrs = map fst (filter is_eth addrs)"

text \<open>
  The names found.  The result of \<open>getifaddrs\<close> is not checked, and leaves the list as it was if it is an error.  The
  names are copied to arrays of 16 bytes, and all of them, with a blank each, to one of 1024.
\<close>

definition find_available_ifaces :: "kernel \<Rightarrow> string list res" where
  "find_available_ifaces kn = (case k_ifaddrs kn of
      None \<Rightarrow> Inl Uninitialised
    | Some addrs \<Rightarrow>
        (let names = eth_names addrs in
         if \<exists>name \<in> set names. IFNAMSIZ \<le> length name then Inl OutOfBounds
         else if names = [] then Inl Exited
         else if 1024 \<le> sum_list (map (\<lambda>name. 1 + length name) names) then Inl OutOfBounds
         else Inr names))"

text \<open>The loop over the interfaces, from the \<open>n\<close>-th on.\<close>

fun read_ifaces :: "(nat \<Rightarrow> string \<Rightarrow> ('a iface_info_scheme) res) \<Rightarrow> nat \<Rightarrow> string list \<Rightarrow> ('a iface_info_scheme) list res" where
  "read_ifaces info n [] = Inr []"
| "read_ifaces info n (name # names) =
    bind_res (info n name) (\<lambda>i. bind_res (read_ifaces info (n + 1) names) (\<lambda>is. Inr (i # is)))"

text \<open>The members of \<open>ustack_t\<close> that this sets: the interfaces, their number, and the descriptors to poll.\<close>

record 'i ustack =
  us_ifaces :: "'i list"
  us_nifs :: nat
  us_fds :: "int list"

definition init_all_ifaces ::
    "kernel \<Rightarrow> (nat \<Rightarrow> string \<Rightarrow> ('a iface_info_scheme) res) \<Rightarrow> (('a iface_info_scheme) ustack) res" where
  "init_all_ifaces kn info =
    bind_res (find_available_ifaces kn) (\<lambda>names.
      bind_res (read_ifaces info 0 names) (\<lambda>is.
        Inr \<lparr>us_ifaces = is, us_nifs = length names, us_fds = map if_fd is\<rparr>))"

definition init_eth_ustack :: "kernel \<Rightarrow> (iface_info ustack) res" where
  "init_eth_ustack kn = init_all_ifaces kn (read_eth_info kn)"

definition init_ustack :: "kernel \<Rightarrow> (ip_iface ustack) res" where
  "init_ustack kn = init_all_ifaces kn (read_iface_info kn)"

section \<open>What is polled\<close>

text \<open>\<open>poll\<close> answers for the descriptors it was given, and ignores negative ones.\<close>

definition polled :: "'i ustack \<Rightarrow> poll_event \<Rightarrow> bool" where
  "polled u e \<longleftrightarrow> (case e of PollFailed \<Rightarrow> True | PollReady evs \<Rightarrow> \<forall>(fd, ev) \<in> set evs. 0 \<le> fd \<and> fd \<in> set (us_fds u))"

lemma read_ifaces_iff:
  "read_ifaces info n names = Inr is \<longleftrightarrow>
    length is = length names \<and> (\<forall>j < length names. info (n + j) (names ! j) = Inr (is ! j))"
proof (induction names arbitrary: n "is")
  case (Cons name names)
  have "(\<forall>j < length (name # names). info (n + j) ((name # names) ! j) = Inr ((x # xs) ! j)) \<longleftrightarrow>
      info n name = Inr x \<and> (\<forall>j < length names. info (n + 1 + j) (names ! j) = Inr (xs ! j))" for x xs
    by (auto simp: less_Suc_eq_0_disj)
  with Cons.IH show ?case by (cases "is") (auto simp: bind_res_Inr_conv)
qed auto

lemma init_all_ifacesD:
  assumes "init_all_ifaces kn info = Inr u"
  shows "us_nifs u = length (us_ifaces u)" "us_fds u = map if_fd (us_ifaces u)" "us_ifaces u \<noteq> []"
    "find_available_ifaces kn = Inr (eth_names (the (k_ifaddrs kn)))" "length (us_ifaces u) = length (eth_names (the (k_ifaddrs kn)))"
    "\<And>j. j < length (us_ifaces u) \<Longrightarrow> info j (eth_names (the (k_ifaddrs kn)) ! j) = Inr (us_ifaces u ! j)"
  using assms by (auto simp: init_all_ifaces_def bind_res_Inr_conv read_ifaces_iff find_available_ifaces_def Let_def split: if_splits option.splits)

lemma run_unchecked_eq:
  assumes "\<forall>p \<in> set ps. polled u p" "us_fds u = map if_fd (us_ifaces u)"
  shows "ustack_run_unchecked handle (us_ifaces u) ps s = ustack_run handle (us_ifaces u) ps s"
  using assms(1)
proof (induction ps arbitrary: s)
  case (Cons p ps)
  show ?case
  proof (cases p)
    case (PollReady evs)
    have "\<forall>(fd, ev) \<in> set evs. fd \<in> if_fd ` set (us_ifaces u)"
      using Cons.prems PollReady assms(2) by (auto simp: polled_def)
    note step = ustack_round_unchecked_eq[OF this]
    have "ustack_run_unchecked handle (us_ifaces u) ps = ustack_run handle (us_ifaces u) ps"
      using Cons by (intro ext) simp
    then show ?thesis by (simp add: PollReady step)
  qed simp
qed simp


lemma query_Some: "query sd f name = Some a \<longleftrightarrow> 0 \<le> sd \<and> f name = Some a"
  by (auto simp: query_def)

lemma open_device_fd: "0 \<le> open_device kn n name \<Longrightarrow> open_device kn n name = k_raw_socket kn n"
  by (auto simp: open_device_def Let_def split: if_splits option.splits)

lemma read_iface_infoD:
  assumes "read_iface_info kn n name = Inr i"
  shows "if_fd i = k_raw_socket kn n" "0 \<le> if_fd i" "if_name i = name" "k_index kn name = Some (if_index i)"
    "k_hwaddr kn name = Some (if_mac i)" "k_addr kn name = Some (htonl (if_ip i))" "k_netmask kn name = Some (htonl (if_mask i))"
proof -
  from assms obtain e where e: "read_eth_info kn n name = Inr e"
    by (auto simp: read_iface_info_def bind_res_Inr_conv)
  from assms e obtain a m where "query (if_fd e) (k_addr kn) name = Some a" "query (if_fd e) (k_netmask kn) name = Some m"
    by (auto simp: read_iface_info_def split: option.splits)
  with assms e have "0 \<le> if_fd e" "if_fd i = if_fd e" "if_index i = if_index e" "if_mac i = if_mac e" "if_name i = if_name e"
      "k_addr kn name = Some (htonl (if_ip i))" "k_netmask kn name = Some (htonl (if_mask i))"
    by (auto simp: read_iface_info_def query_Some)
  with e show "if_fd i = k_raw_socket kn n" "0 \<le> if_fd i" "if_name i = name" "k_index kn name = Some (if_index i)"
    "k_hwaddr kn name = Some (if_mac i)" "k_addr kn name = Some (htonl (if_ip i))" "k_netmask kn name = Some (htonl (if_mask i))"
    by (auto simp: read_eth_info_def Let_def query_Some split: option.splits dest: open_device_fd)
qed

lemma init_ustack_iface:
  assumes "init_ustack kn = Inr u" "i \<in> set (us_ifaces u)"
  shows "0 \<le> if_fd i" "k_hwaddr kn (if_name i) = Some (if_mac i)"
proof -
  from assms(2) obtain j where "j < length (us_ifaces u)" "us_ifaces u ! j = i" by (auto simp: in_set_conv_nth)
  with read_iface_infoD[OF init_all_ifacesD(6)[OF assms(1)[unfolded init_ustack_def]]]
  show "0 \<le> if_fd i" "k_hwaddr kn (if_name i) = Some (if_mac i)" by metis+
qed

lemma init_ustack_names: "init_ustack kn = Inr u \<Longrightarrow> map if_name (us_ifaces u) = eth_names (the (k_ifaddrs kn))"
  by (rule nth_equalityI) (simp_all add: init_ustack_def init_all_ifacesD(5) read_iface_infoD(3)[OF init_all_ifacesD(6)])

lemma fd_to_iface_self: "distinct (map if_fd is) \<Longrightarrow> i \<in> set is \<Longrightarrow> fd_to_iface is (if_fd i) = Some i"
  by (induction "is") (auto simp: fd_to_iface_def)

lemma init_ustack_fd:
  assumes "init_ustack kn = Inr u" "inj_on (k_raw_socket kn) {n. 0 \<le> k_raw_socket kn n}" "i \<in> set (us_ifaces u)"
  shows "fd_to_iface (us_ifaces u) (if_fd i) = Some i"
proof -
  note info = read_iface_infoD[OF init_all_ifacesD(6)[OF assms(1)[unfolded init_ustack_def]]]
  have "distinct (map if_fd (us_ifaces u))"
    using assms(2) info(1,2) by (fastforce simp: distinct_conv_nth dest: inj_onD)
  with assms(3) show ?thesis by (simp add: fd_to_iface_self)
qed

section \<open>Descriptors\<close>

text \<open>
  The descriptors belong to the interfaces.  When \<open>init_ustack\<close> of the IP labs returns, it has one interface for each
  packet address whose name contains \<open>-eth\<close>, in order, with what the kernel says of it; if the kernel does not hand
  out a descriptor twice, the \<open>i\<close>-th descriptor that is polled leads \<open>fd_to_iface\<close> to the \<open>i\<close>-th interface.  So the receive
  loop of the later labs, which does not look whether \<open>fd_to_iface\<close> found one, never uses a null
  pointer on what \<open>poll\<close> reports: it does what the loop with the check does.
\<close>
lemma init_ustack_fds:
  assumes "init_ustack kn = Inr u" "inj_on (k_raw_socket kn) {n. 0 \<le> k_raw_socket kn n}"
  shows "map if_name (us_ifaces u) = eth_names (the (k_ifaddrs kn)) \<and> us_nifs u = length (us_ifaces u) \<and> 0 < us_nifs u \<and>
    (\<forall>i < us_nifs u. 0 \<le> us_fds u ! i \<and> fd_to_iface (us_ifaces u) (us_fds u ! i) = Some (us_ifaces u ! i) \<and>
      k_addr kn (if_name (us_ifaces u ! i)) = Some (htonl (if_ip (us_ifaces u ! i))) \<and>
      k_netmask kn (if_name (us_ifaces u ! i)) = Some (htonl (if_mask (us_ifaces u ! i))) \<and>
      k_hwaddr kn (if_name (us_ifaces u ! i)) = Some (if_mac (us_ifaces u ! i))) \<and>
    ((\<forall>p \<in> set ps. polled u p) \<longrightarrow> ustack_run_unchecked handle (us_ifaces u) ps s = ustack_run handle (us_ifaces u) ps s)"
proof -
  note u = init_all_ifacesD[OF assms(1)[unfolded init_ustack_def]]
  note info = read_iface_infoD[OF u(6)]
  have "fd_to_iface (us_ifaces u) (if_fd (us_ifaces u ! i)) = Some (us_ifaces u ! i)" if "i < length (us_ifaces u)" for i
    using that by (simp add: init_ustack_fd[OF assms])
  with u info init_ustack_names[OF assms(1)] show ?thesis
    by (auto simp: run_unchecked_eq)
qed

text \<open>A machine with the loopback interface and two that are used.\<close>

definition example_kernel :: kernel where
  "example_kernel = \<lparr>k_ifaddrs = Some [(''lo'', True), (''h1-eth0'', True), (''h1-eth0'', False), (''h1-eth1'', True)],
    k_raw_socket = (\<lambda>n. 3 + 2 * int n), k_dgram_socket = (\<lambda>n. 4 + 2 * int n),
    k_index = (\<lambda>name. Some (if name = ''h1-eth0'' then 2 else 3)), k_hwaddr = (\<lambda>name. Some [2, 0, 0, 0, 0, if name = ''h1-eth0'' then 1 else 2]),
    k_addr = (\<lambda>name. Some (htonl (if name = ''h1-eth0'' then 0x0A000001 else 0x0A000101))), k_netmask = (\<lambda>name. Some (htonl 0xFFFFFF00)),
    k_bind = (\<lambda>i. True)\<rparr>"

lemma example_kernel_up:
  "init_ustack example_kernel = Inr
    (let i = \<lambda>fd k name mac a. \<lparr>if_fd = fd, if_index = k, if_mac = [2, 0, 0, 0, 0, mac], if_name = name, if_ip = a, if_mask = 0xFFFFFF00\<rparr>
     in \<lparr>us_ifaces = [i 3 2 ''h1-eth0'' 1 0x0A000001, i 5 3 ''h1-eth1'' 2 0x0A000101], us_nifs = 2, us_fds = [3, 5]\<rparr>)"
  by (simp add: init_ustack_def init_all_ifaces_def find_available_ifaces_def example_kernel_def eth_names_def is_eth_def
      read_iface_info_def read_eth_info_def open_device_def query_def IFNAMSIZ_def)

text \<open>
  The switching labs do not look at the descriptor: two interfaces that cannot be opened both have \<open>- 1\<close>, and are sent
  to and polled as if they were there.
\<close>

lemma eth_failures_unnoticed:
  assumes "\<forall>n. k_raw_socket kn n < 0" "find_available_ifaces kn = Inr names"
    "\<forall>n. 0 \<le> k_dgram_socket kn n" "\<forall>name \<in> set names. k_index kn name \<noteq> None \<and> k_hwaddr kn name \<noteq> None"
  shows "\<exists>u. init_eth_ustack kn = Inr u \<and> us_fds u = replicate (length names) (- 1)"
proof -
  let ?i = "\<lambda>name. \<lparr>if_fd = - 1, if_index = the (k_index kn name), if_mac = the (k_hwaddr kn name), if_name = name\<rparr>"
  have "read_eth_info kn n name = Inr (?i name)" if "name \<in> set names" for n name
    using assms that by (fastforce simp: read_eth_info_def open_device_def query_def not_less Let_def)
  then have "read_ifaces (read_eth_info kn) 0 names = Inr (map ?i names)"
    by (simp add: read_ifaces_iff)
  with assms(2) show ?thesis
    by (auto simp: init_eth_ustack_def init_all_ifaces_def o_def map_replicate_const)
qed

end
