(* ===== verification/Rtable_Load.thy ===== *)
theory Rtable_Load
  imports Rtable
begin

text \<open>
  Loading the routing table at the start (\<open>rtable_internal.c\<close>, \<open>get_unparsed_route_info\<close> and \<open>load_rtable_from_kernel\<close>).  What
  the netlink socket answers is an argument; the parser is that of Rtable.
\<close>

text \<open>What \<open>recv\<close> on the netlink socket does: it fails, or a batch of messages comes, which is empty at the end of the socket.\<close>

datatype nl_recv = RecvFails | RecvData bytes

definition ROUTE_BATCH_SIZE :: nat where "ROUTE_BATCH_SIZE = 10240"
definition NLMSG_ERROR :: u16 where "NLMSG_ERROR = 2"
definition NLMSG_DONE :: u16 where "NLMSG_DONE = 3"

text \<open>
  The loop of \<open>get_unparsed_route_info\<close>: \<open>left\<close> is the room in the buffer, \<open>buf\<close> what is in it.  Only the type of the first
  message of a batch is looked at.  With no batch to come the call blocks.
\<close>

fun recv_routes :: "nat \<Rightarrow> bytes \<Rightarrow> nl_recv list \<Rightarrow> bytes res" where
  "recv_routes left buf [] = (if left < 16 then Inl Exited else Inl Sleeps)"
| "recv_routes left buf (r # rs) =
    (if left < 16 then Inl Exited
     else case r of
       RecvFails \<Rightarrow> Inr buf
     | RecvData batch \<Rightarrow>
        (let d = take left batch in
         if d = [] then Inr buf
         else if length d < 6 then Inl Uninitialised
         else if ld16 d 4 = NLMSG_DONE then Inr buf
         else if ld16 d 4 = NLMSG_ERROR then Inl Exited
         else recv_routes (left - length d) (buf @ d) rs))"

definition get_unparsed_route_info :: "bool \<Rightarrow> nat \<Rightarrow> nl_recv list \<Rightarrow> bytes res" where
  "get_unparsed_route_info sent sz rs = (if \<not> sent then Inl Exited else recv_routes sz [] rs)"

text \<open>The buffer behind the bytes received is not initialised; a message that reaches into it is a fault.\<close>

definition load_rtable_from_kernel ::
    "(u32 \<Rightarrow> string option) \<Rightarrow> bool \<Rightarrow> nl_recv list \<Rightarrow> ip_iface list \<Rightarrow> (nat \<times> rt_entry list) res" where
  "load_rtable_from_kernel if_index_to_name sent rs ifaces =
    bind_res (get_unparsed_route_info sent ROUTE_BATCH_SIZE rs) (\<lambda>buf.
      parse_routing_info if_index_to_name ifaces buf (length buf))"

definition route_batch :: "kernel_route list \<Rightarrow> bytes" where
  "route_batch rs = concat (map enc_route rs)"

definition done_message :: bytes where
  "done_message = le32 20 @ le16 3 @ zeros 14"

lemma batch_type:
  assumes "rs \<noteq> []"
  shows "ld16 (route_batch rs) 4 = 24" "6 \<le> length (route_batch rs)"
proof -
  obtain r rs' where "rs = r # rs'" using assms by (cases rs) auto
  then have "route_batch rs = le32 (of_nat (28 + length (enc_attrs (kr_attrs r)))) @ le16 24 @ (kr_head r
     @ [2, of_nat (kr_len r), 0, 0, kr_table r] @ kr_rest r @ enc_attrs (kr_attrs r) @ route_batch rs')"
    by (simp add: route_batch_def enc_route_def)
  then show "ld16 (route_batch rs) 4 = 24" "6 \<le> length (route_batch rs)"
    by (simp_all only: ld16_append length_le) (simp_all add: ld16_append)
qed

lemma recv_batches:
  "[] \<notin> set batches \<Longrightarrow> length (route_batch (concat batches)) + 16 \<le> left \<Longrightarrow>
    recv_routes left buf (map (RecvData \<circ> route_batch) batches @ [RecvData done_message]) = Inr (buf @ route_batch (concat batches))"
proof (induction batches arbitrary: left buf)
  case Nil
  have "16 \<le> left" using Nil by simp
  moreover have "done_message \<noteq> []" by (simp add: done_message_def le32_def le16_def)
  moreover have "length (take left done_message) = min left 20" by (simp add: done_message_def)
  moreover have "ld16 (take left done_message) 4 = 3"
  proof -
    have "take left done_message = le32 20 @ le16 3 @ take (left - 6) (zeros 14)"
      using \<open>16 \<le> left\<close> by (simp add: done_message_def)
    then show ?thesis by (simp only: ld16_append length_le) simp
  qed
  ultimately show ?case by (simp add: NLMSG_DONE_def route_batch_def Let_def)
next
  case (Cons rs batches)
  note t = batch_type[of rs]
  have l: "length (route_batch (concat (rs # batches))) = length (route_batch rs) + length (route_batch (concat batches))"
    by (simp add: route_batch_def)
  have tk: "take left (route_batch rs) = route_batch rs" using Cons.prems(2) l by simp
  have "recv_routes left buf (map (RecvData \<circ> route_batch) (rs # batches) @ [RecvData done_message])
    = recv_routes (left - length (route_batch rs)) (buf @ route_batch rs) (map (RecvData \<circ> route_batch) batches @ [RecvData done_message])"
    using Cons.prems t tk l by (auto simp: NLMSG_DONE_def NLMSG_ERROR_def Let_def)
  also have "\<dots> = Inr ((buf @ route_batch rs) @ route_batch (concat batches))"
    by (rule Cons.IH) (use Cons.prems l in auto)
  also have "(buf @ route_batch rs) @ route_batch (concat batches) = buf @ route_batch (concat (rs # batches))" by (simp add: route_batch_def)
  finally show ?case .
qed

text \<open>
  What the kernel answers the request with: batches of IPv4 routes of all its tables, with attributes of any types in any
  order and through any interfaces (only a route of table 254 has to name its destination, when the prefix is not empty,
  and its output interface), and a message that says it is done; they fit the buffer with a header to spare.
\<close>

definition kernel_dump :: "kernel_route list list \<Rightarrow> nl_recv list" where
  "kernel_dump batches = map (RecvData \<circ> route_batch) batches @ [RecvData done_message]"

definition batches_ok :: "(u32 \<Rightarrow> string option) \<Rightarrow> kernel_route list list \<Rightarrow> bool" where
  "batches_ok ifn batches \<longleftrightarrow> (\<forall>rs \<in> set batches. rs \<noteq> [] \<and> (\<forall>r \<in> set rs. route_ok ifn r)) \<and>
    length (route_batch (concat batches)) + 16 \<le> ROUTE_BATCH_SIZE"

lemma load_rtable_dump:
  assumes "batches_ok ifn batches"
  shows "load_rtable_from_kernel ifn True (kernel_dump batches) ifaces
    = Inr (length (route_entries ifn ifaces (concat batches)), route_entries ifn ifaces (concat batches))"
proof -
  have ok: "\<forall>r \<in> set (concat batches). route_ok ifn r" and ne: "[] \<notin> set batches"
    and len: "length (route_batch (concat batches)) + 16 \<le> ROUTE_BATCH_SIZE"
    using assms by (auto simp: batches_ok_def)
  show ?thesis
    using recv_batches[OF ne len, of "[]"] parse_routing_info_roundtrip[OF ok, of ifaces "[]"]
    by (simp add: load_rtable_from_kernel_def get_unparsed_route_info_def kernel_dump_def route_batch_def)
qed

section \<open>Properties\<close>

text \<open>
  C39: the routing table is the kernel's.  The kernel answers the dump request with batches of IPv4 routes of all its tables,
  with attributes of any types and lengths in any order and through any interfaces, and a message that says it is done; a route of table
  254 names its output interface, and its destination unless the prefix is empty.  If they fit the
  buffer with a header to spare, \<open>load_rtable_from_kernel\<close> leaves exactly one entry for each route of table 254
  through an interface of the router, in order, and none for any other message, with destination, mask of the prefix length and
  gateway (\<open>0\<close> when the route has none) in host byte order and the interface the kernel named, and counts these entries.
\<close>
theorem load_rtable_exact:
  assumes "batches_ok ifn batches"
  shows "load_rtable_from_kernel ifn True (map (RecvData \<circ> route_batch) batches @ [RecvData done_message]) ifaces
    = Inr (length (filter (own_route ifn ifaces) (concat batches)),
        map (entry_of_route ifn ifaces) (filter (own_route ifn ifaces) (concat batches)))"
  using load_rtable_dump[OF assms, of ifaces] by (simp add: kernel_dump_def route_entries_def)

text \<open>
  A dump with a default route, a route of the local table, a route with a metric and a priority between its attributes, and
  one through an interface the router does not have.
\<close>

definition example_dump :: "kernel_route list list" where
  "example_dump =
    (let route = \<lparr>kr_head = zeros 10, kr_table = 254, kr_len = 0, kr_rest = zeros 7, kr_attrs = []\<rparr> in
     [[route\<lparr>kr_attrs := [OtherAttr 15 [254, 0, 0, 0], GatewayAttr 0x0A000101, OifAttr 2]\<rparr>,
       route\<lparr>kr_table := 255, kr_len := 32, kr_attrs := [DstAttr 0x0A000102, OtherAttr 7 [10, 0, 1, 2]]\<rparr>],
      [route\<lparr>kr_len := 24, kr_attrs := [DstAttr 0x0A000200, OtherAttr 3 [1, 2, 3, 4, 5], OtherAttr 8 [7], OifAttr 2]\<rparr>,
       route\<lparr>kr_len := 16, kr_attrs := [DstAttr 0xAC110000, OifAttr 9]\<rparr>]])"

definition example_if_name :: "u32 \<Rightarrow> string option" where
  "example_if_name v = Some (if v = 2 then ''r1-eth0'' else ''docker0'')"

lemma example_dump_ok: "batches_ok example_if_name example_dump"
  by (auto simp: batches_ok_def example_dump_def route_ok_def attr_ok_def example_if_name_def ROUTE_BATCH_SIZE_def
      route_batch_def enc_route_def enc_attrs_def enc_attr_def align4_def Let_def)

theorem load_rtable_exact_witness:
  "load_rtable_from_kernel example_if_name True
     [RecvData (route_batch (example_dump ! 0)), RecvData (route_batch (example_dump ! 1)), RecvData done_message]
     [example_iface 1 0x0A000102] =
   Inr (2, [new_rt_entry 0 (prefix_mask 0) 0x0A000101 (example_iface 1 0x0A000102),
            new_rt_entry 0x0A000200 (prefix_mask 24) 0 (example_iface 1 0x0A000102)])"
  using load_rtable_exact[OF example_dump_ok, of "[example_iface 1 0x0A000102]"]
  by (simp add: example_dump_def own_route_def entry_of_route_def kr_dest_def kr_gw_def kr_oif_def example_if_name_def
      example_iface_def new_rt_entry_def Let_def)

text \<open>A table that does not fit ends the program; a batch behind the first bad one is not looked at.\<close>

lemma load_rtable_too_large:
  assumes "rs \<noteq> []" "ROUTE_BATCH_SIZE \<le> length (route_batch rs) + 15"
  shows "load_rtable_from_kernel ifn True (RecvData (route_batch rs) # rest) ifaces = Inl Exited"
proof -
  note t = batch_type[OF assms(1)]
  have "ld16 (take ROUTE_BATCH_SIZE (route_batch rs)) 4 = 24"
    using t by (simp add: ROUTE_BATCH_SIZE_def ld16_def ld8_def)
  moreover have "recv_routes n buf rest = Inl Exited" if "n < 16" for n buf using that by (cases rest) auto
  ultimately show ?thesis using assms t(2)
    by (auto simp: load_rtable_from_kernel_def get_unparsed_route_info_def NLMSG_DONE_def NLMSG_ERROR_def ROUTE_BATCH_SIZE_def Let_def)
qed

end
