(* ===== verification/Router_Start.thy ===== *)
theory Router_Start
  imports Device_Setup Rtable_Load Router
begin

text \<open>The \<open>main\<close> of lab 6: interfaces, ARP cache, routing table, and the receive loop.\<close>

text \<open>\<open>main\<close> up to the receive loop, and the loop.  \<open>uid\<close> and \<open>euid\<close> are the real and the effective user.\<close>

definition router_start ::
    "nat \<Rightarrow> nat \<Rightarrow> kernel \<Rightarrow> (u32 \<Rightarrow> string option) \<Rightarrow> bool \<Rightarrow> nl_recv list \<Rightarrow> 'a net_scheme \<Rightarrow> (ip_iface ustack \<times> 'a net_scheme) res" where
  "router_start uid euid kn if_index_to_name sent rs s =
    (if uid \<noteq> 0 \<and> euid \<noteq> 0 then Inl Exited
     else bind_res (init_ustack kn) (\<lambda>u.
       let s = arpcache_init (s\<lparr>net_ifaces := us_ifaces u\<rparr>);
           s = s\<lparr>net_rtable := init_rtable\<rparr>
       in bind_res (load_rtable_from_kernel if_index_to_name sent rs (net_ifaces s)) (\<lambda>(n, rtable).
         Inr (u, s\<lparr>net_rtable := rtable\<rparr>))))"

text \<open>
  From there the thread that \<open>arpcache_init\<close> started sweeps beside the loop: \<open>rounds\<close> holds the times of its rounds before each
  frame.
\<close>

definition arp_round :: "int \<Rightarrow> 'a net_scheme \<Rightarrow> 'a net_scheme res" where
  "arp_round now s = arpcache_sweep (s\<lparr>net_clock := now\<rparr>)"

definition router_main ::
    "nat \<Rightarrow> nat \<Rightarrow> kernel \<Rightarrow> (u32 \<Rightarrow> string option) \<Rightarrow> bool \<Rightarrow> nl_recv list \<Rightarrow> poll_event list \<Rightarrow> int list list \<Rightarrow>
     'a net_scheme \<Rightarrow> 'a net_scheme res" where
  "router_main uid euid kn if_index_to_name sent rs ps rounds s =
    bind_res (router_start uid euid kn if_index_to_name sent rs s) (\<lambda>(u, s).
    bind_res (ustack_run (beside arp_round router_handle_packet) (us_ifaces u) ps (rounds, s)) (threads_go_on arp_round))"

text \<open>What the kernel has to be for the router: hardware addresses are Ethernet's, and no descriptor is given twice.\<close>

definition kernel_ok :: "kernel \<Rightarrow> bool" where
  "kernel_ok kn \<longleftrightarrow> (\<forall>name mac. k_hwaddr kn name = Some mac \<longrightarrow> length mac = ETH_ALEN) \<and>
    inj_on (k_raw_socket kn) {n. 0 \<le> k_raw_socket kn n}"

text \<open>What \<open>main\<close> has set up when it enters the loop.\<close>

lemma router_start_wf:
  assumes "router_start uid euid kn ifn True (kernel_dump batches) s = Inr (u, t)" "kernel_ok kn"
    and "batches_ok ifn batches" "net_sent s = []"
  shows "init_ustack kn = Inr u" "net_ifaces t = us_ifaces u" "router_wf t"
    "net_rtable t = route_entries ifn (us_ifaces u) (concat batches)"
proof -
  let ?t = "s\<lparr>net_ifaces := us_ifaces u, arp_reqs := [], arp_entries := empty_cache,
    net_rtable := route_entries ifn (us_ifaces u) (concat batches)\<rparr>"
  show u: "init_ustack kn = Inr u"
    using assms(1) by (auto simp: router_start_def bind_res_Inr_conv Let_def split: if_splits)
  have t: "t = ?t"
    using assms(1) u load_rtable_dump[OF assms(3)]
    by (auto simp: router_start_def bind_res_Inr_conv Let_def arpcache_init_def empty_cache_def split: if_splits)
  have "length (if_mac i) = 6" if "i \<in> set (us_ifaces u)" for i
    using init_ustack_iface[OF u that] assms(2) by (auto simp: kernel_ok_def ETH_ALEN_def)
  moreover have "\<forall>e \<in> set (route_entries ifn (us_ifaces u) (concat batches)). rt_iface e \<in> set (us_ifaces u)"
    using route_entries_own by blast
  ultimately show "router_wf t" "net_ifaces t = us_ifaces u" "net_rtable t = route_entries ifn (us_ifaces u) (concat batches)"
    using assms(4) by (auto simp: t router_wf_def arp_wf_def empty_cache_inv)
qed

section \<open>Properties\<close>

text \<open>
  C11: the router from its start.  On a kernel that gives descriptors for its interfaces and answers the dump with routes of any tables
  through any interfaces, \<open>main\<close> enters the receive loop with the kernel's routes of table 254 through interfaces of
  the router.  From there, whatever
  frames arrive on the interfaces and whenever the sweep wakes up, as long as no packet makes the code read
  outside its buffer, the ARP layer stays well formed (the cache a partial map, one pending request per
  interface and address, sent at most five times and holding at least one packet with an Ethernet
  header), the routes stay as they were, and every frame that leaves does so on an interface that was
  found at the start, whose descriptor is its own.
\<close>
theorem router_from_start:
  assumes "init_ustack kn = Inr u" "kernel_ok kn" "batches_ok ifn batches" "uid = 0 \<or> euid = 0" "net_sent s = []"
  shows "\<exists>t. router_start uid euid kn ifn True (kernel_dump batches) s = Inr (u, t) \<and>
    (\<forall>evs t'. router_run evs t = Inr t' \<and> (\<forall>iface pkt. Received iface pkt \<in> set evs \<longrightarrow> iface \<in> set (us_ifaces u)) \<longrightarrow>
      router_wf t' \<and> net_rtable t' = route_entries ifn (us_ifaces u) (concat batches) \<and>
      (\<forall>(i, p) \<in> set (net_sent t'). 0 \<le> if_fd i \<and> fd_to_iface (us_ifaces u) (if_fd i) = Some i))"
proof -
  obtain t where t: "router_start uid euid kn ifn True (kernel_dump batches) s = Inr (u, t)"
    using assms(1,4) load_rtable_dump[OF assms(3)] by (auto simp: router_start_def arpcache_init_def)
  note wf = router_start_wf[OF t assms(2,3,5)]
  have "router_wf t' \<and> net_rtable t' = route_entries ifn (us_ifaces u) (concat batches) \<and>
      (\<forall>(i, p) \<in> set (net_sent t'). 0 \<le> if_fd i \<and> fd_to_iface (us_ifaces u) (if_fd i) = Some i)"
    if "router_run evs t = Inr t'" "\<forall>iface pkt. Received iface pkt \<in> set evs \<longrightarrow> iface \<in> set (us_ifaces u)" for evs t'
  proof -
    have t': "router_wf t'" "net_ifaces t' = us_ifaces u" "net_rtable t' = net_rtable t"
      using router_run_invariant[OF that(1) wf(3)] that(2) wf(2) by auto
    then have "\<forall>(i, p) \<in> set (net_sent t'). i \<in> set (us_ifaces u)" by (simp add: router_wf_def arp_wf_def)
    then show ?thesis using t' wf(4) init_ustack_iface(1)[OF assms(1)] init_ustack_fd[OF assms(1)] assms(2)
      by (fastforce simp: kernel_ok_def)
  qed
  with t show ?thesis by blast
qed

definition example_route :: kernel_route where
  "example_route = \<lparr>kr_head = zeros 10, kr_table = 254, kr_len = 0, kr_rest = zeros 7,
     kr_attrs = [OtherAttr 15 [254, 0, 0, 0], GatewayAttr 0x0A000101, OifAttr 3]\<rparr>"

theorem router_from_start_witness:
  "\<exists>u t. router_start 0 0 example_kernel (\<lambda>_. Some ''h1-eth1'') True
      (kernel_dump [[example_route]]) example_net = Inr (u, t) \<and>
    net_rtable t = [new_rt_entry 0 (prefix_mask 0) 0x0A000101 (us_ifaces u ! 1)] \<and> router_wf t"
proof -
  let ?rs = "[[example_route]]" and ?ifn = "\<lambda>_. Some ''h1-eth1''"
  obtain u where u: "init_ustack example_kernel = Inr u" "map if_name (us_ifaces u) = [''h1-eth0'', ''h1-eth1'']"
    using example_kernel_up by auto
  then obtain a b where ab: "us_ifaces u = [a, b]" "if_name a = ''h1-eth0''" "if_name b = ''h1-eth1''" by auto
  have k: "kernel_ok example_kernel"
    by (auto simp: kernel_ok_def example_kernel_def inj_on_def ETH_ALEN_def)
  have b: "batches_ok ?ifn ?rs"
    by (simp add: batches_ok_def route_ok_def attr_ok_def example_route_def ROUTE_BATCH_SIZE_def route_batch_def
        enc_route_def enc_attrs_def enc_attr_def align4_def)
  obtain t where t: "router_start 0 0 example_kernel ?ifn True (kernel_dump ?rs) example_net = Inr (u, t)"
    "\<forall>evs t'. router_run evs t = Inr t' \<and> (\<forall>iface pkt. Received iface pkt \<in> set evs \<longrightarrow> iface \<in> set (us_ifaces u)) \<longrightarrow>
      router_wf t' \<and> net_rtable t' = route_entries ?ifn (us_ifaces u) (concat ?rs)"
    using router_from_start[OF u(1) k b, of 0 0 example_net] by (auto simp: example_net_def)
  from t(2)[rule_format, of "[]" t] have "router_wf t" "net_rtable t = [new_rt_entry 0 (prefix_mask 0) 0x0A000101 b]"
    by (auto simp: route_entries_def own_route_def entry_of_route_def example_route_def kr_dest_def kr_gw_def kr_oif_def
        new_rt_entry_def ab Let_def)
  with t(1) ab show ?thesis by auto
qed

end
