(* ===== verification/Ether_Switch.thy ===== *)
theory Ether_Switch
  imports Device
begin

text \<open>
  The broadcast hub and the learning switch of lab 3: the MAC-to-port table of \<open>mac.c\<close> (a hash table
  of 256 buckets, each an intrusive list), its aging sweep, \<open>broadcast_packet\<close>, and the two
  \<open>handle_packet\<close> functions.  Frames given to \<open>iface_send_packet\<close> are appended to a log of what left
  on which interface.
\<close>

section \<open>State\<close>

definition MAC_PORT_TIMEOUT :: int where "MAC_PORT_TIMEOUT = 30"

record mac_port_entry =
  ent_mac :: bytes
  ent_iface :: iface_info
  ent_visited :: int

type_synonym mac_port_map = "u8 \<Rightarrow> mac_port_entry list"

record switch =
  sw_ifaces :: "iface_info list"
  sw_table :: mac_port_map
  sw_sent :: "(iface_info \<times> bytes) list"

definition hash8 :: "bytes \<Rightarrow> u8" where
  "hash8 buf = fold (\<lambda>b r. r XOR b) buf 0"

definition init_mac_port_table :: mac_port_map where
  "init_mac_port_table = (\<lambda>_. [])"

section \<open>The MAC table\<close>

definition lookup_port :: "mac_port_map \<Rightarrow> bytes \<Rightarrow> iface_info option" where
  "lookup_port t mac = map_option ent_iface (find (\<lambda>e. ent_mac e = mac) (t (hash8 mac)))"

text \<open>The first entry with the address is rewritten in place; with none, a new one goes in front.\<close>

fun refresh_entry :: "bytes \<Rightarrow> iface_info \<Rightarrow> mac_port_entry list \<Rightarrow> mac_port_entry list option" where
  "refresh_entry mac iface [] = None"
| "refresh_entry mac iface (e # es) =
    (if ent_mac e = mac
     then Some (e\<lparr>ent_iface := iface, ent_visited := MAC_PORT_TIMEOUT\<rparr> # es)
     else map_option (Cons e) (refresh_entry mac iface es))"

definition insert_mac_port :: "bytes \<Rightarrow> iface_info \<Rightarrow> mac_port_map \<Rightarrow> mac_port_map" where
  "insert_mac_port mac iface t =
    (let idx = hash8 mac in
     case refresh_entry mac iface (t idx) of
       Some es \<Rightarrow> t(idx := es)
     | None \<Rightarrow> t(idx := \<lparr>ent_mac = mac, ent_iface = iface, ent_visited = MAC_PORT_TIMEOUT\<rparr> # t idx))"

text \<open>One bucket of the sweep: count down, unlink at zero, report how many were unlinked.\<close>

definition age_entry :: "mac_port_entry \<Rightarrow> mac_port_entry" where
  "age_entry e = e\<lparr>ent_visited := ent_visited e - 1\<rparr>"

definition sweep_bucket :: "mac_port_entry list \<Rightarrow> mac_port_entry list" where
  "sweep_bucket es = filter (\<lambda>e. ent_visited e \<noteq> 0) (map age_entry es)"

definition swept_count :: "mac_port_entry list \<Rightarrow> nat" where
  "swept_count es = length (filter (\<lambda>e. ent_visited e = 0) (map age_entry es))"

definition sweep_aged_mac_port_entry :: "mac_port_map \<Rightarrow> nat \<times> mac_port_map" where
  "sweep_aged_mac_port_entry t =
    ((\<Sum>i \<leftarrow> [0..<256]. swept_count (t (of_nat i))), (\<lambda>i. sweep_bucket (t i)))"

definition destory_mac_port_table :: "mac_port_map \<Rightarrow> mac_port_map" where
  "destory_mac_port_table t = (\<lambda>i. [])"

text \<open>What \<open>dump_mac_port_table\<close> prints per entry: the address, the port name and an age.\<close>

definition dump_mac_port_table :: "int \<Rightarrow> mac_port_map \<Rightarrow> (bytes \<times> string \<times> int) list" where
  "dump_mac_port_table now t =
    concat (map (\<lambda>i. map (\<lambda>e. (ent_mac e, if_name (ent_iface e), now - ent_visited e)) (t (of_nat i)))
      [0..<256])"

section \<open>Forwarding\<close>

definition iface_send_packet :: "iface_info \<Rightarrow> bytes \<Rightarrow> switch \<Rightarrow> switch" where
  "iface_send_packet iface pkt s = s\<lparr>sw_sent := sw_sent s @ [(iface, pkt)]\<rparr>"

fun broadcast_loop :: "iface_info \<Rightarrow> bytes \<Rightarrow> iface_info list \<Rightarrow> switch \<Rightarrow> switch" where
  "broadcast_loop iface pkt [] s = s"
| "broadcast_loop iface pkt (entry # es) s =
    broadcast_loop iface pkt es
      (if if_fd entry \<noteq> if_fd iface then iface_send_packet entry pkt s else s)"

definition broadcast_packet :: "iface_info \<Rightarrow> bytes \<Rightarrow> switch \<Rightarrow> switch" where
  "broadcast_packet iface pkt s = broadcast_loop iface pkt (sw_ifaces s) s"

definition hub_handle_packet :: "iface_info \<Rightarrow> bytes \<Rightarrow> switch \<Rightarrow> switch res" where
  "hub_handle_packet iface pkt s = Inr (broadcast_packet iface pkt s)"

text \<open>
  The two halves of \<open>handle_packet\<close>, each of which takes the table's lock once.  A raw socket hands on whole frames with
  their header; a shorter one, for which the code reads what an earlier frame left in the buffer, is a fault here.
\<close>

definition forward_packet :: "iface_info \<Rightarrow> bytes \<Rightarrow> switch \<Rightarrow> switch" where
  "forward_packet iface pkt s =
    (case lookup_port (sw_table s) (ether_dhost pkt) of
       Some entry \<Rightarrow> iface_send_packet entry pkt s
     | None \<Rightarrow> broadcast_packet iface pkt s)"

definition learn_source :: "iface_info \<Rightarrow> bytes \<Rightarrow> switch \<Rightarrow> switch" where
  "learn_source iface pkt s = s\<lparr>sw_table := insert_mac_port (ether_shost pkt) iface (sw_table s)\<rparr>"

definition handle_packet :: "iface_info \<Rightarrow> bytes \<Rightarrow> switch \<Rightarrow> switch res" where
  "handle_packet iface pkt s =
    (if length pkt < ETHER_HDR_SIZE then Inl OutOfBounds
     else Inr (learn_source iface pkt (forward_packet iface pkt s)))"

definition hub_ustack_run :: "iface_info list \<Rightarrow> poll_event list \<Rightarrow> switch \<Rightarrow> switch res" where
  "hub_ustack_run = ustack_run hub_handle_packet"

text \<open>
  The sweeping thread that \<open>init_mac_port_table\<close> starts.  It takes the lock for each of its rounds, so rounds fall before a
  packet is handled and between the two halves.
\<close>

definition sweeping_mac_port_thread :: "switch \<Rightarrow> switch" where
  "sweeping_mac_port_thread s = s\<lparr>sw_table := snd (sweep_aged_mac_port_entry (sw_table s))\<rparr>"

definition sweep_round :: "unit \<Rightarrow> switch \<Rightarrow> switch res" where
  "sweep_round _ s = Inr (sweeping_mac_port_thread s)"

definition swept_handle_packet :: "iface_info \<Rightarrow> bytes \<Rightarrow> unit list list \<times> switch \<Rightarrow> (unit list list \<times> switch) res" where
  "swept_handle_packet iface pkt ds =
    bind_res (catch_up sweep_round ds) (\<lambda>(due, s).
      if length pkt < ETHER_HDR_SIZE then Inl OutOfBounds
      else bind_res (catch_up sweep_round (due, forward_packet iface pkt s)) (\<lambda>(due, s).
        Inr (due, learn_source iface pkt s)))"

definition switch_ustack_run :: "iface_info list \<Rightarrow> poll_event list \<Rightarrow> unit list list \<Rightarrow> switch \<Rightarrow> switch res" where
  "switch_ustack_run ifs ps due s =
    bind_res (ustack_run swept_handle_packet ifs ps (due, s)) (threads_go_on sweep_round)"

section \<open>The table as a map\<close>

text \<open>
  The invariant: an entry sits in the bucket its address hashes to, no address occurs twice in a
  bucket, and every counter is between 1 and \<open>MAC_PORT_TIMEOUT\<close>.
\<close>

definition table_inv :: "mac_port_map \<Rightarrow> bool" where
  "table_inv t \<longleftrightarrow> (\<forall>i. distinct (map ent_mac (t i))
     \<and> (\<forall>e \<in> set (t i). hash8 (ent_mac e) = i \<and> 0 < ent_visited e \<and> ent_visited e \<le> MAC_PORT_TIMEOUT))"

lemma refresh_entry_None: "refresh_entry mac iface es = None \<longleftrightarrow> mac \<notin> ent_mac ` set es"
  by (induction es) auto

lemma refresh_entry_Some:
  "refresh_entry mac iface es = Some es' \<Longrightarrow> map ent_mac es' = map ent_mac es \<and>
    (\<forall>e' \<in> set es'. e' \<in> set es \<or> (ent_mac e' = mac \<and> ent_visited e' = MAC_PORT_TIMEOUT)) \<and>
    find (\<lambda>e. ent_mac e = m) es' = (if m = mac
      then map_option (\<lambda>e. e\<lparr>ent_iface := iface, ent_visited := MAC_PORT_TIMEOUT\<rparr>) (find (\<lambda>e. ent_mac e = m) es)
      else find (\<lambda>e. ent_mac e = m) es) \<and> mac \<in> ent_mac ` set es"
  by (induction es arbitrary: es') (auto split: if_splits)

lemma find_mac_Some: "m \<in> ent_mac ` set es \<Longrightarrow> \<exists>e. find (\<lambda>e. ent_mac e = m) es = Some e"
  by (induction es) auto

lemma table_inv_init: "table_inv init_mac_port_table"
  by (simp add: table_inv_def init_mac_port_table_def)

lemma table_inv_insert:
  assumes "table_inv t"
  shows "table_inv (insert_mac_port mac iface t)"
proof (cases "refresh_entry mac iface (t (hash8 mac))")
  case None
  then have "mac \<notin> ent_mac ` set (t (hash8 mac))" by (simp add: refresh_entry_None)
  with None assms show ?thesis
    by (auto simp: table_inv_def insert_mac_port_def Let_def MAC_PORT_TIMEOUT_def)
next
  case (Some es)
  note r = refresh_entry_Some[OF Some]
  have "set es \<subseteq> set (t (hash8 mac)) \<union> {e. ent_mac e = mac \<and> ent_visited e = MAC_PORT_TIMEOUT}"
    and "map ent_mac es = map ent_mac (t (hash8 mac))"
    using r by auto
  then show ?thesis using assms Some
    by (auto simp: table_inv_def insert_mac_port_def Let_def MAC_PORT_TIMEOUT_def)
qed

lemma table_inv_sweep:
  assumes "table_inv t"
  shows "table_inv (snd (sweep_aged_mac_port_entry t))"
proof -
  have "distinct (map ent_mac (sweep_bucket es))" if "distinct (map ent_mac es)" for es
    using that by (induction es) (auto simp: sweep_bucket_def age_entry_def)
  then show ?thesis using assms
    by (fastforce simp: table_inv_def sweep_aged_mac_port_entry_def sweep_bucket_def age_entry_def)
qed

lemma lookup_insert:
  "lookup_port (insert_mac_port mac iface t) m = (if m = mac then Some iface else lookup_port t m)"
proof (cases "refresh_entry mac iface (t (hash8 mac))")
  case None
  then show ?thesis by (auto simp: lookup_port_def insert_mac_port_def Let_def)
next
  case (Some es)
  from refresh_entry_Some[OF Some, of m] find_mac_Some[of mac "t (hash8 mac)"] Some
  show ?thesis by (auto simp: lookup_port_def insert_mac_port_def Let_def)
qed

text \<open>Ticks left before the entry of an address goes; \<open>0\<close> when there is none.\<close>

definition ticks_left :: "mac_port_map \<Rightarrow> bytes \<Rightarrow> int" where
  "ticks_left t mac =
    (case find (\<lambda>e. ent_mac e = mac) (t (hash8 mac)) of None \<Rightarrow> 0 | Some e \<Rightarrow> ent_visited e)"

definition sweep :: "mac_port_map \<Rightarrow> mac_port_map" where
  "sweep t = snd (sweep_aged_mac_port_entry t)"

lemma ticks_left_insert:
  "ticks_left (insert_mac_port mac iface t) m = (if m = mac then MAC_PORT_TIMEOUT else ticks_left t m)"
proof (cases "refresh_entry mac iface (t (hash8 mac))")
  case None
  then show ?thesis by (auto simp: ticks_left_def insert_mac_port_def Let_def)
next
  case (Some es)
  from refresh_entry_Some[OF Some, of m] find_mac_Some[of mac "t (hash8 mac)"] Some
  show ?thesis by (auto simp: ticks_left_def insert_mac_port_def Let_def)
qed

lemma find_sweep_bucket:
  assumes "distinct (map ent_mac es)"
  shows "find (\<lambda>e. ent_mac e = m) (sweep_bucket es) =
    (case find (\<lambda>e. ent_mac e = m) es of None \<Rightarrow> None
     | Some e \<Rightarrow> if ent_visited e = 1 then None else Some (age_entry e))"
  using assms
proof (induction es)
  case (Cons e es)
  have "find (\<lambda>e. ent_mac e = m) es = None" if "m \<notin> ent_mac ` set es"
    using that by (induction es) auto
  with Cons show ?case by (auto simp: sweep_bucket_def age_entry_def split: option.splits)
qed (simp add: sweep_bucket_def)

lemma lookup_ticks:
  assumes "table_inv t"
  shows "lookup_port t m = None \<longleftrightarrow> ticks_left t m \<le> 0"
proof (cases "find (\<lambda>e. ent_mac e = m) (t (hash8 m))")
  case (Some e)
  then have "e \<in> set (t (hash8 m))" by (auto simp: find_Some_iff)
  with assms have "0 < ent_visited e" by (auto simp: table_inv_def)
  with Some show ?thesis by (simp add: lookup_port_def ticks_left_def)
qed (simp add: lookup_port_def ticks_left_def)

lemma ticks_left_sweep:
  "table_inv t \<Longrightarrow> ticks_left (sweep t) m = (if ticks_left t m \<le> 0 then 0 else ticks_left t m - 1)"
  using lookup_ticks[of t m]
  by (auto simp: ticks_left_def sweep_def sweep_aged_mac_port_entry_def find_sweep_bucket
      table_inv_def age_entry_def lookup_port_def split: option.splits)

lemma lookup_sweep:
  "table_inv t \<Longrightarrow> lookup_port (sweep t) m = (if ticks_left t m \<le> 1 then None else lookup_port t m)"
  using lookup_ticks[of t m]
  by (auto simp: ticks_left_def sweep_def sweep_aged_mac_port_entry_def find_sweep_bucket
      table_inv_def age_entry_def lookup_port_def split: option.splits)

section \<open>The interface the forwarding code uses\<close>

text \<open>
  A port table: what \<open>handle_packet\<close> and the sweeping thread need of it.  An address is learned on a
  port, each tick of the sweep takes one off its remaining lifetime, and it is known exactly while
  some lifetime is left.
\<close>

datatype ('m, 'p) table_op = Learn 'm 'p | Tick

locale port_table =
  fixes lookup :: "'t \<Rightarrow> 'm \<Rightarrow> 'p option"
    and insert :: "'m \<Rightarrow> 'p \<Rightarrow> 't \<Rightarrow> 't"
    and age :: "'t \<Rightarrow> 't"
    and left :: "'t \<Rightarrow> 'm \<Rightarrow> int"
    and life :: int
    and inv :: "'t \<Rightarrow> bool"
  assumes life_pos: "0 < life"
    and lookup_insert: "lookup (insert m p t) m' = (if m' = m then Some p else lookup t m')"
    and left_insert: "left (insert m p t) m' = (if m' = m then life else left t m')"
    and left_age: "inv t \<Longrightarrow> left (age t) m = (if left t m \<le> 0 then 0 else left t m - 1)"
    and lookup_age: "inv t \<Longrightarrow> lookup (age t) m = (if left t m \<le> 1 then None else lookup t m)"
    and inv_insert: "inv t \<Longrightarrow> inv (insert m p t)"
    and inv_age: "inv t \<Longrightarrow> inv (age t)"
begin

primrec apply_op :: "('m, 'p) table_op \<Rightarrow> 't \<Rightarrow> 't" where
  "apply_op (Learn m p) t = insert m p t"
| "apply_op Tick t = age t"

definition apply_ops :: "('m, 'p) table_op list \<Rightarrow> 't \<Rightarrow> 't" where
  "apply_ops ops t = fold apply_op ops t"

lemma inv_ops: "inv t \<Longrightarrow> inv (apply_ops ops t)"
  unfolding apply_ops_def
proof (induction ops arbitrary: t)
  case (Cons a ops)
  then show ?case by (cases a) (auto simp: inv_insert inv_age)
qed simp

lemma known_while_fresh:
  assumes "inv t" "lookup t m = Some p" "\<forall>q. Learn m q \<notin> set ops"
    and "int (count_list ops Tick) < left t m"
  shows "lookup (apply_ops ops t) m = Some p \<and>
    left (apply_ops ops t) m = left t m - int (count_list ops Tick)"
  using assms unfolding apply_ops_def
proof (induction ops arbitrary: t)
  case (Cons a ops)
  show ?case
  proof (cases a)
    case (Learn m' p')
    then show ?thesis using Cons by (auto simp: lookup_insert left_insert inv_insert)
  next
    case Tick
    then show ?thesis using Cons.prems Cons.IH[of "age t"]
      by (auto simp: lookup_age left_age inv_age)
  qed
qed simp

lemma forgotten_when_stale:
  assumes "inv t" "\<forall>q. Learn m q \<notin> set ops" "left t m \<le> int (count_list ops Tick)"
    and "lookup t m \<noteq> None \<longrightarrow> 0 < left t m"
  shows "lookup (apply_ops ops t) m = None"
  using assms unfolding apply_ops_def
proof (induction ops arbitrary: t)
  case (Cons a ops)
  show ?case
  proof (cases a)
    case (Learn m' p')
    then show ?thesis using Cons by (auto simp: lookup_insert left_insert inv_insert)
  next
    case Tick
    then show ?thesis using Cons.prems Cons.IH[of "age t"]
      by (auto simp: lookup_age left_age inv_age split: if_splits)
  qed
qed auto

lemma learned_lifetime:
  assumes "inv t" "\<forall>q. Learn m q \<notin> set ops"
  shows "lookup (apply_ops ops (insert m p t)) m =
    (if int (count_list ops Tick) < life then Some p else None)"
  using known_while_fresh[of "insert m p t" m p ops] forgotten_when_stale[of "insert m p t" m ops]
    assms life_pos by (auto simp: inv_insert lookup_insert left_insert)

end

interpretation pt: port_table lookup_port insert_mac_port sweep ticks_left MAC_PORT_TIMEOUT table_inv
proof
  show "0 < MAC_PORT_TIMEOUT" by (simp add: MAC_PORT_TIMEOUT_def)
qed (auto simp: lookup_insert ticks_left_insert ticks_left_sweep lookup_sweep table_inv_insert
      table_inv_sweep[folded sweep_def])

section \<open>Runs of the switch\<close>

text \<open>The receive loop and the sweeping thread take turns under the table's lock.\<close>

datatype switch_op = Frame iface_info bytes | Sweep

fun switch_run :: "switch_op list \<Rightarrow> switch \<Rightarrow> switch res" where
  "switch_run [] s = Inr s"
| "switch_run (Frame iface pkt # ops) s = bind_res (handle_packet iface pkt s) (switch_run ops)"
| "switch_run (Sweep # ops) s = switch_run ops (sweeping_mac_port_thread s)"

text \<open>What an operation means for the table.\<close>

fun table_op_of :: "switch_op \<Rightarrow> (bytes, iface_info) table_op" where
  "table_op_of (Frame iface pkt) = Learn (ether_shost pkt) iface"
| "table_op_of Sweep = Tick"

lemma broadcast_loop_sent:
  "sw_sent (broadcast_loop iface pkt es s) =
     sw_sent s @ map (\<lambda>i. (i, pkt)) (filter (\<lambda>i. if_fd i \<noteq> if_fd iface) es)
   \<and> sw_table (broadcast_loop iface pkt es s) = sw_table s
   \<and> sw_ifaces (broadcast_loop iface pkt es s) = sw_ifaces s"
  by (induction es arbitrary: s) (auto simp: iface_send_packet_def)

lemma handle_packet_table:
  "handle_packet iface pkt s = Inr s' \<Longrightarrow>
    sw_table s' = insert_mac_port (ether_shost pkt) iface (sw_table s) \<and> sw_ifaces s' = sw_ifaces s"
  by (auto simp: handle_packet_def forward_packet_def learn_source_def Let_def iface_send_packet_def broadcast_packet_def
      broadcast_loop_sent split: if_splits option.splits)

lemma sweeping_table: "sw_table (sweeping_mac_port_thread s) = sweep (sw_table s)"
  by (simp add: sweeping_mac_port_thread_def sweep_def)

lemma switch_run_table:
  "switch_run ops s = Inr s' \<Longrightarrow>
    sw_table s' = pt.apply_ops (map table_op_of ops) (sw_table s)"
  unfolding pt.apply_ops_def
proof (induction ops arbitrary: s)
  case (Cons a ops)
  then show ?case
    by (cases a) (auto simp: bind_res_Inr_conv handle_packet_table sweeping_table)
qed simp

lemma count_Tick: "count_list (map table_op_of ops) Tick = count_list ops Sweep"
proof (induction ops)
  case (Cons a ops)
  then show ?case by (cases a) auto
qed simp

lemma Learn_table_op:
  "Learn m q \<in> table_op_of ` set ops \<longleftrightarrow> (\<exists>pkt. Frame q pkt \<in> set ops \<and> ether_shost pkt = m)"
proof -
  have "table_op_of x = Learn m q \<longleftrightarrow> (\<exists>pkt. x = Frame q pkt \<and> ether_shost pkt = m)" for x
    by (cases x) auto
  then show ?thesis by (auto simp: image_iff) metis+
qed

section \<open>Properties\<close>

text \<open>
  C31: what the switch does with a frame.  A frame whose destination address is in the table leaves
  once, on the learned port; any other frame leaves once on every port but the one it came in on.
  The log of sent frames grows by exactly that.  Afterwards the source address is known on the
  ingress port and every other address is as before.
\<close>
theorem handle_packet_forwards:
  assumes "ETHER_HDR_SIZE \<le> length pkt"
  shows "\<exists>s'. handle_packet iface pkt s = Inr s' \<and>
    sw_sent s' = sw_sent s @ (case lookup_port (sw_table s) (ether_dhost pkt) of
        Some p \<Rightarrow> [(p, pkt)]
      | None \<Rightarrow> map (\<lambda>i. (i, pkt)) (filter (\<lambda>i. if_fd i \<noteq> if_fd iface) (sw_ifaces s))) \<and>
    (\<forall>m. lookup_port (sw_table s') m =
      (if m = ether_shost pkt then Some iface else lookup_port (sw_table s) m))"
  using assms
  by (auto simp: handle_packet_def forward_packet_def learn_source_def Let_def iface_send_packet_def broadcast_packet_def
      broadcast_loop_sent lookup_insert not_less split: option.splits)

definition example_port :: "int \<Rightarrow> iface_info" where
  "example_port n = \<lparr>if_fd = n, if_index = n, if_mac = replicate 6 (of_int n), if_name = ''eth''\<rparr>"

definition example_switch :: switch where
  "example_switch = \<lparr>sw_ifaces = map example_port [1, 2, 3], sw_table = init_mac_port_table, sw_sent = []\<rparr>"

definition example_frame :: "u8 \<Rightarrow> u8 \<Rightarrow> bytes" where
  "example_frame dst src = replicate 6 dst @ replicate 6 src @ [8, 0]"

theorem handle_packet_forwards_witness:
  "\<exists>s'. handle_packet (example_port 1) (example_frame 9 7) example_switch = Inr s' \<and>
    sw_sent s' = [(example_port 2, example_frame 9 7), (example_port 3, example_frame 9 7)]"
  using handle_packet_forwards[of "example_frame 9 7" "example_port 1" example_switch]
  by (auto simp: ETHER_HDR_SIZE_def example_frame_def example_switch_def lookup_port_def
      init_mac_port_table_def example_port_def)

text \<open>
  C19: learning and aging over a whole run.  After a frame from a station came in on a port, whatever
  other frames and sweeps follow, as long as the station itself sends nothing more, its address is
  known on exactly that port until the thirtieth sweep, and unknown from the thirtieth sweep on.
\<close>
theorem switch_learns_and_ages:
  assumes "table_inv (sw_table s)" "handle_packet iface pkt s = Inr s1"
    and "switch_run ops s1 = Inr s2"
    and "\<forall>i p. Frame i p \<in> set ops \<longrightarrow> ether_shost p \<noteq> ether_shost pkt"
  shows "lookup_port (sw_table s2) (ether_shost pkt) =
    (if count_list ops Sweep < 30 then Some iface else None)"
proof -
  have "\<forall>q. Learn (ether_shost pkt) q \<notin> set (map table_op_of ops)"
    using assms(4) by (auto simp: Learn_table_op)
  from pt.learned_lifetime[OF assms(1) this, of iface] show ?thesis
    using switch_run_table[OF assms(3)] handle_packet_table[OF assms(2)]
    by (simp add: count_Tick MAC_PORT_TIMEOUT_def)
qed

lemma example_switch_step:
  "\<exists>s1. handle_packet (example_port 1) (example_frame 9 7) example_switch = Inr s1"
  by (simp add: handle_packet_def forward_packet_def learn_source_def Let_def example_frame_def ETHER_HDR_SIZE_def)

lemma count_list_replicate_Sweep: "count_list (replicate n Sweep) Sweep = n"
  by (induction n) auto

theorem switch_learns_and_ages_witness:
  "\<exists>s1 s2. handle_packet (example_port 1) (example_frame 9 7) example_switch = Inr s1 \<and>
    switch_run (replicate 29 Sweep) s1 = Inr s2 \<and>
    lookup_port (sw_table s2) (replicate 6 7) = Some (example_port 1)"
proof -
  obtain s1 where s1: "handle_packet (example_port 1) (example_frame 9 7) example_switch = Inr s1"
    using example_switch_step by blast
  have run: "\<exists>s2. switch_run (replicate n Sweep) s = Inr s2" for n s
    by (induction n arbitrary: s) auto
  then obtain s2 where s2: "switch_run (replicate 29 Sweep) s1 = Inr s2" by blast
  have inv: "table_inv (sw_table example_switch)"
    by (simp add: example_switch_def table_inv_init)
  have src: "ether_shost (example_frame 9 7) = replicate 6 7"
    by (simp add: ether_shost_def example_frame_def slice_def ETH_ALEN_def)
  show ?thesis
    using switch_learns_and_ages[OF inv s1 s2] s1 s2 src by (auto simp: count_list_replicate_Sweep)
qed

text \<open>
  Invariant of the receive loop.  From a table that is well formed and only names ports of the
  switch, any run of \<open>ustack_run\<close> over its ports, with any rounds of the sweeping thread beside it, keeps
  the table well formed (every entry in its
  hash bucket, no address twice, every counter between 1 and 30), keeps every learned port one of
  the switch's own, and sends only on those.
\<close>

definition ports_inv :: "iface_info list \<Rightarrow> switch \<Rightarrow> bool" where
  "ports_inv ifs s \<longleftrightarrow> sw_ifaces s = ifs \<and> table_inv (sw_table s)
    \<and> (\<forall>m p. lookup_port (sw_table s) m = Some p \<longrightarrow> p \<in> set ifs)
    \<and> (\<forall>(i, pkt) \<in> set (sw_sent s). i \<in> set ifs)"

lemma ports_inv_sweep: "ports_inv ifs s \<Longrightarrow> sweep_round e s = Inr t \<Longrightarrow> ports_inv ifs t"
  using table_inv_sweep[folded sweep_def, of "sw_table s"] lookup_sweep[of "sw_table s"] sweeping_table[of s]
  by (auto simp: ports_inv_def sweep_round_def sweeping_mac_port_thread_def split: if_splits)

lemma ports_inv_forward: "ports_inv ifs s \<Longrightarrow> ports_inv ifs (forward_packet iface pkt s)"
  by (auto simp: ports_inv_def forward_packet_def iface_send_packet_def broadcast_packet_def broadcast_loop_sent
      split: option.splits)

lemma ports_inv_learn:
  "ports_inv ifs s \<Longrightarrow> iface \<in> set ifs \<Longrightarrow> ETHER_HDR_SIZE \<le> length pkt \<Longrightarrow> ports_inv ifs (learn_source iface pkt s)"
  by (auto simp: ports_inv_def learn_source_def table_inv_insert lookup_insert split: if_splits)

lemma swept_handle_packet_invariant:
  assumes "swept_handle_packet iface pkt ds = Inr ds'" "ports_inv ifs (snd ds)" "iface \<in> set ifs"
  shows "ports_inv ifs (snd ds')"
proof -
  obtain due s where ds: "ds = (due, s)" by (cases ds)
  from assms(1) obtain d1 where d1: "catch_up sweep_round (due, s) = Inr d1"
    by (auto simp: swept_handle_packet_def ds bind_res_Inr_conv)
  obtain due1 s1 where e1: "d1 = (due1, s1)" by (cases d1)
  from assms(1) d1 e1 obtain d2 where d2: "ETHER_HDR_SIZE \<le> length pkt"
    "catch_up sweep_round (due1, forward_packet iface pkt s1) = Inr d2"
    by (auto simp: swept_handle_packet_def ds bind_res_Inr_conv split: if_splits)
  obtain due2 s2 where e2: "d2 = (due2, s2)" by (cases d2)
  have *: "catch_up sweep_round (due, s) = Inr (due1, s1)"
    "ETHER_HDR_SIZE \<le> length pkt" "catch_up sweep_round (due1, forward_packet iface pkt s1) = Inr (due2, s2)"
    "ds' = (due2, learn_source iface pkt s2)"
    using assms(1) d1 d2 e1 e2 by (simp_all add: swept_handle_packet_def ds)
  have "ports_inv ifs s" using assms(2) ds by simp
  from catch_up_invariant[where P = "ports_inv ifs", OF *(1) this ports_inv_sweep] have "ports_inv ifs s1" .
  from catch_up_invariant[where P = "ports_inv ifs", OF *(3) ports_inv_forward[OF this] ports_inv_sweep] have "ports_inv ifs s2" .
  then show ?thesis using ports_inv_learn[OF _ assms(3) *(2)] *(4) by simp
qed

lemma switch_ustack_run_invariant:
  assumes "switch_ustack_run ifs ps due s = Inr t" "ports_inv ifs s"
  shows "ports_inv ifs t"
proof -
  from assms(1) obtain ds where ds: "ustack_run swept_handle_packet ifs ps (due, s) = Inr ds" "threads_go_on sweep_round ds = Inr t"
    by (auto simp: switch_ustack_run_def bind_res_Inr_conv)
  have "ports_inv ifs (snd ds)"
    by (rule ustack_run_invariant[OF ds(1), where P = "\<lambda>ds. ports_inv ifs (snd ds)"])
      (simp add: assms(2), rule swept_handle_packet_invariant)
  from threads_go_on_invariant[where P = "ports_inv ifs", OF ds(2) this ports_inv_sweep] show ?thesis .
qed

end
