(* ===== verification/Stp.thy ===== *)
theory Stp
  imports Device
begin

text \<open>
  The spanning tree protocol of lab 4: \<open>stp.c\<close> and \<open>stp_timer.c\<close>, the message format of \<open>stp_proto.h\<close> and
  \<open>handle_packet\<close> of its \<open>main.c\<close>.  Ports are numbered by their position in \<open>stp->ports\<close>, which is also the
  position of their interface in the interface list, so that the pointers to ports
  (\<open>stp->root_port\<close>, \<open>iface->port\<close>) are positions, and the loops over the interfaces run over the ports.
  \<open>int\<close> costs are compared with \<open>u32\<close> ones in the code, as unsigned numbers; they are kept as \<open>u32\<close>.
  Frames given to \<open>iface_send_packet\<close> are logged.  The lock makes handling a packet and a round of the
  timer thread atomic.
\<close>

section \<open>State\<close>

record stp_timer =
  tmr_active :: bool
  tmr_time :: int
  tmr_timeout :: int

record stp_port =
  pt_id :: int
  pt_name :: string
  pt_iface :: iface_info
  pt_path_cost :: u32
  pt_root :: u64
  pt_switch :: u64
  pt_port :: int
  pt_cost :: u32

record stp =
  br_id :: u64
  br_root :: u64
  br_cost :: u32
  br_root_port :: "nat option"
  br_hello :: stp_timer
  br_ports :: "stp_port list"
  br_iface_port :: "iface_info \<Rightarrow> nat option"
  br_clock :: int
  br_sent :: "(iface_info \<times> bytes) list"

definition STP_MAX_PORTS :: nat where "STP_MAX_PORTS = 32"
definition STP_BRIDGE_PRIORITY :: u64 where "STP_BRIDGE_PRIORITY = 32768"
definition STP_PORT_PRIORITY :: int where "STP_PORT_PRIORITY = 128"
definition STP_MAX_AGE :: u16 where "STP_MAX_AGE = 5120"
definition STP_HELLO_TIME :: int where "STP_HELLO_TIME = 512"
definition STP_FWD_DELAY :: u16 where "STP_FWD_DELAY = 3840"
definition LLC_HDR_SIZE :: nat where "LLC_HDR_SIZE = 3"
definition STP_CONFIG_SIZE :: nat where "STP_CONFIG_SIZE = 35"
definition STP_HEADER_SIZE :: nat where "STP_HEADER_SIZE = 4"
definition STP_TYPE_CONFIG :: u8 where "STP_TYPE_CONFIG = 0"
definition STP_TYPE_TCN :: u8 where "STP_TYPE_TCN = 0x80"
definition eth_stp_addr :: bytes where "eth_stp_addr = [0x01, 0x80, 0xC2, 0x00, 0x00, 0x01]"

lemmas stp_consts = STP_MAX_PORTS_def STP_BRIDGE_PRIORITY_def STP_PORT_PRIORITY_def STP_MAX_AGE_def STP_HELLO_TIME_def
  STP_FWD_DELAY_def LLC_HDR_SIZE_def STP_CONFIG_SIZE_def STP_HEADER_SIZE_def STP_TYPE_CONFIG_def STP_TYPE_TCN_def
  ETHER_HDR_SIZE_def

section \<open>Eight-byte fields\<close>

text \<open>Fields of type \<open>u64\<close>, stored little endian, and \<open>htonll\<close>.\<close>

definition ld64 :: "bytes \<Rightarrow> nat \<Rightarrow> u64" where
  "ld64 b i = ucast (ld32 b i) OR push_bit 32 (ucast (ld32 b (i + 4)))"

definition st64 :: "bytes \<Rightarrow> nat \<Rightarrow> u64 \<Rightarrow> bytes" where
  "st64 b i v = st32 (st32 b i (ucast v)) (i + 4) (ucast (drop_bit 32 v))"

definition htonll :: "u64 \<Rightarrow> u64" where
  "htonll v = push_bit 32 (ucast (htonl (ucast v))) OR ucast (htonl (ucast (drop_bit 32 v)))"

definition ntohll :: "u64 \<Rightarrow> u64" where
  "ntohll v = htonll v"

lemma ucast_words64:
  "ucast (ucast v :: u32) OR push_bit 32 (ucast (ucast (drop_bit 32 v) :: u32)) = (v :: u64)"
  by (rule bit_word_eqI) (auto simp: bit_simps not_less le_diff_conv)

lemma htonll_halves: "ucast (htonll v) = htonl (ucast (drop_bit 32 v))" "ucast (drop_bit 32 (htonll v)) = htonl (ucast v)"
  unfolding htonll_def
  by (rule bit_word_eqI; auto simp: bit_simps not_less dest: bit_imp_le_length)+

lemma ntohll_htonll [simp]: "ntohll (htonll v) = v"
proof -
  have "ntohll (htonll v) = push_bit 32 (ucast (ucast (drop_bit 32 v) :: u32)) OR ucast (ucast v :: u32)"
    unfolding ntohll_def htonll_def[of "htonll v"] htonll_halves by simp
  with ucast_words64[of v] show ?thesis by (simp add: or.commute)
qed

lemma length_st64 [simp]: "length (st64 b i v) = length b"
  by (simp add: st64_def)

lemma ld64_st64_same [bytes_simps]: "i + 7 < length b \<Longrightarrow> ld64 (st64 b i v) i = v"
  by (simp add: ld64_def st64_def ld32_st32_same ld32_st32_other ucast_words64)

lemma ld_st64 [bytes_simps]:
  "j < i \<or> i + 7 < j \<Longrightarrow> ld8 (st64 b i v) j = ld8 b j"
  "j + 1 < i \<or> i + 7 < j \<Longrightarrow> ld16 (st64 b i v) j = ld16 b j"
  "j + 3 < i \<or> i + 7 < j \<Longrightarrow> ld32 (st64 b i v) j = ld32 b j"
  "j + 7 < i \<or> i + 7 < j \<Longrightarrow> ld64 (st64 b i v) j = ld64 b j"
  by (auto simp: st64_def ld64_def ld8_st32 ld16_st32 ld32_st32_other)

lemma ld64_st [bytes_simps]:
  "j + 7 < i \<or> i < j \<Longrightarrow> ld64 (st8 b i v8) j = ld64 b j"
  "j + 7 < i \<or> i + 1 < j \<Longrightarrow> ld64 (st16 b i v16) j = ld64 b j"
  "j + 7 < i \<or> i + 3 < j \<Longrightarrow> ld64 (st32 b i v32) j = ld64 b j"
  by (auto simp: ld64_def ld32_st8 ld32_st16 ld32_st32_other)

section \<open>Roles\<close>

definition stp_is_root_switch :: "stp \<Rightarrow> bool" where
  "stp_is_root_switch s \<longleftrightarrow> br_root s = br_id s"

definition stp_port_is_designated :: "stp \<Rightarrow> stp_port \<Rightarrow> bool" where
  "stp_port_is_designated s p \<longleftrightarrow> pt_switch p = br_id s \<and> pt_port p = pt_id p"

definition stp_port_state :: "stp \<Rightarrow> stp_port \<Rightarrow> string" where
  "stp_port_state s p =
    (if \<exists>r \<in> set_option (br_root_port s). pt_id p = pt_id (br_ports s ! r) then ''ROOT''
     else if stp_port_is_designated s p then ''DESIGNATED'' else ''ALTERNATE'')"

section \<open>Sending\<close>

definition stp_iface_send_packet :: "iface_info \<Rightarrow> bytes \<Rightarrow> stp \<Rightarrow> stp" where
  "stp_iface_send_packet iface pkt s = s\<lparr>br_sent := br_sent s @ [(iface, pkt)]\<rparr>"

definition stp_frame :: "stp_port \<Rightarrow> bytes \<Rightarrow> bytes" where
  "stp_frame p msg =
    (let pkt_len = ETHER_HDR_SIZE + LLC_HDR_SIZE + length msg;
         pkt = zeros pkt_len;
         pkt = blit pkt 0 eth_stp_addr;
         pkt = blit pkt 6 (if_mac (pt_iface p));
         pkt = st16 pkt 12 (htons (of_nat (pkt_len - ETHER_HDR_SIZE)));
         pkt = st8 pkt 14 0x42;
         pkt = st8 pkt 15 0x42;
         pkt = st8 pkt 16 3
     in blit pkt (ETHER_HDR_SIZE + LLC_HDR_SIZE) msg)"

definition stp_port_send_packet :: "stp_port \<Rightarrow> bytes \<Rightarrow> stp \<Rightarrow> stp" where
  "stp_port_send_packet p msg s = stp_iface_send_packet (pt_iface p) (stp_frame p msg) s"

definition stp_config_msg :: "stp \<Rightarrow> stp_port \<Rightarrow> bytes" where
  "stp_config_msg s p =
    (let c = zeros STP_CONFIG_SIZE;
         c = st16 c 0 (htons 0);
         c = st8 c 2 0;
         c = st8 c 3 STP_TYPE_CONFIG;
         c = st8 c 4 0;
         c = st64 c 5 (htonll (br_root s));
         c = st32 c 13 (htonl (br_cost s));
         c = st64 c 17 (htonll (br_id s));
         c = st16 c 25 (htons (of_int (pt_id p)));
         c = st16 c 27 (htons 0);
         c = st16 c 29 (htons STP_MAX_AGE);
         c = st16 c 31 (htons (of_int STP_HELLO_TIME))
     in st16 c 33 (htons STP_FWD_DELAY))"

definition stp_port_send_config :: "stp_port \<Rightarrow> stp \<Rightarrow> stp" where
  "stp_port_send_config p s =
    (if \<not> stp_is_root_switch s \<and> br_root_port s = None then s
     else stp_port_send_packet p (stp_config_msg s p) s)"

definition stp_send_config :: "stp \<Rightarrow> stp" where
  "stp_send_config s =
    fold (\<lambda>p s. if stp_port_is_designated s p then stp_port_send_config p s else s) (br_ports s) s"

section \<open>Timers\<close>

definition time_tick_now :: "int \<Rightarrow> int \<Rightarrow> int" where
  "time_tick_now sec usec = sec * 256 + usec * 256 div 1000000"

definition stp_init_timer :: "int \<Rightarrow> stp_timer" where
  "stp_init_timer timeout = \<lparr>tmr_active = False, tmr_time = 0, tmr_timeout = timeout\<rparr>"

definition stp_start_timer :: "int \<Rightarrow> stp_timer \<Rightarrow> stp_timer" where
  "stp_start_timer time tm = tm\<lparr>tmr_active := True, tmr_time := time\<rparr>"

definition stp_stop_timer :: "stp_timer \<Rightarrow> stp_timer" where
  "stp_stop_timer tm = tm\<lparr>tmr_active := False\<rparr>"

definition stp_check_timer :: "stp_timer \<Rightarrow> int \<Rightarrow> bool \<times> stp_timer" where
  "stp_check_timer tm now =
    (if tmr_active tm \<and> now \<ge> tmr_time tm + tmr_timeout tm then (True, tm\<lparr>tmr_active := False\<rparr>) else (False, tm))"

definition stp_handle_hello_timeout :: "stp \<Rightarrow> stp" where
  "stp_handle_hello_timeout s =
    (let s = stp_send_config s in s\<lparr>br_hello := stp_start_timer (br_clock s) (br_hello s)\<rparr>)"

text \<open>The list of timers holds the hello timer and no other.\<close>

definition stp_timer_run_once :: "int \<Rightarrow> stp \<Rightarrow> stp" where
  "stp_timer_run_once now s =
    (case stp_check_timer (br_hello s) now of (fired, tm) \<Rightarrow>
       if fired then stp_handle_hello_timeout (s\<lparr>br_hello := tm\<rparr>) else s\<lparr>br_hello := tm\<rparr>)"

text \<open>
  One round of \<open>stp_timer_routine\<close>: the clock is read before the timers are checked, and once more when
  the hello timer is started again.
\<close>

definition stp_timer_routine :: "int \<Rightarrow> int \<Rightarrow> stp \<Rightarrow> stp" where
  "stp_timer_routine now later s = stp_timer_run_once now (s\<lparr>br_clock := later\<rparr>)"

section \<open>Configuration messages\<close>

definition superior_to :: "stp_port \<Rightarrow> u64 \<Rightarrow> u32 \<Rightarrow> u64 \<Rightarrow> u16 \<Rightarrow> bool" where
  "superior_to p designed_root root_path_cost switch_id port_id =
    (if pt_root p < designed_root then True
     else if pt_root p > designed_root then False
     else if pt_cost p < root_path_cost then True
     else if pt_cost p > root_path_cost then False
     else if pt_switch p < switch_id then True
     else if pt_switch p > switch_id then False
     else if pt_port p < uint port_id then True
     else False)"

text \<open>The loop over the interfaces that looks for the root port; \<open>r\<close>: the best one so far.\<close>

fun find_root_port :: "stp \<Rightarrow> nat list \<Rightarrow> nat option \<Rightarrow> nat option" where
  "find_root_port s [] r = r"
| "find_root_port s (i # is') r =
    (let e = br_ports s ! i in
     find_root_port s is'
      (if \<not> stp_port_is_designated s e
       then (case r of
               Some j \<Rightarrow> (let q = br_ports s ! j in
                 if superior_to e (pt_root q) (pt_cost q) (pt_switch q) (of_int (pt_id q)) then Some i else r)
             | None \<Rightarrow> Some i)
       else r))"

text \<open>The loop that turns ports into designated ones, and the one that updates what those offer.\<close>

definition become_designated :: "stp \<Rightarrow> stp_port \<Rightarrow> stp_port" where
  "become_designated s e =
    (let port_id = of_int (pt_id e) in
     if \<not> superior_to e (br_root s) (br_cost s) (br_id s) port_id
     then e\<lparr>pt_switch := br_id s, pt_port := uint port_id\<rparr> else e)"

definition update_designated :: "stp \<Rightarrow> stp_port \<Rightarrow> stp_port" where
  "update_designated s e = (if stp_port_is_designated s e then e\<lparr>pt_root := br_root s, pt_cost := br_cost s\<rparr> else e)"

text \<open>The port gives way to the message, and the state of the switch is computed anew.\<close>

definition replace_config :: "nat \<Rightarrow> u64 \<Rightarrow> u32 \<Rightarrow> u64 \<Rightarrow> u16 \<Rightarrow> stp \<Rightarrow> stp res" where
  "replace_config i designed_root root_path_cost switch_id port_id s =
    (let p = (br_ports s ! i)\<lparr>pt_root := designed_root, pt_cost := root_path_cost, pt_switch := switch_id,
           pt_port := uint port_id\<rparr>;
         s = s\<lparr>br_ports := (br_ports s)[i := p]\<rparr>
     in case find_root_port s [0..<length (br_ports s)] None of
          None \<Rightarrow> Inl NullDeref
        | Some r \<Rightarrow>
            (let q = br_ports s ! r;
                 s = s\<lparr>br_root_port := Some r, br_root := pt_root q, br_cost := pt_cost q + pt_path_cost q\<rparr>;
                 s = s\<lparr>br_ports := map (become_designated s) (br_ports s)\<rparr>;
                 s = s\<lparr>br_ports := map (update_designated s) (br_ports s)\<rparr>;
                 s = (if \<not> stp_is_root_switch s then s\<lparr>br_hello := stp_stop_timer (br_hello s)\<rparr> else s)
             in Inr (stp_send_config s)))"

definition stp_handle_config_packet :: "nat \<Rightarrow> bytes \<Rightarrow> stp \<Rightarrow> stp res" where
  "stp_handle_config_packet i config s =
    (if length config < STP_CONFIG_SIZE then Inl OutOfBounds
     else let designed_root = ntohll (ld64 config 5);
              root_path_cost = ntohl (ld32 config 13);
              switch_id = ntohll (ld64 config 17);
              port_id = ntohs (ld16 config 25)
          in if superior_to (br_ports s ! i) designed_root root_path_cost switch_id port_id
             then Inr (stp_port_send_config (br_ports s ! i) s)
             else replace_config i designed_root root_path_cost switch_id port_id s)"

definition stp_port_handle_packet :: "nat \<Rightarrow> bytes \<Rightarrow> stp \<Rightarrow> stp res" where
  "stp_port_handle_packet i packet s =
    (if length packet < ETHER_HDR_SIZE + LLC_HDR_SIZE + STP_HEADER_SIZE then Inl OutOfBounds
     else let header = drop (ETHER_HDR_SIZE + LLC_HDR_SIZE) packet in
       if ld8 header 3 = STP_TYPE_CONFIG then stp_handle_config_packet i header s else Inr s)"

text \<open>\<open>memcmp\<close> is given the size of the first element of the address, one byte.\<close>

definition stp_handle_packet :: "iface_info \<Rightarrow> bytes \<Rightarrow> stp \<Rightarrow> stp res" where
  "stp_handle_packet iface packet s =
    (if packet = [] then Inl OutOfBounds
     else if hd packet \<noteq> hd eth_stp_addr then Inr s
     else case br_iface_port s iface of
            None \<Rightarrow> Inl NullDeref
          | Some i \<Rightarrow> stp_port_handle_packet i packet s)"

definition stp_ustack_run :: "iface_info list \<Rightarrow> poll_event list \<Rightarrow> stp \<Rightarrow> stp res" where
  "stp_ustack_run = ustack_run stp_handle_packet"

section \<open>Start and end\<close>

definition mac_to_u64 :: "bytes \<Rightarrow> u64" where
  "mac_to_u64 mac = fold (\<lambda>b a. push_bit 8 a + ucast b) mac 0"

definition stp_new_port :: "u64 \<Rightarrow> nat \<Rightarrow> iface_info \<Rightarrow> stp_port" where
  "stp_new_port sid nports iface =
    (let pid = push_bit 8 STP_PORT_PRIORITY OR (int nports + 1) in
     \<lparr>pt_id = pid, pt_name = if_name iface, pt_iface = iface, pt_path_cost = 1,
      pt_root = sid, pt_switch = sid, pt_port = pid, pt_cost = 0\<rparr>)"

definition stp_init :: "iface_info list \<Rightarrow> int \<Rightarrow> stp res" where
  "stp_init iface_list now =
    (if iface_list = [] \<or> length iface_list > STP_MAX_PORTS then Inl OutOfBounds
     else let sid = mac_to_u64 (if_mac (hd iface_list)) OR push_bit 48 STP_BRIDGE_PRIORITY in
       Inr \<lparr>br_id = sid, br_root = sid, br_cost = 0, br_root_port = None,
         br_hello = stp_start_timer now (stp_init_timer STP_HELLO_TIME),
         br_ports = map2 (stp_new_port sid) [0..<length iface_list] iface_list,
         br_iface_port = map_of (zip iface_list [0..<length iface_list]),
         br_clock = now, br_sent = []\<rparr>)"

definition stp_destroy :: "stp \<Rightarrow> stp" where
  "stp_destroy s = s\<lparr>br_iface_port := (\<lambda>iface. if iface \<in> pt_iface ` set (br_ports s) then None else br_iface_port s iface),
     br_ports := []\<rparr>"

text \<open>What \<open>stp_dump_state\<close> prints: the line on the switch, and one per port.\<close>

definition stp_dump_state :: "stp \<Rightarrow> (u64 \<times> u32) option \<times> (int \<times> string \<times> u64 \<times> u64 \<times> int \<times> u32) list" where
  "stp_dump_state s =
    (if stp_is_root_switch s then None else Some (br_root s AND 0xFFFF, br_cost s),
     map (\<lambda>p. (pt_id p AND 0xFF, stp_port_state s p, pt_root p AND 0xFFFF, pt_switch p AND 0xFFFF,
       pt_port p AND 0xFF, pt_cost p)) (br_ports s))"

end
