(* ===== verification/Stp_Switch.thy ===== *)
theory Stp_Switch
  imports Stp
begin

text \<open>
  One switch of the spanning tree protocol.  Messages and what ports hold are compared as priority
  vectors, a linear order that \<open>superior_to\<close> computes.  \<open>stp_wf\<close> is the invariant of a switch: a
  designated port holds what the switch offers, any other port something better, and the root port is
  the best of those.  \<open>receive_better\<close>: a message that is no worse than what the port holds is
  adopted, every port settles on the better of what it heard and what it offers, and the
  invariant is kept.
\<close>

section \<open>Priority vectors\<close>

text \<open>What a port believes, and what a message says, in the order of the protocol.\<close>

datatype config_vec = Vec (v_root: u64) (v_cost: u32) (v_switch: u64) (v_port: int)

instantiation config_vec :: linorder
begin

fun less_config_vec :: "config_vec \<Rightarrow> config_vec \<Rightarrow> bool" where
  "Vec r c s p < Vec r' c' s' p' \<longleftrightarrow> r < r' \<or> r = r' \<and> (c < c' \<or> c = c' \<and> (s < s' \<or> s = s' \<and> p < p'))"

definition less_eq_config_vec :: "config_vec \<Rightarrow> config_vec \<Rightarrow> bool" where
  "(v :: config_vec) \<le> w \<longleftrightarrow> v < w \<or> v = w"

instance
proof
  fix v w x :: config_vec
  show "v < w \<longleftrightarrow> v \<le> w \<and> \<not> w \<le> v" by (cases v; cases w) (auto simp: less_eq_config_vec_def)
  show "v \<le> v" by (simp add: less_eq_config_vec_def)
  show "v \<le> w \<Longrightarrow> w \<le> x \<Longrightarrow> v \<le> x" by (cases v; cases w; cases x) (auto simp: less_eq_config_vec_def)
  show "v \<le> w \<Longrightarrow> w \<le> v \<Longrightarrow> v = w" by (cases v; cases w) (auto simp: less_eq_config_vec_def)
  show "v \<le> w \<or> w \<le> v" by (cases v; cases w) (auto simp: less_eq_config_vec_def)
qed

end

lemma Vec_le: "Vec r c s p \<le> Vec r' c' s' p' \<longleftrightarrow> r < r' \<or> r = r' \<and> (c < c' \<or> c = c' \<and> (s < s' \<or> s = s' \<and> p \<le> p'))"
  by (auto simp: less_eq_config_vec_def)

definition vec_of :: "stp_port \<Rightarrow> config_vec" where
  "vec_of p = Vec (pt_root p) (pt_cost p) (pt_switch p) (pt_port p)"

lemma superior_to_less: "superior_to p r c s q \<longleftrightarrow> vec_of p < Vec r c s (uint q)"
  by (auto simp: superior_to_def vec_of_def)

text \<open>What a port of the switch offers when it is designated.\<close>

definition offer :: "stp \<Rightarrow> stp_port \<Rightarrow> config_vec" where
  "offer s p = Vec (br_root s) (br_cost s) (br_id s) (pt_id p)"

text \<open>The part the search for the root port goes by, and the part all ports of a switch share.\<close>

definition rank :: "config_vec \<Rightarrow> config_vec" where
  "rank v = Vec (v_root v) (v_cost v) (v_switch v) 0"

definition tree_of :: "stp \<Rightarrow> config_vec" where
  "tree_of s = Vec (br_root s) (br_cost s) 0 0"

lemma rank_mono: "v \<le> w \<Longrightarrow> rank v \<le> rank w"
  by (cases v; cases w) (auto simp: rank_def Vec_le)

lemma find_root_port_spec:
  assumes "find_root_port s ks r0 = r"
  shows "(r = None \<longleftrightarrow> r0 = None \<and> (\<forall>i \<in> set ks. stp_port_is_designated s (br_ports s ! i))) \<and>
    (\<forall>j. r = Some j \<longrightarrow> (r0 = Some j \<or> j \<in> set ks \<and> \<not> stp_port_is_designated s (br_ports s ! j)) \<and>
      (\<forall>i \<in> set ks. \<not> stp_port_is_designated s (br_ports s ! i) \<longrightarrow>
         rank (vec_of (br_ports s ! j)) \<le> rank (vec_of (br_ports s ! i))) \<and>
      (\<forall>j0. r0 = Some j0 \<longrightarrow> rank (vec_of (br_ports s ! j)) \<le> rank (vec_of (br_ports s ! j0))))"
  using assms
proof (induction ks arbitrary: r0)
  case Nil
  then show ?case by auto
next
  case (Cons i ks)
  let ?e = "br_ports s ! i"
  define r1 where "r1 = (if \<not> stp_port_is_designated s ?e
       then (case r0 of
               Some j \<Rightarrow> (let q = br_ports s ! j in
                 if superior_to ?e (pt_root q) (pt_cost q) (pt_switch q) (of_int (pt_id q)) then Some i else r0)
             | None \<Rightarrow> Some i)
       else r0)"
  have "find_root_port s ks r1 = r" using Cons.prems by (simp add: r1_def Let_def)
  note IH = Cons.IH[OF this]
  have r1: "r1 = None \<longleftrightarrow> r0 = None \<and> stp_port_is_designated s ?e"
    "\<And>j. r1 = Some j \<Longrightarrow> r0 = Some j \<or> (j = i \<and> \<not> stp_port_is_designated s ?e)"
    by (auto simp: r1_def Let_def split: option.splits if_splits)
  have le: "rank (vec_of (br_ports s ! j)) \<le> rank (vec_of (br_ports s ! j0))" if "r1 = Some j" "r0 = Some j0" for j j0
    using that by (auto simp: r1_def Let_def superior_to_less vec_of_def rank_def Vec_le split: if_splits)
  have le2: "rank (vec_of (br_ports s ! j)) \<le> rank (vec_of ?e)" if "r1 = Some j" "\<not> stp_port_is_designated s ?e" for j
    using that by (auto simp: r1_def Let_def superior_to_less vec_of_def rank_def Vec_le split: if_splits option.splits)
  show ?case
  proof (intro conjI allI impI ballI)
    show "r = None \<longleftrightarrow> r0 = None \<and> (\<forall>i \<in> set (i # ks). stp_port_is_designated s (br_ports s ! i))"
      using IH r1(1) by auto
  next
    fix j assume "r = Some j"
    with IH r1(2) show "r0 = Some j \<or> j \<in> set (i # ks) \<and> \<not> stp_port_is_designated s (br_ports s ! j)" by auto
  next
    fix j k assume j: "r = Some j" and k: "k \<in> set (i # ks)" "\<not> stp_port_is_designated s (br_ports s ! k)"
    show "rank (vec_of (br_ports s ! j)) \<le> rank (vec_of (br_ports s ! k))"
    proof (cases "k \<in> set ks")
      case True
      with IH j k show ?thesis by blast
    next
      case False
      with k obtain j1 where j1: "r1 = Some j1" using r1(1) by auto
      with IH j le2[OF j1] k False show ?thesis by (auto intro: order_trans)
    qed
  next
    fix j j0 assume j: "r = Some j" "r0 = Some j0"
    then obtain j1 where j1: "r1 = Some j1" using r1(1) by auto
    from IH j(1) j1 have "rank (vec_of (br_ports s ! j)) \<le> rank (vec_of (br_ports s ! j1))" by blast
    also have "\<dots> \<le> rank (vec_of (br_ports s ! j0))" by (rule le[OF j1 j(2)])
    finally show "rank (vec_of (br_ports s ! j)) \<le> rank (vec_of (br_ports s ! j0))" .
  qed
qed

section \<open>What is sent\<close>

definition offers :: "stp \<Rightarrow> (iface_info \<times> bytes) list" where
  "offers s = (if \<not> stp_is_root_switch s \<and> br_root_port s = None then []
     else map (\<lambda>p. (pt_iface p, stp_frame p (stp_config_msg s p))) (filter (stp_port_is_designated s) (br_ports s)))"

lemma stp_send_config_offers: "stp_send_config s = s\<lparr>br_sent := br_sent s @ offers s\<rparr>"
proof -
  have "fold (\<lambda>p s. if stp_port_is_designated s p then stp_port_send_config p s else s) ps (s\<lparr>br_sent := xs\<rparr>) =
     s\<lparr>br_sent := xs @ (if \<not> stp_is_root_switch s \<and> br_root_port s = None then []
     else map (\<lambda>p. (pt_iface p, stp_frame p (stp_config_msg s p))) (filter (stp_port_is_designated s) ps))\<rparr>" for ps xs
    by (induction ps arbitrary: xs)
      (auto simp: stp_port_send_config_def stp_port_send_packet_def stp_iface_send_packet_def stp_port_is_designated_def
        stp_is_root_switch_def stp_config_msg_def)
  from this[of "br_ports s" "br_sent s"] show ?thesis by (simp add: stp_send_config_def offers_def)
qed

definition port_wf :: "stp_port \<Rightarrow> bool" where
  "port_wf p \<longleftrightarrow> pt_path_cost p = 1 \<and> 0 \<le> pt_id p \<and> pt_id p < 65536 \<and> length (if_mac (pt_iface p)) = 6"

lemma uint_of_int16: "0 \<le> x \<Longrightarrow> x < 65536 \<Longrightarrow> uint (of_int x :: u16) = x"
  by (simp add: unsigned_of_int take_bit_int_eq_self)

lemma config_msg_fields:
  "length (stp_config_msg s p) = 35" "ld8 (stp_config_msg s p) 3 = STP_TYPE_CONFIG"
  "ntohll (ld64 (stp_config_msg s p) 5) = br_root s" "ntohl (ld32 (stp_config_msg s p) 13) = br_cost s"
  "ntohll (ld64 (stp_config_msg s p) 17) = br_id s" "ntohs (ld16 (stp_config_msg s p) 25) = of_int (pt_id p)"
  by (simp_all add: stp_config_msg_def Let_def stp_consts bytes_simps)

lemma stp_frame_parts:
  assumes "length (if_mac (pt_iface p)) = 6"
  shows "drop 17 (stp_frame p msg) = msg" "length (stp_frame p msg) = 17 + length msg"
    "stp_frame p msg \<noteq> []" "hd (stp_frame p msg) = 1"
proof -
  define z where "z = st8 (st8 (st8 (st16 (blit (blit (zeros (17 + length msg)) 0 eth_stp_addr) 6 (if_mac (pt_iface p))) 12
     (htons (of_nat (3 + length msg)))) 14 0x42) 15 0x42) 16 3"
  have f: "stp_frame p msg = blit z 17 msg" by (simp add: stp_frame_def Let_def stp_consts z_def)
  have l: "length z = 17 + length msg" using assms by (simp add: z_def eth_stp_addr_def)
  then show "drop 17 (stp_frame p msg) = msg" "length (stp_frame p msg) = 17 + length msg"
    by (simp_all add: f blit_def)
  then show ne: "stp_frame p msg \<noteq> []" by auto
  have "z ! 0 = 1" using assms by (simp add: z_def st8_def st16_def nth_blit eth_stp_addr_def)
  then have "stp_frame p msg ! 0 = 1" using l by (simp add: f nth_blit)
  with ne show "hd (stp_frame p msg) = 1" by (simp add: hd_conv_nth)
qed

text \<open>A frame a designated port sent, at the port where it arrives.\<close>

definition receive_config :: "nat \<Rightarrow> config_vec \<Rightarrow> stp \<Rightarrow> stp res" where
  "receive_config i v s =
    (if vec_of (br_ports s ! i) < v then Inr (stp_port_send_config (br_ports s ! i) s)
     else replace_config i (v_root v) (v_cost v) (v_switch v) (of_int (v_port v)) s)"

lemma stp_handle_offer:
  assumes "br_iface_port t y = Some i" "port_wf p"
  shows "stp_handle_packet y (stp_frame p (stp_config_msg s p)) t = receive_config i (offer s p) t"
  using assms
  by (simp add: stp_handle_packet_def stp_frame_parts port_wf_def eth_stp_addr_def stp_port_handle_packet_def stp_consts
      config_msg_fields stp_handle_config_packet_def[unfolded stp_consts] config_msg_fields[unfolded stp_consts]
      receive_config_def superior_to_less offer_def uint_of_int16)

section \<open>One switch\<close>

definition port_state_ok :: "stp \<Rightarrow> stp_port \<Rightarrow> bool" where
  "port_state_ok s p \<longleftrightarrow> (if stp_port_is_designated s p then vec_of p = offer s p else vec_of p < offer s p \<and> pt_cost p \<noteq> - 1)"

definition root_ok :: "stp \<Rightarrow> bool" where
  "root_ok s \<longleftrightarrow> (case br_root_port s of
      None \<Rightarrow> br_root s = br_id s \<and> br_cost s = 0 \<and> (\<forall>p \<in> set (br_ports s). stp_port_is_designated s p)
    | Some r \<Rightarrow> r < length (br_ports s) \<and> \<not> stp_port_is_designated s (br_ports s ! r) \<and> br_root s < br_id s \<and>
        br_root s = pt_root (br_ports s ! r) \<and> br_cost s = pt_cost (br_ports s ! r) + 1 \<and>
        (\<forall>q \<in> set (br_ports s). \<not> stp_port_is_designated s q \<longrightarrow> rank (vec_of (br_ports s ! r)) \<le> rank (vec_of q)))"

definition stp_wf :: "stp \<Rightarrow> bool" where
  "stp_wf s \<longleftrightarrow> (\<forall>p \<in> set (br_ports s). port_wf p \<and> port_state_ok s p) \<and> root_ok s"

text \<open>A message another switch can have sent.\<close>

definition honest_config :: "stp \<Rightarrow> config_vec \<Rightarrow> bool" where
  "honest_config s v \<longleftrightarrow> v_switch v \<noteq> br_id s \<and> (v_root v = br_id s \<longrightarrow> v_cost v \<noteq> 0) \<and> v_cost v \<noteq> - 1
     \<and> 0 \<le> v_port v \<and> v_port v < 65536"

definition with_vec :: "config_vec \<Rightarrow> stp_port \<Rightarrow> stp_port" where
  "with_vec v p = p\<lparr>pt_root := v_root v, pt_cost := v_cost v, pt_switch := v_switch v, pt_port := v_port v\<rparr>"

lemma with_vec_simps [simp]: "vec_of (with_vec v p) = v" "offer s (with_vec v p) = offer s p" "pt_id (with_vec v p) = pt_id p"
  "pt_iface (with_vec v p) = pt_iface p" "port_wf (with_vec v p) = port_wf p"
  by (cases v; simp add: with_vec_def vec_of_def offer_def port_wf_def)+

text \<open>Where a port ends up once the switch knows its root: it holds what it heard, if that is better than what it offers.\<close>

definition settle :: "stp \<Rightarrow> stp_port \<Rightarrow> stp_port" where
  "settle s e = (if vec_of e < offer s e then e else with_vec (offer s e) e)"

lemma settle_simps [simp]: "vec_of (settle s e) = min (vec_of e) (offer s e)" "pt_id (settle s e) = pt_id e"
  "pt_iface (settle s e) = pt_iface e" "port_wf (settle s e) = port_wf e"
  by (auto simp: settle_def min_def)

definition adopts :: "nat \<Rightarrow> config_vec \<Rightarrow> stp \<Rightarrow> stp \<Rightarrow> bool" where
  "adopts i v s s' \<longleftrightarrow> br_id s' = br_id s \<and> br_iface_port s' = br_iface_port s \<and> tree_of s' \<le> tree_of s \<and>
     br_ports s' = map (settle s') ((br_ports s)[i := with_vec v (br_ports s ! i)]) \<and> br_sent s' = br_sent s @ offers s' \<and>
     br_hello s' = (br_hello s)\<lparr>tmr_active := False\<rparr> \<and> br_root_port s' \<noteq> None"

lemma designated_iff: "stp_port_is_designated s p \<longleftrightarrow> v_switch (vec_of p) = br_id s \<and> v_port (vec_of p) = pt_id p"
  by (simp add: stp_port_is_designated_def vec_of_def)

lemma offer_le: "tree_of s' \<le> tree_of s \<Longrightarrow> br_id s' = br_id s \<Longrightarrow> offer s' p \<le> offer s p"
  by (auto simp: offer_def tree_of_def Vec_le)

lemma unat_inc: "(x :: u32) \<noteq> - 1 \<Longrightarrow> unat (x + 1) = unat x + 1"
proof -
  assume "x \<noteq> - 1"
  moreover have "unat (- 1 :: u32) = 4294967295" by (simp add: unsigned_minus_1_eq_mask mask_eq_exp_minus_1)
  ultimately have "unat x \<noteq> 4294967295" by (metis unsigned_word_eqI)
  then show ?thesis using unat_u32_less[of x] by (simp add: unat_word_ariths)
qed

lemma inc_simps: "(x :: u32) \<noteq> - 1 \<Longrightarrow> x < x + 1" "(x :: u32) \<noteq> - 1 \<Longrightarrow> y \<noteq> - 1 \<Longrightarrow> x + 1 \<le> y + 1 \<longleftrightarrow> x \<le> y"
  "(x :: u32) \<noteq> - 1 \<Longrightarrow> y \<noteq> - 1 \<Longrightarrow> x + 1 < y + 1 \<longleftrightarrow> x < y"
  by (simp_all add: word_less_nat_alt word_le_nat_alt unat_inc)

lemma inc_neq_0: "(x :: u32) \<noteq> - 1 \<Longrightarrow> x + 1 \<noteq> 0"
  using unat_inc[of x] by auto

text \<open>The message is stored in the port, then the switch takes its root from port \<open>r\<close>.\<close>

definition heard :: "nat \<Rightarrow> config_vec \<Rightarrow> stp \<Rightarrow> stp" where
  "heard i v s = s\<lparr>br_ports := (br_ports s)[i := with_vec v (br_ports s ! i)]\<rparr>"

definition rooted :: "nat \<Rightarrow> stp \<Rightarrow> stp" where
  "rooted r s = s\<lparr>br_root_port := Some r, br_root := pt_root (br_ports s ! r), br_cost := pt_cost (br_ports s ! r) + 1\<rparr>"

definition settled :: "stp \<Rightarrow> stp" where
  "settled s = (let s = s\<lparr>br_ports := map (settle s) (br_ports s), br_hello := (br_hello s)\<lparr>tmr_active := False\<rparr>\<rparr>
     in s\<lparr>br_sent := br_sent s @ offers s\<rparr>)"

lemma heard_nth: "i < length (br_ports s) \<Longrightarrow> j < length (br_ports s) \<Longrightarrow>
    br_ports (heard i v s) ! j = (if j = i then with_vec v (br_ports s ! i) else br_ports s ! j)"
  by (simp add: heard_def)

lemma heard_simps [simp]: "br_id (heard i v s) = br_id s" "length (br_ports (heard i v s)) = length (br_ports s)"
  "br_root (heard i v s) = br_root s" "br_cost (heard i v s) = br_cost s" "offer (heard i v s) = offer s"
  by (simp_all add: heard_def offer_def fun_eq_iff)

text \<open>The search finds the best port that is not designated.\<close>

definition best_port :: "stp \<Rightarrow> nat \<Rightarrow> bool" where
  "best_port s r \<longleftrightarrow> r < length (br_ports s) \<and> \<not> stp_port_is_designated s (br_ports s ! r) \<and>
    (\<forall>j < length (br_ports s). \<not> stp_port_is_designated s (br_ports s ! j) \<longrightarrow>
      rank (vec_of (br_ports s ! r)) \<le> rank (vec_of (br_ports s ! j)))"

lemma find_best:
  assumes "j < length (br_ports s)" "\<not> stp_port_is_designated s (br_ports s ! j)"
  shows "\<exists>r. find_root_port s [0..<length (br_ports s)] None = Some r \<and> best_port s r"
  using find_root_port_spec[OF refl, of s "[0..<length (br_ports s)]" None] assms
  by (cases "find_root_port s [0..<length (br_ports s)] None") (auto simp: best_port_def)

lemma settle_loops:
  assumes "port_wf e" "stp_port_is_designated s e \<Longrightarrow> \<not> vec_of e < offer s e"
    and "br_id t = br_id s" "br_root t = br_root s" "br_cost t = br_cost s"
  shows "update_designated t (become_designated s e) = settle s e"
proof (cases "vec_of e < offer s e")
  case True
  then have "become_designated s e = e" using assms(1)
    by (simp add: become_designated_def superior_to_less offer_def port_wf_def uint_of_int16)
  moreover have "\<not> stp_port_is_designated t e" using True assms(2,3) by (auto simp: stp_port_is_designated_def)
  ultimately show ?thesis using True by (simp add: update_designated_def settle_def)
next
  case False
  then have "become_designated s e = e\<lparr>pt_switch := br_id s, pt_port := pt_id e\<rparr>" using assms(1)
    by (simp add: become_designated_def superior_to_less offer_def port_wf_def uint_of_int16)
  with False assms(3-5) show ?thesis
    by (simp add: update_designated_def stp_port_is_designated_def settle_def with_vec_def offer_def)
qed

lemma replace_config_steps:
  assumes i: "i < length (br_ports s)" and v: "0 \<le> v_port v" "v_port v < 65536"
    and r: "find_root_port (heard i v s) [0..<length (br_ports s)] None = Some r" "r < length (br_ports s)"
    and p: "\<And>e. e \<in> set (br_ports (heard i v s)) \<Longrightarrow> port_wf e \<and>
      (stp_port_is_designated s e \<longrightarrow> \<not> vec_of e < offer (rooted r (heard i v s)) e)"
    and root: "br_root (rooted r (heard i v s)) \<noteq> br_id s"
  shows "replace_config i (v_root v) (v_cost v) (v_switch v) (of_int (v_port v)) s = Inr (settled (rooted r (heard i v s)))"
proof -
  define t where "t = rooted r (heard i v s)"
  have pc: "pt_path_cost (br_ports (heard i v s) ! r) = 1" using p[OF nth_mem] r(2) by (simp add: port_wf_def)
  have h: "s\<lparr>br_ports := (br_ports s)[i := (br_ports s ! i)\<lparr>pt_root := v_root v, pt_cost := v_cost v, pt_switch := v_switch v,
           pt_port := uint (of_int (v_port v) :: u16)\<rparr>]\<rparr> = heard i v s"
    using v by (simp add: heard_def with_vec_def uint_of_int16)
  have m: "map (update_designated (t\<lparr>br_ports := map (become_designated t) (br_ports t)\<rparr>) \<circ> become_designated t) (br_ports t)
      = map (settle t) (br_ports t)"
  proof (rule map_cong[OF refl], unfold o_def)
    fix e assume "e \<in> set (br_ports t)"
    then have "e \<in> set (br_ports (heard i v s))" by (simp add: t_def rooted_def)
    from p[OF this] show "update_designated (t\<lparr>br_ports := map (become_designated t) (br_ports t)\<rparr>) (become_designated t e) = settle t e"
      by (intro settle_loops) (auto simp: stp_port_is_designated_def t_def rooted_def)
  qed
  have t: "(heard i v s)\<lparr>br_root_port := Some r, br_root := pt_root (br_ports (heard i v s) ! r),
      br_cost := pt_cost (br_ports (heard i v s) ! r) + pt_path_cost (br_ports (heard i v s) ! r)\<rparr> = t"
    using pc by (simp add: t_def rooted_def)
  have root: "br_root t \<noteq> br_id t" using root by (simp add: t_def rooted_def)
  show ?thesis
    unfolding replace_config_def Let_def h heard_simps r(1) option.case t t_def[symmetric]
    using m root by (simp add: stp_send_config_offers settled_def stp_is_root_switch_def stp_stop_timer_def Let_def del: map_eq_conv)
qed

lemma heard_port_wf: "stp_wf s \<Longrightarrow> i < length (br_ports s) \<Longrightarrow> e \<in> set (br_ports (heard i v s)) \<Longrightarrow> port_wf e"
  by (auto simp: stp_wf_def heard_def dest!: subsetD[OF set_update_subset_insert])

lemma heard_designated:
  "i < length (br_ports s) \<Longrightarrow> honest_config s v \<Longrightarrow> j < length (br_ports s) \<Longrightarrow>
    stp_port_is_designated s (br_ports (heard i v s) ! j) \<longleftrightarrow> j \<noteq> i \<and> stp_port_is_designated s (br_ports s ! j)"
  by (auto simp: heard_nth designated_iff honest_config_def)

lemma designated_cong: "br_id s = br_id t \<Longrightarrow> stp_port_is_designated s = stp_port_is_designated t"
  by (simp add: fun_eq_iff stp_port_is_designated_def)

lemma heard_desig [simp]: "stp_port_is_designated (heard i v s) = stp_port_is_designated s"
  by (rule designated_cong) simp

lemma stp_wf_port: "stp_wf s \<Longrightarrow> j < length (br_ports s) \<Longrightarrow> port_wf (br_ports s ! j) \<and> port_state_ok s (br_ports s ! j)"
  by (simp add: stp_wf_def)

lemma best_cost:
  assumes wf: "stp_wf s" and i: "i < length (br_ports s)" and v: "honest_config s v" and r: "best_port (heard i v s) r"
  shows "pt_cost (br_ports (heard i v s) ! r) \<noteq> - 1"
proof (cases "r = i")
  case True
  with i v show ?thesis by (simp add: heard_nth honest_config_def with_vec_def)
next
  case False
  with i r heard_designated[OF i v] have "\<not> stp_port_is_designated s (br_ports s ! r)" "r < length (br_ports s)"
    by (auto simp: best_port_def)
  with False i stp_wf_port[OF wf] show ?thesis by (simp add: heard_nth port_state_ok_def)
qed

lemma rooted_improves:
  assumes wf: "stp_wf s" and i: "i < length (br_ports s)" and v: "honest_config s v" "v \<le> vec_of (br_ports s ! i)"
    and r: "best_port (heard i v s) r"
  shows "tree_of (rooted r (heard i v s)) \<le> tree_of s" "br_root (rooted r (heard i v s)) < br_id s"
proof -
  let ?q = "br_ports (heard i v s) ! r"
  have best: "rank (vec_of ?q) \<le> rank (vec_of (br_ports (heard i v s) ! j))"
    if "j < length (br_ports s)" "j = i \<or> \<not> stp_port_is_designated s (br_ports s ! j)" for j
    using r that heard_designated[OF i v(1)] unfolding best_port_def by auto
  note cost = best_cost[OF wf i v(1) r]
  have "tree_of (rooted r (heard i v s)) \<le> tree_of s \<and> br_root (rooted r (heard i v s)) < br_id s"
  proof (cases "br_root_port s")
    case None
    with stp_wf_port[OF wf i] wf i have o: "vec_of (br_ports s ! i) = offer s (br_ports s ! i)" and n: "br_root s = br_id s" "br_cost s = 0"
      by (auto simp: stp_wf_def root_ok_def port_state_ok_def split: if_splits)
    have "v_root v < br_id s"
    proof (rule ccontr)
      assume "\<not> v_root v < br_id s"
      with v(2) o n have "v_root v = br_id s" "v_cost v = 0" by (cases v; auto simp: offer_def Vec_le)+
      with v(1) show False by (simp add: honest_config_def)
    qed
    with best[OF i] i have "pt_root ?q < br_id s" by (cases v) (auto simp: heard_nth rank_def vec_of_def Vec_le with_vec_def)
    with n show ?thesis by (simp add: rooted_def tree_of_def Vec_le)
  next
    case (Some r0)
    from wf have r0: "r0 < length (br_ports s)" "\<not> stp_port_is_designated s (br_ports s ! r0)" "br_root s < br_id s"
      "br_root s = pt_root (br_ports s ! r0)" "br_cost s = pt_cost (br_ports s ! r0) + 1"
      unfolding stp_wf_def root_ok_def Some option.case by blast+
    have "vec_of (br_ports (heard i v s) ! r0) \<le> vec_of (br_ports s ! r0)" using v(2) i r0(1) by (simp add: heard_nth)
    with best[OF r0(1)] r0(2) have "rank (vec_of ?q) \<le> rank (vec_of (br_ports s ! r0))" by (blast intro: order_trans rank_mono)
    then have le: "pt_root ?q < br_root s \<or> pt_root ?q = br_root s \<and> pt_cost ?q \<le> pt_cost (br_ports s ! r0)"
      using r0(4) by (auto simp: rank_def vec_of_def Vec_le)
    have "pt_cost (br_ports s ! r0) \<noteq> - 1" using stp_wf_port[OF wf r0(1)] r0(2) by (simp add: port_state_ok_def)
    with le r0 cost show ?thesis by (auto simp: rooted_def tree_of_def Vec_le inc_simps order.strict_iff_order)
  qed
  then show "tree_of (rooted r (heard i v s)) \<le> tree_of s" "br_root (rooted r (heard i v s)) < br_id s" by simp_all
qed

lemma settled_simps [simp]: "br_id (settled s) = br_id s" "br_root (settled s) = br_root s" "br_cost (settled s) = br_cost s"
  "br_root_port (settled s) = br_root_port s" "br_ports (settled s) = map (settle s) (br_ports s)" "offer (settled s) = offer s"
  "settle (settled s) = settle s" "br_hello (settled s) = (br_hello s)\<lparr>tmr_active := False\<rparr>" "tree_of (settled s) = tree_of s"
  "br_iface_port (settled s) = br_iface_port s" "stp_port_is_designated (settled s) = stp_port_is_designated s"
  "br_sent (settled s) = br_sent s @ offers (settled s)"
  by (simp_all add: settled_def Let_def offer_def settle_def fun_eq_iff tree_of_def stp_port_is_designated_def offers_def
      stp_is_root_switch_def stp_config_msg_def cong: filter_cong)

text \<open>A port that settles is designated just when it offers better than what it holds.\<close>

lemma settle_state:
  assumes "stp_port_is_designated s e \<Longrightarrow> offer s e \<le> vec_of e"
  shows "stp_port_is_designated s (settle s e) \<longleftrightarrow> \<not> vec_of e < offer s e"
  using assms by (auto simp: settle_def designated_iff offer_def)

lemma rooted_simps [simp]: "br_id (rooted r s) = br_id s" "br_ports (rooted r s) = br_ports s" "br_hello (rooted r s) = br_hello s"
  "br_root (rooted r s) = pt_root (br_ports s ! r)" "br_cost (rooted r s) = pt_cost (br_ports s ! r) + 1"
  "br_root_port (rooted r s) = Some r" "br_iface_port (rooted r s) = br_iface_port s" "br_sent (rooted r s) = br_sent s"
  "stp_port_is_designated (rooted r s) = stp_port_is_designated s"
  by (simp_all add: rooted_def stp_port_is_designated_def fun_eq_iff)

lemma settled_wf:
  assumes r: "best_port s r" "pt_cost (br_ports s ! r) \<noteq> - 1" "pt_root (br_ports s ! r) < br_id s"
    and p: "\<And>e. e \<in> set (br_ports s) \<Longrightarrow> port_wf e \<and> (if stp_port_is_designated s e then offer (rooted r s) e \<le> vec_of e
       else pt_cost e \<noteq> - 1)"
  shows "stp_wf (settled (rooted r s))"
proof -
  let ?t = "rooted r s"
  have des: "stp_port_is_designated s (settle ?t e) \<longleftrightarrow> \<not> vec_of e < offer ?t e" if "e \<in> set (br_ports s)" for e
    using settle_state[of ?t e] p[OF that] by auto
  have keep: "settle ?t e = e" "\<not> stp_port_is_designated s e" if "e \<in> set (br_ports s)" "vec_of e < offer ?t e" for e
    using p[OF that(1)] that(2) by (auto simp: settle_def)
  have ports: "port_wf (settle ?t e) \<and> port_state_ok (settled ?t) (settle ?t e)" if e: "e \<in> set (br_ports s)" for e
  proof (cases "vec_of e < offer ?t e")
    case True
    with keep[OF e] p[OF e] show ?thesis by (simp add: port_state_ok_def)
  next
    case False
    with des[OF e] p[OF e] show ?thesis by (simp add: port_state_ok_def min_def offer_def)
  qed
  have q: "br_ports s ! r \<in> set (br_ports s)" using r(1) by (simp add: best_port_def)
  have less: "vec_of (br_ports s ! r) < offer ?t (br_ports s ! r)" using r(2) by (simp add: offer_def vec_of_def inc_simps)
  have min: "rank (vec_of (br_ports s ! r)) \<le> rank (vec_of (settle ?t e))"
    if "e \<in> set (br_ports s)" "\<not> stp_port_is_designated s (settle ?t e)" for e
    using des[OF that(1)] keep[OF that(1)] that r(1) by (auto simp: best_port_def in_set_conv_nth)
  show ?thesis unfolding stp_wf_def root_ok_def
    using ports min keep[OF q less] r by (auto simp: best_port_def)
qed

lemma receive_better:
  assumes wf: "stp_wf s" and i: "i < length (br_ports s)" and v: "honest_config s v" "v \<le> vec_of (br_ports s ! i)"
  shows "\<exists>s'. receive_config i v s = Inr s' \<and> adopts i v s s' \<and> stp_wf s'"
proof -
  obtain r where r: "find_root_port (heard i v s) [0..<length (br_ports s)] None = Some r" "best_port (heard i v s) r"
    using find_best[of i "heard i v s"] heard_designated[OF i v(1) i] i by auto
  note better = rooted_improves[OF wf i v r(2)]
  let ?t = "rooted r (heard i v s)"
  have own: "offer ?t e \<le> vec_of e" if "e \<in> set (br_ports (heard i v s))" "stp_port_is_designated s e" for e
  proof -
    from that(1) obtain j where j: "j < length (br_ports s)" "e = br_ports (heard i v s) ! j" by (auto simp: in_set_conv_nth)
    with that(2) heard_designated[OF i v(1) j(1)] i have e: "e = br_ports s ! j" by (auto simp: heard_nth)
    with that(2) stp_wf_port[OF wf j(1)] have "vec_of e = offer s e" by (simp add: port_state_ok_def)
    then show ?thesis using offer_le[OF better(1)] by simp
  qed
  have cost: "pt_cost e \<noteq> - 1" if "e \<in> set (br_ports (heard i v s))" "\<not> stp_port_is_designated s e" for e
  proof -
    from that(1) obtain j where j: "j < length (br_ports s)" "e = br_ports (heard i v s) ! j" by (auto simp: in_set_conv_nth)
    with that(2) heard_designated[OF i v(1) j(1)] i v stp_wf_port[OF wf j(1)] show ?thesis
      by (auto simp: heard_nth with_vec_def honest_config_def port_state_ok_def)
  qed
  have 1: "replace_config i (v_root v) (v_cost v) (v_switch v) (of_int (v_port v)) s = Inr (settled ?t)"
    by (rule replace_config_steps[OF i _ _ r(1)])
      (use v r(2) heard_port_wf[OF wf i] own better in \<open>auto simp: honest_config_def best_port_def not_less\<close>)
  have 2: "stp_wf (settled ?t)"
    by (rule settled_wf[OF r(2) best_cost[OF wf i v(1) r(2)]])
      (use better heard_port_wf[OF wf i] own cost in auto)
  have "adopts i v s (settled ?t)"
    using better(1) by (simp add: adopts_def) (simp add: heard_def)
  with 1 2 v(2) show ?thesis by (auto simp: receive_config_def not_less[symmetric])
qed

end
