(* ===== verification/Stp_Network.thy ===== *)
theory Stp_Network
  imports Stp_Switch
begin

text \<open>
  A network of spanning-tree switches: \<open>stp_net\<close> is the set of states it can reach, \<open>net_inv\<close> what holds in
  all of them (every frame under way, and whatever a port has heard, was offered by the port at the other
  end, which by now offers something at least as good), and the properties of the protocol rest on it.
\<close>

section \<open>A network of switches\<close>

definition wired :: "stp \<Rightarrow> bool" where
  "wired s \<longleftrightarrow> (\<forall>x i. br_iface_port s x = Some i \<longleftrightarrow> i < length (br_ports s) \<and> pt_iface (br_ports s ! i) = x)"

text \<open>
  \<open>links (a, x) = Some (b, y)\<close>: interface \<open>x\<close> of switch \<open>a\<close> is connected to interface \<open>y\<close> of switch \<open>b\<close>.
  A frame that was sent may arrive at the other end at any time, more than once, or never; timers
  run at any time.  \<open>stp_net V ifs links k N\<close>: the switches can be in the states \<open>N\<close>, after \<open>k\<close> arrivals.
\<close>

type_synonym links = "nat \<times> iface_info \<Rightarrow> (nat \<times> iface_info) option"

inductive stp_net :: "nat set \<Rightarrow> (nat \<Rightarrow> iface_info list) \<Rightarrow> links \<Rightarrow> nat \<Rightarrow> (nat \<Rightarrow> stp) \<Rightarrow> bool"
  for V ifs links where
  start: "(\<And>a. a \<in> V \<Longrightarrow> stp_init (ifs a) (now a) = Inr (N a)) \<Longrightarrow> stp_net V ifs links 0 N"
| frame: "stp_net V ifs links k N \<Longrightarrow> a \<in> V \<Longrightarrow> (x, f) \<in> set (br_sent (N a)) \<Longrightarrow> links (a, x) = Some (b, y) \<Longrightarrow>
    stp_handle_packet y f (N b) = Inr s \<Longrightarrow> stp_net V ifs links (Suc k) (N(b := s))"
| timer: "stp_net V ifs links k N \<Longrightarrow> a \<in> V \<Longrightarrow> stp_net V ifs links k (N(a := stp_timer_routine now later (N a)))"

definition switch_id :: "iface_info list \<Rightarrow> u64" where
  "switch_id is' = mac_to_u64 (if_mac (hd is')) OR push_bit 48 STP_BRIDGE_PRIORITY"

definition topology :: "nat set \<Rightarrow> (nat \<Rightarrow> iface_info list) \<Rightarrow> links \<Rightarrow> bool" where
  "topology V ifs links \<longleftrightarrow>
    (\<forall>a \<in> V. distinct (ifs a) \<and> (\<forall>x \<in> set (ifs a). length (if_mac x) = 6)) \<and>
    inj_on (switch_id \<circ> ifs) V \<and>
    (\<forall>a x b y. links (a, x) = Some (b, y) \<longrightarrow> links (b, y) = Some (a, x) \<and> a \<noteq> b \<and> a \<in> V \<and> x \<in> set (ifs a))"

text \<open>A frame with the message \<open>v\<close>, as any switch reads it.\<close>

definition says :: "bytes \<Rightarrow> config_vec \<Rightarrow> bool" where
  "says f v \<longleftrightarrow> (\<forall>t y i. br_iface_port t y = Some i \<longrightarrow> stp_handle_packet y f t = receive_config i v t)"

lemma says_offer: "port_wf p \<Longrightarrow> says (stp_frame p (stp_config_msg s p)) (offer s p)"
  by (simp add: says_def stp_handle_offer)

text \<open>\<open>v\<close> was offered at some time by port \<open>p\<close> of the switch that is now in the state \<open>s\<close>.\<close>

definition offered :: "nat \<Rightarrow> u64 set \<Rightarrow> stp \<Rightarrow> stp_port \<Rightarrow> config_vec \<Rightarrow> bool" where
  "offered k ids s p v \<longleftrightarrow> v_switch v = br_id s \<and> v_port v = pt_id p \<and> offer s p \<le> v \<and> v_root v \<in> ids
     \<and> (v_cost v = 0 \<longrightarrow> v_root v = br_id s) \<and> unat (v_cost v) \<le> k"

definition switch_ok :: "nat \<Rightarrow> u64 set \<Rightarrow> iface_info list \<Rightarrow> stp \<Rightarrow> bool" where
  "switch_ok k ids is' s \<longleftrightarrow> stp_wf s \<and> wired s \<and> br_id s = switch_id is' \<and> map pt_iface (br_ports s) = is' \<and>
     br_root s \<in> ids \<and> unat (br_cost s) \<le> k \<and>
     (\<forall>(x, f) \<in> set (br_sent s). \<exists>p \<in> set (br_ports s). pt_iface p = x \<and> (\<exists>v. says f v \<and> offered k ids s p v))"

definition heard_ok :: "nat \<Rightarrow> u64 set \<Rightarrow> links \<Rightarrow> (nat \<Rightarrow> stp) \<Rightarrow> nat \<Rightarrow> stp_port \<Rightarrow> bool" where
  "heard_ok k ids links N a p \<longleftrightarrow> (\<exists>b q. links (a, pt_iface p) = Some (b, pt_iface q) \<and> q \<in> set (br_ports (N b)) \<and>
     offered k ids (N b) q (vec_of p))"

definition net_inv :: "nat set \<Rightarrow> (nat \<Rightarrow> iface_info list) \<Rightarrow> links \<Rightarrow> nat \<Rightarrow> (nat \<Rightarrow> stp) \<Rightarrow> bool" where
  "net_inv V ifs links k N \<longleftrightarrow> (\<forall>a \<in> V. switch_ok k ((switch_id \<circ> ifs) ` V) (ifs a) (N a) \<and>
     (\<forall>p \<in> set (br_ports (N a)). \<not> stp_port_is_designated (N a) p \<longrightarrow> heard_ok k ((switch_id \<circ> ifs) ` V) links N a p))"

text \<open>What a step of a switch keeps for the others.\<close>

definition successor :: "stp \<Rightarrow> stp \<Rightarrow> bool" where
  "successor s s' \<longleftrightarrow> br_id s' = br_id s \<and> tree_of s' \<le> tree_of s \<and>
     map (\<lambda>p. (pt_id p, pt_iface p)) (br_ports s') = map (\<lambda>p. (pt_id p, pt_iface p)) (br_ports s)"

lemma offered_successor:
  assumes "successor s s'" "offered k ids s p v" "pt_id p' = pt_id p" "k \<le> k'"
  shows "offered k' ids s' p' v"
proof -
  have "offer s' p' = offer s' p" using assms(3) by (simp add: offer_def)
  also have "\<dots> \<le> offer s p" using assms(1) unfolding successor_def by (intro offer_le) blast+
  also have "\<dots> \<le> v" using assms(2) by (simp add: offered_def)
  finally have "offer s' p' \<le> v" .
  moreover have "br_id s' = br_id s" using assms(1) unfolding successor_def by blast
  ultimately show ?thesis using assms(2-4) by (simp add: offered_def)
qed

lemma successor_port:
  assumes "successor s s'" "p \<in> set (br_ports s)"
  shows "\<exists>p' \<in> set (br_ports s'). pt_id p' = pt_id p \<and> pt_iface p' = pt_iface p"
proof -
  have "set (map (\<lambda>p. (pt_id p, pt_iface p)) (br_ports s')) = set (map (\<lambda>p. (pt_id p, pt_iface p)) (br_ports s))"
    using assms(1) by (simp only: successor_def)
  then have "(\<lambda>p. (pt_id p, pt_iface p)) ` set (br_ports s') = (\<lambda>p. (pt_id p, pt_iface p)) ` set (br_ports s)" by simp
  with assms(2) have "(pt_id p, pt_iface p) \<in> (\<lambda>p. (pt_id p, pt_iface p)) ` set (br_ports s')" by blast
  then show ?thesis by auto
qed

lemma successor_refl: "successor s s" "br_id s' = br_id s \<Longrightarrow> br_ports s' = br_ports s \<Longrightarrow> tree_of s' = tree_of s \<Longrightarrow> successor s s'"
  by (simp_all add: successor_def)

lemma heard_successor:
  assumes "successor (N b) s" "heard_ok k ids links N a p" "k \<le> k'"
  shows "heard_ok k' ids links (N(b := s)) a p"
proof -
  from assms(2) obtain c q where q: "links (a, pt_iface p) = Some (c, pt_iface q)" "q \<in> set (br_ports (N c))"
    "offered k ids (N c) q (vec_of p)" by (auto simp: heard_ok_def)
  have s: "successor (N c) ((N(b := s)) c)" using assms(1) by (simp add: successor_refl)
  from successor_port[OF s q(2)] obtain q' where "q' \<in> set (br_ports ((N(b := s)) c))" "pt_id q' = pt_id q" "pt_iface q' = pt_iface q"
    by blast
  with q offered_successor[OF s q(3) _ assms(3), of q'] show ?thesis unfolding heard_ok_def by metis
qed

text \<open>One switch moves on, the rest of the invariant follows.\<close>

lemma net_inv_step:
  assumes inv: "net_inv V ifs links k N" and b: "b \<in> V" and k: "k \<le> k'"
    and s: "successor (N b) s" "switch_ok k' ((switch_id \<circ> ifs) ` V) (ifs b) s"
    and new: "\<And>p. p \<in> set (br_ports s) \<Longrightarrow> \<not> stp_port_is_designated s p \<Longrightarrow>
      (\<exists>p0 \<in> set (br_ports (N b)). \<not> stp_port_is_designated (N b) p0 \<and> pt_iface p0 = pt_iface p \<and> vec_of p0 = vec_of p) \<or>
      (\<exists>N'. N' = N(b := s) \<and> heard_ok k' ((switch_id \<circ> ifs) ` V) links N' b p)"
  shows "net_inv V ifs links k' (N(b := s))"
  unfolding net_inv_def
proof (intro ballI conjI impI)
  fix a assume a: "a \<in> V"
  have ok: "switch_ok k' ids is' s'" if "switch_ok k ids is' s'" for ids is' s'
  proof -
    have o: "offered k' ids s' p v" if "offered k ids s' p v" for p v using offered_successor[OF successor_refl(1) that refl k] .
    show ?thesis using that k unfolding switch_ok_def by (fastforce intro: o)
  qed
  from inv a ok s(2) show "switch_ok k' ((switch_id \<circ> ifs) ` V) (ifs a) ((N(b := s)) a)" by (auto simp: net_inv_def)
  fix p assume p: "p \<in> set (br_ports ((N(b := s)) a))" "\<not> stp_port_is_designated ((N(b := s)) a) p"
  show "heard_ok k' ((switch_id \<circ> ifs) ` V) links (N(b := s)) a p"
  proof (cases "a = b")
    case False
    with inv a p heard_successor[of N b s, OF s(1) _ k] show ?thesis by (auto simp: net_inv_def)
  next
    case True
    with p new[of p] consider p0 where "p0 \<in> set (br_ports (N b))" "\<not> stp_port_is_designated (N b) p0" "pt_iface p0 = pt_iface p" "vec_of p0 = vec_of p"
      | "heard_ok k' ((switch_id \<circ> ifs) ` V) links (N(b := s)) b p" by auto
    then show ?thesis
    proof cases
      case 1
      with inv b have "heard_ok k ((switch_id \<circ> ifs) ` V) links N b p0" by (auto simp: net_inv_def)
      from heard_successor[of N b s, OF s(1) this k] 1 True show ?thesis by (simp add: heard_ok_def)
    qed (use True in simp)
  qed
qed

lemma stp_wf_cong:
  assumes "br_id s' = br_id s" "br_root s' = br_root s" "br_cost s' = br_cost s" "br_root_port s' = br_root_port s" "br_ports s' = br_ports s"
  shows "stp_wf s' = stp_wf s"
proof -
  have "stp_port_is_designated s' = stp_port_is_designated s" by (rule designated_cong) (rule assms)
  moreover have "offer s' = offer s" using assms by (simp add: offer_def fun_eq_iff)
  ultimately show ?thesis using assms by (simp add: stp_wf_def port_state_ok_def root_ok_def split: option.split)
qed

lemma offers_says:
  assumes "stp_wf s" "(x, f) \<in> set (offers s)"
  shows "\<exists>p \<in> set (br_ports s). pt_iface p = x \<and> says f (offer s p)"
  using assms by (auto simp: offers_def stp_wf_def says_offer split: if_splits)

lemma root_cost_0: "stp_wf s \<Longrightarrow> br_cost s = 0 \<Longrightarrow> br_root s = br_id s"
proof (cases "br_root_port s")
  case (Some r)
  assume wf: "stp_wf s" and c: "br_cost s = 0"
  from wf have "r < length (br_ports s)" "\<not> stp_port_is_designated s (br_ports s ! r)" "br_cost s = pt_cost (br_ports s ! r) + 1"
    unfolding stp_wf_def root_ok_def Some option.case by blast+
  moreover from this stp_wf_port[OF wf] have "pt_cost (br_ports s ! r) \<noteq> - 1" by (simp add: port_state_ok_def)
  ultimately show ?thesis using c inc_neq_0 by simp
qed (simp add: stp_wf_def root_ok_def)

lemma offered_now: "stp_wf s \<Longrightarrow> br_root s \<in> ids \<Longrightarrow> unat (br_cost s) \<le> k \<Longrightarrow> offered k ids s p (offer s p)"
  using root_cost_0[of s] by (simp add: offered_def) (simp add: offer_def)

lemma wired_cong:
  assumes "wired s" "br_iface_port s' = br_iface_port s" "map pt_iface (br_ports s') = map pt_iface (br_ports s)"
  shows "wired s'"
proof -
  have "length (br_ports s') = length (br_ports s)" using assms(3) by (metis length_map)
  moreover have "pt_iface (br_ports s' ! i) = pt_iface (br_ports s ! i)" if "i < length (br_ports s)" for i
    using that assms(3) calculation by (metis nth_map)
  ultimately show ?thesis using assms(1,2) by (auto simp: wired_def)
qed

lemma switch_ok_next:
  assumes ok: "switch_ok k ids is' s" and k: "k \<le> k'" and succ: "successor s s'"
    and wf: "stp_wf s'" "br_iface_port s' = br_iface_port s"
    and sent: "br_sent s' = br_sent s @ fs" "\<And>x f. (x, f) \<in> set fs \<Longrightarrow> \<exists>p \<in> set (br_ports s'). pt_iface p = x \<and> says f (offer s' p)"
    and root: "br_root s' \<in> ids" "unat (br_cost s') \<le> k'"
  shows "switch_ok k' ids is' s'"
proof -
  have "map snd (map (\<lambda>p. (pt_id p, pt_iface p)) (br_ports s')) = map snd (map (\<lambda>p. (pt_id p, pt_iface p)) (br_ports s))"
    using succ unfolding successor_def by (simp only:)
  then have ifs: "map pt_iface (br_ports s') = map pt_iface (br_ports s)" by (simp add: o_def)
  have id: "br_id s' = br_id s" using succ by (simp only: successor_def)
  have now: "offered k' ids s' p (offer s' p)" for p by (rule offered_now[OF wf(1) root])
  have old: "\<exists>p \<in> set (br_ports s'). pt_iface p = x \<and> (\<exists>v. says f v \<and> offered k' ids s' p v)" if f: "(x, f) \<in> set (br_sent s)" for x f
  proof -
    from ok f obtain p v where p: "p \<in> set (br_ports s)" "pt_iface p = x" "says f v" "offered k ids s p v" by (auto simp: switch_ok_def)
    from successor_port[OF succ p(1)] obtain p' where p': "p' \<in> set (br_ports s')" "pt_id p' = pt_id p" "pt_iface p' = pt_iface p" by blast
    with p offered_successor[OF succ p(4) p'(2) k] show ?thesis by auto
  qed
  have "\<forall>(x, f) \<in> set (br_sent s'). \<exists>p \<in> set (br_ports s'). pt_iface p = x \<and> (\<exists>v. says f v \<and> offered k' ids s' p v)"
    using old sent now by fastforce
  then show ?thesis
    using ok wf root ifs id wired_cong[of s s'] by (simp add: switch_ok_def)
qed

lemma adopts_successor: "adopts i v s s' \<Longrightarrow> i < length (br_ports s) \<Longrightarrow> successor s s'"
  by (auto simp: adopts_def successor_def list_eq_iff_nth_eq nth_list_update)

text \<open>After a step a port that is not designated holds what it held, or what was just heard.\<close>

lemma adopts_ports:
  assumes wf: "stp_wf s" and ad: "adopts i v s s'" and i: "i < length (br_ports s)"
    and p: "p \<in> set (br_ports s')" "\<not> stp_port_is_designated s' p"
  shows "(\<exists>p0 \<in> set (br_ports s). \<not> stp_port_is_designated s p0 \<and> pt_iface p0 = pt_iface p \<and> vec_of p0 = vec_of p) \<or>
    vec_of p = v \<and> pt_iface p = pt_iface (br_ports s ! i)"
proof -
  let ?ps = "(br_ports s)[i := with_vec v (br_ports s ! i)]"
  from ad p obtain e where e: "e \<in> set ?ps" "p = settle s' e" by (auto simp: adopts_def)
  have less: "vec_of e < offer s' e"
  proof (rule ccontr)
    assume "\<not> vec_of e < offer s' e"
    with e(2) have "p = with_vec (offer s' e) e" by (simp add: settle_def)
    then have "stp_port_is_designated s' p" by (simp add: designated_iff) (simp add: offer_def)
    with p(2) show False ..
  qed
  with e(2) have pe: "p = e" by (simp add: settle_def)
  from e(1) obtain j where j: "j < length (br_ports s)" "e = ?ps ! j" by (auto simp: in_set_conv_nth)
  show ?thesis
  proof (cases "j = i")
    case True
    with j pe i show ?thesis by simp
  next
    case False
    with j have ej: "e = br_ports s ! j" by simp
    have "\<not> stp_port_is_designated s e"
    proof
      assume "stp_port_is_designated s e"
      with stp_wf_port[OF wf j(1)] ej have "vec_of e = offer s e" by (simp add: port_state_ok_def)
      with less offer_le[of s' s e] ad show False by (simp add: adopts_def)
    qed
    with j(1) ej pe show ?thesis by auto
  qed
qed

lemma stp_wf_root:
  assumes "stp_wf s" "br_root_port s \<noteq> None"
  shows "\<exists>p \<in> set (br_ports s). \<not> stp_port_is_designated s p \<and> br_root s = pt_root p \<and> br_cost s = pt_cost p + 1 \<and> pt_cost p \<noteq> - 1
    \<and> br_root s < br_id s"
proof -
  from assms(2) obtain r where r: "br_root_port s = Some r" by blast
  with assms(1) have "br_ports s ! r \<in> set (br_ports s)" "\<not> stp_port_is_designated s (br_ports s ! r)" "br_root s = pt_root (br_ports s ! r)"
    "br_cost s = pt_cost (br_ports s ! r) + 1" "br_root s < br_id s"
    unfolding stp_wf_def root_ok_def r option.case by auto
  moreover from this assms(1) have "pt_cost (br_ports s ! r) \<noteq> - 1" by (simp add: stp_wf_def port_state_ok_def)
  ultimately show ?thesis by blast
qed

text \<open>The message is no better than what the port holds: the switch answers with its own.\<close>

lemma worse_config_net:
  assumes inv: "net_inv V ifs links k N" and b: "b \<in> V" and i: "i < length (br_ports (N b))" and worse: "vec_of (br_ports (N b) ! i) < v"
  shows "\<exists>s. receive_config i v (N b) = Inr s \<and> net_inv V ifs links (Suc k) (N(b := s)) \<and> successor (N b) s"
proof -
  let ?ids = "(switch_id \<circ> ifs) ` V" and ?p = "br_ports (N b) ! i"
  let ?s = "stp_port_send_config ?p (N b)"
  have ok: "switch_ok k ?ids (ifs b) (N b)" and wf: "stp_wf (N b)" using inv b by (simp_all add: net_inv_def switch_ok_def)
  define fs where "fs = (if \<not> stp_is_root_switch (N b) \<and> br_root_port (N b) = None then []
    else [(pt_iface ?p, stp_frame ?p (stp_config_msg (N b) ?p))])"
  have s: "?s = (N b)\<lparr>br_sent := br_sent (N b) @ fs\<rparr>"
    by (simp add: fs_def stp_port_send_config_def stp_port_send_packet_def stp_iface_send_packet_def)
  have same: "stp_port_is_designated ?s = stp_port_is_designated (N b)" by (rule designated_cong) (simp add: s)
  have wfs: "stp_wf ?s" using wf stp_wf_cong[of ?s "N b"] by (simp add: s)
  have succ: "successor (N b) ?s" by (rule successor_refl(2)) (simp_all add: s tree_of_def)
  have ip: "?p \<in> set (br_ports (N b))" "port_wf ?p" using i wf by (simp_all add: stp_wf_def)
  have o: "br_root (N b) \<in> ?ids" "unat (br_cost (N b)) \<le> k" using ok by (simp_all add: switch_ok_def)
  have "switch_ok (Suc k) ?ids (ifs b) ?s"
    by (rule switch_ok_next[OF ok le_SucI[OF order_refl] succ wfs, where fs = fs])
      (use o ip says_offer[OF ip(2)] in \<open>auto simp: s fs_def offered_def offer_def split: if_splits\<close>)
  from net_inv_step[OF inv b le_SucI[OF order_refl] succ this] same worse succ
  show ?thesis by (auto simp: receive_config_def s)
qed

text \<open>Otherwise the switch takes it over.\<close>

lemma better_config_net:
  assumes inv: "net_inv V ifs links k N" and b: "b \<in> V" and i: "i < length (br_ports (N b))" and honest: "honest_config (N b) v"
    and better: "\<not> vec_of (br_ports (N b) ! i) < v"
    and heard: "\<And>q. vec_of q = v \<Longrightarrow> pt_iface q = pt_iface (br_ports (N b) ! i) \<Longrightarrow> heard_ok k ((switch_id \<circ> ifs) ` V) links N b q"
  shows "\<exists>s. receive_config i v (N b) = Inr s \<and> net_inv V ifs links (Suc k) (N(b := s)) \<and> successor (N b) s"
proof -
  let ?ids = "(switch_id \<circ> ifs) ` V"
  have ok: "switch_ok k ?ids (ifs b) (N b)" and wf: "stp_wf (N b)" using inv b by (simp_all add: net_inv_def switch_ok_def)
  from receive_better[OF wf i honest] better obtain s where s: "receive_config i v (N b) = Inr s" "adopts i v (N b) s" "stp_wf s"
    by (auto simp: not_less)
  note succ = adopts_successor[OF s(2) i]
  have new: "heard_ok k ?ids links N b q" if "q \<in> set (br_ports s)" "\<not> stp_port_is_designated s q" for q
  proof -
    from adopts_ports[OF wf s(2) i that] consider p0 where "p0 \<in> set (br_ports (N b))" "\<not> stp_port_is_designated (N b) p0"
        "pt_iface p0 = pt_iface q" "vec_of p0 = vec_of q" | "vec_of q = v" "pt_iface q = pt_iface (br_ports (N b) ! i)" by auto
    then show ?thesis
    proof cases
      case 1
      with inv b have "heard_ok k ?ids links N b p0" by (simp add: net_inv_def)
      with 1 show ?thesis by (simp add: heard_ok_def)
    qed (rule heard)
  qed
  obtain q where q: "q \<in> set (br_ports s)" "\<not> stp_port_is_designated s q" "br_root s = pt_root q" "br_cost s = pt_cost q + 1" "pt_cost q \<noteq> - 1"
    using stp_wf_root[OF s(3)] s(2) by (auto simp: adopts_def)
  from new[OF q(1,2)] have "pt_root q \<in> ?ids" "unat (pt_cost q) \<le> k" by (auto simp: heard_ok_def offered_def vec_of_def)
  with q have root: "br_root s \<in> ?ids" "unat (br_cost s) \<le> Suc k" by (simp_all add: unat_inc)
  have ok': "switch_ok (Suc k) ?ids (ifs b) s"
    by (rule switch_ok_next[OF ok le_SucI[OF order_refl] succ s(3), where fs = "offers s"])
      (use s(2) root offers_says[OF s(3)] in \<open>auto simp: adopts_def\<close>)
  have "net_inv V ifs links (Suc k) (N(b := s))"
    by (rule net_inv_step[OF inv b le_SucI[OF order_refl] succ ok'])
      (use heard_successor[of N b s, OF succ new le_SucI[OF order_refl]] in blast)
  with s(1) succ show ?thesis by auto
qed

lemma stp_net_frame:
  assumes top: "topology V ifs links" and inv: "net_inv V ifs links k N" and k: "k < 2 ^ 32 - 1" and a: "a \<in> V"
    and f: "(x, f) \<in> set (br_sent (N a))" and l: "links (a, x) = Some (b, y)"
  shows "\<exists>s. stp_handle_packet y f (N b) = Inr s \<and> net_inv V ifs links (Suc k) (N(b := s)) \<and> successor (N b) s \<and> b \<in> V"
proof -
  let ?ids = "(switch_id \<circ> ifs) ` V"
  have lb: "links (b, y) = Some (a, x)" "a \<noteq> b" "b \<in> V" "y \<in> set (ifs b)"
    using top l unfolding topology_def by metis+
  have oka: "switch_ok k ?ids (ifs a) (N a)" and okb: "switch_ok k ?ids (ifs b) (N b)" using inv a lb(3) by (auto simp: net_inv_def)
  from oka f obtain p v where p: "p \<in> set (br_ports (N a))" "pt_iface p = x" "says f v" "offered k ?ids (N a) p v"
    by (auto simp: switch_ok_def)
  have wfa: "stp_wf (N a)" and wb: "wired (N b)" using oka okb by (simp_all add: switch_ok_def)
  have "y \<in> set (map pt_iface (br_ports (N b)))" using okb lb(4) by (simp add: switch_ok_def)
  then obtain i where i: "i < length (br_ports (N b))" "pt_iface (br_ports (N b) ! i) = y" by (auto simp: in_set_conv_nth)
  with wb have port: "br_iface_port (N b) y = Some i" by (simp add: wired_def)
  have r: "stp_handle_packet y f (N b) = receive_config i v (N b)" using p(3) port by (simp add: says_def)
  have "br_id (N a) \<noteq> br_id (N b)"
    using inj_onD[of "switch_id \<circ> ifs" V a b] top oka okb a lb(2,3) unfolding topology_def switch_ok_def o_def by metis
  moreover have "v_cost v \<noteq> - 1"
    using p(4) k by (auto simp: offered_def unsigned_minus_1_eq_mask mask_eq_exp_minus_1)
  moreover have "0 \<le> v_port v" "v_port v < 65536" using p wfa by (auto simp: offered_def stp_wf_def port_wf_def)
  ultimately have honest: "honest_config (N b) v" using p(4) by (auto simp: honest_config_def offered_def)
  have heard: "heard_ok k ?ids links N b q" if "vec_of q = v" "pt_iface q = pt_iface (br_ports (N b) ! i)" for q
    using that p lb(1) i(2) by (auto simp: heard_ok_def)
  from worse_config_net[OF inv lb(3) i(1)] better_config_net[OF inv lb(3) i(1) honest _ heard] r lb(3) show ?thesis by auto
qed

lemma init_port:
  assumes "stp_init is' now = Inr s" "j < length is'"
  shows "br_ports s ! j = stp_new_port (switch_id is') j (is' ! j)" "length (br_ports s) = length is'" "j < 32"
  using assms by (auto simp: stp_init_def Let_def switch_id_def stp_consts split: if_splits)

lemma port_id_range: "j < 32 \<Longrightarrow> 0 \<le> push_bit 8 STP_PORT_PRIORITY OR (int j + 1) \<and> push_bit 8 STP_PORT_PRIORITY OR (int j + 1) < 65536"
  using OR_upper[of "push_bit 8 STP_PORT_PRIORITY" 16 "int j + 1"] by (simp add: STP_PORT_PRIORITY_def push_bit_eq_mult)

lemma stp_init_ok:
  assumes i: "stp_init is' now = Inr s" and is': "distinct is'" "\<forall>x \<in> set is'. length (if_mac x) = 6" and ids: "switch_id is' \<in> ids"
  shows "switch_ok 0 ids is' s" "\<forall>p \<in> set (br_ports s). stp_port_is_designated s p"
proof -
  have len: "length (br_ports s) = length is'" "is' \<noteq> []" using i by (auto simp: stp_init_def Let_def split: if_splits)
  have s: "br_id s = switch_id is'" "br_root s = switch_id is'" "br_cost s = 0" "br_root_port s = None" "br_sent s = []"
    "br_iface_port s = map_of (zip is' [0..<length is'])"
    using i by (auto simp: stp_init_def Let_def switch_id_def split: if_splits)
  have p: "port_wf p \<and> stp_port_is_designated s p \<and> vec_of p = offer s p" if "p \<in> set (br_ports s)" for p
  proof -
    from that len obtain j where j: "j < length is'" "p = br_ports s ! j" by (auto simp: in_set_conv_nth)
    from init_port[OF i j(1)] j is'(2) port_id_range[of j] s show ?thesis
      by (simp add: stp_new_port_def Let_def port_wf_def stp_port_is_designated_def vec_of_def offer_def)
  qed
  have wf: "stp_wf s" using p s by (simp add: stp_wf_def root_ok_def port_state_ok_def)
  have w: "wired s" using is'(1) init_port[OF i] len
    by (auto simp: wired_def s map_of_zip_is_None[symmetric] in_set_zip stp_new_port_def Let_def map_of_eq_Some_iff)
  have "map pt_iface (br_ports s) = is'"
    using init_port[OF i] len by (intro nth_equalityI) (simp_all add: stp_new_port_def Let_def)
  with wf w p s ids show "switch_ok 0 ids is' s" by (simp add: switch_ok_def)
  show "\<forall>p \<in> set (br_ports s). stp_port_is_designated s p" using p by blast
qed

lemma stp_timer_routine_eq:
  "\<exists>h fs. stp_timer_routine now later s = s\<lparr>br_clock := later, br_hello := h, br_sent := br_sent s @ fs\<rparr> \<and> (fs = [] \<or> fs = offers s)"
proof -
  have o: "offers (s\<lparr>br_clock := c, br_hello := h\<rparr>) = offers s" for c h
    by (simp add: offers_def stp_is_root_switch_def stp_port_is_designated_def stp_config_msg_def cong: filter_cong)
  obtain fired tm where t: "stp_check_timer (br_hello s) now = (fired, tm)" by fastforce
  show ?thesis
  proof (cases fired)
    case True
    with t have "stp_timer_routine now later s = s\<lparr>br_clock := later, br_hello := stp_start_timer later tm, br_sent := br_sent s @ offers s\<rparr>"
      by (simp add: stp_timer_routine_def stp_timer_run_once_def stp_handle_hello_timeout_def stp_send_config_offers Let_def o)
    then show ?thesis by blast
  next
    case False
    with t have "stp_timer_routine now later s = s\<lparr>br_clock := later, br_hello := tm, br_sent := br_sent s @ []\<rparr>"
      by (simp add: stp_timer_routine_def stp_timer_run_once_def)
    then show ?thesis by blast
  qed
qed

lemma stp_net_timer:
  assumes inv: "net_inv V ifs links k N" and a: "a \<in> V"
  shows "net_inv V ifs links k (N(a := stp_timer_routine now later (N a)))"
proof -
  let ?ids = "(switch_id \<circ> ifs) ` V"
  obtain h fs where s: "stp_timer_routine now later (N a) = (N a)\<lparr>br_clock := later, br_hello := h, br_sent := br_sent (N a) @ fs\<rparr>"
    "fs = [] \<or> fs = offers (N a)" using stp_timer_routine_eq by blast
  let ?s = "stp_timer_routine now later (N a)"
  have ok: "switch_ok k ?ids (ifs a) (N a)" using inv a by (simp add: net_inv_def)
  have des: "stp_port_is_designated ?s = stp_port_is_designated (N a)" by (rule designated_cong) (simp add: s(1))
  have succ: "successor (N a) ?s" by (rule successor_refl(2)) (simp_all add: s(1) tree_of_def)
  have wf: "stp_wf ?s" "stp_wf (N a)" using ok stp_wf_cong[of ?s "N a"] by (simp_all add: s(1) switch_ok_def)
  have root: "br_root ?s \<in> ?ids" "unat (br_cost ?s) \<le> k" using ok by (simp_all add: s(1) switch_ok_def)
  have o: "offer ?s = offer (N a)" by (simp add: s(1) offer_def fun_eq_iff)
  have "switch_ok k ?ids (ifs a) ?s"
    by (rule switch_ok_next[OF ok order_refl succ wf(1) _ _ _ root, where fs = fs])
      (use s(2) offers_says[OF wf(2)] o in \<open>auto simp: s(1)\<close>)
  from net_inv_step[OF inv a order_refl succ this] des show ?thesis by (auto simp: s(1))
qed

lemma stp_net_inv:
  assumes top: "topology V ifs links" and "stp_net V ifs links k N" "k < 2 ^ 32"
  shows "net_inv V ifs links k N"
  using assms(2,3)
proof (induction rule: stp_net.induct)
  case (start now N)
  show ?case unfolding net_inv_def
  proof (intro ballI conjI impI)
    fix a assume a: "a \<in> V"
    have d: "distinct (ifs a)" "\<forall>x \<in> set (ifs a). length (if_mac x) = 6" using top a unfolding topology_def by blast+
    have "switch_id (ifs a) \<in> (switch_id \<circ> ifs) ` V" using a by simp
    note ok = stp_init_ok[OF start.hyps[OF a] d this]
    show "switch_ok 0 ((switch_id \<circ> ifs) ` V) (ifs a) (N a)" by (rule ok(1))
    fix p assume "p \<in> set (br_ports (N a))" "\<not> stp_port_is_designated (N a) p"
    with ok(2) show "heard_ok 0 ((switch_id \<circ> ifs) ` V) links N a p" by blast
  qed
next
  case (frame k N a x f b y s)
  then have "net_inv V ifs links k N" "k < 2 ^ 32 - 1" by simp_all
  from stp_net_frame[OF top this frame.hyps(2-4)] frame.hyps(5) show ?case by (metis sum.inject(2))
qed (rule stp_net_timer)

text \<open>One more round of offers would change nothing: no port, no cost, no root.\<close>

definition stable :: "nat set \<Rightarrow> links \<Rightarrow> (nat \<Rightarrow> stp) \<Rightarrow> bool" where
  "stable V links N \<longleftrightarrow> (\<forall>a \<in> V. \<forall>(x, f) \<in> set (offers (N a)). case links (a, x) of
      None \<Rightarrow> True
    | Some (b, y) \<Rightarrow> (case stp_handle_packet y f (N b) of
        Inl e \<Rightarrow> False
      | Inr s \<Rightarrow> br_root s = br_root (N b) \<and> br_cost s = br_cost (N b) \<and> br_ports s = br_ports (N b)))"

definition linked :: "links \<Rightarrow> (nat \<times> nat) set" where
  "linked links = {(a, b). \<exists>x y. links (a, x) = Some (b, y)}"

definition connected :: "nat set \<Rightarrow> links \<Rightarrow> bool" where
  "connected V links \<longleftrightarrow> V \<noteq> {} \<and> (\<forall>a \<in> V. \<forall>b \<in> V. (a, b) \<in> (linked links)\<^sup>*)"

text \<open>The situation the next lemmas are about.\<close>

definition stable_net :: "nat set \<Rightarrow> (nat \<Rightarrow> iface_info list) \<Rightarrow> links \<Rightarrow> nat \<Rightarrow> (nat \<Rightarrow> stp) \<Rightarrow> bool" where
  "stable_net V ifs links k N \<longleftrightarrow> topology V ifs links \<and> stp_net V ifs links k N \<and> k < 2 ^ 32 - 1 \<and> stable V links N"

lemma stable_netD:
  assumes "stable_net V ifs links k N"
  shows "topology V ifs links" "stp_net V ifs links k N" "k < 2 ^ 32 - 1" "stable V links N"
  using assms by (auto simp: stable_net_def)

lemma snet_inv:
  assumes S: "stable_net V ifs links k N"
  shows "net_inv V ifs links k N"
  using stp_net_inv[OF stable_netD(1)[OF S] stable_netD(2)[OF S]] stable_netD(3)[OF S] by simp

lemma snet_ok:
  assumes S: "stable_net V ifs links k N"
  shows "a \<in> V \<Longrightarrow> switch_ok k ((switch_id \<circ> ifs) ` V) (ifs a) (N a)"
  using snet_inv[OF S] by (simp add: net_inv_def)

lemma snet_wf:
  assumes S: "stable_net V ifs links k N"
  shows "a \<in> V \<Longrightarrow> stp_wf (N a)"
  using snet_ok[OF S] by (simp add: switch_ok_def)

lemma snet_link:
  assumes S: "stable_net V ifs links k N"
  shows "links (a, x) = Some (b, y) \<Longrightarrow> links (b, y) = Some (a, x) \<and> a \<noteq> b \<and> a \<in> V \<and> b \<in> V \<and> x \<in> set (ifs a) \<and> y \<in> set (ifs b)"
  using stable_netD(1)[OF S] unfolding topology_def by metis

lemma snet_id_inj:
  assumes S: "stable_net V ifs links k N"
  shows "a \<in> V \<Longrightarrow> b \<in> V \<Longrightarrow> a \<noteq> b \<Longrightarrow> br_id (N a) \<noteq> br_id (N b)"
  using stable_netD(1)[OF S] snet_ok[OF S, of a] snet_ok[OF S, of b] inj_onD[of "switch_id \<circ> ifs" V a b] unfolding topology_def switch_ok_def o_def by metis

lemma snet_port:
  assumes S: "stable_net V ifs links k N"
    and "a \<in> V" "x \<in> set (ifs a)"
  shows "\<exists>i. i < length (br_ports (N a)) \<and> pt_iface (br_ports (N a) ! i) = x \<and> br_iface_port (N a) x = Some i"
proof -
  have "x \<in> set (map pt_iface (br_ports (N a)))" using snet_ok[OF S assms(2)] assms(3) by (simp add: switch_ok_def)
  then obtain i where "i < length (br_ports (N a))" "pt_iface (br_ports (N a) ! i) = x" by (auto simp: in_set_conv_nth)
  with snet_ok[OF S assms(2)] show ?thesis by (auto simp: switch_ok_def wired_def)
qed

lemma snet_port_unique:
  assumes S: "stable_net V ifs links k N"
    and "a \<in> V" "p \<in> set (br_ports (N a))" "q \<in> set (br_ports (N a))" "pt_iface p = pt_iface q"
  shows "p = q"
proof -
  from assms(3,4) obtain i j where "i < length (br_ports (N a))" "p = br_ports (N a) ! i" "j < length (br_ports (N a))" "q = br_ports (N a) ! j"
    by (auto simp: in_set_conv_nth)
  moreover from this assms(5) snet_ok[OF S assms(2)] have "br_iface_port (N a) (pt_iface q) = Some i" "br_iface_port (N a) (pt_iface q) = Some j"
    by (simp_all add: switch_ok_def wired_def)
  ultimately show ?thesis by simp
qed

lemma snet_port_in:
  assumes S: "stable_net V ifs links k N"
  shows "a \<in> V \<Longrightarrow> x \<in> set (ifs a) \<Longrightarrow> \<exists>p \<in> set (br_ports (N a)). pt_iface p = x"
  using snet_port[OF S] nth_mem by blast

text \<open>The other end of a link holds nothing worse than what a designated port offers.\<close>

lemma snet_le:
  assumes S: "stable_net V ifs links k N"
    and l: "links (a, pt_iface p) = Some (b, pt_iface q)" and p: "p \<in> set (br_ports (N a))" "stp_port_is_designated (N a) p"
    and q: "q \<in> set (br_ports (N b))"
  shows "vec_of q \<le> offer (N a) p"
proof -
  note ab = snet_link[OF S l]
  let ?v = "offer (N a) p" let ?f = "stp_frame p (stp_config_msg (N a) p)"
  have "stp_is_root_switch (N a) \<or> br_root_port (N a) \<noteq> None"
    using snet_wf[OF S, of a] ab by (auto simp: stp_wf_def root_ok_def stp_is_root_switch_def split: option.splits)
  with p have f: "(pt_iface p, ?f) \<in> set (offers (N a))" by (auto simp: offers_def)
  have pw: "port_wf p" using snet_wf[OF S, of a] ab p by (simp add: stp_wf_def)
  obtain i where i: "i < length (br_ports (N b))" "pt_iface (br_ports (N b) ! i) = pt_iface q" "br_iface_port (N b) (pt_iface q) = Some i"
    using snet_port[OF S] ab by blast
  with snet_port_unique[OF S, of b "br_ports (N b) ! i" q] q ab have qi: "br_ports (N b) ! i = q" by simp
  obtain s where s: "receive_config i ?v (N b) = Inr s" "br_root s = br_root (N b)" "br_cost s = br_cost (N b)" "br_ports s = br_ports (N b)"
  proof -
    have "case (pt_iface p, ?f) of (x, f) \<Rightarrow> (case links (a, x) of
      None \<Rightarrow> True
    | Some (b, y) \<Rightarrow> (case stp_handle_packet y f (N b) of
        Inl e \<Rightarrow> False
      | Inr s \<Rightarrow> br_root s = br_root (N b) \<and> br_cost s = br_cost (N b) \<and> br_ports s = br_ports (N b)))"
      using stable_netD(4)[OF S] f ab unfolding stable_def by blast
    then show ?thesis using that by (simp add: l stp_handle_offer[OF i(3) pw] split: sum.splits)
  qed
  show ?thesis
  proof (rule ccontr)
    assume n: "\<not> vec_of q \<le> ?v"
    have "honest_config (N b) ?v"
    proof -
      have "br_cost (N a) \<noteq> - 1" using snet_ok[OF S, of a] ab stable_netD(3)[OF S] by (auto simp: switch_ok_def unsigned_minus_1_eq_mask mask_eq_exp_minus_1)
      moreover have "br_id (N a) \<noteq> br_id (N b)" using snet_id_inj[OF S] ab by blast
      moreover have "br_cost (N a) = 0 \<Longrightarrow> br_root (N a) = br_id (N a)" using root_cost_0 snet_wf[OF S] ab by blast
      ultimately show ?thesis using pw by (auto simp: honest_config_def offer_def port_wf_def)
    qed
    from receive_better[OF snet_wf[OF S] i(1) this] n qi ab s(1) have ad: "adopts i ?v (N b) s" by auto
    have "br_ports s ! i = settle s (with_vec ?v q)" using ad i(1) qi by (simp add: adopts_def)
    with s(4) qi have "vec_of q = vec_of (settle s (with_vec ?v q))" by metis
    then have "vec_of q = min ?v (offer s q)" by (simp only: settle_simps with_vec_simps)
    with n show False by simp
  qed
qed

lemma snet_held:
  assumes S: "stable_net V ifs links k N"
    and l: "links (a, pt_iface p) = Some (b, pt_iface q)" and p: "p \<in> set (br_ports (N a))"
    and q: "q \<in> set (br_ports (N b))" "\<not> stp_port_is_designated (N b) q"
  shows "offer (N a) p \<le> vec_of q"
proof -
  have "heard_ok k ((switch_id \<circ> ifs) ` V) links N b q" using snet_inv[OF S] snet_link[OF S l] q unfolding net_inv_def by blast
  then obtain c r where r: "links (b, pt_iface q) = Some (c, pt_iface r)" "r \<in> set (br_ports (N c))"
    "offered k ((switch_id \<circ> ifs) ` V) (N c) r (vec_of q)" unfolding heard_ok_def by blast
  with snet_link[OF S l] have "c = a" "pt_iface r = pt_iface p" by auto
  with snet_port_unique[OF S, of a r p] r p snet_link[OF S l] have "r = p" by blast
  with r(3) \<open>c = a\<close> show ?thesis by (simp add: offered_def)
qed

text \<open>So a link has one designated end, and the other end holds just what it offers.\<close>

lemma snet_designated_end:
  assumes S: "stable_net V ifs links k N"
    and l: "links (a, pt_iface p) = Some (b, pt_iface q)" and p: "p \<in> set (br_ports (N a))" "stp_port_is_designated (N a) p"
    and q: "q \<in> set (br_ports (N b))"
  shows "\<not> stp_port_is_designated (N b) q \<and> vec_of q = offer (N a) p"
proof -
  note ab = snet_link[OF S l]
  have le: "vec_of q \<le> offer (N a) p" by (rule snet_le[OF S l p q])
  have vp: "vec_of p = offer (N a) p" using snet_wf[OF S, of a] ab p by (simp add: stp_wf_def port_state_ok_def)
  have nd: "\<not> stp_port_is_designated (N b) q"
  proof
    assume d: "stp_port_is_designated (N b) q"
    then have "vec_of q = offer (N b) q" using snet_wf[OF S, of b] ab q by (simp add: stp_wf_def port_state_ok_def)
    moreover have "vec_of p \<le> offer (N b) q" by (rule snet_le[OF S _ q d p(1)]) (use ab in simp)
    ultimately have "offer (N a) p = offer (N b) q" using le vp by simp
    then have "br_id (N a) = br_id (N b)" by (simp add: offer_def)
    with snet_id_inj[OF S] ab show False by blast
  qed
  with snet_held[OF S l p(1) q] le show ?thesis by simp
qed

lemma snet_other_end:
  assumes S: "stable_net V ifs links k N"
    and l: "links (a, pt_iface p) = Some (b, pt_iface q)" and p: "p \<in> set (br_ports (N a))" and q: "q \<in> set (br_ports (N b))"
    "\<not> stp_port_is_designated (N b) q"
  shows "stp_port_is_designated (N a) p"
proof (rule ccontr)
  assume d: "\<not> stp_port_is_designated (N a) p"
  note ab = snet_link[OF S l]
  have "vec_of p < offer (N a) p" "vec_of q < offer (N b) q"
    using snet_wf[OF S, of a] snet_wf[OF S, of b] ab d p q by (auto simp: stp_wf_def port_state_ok_def)
  moreover have "offer (N a) p \<le> vec_of q" "offer (N b) q \<le> vec_of p" using snet_held[OF S l p q] snet_held[OF S, of b q a p] ab p q d by auto
  ultimately show False by order
qed

text \<open>The ends of a link agree on the root, and their costs differ by at most one.\<close>

lemma snet_beyond:
  assumes S: "stable_net V ifs links k N"
    and l: "links (a, pt_iface p) = Some (b, pt_iface q)" and p: "p \<in> set (br_ports (N a))" "stp_port_is_designated (N a) p"
    and q: "q \<in> set (br_ports (N b))"
  shows "br_root (N b) = br_root (N a)" "unat (br_cost (N b)) \<le> unat (br_cost (N a)) + 1" "unat (br_cost (N a)) \<le> unat (br_cost (N b))"
proof -
  note ab = snet_link[OF S l] and d = snet_designated_end[OF S l p q]
  have wb: "stp_wf (N b)" using snet_wf[OF S] ab by blast
  have "port_state_ok (N b) q" using wb q by (simp add: stp_wf_def)
  then have less: "vec_of q < offer (N b) q" "pt_cost q \<noteq> - 1" using d by (auto simp: port_state_ok_def)
  from wb d q obtain r where r: "br_root_port (N b) = Some r" by (cases "br_root_port (N b)") (auto simp: stp_wf_def root_ok_def)
  let ?r = "br_ports (N b) ! r"
  from wb r have rr: "br_root (N b) = pt_root ?r" "br_cost (N b) = pt_cost ?r + 1" "r < length (br_ports (N b))"
    "\<not> stp_port_is_designated (N b) ?r" and min: "\<forall>q \<in> set (br_ports (N b)). \<not> stp_port_is_designated (N b) q \<longrightarrow> rank (vec_of ?r) \<le> rank (vec_of q)"
    unfolding stp_wf_def root_ok_def by auto
  from wb rr have rc: "pt_cost ?r \<noteq> - 1" by (simp add: stp_wf_def port_state_ok_def)
  have "rank (vec_of ?r) \<le> rank (offer (N a) p)" using min q d by auto
  then have "br_root (N b) < br_root (N a) \<or> br_root (N b) = br_root (N a) \<and> pt_cost ?r \<le> br_cost (N a)"
    using rr by (auto simp: rank_def offer_def vec_of_def Vec_le)
  moreover have "br_root (N a) < br_root (N b) \<or> br_root (N a) = br_root (N b) \<and> br_cost (N a) \<le> br_cost (N b)"
    using less(1) d by (auto simp: offer_def)
  ultimately have "br_root (N b) = br_root (N a)" "pt_cost ?r \<le> br_cost (N a)" "br_cost (N a) \<le> br_cost (N b)" by auto
  with rr(2) rc show "br_root (N b) = br_root (N a)" "unat (br_cost (N b)) \<le> unat (br_cost (N a)) + 1"
    "unat (br_cost (N a)) \<le> unat (br_cost (N b))" by (simp_all add: unat_inc word_le_nat_alt)
qed

lemma snet_across:
  assumes S: "stable_net V ifs links k N"
    and "(a, b) \<in> linked links"
  shows "a \<in> V" "b \<in> V" "br_root (N b) = br_root (N a)" "unat (br_cost (N b)) \<le> unat (br_cost (N a)) + 1"
proof -
  from assms(2) obtain x y where l: "links (a, x) = Some (b, y)" by (auto simp: linked_def)
  note ab = snet_link[OF S l]
  from snet_port_in[OF S] ab obtain p q where p: "p \<in> set (br_ports (N a))" "pt_iface p = x" and q: "q \<in> set (br_ports (N b))" "pt_iface q = y" by blast
  have l': "links (a, pt_iface p) = Some (b, pt_iface q)" "links (b, pt_iface q) = Some (a, pt_iface p)" using p q l ab by auto
  have "br_root (N b) = br_root (N a) \<and> unat (br_cost (N b)) \<le> unat (br_cost (N a)) + 1"
  proof (cases "stp_port_is_designated (N a) p")
    case True
    from snet_beyond[OF S l'(1) p(1) True q(1)] show ?thesis by simp
  next
    case False
    have "stp_port_is_designated (N b) q" by (rule snet_other_end[OF S l'(2) q(1) p(1) False])
    from snet_beyond[OF S l'(2) q(1) this p(1)] show ?thesis by simp
  qed
  with ab show "a \<in> V" "b \<in> V" "br_root (N b) = br_root (N a)" "unat (br_cost (N b)) \<le> unat (br_cost (N a)) + 1" by auto
qed

lemma snet_one_root:
  assumes S: "stable_net V ifs links k N"
  shows "(a, b) \<in> (linked links)\<^sup>* \<Longrightarrow> br_root (N b) = br_root (N a)"
  by (induction rule: rtrancl_induct) (auto simp: snet_across[OF S])

text \<open>The root port of a switch leads to a designated port of a switch one step closer to the root.\<close>

lemma snet_upstream:
  assumes S: "stable_net V ifs links k N"
    and a: "a \<in> V" and r: "br_root_port (N a) = Some i"
  shows "\<exists>b q. links (a, pt_iface (br_ports (N a) ! i)) = Some (b, pt_iface q) \<and> q \<in> set (br_ports (N b)) \<and>
    stp_port_is_designated (N b) q \<and> unat (br_cost (N a)) = unat (br_cost (N b)) + 1"
proof -
  let ?p = "br_ports (N a) ! i"
  from snet_wf[OF S a] r have p: "i < length (br_ports (N a))" "\<not> stp_port_is_designated (N a) ?p" "br_cost (N a) = pt_cost ?p + 1"
    unfolding stp_wf_def root_ok_def by auto
  then have pi: "?p \<in> set (br_ports (N a))" by simp
  with snet_wf[OF S a] p have pc: "pt_cost ?p \<noteq> - 1" by (simp add: stp_wf_def port_state_ok_def)
  have "heard_ok k ((switch_id \<circ> ifs) ` V) links N a ?p" using snet_inv[OF S] a pi p(2) unfolding net_inv_def by blast
  then obtain b q where q: "links (a, pt_iface ?p) = Some (b, pt_iface q)" "q \<in> set (br_ports (N b))" unfolding heard_ok_def by blast
  have l: "links (b, pt_iface q) = Some (a, pt_iface ?p)" using snet_link[OF S q(1)] by blast
  have d: "stp_port_is_designated (N b) q" by (rule snet_other_end[OF S l q(2) pi p(2)])
  have "vec_of ?p = offer (N b) q" using snet_designated_end[OF S l q(2) d pi] by blast
  then have "pt_cost ?p = br_cost (N b)" by (simp add: vec_of_def offer_def)
  with p(3) pc q d show ?thesis by (auto simp: unat_inc)
qed

lemma snet_root_switch:
  assumes S: "stable_net V ifs links k N"
  shows "a \<in> V \<Longrightarrow> br_root_port (N a) = None \<longleftrightarrow> br_root (N a) = switch_id (ifs a)" "a \<in> V \<Longrightarrow> br_root_port (N a) = None \<longleftrightarrow> br_cost (N a) = 0"
  "a \<in> V \<Longrightarrow> br_root (N a) \<le> switch_id (ifs a)"
proof -
  assume a: "a \<in> V"
  have id: "br_id (N a) = switch_id (ifs a)" using snet_ok[OF S a] by (simp add: switch_ok_def)
  have "br_root_port (N a) \<noteq> None \<Longrightarrow> br_root (N a) < br_id (N a) \<and> br_cost (N a) \<noteq> 0"
    using stp_wf_root[OF snet_wf[OF S a]] inc_neq_0 by auto
  moreover have "br_root_port (N a) = None \<Longrightarrow> br_root (N a) = br_id (N a) \<and> br_cost (N a) = 0"
    using snet_wf[OF S a] by (simp add: stp_wf_def root_ok_def)
  ultimately show "br_root_port (N a) = None \<longleftrightarrow> br_root (N a) = switch_id (ifs a)" "br_root_port (N a) = None \<longleftrightarrow> br_cost (N a) = 0"
    "br_root (N a) \<le> switch_id (ifs a)" using id by (cases "br_root_port (N a)"; force)+
qed

lemma snet_root:
  assumes S: "stable_net V ifs links k N"
    and "connected V links"
  shows "\<exists>r \<in> V. (\<forall>a \<in> V. br_root (N a) = switch_id (ifs r) \<and> switch_id (ifs r) \<le> switch_id (ifs a)) \<and> br_cost (N r) = 0"
proof -
  from assms(2) obtain c where c: "c \<in> V" by (auto simp: connected_def)
  then obtain r where r: "r \<in> V" "br_root (N c) = switch_id (ifs r)" using snet_ok[OF S, of c] by (auto simp: switch_ok_def)
  have same: "br_root (N a) = switch_id (ifs r)" if "a \<in> V" for a
    using snet_one_root[OF S, of c a] assms(2) c that r(2) by (auto simp: connected_def)
  with snet_root_switch[OF S] r(1) show ?thesis by (metis)
qed

lemma snet_distance:
  assumes S: "stable_net V ifs links k N"
    and r: "r \<in> V" "br_cost (N r) = 0"
  shows "(a, r) \<in> linked links ^^ n \<Longrightarrow> unat (br_cost (N a)) \<le> n"
proof (induction n arbitrary: a)
  case (Suc n)
  obtain b where "(a, b) \<in> linked links" "(b, r) \<in> linked links ^^ n" using relpow_Suc_D2[OF Suc.prems] by blast
  moreover from this(1) snet_link[OF S] have "(b, a) \<in> linked links" unfolding linked_def by blast
  ultimately show ?case using Suc.IH snet_across(4)[OF S, of b a] by fastforce
qed (use r in simp)

lemma snet_path:
  assumes S: "stable_net V ifs links k N"
    and root: "\<And>a. a \<in> V \<Longrightarrow> br_root (N a) = br_id (N r)" and r: "r \<in> V"
  shows "a \<in> V \<Longrightarrow> unat (br_cost (N a)) = n \<Longrightarrow> (a, r) \<in> linked links ^^ n"
proof (induction n arbitrary: a)
  case 0
  then have "br_root (N a) = switch_id (ifs a)" using snet_root_switch(1,2)[OF S, of a] by (simp add: unsigned_eq_0_iff)
  then have "br_id (N a) = br_id (N r)" using root[OF 0(1)] snet_ok[OF S 0(1)] by (simp add: switch_ok_def)
  with snet_id_inj[OF S] 0 r show ?case by auto
next
  case (Suc n)
  then have "br_root_port (N a) \<noteq> None" using snet_root_switch(2)[OF S, of a] by auto
  then obtain i where "br_root_port (N a) = Some i" by blast
  from snet_upstream[OF S Suc.prems(1) this] obtain b y where b: "links (a, pt_iface (br_ports (N a) ! i)) = Some (b, y)"
    "unat (br_cost (N a)) = unat (br_cost (N b)) + 1" by blast
  then have "(b, r) \<in> linked links ^^ n" using Suc.IH[of b] Suc.prems(2) snet_link[OF S b(1)] by linarith
  moreover have "(a, b) \<in> linked links" using b(1) unfolding linked_def by blast
  ultimately show ?case by (rule relpow_Suc_I2[rotated])
qed

definition designated_at :: "stp \<Rightarrow> iface_info \<Rightarrow> bool" where
  "designated_at s x \<longleftrightarrow> (case br_iface_port s x of None \<Rightarrow> False | Some i \<Rightarrow> stp_port_is_designated s (br_ports s ! i))"

lemma snet_link_ends:
  assumes S: "stable_net V ifs links k N" and l: "links (a, x) = Some (b, y)"
  shows "designated_at (N a) x \<noteq> designated_at (N b) y"
proof -
  note ab = snet_link[OF S l]
  from snet_port[OF S] ab obtain i j where i: "i < length (br_ports (N a))" "pt_iface (br_ports (N a) ! i) = x" "br_iface_port (N a) x = Some i"
    and j: "j < length (br_ports (N b))" "pt_iface (br_ports (N b) ! j) = y" "br_iface_port (N b) y = Some j" by metis
  have l': "links (a, pt_iface (br_ports (N a) ! i)) = Some (b, pt_iface (br_ports (N b) ! j))" using l i j by simp
  show ?thesis using snet_designated_end[OF S l' nth_mem[OF i(1)] _ nth_mem[OF j(1)]]
      snet_other_end[OF S l' nth_mem[OF i(1)] nth_mem[OF j(1)]] i(3) j(3) by (auto simp: designated_at_def)
qed

section \<open>An example\<close>

text \<open>Two switches, connected twice.\<close>

definition example_port :: "u8 \<Rightarrow> u8 \<Rightarrow> iface_info" where
  "example_port a i = \<lparr>if_fd = uint i, if_index = uint i, if_mac = [0, 0, 0, 0, a, i], if_name = ''eth''\<rparr>"

definition example_ifs :: "nat \<Rightarrow> iface_info list" where
  "example_ifs a = [example_port (of_nat a) 1, example_port (of_nat a) 2]"

definition example_links :: links where
  "example_links = map_of [((0, example_port 0 1), (2, example_port 2 1)), ((2, example_port 2 1), (0, example_port 0 1)),
     ((0, example_port 0 2), (2, example_port 2 2)), ((2, example_port 2 2), (0, example_port 0 2))]"

lemma example_topology: "topology {0, 2} example_ifs example_links" "connected {0, 2} example_links"
proof -
  have "inj_on (switch_id \<circ> example_ifs) {0, 2}"
    by (simp add: switch_id_def example_ifs_def example_port_def mac_to_u64_def stp_consts)
  then show "topology {0, 2} example_ifs example_links"
    by (auto simp: topology_def example_links_def example_ifs_def example_port_def split: if_splits)
  have "(0, 2) \<in> linked example_links" "(2, 0) \<in> linked example_links"
    unfolding linked_def example_links_def by (auto simp: example_port_def intro!: exI)
  then show "connected {0, 2} example_links" by (auto simp: connected_def)
qed

abbreviation id_a :: u64 where "id_a \<equiv> 0x8000000000000001"
abbreviation id_b :: u64 where "id_b \<equiv> 0x8000000000000201"

definition port_1 :: "u8 \<Rightarrow> config_vec \<Rightarrow> stp_port" where
  "port_1 a v = \<lparr>pt_id = 32769, pt_name = ''eth'', pt_iface = example_port a 1, pt_path_cost = 1, pt_root = v_root v,
     pt_switch = v_switch v, pt_port = v_port v, pt_cost = v_cost v\<rparr>"

definition port_2 :: "u8 \<Rightarrow> config_vec \<Rightarrow> stp_port" where
  "port_2 a v = \<lparr>pt_id = 32770, pt_name = ''eth'', pt_iface = example_port a 2, pt_path_cost = 1, pt_root = v_root v,
     pt_switch = v_switch v, pt_port = v_port v, pt_cost = v_cost v\<rparr>"

definition example_stp :: "u8 \<Rightarrow> u64 \<Rightarrow> u64 \<Rightarrow> u32 \<Rightarrow> nat option \<Rightarrow> config_vec \<Rightarrow> config_vec \<Rightarrow> stp \<Rightarrow> bool" where
  "example_stp a sid root cost rp v w s \<longleftrightarrow> br_id s = sid \<and> br_root s = root \<and> br_cost s = cost \<and> br_root_port s = rp \<and>
     br_ports s = [port_1 a v, port_2 a w] \<and> br_iface_port s (example_port a 1) = Some 0 \<and>
     br_iface_port s (example_port a 2) = Some 1"

lemma port_simps [simp]: "pt_id (port_1 a v) = 32769" "pt_id (port_2 a v) = 32770" "vec_of (port_1 a v) = v" "vec_of (port_2 a v) = v"
  "pt_iface (port_1 a v) = example_port a 1" "pt_iface (port_2 a v) = example_port a 2" "pt_path_cost (port_1 a v) = 1" "pt_path_cost (port_2 a v) = 1"
  "port_wf (port_1 a v)" "port_wf (port_2 a v)" "pt_root (port_1 a v) = v_root v" "pt_root (port_2 a v) = v_root v"
  "pt_cost (port_1 a v) = v_cost v" "pt_cost (port_2 a v) = v_cost v" "pt_switch (port_1 a v) = v_switch v" "pt_switch (port_2 a v) = v_switch v"
  "(port_1 a v)\<lparr>pt_root := r, pt_cost := c, pt_switch := s, pt_port := p\<rparr> = port_1 a (Vec r c s p)"
  "(port_2 a v)\<lparr>pt_root := r, pt_cost := c, pt_switch := s, pt_port := p\<rparr> = port_2 a (Vec r c s p)"
  "(port_1 a v)\<lparr>pt_switch := s, pt_port := p\<rparr> = port_1 a (Vec (v_root v) (v_cost v) s p)"
  "(port_2 a v)\<lparr>pt_switch := s, pt_port := p\<rparr> = port_2 a (Vec (v_root v) (v_cost v) s p)"
  "(port_1 a v)\<lparr>pt_root := r, pt_cost := c\<rparr> = port_1 a (Vec r c (v_switch v) (v_port v))"
  "(port_2 a v)\<lparr>pt_root := r, pt_cost := c\<rparr> = port_2 a (Vec r c (v_switch v) (v_port v))"
  by (simp_all add: port_1_def port_2_def vec_of_def port_wf_def) (simp_all add: example_port_def)

lemma example_init:
  "\<exists>s. stp_init (example_ifs 0) 0 = Inr s \<and> br_sent s = [] \<and> br_hello s = \<lparr>tmr_active = True, tmr_time = 0, tmr_timeout = 512\<rparr> \<and>
    example_stp 0 id_a id_a 0 None (Vec id_a 0 id_a 32769) (Vec id_a 0 id_a 32770) s"
  "\<exists>s. stp_init (example_ifs 2) 0 = Inr s \<and> example_stp 2 id_b id_b 0 None (Vec id_b 0 id_b 32769) (Vec id_b 0 id_b 32770) s"
  by (auto simp: stp_init_def example_ifs_def Let_def example_stp_def example_port_def mac_to_u64_def
      stp_consts port_1_def port_2_def stp_new_port_def stp_start_timer_def stp_init_timer_def upt_rec)

lemma hear_1:
  assumes "example_stp 2 id_b id_b 0 None (Vec id_b 0 id_b 32769) (Vec id_b 0 id_b 32770) s"
  shows "\<exists>t. receive_config 0 (Vec id_a 0 id_a 32769) s = Inr t \<and>
      example_stp 2 id_b id_a 1 (Some 0) (Vec id_a 0 id_a 32769) (Vec id_a 1 id_b 32770) t"
  using assms by (auto simp: example_stp_def receive_config_def replace_config_def Let_def stp_send_config_offers designated_iff
    become_designated_def update_designated_def superior_to_less stp_is_root_switch_def upt_rec)

lemma hear_2:
  assumes "example_stp 2 id_b id_a 1 (Some 0) (Vec id_a 0 id_a 32769) w s" "w = Vec id_a 1 id_b 32770 \<or> w = Vec id_a 0 id_a 32770"
  shows "\<exists>t. receive_config 1 (Vec id_a 0 id_a 32770) s = Inr t \<and>
      example_stp 2 id_b id_a 1 (Some 0) (Vec id_a 0 id_a 32769) (Vec id_a 0 id_a 32770) t"
  using assms by (auto simp: example_stp_def receive_config_def replace_config_def Let_def stp_send_config_offers designated_iff
    become_designated_def update_designated_def superior_to_less stp_is_root_switch_def upt_rec)

lemma hear_again:
  assumes "example_stp 2 id_b id_a 1 (Some 0) (Vec id_a 0 id_a 32769) (Vec id_a 0 id_a 32770) s"
  shows "\<exists>t. receive_config 0 (Vec id_a 0 id_a 32769) s = Inr t \<and>
      example_stp 2 id_b id_a 1 (Some 0) (Vec id_a 0 id_a 32769) (Vec id_a 0 id_a 32770) t"
  using assms by (auto simp: example_stp_def receive_config_def replace_config_def Let_def stp_send_config_offers designated_iff
    become_designated_def update_designated_def superior_to_less stp_is_root_switch_def upt_rec)

lemma example_offers:
  assumes "example_stp 0 id_a id_a 0 None (Vec id_a 0 id_a 32769) (Vec id_a 0 id_a 32770) s"
  shows "\<exists>f g. offers s = [(example_port 0 1, f), (example_port 0 2, g)] \<and> says f (Vec id_a 0 id_a 32769) \<and> says g (Vec id_a 0 id_a 32770)"
proof -
  have "says (stp_frame (port_1 0 v) (stp_config_msg s (port_1 0 v))) (Vec id_a 0 id_a 32769)"
    "says (stp_frame (port_2 0 v) (stp_config_msg s (port_2 0 v))) (Vec id_a 0 id_a 32770)" for v
    using says_offer[of "port_1 0 v" s] says_offer[of "port_2 0 v" s] assms by (simp_all add: offer_def example_stp_def)
  with assms show ?thesis
    by (simp add: offers_def example_stp_def stp_is_root_switch_def designated_iff)
qed

lemma example_hello:
  assumes "example_stp 0 id_a id_a 0 None v w s" "br_hello s = \<lparr>tmr_active = True, tmr_time = 0, tmr_timeout = 512\<rparr>"
  shows "example_stp 0 id_a id_a 0 None v w (stp_timer_routine 512 512 s) \<and>
    set (offers (stp_timer_routine 512 512 s)) \<subseteq> set (br_sent (stp_timer_routine 512 512 s))"
proof -
  have "offers (stp_timer_routine 512 512 s) = offers s"
    using assms by (simp add: stp_timer_routine_def stp_timer_run_once_def stp_check_timer_def stp_handle_hello_timeout_def Let_def
       stp_send_config_offers offers_def stp_is_root_switch_def stp_port_is_designated_def stp_config_msg_def cong: filter_cong)
  moreover have "br_sent (stp_timer_routine 512 512 s) = br_sent s @ offers s"
    using assms by (simp add: stp_timer_routine_def stp_timer_run_once_def stp_check_timer_def stp_handle_hello_timeout_def Let_def
       stp_send_config_offers offers_def stp_is_root_switch_def stp_port_is_designated_def stp_config_msg_def cong: filter_cong)
  ultimately show ?thesis
    using assms by (simp add: stp_timer_routine_def stp_timer_run_once_def stp_check_timer_def stp_handle_hello_timeout_def Let_def
       stp_send_config_offers example_stp_def)
qed

section \<open>Properties\<close>

text \<open>
  C1: the spanning tree.  Take any connected network of switches, and any state it reaches from the start, with
  frames delayed, repeated, overtaken or lost and timers running at any time, in fewer than \<open>2 ^ 32 - 1\<close>
  arrivals.  If one more round of configuration messages would change nothing, then all switches
  take the one with the least identifier for the root; the cost each has is its distance from
  the root, in links; the root port of every other switch leads one step closer to it; and every
  link has exactly one designated end.
\<close>
theorem spanning_tree:
  assumes "topology V ifs links" "connected V links" "stp_net V ifs links k N" "k < 2 ^ 32 - 1" "stable V links N"
  shows "\<exists>r \<in> V. \<forall>a \<in> V. switch_id (ifs r) \<le> switch_id (ifs a) \<and> br_root (N a) = switch_id (ifs r) \<and>
    (a, r) \<in> linked links ^^ unat (br_cost (N a)) \<and> (\<forall>n. (a, r) \<in> linked links ^^ n \<longrightarrow> unat (br_cost (N a)) \<le> n) \<and>
    (a \<noteq> r \<longrightarrow> (\<exists>i b y. br_root_port (N a) = Some i \<and> links (a, pt_iface (br_ports (N a) ! i)) = Some (b, y) \<and>
      unat (br_cost (N a)) = unat (br_cost (N b)) + 1)) \<and>
    (\<forall>x b y. links (a, x) = Some (b, y) \<longrightarrow> designated_at (N a) x \<noteq> designated_at (N b) y)"
proof -
  have S: "stable_net V ifs links k N" using assms by (simp add: stable_net_def)
  obtain r where r: "r \<in> V" "\<And>a. a \<in> V \<Longrightarrow> br_root (N a) = switch_id (ifs r)" "\<And>a. a \<in> V \<Longrightarrow> switch_id (ifs r) \<le> switch_id (ifs a)"
    "br_cost (N r) = 0" using snet_root[OF S assms(2)] by blast
  have id: "br_id (N a) = switch_id (ifs a)" if "a \<in> V" for a using snet_ok[OF S that] by (simp add: switch_ok_def)
  have root_port: "br_root_port (N a) \<noteq> None" if "a \<in> V" "a \<noteq> r" for a
    using snet_root_switch(1)[OF S that(1)] r snet_id_inj[OF S that(1) r(1) that(2)] id that(1) by auto
  have up: "\<exists>i b y. br_root_port (N a) = Some i \<and> links (a, pt_iface (br_ports (N a) ! i)) = Some (b, y) \<and>
      unat (br_cost (N a)) = unat (br_cost (N b)) + 1" if "a \<in> V" "a \<noteq> r" for a
    using root_port[OF that] snet_upstream[OF S that(1)] by blast
  have path: "(a, r) \<in> linked links ^^ unat (br_cost (N a))" if "a \<in> V" for a
    using snet_path[OF S _ r(1) that refl] r(2) id[OF r(1)] by simp
  show ?thesis
    using r snet_distance[OF S r(1,4)] up path snet_link_ends[OF S] by (intro bexI[of _ r] ballI conjI allI impI) auto
qed

theorem spanning_tree_witness:
  "\<exists>N k. stp_net {0, 2} example_ifs example_links k N \<and> stable {0, 2} example_links N \<and>
    br_root (N 2) = switch_id (example_ifs 0) \<and> (\<forall>x y. example_links (0, x) = Some (2, y) \<longrightarrow>
       designated_at (N 0) x \<noteq> designated_at (N 2) y)"
proof -
  obtain A B where i: "stp_init (example_ifs 0) 0 = Inr A" "br_hello A = \<lparr>tmr_active = True, tmr_time = 0, tmr_timeout = 512\<rparr>"
     "example_stp 0 id_a id_a 0 None (Vec id_a 0 id_a 32769) (Vec id_a 0 id_a 32770) A"
    "stp_init (example_ifs 2) 0 = Inr B" "example_stp 2 id_b id_b 0 None (Vec id_b 0 id_b 32769) (Vec id_b 0 id_b 32770) B"
    using example_init by blast
  define A1 where "A1 = stp_timer_routine 512 512 A"
  from example_hello[OF i(3,2)] have A1: "example_stp 0 id_a id_a 0 None (Vec id_a 0 id_a 32769) (Vec id_a 0 id_a 32770) A1"
    "set (offers A1) \<subseteq> set (br_sent A1)" by (simp_all add: A1_def)
  obtain f g where o: "offers A1 = [(example_port 0 1, f), (example_port 0 2, g)]" "says f (Vec id_a 0 id_a 32769)" "says g (Vec id_a 0 id_a 32770)"
    using example_offers[OF A1(1)] by blast
  obtain B1 where B1: "receive_config 0 (Vec id_a 0 id_a 32769) B = Inr B1"
    "example_stp 2 id_b id_a 1 (Some 0) (Vec id_a 0 id_a 32769) (Vec id_a 1 id_b 32770) B1" using hear_1[OF i(5)] by blast
  obtain B2 where B2: "receive_config 1 (Vec id_a 0 id_a 32770) B1 = Inr B2"
    "example_stp 2 id_b id_a 1 (Some 0) (Vec id_a 0 id_a 32769) (Vec id_a 0 id_a 32770) B2" using hear_2[OF B1(2)] by blast
  obtain C D where again: "receive_config 0 (Vec id_a 0 id_a 32769) B2 = Inr C" "receive_config 1 (Vec id_a 0 id_a 32770) B2 = Inr D"
    "example_stp 2 id_b id_a 1 (Some 0) (Vec id_a 0 id_a 32769) (Vec id_a 0 id_a 32770) C"
    "example_stp 2 id_b id_a 1 (Some 0) (Vec id_a 0 id_a 32769) (Vec id_a 0 id_a 32770) D" using hear_again[OF B2(2)] hear_2[OF B2(2)] by blast
  have h: "stp_handle_packet (example_port 2 1) f B = Inr B1" "stp_handle_packet (example_port 2 2) g B1 = Inr B2"
    "stp_handle_packet (example_port 2 1) f B2 = Inr C" "stp_handle_packet (example_port 2 2) g B2 = Inr D"
    using o i(5) B1 B2 again by (auto simp: says_def example_stp_def)
  have off: "offers B2 = []" using B2(2) by (simp add: offers_def example_stp_def designated_iff)
  have l: "example_links (0, example_port 0 1) = Some (2, example_port 2 1)" "example_links (0, example_port 0 2) = Some (2, example_port 2 2)"
    by (simp_all add: example_links_def example_port_def)
  define N0 where "N0 a = (if a = 0 then A else B)" for a :: nat
  have 0: "stp_net {0, 2} example_ifs example_links 0 N0"
    by (rule stp_net.start[where now = "\<lambda>_. 0"]) (use i(1,4) in \<open>auto simp: N0_def\<close>)
  define N1 where "N1 = N0(0 := A1)"
  have 1: "stp_net {0, 2} example_ifs example_links 0 N1"
    using stp_net.timer[OF 0, of 0 512 512] by (simp add: N1_def N0_def A1_def)
  have f: "(example_port 0 1, f) \<in> set (br_sent A1)" "(example_port 0 2, g) \<in> set (br_sent A1)" using A1(2) o(1) by auto
  have 2: "stp_net {0, 2} example_ifs example_links 1 (N1(2 := B1))"
    using stp_net.frame[OF 1 _ _ l(1), of f B1] f h(1) by (simp add: N1_def N0_def)
  have 3: "stp_net {0, 2} example_ifs example_links 2 (N1(2 := B1, 2 := B2))"
    using stp_net.frame[OF 2 _ _ l(2), of g B2] f h(2) by (simp add: N1_def numeral_2_eq_2)
  have s: "stable {0, 2} example_links (N1(2 := B1, 2 := B2))"
    using o(1) off h(3,4) again(3,4) B2(2) l by (simp add: stable_def N1_def example_stp_def)
  have "br_root B2 = switch_id (example_ifs 0)"
    using B2(2) by (simp add: example_stp_def switch_id_def example_ifs_def example_port_def mac_to_u64_def stp_consts)
  moreover from spanning_tree[OF example_topology 3 _ s] have
    "\<forall>x y. example_links (0, x) = Some (2, y) \<longrightarrow> designated_at ((N1(2 := B1, 2 := B2)) 0) x \<noteq> designated_at ((N1(2 := B1, 2 := B2)) 2) y" by auto
  ultimately show ?thesis using 3 s by (intro exI[of _ "N1(2 := B1, 2 := B2)"] exI[of _ 2]) auto
qed

text \<open>
  C24: frames between switches are safe to handle.  In a network of switches, however the frames are
  delayed, repeated or lost, a configuration message that arrives is handled without a fault; the
  root a switch believes in, and the cost to it, never get worse; and afterwards the switch is either
  its own root, with no root port, or has the best of its ports that are not designated for the
  root port, from which it takes root and cost.
\<close>
theorem stp_frames_handled:
  assumes "topology V ifs links" "stp_net V ifs links k N" "k < 2 ^ 32 - 1"
    and "a \<in> V" "(x, f) \<in> set (br_sent (N a))" "links (a, x) = Some (b, y)"
  shows "\<exists>s. stp_handle_packet y f (N b) = Inr s \<and>
    (br_root s < br_root (N b) \<or> br_root s = br_root (N b) \<and> br_cost s \<le> br_cost (N b)) \<and>
    (case br_root_port s of
       None \<Rightarrow> br_root s = switch_id (ifs b) \<and> br_cost s = 0 \<and> (\<forall>p \<in> set (br_ports s). stp_port_is_designated s p)
     | Some r \<Rightarrow> r < length (br_ports s) \<and> br_root s < switch_id (ifs b) \<and> br_root s = pt_root (br_ports s ! r) \<and>
         br_cost s = pt_cost (br_ports s ! r) + 1 \<and> \<not> stp_port_is_designated s (br_ports s ! r) \<and>
         (\<forall>q \<in> set (br_ports s). \<not> stp_port_is_designated s q \<longrightarrow> \<not> superior_to q (pt_root (br_ports s ! r)) (pt_cost (br_ports s ! r))
            (pt_switch (br_ports s ! r)) 0))"
proof -
  have "net_inv V ifs links k N" using stp_net_inv[OF assms(1,2)] assms(3) by simp
  from stp_net_frame[OF assms(1) this assms(3-6)] obtain s where s: "stp_handle_packet y f (N b) = Inr s"
    "net_inv V ifs links (Suc k) (N(b := s))" "successor (N b) s" "b \<in> V" by blast
  then have ok: "stp_wf s" "br_id s = switch_id (ifs b)" by (auto simp: net_inv_def switch_ok_def)
  have "tree_of s \<le> tree_of (N b)" using s(3) by (simp only: successor_def)
  then have better: "br_root s < br_root (N b) \<or> br_root s = br_root (N b) \<and> br_cost s \<le> br_cost (N b)"
    by (auto simp: tree_of_def Vec_le)
  have port: "\<not> superior_to q (pt_root p) (pt_cost p) (pt_switch p) 0" if "rank (vec_of p) \<le> rank (vec_of q)" "0 \<le> pt_port q" for p q
    using that by (auto simp: superior_to_less vec_of_def rank_def Vec_le)
  have pos: "0 \<le> pt_port q" if "q \<in> set (br_ports s)" "\<not> stp_port_is_designated s q" for q
  proof -
    have "heard_ok (Suc k) ((switch_id \<circ> ifs) ` V) links (N(b := s)) b q"
      using s(2,4) that unfolding net_inv_def by (auto simp: heard_ok_def)
    then obtain c r where "r \<in> set (br_ports ((N(b := s)) c))" "v_port (vec_of q) = pt_id r" "c \<in> V"
      using assms(1) unfolding heard_ok_def offered_def topology_def by metis
    moreover from this s(2) have "port_wf r" unfolding net_inv_def switch_ok_def stp_wf_def by blast
    ultimately show ?thesis by (simp add: vec_of_def port_wf_def)
  qed
  have "root_ok s" using ok by (simp add: stp_wf_def)
  with s(1) better ok(2) port pos show ?thesis
    by (intro exI[of _ s]) (auto simp: root_ok_def split: option.splits)
qed

theorem stp_frames_handled_witness:
  "\<exists>N f s. stp_net {0, 2} example_ifs example_links 0 N \<and> (example_port 0 1, f) \<in> set (br_sent (N 0)) \<and>
    stp_handle_packet (example_port 2 1) f (N 2) = Inr s \<and> br_root s \<le> switch_id (example_ifs 2)"
proof -
  obtain A B where i: "stp_init (example_ifs 0) 0 = Inr A" "br_hello A = \<lparr>tmr_active = True, tmr_time = 0, tmr_timeout = 512\<rparr>"
     "example_stp 0 id_a id_a 0 None (Vec id_a 0 id_a 32769) (Vec id_a 0 id_a 32770) A"
    "stp_init (example_ifs 2) 0 = Inr B" "example_stp 2 id_b id_b 0 None (Vec id_b 0 id_b 32769) (Vec id_b 0 id_b 32770) B"
    using example_init by blast
  define A1 where "A1 = stp_timer_routine 512 512 A"
  from example_hello[OF i(3,2)] have A1: "example_stp 0 id_a id_a 0 None (Vec id_a 0 id_a 32769) (Vec id_a 0 id_a 32770) A1"
    "set (offers A1) \<subseteq> set (br_sent A1)" by (simp_all add: A1_def)
  obtain f where f: "(example_port 0 1, f) \<in> set (br_sent A1)" using example_offers[OF A1(1)] A1(2) by auto
  define N where "N a = (if a = 0 then A else B)" for a :: nat
  have 0: "stp_net {0, 2} example_ifs example_links 0 N"
    by (rule stp_net.start[where now = "\<lambda>_. 0"]) (use i(1,4) in \<open>auto simp: N_def\<close>)
  have 1: "stp_net {0, 2} example_ifs example_links 0 (N(0 := A1))"
    using stp_net.timer[OF 0, of 0 512 512] by (simp add: N_def A1_def)
  have l: "example_links (0, example_port 0 1) = Some (2, example_port 2 1)" by (simp add: example_links_def example_port_def)
  have fN: "(example_port 0 1, f) \<in> set (br_sent ((N(0 := A1)) 0))" using f by simp
  from stp_frames_handled[OF example_topology(1) 1 _ _ fN l] obtain s where
    s: "stp_handle_packet (example_port 2 1) f ((N(0 := A1)) 2) = Inr s" "br_root s \<le> br_root ((N(0 := A1)) 2)" by auto
  have "br_root B = switch_id (example_ifs 2)"
    using i(5) by (simp add: example_stp_def switch_id_def example_ifs_def example_port_def mac_to_u64_def stp_consts)
  with s(2) have "br_root s \<le> switch_id (example_ifs 2)" by (simp add: N_def)
  with 1 fN s(1) show ?thesis by blast
qed

text \<open>
  A switch must not hear itself.  If a port of a switch that has heard of no other one receives its own
  configuration message, over a loop in the cable or a hub, the message is no worse than what the
  port holds, no port is left that is not designated, and the code follows the null pointer that
  should be the root port.
\<close>

lemma own_config_faults:
  assumes "stp_init is' t = Inr s0" "distinct is'" "\<forall>x \<in> set is'. length (if_mac x) = 6"
    and "s = stp_timer_routine now later s0" "(x, f) \<in> set (br_sent s)"
  shows "stp_handle_packet x f s = Inl NullDeref"
proof -
  note ok = stp_init_ok[OF assms(1-3), of UNIV]
  obtain h fs where s: "s = s0\<lparr>br_clock := later, br_hello := h, br_sent := br_sent s0 @ fs\<rparr>" "fs = [] \<or> fs = offers s0"
    using stp_timer_routine_eq[of now later s0] assms(4) by blast
  have s0: "stp_wf s0" "wired s0" using ok(1) by (simp_all add: switch_ok_def)
  have sent: "br_sent s0 = []" using assms(1) by (auto simp: stp_init_def Let_def split: if_splits)
  from s sent assms(5) have "(x, f) \<in> set (offers s0)" by auto
  then obtain p where p: "p \<in> set (br_ports s0)" "x = pt_iface p" "f = stp_frame p (stp_config_msg s0 p)"
    by (auto simp: offers_def split: if_splits)
  then obtain i where i: "i < length (br_ports s0)" "br_ports s0 ! i = p" by (auto simp: in_set_conv_nth)
  have wfs: "br_iface_port s x = Some i" "br_ports s = br_ports s0" "br_id s = br_id s0"
    using s0(2) i p(2) by (auto simp: s wired_def)
  have des: "stp_port_is_designated s q" if "q \<in> set (br_ports s0)" for q
    using that ok(2) designated_cong[OF wfs(3)] by auto
  have pw: "port_wf p" "vec_of p = offer s0 p" using stp_wf_port[OF s0(1) i(1)] des[OF p(1)] designated_cong[OF wfs(3)] i(2)
    by (auto simp: port_state_ok_def)
  have "stp_handle_packet x f s = receive_config i (vec_of p) s"
    using stp_handle_offer[OF wfs(1) pw(1), of s0] by (simp add: p(3) pw(2))
  also have "\<dots> = replace_config i (pt_root p) (pt_cost p) (pt_switch p) (of_int (pt_id p)) s"
    using wfs(2) i(2) pw(2) by (simp add: receive_config_def) (simp add: vec_of_def offer_def)
  also have "\<dots> = Inl NullDeref"
  proof -
    have "pt_port p = pt_id p" using des[OF p(1)] by (simp add: stp_port_is_designated_def)
    then have "(br_ports s ! i)\<lparr>pt_root := pt_root p, pt_cost := pt_cost p, pt_switch := pt_switch p,
        pt_port := uint (of_int (pt_id p) :: u16)\<rparr> = br_ports s ! i"
      using wfs(2) i(2) pw(1) by (simp add: port_wf_def uint_of_int16)
    moreover have "find_root_port s [0..<length (br_ports s)] None = None"
      using find_root_port_spec[OF refl, of s "[0..<length (br_ports s)]" None] des wfs(2) by auto
    ultimately show ?thesis by (simp add: replace_config_def Let_def)
  qed
  finally show ?thesis .
qed

end
