(* ===== verification/Nat_Gateway.thy ===== *)
theory Nat_Gateway
  imports Packet_Service Ether_Switch Tcp_Packet
begin

text \<open>
  The address translator of lab 8 (\<open>08-nat/nat.c\<close>, \<open>include/nat.h\<close>, \<open>ip.c\<close>, \<open>main.c\<close>).  Its state is
  the network layer's, extended: the table of mappings, an array of 256 lists indexed by the hash of the
  remote end, the pool of assigned ports, the two interfaces, the redirection rules and the mutex.  The hash
  combines \<open>hash8\<close> of the four address bytes and of the two port bytes.  The thread \<open>nat_timeout\<close> is
  its loop body, one call per round; it and the receiving thread hold the mutex during their whole critical
  sections, so rounds and packets are steps that do not interleave, and a mutex that was left locked shows as
  \<open>Inl Sleeps\<close> at the step that would wait for it.  The redirection rules are parsed from the
  bytes of the file.  Opening and reading the file is the argument of \<open>nat_init\<close>; logging, \<open>free\<close> and
  creating the thread are left out.
\<close>

section \<open>State\<close>

definition NAT_PORT_MIN :: nat where "NAT_PORT_MIN = 12345"
definition NAT_PORT_MAX :: nat where "NAT_PORT_MAX = 23456"
definition TCP_ESTABLISHED_TIMEOUT :: int where "TCP_ESTABLISHED_TIMEOUT = 60"

datatype packet_dir = DIR_IN | DIR_OUT | DIR_INVALID

record nat_connection =
  nc_internal_fin :: u8
  nc_external_fin :: u8
  nc_internal_seq_end :: u32
  nc_external_seq_end :: u32
  nc_internal_ack :: u32
  nc_external_ack :: u32

record nat_mapping =
  nm_remote_ip :: u32
  nm_remote_port :: u16
  nm_internal_ip :: u32
  nm_internal_port :: u16
  nm_external_ip :: u32
  nm_external_port :: u16
  nm_update_time :: int
  nm_conn :: nat_connection

record dnat_rule =
  dr_external_ip :: u32
  dr_external_port :: u16
  dr_internal_ip :: u32
  dr_internal_port :: u16

record nat_net = net +
  nt_list :: "u8 \<Rightarrow> nat_mapping list"
  nt_internal :: "ip_iface option"
  nt_external :: "ip_iface option"
  nt_ports :: "u16 \<Rightarrow> bool"
  nt_rules :: "dnat_rule list"
  nt_locked :: bool

text \<open>The mutex is not recursive: to lock it while it is held, by a call that returned without unlocking it, blocks for ever.\<close>

definition nat_lock :: "'b nat_net_scheme \<Rightarrow> 'b nat_net_scheme res" where
  "nat_lock s = (if nt_locked s then Inl Sleeps else Inr (s\<lparr>nt_locked := True\<rparr>))"

definition nat_unlock :: "'b nat_net_scheme \<Rightarrow> 'b nat_net_scheme" where
  "nat_unlock s = s\<lparr>nt_locked := False\<rparr>"

section \<open>Translation\<close>

text \<open>A route to follow is taken for granted: \<open>longest_prefix_match\<close> may return null.\<close>

definition get_packet_direction :: "bytes \<Rightarrow> 'b nat_net_scheme \<Rightarrow> packet_dir res" where
  "get_packet_direction packet s =
    (if \<not> has_ip_hdr packet then Inl OutOfBounds
     else let saddr = ntohl (iph_saddr packet); daddr = ntohl (iph_daddr packet) in
       case longest_prefix_match (net_rtable s) saddr of
         None \<Rightarrow> Inl NullDeref
       | Some m \<Rightarrow>
           if Some (rt_iface m) = nt_internal s then
             (case longest_prefix_match (net_rtable s) daddr of
                None \<Rightarrow> Inl NullDeref
              | Some m \<Rightarrow> Inr (if Some (rt_iface m) = nt_external s then DIR_OUT else DIR_INVALID))
           else if Some (rt_iface m) = nt_external s \<and> daddr = if_ip (rt_iface m) then Inr DIR_IN
           else Inr DIR_INVALID)"

text \<open>The two lookups; \<open>ip\<close>, \<open>port\<close>: the external pair of an incoming packet, the internal one of an outgoing packet.\<close>

definition nat_match :: "packet_dir \<Rightarrow> u32 \<Rightarrow> u16 \<Rightarrow> u32 \<Rightarrow> u16 \<Rightarrow> nat_mapping \<Rightarrow> bool" where
  "nat_match dir remote_ip remote_port ip port m \<longleftrightarrow>
     nm_remote_ip m = remote_ip \<and> nm_remote_port m = remote_port \<and>
     (if dir = DIR_IN then nm_external_ip m = ip \<and> nm_external_port m = port
      else nm_internal_ip m = ip \<and> nm_internal_port m = port)"

definition assign_port :: "(u16 \<Rightarrow> bool) \<Rightarrow> nat option" where
  "assign_port ports = find (\<lambda>i. \<not> ports (of_nat i)) [NAT_PORT_MIN..<NAT_PORT_MAX + 1]"

definition new_connection :: nat_connection where
  "new_connection = \<lparr>nc_internal_fin = 0, nc_external_fin = 0, nc_internal_seq_end = 0, nc_external_seq_end = 0,
     nc_internal_ack = 0, nc_external_ack = 0\<rparr>"

text \<open>A new mapping, and the port pool after it: by a rule for an incoming packet, from the pool for an outgoing one.\<close>

definition nat_new_mapping ::
    "packet_dir \<Rightarrow> u32 \<Rightarrow> u16 \<Rightarrow> u32 \<Rightarrow> u16 \<Rightarrow> 'b nat_net_scheme \<Rightarrow> (nat_mapping \<times> (u16 \<Rightarrow> bool)) option res" where
  "nat_new_mapping dir remote_ip remote_port ip port s =
    (if dir = DIR_IN then
       (case find (\<lambda>r. dr_external_ip r = ip \<and> dr_external_port r = port) (nt_rules s) of
          None \<Rightarrow> Inr None
        | Some r \<Rightarrow> Inr (Some
            (\<lparr>nm_remote_ip = remote_ip, nm_remote_port = remote_port, nm_internal_ip = dr_internal_ip r,
              nm_internal_port = dr_internal_port r, nm_external_ip = ip, nm_external_port = port,
              nm_update_time = 0, nm_conn = new_connection\<rparr>, nt_ports s)))
     else case nt_external s of
         None \<Rightarrow> Inl NullDeref
       | Some ext \<Rightarrow>
           (case assign_port (nt_ports s) of
              None \<Rightarrow> Inr None
            | Some i \<Rightarrow> Inr (Some
                (\<lparr>nm_remote_ip = remote_ip, nm_remote_port = remote_port, nm_internal_ip = ip,
                  nm_internal_port = port, nm_external_ip = if_ip ext, nm_external_port = of_nat i,
                  nm_update_time = 0, nm_conn = new_connection\<rparr>, (nt_ports s)(of_nat i := True)))))"

text \<open>The mapping of the packet, added to the table when there is none; \<open>None\<close>: there can be none.\<close>

definition nat_get_mapping ::
    "packet_dir \<Rightarrow> u8 \<Rightarrow> u32 \<Rightarrow> u16 \<Rightarrow> u32 \<Rightarrow> u16 \<Rightarrow> 'b nat_net_scheme \<Rightarrow> (nat_mapping \<times> 'b nat_net_scheme) option res" where
  "nat_get_mapping dir key remote_ip remote_port ip port s =
    (case find (nat_match dir remote_ip remote_port ip port) (nt_list s key) of
       Some m \<Rightarrow> Inr (Some (m, s))
     | None \<Rightarrow> bind_res (nat_new_mapping dir remote_ip remote_port ip port s) (\<lambda>r. case r of
         None \<Rightarrow> Inr None
       | Some (m, ports) \<Rightarrow> Inr (Some (m, s\<lparr>nt_ports := ports, nt_list := (nt_list s)(key := nt_list s key @ [m])\<rparr>))))"

definition nat_rewrite :: "packet_dir \<Rightarrow> nat_mapping \<Rightarrow> bytes \<Rightarrow> bytes" where
  "nat_rewrite dir m packet =
    (let t = packet_to_tcp_hdr packet in
     if dir = DIR_IN then st16 (st32 packet 30 (htonl (nm_internal_ip m))) (t + 2) (htons (nm_internal_port m))
     else st16 (st32 packet 26 (htonl (nm_external_ip m))) t (htons (nm_external_port m)))"

definition update_connection :: "packet_dir \<Rightarrow> bytes \<Rightarrow> nat_mapping \<Rightarrow> nat_mapping" where
  "update_connection dir packet m =
    (let t = packet_to_tcp_hdr packet;
         seq = ntohl (th_seq packet t);
         ack = ntohl (th_ack packet t);
         fin = TCP_FIN AND th_flags packet t;
         c = nm_conn m;
         c = (if dir = DIR_IN then
                c\<lparr>nc_external_fin := fin,
                  nc_external_seq_end := (if seq > nc_external_seq_end c then seq else nc_external_seq_end c),
                  nc_external_ack := (if ack > nc_external_ack c then ack else nc_external_ack c)\<rparr>
              else
                c\<lparr>nc_internal_fin := fin,
                  nc_internal_seq_end := (if seq > nc_internal_seq_end c then seq else nc_internal_seq_end c),
                  nc_internal_ack := (if ack > nc_internal_ack c then ack else nc_internal_ack c)\<rparr>)
     in m\<lparr>nm_update_time := 0, nm_conn := c\<rparr>)"

text \<open>Writing to the entry the pointer points to, the first one that fits.\<close>

fun update_first :: "('x \<Rightarrow> bool) \<Rightarrow> ('x \<Rightarrow> 'x) \<Rightarrow> 'x list \<Rightarrow> 'x list" where
  "update_first P f [] = []"
| "update_first P f (x # xs) = (if P x then f x # xs else x # update_first P f xs)"

text \<open>From the checksums on: the packet is forwarded like a router does.\<close>

definition nat_forward :: "bytes \<Rightarrow> 'a net_scheme \<Rightarrow> 'a net_scheme res" where
  "nat_forward packet s =
    (let t = packet_to_tcp_hdr packet in
     bind_res (tcp_checksum packet t) (\<lambda>c.
     bind_res (ip_set_checksum (st16 packet (t + 16) c)) (\<lambda>packet.
     let packet = st8 packet 22 (iph_ttl packet - 1) in
     if iph_ttl packet \<le> 0 then icmp_send_packet packet ICMP_TIME_EXCEEDED ICMP_EXC_TTL s
     else bind_res (ip_set_checksum packet) (\<lambda>packet.
       let daddr = ntohl (iph_daddr packet) in
       case longest_prefix_match (net_rtable s) daddr of
         None \<Rightarrow> icmp_send_packet packet ICMP_DEST_UNREACH ICMP_NET_UNREACH s
       | Some m \<Rightarrow> iface_send_packet_by_arp (rt_iface m) (next_hop m daddr) packet s))))"

text \<open>What the function reads from the packet, by its direction.\<close>

definition remote_ip_of :: "packet_dir \<Rightarrow> bytes \<Rightarrow> u32" where
  "remote_ip_of dir p = ntohl (if dir = DIR_IN then iph_saddr p else iph_daddr p)"

definition remote_port_of :: "packet_dir \<Rightarrow> bytes \<Rightarrow> u16" where
  "remote_port_of dir p =
    (let t = packet_to_tcp_hdr p in ntohs (if dir = DIR_IN then th_sport p t else th_dport p t))"

definition local_ip_of :: "packet_dir \<Rightarrow> bytes \<Rightarrow> u32" where
  "local_ip_of dir p = ntohl (if dir = DIR_IN then iph_daddr p else iph_saddr p)"

definition local_port_of :: "packet_dir \<Rightarrow> bytes \<Rightarrow> u16" where
  "local_port_of dir p =
    (let t = packet_to_tcp_hdr p in ntohs (if dir = DIR_IN then th_dport p t else th_sport p t))"

definition nat_key :: "packet_dir \<Rightarrow> bytes \<Rightarrow> u8" where
  "nat_key dir p =
    (let t = packet_to_tcp_hdr p in
     if dir = DIR_IN then hash8 (slice p 26 4) XOR hash8 (slice p t 2)
     else hash8 (slice p 30 4) XOR hash8 (slice p (t + 2) 2))"

text \<open>When there is no mapping the function returns without unlocking the mutex.\<close>

definition do_translation :: "bytes \<Rightarrow> packet_dir \<Rightarrow> 'b nat_net_scheme \<Rightarrow> 'b nat_net_scheme res" where
  "do_translation packet dir s =
    (if \<not> has_ip_hdr packet \<or> length packet < packet_to_tcp_hdr packet + TCP_BASE_HDR_SIZE then Inl OutOfBounds
     else bind_res (nat_lock s) (\<lambda>s.
       let remote_ip = remote_ip_of dir packet; remote_port = remote_port_of dir packet;
           ip = local_ip_of dir packet; port = local_port_of dir packet;
           key = nat_key dir packet
       in bind_res (nat_get_mapping dir key remote_ip remote_port ip port s) (\<lambda>r. case r of
            None \<Rightarrow> icmp_send_packet packet ICMP_DEST_UNREACH ICMP_HOST_UNREACH s
          | Some (m, s) \<Rightarrow>
              (let packet = nat_rewrite dir m packet;
                   s = s\<lparr>nt_list := (nt_list s)(key :=
                     update_first (nat_match dir remote_ip remote_port ip port) (update_connection dir packet) (nt_list s key))\<rparr>
               in nat_forward packet (nat_unlock s)))))"

definition nat_translate_packet :: "ip_iface \<Rightarrow> bytes \<Rightarrow> 'b nat_net_scheme \<Rightarrow> 'b nat_net_scheme res" where
  "nat_translate_packet iface packet s =
    bind_res (get_packet_direction packet s) (\<lambda>dir.
      if dir = DIR_INVALID then icmp_send_packet packet ICMP_DEST_UNREACH ICMP_HOST_UNREACH s
      else if iph_protocol packet \<noteq> IPPROTO_TCP then Inr s
      else do_translation packet dir s)"

definition nat_handle_ip_packet :: "ip_iface \<Rightarrow> bytes \<Rightarrow> 'b nat_net_scheme \<Rightarrow> 'b nat_net_scheme res" where
  "nat_handle_ip_packet iface packet s =
    (if \<not> has_ip_hdr packet then Inl OutOfBounds
     else if ntohl (iph_daddr packet) = if_ip iface \<and> iph_protocol packet = IPPROTO_ICMP then
       (if length packet \<le> IP_DATA packet then Inl OutOfBounds
        else if ld8 packet (IP_DATA packet) = ICMP_ECHOREQUEST then icmp_send_packet packet ICMP_ECHOREPLY 0 s
        else Inr s)
     else nat_translate_packet iface packet s)"

definition nat_handle_packet :: "ip_iface \<Rightarrow> bytes \<Rightarrow> 'b nat_net_scheme \<Rightarrow> 'b nat_net_scheme res" where
  "nat_handle_packet iface packet s =
    (if length packet < ETHER_HDR_SIZE then Inl OutOfBounds
     else if ntohs (ether_type packet) = ETH_P_IP then nat_handle_ip_packet iface packet s
     else if ntohs (ether_type packet) = ETH_P_ARP then handle_arp_packet iface packet s
     else Inr s)"

definition nat_ustack_run :: "ip_iface list \<Rightarrow> poll_event list \<Rightarrow> 'b nat_net_scheme \<Rightarrow> 'b nat_net_scheme res" where
  "nat_ustack_run = ustack_run_unchecked nat_handle_packet"

section \<open>Expiry\<close>

definition is_flow_finished :: "nat_connection \<Rightarrow> bool" where
  "is_flow_finished c \<longleftrightarrow> nc_internal_fin c \<noteq> 0 \<and> nc_external_fin c \<noteq> 0 \<and>
     nc_internal_ack c \<ge> nc_external_seq_end c \<and> nc_external_ack c \<ge> nc_internal_seq_end c"

definition nat_age :: "nat_mapping \<Rightarrow> nat_mapping" where
  "nat_age m = m\<lparr>nm_update_time := nm_update_time m + 1\<rparr>"

definition nat_expired :: "nat_mapping \<Rightarrow> bool" where
  "nat_expired m \<longleftrightarrow> nm_update_time m \<ge> TCP_ESTABLISHED_TIMEOUT \<or> is_flow_finished (nm_conn m)"

text \<open>One bucket of the sweep; the port of a mapping that is removed goes back to the pool.\<close>

fun nat_sweep_bucket :: "nat_mapping list \<Rightarrow> (u16 \<Rightarrow> bool) \<Rightarrow> nat_mapping list \<times> (u16 \<Rightarrow> bool)" where
  "nat_sweep_bucket [] ports = ([], ports)"
| "nat_sweep_bucket (m # ms) ports =
    (if nat_expired (nat_age m) then nat_sweep_bucket ms (ports(nm_external_port m := False))
     else case nat_sweep_bucket ms ports of (ms, ports) \<Rightarrow> (nat_age m # ms, ports))"

fun nat_sweep_table :: "nat list \<Rightarrow> (u8 \<Rightarrow> nat_mapping list) \<Rightarrow> (u16 \<Rightarrow> bool) \<Rightarrow> (u8 \<Rightarrow> nat_mapping list) \<times> (u16 \<Rightarrow> bool)" where
  "nat_sweep_table [] T ports = (T, ports)"
| "nat_sweep_table (i # is') T ports =
    (case nat_sweep_bucket (T (of_nat i)) ports of (ms, ports) \<Rightarrow> nat_sweep_table is' (T(of_nat i := ms)) ports)"

text \<open>One round of the loop of \<open>nat_timeout\<close>, after \<open>sleep(1)\<close>.\<close>

definition nat_timeout :: "'b nat_net_scheme \<Rightarrow> 'b nat_net_scheme res" where
  "nat_timeout s = bind_res (nat_lock s) (\<lambda>s.
     case nat_sweep_table [0..<256] (nt_list s) (nt_ports s) of (T, ports) \<Rightarrow>
       Inr (nat_unlock (s\<lparr>nt_list := T, nt_ports := ports\<rparr>)))"

section \<open>Configuration\<close>

text \<open>A pointer into the buffer is the rest of the buffer from there; the text ends at the first zero.\<close>

fun strstr :: "bytes \<Rightarrow> bytes \<Rightarrow> bytes option" where
  "strstr needle [] = None"
| "strstr needle (c # cs) =
    (if c = 0 then None else if take (length needle) (c # cs) = needle then Some (c # cs) else strstr needle cs)"

abbreviation ascii :: "string \<Rightarrow> bytes" where
  "ascii \<equiv> map of_char"

definition nat_if_name_to_iface :: "ip_iface list \<Rightarrow> bytes \<Rightarrow> ip_iface option" where
  "nat_if_name_to_iface ifaces name = find (\<lambda>i. take (length (if_name i)) name = ascii (if_name i)) ifaces"

text \<open>\<open>num = num * 10 + *p - '0'\<close> up to a character that ends the number; \<open>int\<close> arithmetic wraps.\<close>

fun parse_number :: "(u8 \<Rightarrow> bool) \<Rightarrow> u32 \<Rightarrow> bytes \<Rightarrow> (u32 \<times> bytes) res" where
  "parse_number stop num [] = Inl OutOfBounds"
| "parse_number stop num (c # cs) =
    (if stop c then Inr (num, c # cs) else parse_number stop (num * 10 + scast c - 48) cs)"

fun parse_address :: "nat \<Rightarrow> u32 \<Rightarrow> bytes \<Rightarrow> (u32 \<times> bytes) res" where
  "parse_address 0 ip p = Inr (ip, p)"
| "parse_address (Suc n) ip p =
    bind_res (parse_number (\<lambda>c. c = of_char (CHR ''.'') \<or> c = of_char (CHR '':'')) 0 p) (\<lambda>(num, p).
      parse_address n (push_bit 8 ip OR num) (tl p))"

definition parse_rule :: "bytes \<Rightarrow> dnat_rule res" where
  "parse_rule dnat =
    bind_res (parse_address 4 0 (drop 12 dnat)) (\<lambda>(ext_ip, p).
    bind_res (parse_number (\<lambda>c. c = of_char (CHR '' '')) 0 p) (\<lambda>(ext_port, p).
    case strstr (ascii ''-> '') dnat of
      None \<Rightarrow> Inl NullDeref
    | Some q \<Rightarrow>
        bind_res (parse_address 4 0 (drop 3 q)) (\<lambda>(int_ip, q).
        bind_res (parse_number (\<lambda>c. \<not> (of_char (CHR ''0'') \<le> c \<and> c \<le> of_char (CHR ''9''))) 0 q) (\<lambda>(int_port, q).
        Inr \<lparr>dr_external_ip = ext_ip, dr_external_port = ucast ext_port,
             dr_internal_ip = int_ip, dr_internal_port = ucast int_port\<rparr>))))"

lemma strstr_length: "strstr needle cs = Some d \<Longrightarrow> length d \<le> length cs"
  by (induction cs) (auto split: if_splits)

function parse_rules :: "bytes \<Rightarrow> dnat_rule list res" where
  "parse_rules dnat =
    (case strstr (ascii ''dnat-rules: '') (tl dnat) of
       None \<Rightarrow> Inr []
     | Some dnat \<Rightarrow> bind_res (parse_rule dnat) (\<lambda>r. bind_res (parse_rules dnat) (\<lambda>rs. Inr (r # rs))))"
  by pat_completeness auto

termination
proof (relation "measure length")
  fix dnat d :: bytes and r
  assume s: "strstr (ascii ''dnat-rules: '') (tl dnat) = Some d"
  then have "tl dnat \<noteq> []" by auto
  with strstr_length[OF s] show "(d, dnat) \<in> measure length" by (cases dnat) auto
qed simp

declare parse_rules.simps [simp del]

text \<open>The file is read into a zeroed buffer of 1000 bytes; \<open>None\<close>: it cannot be opened.\<close>

definition parse_config :: "bytes option \<Rightarrow> 'b nat_net_scheme \<Rightarrow> 'b nat_net_scheme res" where
  "parse_config file s = (case file of
     None \<Rightarrow> Inl Exited
   | Some content \<Rightarrow>
       if length content \<ge> 1000 then Inl OutOfBounds
       else (let buf = content @ zeros (1000 - length content) in
         (case strstr (ascii ''internal-iface: '') buf of
            None \<Rightarrow> Inl NullDeref
          | Some int_p \<Rightarrow>
              (case strstr (ascii ''external-iface: '') buf of
                 None \<Rightarrow> Inl NullDeref
               | Some ext_p \<Rightarrow> bind_res (parse_rules buf) (\<lambda>rules.
                   Inr (s\<lparr>nt_internal := nat_if_name_to_iface (net_ifaces s) (drop 16 int_p),
                         nt_external := nat_if_name_to_iface (net_ifaces s) (drop 16 ext_p),
                         nt_rules := nt_rules s @ rules\<rparr>))))))"

definition nat_init :: "bytes option \<Rightarrow> 'b nat_net_scheme \<Rightarrow> 'b nat_net_scheme res" where
  "nat_init file s = parse_config file (s\<lparr>nt_list := (\<lambda>_. []), nt_internal := None, nt_external := None,
     nt_ports := (\<lambda>_. False), nt_rules := [], nt_locked := False\<rparr>)"

definition nat_exit :: "'b nat_net_scheme \<Rightarrow> 'b nat_net_scheme res" where
  "nat_exit s = bind_res (nat_lock s) (\<lambda>s. Inr ((nat_unlock s)\<lparr>nt_list := (\<lambda>_. []), nt_rules := []\<rparr>))"

end
