(* ===== verification/Nat_Table.thy ===== *)
theory Nat_Table
  imports Nat_Gateway
begin

text \<open>
  The bookkeeping of the translator: the port pool agrees with the table, mappings in one bucket differ in
  their outer end, and every frame and every sweep keep it so.  The operations of the network layer below do
  not see this part of the state, by the interface \<open>packet_service\<close> and its companions.
\<close>

section \<open>What stays below\<close>

definition same_nat :: "'b nat_net_scheme \<Rightarrow> 'b nat_net_scheme \<Rightarrow> bool" where
  "same_nat s s' \<longleftrightarrow> nt_list s' = nt_list s \<and> nt_internal s' = nt_internal s \<and> nt_external s' = nt_external s \<and>
     nt_ports s' = nt_ports s \<and> nt_rules s' = nt_rules s \<and> nt_locked s' = nt_locked s"

lemma same_nat_more: "net.more s' = net.more (s :: 'b nat_net_scheme) \<Longrightarrow> same_nat s s'"
  by (cases s; cases s') (simp add: same_nat_def)

lemma by_arp_more: "iface_send_packet_by_arp i a p s = Inr s' \<Longrightarrow> net.more s' = net.more s"
  by (auto simp: iface_send_packet_by_arp_def Let_def arpcache_append_packet_def arp_more split: if_splits option.splits)

lemma nat_forward_more: "nat_forward p s = Inr s' \<Longrightarrow> net.more s' = net.more s"
  by (auto simp: nat_forward_def Let_def bind_res_Inr_conv dest: icmp_send_more by_arp_more split: if_splits option.splits)

lemma nat_forward_same: "nat_forward p s = Inr s' \<Longrightarrow> same_nat s s'"
  by (rule same_nat_more) (rule nat_forward_more)

section \<open>The port pool\<close>

definition pool_port :: "u16 \<Rightarrow> bool" where
  "pool_port p \<longleftrightarrow> NAT_PORT_MIN \<le> unat p \<and> unat p \<le> NAT_PORT_MAX"

text \<open>How many mappings have the external port.\<close>

definition uses :: "u16 \<Rightarrow> (u8 \<Rightarrow> nat_mapping list) \<Rightarrow> nat" where
  "uses p T = (\<Sum>k \<in> UNIV. length (filter (\<lambda>m. nm_external_port m = p) (T k)))"

lemma uses_upd: "uses p (T(k := ms)) + length (filter (\<lambda>m. nm_external_port m = p) (T k)) =
    uses p T + length (filter (\<lambda>m. nm_external_port m = p) ms)"
proof -
  have "uses p T = length (filter (\<lambda>m. nm_external_port m = p) (T k)) + (\<Sum>j \<in> UNIV - {k}. length (filter (\<lambda>m. nm_external_port m = p) (T j)))"
    for T :: "u8 \<Rightarrow> nat_mapping list" by (simp add: uses_def sum.remove)
  from this[of T] this[of "T(k := ms)"] show ?thesis by simp
qed

lemma uses_le: "length (filter (\<lambda>m. nm_external_port m = p) (T k)) \<le> uses p T"
  unfolding uses_def by (rule member_le_sum[of k]) simp_all

definition pool_ok :: "(u8 \<Rightarrow> nat_mapping list) \<Rightarrow> (u16 \<Rightarrow> bool) \<Rightarrow> bool" where
  "pool_ok T ports \<longleftrightarrow> (\<forall>p. if pool_port p then uses p T = of_bool (ports p) else \<not> ports p)"

text \<open>What identifies the mapping of an incoming packet.\<close>

definition outer :: "nat_mapping \<Rightarrow> u32 \<times> u16 \<times> u32 \<times> u16" where
  "outer m = (nm_remote_ip m, nm_remote_port m, nm_external_ip m, nm_external_port m)"

definition nat_wf :: "'b nat_net_scheme \<Rightarrow> bool" where
  "nat_wf s \<longleftrightarrow> pool_ok (nt_list s) (nt_ports s) \<and> (\<forall>k. distinct (map outer (nt_list s k))) \<and>
     (\<forall>r \<in> set (nt_rules s). \<not> pool_port (dr_external_port r))"

lemma same_nat_wf: "same_nat s s' \<Longrightarrow> nat_wf s' = nat_wf s"
  by (simp add: same_nat_def nat_wf_def)

lemma update_first_map: "(\<And>x. g (f x) = g x) \<Longrightarrow> map g (update_first P f xs) = map g xs"
  by (induction xs) auto

lemma update_connection_simps [simp]: "outer (update_connection dir p m) = outer m" "nm_external_port (update_connection dir p m) = nm_external_port m"
  "nm_remote_ip (update_connection dir p m) = nm_remote_ip m" "nm_remote_port (update_connection dir p m) = nm_remote_port m" "nm_external_ip (update_connection dir p m) = nm_external_ip m"
  "nm_internal_ip (update_connection dir p m) = nm_internal_ip m" "nm_internal_port (update_connection dir p m) = nm_internal_port m"
  "nat_match d a b c e (update_connection dir p m) = nat_match d a b c e m"
  by (simp_all add: update_connection_def Let_def outer_def nat_match_def)

lemma filter_length_map: "length (filter (\<lambda>m. g m = p) xs) = length (filter (\<lambda>y. y = p) (map g xs))"
  by (induction xs) auto

lemma uses_cong: "(\<And>k. map nm_external_port (T k) = map nm_external_port (T' k)) \<Longrightarrow> uses p T = uses p T'"
  unfolding uses_def filter_length_map[of nm_external_port] by simp

lemma find_SomeD: "find P xs = Some x \<Longrightarrow> x \<in> set xs \<and> P x"
  by (induction xs) (auto split: if_splits)

lemma find_snoc: "find P xs = None \<Longrightarrow> P x \<Longrightarrow> find P (xs @ [x]) = Some x"
  by (induction xs) (auto split: if_splits)

lemma assign_port_spec:
  assumes "assign_port ports = Some i"
  shows "pool_port (of_nat i)" "\<not> ports (of_nat i)"
proof -
  from assms have i: "i \<in> set [NAT_PORT_MIN..<NAT_PORT_MAX + 1]" "\<not> ports (of_nat i)"
    unfolding assign_port_def by (blast dest: find_SomeD)+
  then have "i < 65536" by (simp add: NAT_PORT_MAX_def)
  then have "unat (of_nat i :: u16) = i" by (simp add: unsigned_of_nat take_bit_nat_eq_self)
  with i show "pool_port (of_nat i)" "\<not> ports (of_nat i)" by (auto simp: pool_port_def)
qed

lemma nat_get_mapping_spec:
  assumes wf: "nat_wf s" and g: "nat_get_mapping dir key rip rport ip port s = Inr (Some (m, s'))"
  shows "nat_wf s'" "find (nat_match dir rip rport ip port) (nt_list s' key) = Some m"
    "nt_locked s' = nt_locked s" "net_rtable s' = net_rtable s" "dir = DIR_OUT \<Longrightarrow> nt_rules s' = nt_rules s"
proof -
  let ?P = "nat_match dir rip rport ip port"
  have "nat_wf s' \<and> find ?P (nt_list s' key) = Some m \<and> nt_locked s' = nt_locked s \<and> net_rtable s' = net_rtable s \<and> nt_rules s' = nt_rules s"
  proof (cases "find ?P (nt_list s key)")
    case (Some m')
    with g wf show ?thesis by (simp add: nat_get_mapping_def)
  next
    case None
    with g obtain ports where new: "nat_new_mapping dir rip rport ip port s = Inr (Some (m, ports))"
      and s': "s' = s\<lparr>nt_ports := ports, nt_list := (nt_list s)(key := nt_list s key @ [m])\<rparr>"
      by (auto simp: nat_get_mapping_def bind_res_Inr_conv split: option.splits)
    have match: "?P m" using new by (auto simp: nat_new_mapping_def nat_match_def split: if_splits option.splits)
    have add: "uses p ((nt_list s)(key := nt_list s key @ [m])) = uses p (nt_list s) + of_bool (nm_external_port m = p)" for p
      using uses_upd[of p "nt_list s" key "nt_list s key @ [m]"] by simp
    have none: "\<And>m'. m' \<in> set (nt_list s key) \<Longrightarrow> \<not> ?P m'" using None by (auto simp: find_None_iff)
    have pool: "pool_ok (nt_list s') ports \<and> outer m \<notin> outer ` set (nt_list s key)"
    proof (cases "dir = DIR_IN")
      case True
      with new obtain r where r: "r \<in> set (nt_rules s)" "nm_external_port m = dr_external_port r" "ports = nt_ports s"
        by (auto simp: nat_new_mapping_def find_Some_iff split: option.splits dest: nth_mem)
      with wf have "\<not> pool_port (nm_external_port m)" by (auto simp: nat_wf_def)
      with wf r(3) have "pool_ok (nt_list s') ports" by (auto simp: nat_wf_def pool_ok_def s' add)
      moreover have "outer m \<noteq> outer m'" if "m' \<in> set (nt_list s key)" for m'
        using none[OF that] match True by (auto simp: outer_def nat_match_def)
      ultimately show ?thesis by auto
    next
      case False
      with new obtain i where i: "assign_port (nt_ports s) = Some i" "nm_external_port m = of_nat i" "ports = (nt_ports s)(of_nat i := True)"
        by (auto simp: nat_new_mapping_def split: option.splits)
      note a = assign_port_spec[OF i(1)]
      with wf have u: "uses (of_nat i) (nt_list s) = 0" by (auto simp: nat_wf_def pool_ok_def)
      have "pool_ok (nt_list s') ports" using wf a u by (auto simp: nat_wf_def pool_ok_def s' add i)
      moreover have "outer m \<noteq> outer m'" if "m' \<in> set (nt_list s key)" for m'
      proof
        assume "outer m = outer m'"
        then have "nm_external_port m' = of_nat i" using i(2) by (simp add: outer_def)
        with that have "0 < length (filter (\<lambda>m. nm_external_port m = of_nat i) (nt_list s key))" by (auto simp: filter_empty_conv)
        with uses_le[of "of_nat i" "nt_list s" key] u show False by simp
      qed
      ultimately show ?thesis by auto
    qed
    then have "nat_wf s'" using wf by (auto simp: nat_wf_def s')
    moreover have "find ?P (nt_list s' key) = Some m"
      using find_snoc[OF None match] by (simp add: s')
    ultimately show ?thesis by (simp add: s')
  qed
  then show "nat_wf s'" "find ?P (nt_list s' key) = Some m" "nt_locked s' = nt_locked s" "net_rtable s' = net_rtable s"
    "dir = DIR_OUT \<Longrightarrow> nt_rules s' = nt_rules s" by simp_all
qed

lemma nat_wf_fields: "nt_list s' = nt_list s \<Longrightarrow> nt_ports s' = nt_ports s \<Longrightarrow> nt_rules s' = nt_rules s \<Longrightarrow> nat_wf s' = nat_wf s"
  by (simp add: nat_wf_def)

lemma more_nat_wf: "net.more s' = net.more (s :: 'b nat_net_scheme) \<Longrightarrow> nat_wf s' = nat_wf s"
  by (rule same_nat_wf) (rule same_nat_more)

lemma nat_wf_update:
  assumes "nat_wf s"
  shows "nat_wf (s\<lparr>nt_list := (nt_list s)(key := update_first P (update_connection dir p) (nt_list s key))\<rparr>)"
proof -
  let ?T = "(nt_list s)(key := update_first P (update_connection dir p) (nt_list s key))"
  have "uses q ?T = uses q (nt_list s)" for q by (rule uses_cong) (simp add: update_first_map)
  moreover have "map outer (?T k) = map outer (nt_list s k)" for k by (simp add: update_first_map)
  ultimately show ?thesis using assms by (simp add: nat_wf_def pool_ok_def del: fun_upd_apply)
qed

text \<open>The two ways a translation can go.\<close>

definition fits :: "packet_dir \<Rightarrow> bytes \<Rightarrow> nat_mapping \<Rightarrow> bool" where
  "fits dir p = nat_match dir (remote_ip_of dir p) (remote_port_of dir p) (local_ip_of dir p) (local_port_of dir p)"

definition get_mapping :: "packet_dir \<Rightarrow> bytes \<Rightarrow> 'b nat_net_scheme \<Rightarrow> (nat_mapping \<times> 'b nat_net_scheme) option res" where
  "get_mapping dir p s = nat_get_mapping dir (nat_key dir p) (remote_ip_of dir p) (remote_port_of dir p)
     (local_ip_of dir p) (local_port_of dir p) (s\<lparr>nt_locked := True\<rparr>)"

definition noted :: "packet_dir \<Rightarrow> bytes \<Rightarrow> nat_mapping \<Rightarrow> 'b nat_net_scheme \<Rightarrow> 'b nat_net_scheme" where
  "noted dir p m s = nat_unlock (s\<lparr>nt_list := (nt_list s)(nat_key dir p :=
     update_first (fits dir p) (update_connection dir (nat_rewrite dir m p)) (nt_list s (nat_key dir p)))\<rparr>)"

lemma do_translation_eq:
  "do_translation p dir s =
    (if \<not> has_ip_hdr p \<or> length p < packet_to_tcp_hdr p + TCP_BASE_HDR_SIZE then Inl OutOfBounds
     else if nt_locked s then Inl Sleeps
     else bind_res (get_mapping dir p s) (\<lambda>r. case r of
            None \<Rightarrow> icmp_send_packet p ICMP_DEST_UNREACH ICMP_HOST_UNREACH (s\<lparr>nt_locked := True\<rparr>)
          | Some (m, s) \<Rightarrow> nat_forward (nat_rewrite dir m p) (noted dir p m s)))"
  by (simp add: do_translation_def nat_lock_def get_mapping_def noted_def fits_def Let_def)

lemma noted_simps [simp]: "nt_locked (noted dir p m s) = False" "nt_rules (noted dir p m s) = nt_rules s"
  "net_rtable (noted dir p m s) = net_rtable s" "nt_ports (noted dir p m s) = nt_ports s"
  by (simp_all add: noted_def nat_unlock_def)

lemma locked_wf [simp]: "nat_wf (s\<lparr>nt_locked := b\<rparr>) = nat_wf s"
  by (simp add: nat_wf_def)

lemma get_mapping_spec:
  assumes "nat_wf s" "get_mapping dir p s = Inr (Some (m, s'))"
  shows "nat_wf s'" "find (fits dir p) (nt_list s' (nat_key dir p)) = Some m" "net_rtable s' = net_rtable s"
  using nat_get_mapping_spec[of "s\<lparr>nt_locked := True\<rparr>" dir] assms by (auto simp: get_mapping_def fits_def)

lemma noted_wf: "nat_wf s \<Longrightarrow> nat_wf (noted dir p m s)"
  using nat_wf_update[of s "nat_key dir p" "fits dir p" dir "nat_rewrite dir m p"] by (simp add: noted_def nat_unlock_def)

lemma do_translation_wf: "do_translation p dir s = Inr s' \<Longrightarrow> nat_wf s \<Longrightarrow> nat_wf s'"
  using get_mapping_spec(1)[of s dir p]
  by (auto simp: do_translation_eq bind_res_Inr_conv more_nat_wf[OF nat_forward_more] noted_wf more_nat_wf[OF icmp_send_more]
      split: if_splits option.splits)

lemma nat_handle_wf: "nat_handle_packet iface p s = Inr s' \<Longrightarrow> nat_wf s \<Longrightarrow> nat_wf s'"
  by (auto simp: nat_handle_packet_def nat_handle_ip_packet_def nat_translate_packet_def bind_res_Inr_conv split: if_splits
      dest: do_translation_wf more_nat_wf[OF icmp_send_more] more_nat_wf[OF handle_arp_more])

section \<open>Expiry\<close>

lemma nat_sweep_bucket_spec:
  "nat_sweep_bucket ms ports = (map nat_age (filter (\<lambda>m. \<not> nat_expired (nat_age m)) ms),
     (\<lambda>p. ports p \<and> (\<forall>m \<in> set ms. nat_expired (nat_age m) \<longrightarrow> nm_external_port m \<noteq> p)))"
  by (induction ms arbitrary: ports) (auto simp: fun_eq_iff)

lemma nat_age_simps [simp]: "outer (nat_age m) = outer m" "nm_external_port (nat_age m) = nm_external_port m"
  "nm_conn (nat_age m) = nm_conn m" "nm_update_time (nat_age m) = nm_update_time m + 1"
  by (simp_all add: nat_age_def outer_def)

lemma split_length: "length (filter P xs) = length (filter (\<lambda>x. P x \<and> \<not> Q x) xs) + length (filter (\<lambda>x. P x \<and> Q x) xs)"
  by (induction xs) auto

lemma sweep_bucket_pool:
  assumes pool: "pool_ok T ports" and b: "nat_sweep_bucket (T k) ports = (ms, ports')"
  shows "pool_ok (T(k := ms)) ports'"
  unfolding pool_ok_def
proof
  fix p
  let ?f = "\<lambda>m. nm_external_port m = p"
  from b have ms: "ms = map nat_age (filter (\<lambda>m. \<not> nat_expired (nat_age m)) (T k))"
    and p': "ports' p \<longleftrightarrow> ports p \<and> (\<forall>m \<in> set (T k). nat_expired (nat_age m) \<longrightarrow> nm_external_port m \<noteq> p)"
    by (auto simp: nat_sweep_bucket_spec)
  show "if pool_port p then uses p (T(k := ms)) = of_bool (ports' p) else \<not> ports' p"
  proof (cases "pool_port p")
    case True
    with pool have u: "uses p T = of_bool (ports p)" by (auto simp: pool_ok_def)
    have kept: "length (filter ?f ms) = length (filter (\<lambda>m. ?f m \<and> \<not> nat_expired (nat_age m)) (T k))"
      by (simp add: ms filter_map o_def conj_commute)
    have split: "length (filter ?f (T k)) = length (filter (\<lambda>m. ?f m \<and> \<not> nat_expired (nat_age m)) (T k)) +
        length (filter (\<lambda>m. ?f m \<and> nat_expired (nat_age m)) (T k))"
      by (rule split_length)
    have eq: "uses p (T(k := ms)) + length (filter (\<lambda>m. ?f m \<and> nat_expired (nat_age m)) (T k)) = uses p T"
      using uses_upd[of p T k ms] kept split by linarith
    have gone: "length (filter (\<lambda>m. ?f m \<and> nat_expired (nat_age m)) (T k)) = 0 \<longleftrightarrow>
        (\<forall>m \<in> set (T k). nat_expired (nat_age m) \<longrightarrow> nm_external_port m \<noteq> p)"
      by (auto simp: filter_empty_conv)
    have "uses p (T(k := ms)) = of_bool (ports' p)"
    proof (cases "\<forall>m \<in> set (T k). nat_expired (nat_age m) \<longrightarrow> nm_external_port m \<noteq> p")
      case True
      with gone eq u p' show ?thesis by simp
    next
      case False
      with gone have "length (filter (\<lambda>m. ?f m \<and> nat_expired (nat_age m)) (T k)) \<noteq> 0" by simp
      moreover have "uses p T \<le> 1" using u by simp
      ultimately have "uses p (T(k := ms)) = 0" using eq by linarith
      with False p' show ?thesis by simp
    qed
    with True show ?thesis by simp
  next
    case False
    with pool p' show ?thesis by (auto simp: pool_ok_def)
  qed
qed

lemma sweep_table_pool: "nat_sweep_table ks T ports = (T', ports') \<Longrightarrow> pool_ok T ports \<Longrightarrow> pool_ok T' ports'"
  by (induction ks T ports rule: nat_sweep_table.induct) (auto split: prod.splits dest: sweep_bucket_pool)

lemma sweep_table_spec:
  assumes "nat_sweep_table ks T ports = (T', ports')" "distinct (map (of_nat :: nat \<Rightarrow> u8) ks)"
  shows "T' k = (if k \<in> of_nat ` set ks then map nat_age (filter (\<lambda>m. \<not> nat_expired (nat_age m)) (T k)) else T k)"
  using assms by (induction ks T ports rule: nat_sweep_table.induct) (auto simp: nat_sweep_bucket_spec split: prod.splits)

lemma all_buckets: "distinct (map (of_nat :: nat \<Rightarrow> u8) [0..<256])" "(k :: u8) \<in> of_nat ` set [0..<256]"
proof -
  show "distinct (map (of_nat :: nat \<Rightarrow> u8) [0..<256])"
    unfolding distinct_map
  proof (intro conjI inj_onI)
    fix x y assume "x \<in> set [0..<256]" "y \<in> set [0..<256]" "(of_nat x :: u8) = of_nat y"
    then have "unat (of_nat x :: u8) = unat (of_nat y :: u8)" "x < 256" "y < 256" by simp_all
    then show "x = y" by (simp add: unsigned_of_nat take_bit_nat_eq_self)
  qed simp
  have "k = of_nat (unat k)" by simp
  then show "(k :: u8) \<in> of_nat ` set [0..<256]" using unat_u8_less[of k] by (metis atLeastLessThan_iff image_eqI set_upt zero_le)
qed

lemma nat_timeout_spec:
  assumes "nat_timeout s = Inr s'"
  shows "\<not> nt_locked s" "\<And>k. nt_list s' k = map nat_age (filter (\<lambda>m. \<not> nat_expired (nat_age m)) (nt_list s k))"
    "nt_rules s' = nt_rules s" "nt_locked s' = False" "pool_ok (nt_list s) (nt_ports s) \<Longrightarrow> pool_ok (nt_list s') (nt_ports s')"
proof -
  obtain T ports where t: "nat_sweep_table [0..<256] (nt_list s) (nt_ports s) = (T, ports)" by fastforce
  with assms have s: "\<not> nt_locked s" "nt_list s' = T" "nt_ports s' = ports" "nt_rules s' = nt_rules s" "nt_locked s' = False"
    by (auto simp: nat_timeout_def nat_lock_def nat_unlock_def split: if_splits)
  then show "\<not> nt_locked s" "nt_rules s' = nt_rules s" "nt_locked s' = False" by simp_all
  show "nt_list s' k = map nat_age (filter (\<lambda>m. \<not> nat_expired (nat_age m)) (nt_list s k))" for k
    using sweep_table_spec[OF t all_buckets(1), of k] all_buckets(2)[of k] s by simp
  show "pool_ok (nt_list s) (nt_ports s) \<Longrightarrow> pool_ok (nt_list s') (nt_ports s')" using sweep_table_pool[OF t] s by simp
qed

lemma nat_timeout_wf: "nat_timeout s = Inr s' \<Longrightarrow> nat_wf s \<Longrightarrow> nat_wf s'"
  using nat_timeout_spec[of s s']
  by (auto simp: nat_wf_def o_def distinct_map_filter distinct_map intro: inj_on_subset)

section \<open>Everything that happens to the NAT\<close>

datatype nat_event = NatFrame ip_iface bytes | NatSecond | NatArpSweep int

fun nat_step :: "nat_event \<Rightarrow> 'b nat_net_scheme \<Rightarrow> 'b nat_net_scheme res" where
  "nat_step (NatFrame iface p) s = nat_handle_packet iface p s"
| "nat_step NatSecond s = nat_timeout s"
| "nat_step (NatArpSweep now) s = arpcache_sweep (s\<lparr>net_clock := now\<rparr>)"

lemma nat_step_wf: "nat_step e s = Inr s' \<Longrightarrow> nat_wf s \<Longrightarrow> nat_wf s'"
proof (cases e)
  case (NatArpSweep now)
  assume "nat_step e s = Inr s'" "nat_wf s"
  with NatArpSweep more_nat_wf[OF arpcache_sweep_more, of "s\<lparr>net_clock := now\<rparr>" s'] nat_wf_fields[of "s\<lparr>net_clock := now\<rparr>" s]
  show ?thesis by simp
qed (auto dest: nat_handle_wf nat_timeout_wf)

lemma nat_run_wf: "fold_res nat_step es s = Inr s' \<Longrightarrow> nat_wf s \<Longrightarrow> nat_wf s'"
  by (rule fold_res_invariant[where P = nat_wf]) (auto dest: nat_step_wf)

lemma nat_init_wf:
  assumes "nat_init file s = Inr s'" "\<forall>r \<in> set (nt_rules s'). \<not> pool_port (dr_external_port r)"
  shows "nat_wf s'" "\<not> nt_locked s'"
proof -
  from assms(1) have "nt_list s' = (\<lambda>_. [])" "nt_ports s' = (\<lambda>_. False)" "\<not> nt_locked s'"
    by (auto simp: nat_init_def parse_config_def Let_def bind_res_Inr_conv split: option.splits if_splits)
  with assms(2) show "nat_wf s'" "\<not> nt_locked s'" by (auto simp: nat_wf_def pool_ok_def uses_def)
qed

end
