(* ===== verification/Tcp_Checksum.thy ===== *)
theory Tcp_Checksum
  imports Tcp_Packet
begin

text \<open>
  What a TCP checksum is (RFC 793 and RFC 1071), stated without the code, and when the checksum
  \<open>tcp_checksum\<close> of \<open>include/tcp.h\<close> computes is one: exactly when its 32-bit accumulator does not overflow.
  A receiver adds the pseudo header and the segment up as 16-bit numbers in network byte order,
  with end-around carry, and takes the segment when the sum is all ones.
\<close>

section \<open>The specification\<close>

text \<open>The sum of the 16-bit numbers, the first byte of each the high one; an odd last byte is padded with a zero.\<close>

fun network_sum :: "bytes \<Rightarrow> nat" where
  "network_sum (x # y # b) = 256 * unat x + unat y + network_sum b"
| "network_sum [x] = 256 * unat x"
| "network_sum [] = 0"

text \<open>Source and destination address, a zero byte, the protocol and the TCP length, as the bytes they are.\<close>

definition pseudo_header :: "bytes \<Rightarrow> nat \<Rightarrow> bytes" where
  "pseudo_header pkt n = slice pkt 26 8 @ [0, pkt ! 23, of_nat (n div 256), of_nat (n mod 256)]"

text \<open>
  The TCP length of a datagram, and the sum a receiver computes, whose end-around reduction is
  all ones exactly when it is a positive multiple of \<open>65535\<close>.
\<close>

definition tcp_length :: "bytes \<Rightarrow> nat" where
  "tcp_length pkt = unat (ntohs (iph_tot_len pkt)) - IP_HDR_SIZE pkt"

definition tcp_verifies :: "bytes \<Rightarrow> bool" where
  "tcp_verifies pkt \<longleftrightarrow>
    (let total = network_sum (pseudo_header pkt (tcp_length pkt) @ slice pkt (packet_to_tcp_hdr pkt) (tcp_length pkt))
     in 0 < total \<and> total mod 65535 = 0)"

definition ip_verifies :: "bytes \<Rightarrow> bool" where
  "ip_verifies pkt \<longleftrightarrow> (let total = network_sum (slice pkt 14 (IP_HDR_SIZE pkt)) in 0 < total \<and> total mod 65535 = 0)"

text \<open>What the code adds up, before the 32-bit accumulator truncates it: it reads little-endian words.\<close>

definition accumulated :: "bytes \<Rightarrow> nat" where
  "accumulated pkt = unat (iph_saddr pkt) + unat (iph_daddr pkt) + 256 * unat (pkt ! 23)
     + unat (htons (of_nat (tcp_length pkt)))
     + word_sum (slice (st16 pkt (packet_to_tcp_hdr pkt + 16) 0) (packet_to_tcp_hdr pkt) (tcp_length pkt))"

section \<open>Sums in either byte order\<close>

lemma network_sum_word_sum: "network_sum b mod 65535 = 256 * word_sum b mod 65535"
proof (induction b rule: word_sum.induct)
  case (1 x y b)
  have "256 * word_sum (x # y # b) = 65535 * unat y + (256 * unat x + unat y + 256 * word_sum b)" by simp
  then have "256 * word_sum (x # y # b) mod 65535 = (256 * unat x + unat y + 256 * word_sum b) mod 65535" by (metis mod_mult_self4)
  also have "\<dots> = (256 * unat x + unat y + network_sum b) mod 65535" using 1 by (metis mod_add_right_eq)
  finally show ?case by simp
qed simp_all

lemma network_sum_0: "network_sum b mod 65535 = 0 \<longleftrightarrow> word_sum b mod 65535 = 0"
proof -
  have "coprime (65535 :: nat) 256" by (simp add: coprime_iff_gcd_eq_1 gcd_non_0_nat)
  then have "65535 dvd 256 * word_sum b \<longleftrightarrow> 65535 dvd word_sum b" by (simp add: coprime_dvd_mult_right_iff)
  then show ?thesis by (simp add: network_sum_word_sum flip: dvd_eq_mod_eq_0)
qed

lemma network_sum_pos: "0 < network_sum b \<longleftrightarrow> 0 < word_sum b"
  by (induction b rule: word_sum.induct) auto

lemma word_sum_append: "length a mod 2 = 0 \<Longrightarrow> word_sum (a @ b) = word_sum a + word_sum b"
  by (induction a rule: word_sum.induct) auto

lemma ld16_sum: "unat (ld16 b i) = unat (b ! i) + 256 * unat (b ! Suc i)"
proof -
  have "ucast (ld16 b i) = b ! i" "ucast (drop_bit 8 (ld16 b i)) = b ! Suc i"
    unfolding ld16_def by (rule bit_word_eqI; auto simp: bit_simps not_less dest: bit_imp_le_length)+
  with unat_ucast_bytes[of "ld16 b i"] show ?thesis by simp
qed

lemma ld32_sum: "unat (ld32 b i) = unat (ld16 b i) + 65536 * unat (ld16 b (i + 2))"
proof -
  have h: "ucast (ld32 b i) = ld16 b i" "ucast (drop_bit 16 (ld32 b i)) = ld16 b (i + 2)"
    unfolding ld32_def by (rule bit_word_eqI; auto simp: bit_simps not_less dest: bit_imp_le_length)+
  have "unat (ld16 b i) = unat (ucast (ld32 b i) :: u16)" "unat (ld16 b (i + 2)) = unat (ucast (drop_bit 16 (ld32 b i)) :: u16)"
    by (simp_all only: h)
  then have "unat (ld16 b i) = unat (ld32 b i) mod 65536" "unat (ld16 b (i + 2)) = unat (ld32 b i) div 65536"
    using unat_u32_less[of "ld32 b i"]
    by (simp_all only: unsigned_ucast_eq take_bit_eq_mod unat_drop16) (simp_all add: div_less_iff_less_mult)
  then show ?thesis by simp
qed

lemma htons_sum: "n < 65536 \<Longrightarrow> unat (htons (of_nat n)) = n div 256 + 256 * (n mod 256)"
proof -
  assume n: "n < 65536"
  define v :: u16 where "v = of_nat n"
  have v: "unat v = n" using n by (simp add: v_def unsigned_of_nat take_bit_eq_mod)
  have h: "ucast (htons v) = (ucast (drop_bit 8 v) :: u8)" "ucast (drop_bit 8 (htons v)) = (ucast v :: u8)"
    unfolding htons_def by (rule bit_word_eqI; auto simp: bit_simps not_less dest: bit_imp_le_length)+
  have "unat (drop_bit 8 v) = n div 256" by (simp only: unat_drop_bit_eq v) (simp add: drop_bit_eq_div)
  moreover have "n div 256 < 256" using n by (simp add: div_less_iff_less_mult)
  ultimately have "unat (ucast (drop_bit 8 v) :: u8) = n div 256" "unat (ucast v :: u8) = n mod 256"
    by (simp_all add: unsigned_ucast_eq take_bit_eq_mod v)
  with unat_ucast_bytes[of "htons v"] show ?thesis unfolding h v_def[symmetric] by simp
qed

section \<open>The code against the specification\<close>

lemma slice_step: "0 < n \<Longrightarrow> i < length b \<Longrightarrow> slice b i n = b ! i # slice b (i + 1) (n - 1)"
  by (cases n) (simp_all add: slice_def Cons_nth_drop_Suc[symmetric])

lemma pseudo_header_sum:
  assumes "34 \<le> length pkt" "n < 65536"
  shows "word_sum (pseudo_header pkt n) mod 65535 =
    (unat (iph_saddr pkt) + unat (iph_daddr pkt) + 256 * unat (pkt ! 23) + unat (htons (of_nat n))) mod 65535"
proof -
  have 8: "slice pkt 26 8 = [pkt ! 26, pkt ! 27, pkt ! 28, pkt ! 29, pkt ! 30, pkt ! 31, pkt ! 32, pkt ! 33]"
    using assms by (simp add: slice_step) (simp add: slice_def)
  have "n div 256 < 256" using assms(2) by (simp add: div_less_iff_less_mult)
  then have len: "unat (of_nat (n div 256) :: u8) = n div 256" "unat (of_nat (n mod 256) :: u8) = n mod 256"
    by (simp_all add: unsigned_of_nat take_bit_eq_mod)
  define a b where "a = unat (ld16 pkt 28)" and "b = unat (ld16 pkt 32)"
  have "unat (iph_saddr pkt) + unat (iph_daddr pkt) + 256 * unat (pkt ! 23) + unat (htons (of_nat n))
      = word_sum (pseudo_header pkt n) + 65535 * (a + b)"
    by (simp add: pseudo_header_def 8 len iph_defs ld32_sum ld16_sum htons_sum[OF assms(2)] a_def b_def)
  then show ?thesis by (metis mod_mult_self2)
qed

text \<open>A checksum closes the sum the accumulator holds; every carry out of the accumulator is missing from it.\<close>

lemma checksum_closes: "((word_sum z + unat s) mod 4294967296 + unat (checksum z s)) mod 65535 = 0"
proof -
  define M where "M = (word_sum z + unat s) mod 4294967296"
  have M: "M < 4294967296" by (simp add: M_def)
  have c: "unat (checksum z s) = 65535 - fold16 (fold16 M)"
    by (simp add: M_def checksum_odd_byte unat_complement16 unat_fold_carries unat_sum_u16 fold16_twice)
  have "(M + unat (checksum z s)) mod 65535 = (fold16 (fold16 M) + unat (checksum z s)) mod 65535"
    by (metis fold16_mod mod_add_left_eq)
  then show ?thesis using c fold16_twice[OF M] by (simp add: M_def)
qed

lemma carries_lost:
  assumes "(M + c) mod 65535 = 0" "N = M + 4294967296 * K"
  shows "(N + c) mod 65535 = K mod (65535 :: nat)"
proof -
  obtain j where "M + c = 65535 * j" using assms(1) by (auto simp: mod_eq_0_iff_dvd elim: dvdE)
  with assms(2) have "N + c = K + 65535 * (65537 * K + j)" by simp
  then show ?thesis by (metis mod_mult_self2)
qed

lemma word_sum_field:
  assumes "2 * k + 2 \<le> n" "t + n \<le> length q"
  shows "word_sum (slice q t n) = word_sum (slice (st16 q (t + 2 * k) 0) t n) + unat (ld16 q (t + 2 * k))"
proof -
  have "slice (st16 q (t + 2 * k) 0) t n = st16 (slice q t n) (2 * k) 0"
    by (rule nth_equalityI) (use assms in \<open>auto simp: nth_slice st16_def nth_list_update\<close>)
  then show ?thesis using word_sum_st16[of k "slice q t n" 0] assms by (simp add: nth_slice ld16_sum add.commute[of t])
qed

text \<open>A header whose stored checksum the code accepts verifies: its sum of at most 30 words always fits.\<close>

lemma ip_header_verifies:
  assumes "ip_hdr_valid q"
  shows "ip_verifies q"
proof -
  define h where "h = slice q 14 (IP_HDR_SIZE q)"
  have q: "5 \<le> iph_ihl q" "14 + IP_HDR_SIZE q \<le> length q" "checksum h 0 = 0"
    using assms by (simp_all add: ip_hdr_valid_def IP_DATA_def h_def ip_consts)
  have "length h \<le> 60" using iph_ihl_less[of q] q(2) by (simp add: h_def IP_HDR_SIZE_def)
  then have small: "word_sum h < 4294967296" using word_sum_bound[of h] by linarith
  have "q ! 14 \<noteq> 0" using q(1) by (auto simp: iph_ihl_def ld8_def)
  moreover have "h = q ! 14 # q ! 15 # drop 2 h" using q by (simp add: h_def slice_step IP_HDR_SIZE_def)
  ultimately have pos: "0 < word_sum h" by (metis word_sum.simps(1) add_gr_0 unat_gt_0)
  show ?thesis
    using checksum_zero_iff[of h 0] small pos q(3)
    by (simp add: ip_verifies_def h_def[symmetric] network_sum_0 network_sum_pos)
qed

text \<open>The field a receiver recomputes is the stored one; then it verifies if and only if no carry was lost.\<close>

lemma tcp_checksum_verifies:
  assumes c: "tcp_checksum q (packet_to_tcp_hdr q) = Inr (th_checksum q (packet_to_tcp_hdr q))"
    and ihl: "5 \<le> iph_ihl q" and tot: "IP_HDR_SIZE q + TCP_BASE_HDR_SIZE \<le> unat (ntohs (iph_tot_len q))"
      "ETHER_HDR_SIZE + unat (ntohs (iph_tot_len q)) \<le> length q"
    and proto: "iph_protocol q = IPPROTO_TCP"
  shows "tcp_verifies q \<longleftrightarrow> accumulated q < 2 ^ 32"
proof -
  define t n where "t = packet_to_tcp_hdr q" and "n = tcp_length q"
  define S z where "S = slice q t n" and "z = slice (st16 q (t + 16) 0) t n"
  have "34 \<le> t" and n: "20 \<le> n" "t + n \<le> length q" "n < 65536"
    using ihl tot unat_u16_less[of "ntohs (iph_tot_len q)"]
    by (auto simp: t_def n_def tcp_length_def packet_to_tcp_hdr_def IP_HDR_SIZE_def TCP_BASE_HDR_SIZE_def ip_consts)
  have "unat (of_nat (IP_HDR_SIZE q) :: u16) = IP_HDR_SIZE q"
    using tot unat_u16_less[of "ntohs (iph_tot_len q)"] by (simp add: unsigned_of_nat take_bit_eq_mod)
  then have len: "ntohs (iph_tot_len q) - of_nat (IP_HDR_SIZE q) = (of_nat n :: u16)"
    using tot by (simp add: n_def tcp_length_def)
  define s where "s = iph_saddr q + iph_daddr q + ucast (htons (ucast (iph_protocol q))) + ucast (htons (of_nat n))"
  have cz: "checksum z s = ld16 q (t + 16)"
    using c n(3) by (simp add: tcp_checksum_def Let_def len checksum_loop_eq th_checksum_def s_def z_def t_def[symmetric]
        unsigned_of_nat take_bit_eq_mod split: if_splits)
  define N where "N = accumulated q"
  have q23: "q ! 23 = 6" using proto by (simp add: IPPROTO_TCP_def iph_protocol_def ld8_def)
  have "ucast (htons (ucast (iph_protocol q) :: u16)) = (1536 :: u32)"
    by (simp add: proto IPPROTO_TCP_def htons_def push_bit_eq_mult drop_bit_eq_div)
  moreover have "unat (ucast v :: u32) = unat v" for v :: u16
    using unat_u16_less[of v] by (simp add: unsigned_ucast_eq take_bit_eq_mod)
  ultimately have "unat s = (unat (iph_saddr q) + unat (iph_daddr q) + 1536 + unat (htons (of_nat n))) mod 4294967296"
    by (simp add: s_def unat_word_ariths mod_simps)
  moreover have "N = word_sum z + (unat (iph_saddr q) + unat (iph_daddr q) + 1536 + unat (htons (of_nat n)))"
    by (simp add: N_def accumulated_def q23 z_def t_def n_def)
  ultimately have Nz: "N mod 4294967296 = (word_sum z + unat s) mod 4294967296" by (metis mod_add_right_eq)
  define M where "M = N mod 4294967296"
  have M: "M < 4294967296" "N = M + 4294967296 * (N div 4294967296)" by (simp_all add: M_def)
  have closes: "(M + unat (ld16 q (t + 16))) mod 65535 = 0" unfolding M_def Nz cz[symmetric] by (rule checksum_closes)
  have "word_sum S = word_sum z + unat (ld16 q (t + 16))" unfolding S_def z_def using word_sum_field[of 8 n t q] n by simp
  moreover have "34 \<le> length q" using \<open>34 \<le> t\<close> n by linarith
  ultimately have T: "word_sum (pseudo_header q n @ S) mod 65535 = (N div 4294967296) mod 65535"
  proof -
    have "word_sum (pseudo_header q n @ S) = word_sum (pseudo_header q n) + word_sum S"
      by (rule word_sum_append) (use \<open>34 \<le> length q\<close> in \<open>simp add: pseudo_header_def\<close>)
    then have "word_sum (pseudo_header q n @ S) mod 65535 = (unat (iph_saddr q) + unat (iph_daddr q) + 256 * unat (q ! 23)
        + unat (htons (of_nat n)) + word_sum S) mod 65535"
      using pseudo_header_sum[OF \<open>34 \<le> length q\<close> n(3)] by (metis mod_add_left_eq)
    also have "unat (iph_saddr q) + unat (iph_daddr q) + 256 * unat (q ! 23) + unat (htons (of_nat n)) + word_sum S
        = N + unat (ld16 q (t + 16))"
      using \<open>word_sum S = _\<close> by (simp add: N_def accumulated_def z_def t_def n_def)
    also have "(N + unat (ld16 q (t + 16))) mod 65535 = (N div 4294967296) mod 65535" by (rule carries_lost[OF closes M(2)])
    finally show ?thesis .
  qed
  have "word_sum z \<le> 65535 * 65536" using word_sum_bound[of z] n by (simp add: z_def)
  then have small: "N div 4294967296 < 65535"
    using unat_u32_less[of "iph_saddr q"] unat_u32_less[of "iph_daddr q"] unat_u16_less[of "htons (of_nat n)"]
    by (simp add: div_less_iff_less_mult N_def accumulated_def q23 z_def t_def n_def)
  have "0 < word_sum (pseudo_header q n @ S)"
    by (simp add: pseudo_header_def word_sum_append q23 \<open>34 \<le> length q\<close>)
  then have "tcp_verifies q \<longleftrightarrow> N div 4294967296 = 0"
    using T small by (simp add: tcp_verifies_def network_sum_0 network_sum_pos n_def[symmetric] t_def[symmetric] S_def)
  then show ?thesis by (simp add: N_def div_eq_0_iff)
qed

end
