(* ===== verification/Nat_Translate.thy ===== *)
theory Nat_Translate
  imports Nat_Table Tcp_Checksum
begin

text \<open>
  What the translator promises: replies come back to the host that opened the flow, translated packets are
  forwarded with valid checksums, the pool never leaks a port, idle mappings expire; and what a packet it cannot
  map does to it.
\<close>

section \<open>What is rewritten\<close>

definition bytes32 :: "u32 \<Rightarrow> bytes" where
  "bytes32 v = [ucast v, ucast (drop_bit 8 v), ucast (drop_bit 16 v), ucast (drop_bit 24 v)]"

definition bytes16 :: "u16 \<Rightarrow> bytes" where
  "bytes16 v = [ucast v, ucast (drop_bit 8 v)]"

lemma ld16_bytes: "ucast (ld16 b i) = b ! i" "ucast (drop_bit 8 (ld16 b i)) = b ! Suc i"
  unfolding ld16_def by (rule bit_word_eqI; auto simp: bit_simps not_less dest: bit_imp_le_length)+

lemma ld32_halves: "ucast (ld32 b i) = ld16 b i" "ucast (drop_bit 16 (ld32 b i)) = ld16 b (i + 2)"
  unfolding ld32_def by (rule bit_word_eqI; auto simp: bit_simps not_less dest: bit_imp_le_length)+

lemma slice_ld16: "i + 2 \<le> length b \<Longrightarrow> slice b i 2 = bytes16 (ld16 b i)"
  by (auto simp: bytes16_def ld16_bytes list_eq_iff_nth_eq nth_slice less_Suc_eq numeral_2_eq_2)

lemma slice_ld32:
  assumes "i + 4 \<le> length b"
  shows "slice b i 4 = bytes32 (ld32 b i)"
proof -
  have v: "ucast (ld32 b i) = b ! i" "ucast (drop_bit 8 (ld32 b i)) = b ! (i + 1)" "ucast (drop_bit 16 (ld32 b i)) = b ! (i + 2)"
    "ucast (drop_bit 24 (ld32 b i)) = b ! Suc (Suc (Suc i))"
    unfolding ld32_def ld16_def by (rule bit_word_eqI; auto simp: bit_simps not_less dest: bit_imp_le_length)+
  show ?thesis
  proof (rule nth_equalityI)
    fix j assume "j < length (slice b i 4)"
    then have "j = 0 \<or> j = 1 \<or> j = 2 \<or> j = 3" using assms by auto
    then show "slice b i 4 ! j = bytes32 (ld32 b i) ! j" using assms v by (auto simp: nth_slice bytes32_def eval_nat_numeral)
  qed (use assms in \<open>simp add: bytes32_def\<close>)
qed

text \<open>A packet with its TCP header behind a whole IP header.\<close>

definition tcp_sized :: "bytes \<Rightarrow> bool" where
  "tcp_sized p \<longleftrightarrow> 5 \<le> iph_ihl p \<and> packet_to_tcp_hdr p + TCP_BASE_HDR_SIZE \<le> length p"

lemma tcp_sizedD: "tcp_sized p \<Longrightarrow> 34 \<le> packet_to_tcp_hdr p" "tcp_sized p \<Longrightarrow> packet_to_tcp_hdr p + 20 \<le> length p"
  "tcp_sized p \<Longrightarrow> has_ip_hdr p"
  by (auto simp: tcp_sized_def packet_to_tcp_hdr_def IP_HDR_SIZE_def TCP_BASE_HDR_SIZE_def has_ip_hdr_def ip_consts)

lemma nat_key_fields:
  assumes "tcp_sized p"
  shows "nat_key dir p = hash8 (bytes32 (htonl (remote_ip_of dir p))) XOR hash8 (bytes16 (htons (remote_port_of dir p)))"
  using tcp_sizedD[OF assms]
  by (auto simp: nat_key_def remote_ip_of_def remote_port_of_def Let_def slice_ld16 slice_ld32 iph_saddr_def iph_daddr_def th_sport_def th_dport_def)

lemma nat_rewrite_fields:
  assumes "tcp_sized p"
  shows "length (nat_rewrite dir m p) = length p" "packet_to_tcp_hdr (nat_rewrite dir m p) = packet_to_tcp_hdr p"
    "tcp_sized (nat_rewrite dir m p)" "remote_ip_of dir (nat_rewrite dir m p) = remote_ip_of dir p"
    "remote_port_of dir (nat_rewrite dir m p) = remote_port_of dir p"
    "local_ip_of dir (nat_rewrite dir m p) = (if dir = DIR_IN then nm_internal_ip m else nm_external_ip m)"
    "local_port_of dir (nat_rewrite dir m p) = (if dir = DIR_IN then nm_internal_port m else nm_external_port m)"
    "\<And>i. i \<notin> {26..<34} \<Longrightarrow> i \<notin> {packet_to_tcp_hdr p..<packet_to_tcp_hdr p + 4} \<Longrightarrow> nat_rewrite dir m p ! i = p ! i"
proof -
  note t = tcp_sizedD[OF assms]
  show 1: "length (nat_rewrite dir m p) = length p" by (simp add: nat_rewrite_def Let_def)
  have ihl: "iph_ihl (nat_rewrite dir m p) = iph_ihl p" using t by (simp add: nat_rewrite_def Let_def bytes_simps)
  then show 2: "packet_to_tcp_hdr (nat_rewrite dir m p) = packet_to_tcp_hdr p" by (simp add: packet_to_tcp_hdr_def IP_HDR_SIZE_def)
  then show "tcp_sized (nat_rewrite dir m p)" using assms 1 ihl by (simp add: tcp_sized_def)
  show "remote_ip_of dir (nat_rewrite dir m p) = remote_ip_of dir p" "local_ip_of dir (nat_rewrite dir m p) = (if dir = DIR_IN then nm_internal_ip m else nm_external_ip m)"
    using t by (auto simp: remote_ip_of_def local_ip_of_def nat_rewrite_def Let_def iph_saddr_def iph_daddr_def bytes_simps)
  show "remote_port_of dir (nat_rewrite dir m p) = remote_port_of dir p"
    "local_port_of dir (nat_rewrite dir m p) = (if dir = DIR_IN then nm_internal_port m else nm_external_port m)"
    unfolding remote_port_of_def local_port_of_def Let_def 2
    using t by (auto simp: nat_rewrite_def Let_def th_sport_def th_dport_def bytes_simps)
  show "nat_rewrite dir m p ! i = p ! i" if "i \<notin> {26..<34}" "i \<notin> {packet_to_tcp_hdr p..<packet_to_tcp_hdr p + 4}" for i
    using that by (auto simp: nat_rewrite_def Let_def st16_def st32_def nth_list_update)
qed

lemma find_unique: "m \<in> set ms \<Longrightarrow> P m \<Longrightarrow> distinct (map f ms) \<Longrightarrow> (\<And>x. P x \<Longrightarrow> f x = f m) \<Longrightarrow> find P ms = Some m"
proof (induction ms)
  case (Cons x ms)
  show ?case
  proof (cases "P x")
    case True
    with Cons.prems(4) have "f x = f m" by blast
    with Cons.prems(1,3) have "x = m" by auto
    with True show ?thesis by simp
  next
    case False
    with Cons.prems(1,2) have "m \<in> set ms" by auto
    from Cons.IH[OF this Cons.prems(2) _ Cons.prems(4)] Cons.prems(3) have "find P ms = Some m" by simp
    with False show ?thesis by simp
  qed
qed simp

lemma update_first_in: "find P xs = Some x \<Longrightarrow> f x \<in> set (update_first P f xs)"
  by (induction xs) (auto split: if_splits)

section \<open>Properties\<close>

text \<open>
  C8: a reply finds its way back.  In any state the NAT reaches from its initialisation, with no
  redirection rule on a port of the pool, let it translate an outgoing TCP packet.  The packet is forwarded with the source
  replaced by an external address and port, and nothing else changed; and from then on a packet
  from its destination to that address and port is forwarded with the destination replaced by the very address and
  port the first packet came from, and nothing else changed.
\<close>
theorem nat_reply_returns:
  assumes "nat_init file s0 = Inr si" "\<forall>r \<in> set (nt_rules si). \<not> pool_port (dr_external_port r)" "fold_res nat_step es si = Inr s"
    and p: "get_packet_direction p s = Inr DIR_OUT" "iph_protocol p = IPPROTO_TCP" "tcp_sized p"
    and r: "nat_translate_packet iface p s = Inr s1" "\<not> nt_locked s1"
  shows "\<exists>q sq. nat_translate_packet iface p s = nat_forward q sq \<and> tcp_sized q \<and> length q = length p \<and>
    (\<forall>i. i \<notin> {26..<30} \<longrightarrow> i \<notin> {packet_to_tcp_hdr p..<packet_to_tcp_hdr p + 2} \<longrightarrow> q ! i = p ! i) \<and>
    (\<forall>a iface'. tcp_sized a \<longrightarrow> iph_protocol a = IPPROTO_TCP \<longrightarrow> get_packet_direction a s1 = Inr DIR_IN \<longrightarrow>
       remote_ip_of DIR_IN a = remote_ip_of DIR_OUT q \<longrightarrow> remote_port_of DIR_IN a = remote_port_of DIR_OUT q \<longrightarrow>
       local_ip_of DIR_IN a = local_ip_of DIR_OUT q \<longrightarrow> local_port_of DIR_IN a = local_port_of DIR_OUT q \<longrightarrow>
       (\<exists>b sb. nat_translate_packet iface' a s1 = nat_forward b sb \<and> length b = length a \<and>
          local_ip_of DIR_IN b = local_ip_of DIR_OUT p \<and> local_port_of DIR_IN b = local_port_of DIR_OUT p \<and>
          (\<forall>i. i \<notin> {30..<34} \<longrightarrow> i \<notin> {packet_to_tcp_hdr a + 2..<packet_to_tcp_hdr a + 4} \<longrightarrow> b ! i = a ! i)))"
proof -
  have wf: "nat_wf s" by (rule nat_run_wf[OF assms(3) nat_init_wf(1)[OF assms(1,2)]])
  note t = tcp_sizedD[OF p(3)]
  have tr: "nat_translate_packet iface p s = do_translation p DIR_OUT s" using p by (simp add: nat_translate_packet_def)
  with r(1) have ul: "\<not> nt_locked s" by (auto simp: do_translation_eq split: if_splits)
  from r tr t ul obtain m sm where m: "get_mapping DIR_OUT p s = Inr (Some (m, sm))"
    "nat_forward (nat_rewrite DIR_OUT m p) (noted DIR_OUT p m sm) = Inr s1"
    by (auto simp: do_translation_eq bind_res_Inr_conv TCP_BASE_HDR_SIZE_def same_nat_def split: if_splits option.splits
        dest!: same_nat_more[OF icmp_send_more])
  let ?q = "nat_rewrite DIR_OUT m p"
  let ?m = "update_connection DIR_OUT ?q m"
  have eq: "nat_translate_packet iface p s = nat_forward ?q (noted DIR_OUT p m sm)"
    using m(1) t ul by (simp add: tr do_translation_eq TCP_BASE_HDR_SIZE_def)
  note q = nat_rewrite_fields[OF p(3), where dir = DIR_OUT and m = m]
  have qs: "?q ! i = p ! i" if "i \<notin> {26..<30}" "i \<notin> {packet_to_tcp_hdr p..<packet_to_tcp_hdr p + 2}" for i
    using that by (auto simp: nat_rewrite_def Let_def st16_def st32_def nth_list_update)
  note g = get_mapping_spec[OF wf m(1)]
  have fm: "fits DIR_OUT p m" using find_SomeD[OF g(2)] by blast
  have wf1: "nat_wf s1" using nat_forward_same[OF m(2)] noted_wf[OF g(1)] same_nat_wf by blast
  have in_list: "?m \<in> set (nt_list s1 (nat_key DIR_OUT p))"
    using nat_forward_same[OF m(2)] update_first_in[OF g(2)] by (simp add: same_nat_def noted_def nat_unlock_def)
  have returns: "\<exists>b sb. nat_translate_packet iface' a s1 = nat_forward b sb \<and> length b = length a \<and>
          local_ip_of DIR_IN b = local_ip_of DIR_OUT p \<and> local_port_of DIR_IN b = local_port_of DIR_OUT p \<and>
          (\<forall>i. i \<notin> {30..<34} \<longrightarrow> i \<notin> {packet_to_tcp_hdr a + 2..<packet_to_tcp_hdr a + 4} \<longrightarrow> b ! i = a ! i)"
    if a: "tcp_sized a" "iph_protocol a = IPPROTO_TCP" "get_packet_direction a s1 = Inr DIR_IN"
       "remote_ip_of DIR_IN a = remote_ip_of DIR_OUT ?q" "remote_port_of DIR_IN a = remote_port_of DIR_OUT ?q"
       "local_ip_of DIR_IN a = local_ip_of DIR_OUT ?q" "local_port_of DIR_IN a = local_port_of DIR_OUT ?q" for a iface'
  proof -
    have key: "nat_key DIR_IN a = nat_key DIR_OUT p" using nat_key_fields[OF a(1)] nat_key_fields[OF p(3)] a(4,5) q by simp
    from fm a(4-7) q(4-7) have f: "nm_remote_ip m = remote_ip_of DIR_IN a" "nm_remote_port m = remote_port_of DIR_IN a"
      "nm_external_ip m = local_ip_of DIR_IN a" "nm_external_port m = local_port_of DIR_IN a"
      by (simp_all add: fits_def nat_match_def)
    then have fit: "fits DIR_IN a ?m" and same: "\<And>x. fits DIR_IN a x \<Longrightarrow> outer x = outer ?m"
      by (auto simp: fits_def nat_match_def outer_def)
    have "find (fits DIR_IN a) (nt_list s1 (nat_key DIR_IN a)) = Some ?m"
      by (rule find_unique[where f = outer]) (use in_list fit same wf1 key in \<open>auto simp: nat_wf_def\<close>)
    then have "get_mapping DIR_IN a s1 = Inr (Some (?m, s1\<lparr>nt_locked := True\<rparr>))"
      by (simp add: get_mapping_def nat_get_mapping_def fits_def)
    then have "nat_translate_packet iface' a s1 = nat_forward (nat_rewrite DIR_IN ?m a) (noted DIR_IN a ?m (s1\<lparr>nt_locked := True\<rparr>))"
      using a(1-3) r(2) tcp_sizedD[OF a(1)] by (simp add: nat_translate_packet_def do_translation_eq TCP_BASE_HDR_SIZE_def)
    moreover have "local_ip_of DIR_IN (nat_rewrite DIR_IN ?m a) = local_ip_of DIR_OUT p"
      "local_port_of DIR_IN (nat_rewrite DIR_IN ?m a) = local_port_of DIR_OUT p"
      using nat_rewrite_fields[OF a(1), where dir = DIR_IN and m = ?m] fm by (simp_all add: fits_def nat_match_def)
    moreover have "nat_rewrite DIR_IN ?m a ! i = a ! i" if "i \<notin> {30..<34}" "i \<notin> {packet_to_tcp_hdr a + 2..<packet_to_tcp_hdr a + 4}" for i
      using that by (auto simp: nat_rewrite_def Let_def st16_def st32_def nth_list_update)
    ultimately show ?thesis using nat_rewrite_fields(1)[OF a(1)] by blast
  qed
  show ?thesis by (rule exI[of _ ?q], rule exI[of _ "noted DIR_OUT p m sm"]) (use eq q qs returns in auto)
qed

section \<open>A configuration and a packet\<close>

definition example_config :: bytes where
  "example_config = ascii ''internal-iface: r1-eth1'' @ [10] @ ascii ''external-iface: r1-eth0'' @ [10]"

definition example_nat :: "nat_net" where
  "example_nat = net.extend example_net \<lparr>nt_list = (\<lambda>_. []), nt_internal = None, nt_external = None,
     nt_ports = (\<lambda>_. False), nt_rules = [], nt_locked = False\<rparr>"

definition example_nat_ready :: "nat_net" where
  "example_nat_ready = example_nat\<lparr>nt_internal := Some (example_iface 2 0x0A000201),
     nt_external := Some (example_iface 1 0x0A000102)\<rparr>"

lemma zeros_Cons: "0 < n \<Longrightarrow> zeros n = 0 # zeros (n - 1)"
  by (cases n) (simp_all add: zeros_def)

lemma example_nat_init: "nat_init (Some example_config) example_nat = Inr example_nat_ready"
proof -
  obtain z where z: "zeros (1000 - length example_config) = 0 # z"
    by (auto simp: zeros_Cons example_config_def)
  have buf: "example_config @ zeros (1000 - length example_config) = example_config @ 0 # z" by (simp add: z)
  have i: "\<exists>p. strstr (ascii ''internal-iface: '') (example_config @ 0 # z) = Some p \<and>
      nat_if_name_to_iface [example_iface 1 0x0A000102, example_iface 2 0x0A000201] (drop 16 p) = Some (example_iface 2 0x0A000201)"
    by (simp add: example_config_def nat_if_name_to_iface_def example_iface_def)
  have e: "\<exists>p. strstr (ascii ''external-iface: '') (example_config @ 0 # z) = Some p \<and>
      nat_if_name_to_iface [example_iface 1 0x0A000102, example_iface 2 0x0A000201] (drop 16 p) = Some (example_iface 1 0x0A000102)"
    by (simp add: example_config_def nat_if_name_to_iface_def example_iface_def)
  have r: "parse_rules (example_config @ 0 # z) = Inr []"
    by (simp add: parse_rules.simps example_config_def)
  have l: "length example_config < 1000" by (simp add: example_config_def)
  from i e r l show ?thesis
    by (auto simp: nat_init_def parse_config_def buf example_nat_def example_nat_ready_def example_net_def net.defs Let_def)
qed

text \<open>From 10.0.2.22:1025 to 10.0.1.9:80.\<close>

definition example_tcp :: bytes where
  "example_tcp = zeros 12 @ [8, 0, 0x45, 0, 0, 40, 0, 0, 0, 0, 64, 6, 0, 0, 10, 0, 2, 22, 10, 0, 1, 9] @
     [4, 1, 0, 80] @ zeros 16"

lemma example_tcp_fields: "tcp_sized example_tcp" "length example_tcp = 54" "iph_protocol example_tcp = IPPROTO_TCP"
  "ntohl (iph_saddr example_tcp) = 0x0A000216" "ntohl (iph_daddr example_tcp) = 0x0A000109"
  "packet_to_tcp_hdr example_tcp = 34" "iph_ttl example_tcp = 64" "iph_ihl example_tcp = 5" "iph_tot_len example_tcp = htons 40"
  "ntohs (ether_type example_tcp) = ETH_P_IP"
proof -
  have t: "example_tcp = [0,0,0,0,0,0,0,0,0,0,0,0,8, 0, 0x45, 0, 0, 40, 0, 0, 0, 0, 64, 6, 0, 0, 10, 0, 2, 22, 10, 0, 1, 9,
     4, 1, 0, 80, 0,0,0,0,0,0,0,0,0,0,0,0,0,0,0,0]"
    by (simp add: example_tcp_def zeros_def numeral_eq_Suc)
  show l: "length example_tcp = 54" by (simp add: t)
  show ihl: "iph_ihl example_tcp = 5" by (simp add: t iph_ihl_def ld8_def nibble_simps)
  then show h: "packet_to_tcp_hdr example_tcp = 34" by (simp add: packet_to_tcp_hdr_def IP_HDR_SIZE_def ip_consts)
  show "tcp_sized example_tcp" by (simp add: tcp_sized_def ihl h l TCP_BASE_HDR_SIZE_def)
  show "iph_protocol example_tcp = IPPROTO_TCP" "iph_ttl example_tcp = 64" by (simp_all add: t iph_defs ld8_def IPPROTO_TCP_def)
  show "ntohl (iph_saddr example_tcp) = 0x0A000216" "ntohl (iph_daddr example_tcp) = 0x0A000109"
    by (simp_all add: t iph_defs ld32_def ld16_def ntohl_def htonl_def push_bit_eq_mult drop_bit_eq_div)
  show "ntohs (ether_type example_tcp) = ETH_P_IP"
    by (simp add: t ether_type_def ETH_P_IP_def ld16_def ntohs_def htons_def push_bit_eq_mult drop_bit_eq_div)
  show "iph_tot_len example_tcp = htons 40"
    by (simp add: t iph_defs ld16_def htons_def push_bit_eq_mult drop_bit_eq_div)
qed

lemma nat_forwards:
  assumes p: "tcp_sized p" "1 < iph_ttl p"
    "packet_to_tcp_hdr p + unat (ntohs (iph_tot_len p) - of_nat (IP_HDR_SIZE p)) \<le> length p"
    and m: "longest_prefix_match (net_rtable s) (ntohl (iph_daddr p)) = Some m"
  shows "\<exists>q. nat_forward p s = iface_send_packet_by_arp (rt_iface m) (next_hop m (ntohl (iph_daddr p))) q s \<and>
    length q = length p \<and> ip_hdr_valid q \<and> iph_ttl q = iph_ttl p - 1 \<and>
    tcp_checksum q (packet_to_tcp_hdr q) = Inr (th_checksum q (packet_to_tcp_hdr q)) \<and>
    (\<forall>i. i \<notin> {22, 24, 25, packet_to_tcp_hdr p + 16, packet_to_tcp_hdr p + 17} \<longrightarrow> q ! i = p ! i)"
proof -
  define t where "t = packet_to_tcp_hdr p"
  note sz = tcp_sizedD[OF p(1), folded t_def]
  have hdr: "5 \<le> iph_ihl p" "IP_DATA p < length p"
    using p(1) by (auto simp: tcp_sized_def packet_to_tcp_hdr_def IP_DATA_def TCP_BASE_HDR_SIZE_def)
  obtain c where c: "tcp_checksum p t = Inr c"
    using p(3) sz by (simp add: tcp_checksum_def Let_def TCP_BASE_HDR_SIZE_def t_def)
  define p1 where "p1 = st16 p (t + 16) c"
  have l1: "length p1 = length p" "iph_ihl p1 = iph_ihl p" using sz by (simp_all add: p1_def bytes_simps)
  have set: "\<exists>c. ip_set_checksum r = Inr (st16 r 24 c)" if "length r = length p" "iph_ihl r = iph_ihl p" for r
    using that hdr sz by (simp add: ip_set_checksum_def ip_checksum_def has_ip_hdr_def ip_consts IP_DATA_def IP_HDR_SIZE_def) blast
  obtain c1 where c1: "ip_set_checksum p1 = Inr (st16 p1 24 c1)" using set[OF l1] by blast
  define p3 where "p3 = st8 (st16 p1 24 c1) 22 (iph_ttl (st16 p1 24 c1) - 1)"
  have l3: "length p3 = length p" "iph_ihl p3 = iph_ihl p" using sz l1 by (simp_all add: p3_def bytes_simps)
  obtain c2 where c2: "ip_set_checksum p3 = Inr (st16 p3 24 c2)" using set[OF l3] by blast
  define q where "q = st16 p3 24 c2"
  have ttl1: "iph_ttl (st16 p1 24 c1) = iph_ttl p" using sz by (simp add: p1_def iph_ttl_def bytes_simps)
  have ttl: "iph_ttl p3 = iph_ttl p - 1" "\<not> iph_ttl p3 \<le> 0"
    using sz l1 p(2) by (auto simp: p3_def iph_ttl_def bytes_simps ttl1[unfolded iph_ttl_def] word_neq_0_conv[symmetric])
  have q: "length q = length p" "iph_ihl q = iph_ihl p" "iph_tot_len q = iph_tot_len p" "iph_protocol q = iph_protocol p"
    "iph_saddr q = iph_saddr p" "iph_daddr q = iph_daddr p" "iph_ttl q = iph_ttl p - 1" "th_checksum q t = c"
    using sz l1 l3 ttl by (simp_all add: q_def p3_def p1_def iph_defs th_defs bytes_simps)
  have hq: "packet_to_tcp_hdr q = t" "IP_HDR_SIZE q = IP_HDR_SIZE p" using q by (simp_all add: t_def packet_to_tcp_hdr_def IP_HDR_SIZE_def)
  have same: "q ! i = p ! i" if "i \<notin> {22, 24, 25, t + 16, t + 17}" for i
    using that by (simp add: q_def p3_def p1_def st8_def st16_def)
  have "slice (st16 q (t + 16) 0) t n = slice (st16 p (t + 16) 0) t n" for n
    by (rule slice_cong_bytes) (use sz same q(1) in \<open>auto simp: st16_def nth_list_update\<close>)
  then have "tcp_checksum q t = tcp_checksum p t" using q hq by (simp add: tcp_checksum_def Let_def)
  then have "tcp_checksum q t = Inr c" using c by simp
  moreover have "ip_hdr_valid q" unfolding q_def by (rule ip_set_checksum_valid[OF c2]) (use l3 hdr in simp)
  moreover have "nat_forward p s = iface_send_packet_by_arp (rt_iface m) (next_hop m (ntohl (iph_daddr p))) q s"
    using c c1 c2 ttl(2) q(6) m by (simp add: nat_forward_def Let_def t_def[symmetric] p1_def[symmetric] p3_def[symmetric] q_def[symmetric])
  ultimately show ?thesis using q hq same t_def by (intro exI[of _ q]) simp
qed

lemma nat_forward_ok:
  assumes "tcp_sized p" "1 < iph_ttl p"
    "packet_to_tcp_hdr p + unat (ntohs (iph_tot_len p) - of_nat (IP_HDR_SIZE p)) \<le> length p"
    "longest_prefix_match (net_rtable s) (ntohl (iph_daddr p)) = Some m"
  shows "\<exists>s'. nat_forward p s = Inr s'"
proof -
  obtain q where q: "nat_forward p s = iface_send_packet_by_arp (rt_iface m) (next_hop m (ntohl (iph_daddr p))) q s" "length q = length p"
    using nat_forwards[OF assms] by blast
  have "ETHER_HDR_SIZE \<le> length q" using tcp_sizedD[OF assms(1)] q(2) by (simp add: ip_consts)
  from by_arp_ok[OF this] show ?thesis unfolding q(1) .
qed

text \<open>The bytes the checksum is computed from are those of the packet forwarded.\<close>

lemma accumulated_same:
  assumes "length q = length p" "34 \<le> packet_to_tcp_hdr p" "packet_to_tcp_hdr p + 20 \<le> length p" "packet_to_tcp_hdr p + tcp_length p \<le> length p"
    and same: "\<And>i. i \<notin> {22, 24, 25, packet_to_tcp_hdr p + 16, packet_to_tcp_hdr p + 17} \<Longrightarrow> q ! i = p ! i"
  shows "iph_ihl q = iph_ihl p" "iph_tot_len q = iph_tot_len p" "iph_protocol q = iph_protocol p" "accumulated q = accumulated p"
proof -
  define t where "t = packet_to_tcp_hdr p"
  have f: "iph_ihl q = iph_ihl p" "iph_tot_len q = iph_tot_len p" "iph_protocol q = iph_protocol p"
    "iph_saddr q = iph_saddr p" "iph_daddr q = iph_daddr p" "q ! 23 = p ! 23"
    using assms(2) by (simp_all add: iph_defs ld8_def ld16_def ld32_def same)
  have h: "packet_to_tcp_hdr q = t" "tcp_length q = tcp_length p"
    by (simp_all add: t_def packet_to_tcp_hdr_def tcp_length_def IP_HDR_SIZE_def f)
  have "slice (st16 q (t + 16) 0) t (tcp_length p) = slice (st16 p (t + 16) 0) t (tcp_length p)"
    by (rule slice_cong_bytes) (use assms(1-4) same in \<open>auto simp: t_def st16_def nth_list_update\<close>)
  then show "accumulated q = accumulated p" by (simp add: accumulated_def f h t_def[symmetric])
qed (use assms(2) in \<open>simp_all add: iph_defs ld8_def ld16_def same\<close>)

text \<open>
  C35: a translated packet is forwarded as a router would, and when its checksums are right.  If its TCP segment is whole and a
  route leads to its new destination, a packet whose TTL is at least two is handed to the interface of that route, for the
  gateway or the destination, with its TTL one lower, with a header checksum that verifies, and with nothing changed besides.
  Its TCP checksum verifies at the peer, whose ones'-complement sum runs over the pseudo header and the segment, exactly
  when the sum the code accumulates fits 32 bits: adding the two addresses loses a carry otherwise.
\<close>
theorem nat_forward_correct:
  assumes p: "tcp_sized p" "1 < iph_ttl p" "iph_protocol p = IPPROTO_TCP"
    "IP_HDR_SIZE p + TCP_BASE_HDR_SIZE \<le> unat (ntohs (iph_tot_len p))" "ETHER_HDR_SIZE + unat (ntohs (iph_tot_len p)) \<le> length p"
    and m: "longest_prefix_match (net_rtable s) (ntohl (iph_daddr p)) = Some m"
  shows "\<exists>q. nat_forward p s = iface_send_packet_by_arp (rt_iface m) (next_hop m (ntohl (iph_daddr p))) q s \<and>
    length q = length p \<and> ip_verifies q \<and> iph_ttl q = iph_ttl p - 1 \<and> (tcp_verifies q \<longleftrightarrow> accumulated p < 2 ^ 32) \<and>
    (\<forall>i. i \<notin> {22, 24, 25, packet_to_tcp_hdr p + 16, packet_to_tcp_hdr p + 17} \<longrightarrow> q ! i = p ! i)"
proof -
  have "unat (of_nat (IP_HDR_SIZE p) :: u16) = IP_HDR_SIZE p"
    using p(4) unat_u16_less[of "ntohs (iph_tot_len p)"] by (simp add: unsigned_of_nat take_bit_eq_mod)
  then have len: "unat (ntohs (iph_tot_len p) - of_nat (IP_HDR_SIZE p)) = tcp_length p"
    using p(4) by (simp add: tcp_length_def unat_sub word_le_nat_alt)
  have whole: "packet_to_tcp_hdr p + tcp_length p \<le> length p"
    using p(4,5) by (simp add: packet_to_tcp_hdr_def tcp_length_def)
  obtain q where q: "nat_forward p s = iface_send_packet_by_arp (rt_iface m) (next_hop m (ntohl (iph_daddr p))) q s"
    "length q = length p" "ip_hdr_valid q" "iph_ttl q = iph_ttl p - 1"
    "tcp_checksum q (packet_to_tcp_hdr q) = Inr (th_checksum q (packet_to_tcp_hdr q))"
    "\<forall>i. i \<notin> {22, 24, 25, packet_to_tcp_hdr p + 16, packet_to_tcp_hdr p + 17} \<longrightarrow> q ! i = p ! i"
    using nat_forwards[OF p(1,2) _ m] whole by (auto simp: len)
  note same = accumulated_same[OF q(2) tcp_sizedD(1,2)[OF p(1)] whole q(6)[rule_format]]
  have "tcp_verifies q \<longleftrightarrow> accumulated q < 2 ^ 32"
    by (rule tcp_checksum_verifies[OF q(5)])
      (use p same q(2) in \<open>simp_all add: IP_HDR_SIZE_def tcp_sized_def\<close>)
  with q ip_header_verifies[OF q(3)] same show ?thesis by auto
qed

lemma example_tcp_sum: "accumulated example_tcp < 2 ^ 32"
proof -
  have a: "iph_saddr example_tcp = htonl 0x0A000216" "iph_daddr example_tcp = htonl 0x0A000109"
    by (metis example_tcp_fields(4) htonl_ntohl) (metis example_tcp_fields(5) htonl_ntohl)
  have l: "tcp_length example_tcp = 20" by (simp add: tcp_length_def example_tcp_fields IP_HDR_SIZE_def)
  have "word_sum (slice (st16 example_tcp 50 0) 34 20) \<le> 65535 * 20"
    using word_sum_bound[of "slice (st16 example_tcp 50 0) 34 20"] by (simp add: example_tcp_fields)
  then show ?thesis
    using unat_u8_less[of "example_tcp ! 23"] unat_u16_less[of "htons (of_nat 20)"]
    by (simp add: accumulated_def l a example_tcp_fields htonl_def push_bit_eq_mult drop_bit_eq_div)
qed

theorem nat_forward_correct_witness:
  "\<exists>q. nat_forward example_tcp example_net = iface_send_packet_by_arp (example_iface 1 0x0A000102) 0x0A000101 q example_net \<and>
    length q = 54 \<and> ip_verifies q \<and> iph_ttl q = 63 \<and> tcp_verifies q"
  using nat_forward_correct[of example_tcp example_net "new_rt_entry 0 0 0x0A000101 (example_iface 1 0x0A000102)"] example_tcp_sum
  by (auto simp: TCP_BASE_HDR_SIZE_def ETHER_HDR_SIZE_def example_tcp_fields example_routes example_net_def new_rt_entry_def next_hop_def IP_HDR_SIZE_def)

lemma nat_timeout_ok: "\<not> nt_locked s \<Longrightarrow> \<exists>t. nat_timeout s = Inr t \<and> \<not> nt_locked t"
  by (cases "nat_sweep_table [0..<256] (nt_list s) (nt_ports s)") (simp add: nat_timeout_def nat_lock_def nat_unlock_def)

lemma sweeps_ok: "\<not> nt_locked s \<Longrightarrow> \<exists>s'. fold_res nat_step (replicate n NatSecond) s = Inr s' \<and> \<not> nt_locked s'"
proof (induction n arbitrary: s)
  case (Suc n)
  obtain t where t: "nat_timeout s = Inr t" "\<not> nt_locked t" using nat_timeout_ok[OF Suc.prems] by blast
  with Suc.IH[OF t(2)] show ?case by simp
qed simp

section \<open>A translation that succeeds\<close>

lemma example_direction: "get_packet_direction example_tcp example_nat_ready = Inr DIR_OUT"
proof -
  have "has_ip_hdr example_tcp" using tcp_sizedD(3)[OF example_tcp_fields(1)] .
  then show ?thesis
    by (simp add: get_packet_direction_def Let_def example_tcp_fields example_nat_ready_def example_nat_def example_net_def
        net.defs example_routes new_rt_entry_def example_iface_def)
qed

lemma assign_port_first: "\<not> ports 12345 \<Longrightarrow> assign_port ports = Some 12345"
proof -
  have "[NAT_PORT_MIN..<NAT_PORT_MAX + 1] = NAT_PORT_MIN # [Suc NAT_PORT_MIN..<NAT_PORT_MAX + 1]"
    by (rule upt_conv_Cons) (simp add: NAT_PORT_MIN_def NAT_PORT_MAX_def)
  then show "\<not> ports 12345 \<Longrightarrow> assign_port ports = Some 12345"
    by (simp add: assign_port_def) (simp add: NAT_PORT_MIN_def)
qed

lemma example_translates: "\<exists>s1. nat_translate_packet iface example_tcp example_nat_ready = Inr s1 \<and> \<not> nt_locked s1"
proof -
  note f = example_tcp_fields
  have e: "nt_external example_nat_ready = Some (example_iface 1 0x0A000102)" "nt_ports example_nat_ready = (\<lambda>_. False)"
    "nt_list example_nat_ready = (\<lambda>_. [])" "\<not> nt_locked example_nat_ready" "net_rtable example_nat_ready = example_rtable"
    by (simp_all add: example_nat_ready_def example_nat_def example_net_def net.defs)
  obtain m s where m: "get_mapping DIR_OUT example_tcp example_nat_ready = Inr (Some (m, s))" "net_rtable s = example_rtable"
    using e by (auto simp: get_mapping_def nat_get_mapping_def nat_new_mapping_def assign_port_first)
  let ?q = "nat_rewrite DIR_OUT m example_tcp"
  note q = nat_rewrite_fields[OF f(1), where dir = DIR_OUT and m = m]
  have same: "iph_ttl ?q = 64" "iph_tot_len ?q = htons 40" "iph_ihl ?q = 5" "iph_daddr ?q = iph_daddr example_tcp"
    using f tcp_sizedD[OF f(1)] by (simp_all add: nat_rewrite_def Let_def iph_defs bytes_simps)
  have "\<exists>s'. nat_forward ?q (noted DIR_OUT example_tcp m s) = Inr s'"
    by (rule nat_forward_ok[OF q(3), where m = "new_rt_entry 0 0 0x0A000101 (example_iface 1 0x0A000102)"])
      (use same q f in \<open>simp_all add: m(2) example_routes IP_HDR_SIZE_def\<close>)
  then obtain s1 where s1: "nat_forward ?q (noted DIR_OUT example_tcp m s) = Inr s1" ..
  have "nat_translate_packet iface example_tcp example_nat_ready = Inr s1"
    using s1 m(1) e tcp_sizedD[OF f(1)] f by (simp add: nat_translate_packet_def example_direction do_translation_eq TCP_BASE_HDR_SIZE_def)
  moreover have "\<not> nt_locked s1" using nat_forward_same[OF s1] by (simp add: same_nat_def)
  ultimately show ?thesis by blast
qed

theorem nat_reply_returns_witness:
  "\<exists>q sq. nat_init (Some example_config) example_nat = Inr example_nat_ready \<and>
    nat_translate_packet (example_iface 2 0x0A000201) example_tcp example_nat_ready = nat_forward q sq \<and> tcp_sized q \<and> length q = 54"
proof -
  obtain s1 where s1: "nat_translate_packet (example_iface 2 0x0A000201) example_tcp example_nat_ready = Inr s1" "\<not> nt_locked s1"
    using example_translates by blast
  have r: "\<forall>r \<in> set (nt_rules example_nat_ready). \<not> pool_port (dr_external_port r)"
    by (simp add: example_nat_ready_def example_nat_def net.defs)
  show ?thesis
    using nat_reply_returns[OF example_nat_init r _ example_direction example_tcp_fields(3,1) s1, of "[]"]
    by (auto simp: example_nat_init example_tcp_fields)
qed

section \<open>The port pool\<close>

text \<open>
  C15: the pool never leaks and never shares a port.  Whatever frames and sweeps the NAT sees after it was initialised with no
  redirection rule on a port of the pool, a port of the pool is marked as assigned if it is the external port of exactly
  one mapping and free if it is that of none, no port outside the pool is marked, and no two mappings in a bucket have
  the same remote and external end.
\<close>
theorem nat_ports_exact:
  assumes "nat_init file s0 = Inr si" "\<forall>r \<in> set (nt_rules si). \<not> pool_port (dr_external_port r)" "fold_res nat_step es si = Inr s"
  shows "(if pool_port p then uses p (nt_list s) = (if nt_ports s p then 1 else 0) else \<not> nt_ports s p) \<and>
    distinct (map outer (nt_list s k))"
  using nat_run_wf[OF assms(3) nat_init_wf(1)[OF assms(1,2)]] by (auto simp: nat_wf_def pool_ok_def)

theorem nat_ports_exact_witness:
  "\<exists>s. nat_init (Some example_config) example_nat = Inr example_nat_ready \<and>
    fold_res nat_step [NatSecond, NatSecond] example_nat_ready = Inr s \<and> uses 12345 (nt_list s) = (if nt_ports s 12345 then 1 else 0)"
proof -
  have r: "\<forall>r \<in> set (nt_rules example_nat_ready). \<not> pool_port (dr_external_port r)"
    by (simp add: example_nat_ready_def example_nat_def net.defs)
  have l: "\<not> nt_locked example_nat_ready" by (simp add: example_nat_ready_def example_nat_def net.defs)
  obtain s where s: "fold_res nat_step [NatSecond, NatSecond] example_nat_ready = Inr s"
    using sweeps_ok[OF l, of 2] by (auto simp: numeral_2_eq_2)
  have "pool_port 12345" by (simp add: pool_port_def NAT_PORT_MIN_def NAT_PORT_MAX_def)
  with nat_ports_exact[OF example_nat_init r s, of 12345] s show ?thesis by (auto simp: example_nat_init)
qed

section \<open>The lock that is never released\<close>

lemma icmp_error_ok:
  assumes "has_ip_hdr p" "type \<noteq> ICMP_ECHOREPLY" "IP_DATA p + ICMP_COPIED_DATA_LEN \<le> length p"
  shows "\<exists>s'. icmp_send_packet p type code s = Inr s'"
proof (cases "longest_prefix_match (net_rtable s) (ntohl (iph_saddr p))")
  case None
  with assms show ?thesis by (simp add: icmp_send_packet_def Let_def)
next
  case (Some m)
  from icmp_error_message[OF assms Some] obtain q where q: "icmp_send_packet p type code s = ip_send_packet q (snd (net_random s))"
    "34 \<le> length q" by (auto simp: icmp_message_def ip_hdr_valid_def has_ip_hdr_def ip_consts)
  with ip.send_total[OF q(2)] show ?thesis by auto
qed

text \<open>
  C37: a packet the NAT cannot map stops it.  An incoming TCP packet that belongs to no mapping and that no redirection rule
  covers is answered with a host unreachable message, but the function returns with the mutex locked:
  the next round of the sweeping thread blocks for ever, and so does every translation that comes after it.
\<close>
theorem nat_unknown_inbound_deadlocks:
  assumes "get_packet_direction p s = Inr DIR_IN" "iph_protocol p = IPPROTO_TCP" "tcp_sized p"
    and "\<forall>m \<in> set (nt_list s (nat_key DIR_IN p)). \<not> fits DIR_IN p m"
    and "\<forall>r \<in> set (nt_rules s). \<not> (dr_external_ip r = local_ip_of DIR_IN p \<and> dr_external_port r = local_port_of DIR_IN p)"
    and "\<not> nt_locked s"
  shows "\<exists>s'. nat_translate_packet iface p s = Inr s' \<and> nt_locked s' \<and> nat_timeout s' = Inl Sleeps \<and> icmp_send_packet p ICMP_DEST_UNREACH ICMP_HOST_UNREACH (s\<lparr>nt_locked := True\<rparr>) = Inr s' \<and>
    (\<forall>q dir. tcp_sized q \<longrightarrow> do_translation q dir s' = Inl Sleeps)"
proof -
  have "find (fits DIR_IN p) (nt_list s (nat_key DIR_IN p)) = None" using assms(4) by (auto simp: find_None_iff)
  moreover have "find (\<lambda>r. dr_external_ip r = local_ip_of DIR_IN p \<and> dr_external_port r = local_port_of DIR_IN p) (nt_rules s) = None"
    using assms(5) by (auto simp: find_None_iff)
  ultimately have "get_mapping DIR_IN p s = Inr None"
    by (simp add: get_mapping_def nat_get_mapping_def nat_new_mapping_def fits_def)
  with assms(1-3) assms(6) have eq: "nat_translate_packet iface p s = icmp_send_packet p ICMP_DEST_UNREACH ICMP_HOST_UNREACH (s\<lparr>nt_locked := True\<rparr>)"
    using tcp_sizedD[OF assms(3)] by (simp add: nat_translate_packet_def do_translation_eq TCP_BASE_HDR_SIZE_def)
  obtain s' where 1: "icmp_send_packet p ICMP_DEST_UNREACH ICMP_HOST_UNREACH (s\<lparr>nt_locked := True\<rparr>) = Inr s'"
    using icmp_error_ok[of p ICMP_DEST_UNREACH ICMP_HOST_UNREACH "s\<lparr>nt_locked := True\<rparr>"] tcp_sizedD[OF assms(3)]
    by (auto simp: packet_to_tcp_hdr_def IP_DATA_def icmp_consts)
  have "nt_locked s'" using same_nat_more[OF icmp_send_more[OF 1]] by (simp add: same_nat_def)
  with 1 eq show ?thesis
    by (auto simp: nat_timeout_def nat_lock_def do_translation_eq TCP_BASE_HDR_SIZE_def dest: tcp_sizedD)
qed

definition example_inbound :: bytes where
  "example_inbound = st32 (st32 example_tcp 26 (htonl 0x0A000109)) 30 (htonl 0x0A000102)"

theorem nat_unknown_inbound_deadlocks_witness:
  "\<exists>s. nat_translate_packet (example_iface 1 0x0A000102) example_inbound example_nat_ready = Inr s \<and> nat_timeout s = Inl Sleeps"
proof -
  note f = example_tcp_fields
  have ihl: "iph_ihl example_inbound = 5" using f by (simp add: example_inbound_def bytes_simps)
  have g: "tcp_sized example_inbound" "iph_protocol example_inbound = IPPROTO_TCP"
    "ntohl (iph_saddr example_inbound) = 0x0A000109" "ntohl (iph_daddr example_inbound) = 0x0A000102"
    using f ihl by (simp_all add: tcp_sized_def packet_to_tcp_hdr_def IP_HDR_SIZE_def example_inbound_def iph_defs bytes_simps)
  have e: "nt_rules example_nat_ready = []" "nt_list example_nat_ready = (\<lambda>_. [])" "\<not> nt_locked example_nat_ready"
    "nt_external example_nat_ready = Some (example_iface 1 0x0A000102)" "nt_internal example_nat_ready = Some (example_iface 2 0x0A000201)"
    "net_rtable example_nat_ready = example_rtable"
    by (simp_all add: example_nat_ready_def example_nat_def example_net_def net.defs)
  have "get_packet_direction example_inbound example_nat_ready = Inr DIR_IN"
    using tcp_sizedD(3)[OF g(1)] by (simp add: get_packet_direction_def Let_def g e example_routes new_rt_entry_def example_iface_def)
  from nat_unknown_inbound_deadlocks[OF this g(2,1), of "example_iface 1 0x0A000102"] e show ?thesis by auto
qed

section \<open>Idle mappings\<close>

lemma idle_sweeps:
  assumes "fold_res nat_step (replicate n NatSecond) s = Inr s'" "m' \<in> set (nt_list s' k)"
  shows "\<exists>m \<in> set (nt_list s k). nm_update_time m' = nm_update_time m + int n \<and> (0 < n \<longrightarrow> nm_update_time m' < TCP_ESTABLISHED_TIMEOUT)"
  using assms
proof (induction n arbitrary: s)
  case (Suc n)
  then obtain t where t: "nat_timeout s = Inr t" "fold_res nat_step (replicate n NatSecond) t = Inr s'"
    by (auto simp: bind_res_Inr_conv)
  from Suc.IH[OF t(2) Suc.prems(2)] obtain m1 where m1: "m1 \<in> set (nt_list t k)" "nm_update_time m' = nm_update_time m1 + int n"
    "0 < n \<longrightarrow> nm_update_time m' < TCP_ESTABLISHED_TIMEOUT" by blast
  from m1(1) obtain m where "m \<in> set (nt_list s k)" "m1 = nat_age m" "\<not> nat_expired m1"
    by (auto simp: nat_timeout_spec(2)[OF t(1)])
  with m1 show ?case by (intro bexI[of _ m]) (auto simp: nat_expired_def)
qed auto

text \<open>The age of a mapping is never negative.\<close>

definition aged :: "(u8 \<Rightarrow> nat_mapping list) \<Rightarrow> bool" where
  "aged T \<longleftrightarrow> (\<forall>k. \<forall>m \<in> set (T k). 0 \<le> nm_update_time m)"

lemma update_first_set: "y \<in> set (update_first P f xs) \<Longrightarrow> y \<in> set xs \<or> y \<in> f ` set xs"
  by (induction xs) (auto split: if_splits)

lemma get_mapping_aged: "get_mapping dir p s = Inr (Some (m, s')) \<Longrightarrow> aged (nt_list s) \<Longrightarrow> aged (nt_list s')"
  by (auto simp: get_mapping_def nat_get_mapping_def nat_new_mapping_def bind_res_Inr_conv aged_def split: option.splits if_splits)

lemma noted_aged: "aged (nt_list s) \<Longrightarrow> aged (nt_list (noted dir p m s))"
  by (auto simp: aged_def noted_def nat_unlock_def dest!: update_first_set) (simp add: update_connection_def Let_def)

lemma same_list: "net.more s' = net.more (s :: 'b nat_net_scheme) \<Longrightarrow> nt_list s' = nt_list s"
  using same_nat_more[of s' s] by (simp add: same_nat_def)

lemma do_translation_aged: "do_translation p dir s = Inr s' \<Longrightarrow> aged (nt_list s) \<Longrightarrow> aged (nt_list s')"
  using get_mapping_aged[of dir p s]
  by (auto simp: do_translation_eq bind_res_Inr_conv same_list[OF nat_forward_more] noted_aged same_list[OF icmp_send_more]
      split: if_splits option.splits)

lemma nat_handle_aged: "nat_handle_packet iface p s = Inr s' \<Longrightarrow> aged (nt_list s) \<Longrightarrow> aged (nt_list s')"
  by (auto simp: nat_handle_packet_def nat_handle_ip_packet_def nat_translate_packet_def bind_res_Inr_conv split: if_splits
      dest: do_translation_aged same_list[OF icmp_send_more] same_list[OF handle_arp_more])

lemma nat_step_aged: "nat_step e s = Inr s' \<Longrightarrow> aged (nt_list s) \<Longrightarrow> aged (nt_list s')"
proof (cases e)
  case (NatArpSweep now)
  assume "nat_step e s = Inr s'" "aged (nt_list s)"
  with NatArpSweep same_list[OF arpcache_sweep_more, of "s\<lparr>net_clock := now\<rparr>" s'] show ?thesis by simp
qed (auto simp: aged_def nat_timeout_spec(2) dest: nat_handle_aged[unfolded aged_def])

lemma nat_run_aged: "fold_res nat_step es s = Inr s' \<Longrightarrow> aged (nt_list s) \<Longrightarrow> aged (nt_list s')"
  by (rule fold_res_invariant[where P = "\<lambda>s. aged (nt_list s)"]) (auto dest: nat_step_aged)

lemma nat_init_list: "nat_init file s = Inr s' \<Longrightarrow> nt_list s' = (\<lambda>_. [])"
  by (auto simp: nat_init_def parse_config_def Let_def bind_res_Inr_conv split: option.splits if_splits)

text \<open>
  C36: idle mappings expire.  In a state the NAT reaches, while its mutex is free and no packet comes, the sweeping thread's
  rounds all return, and after sixty of them every bucket is empty and every port of the pool is free.
\<close>
theorem nat_idle_expires:
  assumes "nat_init file s0 = Inr si" "\<forall>r \<in> set (nt_rules si). \<not> pool_port (dr_external_port r)" "fold_res nat_step es si = Inr s"
    and "\<not> nt_locked s" "60 \<le> n"
  shows "\<exists>s'. fold_res nat_step (replicate n NatSecond) s = Inr s' \<and> (\<forall>k. nt_list s' k = []) \<and> (\<forall>p. \<not> nt_ports s' p)"
proof -
  have wf: "nat_wf s" by (rule nat_run_wf[OF assms(3) nat_init_wf(1)[OF assms(1,2)]])
  obtain s' where s': "fold_res nat_step (replicate n NatSecond) s = Inr s'" using sweeps_ok[OF assms(4)] by blast
  have old: "0 \<le> nm_update_time m" if "m \<in> set (nt_list s k)" for m k
    using nat_run_aged[OF assms(3)] nat_init_list[OF assms(1)] that by (auto simp: aged_def)
  have empty: "nt_list s' k = []" for k
  proof (rule ccontr)
    assume "nt_list s' k \<noteq> []"
    then obtain m' where m': "m' \<in> set (nt_list s' k)" by (cases "nt_list s' k") auto
    from idle_sweeps[OF s' m'] assms(5) obtain m where m: "m \<in> set (nt_list s k)" "nm_update_time m' = nm_update_time m + int n"
      "nm_update_time m' < TCP_ESTABLISHED_TIMEOUT" by auto
    with old[OF m(1)] assms(5) show False by (simp add: TCP_ESTABLISHED_TIMEOUT_def)
  qed
  then have "uses p (nt_list s') = 0" for p by (simp add: uses_def)
  moreover have pool: "pool_ok (nt_list s') (nt_ports s')" using nat_run_wf[OF s' wf] by (simp add: nat_wf_def)
  ultimately have "\<not> nt_ports s' p" for p using pool[unfolded pool_ok_def, rule_format, of p] by (cases "pool_port p") simp_all
  with s' empty show ?thesis by blast
qed

theorem nat_idle_expires_witness:
  "\<exists>s s'. nat_init (Some example_config) example_nat = Inr example_nat_ready \<and>
    nat_translate_packet (example_iface 2 0x0A000201) example_tcp example_nat_ready = Inr s \<and>
    fold_res nat_step (replicate 60 NatSecond) s = Inr s' \<and> (\<forall>k. nt_list s' k = []) \<and> (\<forall>p. \<not> nt_ports s' p)"
proof -
  obtain s where s: "nat_translate_packet (example_iface 2 0x0A000201) example_tcp example_nat_ready = Inr s" "\<not> nt_locked s"
    using example_translates by blast
  have r: "\<forall>r \<in> set (nt_rules example_nat_ready). \<not> pool_port (dr_external_port r)"
    by (simp add: example_nat_ready_def example_nat_def net.defs)
  have e: "ETHER_HDR_SIZE \<le> length example_tcp" "ntohs (ether_type example_tcp) = ETH_P_IP" "has_ip_hdr example_tcp"
    "iph_protocol example_tcp \<noteq> IPPROTO_ICMP"
    using tcp_sizedD(3)[OF example_tcp_fields(1)] by (simp_all add: example_tcp_fields IPPROTO_TCP_def IPPROTO_ICMP_def ETHER_HDR_SIZE_def)
  have "fold_res nat_step [NatFrame (example_iface 2 0x0A000201) example_tcp] example_nat_ready = Inr s"
    using e s(1) by (simp add: nat_handle_packet_def nat_handle_ip_packet_def)
  from nat_idle_expires[OF example_nat_init r this s(2), of 60] s show ?thesis by (auto simp: example_nat_init)
qed

end
