(* ===== verification/Mospf.thy ===== *)
theory Mospf
  imports Packet_Service
begin

text \<open>
  The link state routing daemon of lab 7 (\<open>07-mospf/mospf_daemon.c\<close>, \<open>mospf_database.c\<close>, \<open>mospf_proto.c\<close>, \<open>ip.c\<close>,
  \<open>main.c\<close>).  Its state extends the network layer's: the neighbours and counters that the code keeps in the
  interfaces, the link state database, the sequence number and the announcement timer.  Every thread is its
  loop body, one call per round after its \<open>sleep\<close>; \<open>mospf_lock\<close> makes rounds and received messages
  atomic.  \<open>load_rtable_from_kernel\<close> is in the library the lab links as object code; what it loads is the
  member \<open>mo_kernel\<close> of the state.  The walk over \<open>net_list\<close> inserts into the list it walks; the list is kept as the
  part up to the current node and the part behind it.  \<open>int\<close> counters do not come near their
  bounds and are kept as integers; \<open>alive\<close> of a neighbour, the sequence number and the length fields have their width.
\<close>

section \<open>State\<close>

definition IPPROTO_MOSPF :: u8 where "IPPROTO_MOSPF = 90"
definition MOSPF_VERSION :: u8 where "MOSPF_VERSION = 2"
definition MOSPF_ALLSPFRouters :: u32 where "MOSPF_ALLSPFRouters = 0xe0000005"
definition MOSPF_TYPE_HELLO :: u8 where "MOSPF_TYPE_HELLO = 1"
definition MOSPF_TYPE_LSU :: u8 where "MOSPF_TYPE_LSU = 4"
definition MOSPF_DEFAULT_HELLOINT :: nat where "MOSPF_DEFAULT_HELLOINT = 5"
definition MOSPF_DEFAULT_LSUINT :: int where "MOSPF_DEFAULT_LSUINT = 30"
definition MOSPF_DATABASE_TIMEOUT :: int where "MOSPF_DATABASE_TIMEOUT = 40"
definition MOSPF_MAX_LSU_TTL :: u8 where "MOSPF_MAX_LSU_TTL = 255"
definition MOSPF_HDR_SIZE :: nat where "MOSPF_HDR_SIZE = 16"
definition MOSPF_HELLO_SIZE :: nat where "MOSPF_HELLO_SIZE = 8"
definition MOSPF_LSU_SIZE :: nat where "MOSPF_LSU_SIZE = 8"
definition MOSPF_LSA_SIZE :: nat where "MOSPF_LSA_SIZE = 12"

lemmas mospf_sizes = MOSPF_HDR_SIZE_def MOSPF_HELLO_SIZE_def MOSPF_LSU_SIZE_def MOSPF_LSA_SIZE_def

record mospf_nbr =
  nbr_id :: u32
  nbr_ip :: u32
  nbr_mask :: u32
  nbr_alive :: u8

record mospf_lsa =
  lsa_network :: u32
  lsa_mask :: u32
  lsa_rid :: u32

record mospf_db_entry =
  db_rid :: u32
  db_seq :: u16
  db_nadv :: int
  db_alive :: int
  db_array :: "mospf_lsa list"

text \<open>
  \<open>mo_nbrs\<close> and \<open>mo_num_nbr\<close> are the members \<open>nbr_list\<close> and \<open>num_nbr\<close> of the interfaces;
  \<open>mo_kernel\<close> is what \<open>load_rtable_from_kernel\<close> would find.
\<close>

record mospf_net = net +
  mo_area_id :: u32
  mo_router_id :: u32
  mo_sequence_num :: u16
  mo_lsuint :: int
  mo_nbrs :: "ip_iface \<Rightarrow> mospf_nbr list"
  mo_num_nbr :: "ip_iface \<Rightarrow> int"
  mo_db :: "mospf_db_entry list"
  mo_kernel :: "rt_entry list"

definition mospf_init :: "'b mospf_net_scheme \<Rightarrow> 'b mospf_net_scheme res" where
  "mospf_init s = (case net_ifaces s of
     [] \<Rightarrow> Inl OutOfBounds
   | iface # _ \<Rightarrow> Inr (s\<lparr>mo_area_id := 0, mo_router_id := if_ip iface, mo_sequence_num := 0, mo_lsuint := 0,
       mo_nbrs := (\<lambda>i. if i \<in> set (net_ifaces s) then [] else mo_nbrs s i),
       mo_num_nbr := (\<lambda>i. if i \<in> set (net_ifaces s) then 0 else mo_num_nbr s i), mo_db := []\<rparr>))"

section \<open>Messages\<close>

text \<open>The fields of a message whose header starts at \<open>o\<close>.\<close>

definition mo_version :: "bytes \<Rightarrow> nat \<Rightarrow> u8" where "mo_version p off = ld8 p off"
definition mo_type :: "bytes \<Rightarrow> nat \<Rightarrow> u8" where "mo_type p off = ld8 p (off + 1)"
definition mo_len :: "bytes \<Rightarrow> nat \<Rightarrow> u16" where "mo_len p off = ld16 p (off + 2)"
definition mo_rid :: "bytes \<Rightarrow> nat \<Rightarrow> u32" where "mo_rid p off = ld32 p (off + 4)"
definition mo_aid :: "bytes \<Rightarrow> nat \<Rightarrow> u32" where "mo_aid p off = ld32 p (off + 8)"
definition mo_checksum :: "bytes \<Rightarrow> nat \<Rightarrow> u16" where "mo_checksum p off = ld16 p (off + 12)"

lemmas mo_defs = mo_version_def mo_type_def mo_len_def mo_rid_def mo_aid_def mo_checksum_def

definition mospf_checksum :: "bytes \<Rightarrow> nat \<Rightarrow> u16 res" where
  "mospf_checksum p off =
    (let len = unat (ntohs (mo_len p off)) in
     if length p < off + MOSPF_HDR_SIZE \<or> length p < off + len then Inl OutOfBounds
     else Inr (checksum (slice (st16 p (off + 12) 0) off len) 0))"

definition mospf_init_hdr :: "bytes \<Rightarrow> nat \<Rightarrow> u8 \<Rightarrow> u16 \<Rightarrow> u32 \<Rightarrow> u32 \<Rightarrow> bytes" where
  "mospf_init_hdr p off type len rid aid =
    (let p = st8 p off MOSPF_VERSION;
         p = st8 p (off + 1) type;
         p = st16 p (off + 2) (htons len);
         p = st32 p (off + 4) (htonl rid);
         p = st32 p (off + 8) (htonl aid)
     in st16 p (off + 14) 0)"

definition mospf_init_hello :: "bytes \<Rightarrow> nat \<Rightarrow> u32 \<Rightarrow> bytes" where
  "mospf_init_hello p off msk =
    (let p = st32 p off (htonl msk);
         p = st16 p (off + 4) (htons (of_nat MOSPF_DEFAULT_HELLOINT))
     in st16 p (off + 6) 0)"

definition mospf_init_lsu :: "bytes \<Rightarrow> nat \<Rightarrow> u16 \<Rightarrow> u32 \<Rightarrow> bytes" where
  "mospf_init_lsu p off sequence_num nadv =
    (let p = st16 p off (htons sequence_num);
         p = st8 p (off + 3) 0;
         p = st8 p (off + 2) MOSPF_MAX_LSU_TTL
     in st32 p (off + 4) (htonl nadv))"

definition mospf_set_checksum :: "bytes \<Rightarrow> nat \<Rightarrow> bytes res" where
  "mospf_set_checksum p off = bind_res (mospf_checksum p off) (\<lambda>c. Inr (st16 p (off + 12) c))"

section \<open>The routing table\<close>

record rt_net_node =
  nn_id :: u32
  nn_dist :: int

text \<open>
  The list of networks while it is walked: what lies up to the current node and what lies behind.  A new
  node is inserted in front of the first one that is not less.
\<close>

definition net_before :: "rt_net_node \<Rightarrow> rt_net_node \<Rightarrow> bool" where
  "net_before after node \<longleftrightarrow>
     (if nn_dist after < nn_dist node then True
      else if nn_dist after = nn_dist node then nn_id after < nn_id node else False)"

fun net_insert :: "rt_net_node \<Rightarrow> rt_net_node list \<Rightarrow> rt_net_node list" where
  "net_insert node [] = [node]"
| "net_insert node (after # as) = (if net_before after node then after # net_insert node as else node # after # as)"

type_synonym net_list = "rt_net_node list \<times> rt_net_node list"

definition add_net :: "rt_net_node option \<Rightarrow> u32 \<Rightarrow> net_list \<Rightarrow> net_list" where
  "add_net pre_net network l =
    (let node = \<lparr>nn_id = network, nn_dist = (case pre_net of None \<Rightarrow> 0 | Some n \<Rightarrow> nn_dist n + 1)\<rparr> in
     case l of (walked, ahead) \<Rightarrow>
       if \<forall>after \<in> set walked. net_before after node then (walked, net_insert node ahead)
       else (net_insert node walked, ahead))"

definition net_added :: "u32 \<Rightarrow> net_list \<Rightarrow> bool" where
  "net_added network l \<longleftrightarrow> (\<exists>n \<in> set (fst l @ snd l). nn_id n = network)"

text \<open>The first neighbour on the network, and the interface it is on.\<close>

fun nbr_on_net :: "'b mospf_net_scheme \<Rightarrow> u32 \<Rightarrow> ip_iface list \<Rightarrow> (u32 \<times> ip_iface) option" where
  "nbr_on_net s pre_net [] = None"
| "nbr_on_net s pre_net (i # is') =
    (case find (\<lambda>nbr. pre_net = nbr_ip nbr AND nbr_mask nbr) (mo_nbrs s i) of
       Some nbr \<Rightarrow> Some (nbr_ip nbr, i)
     | None \<Rightarrow> nbr_on_net s pre_net is')"

text \<open>
  Without an entry for the network the code reads the list head as one; without a neighbour on it the
  gateway and the interface stay uninitialised.
\<close>

definition add_route :: "'b mospf_net_scheme \<Rightarrow> u32 \<Rightarrow> u32 \<Rightarrow> u32 \<Rightarrow> rt_entry list \<Rightarrow> rt_entry list res" where
  "add_route s dest msk pre_net rtable =
    (case find (\<lambda>e. pre_net = rt_dest e AND rt_mask e) rtable of
       None \<Rightarrow> Inl OutOfBounds
     | Some e \<Rightarrow>
         if rt_gw e \<noteq> 0 then Inr (add_rt_entry (new_rt_entry dest msk (rt_gw e) (rt_iface e)) rtable)
         else (case nbr_on_net s pre_net (net_ifaces s) of
                 None \<Rightarrow> Inl Uninitialised
               | Some (gw, iface) \<Rightarrow> Inr (add_rt_entry (new_rt_entry dest msk gw iface) rtable)))"

text \<open>The networks an entry of the database connects to the network \<open>node\<close>, in the order of its array.\<close>

definition advert_index :: "u32 \<Rightarrow> mospf_lsa list \<Rightarrow> nat option" where
  "advert_index nid lsas = find (\<lambda>i. nid = lsa_network (lsas ! i) \<and> lsa_rid (lsas ! i) \<noteq> 0) [0..<length lsas]"

fun add_others :: "'b mospf_net_scheme \<Rightarrow> rt_net_node \<Rightarrow> mospf_lsa list \<Rightarrow> net_list \<Rightarrow> rt_entry list \<Rightarrow> (net_list \<times> rt_entry list) res" where
  "add_others s node [] l rtable = Inr (l, rtable)"
| "add_others s node (a # as) l rtable =
    (if \<not> net_added (lsa_network a) l
     then bind_res (add_route s (lsa_network a) (lsa_mask a) (nn_id node) rtable)
            (add_others s node as (add_net (Some node) (lsa_network a) l))
     else add_others s node as l rtable)"

fun visit_entries :: "'b mospf_net_scheme \<Rightarrow> rt_net_node \<Rightarrow> mospf_db_entry list \<Rightarrow> net_list \<Rightarrow> rt_entry list \<Rightarrow> (net_list \<times> rt_entry list) res" where
  "visit_entries s node [] l rtable = Inr (l, rtable)"
| "visit_entries s node (e # es) l rtable =
    (let lsas = take (nat (db_nadv e)) (db_array e) in
     case advert_index (nn_id node) lsas of
       None \<Rightarrow> visit_entries s node es l rtable
     | Some i \<Rightarrow> bind_res (add_others s node (take i lsas @ drop (Suc i) lsas) l rtable)
         (\<lambda>(l, rtable). visit_entries s node es l rtable))"

text \<open>The loop over \<open>net_list\<close> ends because every network is added at most once.\<close>

definition db_nets :: "mospf_db_entry list \<Rightarrow> u32 set" where
  "db_nets db = (\<Union>e \<in> set db. lsa_network ` set (db_array e))"

definition list_nets :: "net_list \<Rightarrow> u32 set" where
  "list_nets l = nn_id ` set (fst l @ snd l)"

definition nets_left :: "mospf_db_entry list \<Rightarrow> net_list \<Rightarrow> nat" where
  "nets_left db l = 2 * card (db_nets db - list_nets l) + length (snd l)"

lemma finite_db_nets [simp]: "finite (db_nets db)"
  by (simp add: db_nets_def)

lemma set_net_insert [simp]: "set (net_insert n l) = insert n (set l)"
  by (induction l) auto

lemma length_net_insert [simp]: "length (net_insert n l) = Suc (length l)"
  by (induction l) auto

lemma list_nets_add [simp]: "list_nets (add_net pre n l) = insert n (list_nets l)"
  by (auto simp: list_nets_def add_net_def Let_def split: prod.splits)

lemma net_added_iff: "net_added n l \<longleftrightarrow> n \<in> list_nets l"
  by (auto simp: net_added_def list_nets_def)

lemma nets_left_add:
  assumes "n \<in> db_nets db" "n \<notin> list_nets l"
  shows "nets_left db (add_net pre n l) < nets_left db l"
proof -
  have "db_nets db - list_nets (add_net pre n l) = (db_nets db - list_nets l) - {n}" by auto
  with assms have "Suc (card (db_nets db - list_nets (add_net pre n l))) = card (db_nets db - list_nets l)"
    using card_Suc_Diff1[of "db_nets db - list_nets l" n] by simp
  moreover have "length (snd (add_net pre n l)) \<le> Suc (length (snd l))"
    by (auto simp: add_net_def Let_def split: prod.splits)
  ultimately show ?thesis by (simp add: nets_left_def)
qed

lemma add_others_left:
  "add_others s node as l rt = Inr (l', rt') \<Longrightarrow> lsa_network ` set as \<subseteq> db_nets db \<Longrightarrow> nets_left db l' \<le> nets_left db l"
proof (induction s node as l rt rule: add_others.induct)
  case (2 s node a as l rt)
  show ?case
  proof (cases "net_added (lsa_network a) l")
    case True
    with 2 show ?thesis by simp
  next
    case False
    with 2 have "nets_left db l' \<le> nets_left db (add_net (Some node) (lsa_network a) l)" by (auto simp: bind_res_Inr_conv)
    also have "\<dots> < nets_left db l" using 2 False by (intro nets_left_add) (auto simp: net_added_iff)
    finally show ?thesis by simp
  qed
qed simp

lemma others_nets:
  assumes "e \<in> set db"
  shows "lsa_network ` set (take i (take k (db_array e)) @ drop j (take k (db_array e))) \<subseteq> db_nets db"
proof
  fix n assume "n \<in> lsa_network ` set (take i (take k (db_array e)) @ drop j (take k (db_array e)))"
  then have "n \<in> lsa_network ` set (db_array e)" by (auto dest!: in_set_takeD in_set_dropD)
  with assms show "n \<in> db_nets db" by (auto simp: db_nets_def)
qed

lemma visit_entries_left:
  "visit_entries s node es l rt = Inr (l', rt') \<Longrightarrow> set es \<subseteq> set db \<Longrightarrow> nets_left db l' \<le> nets_left db l"
proof (induction es arbitrary: l rt)
  case (Cons e es)
  show ?case
  proof (cases "advert_index (nn_id node) (take (nat (db_nadv e)) (db_array e))")
    case None
    with Cons show ?thesis by (simp add: Let_def)
  next
    case (Some i)
    with Cons.prems obtain l1 rt1 where 1: "add_others s node (take i (take (nat (db_nadv e)) (db_array e)) @
        drop (Suc i) (take (nat (db_nadv e)) (db_array e))) l rt = Inr (l1, rt1)" "visit_entries s node es l1 rt1 = Inr (l', rt')"
      by (auto simp: Let_def bind_res_Inr_conv)
    have "nets_left db l1 \<le> nets_left db l"
      by (rule add_others_left[OF 1(1)]) (use Cons.prems(2) in \<open>intro others_nets; simp\<close>)
    with Cons.IH[OF 1(2)] Cons.prems(2) show ?thesis by simp
  qed
qed simp

function walk_nets :: "'b mospf_net_scheme \<Rightarrow> net_list \<Rightarrow> rt_entry list \<Rightarrow> (net_list \<times> rt_entry list) res" where
  "walk_nets s (walked, []) rtable = Inr ((walked, []), rtable)"
| "walk_nets s (walked, node # ahead) rtable =
    (case visit_entries s node (mo_db s) (walked @ [node], ahead) rtable of
       Inl e \<Rightarrow> Inl e
     | Inr (l, rtable) \<Rightarrow> walk_nets s l rtable)"
  by pat_completeness auto

termination
proof (relation "measure (\<lambda>(s, l, rt). nets_left (mo_db s) l)")
  fix s :: "'b mospf_net_scheme" and walked node ahead rt x l rt'
  assume a: "visit_entries s node (mo_db s) (walked @ [node], ahead) rt = Inr x" "(l, rt') = x"
  then have "nets_left (mo_db s) l \<le> nets_left (mo_db s) (walked @ [node], ahead)"
    using visit_entries_left[of s node "mo_db s" "(walked @ [node], ahead)" rt l rt' "mo_db s"] by simp
  also have "\<dots> < nets_left (mo_db s) (walked, node # ahead)"
    by (simp add: nets_left_def list_nets_def)
  finally show "((s, l, rt'), s, (walked, node # ahead), rt) \<in> measure (\<lambda>(s, l, rt). nets_left (mo_db s) l)" by simp
qed simp

definition update_rtable :: "'b mospf_net_scheme \<Rightarrow> 'b mospf_net_scheme res" where
  "update_rtable s =
    (let rtable = clear_rtable (net_rtable s) @ mo_kernel s;
         l = fold (\<lambda>e. add_net None (rt_dest e AND rt_mask e)) rtable ([], [])
     in bind_res (walk_nets s l rtable) (\<lambda>(l, rtable). Inr (s\<lparr>net_rtable := rtable\<rparr>)))"

section \<open>Threads\<close>

definition mospf_hello_mac :: bytes where "mospf_hello_mac = [0x1, 0x0, 0x5e, 0x0, 0x0, 0x5]"

definition send_mospf_hello :: "ip_iface \<Rightarrow> 'b mospf_net_scheme \<Rightarrow> 'b mospf_net_scheme res" where
  "send_mospf_hello entry s =
    (let o' = ETHER_HDR_SIZE + IP_BASE_HDR_SIZE;
         packet = zeros (o' + MOSPF_HDR_SIZE + MOSPF_HELLO_SIZE);
         packet = mospf_init_hello packet (o' + MOSPF_HDR_SIZE) (if_mask entry);
         packet = mospf_init_hdr packet o' MOSPF_TYPE_HELLO (of_nat (MOSPF_HDR_SIZE + MOSPF_HELLO_SIZE)) (mo_router_id s) (mo_area_id s)
     in bind_res (mospf_set_checksum packet o') (\<lambda>packet.
        let (rnd, s) = net_random s in
        bind_res (ip_init_hdr rnd packet (if_ip entry) MOSPF_ALLSPFRouters
            (of_nat (IP_BASE_HDR_SIZE + MOSPF_HDR_SIZE + MOSPF_HELLO_SIZE)) IPPROTO_MOSPF) (\<lambda>packet.
          let packet = st16 packet 12 (htons ETH_P_IP);
              packet = blit packet 0 mospf_hello_mac;
              packet = blit packet 6 (if_mac entry)
          in Inr (net_iface_send_packet entry packet s))))"

text \<open>One round of each thread, after its \<open>sleep\<close>.\<close>

definition sending_mospf_hello :: "'b mospf_net_scheme \<Rightarrow> 'b mospf_net_scheme res" where
  "sending_mospf_hello s = fold_res send_mospf_hello (net_ifaces s) s"

definition lsa_bytes :: "mospf_lsa \<Rightarrow> bytes" where
  "lsa_bytes a = st32 (st32 (st32 (zeros MOSPF_LSA_SIZE) 0 (htonl (lsa_network a))) 4 (htonl (lsa_mask a))) 8 (htonl (lsa_rid a))"

text \<open>The neighbours an interface announces, or the network alone when it has none.\<close>

definition iface_lsas :: "'b mospf_net_scheme \<Rightarrow> ip_iface \<Rightarrow> mospf_lsa list" where
  "iface_lsas s iface =
    (if mo_num_nbr s iface \<noteq> 0
     then map (\<lambda>nbr. \<lparr>lsa_network = if_ip iface AND if_mask iface, lsa_mask = if_mask iface, lsa_rid = nbr_id nbr\<rparr>) (mo_nbrs s iface)
     else [\<lparr>lsa_network = if_ip iface AND if_mask iface, lsa_mask = if_mask iface, lsa_rid = 0\<rparr>])"

definition lsu_nadv :: "'b mospf_net_scheme \<Rightarrow> int" where
  "lsu_nadv s = (\<Sum>iface \<leftarrow> net_ifaces s. if mo_num_nbr s iface \<noteq> 0 then mo_num_nbr s iface else 1)"

text \<open>A message to a neighbour, in a packet of its own.\<close>

definition send_to_nbr :: "bytes \<Rightarrow> ip_iface \<Rightarrow> mospf_nbr \<Rightarrow> 'b mospf_net_scheme \<Rightarrow> 'b mospf_net_scheme res" where
  "send_to_nbr msg iface nbr s =
    (let pkt = blit (zeros (ETHER_HDR_SIZE + IP_BASE_HDR_SIZE + length msg)) (ETHER_HDR_SIZE + IP_BASE_HDR_SIZE) msg;
         (rnd, s) = net_random s
     in bind_res (ip_init_hdr rnd pkt (if_ip iface) (nbr_ip nbr) (of_nat (IP_BASE_HDR_SIZE + length msg)) IPPROTO_MOSPF) (\<lambda>pkt.
       ip_send_packet pkt s))"

definition send_to_nbrs :: "bytes \<Rightarrow> ip_iface list \<Rightarrow> 'b mospf_net_scheme \<Rightarrow> 'b mospf_net_scheme res" where
  "send_to_nbrs msg ifaces s = fold_res (\<lambda>iface s. fold_res (send_to_nbr msg iface) (mo_nbrs s iface) s) ifaces s"

text \<open>The array has \<open>nadv\<close> elements; the loop writes one per neighbour.\<close>

definition lsu_message :: "'b mospf_net_scheme \<Rightarrow> bytes res" where
  "lsu_message s =
    (let nadv = lsu_nadv s;
         lsas = concat (map (iface_lsas s) (net_ifaces s))
     in if int (length lsas) > nadv then Inl OutOfBounds
        else if int (length lsas) < nadv then Inl Uninitialised
        else let len = MOSPF_HDR_SIZE + MOSPF_LSU_SIZE + length lsas * MOSPF_LSA_SIZE;
                 packet = blit (zeros len) (MOSPF_HDR_SIZE + MOSPF_LSU_SIZE) (concat (map lsa_bytes lsas));
                 packet = mospf_init_lsu packet MOSPF_HDR_SIZE (mo_sequence_num s) (of_int nadv);
                 packet = mospf_init_hdr packet 0 MOSPF_TYPE_LSU (of_nat len) (mo_router_id s) (mo_area_id s)
             in mospf_set_checksum packet 0)"

definition sending_mospf_lsu :: "'b mospf_net_scheme \<Rightarrow> 'b mospf_net_scheme res" where
  "sending_mospf_lsu s =
    (let s = s\<lparr>mo_lsuint := mo_lsuint s + 1\<rparr> in
     if mo_lsuint s > MOSPF_DEFAULT_LSUINT
     then let s = s\<lparr>mo_lsuint := 0\<rparr> in
       bind_res (lsu_message s) (\<lambda>packet.
         let s = s\<lparr>mo_sequence_num := mo_sequence_num s + 1\<rparr>
         in send_to_nbrs (take (unat (ntohs (mo_len packet 0))) packet) (net_ifaces s) s)
     else Inr s)"

definition age_nbr :: "mospf_nbr \<Rightarrow> mospf_nbr" where
  "age_nbr nbr = nbr\<lparr>nbr_alive := nbr_alive nbr + 1\<rparr>"

definition nbr_silent :: "mospf_nbr \<Rightarrow> bool" where
  "nbr_silent nbr \<longleftrightarrow> unat (nbr_alive nbr) \<ge> 3 * MOSPF_DEFAULT_HELLOINT"

definition check_nbrs :: "ip_iface \<Rightarrow> 'b mospf_net_scheme \<Rightarrow> 'b mospf_net_scheme" where
  "check_nbrs iface s =
    (let nbrs = map age_nbr (mo_nbrs s iface); gone = length (filter nbr_silent nbrs) in
     s\<lparr>mo_nbrs := (mo_nbrs s)(iface := filter (\<lambda>nbr. \<not> nbr_silent nbr) nbrs),
       mo_num_nbr := (mo_num_nbr s)(iface := mo_num_nbr s iface - int gone),
       mo_lsuint := mo_lsuint s + int gone * MOSPF_DEFAULT_LSUINT\<rparr>)"

definition checking_nbr :: "'b mospf_net_scheme \<Rightarrow> 'b mospf_net_scheme" where
  "checking_nbr s = fold check_nbrs (net_ifaces s) s"

definition age_db_entry :: "mospf_db_entry \<Rightarrow> mospf_db_entry" where
  "age_db_entry e = e\<lparr>db_alive := db_alive e + 1\<rparr>"

definition checking_database :: "'b mospf_net_scheme \<Rightarrow> 'b mospf_net_scheme res" where
  "checking_database s =
    (let aged = map age_db_entry (mo_db s);
         kept = filter (\<lambda>e. \<not> db_alive e > MOSPF_DATABASE_TIMEOUT) aged;
         s = s\<lparr>mo_db := kept\<rparr>
     in if length kept < length aged then update_rtable s else Inr s)"

section \<open>Received messages\<close>

text \<open>The first neighbour with the identifier is the one that is written to.\<close>

fun update_nbr :: "mospf_nbr \<Rightarrow> mospf_nbr list \<Rightarrow> mospf_nbr list" where
  "update_nbr heard [] = []"
| "update_nbr heard (nbr # nbrs) = (if nbr_id nbr = nbr_id heard then heard # nbrs else nbr # update_nbr heard nbrs)"

definition handle_mospf_hello :: "ip_iface \<Rightarrow> bytes \<Rightarrow> 'b mospf_net_scheme \<Rightarrow> 'b mospf_net_scheme res" where
  "handle_mospf_hello iface packet s =
    (let off = IP_DATA packet in
     if length packet < off + MOSPF_HDR_SIZE + 4 then Inl OutOfBounds
     else let id' = ntohl (mo_rid packet off);
              heard = \<lparr>nbr_id = id', nbr_ip = ntohl (iph_saddr packet), nbr_mask = ntohl (ld32 packet (off + MOSPF_HDR_SIZE)), nbr_alive = 0\<rparr>
          in if \<exists>nbr \<in> set (mo_nbrs s iface). nbr_id nbr = id'
             then Inr (s\<lparr>mo_nbrs := (mo_nbrs s)(iface := update_nbr heard (mo_nbrs s iface))\<rparr>)
             else Inr (s\<lparr>mo_nbrs := (mo_nbrs s)(iface := mo_nbrs s iface @ [heard]),
                 mo_num_nbr := (mo_num_nbr s)(iface := mo_num_nbr s iface + 1),
                 mo_lsuint := mo_lsuint s + MOSPF_DEFAULT_LSUINT\<rparr>))"

text \<open>The link state advertisements of a message, whose array starts at \<open>off\<close>.\<close>

definition read_lsa :: "bytes \<Rightarrow> nat \<Rightarrow> mospf_lsa res" where
  "read_lsa p off =
    (if length p < off + MOSPF_LSA_SIZE then Inl OutOfBounds
     else Inr \<lparr>lsa_network = ntohl (ld32 p off), lsa_mask = ntohl (ld32 p (off + 4)), lsa_rid = ntohl (ld32 p (off + 8))\<rparr>)"

fun read_lsas :: "bytes \<Rightarrow> nat \<Rightarrow> nat \<Rightarrow> mospf_lsa list res" where
  "read_lsas p off 0 = Inr []"
| "read_lsas p off (Suc n) =
    bind_res (read_lsa p off) (\<lambda>a. bind_res (read_lsas p (off + MOSPF_LSA_SIZE) n) (\<lambda>as. Inr (a # as)))"

fun update_db :: "mospf_db_entry \<Rightarrow> mospf_db_entry list \<Rightarrow> mospf_db_entry list" where
  "update_db new [] = []"
| "update_db new (e # es) = (if db_rid e = db_rid new then new # es else e # update_db new es)"

text \<open>What the message changes in the database; the arrays are read only when it does.\<close>

definition store_lsu :: "bytes \<Rightarrow> nat \<Rightarrow> mospf_db_entry list \<Rightarrow> (bool \<times> mospf_db_entry list) res" where
  "store_lsu packet off db =
    (let rid = ntohl (mo_rid packet off);
         seq = ntohs (ld16 packet (off + MOSPF_HDR_SIZE));
         nadv = sint (ntohl (ld32 packet (off + MOSPF_HDR_SIZE + 4)));
         entry = bind_res (read_lsas packet (off + MOSPF_HDR_SIZE + MOSPF_LSU_SIZE) (nat nadv)) (\<lambda>lsas.
           Inr \<lparr>db_rid = rid, db_seq = seq, db_nadv = nadv, db_alive = 0, db_array = lsas\<rparr>)
     in case find (\<lambda>e. db_rid e = rid) db of
          None \<Rightarrow> bind_res entry (\<lambda>e. Inr (True, db @ [e]))
        | Some old \<Rightarrow>
            if db_seq old < seq then bind_res entry (\<lambda>e. Inr (True, update_db e db)) else Inr (False, db))"

definition handle_mospf_lsu :: "ip_iface \<Rightarrow> bytes \<Rightarrow> 'b mospf_net_scheme \<Rightarrow> 'b mospf_net_scheme res" where
  "handle_mospf_lsu iface packet s =
    (let off = IP_DATA packet in
     if length packet < off + MOSPF_HDR_SIZE + MOSPF_LSU_SIZE then Inl OutOfBounds
     else bind_res
       (if ntohl (mo_rid packet off) \<noteq> mo_router_id s
        then bind_res (store_lsu packet off (mo_db s)) (\<lambda>(changed, db).
          if changed then update_rtable (s\<lparr>mo_db := db\<rparr>) else Inr (s\<lparr>mo_db := db\<rparr>))
        else Inr s)
       (\<lambda>s. let ttl = off + MOSPF_HDR_SIZE + 2; packet = st8 packet ttl (ld8 packet ttl - 1) in
        bind_res (mospf_set_checksum packet off) (\<lambda>packet.
          if ld8 packet ttl > 0
          then let len = unat (ntohs (mo_len packet off)); start = ETHER_HDR_SIZE + IP_BASE_HDR_SIZE;
                   others = filter (\<lambda>i. i \<noteq> iface) (net_ifaces s)
            in if length packet < start + len \<and> list_ex (\<lambda>i. mo_nbrs s i \<noteq> []) others then Inl OutOfBounds
               else send_to_nbrs (slice packet start len) others s
          else Inr s)))"

definition handle_mospf_packet :: "ip_iface \<Rightarrow> bytes \<Rightarrow> 'b mospf_net_scheme \<Rightarrow> 'b mospf_net_scheme res" where
  "handle_mospf_packet iface packet s =
    (let off = IP_DATA packet in
     if \<not> has_ip_hdr packet \<or> length packet < off + MOSPF_HDR_SIZE then Inl OutOfBounds
     else if mo_version packet off \<noteq> MOSPF_VERSION then Inr s
     else bind_res (mospf_checksum packet off) (\<lambda>c.
       if mo_checksum packet off \<noteq> c then Inr s
       else if ntohl (mo_aid packet off) \<noteq> mo_area_id s then Inr s
       else if mo_type packet off = MOSPF_TYPE_HELLO then handle_mospf_hello iface packet s
       else if mo_type packet off = MOSPF_TYPE_LSU then handle_mospf_lsu iface packet s
       else Inr s))"

text \<open>The forwarding branch, as in the other labs but for the name.\<close>

definition mospf_forward :: "bytes \<Rightarrow> 'a net_scheme \<Rightarrow> 'a net_scheme res" where
  "mospf_forward packet s =
    (let packet = st8 packet 22 (iph_ttl packet - 1); daddr = ntohl (iph_daddr packet) in
     if iph_ttl packet \<le> 0 then icmp_send_packet packet ICMP_TIME_EXCEEDED ICMP_EXC_TTL s
     else bind_res (ip_set_checksum packet) (\<lambda>packet.
       case longest_prefix_match (net_rtable s) daddr of
         None \<Rightarrow> icmp_send_packet packet ICMP_DEST_UNREACH ICMP_NET_UNREACH s
       | Some m \<Rightarrow> iface_send_packet_by_arp (rt_iface m) (next_hop m daddr) packet s))"

definition mospf_handle_ip_packet :: "ip_iface \<Rightarrow> bytes \<Rightarrow> 'b mospf_net_scheme \<Rightarrow> 'b mospf_net_scheme res" where
  "mospf_handle_ip_packet iface packet s =
    (if \<not> has_ip_hdr packet then Inl OutOfBounds
     else let daddr = ntohl (iph_daddr packet) in
       if daddr = if_ip iface then
         (if iph_protocol packet = IPPROTO_ICMP then
            (if length packet \<le> IP_DATA packet then Inl OutOfBounds
             else if ld8 packet (IP_DATA packet) = ICMP_ECHOREQUEST then icmp_send_packet packet ICMP_ECHOREPLY 0 s
             else Inr s)
          else if iph_protocol packet = IPPROTO_MOSPF then handle_mospf_packet iface packet s
          else Inr s)
       else if iph_daddr packet = htonl MOSPF_ALLSPFRouters then
         (if iph_protocol packet = IPPROTO_MOSPF then handle_mospf_packet iface packet s else Inl AssertFailed)
       else mospf_forward packet s)"

definition mospf_handle_packet :: "ip_iface \<Rightarrow> bytes \<Rightarrow> 'b mospf_net_scheme \<Rightarrow> 'b mospf_net_scheme res" where
  "mospf_handle_packet iface packet s =
    (if length packet < ETHER_HDR_SIZE then Inl OutOfBounds
     else if ntohs (ether_type packet) = ETH_P_IP then mospf_handle_ip_packet iface packet s
     else if ntohs (ether_type packet) = ETH_P_ARP then handle_arp_packet iface packet s
     else Inr s)"

definition mospf_ustack_run :: "ip_iface list \<Rightarrow> poll_event list \<Rightarrow> 'b mospf_net_scheme \<Rightarrow> 'b mospf_net_scheme res" where
  "mospf_ustack_run = ustack_run_unchecked mospf_handle_packet"

section \<open>What is printed\<close>

definition print_db :: "'b mospf_net_scheme \<Rightarrow> (u32 \<times> u32 \<times> u32 \<times> u32) list" where
  "print_db s = concat (map (\<lambda>e. map (\<lambda>a. (db_rid e, lsa_network a, lsa_mask a, lsa_rid a))
     (take (nat (db_nadv e)) (db_array e))) (mo_db s))"

definition print_nbrs :: "'b mospf_net_scheme \<Rightarrow> (u32 \<times> u32 \<times> u32 \<times> u32) list" where
  "print_nbrs s = concat (map (\<lambda>i. map (\<lambda>nbr. (if_ip i, nbr_id nbr, nbr_ip nbr, nbr_mask nbr)) (mo_nbrs s i)) (net_ifaces s))"

definition print_net_list :: "net_list \<Rightarrow> (u32 \<times> int) list" where
  "print_net_list l = map (\<lambda>n. (nn_id n, nn_dist n)) (fst l @ snd l)"

end
