(* ===== verification/Mospf_Spf.thy ===== *)
theory Mospf_Spf
  imports Mospf
begin

text \<open>
  The routing table the daemon computes.  \<open>update_rtable\<close> is a breadth-first search over the networks that the database
  links; the lemmas follow it from one node of the list to the next, with the networks within a number of
  links of the kernel's as the specification.  Links, the kernel's entry for a network and the neighbour on it are read off the
  database, the table and the neighbour lists directly, not with the functions of the code.
\<close>

section \<open>Paths through the database\<close>

definition entry_lsas :: "mospf_db_entry \<Rightarrow> mospf_lsa list" where
  "entry_lsas e = take (nat (db_nadv e)) (db_array e)"

text \<open>
  Two networks are linked when some router announces both, the first with a router at its other end (one without is a
  stub, over which nothing can be reached).
\<close>

definition links :: "mospf_db_entry list \<Rightarrow> u32 \<Rightarrow> u32 \<Rightarrow> bool" where
  "links db n m \<longleftrightarrow> n \<noteq> m \<and> (\<exists>e \<in> set db. \<exists>a \<in> set (entry_lsas e). \<exists>b \<in> set (entry_lsas e).
     lsa_network a = n \<and> lsa_rid a \<noteq> 0 \<and> lsa_network b = m)"

text \<open>The links of one entry as the code walks over them.\<close>

definition other_lsas :: "mospf_db_entry \<Rightarrow> u32 \<Rightarrow> mospf_lsa list" where
  "other_lsas e n = (case advert_index n (entry_lsas e) of None \<Rightarrow> [] | Some i \<Rightarrow> take i (entry_lsas e) @ drop (Suc i) (entry_lsas e))"

lemma other_lsas_iff:
  assumes "n \<noteq> m"
  shows "m \<in> lsa_network ` set (other_lsas e n) \<longleftrightarrow>
    (\<exists>a \<in> set (entry_lsas e). \<exists>b \<in> set (entry_lsas e). lsa_network a = n \<and> lsa_rid a \<noteq> 0 \<and> lsa_network b = m)"
proof (cases "advert_index n (entry_lsas e)")
  case None
  then have "\<not> (\<exists>a \<in> set (entry_lsas e). lsa_network a = n \<and> lsa_rid a \<noteq> 0)"
    by (auto simp: advert_index_def find_None_iff in_set_conv_nth)
  moreover have "other_lsas e n = []" using None by (simp add: other_lsas_def)
  ultimately show ?thesis by auto
next
  case (Some i)
  let ?as = "entry_lsas e"
  from Some have i: "i < length ?as" "lsa_network (?as ! i) = n" "lsa_rid (?as ! i) \<noteq> 0"
    by (auto simp: advert_index_def find_Some_iff)
  have "set ?as = set (take i ?as @ ?as ! i # drop (Suc i) ?as)" by (rule arg_cong[OF id_take_nth_drop[OF i(1)]])
  also have "\<dots> = insert (?as ! i) (set (other_lsas e n))" using Some by (simp add: other_lsas_def)
  finally have "m \<in> lsa_network ` set ?as \<longleftrightarrow> m \<in> lsa_network ` set (other_lsas e n)"
    using i(2) assms by auto
  moreover have "?as ! i \<in> set ?as" using i(1) by simp
  then have "(\<exists>a \<in> set ?as. \<exists>b \<in> set ?as. lsa_network a = n \<and> lsa_rid a \<noteq> 0 \<and> lsa_network b = m) \<longleftrightarrow> m \<in> lsa_network ` set ?as"
    using i(2,3) by blast
  ultimately show ?thesis by blast
qed

lemma links_others: "links db n m \<longleftrightarrow> n \<noteq> m \<and> (\<exists>e \<in> set db. m \<in> lsa_network ` set (other_lsas e n))"
proof (cases "n = m")
  case False
  show ?thesis unfolding links_def other_lsas_iff[OF False] ..
qed (simp add: links_def)

definition kernel_nets :: "'b mospf_net_scheme \<Rightarrow> u32 set" where
  "kernel_nets s = (\<lambda>e. rt_dest e AND rt_mask e) ` set (mo_kernel s)"

text \<open>A way from a network of the kernel's table along links.\<close>

definition net_path :: "'b mospf_net_scheme \<Rightarrow> u32 list \<Rightarrow> bool" where
  "net_path s p \<longleftrightarrow> p \<noteq> [] \<and> hd p \<in> kernel_nets s \<and> successively (links (mo_db s)) p"

definition shortest_path :: "'b mospf_net_scheme \<Rightarrow> u32 list \<Rightarrow> bool" where
  "shortest_path s p \<longleftrightarrow> net_path s p \<and> (\<forall>q. net_path s q \<longrightarrow> last q = last p \<longrightarrow> length p \<le> length q)"

text \<open>
  The next hop for a network of the kernel's table: the gateway of the first entry for it, or, when that has none, a neighbour
  on an interface of the router whose own network it is.
\<close>

definition kernel_entry :: "'b mospf_net_scheme \<Rightarrow> u32 \<Rightarrow> rt_entry \<Rightarrow> bool" where
  "kernel_entry s n e \<longleftrightarrow> (\<exists>es fs. mo_kernel s = es @ e # fs \<and> rt_dest e AND rt_mask e = n \<and>
     (\<forall>x \<in> set es. rt_dest x AND rt_mask x \<noteq> n))"

definition neighbour_on :: "'b mospf_net_scheme \<Rightarrow> u32 \<Rightarrow> u32 \<Rightarrow> ip_iface \<Rightarrow> bool" where
  "neighbour_on s n gw i \<longleftrightarrow> i \<in> set (net_ifaces s) \<and>
     (\<exists>nbr \<in> set (mo_nbrs s i). nbr_ip nbr = gw \<and> nbr_ip nbr AND nbr_mask nbr = n)"

definition kernel_hop :: "'b mospf_net_scheme \<Rightarrow> u32 \<Rightarrow> u32 \<Rightarrow> ip_iface \<Rightarrow> bool" where
  "kernel_hop s n gw i \<longleftrightarrow> (\<exists>e. kernel_entry s n e \<and>
     (if rt_gw e \<noteq> 0 then gw = rt_gw e \<and> i = rt_iface e else neighbour_on s n gw i))"

text \<open>The next hop the code finds in a table.\<close>

definition hop :: "'b mospf_net_scheme \<Rightarrow> rt_entry list \<Rightarrow> u32 \<Rightarrow> (u32 \<times> ip_iface) option" where
  "hop s rtable n = (case find (\<lambda>e. n = rt_dest e AND rt_mask e) rtable of
     None \<Rightarrow> None
   | Some e \<Rightarrow> if rt_gw e \<noteq> 0 then Some (rt_gw e, rt_iface e) else nbr_on_net s n (net_ifaces s))"

lemma nbr_on_net_Some: "nbr_on_net s n is' = Some (gw, i) \<Longrightarrow>
    i \<in> set is' \<and> (\<exists>nbr \<in> set (mo_nbrs s i). nbr_ip nbr = gw \<and> nbr_ip nbr AND nbr_mask nbr = n)"
  by (induction is') (auto split: option.splits simp: find_Some_iff dest: nth_mem)

lemma nbr_on_net_None: "nbr_on_net s n is' = None \<Longrightarrow> i \<in> set is' \<Longrightarrow> nbr \<in> set (mo_nbrs s i) \<Longrightarrow> nbr_ip nbr AND nbr_mask nbr \<noteq> n"
  by (induction is') (auto split: option.splits simp: find_None_iff)

lemma find_kernel_entry: "find (\<lambda>e. n = rt_dest e AND rt_mask e) (mo_kernel s) = Some e \<longleftrightarrow> kernel_entry s n e"
proof
  assume "find (\<lambda>e. n = rt_dest e AND rt_mask e) (mo_kernel s) = Some e"
  then obtain i where i: "i < length (mo_kernel s)" "n = rt_dest e AND rt_mask e" "e = mo_kernel s ! i"
    "\<forall>j < i. n \<noteq> rt_dest (mo_kernel s ! j) AND rt_mask (mo_kernel s ! j)" by (auto simp: find_Some_iff)
  have "rt_dest x AND rt_mask x \<noteq> n" if "x \<in> set (take i (mo_kernel s))" for x
  proof -
    from that obtain j where "j < i" "x = mo_kernel s ! j" by (auto simp: in_set_conv_nth)
    with i(4) show ?thesis by metis
  qed
  with i id_take_nth_drop[OF i(1)] show "kernel_entry s n e" unfolding kernel_entry_def by metis
next
  assume "kernel_entry s n e"
  then obtain es fs where e: "mo_kernel s = es @ e # fs" "rt_dest e AND rt_mask e = n" "\<forall>x \<in> set es. rt_dest x AND rt_mask x \<noteq> n"
    by (auto simp: kernel_entry_def)
  then have "find (\<lambda>e. n = rt_dest e AND rt_mask e) es = None" by (auto simp: find_None_iff)
  moreover have "find P (xs @ ys) = (case find P xs of None \<Rightarrow> find P ys | Some x \<Rightarrow> Some x)" for P :: "rt_entry \<Rightarrow> bool" and xs ys
    by (induction xs) auto
  ultimately show "find (\<lambda>e. n = rt_dest e AND rt_mask e) (mo_kernel s) = Some e" using e by simp
qed

lemma hop_kernel_hop: "hop s (mo_kernel s) n = Some (gw, i) \<Longrightarrow> kernel_hop s n gw i"
  using nbr_on_net_Some[of s n "net_ifaces s" gw i]
  by (auto simp: hop_def kernel_hop_def find_kernel_entry neighbour_on_def split: option.splits if_splits)

lemma kernel_hop_exists:
  assumes "kernel_entry s n e" "rt_gw e \<noteq> 0 \<or> (\<exists>gw i. neighbour_on s n gw i)"
  shows "hop s (mo_kernel s) n \<noteq> None"
proof (cases "rt_gw e = 0")
  case True
  with assms(2) obtain i nbr where i: "i \<in> set (net_ifaces s)" "nbr \<in> set (mo_nbrs s i)" "nbr_ip nbr AND nbr_mask nbr = n"
    by (auto simp: neighbour_on_def)
  then have "nbr_on_net s n (net_ifaces s) \<noteq> None" using nbr_on_net_None[of s n "net_ifaces s" i nbr] by blast
  then show ?thesis using assms(1) True by (simp add: hop_def find_kernel_entry[symmetric])
qed (use assms(1) in \<open>simp add: hop_def find_kernel_entry[symmetric]\<close>)

lemma add_route_hop: "hop s rt n = Some (gw, i) \<Longrightarrow> add_route s dest msk n rt = Inr (rt @ [new_rt_entry dest msk gw i])"
  by (auto simp: add_route_def hop_def add_rt_entry_def split: option.splits if_splits)

lemma find_append: "find P (xs @ ys) = (case find P xs of None \<Rightarrow> find P ys | Some x \<Rightarrow> Some x)"
  by (induction xs) auto

lemma hop_append: "hop s rt n \<noteq> None \<Longrightarrow> hop s (rt @ rt') n = hop s rt n"
  by (auto simp: hop_def find_append split: option.splits)

section \<open>Levels\<close>

fun within :: "'b mospf_net_scheme \<Rightarrow> nat \<Rightarrow> u32 set" where
  "within s 0 = kernel_nets s"
| "within s (Suc k) = within s k \<union> {m. \<exists>n \<in> within s k. links (mo_db s) n m}"

definition level :: "'b mospf_net_scheme \<Rightarrow> nat \<Rightarrow> u32 \<Rightarrow> bool" where
  "level s k m \<longleftrightarrow> m \<in> within s k \<and> (\<forall>j < k. m \<notin> within s j)"

lemma within_mono: "j \<le> k \<Longrightarrow> within s j \<subseteq> within s k"
  by (induction k) (auto simp: le_Suc_eq)

lemma level_Suc: "level s (Suc k) m \<longleftrightarrow> m \<in> within s (Suc k) \<and> m \<notin> within s k"
  using within_mono[of _ k s] by (auto simp: level_def less_Suc_eq_le simp del: within.simps)

lemma level_unique: "level s k m \<Longrightarrow> level s j m \<Longrightarrow> k = j"
  by (metis level_def linorder_neqE_nat)

lemma level_exists: "m \<in> within s k \<Longrightarrow> \<exists>j \<le> k. level s j m"
proof (induction k rule: less_induct)
  case (less k)
  show ?case
  proof (cases "\<exists>j < k. m \<in> within s j")
    case True
    with less.IH show ?thesis by (meson le_trans less_imp_le)
  next
    case False
    with less.prems show ?thesis by (auto simp: level_def)
  qed
qed

lemma net_path_snoc: "net_path s p \<Longrightarrow> links (mo_db s) (last p) m \<Longrightarrow> net_path s (p @ [m])"
  by (auto simp: net_path_def successively_append_iff)

lemma within_path: "m \<in> within s k \<Longrightarrow> \<exists>p. net_path s p \<and> last p = m \<and> length p \<le> Suc k"
proof (induction k arbitrary: m)
  case 0
  then show ?case by (intro exI[of _ "[m]"]) (simp add: net_path_def)
next
  case (Suc k)
  from Suc.prems consider "m \<in> within s k" | n where "n \<in> within s k" "links (mo_db s) n m" by auto
  then show ?case
  proof cases
    case 1
    from Suc.IH[OF this] obtain p where "net_path s p" "last p = m" "length p \<le> Suc k" by blast
    then show ?thesis by (intro exI[of _ p]) simp
  next
    case 2
    from Suc.IH[OF 2(1)] obtain p where "net_path s p" "last p = n" "length p \<le> Suc k" by blast
    with 2(2) net_path_snoc[of s p m] show ?thesis by (intro exI[of _ "p @ [m]"]) auto
  qed
qed

lemma path_within: "net_path s p \<Longrightarrow> last p \<in> within s (length p - 1)"
proof (induction p rule: rev_induct)
  case (snoc m p)
  show ?case
  proof (cases "p = []")
    case True
    with snoc.prems show ?thesis by (simp add: net_path_def)
  next
    case False
    with snoc.prems have p: "net_path s p" "links (mo_db s) (last p) m"
      by (auto simp: net_path_def successively_append_iff)
    obtain k where "length p = Suc k" using False by (cases p) auto
    with snoc.IH[OF p(1)] p(2) show ?thesis by auto
  qed
qed (simp add: net_path_def)

lemma level_shortest:
  assumes "level s k (last p)" "net_path s p" "length p \<le> Suc k"
  shows "shortest_path s p"
  unfolding shortest_path_def
proof (intro conjI allI impI)
  fix q assume q: "net_path s q" "last q = last p"
  from path_within[OF q(1)] q(2) assms(1) have "\<not> length q - 1 < k" by (auto simp: level_def)
  then show "length p \<le> length q" using assms(3) q(1) by (cases q) (auto simp: net_path_def)
qed (rule assms(2))

section \<open>The walk\<close>

text \<open>What is learned so far: the entries behind the kernel's, each with the next hop of a network one step nearer.\<close>

definition learned_ok :: "'b mospf_net_scheme \<Rightarrow> net_list \<Rightarrow> rt_entry list \<Rightarrow> bool" where
  "learned_ok s l learned \<longleftrightarrow> distinct (map rt_dest learned) \<and> rt_dest ` set learned = list_nets l - kernel_nets s \<and>
     (\<forall>r \<in> set learned. rt_gw r \<noteq> 0 \<and> rt_dest r AND rt_mask r = rt_dest r \<and>
       (\<exists>k p. level s k (rt_dest r) \<and> net_path s p \<and> last p = rt_dest r \<and> length p \<le> Suc k \<and>
          hop s (mo_kernel s) (hd p) = Some (rt_gw r, rt_iface r)))"

text \<open>The list while the node of distance \<open>d\<close> is being visited, or between two nodes.\<close>

definition net_list_ok :: "'b mospf_net_scheme \<Rightarrow> nat \<Rightarrow> net_list \<Rightarrow> bool" where
  "net_list_ok s d l \<longleftrightarrow> sorted (map nn_dist (fst l @ snd l)) \<and>
     (\<forall>x \<in> set (fst l @ snd l). 0 \<le> nn_dist x \<and> level s (nat (nn_dist x)) (nn_id x)) \<and>
     (\<forall>x \<in> set (fst l). nn_dist x \<le> int d) \<and> (\<forall>x \<in> set (snd l). int d \<le> nn_dist x \<and> nn_dist x \<le> int d + 1) \<and>
     within s d \<subseteq> list_nets l \<and> kernel_nets s \<subseteq> list_nets l"

lemma sorted_net_insert: "sorted (map nn_dist l) \<Longrightarrow> sorted (map nn_dist (net_insert n l))"
  by (induction l) (auto simp: net_before_def split: if_splits)

lemma add_net_ok:
  assumes ok: "net_list_ok s d (walked, ahead)" and n: "nn_dist node = int d" "level s (Suc d) m"
  shows "\<exists>ahead'. add_net (Some node) m (walked, ahead) = (walked, ahead') \<and> net_list_ok s d (walked, ahead') \<and> set ahead \<subseteq> set ahead'"
proof -
  let ?n = "\<lparr>nn_id = m, nn_dist = int d + 1\<rparr>"
  have "\<forall>after \<in> set walked. net_before after ?n" using ok by (auto simp: net_list_ok_def net_before_def)
  then have eq: "add_net (Some node) m (walked, ahead) = (walked, net_insert ?n ahead)"
    using n(1) by (simp add: add_net_def Let_def)
  have "sorted (map nn_dist (walked @ net_insert ?n ahead))"
    using ok sorted_net_insert[of ahead ?n] by (auto simp: net_list_ok_def sorted_append)
  moreover have "nat (int d + 1) = Suc d" by simp
  ultimately have "net_list_ok s d (walked, net_insert ?n ahead)"
    using ok n(2) by (auto simp: net_list_ok_def list_nets_def)
  with eq show ?thesis by auto
qed

text \<open>The assumptions on the state: networks are announced with their host bits cleared, no neighbour has address zero,
  and the kernel's networks that lead somewhere have a next hop.\<close>

definition spf_ready :: "'b mospf_net_scheme \<Rightarrow> bool" where
  "spf_ready s \<longleftrightarrow> (\<forall>e \<in> set (mo_db s). \<forall>a \<in> set (db_array e). lsa_network a AND lsa_mask a = lsa_network a) \<and>
     (\<forall>i \<in> set (net_ifaces s). \<forall>nbr \<in> set (mo_nbrs s i). nbr_ip nbr \<noteq> 0) \<and>
     (\<forall>n m. links (mo_db s) n m \<longrightarrow> (\<forall>e. kernel_entry s n e \<longrightarrow> rt_gw e \<noteq> 0 \<or> (\<exists>gw i. neighbour_on s n gw i)))"

lemma ready_hop: "spf_ready s \<Longrightarrow> n \<in> kernel_nets s \<Longrightarrow> links (mo_db s) n m \<Longrightarrow> hop s (mo_kernel s) n \<noteq> None"
proof -
  assume a: "spf_ready s" "n \<in> kernel_nets s" "links (mo_db s) n m"
  from a(2) have "find (\<lambda>e. n = rt_dest e AND rt_mask e) (mo_kernel s) \<noteq> None" by (auto simp: kernel_nets_def find_None_iff)
  then obtain e where "kernel_entry s n e" by (auto simp: find_kernel_entry)
  moreover have "rt_gw e \<noteq> 0 \<or> (\<exists>gw i. neighbour_on s n gw i)" using a(1,3) calculation unfolding spf_ready_def by blast
  ultimately show ?thesis by (rule kernel_hop_exists)
qed

definition via :: "'b mospf_net_scheme \<Rightarrow> nat \<Rightarrow> u32 \<Rightarrow> u32 \<Rightarrow> ip_iface \<Rightarrow> bool" where
  "via s d n gw i \<longleftrightarrow> gw \<noteq> 0 \<and> (\<exists>p. net_path s p \<and> last p = n \<and> length p \<le> Suc d \<and> hop s (mo_kernel s) (hd p) = Some (gw, i))"

lemma via_step: "via s d n gw i \<Longrightarrow> links (mo_db s) n m \<Longrightarrow> via s (Suc d) m gw i"
  unfolding via_def
proof (elim conjE exE, intro conjI)
  fix p assume p: "net_path s p" "last p = n" "length p \<le> Suc d" "hop s (mo_kernel s) (hd p) = Some (gw, i)" and l: "links (mo_db s) n m"
  have "p \<noteq> []" using p(1) by (simp add: net_path_def)
  with p l show "\<exists>p. net_path s p \<and> last p = m \<and> length p \<le> Suc (Suc d) \<and> hop s (mo_kernel s) (hd p) = Some (gw, i)"
    by (intro exI[of _ "p @ [m]"]) (simp add: net_path_snoc)
qed

lemma hop_nonzero: "spf_ready s \<Longrightarrow> hop s rt n = Some (gw, i) \<Longrightarrow> gw \<noteq> 0"
  using nbr_on_net_Some[of s n "net_ifaces s" gw i] by (auto simp: hop_def spf_ready_def split: option.splits if_splits)

lemma learned_via:
  assumes ready: "spf_ready s" and ok: "learned_ok s l learned" and n: "n \<in> list_nets l" "level s d n" "links (mo_db s) n m"
  shows "\<exists>gw i. hop s (mo_kernel s @ learned) n = Some (gw, i) \<and> via s d n gw i"
proof (cases "n \<in> kernel_nets s")
  case True
  from ready_hop[OF ready True n(3)] obtain gw i where h: "hop s (mo_kernel s) n = Some (gw, i)" by auto
  then have "hop s (mo_kernel s @ learned) n = Some (gw, i)" using hop_append[of s "mo_kernel s" n learned] by simp
  moreover have "net_path s [n]" using True by (simp add: net_path_def)
  then have "via s d n gw i" using h hop_nonzero[OF ready h] unfolding via_def by (intro conjI exI[of _ "[n]"]) simp_all
  ultimately show ?thesis by blast
next
  case False
  have k: "find (\<lambda>e. n = rt_dest e AND rt_mask e) (mo_kernel s) = None"
    using False by (auto simp: find_None_iff kernel_nets_def)
  from ok n(1) False have "n \<in> rt_dest ` set learned" by (auto simp: learned_ok_def)
  then obtain r0 where "r0 \<in> set learned" "rt_dest r0 = n" by blast
  with ok have "find (\<lambda>e. n = rt_dest e AND rt_mask e) learned \<noteq> None" by (auto simp: find_None_iff learned_ok_def)
  then obtain r where r: "find (\<lambda>e. n = rt_dest e AND rt_mask e) learned = Some r" by blast
  then have rr: "r \<in> set learned" "n = rt_dest r AND rt_mask r" by (auto simp: find_Some_iff dest: nth_mem)
  with ok obtain k p where p: "rt_gw r \<noteq> 0" "rt_dest r = n" "level s k n" "net_path s p" "last p = n" "length p \<le> Suc k"
    "hop s (mo_kernel s) (hd p) = Some (rt_gw r, rt_iface r)" by (fastforce simp: learned_ok_def)
  have "k = d" using level_unique[OF p(3) n(2)] .
  with p have "via s d n (rt_gw r) (rt_iface r)" by (auto simp: via_def)
  moreover have "hop s (mo_kernel s @ learned) n = Some (rt_gw r, rt_iface r)" using k r p(1) by (simp add: hop_def find_append)
  ultimately show ?thesis by blast
qed

lemma add_others_ok:
  assumes "spf_ready s" "nn_dist node = int d" "level s d (nn_id node)"
    and "net_list_ok s d (walked, ahead)" "learned_ok s (walked, ahead) learned" "nn_id node \<in> list_nets (walked, ahead)"
    and "\<And>a. a \<in> set as \<Longrightarrow> (lsa_network a = nn_id node \<or> links (mo_db s) (nn_id node) (lsa_network a)) \<and>
      lsa_network a AND lsa_mask a = lsa_network a"
  shows "\<exists>ahead' learned'. add_others s node as (walked, ahead) (mo_kernel s @ learned) = Inr ((walked, ahead'), mo_kernel s @ learned') \<and>
    net_list_ok s d (walked, ahead') \<and> learned_ok s (walked, ahead') learned' \<and> set ahead \<subseteq> set ahead' \<and>
    lsa_network ` set as \<subseteq> list_nets (walked, ahead')"
  using assms(4-)
proof (induction as arbitrary: ahead learned)
  case (Cons a as)
  let ?n = "nn_id node" and ?m = "lsa_network a"
  show ?case
  proof (cases "net_added ?m (walked, ahead)")
    case True
    from Cons.IH[OF Cons.prems(1-3)] Cons.prems(4) obtain ahead' learned' where
      i: "add_others s node as (walked, ahead) (mo_kernel s @ learned) = Inr ((walked, ahead'), mo_kernel s @ learned')"
      "net_list_ok s d (walked, ahead')" "learned_ok s (walked, ahead') learned'" "set ahead \<subseteq> set ahead'"
      "lsa_network ` set as \<subseteq> list_nets (walked, ahead')" by fastforce
    have "?m \<in> list_nets (walked, ahead')" using True i(4) by (auto simp: net_added_iff list_nets_def)
    with i True show ?thesis by auto
  next
    case False
    have "?m \<noteq> ?n" using False Cons.prems(3) net_added_iff by metis
    then have a: "links (mo_db s) ?n ?m" "?m AND lsa_mask a = ?m" using Cons.prems(4)[of a] by auto
    from learned_via[OF assms(1) Cons.prems(2,3) assms(3) a(1)] obtain gw i where
      h: "hop s (mo_kernel s @ learned) ?n = Some (gw, i)" "via s d ?n gw i" by blast
    have new: "?m \<notin> list_nets (walked, ahead)" using False by (simp add: net_added_iff)
    have lev: "level s (Suc d) ?m"
      unfolding level_Suc
    proof
      show "?m \<in> within s (Suc d)" using a(1) assms(3) by (auto simp: level_def)
      show "?m \<notin> within s d" using Cons.prems(1) new by (auto simp: net_list_ok_def)
    qed
    from add_net_ok[OF Cons.prems(1) assms(2) lev] obtain ahead1 where
      n1: "add_net (Some node) ?m (walked, ahead) = (walked, ahead1)" "net_list_ok s d (walked, ahead1)" "set ahead \<subseteq> set ahead1" by blast
    let ?r = "new_rt_entry ?m (lsa_mask a) gw i"
    have l1: "list_nets (walked, ahead1) = insert ?m (list_nets (walked, ahead))" using list_nets_add[of "Some node" ?m "(walked, ahead)"] n1(1) by simp
    have k: "?m \<notin> kernel_nets s" using new Cons.prems(1) by (auto simp: net_list_ok_def)
    have lo: "learned_ok s (walked, ahead1) (learned @ [?r])"
      using Cons.prems(2) via_step[OF h(2) a(1)] lev new k a(2)
      by (auto simp: learned_ok_def l1 via_def new_rt_entry_def)
    have "?n \<in> list_nets (walked, ahead1)" using Cons.prems(3) l1 by simp
    from Cons.IH[OF n1(2) lo this] Cons.prems(4) obtain ahead' learned' where
      i: "add_others s node as (walked, ahead1) (mo_kernel s @ learned @ [?r]) = Inr ((walked, ahead'), mo_kernel s @ learned')"
      "net_list_ok s d (walked, ahead')" "learned_ok s (walked, ahead') learned'" "set ahead1 \<subseteq> set ahead'"
      "lsa_network ` set as \<subseteq> list_nets (walked, ahead')" by fastforce
    have "?m \<in> list_nets (walked, ahead')" using l1 i(4) by (auto simp: list_nets_def)
    then show ?thesis using False i n1 add_route_hop[OF h(1), of ?m "lsa_mask a"] by auto
  qed
qed simp

lemma visit_entries_Cons: "visit_entries s node (e # es) l rt =
    bind_res (add_others s node (other_lsas e (nn_id node)) l rt) (\<lambda>(l, rt). visit_entries s node es l rt)"
  by (auto simp: other_lsas_def entry_lsas_def Let_def split: option.split)

lemma other_lsas_db: "a \<in> set (other_lsas e n) \<Longrightarrow> a \<in> set (db_array e)"
  by (auto simp: other_lsas_def entry_lsas_def split: option.splits dest: in_set_takeD in_set_dropD)

lemma visit_entries_ok:
  assumes "spf_ready s" "nn_dist node = int d" "level s d (nn_id node)"
    and "net_list_ok s d (walked, ahead)" "learned_ok s (walked, ahead) learned" "nn_id node \<in> list_nets (walked, ahead)"
    and "set es \<subseteq> set (mo_db s)"
  shows "\<exists>ahead' learned'. visit_entries s node es (walked, ahead) (mo_kernel s @ learned) = Inr ((walked, ahead'), mo_kernel s @ learned') \<and>
    net_list_ok s d (walked, ahead') \<and> learned_ok s (walked, ahead') learned' \<and> set ahead \<subseteq> set ahead' \<and>
    (\<forall>e \<in> set es. lsa_network ` set (other_lsas e (nn_id node)) \<subseteq> list_nets (walked, ahead'))"
  using assms(4-)
proof (induction es arbitrary: ahead learned)
  case (Cons e es)
  have "(lsa_network a = nn_id node \<or> links (mo_db s) (nn_id node) (lsa_network a)) \<and> lsa_network a AND lsa_mask a = lsa_network a"
    if "a \<in> set (other_lsas e (nn_id node))" for a
    using that assms(1) Cons.prems(4) other_lsas_db[OF that] by (auto simp: links_others spf_ready_def)
  from add_others_ok[OF assms(1-3) Cons.prems(1-3) this] obtain ahead1 learned1 where
    1: "add_others s node (other_lsas e (nn_id node)) (walked, ahead) (mo_kernel s @ learned) = Inr ((walked, ahead1), mo_kernel s @ learned1)"
    "net_list_ok s d (walked, ahead1)" "learned_ok s (walked, ahead1) learned1" "set ahead \<subseteq> set ahead1"
    "lsa_network ` set (other_lsas e (nn_id node)) \<subseteq> list_nets (walked, ahead1)" by blast
  have "nn_id node \<in> list_nets (walked, ahead1)" using Cons.prems(3) 1(4) by (auto simp: list_nets_def)
  from Cons.IH[OF 1(2,3) this] Cons.prems(4) obtain ahead' learned' where
    2: "visit_entries s node es (walked, ahead1) (mo_kernel s @ learned1) = Inr ((walked, ahead'), mo_kernel s @ learned')"
    "net_list_ok s d (walked, ahead')" "learned_ok s (walked, ahead') learned'" "set ahead1 \<subseteq> set ahead'"
    "\<forall>e \<in> set es. lsa_network ` set (other_lsas e (nn_id node)) \<subseteq> list_nets (walked, ahead')" by auto
  have "list_nets (walked, ahead1) \<subseteq> list_nets (walked, ahead')" using 2(4) by (auto simp: list_nets_def)
  with 1 2 show ?case by (auto simp: visit_entries_Cons simp del: visit_entries.simps)
qed simp

definition walked_closed :: "'b mospf_net_scheme \<Rightarrow> net_list \<Rightarrow> bool" where
  "walked_closed s l \<longleftrightarrow> (\<forall>x \<in> set (fst l). \<forall>m. links (mo_db s) (nn_id x) m \<longrightarrow> m \<in> list_nets l)"

text \<open>Going on to the next node, which is as far as the last one or one step farther.\<close>

lemma next_node:
  assumes ok: "net_list_ok s d (walked, node # ahead)" and closed: "walked_closed s (walked, node # ahead)"
  shows "\<exists>d'. nn_dist node = int d' \<and> level s d' (nn_id node) \<and> net_list_ok s d' (walked @ [node], ahead)"
proof -
  from ok have range: "nn_dist node = int d \<or> nn_dist node = int (Suc d)" by (auto simp: net_list_ok_def)
  have nets: "list_nets (walked @ [node], ahead) = list_nets (walked, node # ahead)" by (simp add: list_nets_def)
  show ?thesis
  proof (cases "nn_dist node = int d")
    case True
    with ok show ?thesis by (intro exI[of _ d]) (auto simp: net_list_ok_def nets)
  next
    case False
    with range have e: "nn_dist node = int (Suc d)" by simp
    have "within s (Suc d) \<subseteq> list_nets (walked, node # ahead)"
    proof
      fix m assume "m \<in> within s (Suc d)"
      then consider "m \<in> within s d" | n where "n \<in> within s d" "links (mo_db s) n m" by auto
      then show "m \<in> list_nets (walked, node # ahead)"
      proof cases
        case 1
        with ok show ?thesis by (auto simp: net_list_ok_def)
      next
        case 2
        from level_exists[OF 2(1)] obtain j where j: "j \<le> d" "level s j n" by blast
        have "n \<in> list_nets (walked, node # ahead)" using 2(1) ok by (auto simp: net_list_ok_def)
        then obtain x where x: "x \<in> set (walked @ node # ahead)" "nn_id x = n" by (auto simp: list_nets_def)
        with ok have lx: "level s (nat (nn_dist x)) n" "0 \<le> nn_dist x" by (auto simp: net_list_ok_def)
        have "nat (nn_dist x) = j" by (rule level_unique[OF lx(1) j(2)])
        with j(1) lx(2) have "nn_dist x \<le> int d" by linarith
        moreover have "int (Suc d) \<le> nn_dist y" if "y \<in> set (node # ahead)" for y
          using ok that e by (auto simp: net_list_ok_def sorted_append)
        ultimately have "x \<in> set walked" using x(1) by fastforce
        with closed x(2) 2(2) show ?thesis by (auto simp: walked_closed_def)
      qed
    qed
    moreover have "\<forall>y \<in> set ahead. int (Suc d) \<le> nn_dist y" using ok e by (auto simp: net_list_ok_def sorted_append)
    moreover have "nat (int (Suc d)) = Suc d" by simp
    ultimately have "level s (Suc d) (nn_id node) \<and> net_list_ok s (Suc d) (walked @ [node], ahead)"
      using ok e by (fastforce simp: net_list_ok_def nets simp del: within.simps)
    with e show ?thesis by blast
  qed
qed

lemma walk_nets_ok:
  assumes "spf_ready s" "net_list_ok s d l" "learned_ok s l learned" "walked_closed s l"
  shows "\<exists>d' walked learned'. walk_nets s l (mo_kernel s @ learned) = Inr ((walked, []), mo_kernel s @ learned') \<and>
    net_list_ok s d' (walked, []) \<and> learned_ok s (walked, []) learned' \<and> walked_closed s (walked, [])"
  using assms
proof (induction s l "mo_kernel s @ learned" arbitrary: d learned rule: walk_nets.induct)
  case (2 s walked node ahead)
  from next_node[OF 2(3,5)] obtain e where e: "nn_dist node = int e" "level s e (nn_id node)" "net_list_ok s e (walked @ [node], ahead)" by blast
  have nets: "list_nets (walked @ [node], ahead) = list_nets (walked, node # ahead)" by (simp add: list_nets_def)
  have "learned_ok s (walked @ [node], ahead) learned" "nn_id node \<in> list_nets (walked @ [node], ahead)"
    using 2(4) by (simp_all add: learned_ok_def nets) (simp add: list_nets_def)
  from visit_entries_ok[OF 2(2) e(1,2,3) this subset_refl] obtain ahead' learned' where
    v: "visit_entries s node (mo_db s) (walked @ [node], ahead) (mo_kernel s @ learned) = Inr ((walked @ [node], ahead'), mo_kernel s @ learned')"
    "net_list_ok s e (walked @ [node], ahead')" "learned_ok s (walked @ [node], ahead') learned'" "set ahead \<subseteq> set ahead'"
    "\<forall>x \<in> set (mo_db s). lsa_network ` set (other_lsas x (nn_id node)) \<subseteq> list_nets (walked @ [node], ahead')" by blast
  have sub: "list_nets (walked, node # ahead) \<subseteq> list_nets (walked @ [node], ahead')" using v(4) by (auto simp: list_nets_def)
  have "walked_closed s (walked @ [node], ahead')"
    unfolding walked_closed_def
  proof (intro ballI allI impI)
    fix x m assume x: "x \<in> set (fst (walked @ [node], ahead'))" "links (mo_db s) (nn_id x) m"
    show "m \<in> list_nets (walked @ [node], ahead')"
    proof (cases "x = node")
      case True
      with x(2) v(5) show ?thesis by (auto simp: links_others)
    next
      case False
      with x 2(5) sub show ?thesis by (auto simp: walked_closed_def)
    qed
  qed
  from 2(1)[OF v(1) refl 2(2) v(2,3) this] v(1) show ?case by simp
qed auto

lemma clear_rtable_empty: "clear_rtable rt = []"
  by (induction rt rule: clear_rtable.induct) auto

lemma load_nets:
  "\<exists>zs. fold (\<lambda>e. add_net None (rt_dest e AND rt_mask e)) rt ([], ys) = ([], zs) \<and>
    (\<forall>x \<in> set zs. x \<in> set ys \<or> nn_dist x = 0 \<and> nn_id x \<in> (\<lambda>e. rt_dest e AND rt_mask e) ` set rt) \<and>
    nn_id ` set zs = nn_id ` set ys \<union> (\<lambda>e. rt_dest e AND rt_mask e) ` set rt"
proof (induction rt arbitrary: ys)
  case (Cons e rt)
  let ?n = "\<lparr>nn_id = rt_dest e AND rt_mask e, nn_dist = 0\<rparr>"
  have "add_net None (rt_dest e AND rt_mask e) ([], ys) = ([], net_insert ?n ys)" by (simp add: add_net_def Let_def)
  moreover obtain zs where zs: "fold (\<lambda>e. add_net None (rt_dest e AND rt_mask e)) rt ([], net_insert ?n ys) = ([], zs)"
    "\<forall>x \<in> set zs. x \<in> set (net_insert ?n ys) \<or> nn_dist x = 0 \<and> nn_id x \<in> (\<lambda>e. rt_dest e AND rt_mask e) ` set rt"
    "nn_id ` set zs = nn_id ` set (net_insert ?n ys) \<union> (\<lambda>e. rt_dest e AND rt_mask e) ` set rt"
    using Cons.IH[of "net_insert ?n ys"] by blast
  moreover have "x \<in> set ys \<or> nn_dist x = 0 \<and> nn_id x \<in> (\<lambda>e. rt_dest e AND rt_mask e) ` set (e # rt)" if "x \<in> set zs" for x
    using zs(2) that by (cases "x = ?n") auto
  ultimately show ?case by (intro exI[of _ zs]) simp
qed simp

lemma within_list:
  assumes "net_list_ok s d (walked, [])" "walked_closed s (walked, [])"
  shows "within s k \<subseteq> list_nets (walked, [])"
proof (induction k)
  case 0
  with assms(1) show ?case by (auto simp: net_list_ok_def)
next
  case (Suc k)
  with assms(2) show ?case by (auto simp: walked_closed_def list_nets_def)
qed

lemma update_rtable_spf:
  assumes "spf_ready s"
  shows "\<exists>learned. update_rtable s = Inr (s\<lparr>net_rtable := mo_kernel s @ learned\<rparr>) \<and> distinct (map rt_dest learned) \<and>
    rt_dest ` set learned = last ` {p. net_path s p} - kernel_nets s \<and>
    (\<forall>r \<in> set learned. \<exists>p. shortest_path s p \<and> last p = rt_dest r \<and> hop s (mo_kernel s) (hd p) = Some (rt_gw r, rt_iface r))"
proof -
  let ?rt = "mo_kernel s"
  obtain zs where l: "fold (\<lambda>e. add_net None (rt_dest e AND rt_mask e)) ?rt ([], []) = ([], zs)"
    "\<forall>x \<in> set zs. nn_dist x = 0 \<and> nn_id x \<in> kernel_nets s" "nn_id ` set zs = kernel_nets s"
    using load_nets[of ?rt "[]"] by (auto simp: kernel_nets_def)
  have "sorted (map nn_dist zs)" using l(2) by (simp add: sorted_iff_nth_mono)
  then have ok: "net_list_ok s 0 ([], zs)" using l(2,3) by (auto simp: net_list_ok_def level_def list_nets_def)
  have lo: "learned_ok s ([], zs) []" using l(3) by (simp add: learned_ok_def list_nets_def)
  have "walked_closed s ([], zs)" by (simp add: walked_closed_def)
  from walk_nets_ok[OF assms ok lo this] obtain d walked learned where
    w: "walk_nets s ([], zs) ?rt = Inr ((walked, []), ?rt @ learned)" "net_list_ok s d (walked, [])"
    "learned_ok s (walked, []) learned" "walked_closed s (walked, [])" by auto
  have "update_rtable s = Inr (s\<lparr>net_rtable := ?rt @ learned\<rparr>)"
    using l(1) w(1) by (simp add: update_rtable_def Let_def clear_rtable_empty)
  moreover have "list_nets (walked, []) = last ` {p. net_path s p}"
  proof
    show "list_nets (walked, []) \<subseteq> last ` {p. net_path s p}"
    proof
      fix n assume "n \<in> list_nets (walked, [])"
      then have "\<exists>k. n \<in> within s k" using w(2) by (auto simp: list_nets_def net_list_ok_def level_def)
      then show "n \<in> last ` {p. net_path s p}" using within_path by blast
    qed
    show "last ` {p. net_path s p} \<subseteq> list_nets (walked, [])"
      using within_list[OF w(2,4)] path_within by blast
  qed
  moreover have "\<exists>p. shortest_path s p \<and> last p = rt_dest r \<and> hop s ?rt (hd p) = Some (rt_gw r, rt_iface r)"
    if "r \<in> set learned" for r
    using w(3) that level_shortest unfolding learned_ok_def by metis
  ultimately show ?thesis using w(3) by (auto simp: learned_ok_def)
qed

text \<open>
  C6: shortest paths.  Two networks are linked when a router announces both, the first with a router at its other end.  Let
  networks be announced with their host bits cleared, no neighbour have address zero,
  and every network of the kernel's table that the database links to others have a gateway in its first entry or a neighbour on it.  Then \<open>update_rtable\<close> returns;
  it leaves the kernel's entries in front and behind them exactly one entry for every
  other network that a path of links connects to one of the kernel's; and for each there is a path to its destination, which no other
  path is shorter than, such that gateway and interface are those of the kernel's first entry for the first network of
  the path, or, when that entry has no gateway, an address on that network of a neighbour and the interface the neighbour is on.
\<close>
theorem update_rtable_shortest_paths:
  assumes "spf_ready s"
  shows "\<exists>learned. update_rtable s = Inr (s\<lparr>net_rtable := mo_kernel s @ learned\<rparr>) \<and> distinct (map rt_dest learned) \<and>
    rt_dest ` set learned = last ` {p. net_path s p} - kernel_nets s \<and>
    (\<forall>r \<in> set learned. \<exists>p. shortest_path s p \<and> last p = rt_dest r \<and> kernel_hop s (hd p) (rt_gw r) (rt_iface r))"
proof -
  obtain learned where l: "update_rtable s = Inr (s\<lparr>net_rtable := mo_kernel s @ learned\<rparr>)" "distinct (map rt_dest learned)"
    "rt_dest ` set learned = last ` {p. net_path s p} - kernel_nets s"
    "\<forall>r \<in> set learned. \<exists>p. shortest_path s p \<and> last p = rt_dest r \<and> hop s (mo_kernel s) (hd p) = Some (rt_gw r, rt_iface r)"
    using update_rtable_spf[OF assms] by blast
  from l(4) have "\<forall>r \<in> set learned. \<exists>p. shortest_path s p \<and> last p = rt_dest r \<and> kernel_hop s (hd p) (rt_gw r) (rt_iface r)"
    using hop_kernel_hop by blast
  with l(1-3) show ?thesis by blast
qed

end
