(* ===== verification/Mospf_Flooding.thy ===== *)
theory Mospf_Flooding
  imports Mospf_Spf
begin

text \<open>
  The messages of the daemon: what a router announces arrives in the database of another one; and the counters
  the announcement relies on are right in every state the threads and the received messages lead to.
\<close>

section \<open>Messages that arrive\<close>

lemma drop_st: "i < k \<Longrightarrow> drop k (st8 p i v8) = drop k p" "i + 1 < k \<Longrightarrow> drop k (st16 p i v16) = drop k p"
  "i + 3 < k \<Longrightarrow> drop k (st32 p i v32) = drop k p"
  by (simp_all add: st8_def st16_def st32_def)

lemma length_mospf_init [simp]: "length (mospf_init_hdr p off t l r a) = length p" "length (mospf_init_lsu p off q n) = length p"
  "length (mospf_init_hello p off msk) = length p" "length (lsa_bytes lsa) = 12"
  by (simp_all add: mospf_init_hdr_def mospf_init_lsu_def mospf_init_hello_def Let_def lsa_bytes_def mospf_sizes)

lemma read_lsa_bytes: "drop off p = lsa_bytes a @ rest \<Longrightarrow> read_lsa p off = Inr a"
proof -
  assume d: "drop off p = lsa_bytes a @ rest"
  then have "length (drop off p) = 12 + length rest" by simp
  then have len: "off + 12 \<le> length p" by simp
  have nth: "p ! (off + i) = lsa_bytes a ! i" if "i < 12" for i
    using d that len by (metis length_mospf_init(4) nth_append nth_drop le_add1 le_trans)
  have e: "ld32 p (off + j) = ld32 (lsa_bytes a) j" if "j + 4 \<le> 12" for j
    using that nth[of j] nth[of "Suc j"] nth[of "j + 2"] nth[of "Suc (j + 2)"] by (simp add: ld32_def ld16_def)
  have "ld32 (lsa_bytes a) 0 = htonl (lsa_network a)" "ld32 (lsa_bytes a) 4 = htonl (lsa_mask a)" "ld32 (lsa_bytes a) 8 = htonl (lsa_rid a)"
    by (simp_all add: lsa_bytes_def mospf_sizes bytes_simps)
  with e[of 0] e[of 4] e[of 8] len show ?thesis by (simp add: read_lsa_def mospf_sizes)
qed

lemma read_lsas_bytes: "drop off p = concat (map lsa_bytes as) @ rest \<Longrightarrow> read_lsas p off (length as) = Inr as"
proof (induction as arbitrary: off)
  case (Cons a as)
  then have d: "drop off p = lsa_bytes a @ (concat (map lsa_bytes as) @ rest)" by simp
  have "drop (off + 12) p = drop 12 (drop off p)" by (simp add: add.commute)
  also have "\<dots> = concat (map lsa_bytes as) @ rest" by (simp add: d)
  finally show ?case using Cons.IH read_lsa_bytes[OF d] by (simp add: mospf_sizes)
qed simp

lemma length_lsas [simp]: "length (concat (map lsa_bytes as)) = 12 * length as"
  by (induction as) simp_all

definition own_lsas :: "'b mospf_net_scheme \<Rightarrow> mospf_lsa list" where
  "own_lsas s = concat (map (iface_lsas s) (net_ifaces s))"

lemma lsu_message_fields:
  assumes m: "lsu_message s = Inr msg" and n: "length (own_lsas s) \<le> 5000"
  shows "length msg = 24 + 12 * length (own_lsas s)" "mospf_checksum msg 0 = Inr (mo_checksum msg 0)"
    "mo_version msg 0 = MOSPF_VERSION" "mo_type msg 0 = MOSPF_TYPE_LSU" "ntohl (mo_rid msg 0) = mo_router_id s" "ntohl (mo_aid msg 0) = mo_area_id s"
    "unat (ntohs (mo_len msg 0)) = length msg" "ntohs (ld16 msg 16) = mo_sequence_num s" "ld8 msg 18 = MOSPF_MAX_LSU_TTL"
    "sint (ntohl (ld32 msg 20)) = int (length (own_lsas s))" "drop 24 msg = concat (map lsa_bytes (own_lsas s))"
proof -
  let ?n = "length (own_lsas s)"
  define len where "len = 24 + 12 * ?n"
  define q where "q = mospf_init_hdr (mospf_init_lsu (blit (zeros len) 24 (concat (map lsa_bytes (own_lsas s)))) 16 (mo_sequence_num s) (of_nat ?n))
    0 MOSPF_TYPE_LSU (of_nat len) (mo_router_id s) (mo_area_id s)"
  have lq: "length q = len" by (simp add: q_def len_def)
  from m have nadv: "lsu_nadv s = int ?n"
    by (auto simp: lsu_message_def Let_def own_lsas_def[symmetric] split: if_splits)
  have set: "mospf_set_checksum q 0 = Inr msg"
    using m by (simp add: lsu_message_def Let_def own_lsas_def[symmetric] nadv mospf_sizes q_def len_def mult.commute)
  have "len < 65536" using n by (simp add: len_def)
  then have ul: "unat (of_nat len :: u16) = len" by (simp add: unsigned_of_nat take_bit_nat_eq_self)
  have f: "mo_version q 0 = MOSPF_VERSION" "mo_type q 0 = MOSPF_TYPE_LSU" "ntohl (mo_rid q 0) = mo_router_id s" "ntohl (mo_aid q 0) = mo_area_id s"
    "ntohs (mo_len q 0) = of_nat len" "ntohs (ld16 q 16) = mo_sequence_num s" "ld8 q 18 = MOSPF_MAX_LSU_TTL" "ntohl (ld32 q 20) = of_nat ?n"
    by (simp_all add: q_def mospf_init_hdr_def mospf_init_lsu_def Let_def mo_defs bytes_simps len_def)
  obtain c where c: "mospf_checksum q 0 = Inr c" and msg: "msg = st16 q 12 c"
    using set by (auto simp: mospf_set_checksum_def bind_res_Inr_conv)
  show "length msg = 24 + 12 * ?n" using lq by (simp add: msg len_def)
  show "mo_version msg 0 = MOSPF_VERSION" "mo_type msg 0 = MOSPF_TYPE_LSU" "ntohl (mo_rid msg 0) = mo_router_id s" "ntohl (mo_aid msg 0) = mo_area_id s"
    "ntohs (ld16 msg 16) = mo_sequence_num s" "ld8 msg 18 = MOSPF_MAX_LSU_TTL"
    using f lq by (simp_all add: msg mo_defs bytes_simps len_def)
  show l: "unat (ntohs (mo_len msg 0)) = length msg" using f lq ul by (simp add: msg mo_defs bytes_simps len_def)
  have "ntohl (ld32 msg 20) = of_nat ?n" using f lq by (simp add: msg bytes_simps len_def)
  then show "sint (ntohl (ld32 msg 20)) = int ?n"
    using n by (simp add: signed_of_nat signed_take_bit_int_eq_self)
  have "msg[12 := 0, 13 := 0] = q[12 := 0, 13 := 0]" by (simp add: msg st16_def list_update_swap)
  then have z: "st16 msg 12 0 = st16 q 12 0" by (simp add: st16_def)
  have "mospf_checksum msg 0 = mospf_checksum q 0"
    unfolding mospf_checksum_def Let_def using lq z by (simp add: msg mo_len_def bytes_simps len_def)
  then show "mospf_checksum msg 0 = Inr (mo_checksum msg 0)" using c lq by (simp add: msg mo_checksum_def bytes_simps len_def)
  have "drop 24 q = concat (map lsa_bytes (own_lsas s))"
    by (simp add: q_def mospf_init_hdr_def mospf_init_lsu_def Let_def drop_st blit_def len_def)
  then show "drop 24 msg = concat (map lsa_bytes (own_lsas s))" by (simp add: msg drop_st)
qed

text \<open>The packet that carries a message to a neighbour.\<close>

lemma carried:
  assumes i: "ip_init_hdr rnd (blit (zeros (34 + length msg)) 34 msg) src dst len IPPROTO_MOSPF = Inr pkt"
  shows "IP_DATA pkt = 34" "drop 34 pkt = msg" "length pkt = 34 + length msg" "has_ip_hdr pkt"
    "ntohl (iph_daddr pkt) = dst" "ntohl (iph_saddr pkt) = src" "iph_protocol pkt = IPPROTO_MOSPF"
proof -
  note f = ip_init_hdr_fields[OF i]
  show l: "length pkt = 34 + length msg" using f(9) by simp
  show "IP_DATA pkt = 34" using f(2) by (simp add: IP_DATA_def IP_HDR_SIZE_def ip_consts)
  show "has_ip_hdr pkt" using l by (simp add: has_ip_hdr_def ip_consts)
  show "ntohl (iph_daddr pkt) = dst" "ntohl (iph_saddr pkt) = src" "iph_protocol pkt = IPPROTO_MOSPF" by (rule f)+
  show "drop 34 pkt = msg"
    by (rule nth_equalityI) (use l f(10) in \<open>auto simp: blit_def nth_append\<close>)
qed

lemma carried_fields:
  assumes "drop 34 p = msg" "34 \<le> length p"
  shows "mo_version p 34 = mo_version msg 0" "mo_type p 34 = mo_type msg 0" "mo_len p 34 = mo_len msg 0" "mo_rid p 34 = mo_rid msg 0"
    "mo_aid p 34 = mo_aid msg 0" "mo_checksum p 34 = mo_checksum msg 0" "ld16 p 50 = ld16 msg 16" "ld32 p 54 = ld32 msg 20" "ld8 p 52 = ld8 msg 18"
    "mospf_checksum p 34 = mospf_checksum msg 0"
proof -
  have n: "p ! (34 + i) = msg ! i" for i using assms by (metis add.commute nth_drop)
  have e: "ld8 p (34 + i) = ld8 msg i" "ld16 p (34 + i) = ld16 msg i" "ld32 p (34 + i) = ld32 msg i" for i
    using n[of i] n[of "Suc i"] n[of "i + 2"] n[of "Suc (i + 2)"] by (simp_all add: ld8_def ld16_def ld32_def add.assoc)
  note x = e(2)[of "Suc (Suc 0)"] e(1)[of 0] e(1)[of 1] e(1)[of 18] e(2)[of 2] e(2)[of 12] e(2)[of 16] e(3)[of 4] e(3)[of 8] e(3)[of 20]
  show "mo_version p 34 = mo_version msg 0" "mo_type p 34 = mo_type msg 0" "mo_rid p 34 = mo_rid msg 0"
    "mo_aid p 34 = mo_aid msg 0" "mo_checksum p 34 = mo_checksum msg 0" "ld16 p 50 = ld16 msg 16" "ld32 p 54 = ld32 msg 20" "ld8 p 52 = ld8 msg 18"
    and len: "mo_len p 34 = mo_len msg 0"
    using x by (simp_all add: mo_defs)
  have d: "drop 34 (p[46 := a, 47 := b]) = msg[12 := a, 13 := b]" for a b
    using assms(1) by (simp add: drop_update_swap)
  have "slice (st16 p 46 0) 34 k = slice (st16 msg 12 0) 0 k" for k
    using d by (simp add: slice_def st16_def)
  moreover have "length p = 34 + length msg" using assms by auto
  ultimately show "mospf_checksum p 34 = mospf_checksum msg 0" by (simp add: mospf_checksum_def len Let_def)
qed

definition db_entry_of :: "'b mospf_net_scheme \<Rightarrow> mospf_db_entry" where
  "db_entry_of s = \<lparr>db_rid = mo_router_id s, db_seq = mo_sequence_num s, db_nadv = int (length (own_lsas s)), db_alive = 0, db_array = own_lsas s\<rparr>"

lemma store_carried:
  assumes i: "ip_init_hdr rnd (blit (zeros (34 + length msg)) 34 msg) src dst len IPPROTO_MOSPF = Inr pkt"
    and m: "lsu_message s = Inr msg" "length (own_lsas s) \<le> 5000"
    and db: "\<forall>e \<in> set db. db_rid e = mo_router_id s \<longrightarrow> db_seq e < mo_sequence_num s"
  shows "store_lsu pkt (IP_DATA pkt) db = Inr (True, if mo_router_id s \<in> db_rid ` set db then update_db (db_entry_of s) db else db @ [db_entry_of s])"
proof -
  note c = carried[OF i] and f = lsu_message_fields[OF m]
  note g = carried_fields[OF c(2)] c(3)
  have h: "ntohl (mo_rid pkt 34) = mo_router_id s" "ntohs (ld16 pkt 50) = mo_sequence_num s" "sint (ntohl (ld32 pkt 54)) = int (length (own_lsas s))"
    using f g by simp_all
  have "drop 58 pkt = drop 24 (drop 34 pkt)" by simp
  then have "drop 58 pkt = concat (map lsa_bytes (own_lsas s)) @ []" using c(2) f(11) by simp
  then have r: "read_lsas pkt 58 (length (own_lsas s)) = Inr (own_lsas s)" by (rule read_lsas_bytes)
  show ?thesis
  proof (cases "find (\<lambda>e. db_rid e = mo_router_id s) db")
    case None
    then have "mo_router_id s \<notin> db_rid ` set db" by (auto simp: find_None_iff)
    with None show ?thesis by (simp add: store_lsu_def Let_def c(1) mospf_sizes h r db_entry_of_def)
  next
    case (Some old)
    then have "old \<in> set db" "db_rid old = mo_router_id s" by (auto simp: find_Some_iff)
    then have "mo_router_id s \<in> db_rid ` set db" by force
    moreover have "db_seq old < mo_sequence_num s" using \<open>old \<in> set db\<close> \<open>db_rid old = mo_router_id s\<close> db by blast
    ultimately show ?thesis using Some by (simp add: store_lsu_def Let_def c(1) mospf_sizes h r db_entry_of_def)
  qed
qed

section \<open>Sending leaves the routing daemon alone\<close>

definition same_routes :: "'a net_scheme \<Rightarrow> 'a net_scheme \<Rightarrow> bool" where
  "same_routes s s' \<longleftrightarrow> net.more s' = net.more s \<and> net_rtable s' = net_rtable s \<and> net_ifaces s' = net_ifaces s"

lemma same_routes_refl [simp]: "same_routes s s"
  by (simp add: same_routes_def)

lemma same_routes_trans: "same_routes s t \<Longrightarrow> same_routes t u \<Longrightarrow> same_routes s u"
  by (simp add: same_routes_def)

lemma same_routes_random: "same_routes s (snd (net_random s))"
  by (simp add: same_routes_def net_random_def)

lemma ip_send_routes:
  assumes "34 \<le> length p"
  shows "\<exists>s'. ip_send_packet p s = Inr s' \<and> same_routes s s'"
  using assms
  by (auto simp: ip_send_packet_def has_ip_hdr_def ip_consts Let_def iface_send_packet_by_arp_def same_routes_def
      net_iface_send_packet_def arpcache_append_packet_def arp_send_request_def split: option.splits)

lemma send_to_nbr_same: "\<exists>s'. send_to_nbr msg iface nbr s = Inr s' \<and> same_routes s s'"
proof -
  let ?p = "blit (zeros (34 + length msg)) 34 msg"
  have "has_ip_hdr ?p" by (simp add: has_ip_hdr_def ip_consts)
  from ip_init_hdr_ok[OF this] obtain p where p: "ip_init_hdr (fst (net_random s)) ?p (if_ip iface) (nbr_ip nbr)
      (of_nat (IP_BASE_HDR_SIZE + length msg)) IPPROTO_MOSPF = Inr p" by blast
  then have "34 \<le> length p" by (simp add: ip_init_hdr_fields)
  from ip_send_routes[OF this, of "snd (net_random s)"] p show ?thesis
    using same_routes_trans[OF same_routes_random] by (force simp: send_to_nbr_def ip_consts split: prod.splits)
qed

lemma fold_res_same:
  assumes "\<And>x s. \<exists>s'. f x s = Inr s' \<and> same_routes s s'"
  shows "\<exists>s'. fold_res f xs s = Inr s' \<and> same_routes s s'"
proof (induction xs arbitrary: s)
  case (Cons x xs)
  obtain t where "f x s = Inr t" "same_routes s t" using assms by blast
  with Cons.IH[of t] same_routes_trans show ?case by fastforce
qed simp

lemma send_to_nbrs_same: "\<exists>s'. send_to_nbrs msg ifaces s = Inr s' \<and> same_routes s s'"
  unfolding send_to_nbrs_def by (intro fold_res_same send_to_nbr_same)

lemma same_routes_mospf: "same_routes s s' \<Longrightarrow> mo_db s' = mo_db (s :: 'b mospf_net_scheme)"
  by (cases s; cases s') (simp add: same_routes_def)

lemma update_db_in: "db_rid e \<in> db_rid ` set db \<Longrightarrow> e \<in> set (update_db e db)"
  by (induction db) auto

section \<open>Properties\<close>

text \<open>The database with the announcement of \<open>s\<close> in it.\<close>

definition with_announcement :: "'b mospf_net_scheme \<Rightarrow> mospf_db_entry list \<Rightarrow> mospf_db_entry list" where
  "with_announcement s db =
    (if mo_router_id s \<in> db_rid ` set db then update_db (db_entry_of s) db else db @ [db_entry_of s])"

text \<open>
  C17: an announcement gets through.  Let a router build its link state message, of at most 5000 links, and send it in a
  packet of its own to another router of the area, which knows of no announcement from it that is as new.  The receiver
  takes the message, ends up with an entry in its database that holds the sender's sequence number and exactly
  the links of its interfaces and neighbours, and, if its state is fit for it, with the routing table the new database
  gives.
\<close>
theorem announcement_gets_through:
  assumes "lsu_message s = Inr msg" "length (own_lsas s) \<le> 5000"
    and "ip_init_hdr rnd (blit (zeros (34 + length msg)) 34 msg) src dst len IPPROTO_MOSPF = Inr pkt"
    and "mo_router_id t \<noteq> mo_router_id s" "mo_area_id t = mo_area_id s"
    and "\<forall>e \<in> set (mo_db t). db_rid e = mo_router_id s \<longrightarrow> db_seq e < mo_sequence_num s"
    and "spf_ready (t\<lparr>mo_db := with_announcement s (mo_db t)\<rparr>)"
  shows "\<exists>t'. handle_mospf_packet iface pkt t = Inr t' \<and> mo_db t' = with_announcement s (mo_db t) \<and>
    db_entry_of s \<in> set (mo_db t') \<and>
    update_rtable (t\<lparr>mo_db := with_announcement s (mo_db t)\<rparr>) =
      Inr (t\<lparr>mo_db := with_announcement s (mo_db t), net_rtable := net_rtable t'\<rparr>)"
proof -
  note c = carried[OF assms(3)] and f = lsu_message_fields[OF assms(1,2)]
  have l34: "34 \<le> length pkt" using c(3) by simp
  note g = carried_fields[OF c(2) l34]
  let ?u = "t\<lparr>mo_db := with_announcement s (mo_db t)\<rparr>"
  obtain learned where l: "update_rtable ?u = Inr (?u\<lparr>net_rtable := mo_kernel ?u @ learned\<rparr>)"
    using update_rtable_spf[OF assms(7)] by blast
  let ?v = "?u\<lparr>net_rtable := mo_kernel ?u @ learned\<rparr>"
  have len: "34 \<le> length pkt" "58 \<le> length pkt" using c(3) f(1) by simp_all
  have ml: "unat (ntohs (mo_len pkt 34)) = length msg" using g(3) len f(7) by simp
  define q where "q = st8 pkt 52 (ld8 pkt 52 - 1)"
  have q: "length q = length pkt" "mo_len q 34 = mo_len pkt 34" "ld8 q 52 = 254"
    using len g(9) f(9) by (simp_all add: q_def mo_len_def bytes_simps MOSPF_MAX_LSU_TTL_def)
  obtain c' where c': "mospf_set_checksum q 34 = Inr (st16 q 46 c')"
    using q ml c(3) f(1) by (simp add: mospf_set_checksum_def mospf_checksum_def Let_def mospf_sizes)
  have q': "ld8 (st16 q 46 c') 52 = 254" "mo_len (st16 q 46 c') 34 = mo_len pkt 34" using q len by (simp_all add: mo_len_def bytes_simps)
  obtain t' where t': "send_to_nbrs (slice (st16 q 46 c') 34 (length msg)) (filter (\<lambda>i. i \<noteq> iface) (net_ifaces ?v)) ?v = Inr t'" "same_routes ?v t'"
    using send_to_nbrs_same by blast
  have store: "store_lsu pkt 34 (mo_db t) = Inr (True, with_announcement s (mo_db t))"
    using store_carried[OF assms(3,1,2,6)] c(1) by (simp add: with_announcement_def)
  have rid: "ntohl (mo_rid pkt 34) = mo_router_id s" using g f by simp
  have "handle_mospf_lsu iface pkt t = Inr t'"
    using len c(1,3) rid assms(4) store l t'(1) c' q' ml q(1)
    by (simp add: handle_mospf_lsu_def Let_def mospf_sizes q_def[symmetric] ip_consts)
  moreover have "handle_mospf_packet iface pkt t = handle_mospf_lsu iface pkt t"
    using len c(1,4) g f assms(5) by (simp add: handle_mospf_packet_def Let_def mospf_sizes MOSPF_TYPE_LSU_def MOSPF_TYPE_HELLO_def)
  moreover have "mo_db t' = with_announcement s (mo_db t)" using same_routes_mospf[OF t'(2)] by simp
  moreover have "db_entry_of s \<in> set (with_announcement s (mo_db t))"
    using update_db_in[of "db_entry_of s" "mo_db t"] by (auto simp: with_announcement_def db_entry_of_def)
  moreover have "net_rtable t' = mo_kernel ?u @ learned" using t'(2) by (simp add: same_routes_def)
  ultimately show ?thesis using l by auto
qed

section \<open>An example\<close>

text \<open>A router on 10.0.1.0 with a neighbour at 10.0.1.9, and that neighbour, which is on 10.0.3.0 as well.\<close>

definition example_mospf :: "u32 \<Rightarrow> ip_iface list \<Rightarrow> (ip_iface \<Rightarrow> mospf_nbr list) \<Rightarrow> mospf_net" where
  "example_mospf rid ifaces nbrs = net.extend (example_net\<lparr>net_ifaces := ifaces\<rparr>)
     \<lparr>mo_area_id = 0, mo_router_id = rid, mo_sequence_num = 1, mo_lsuint = 0, mo_nbrs = nbrs, mo_num_nbr = (\<lambda>i. int (length (nbrs i))), mo_db = [],
      mo_kernel = map (\<lambda>i. new_rt_entry (if_ip i AND if_mask i) (if_mask i) 0 i) ifaces\<rparr>"

definition example_here :: mospf_net where
  "example_here = example_mospf 0x0A000102 [example_iface 1 0x0A000102]
     (\<lambda>i. if i = example_iface 1 0x0A000102 then [\<lparr>nbr_id = 0x0A000109, nbr_ip = 0x0A000109, nbr_mask = 0xFFFFFF00, nbr_alive = 0\<rparr>] else [])"

definition example_there :: mospf_net where
  "example_there = example_mospf 0x0A000109 [example_iface 1 0x0A000109, example_iface 2 0x0A000301]
     (\<lambda>i. if i = example_iface 1 0x0A000109 then [\<lparr>nbr_id = 0x0A000102, nbr_ip = 0x0A000102, nbr_mask = 0xFFFFFF00, nbr_alive = 0\<rparr>] else [])"

lemma example_mospf_simps [simp]:
  "mo_router_id (example_mospf rid ifs nbrs) = rid" "mo_area_id (example_mospf rid ifs nbrs) = 0" "mo_db (example_mospf rid ifs nbrs) = []"
  "mo_nbrs (example_mospf rid ifs nbrs) = nbrs" "mo_num_nbr (example_mospf rid ifs nbrs) = (\<lambda>i. int (length (nbrs i)))"
  "net_ifaces (example_mospf rid ifs nbrs) = ifs" "mo_sequence_num (example_mospf rid ifs nbrs) = 1"
  "mo_kernel (example_mospf rid ifs nbrs) = map (\<lambda>i. new_rt_entry (if_ip i AND if_mask i) (if_mask i) 0 i) ifs"
  by (simp_all add: example_mospf_def net.defs example_net_def)

lemma example_own_lsas: "own_lsas example_there = [\<lparr>lsa_network = 0x0A000100, lsa_mask = 0xFFFFFF00, lsa_rid = 0x0A000102\<rparr>,
    \<lparr>lsa_network = 0x0A000300, lsa_mask = 0xFFFFFF00, lsa_rid = 0\<rparr>]"
  by (simp add: own_lsas_def example_there_def iface_lsas_def) (simp add: example_iface_def)

definition example_informed :: mospf_net where
  "example_informed = example_here\<lparr>mo_db := [db_entry_of example_there]\<rparr>"

lemma example_ready: "spf_ready example_informed"
proof -
  have k: "kernel_nets example_informed = {0x0A000100}"
    by (simp add: kernel_nets_def example_informed_def example_here_def new_rt_entry_def example_iface_def)
  have "n = 0x0A000100" if "kernel_entry example_informed n e" for n e
    using that k by (auto simp: kernel_entry_def kernel_nets_def)
  moreover have "neighbour_on example_informed 0x0A000100 0x0A000109 (example_iface 1 0x0A000102)"
    by (simp add: neighbour_on_def example_informed_def example_here_def)
  ultimately have "\<forall>n e. kernel_entry example_informed n e \<longrightarrow> (\<exists>gw i. neighbour_on example_informed n gw i)" by blast
  moreover have "\<forall>e \<in> set (mo_db example_informed). \<forall>a \<in> set (db_array e). lsa_network a AND lsa_mask a = lsa_network a"
    "\<forall>i \<in> set (net_ifaces example_informed). \<forall>nbr \<in> set (mo_nbrs example_informed i). nbr_ip nbr \<noteq> 0"
    by (simp_all add: example_informed_def example_here_def db_entry_of_def example_own_lsas)
  ultimately show ?thesis unfolding spf_ready_def by blast
qed

theorem update_rtable_shortest_paths_witness:
  "\<exists>learned r. update_rtable example_informed = Inr (example_informed\<lparr>net_rtable := mo_kernel example_informed @ learned\<rparr>) \<and>
    r \<in> set learned \<and> rt_dest r = 0x0A000300 \<and> rt_gw r = 0x0A000109 \<and> rt_iface r = example_iface 1 0x0A000102"
proof -
  have l: "links (mo_db example_informed) 0x0A000100 0x0A000300"
    by (simp add: links_def example_informed_def) (simp add: entry_lsas_def db_entry_of_def example_own_lsas)
  have k: "kernel_nets example_informed = {0x0A000100}"
    by (simp add: kernel_nets_def example_informed_def example_here_def new_rt_entry_def example_iface_def)
  then have "net_path example_informed [0x0A000100, 0x0A000300]" using l by (simp add: net_path_def)
  moreover have "0x0A000300 = last [0x0A000100, 0x0A000300 :: u32]" by simp
  ultimately have "0x0A000300 \<in> last ` {p. net_path example_informed p}" by (rule_tac image_eqI) (assumption | simp)+
  moreover have "0x0A000300 \<notin> kernel_nets example_informed" by (simp add: k)
  moreover obtain learned where u: "update_rtable example_informed = Inr (example_informed\<lparr>net_rtable := mo_kernel example_informed @ learned\<rparr>)"
    "rt_dest ` set learned = last ` {p. net_path example_informed p} - kernel_nets example_informed"
    "\<forall>r \<in> set learned. \<exists>p. shortest_path example_informed p \<and> last p = rt_dest r \<and> kernel_hop example_informed (hd p) (rt_gw r) (rt_iface r)"
    using update_rtable_shortest_paths[OF example_ready] by blast
  ultimately have "0x0A000300 \<in> rt_dest ` set learned" by simp
  then obtain r where r: "r \<in> set learned" "rt_dest r = 0x0A000300" by (elim imageE) simp
  with u(3) obtain p where "net_path example_informed p" "kernel_hop example_informed (hd p) (rt_gw r) (rt_iface r)"
    by (auto simp: shortest_path_def)
  then have "kernel_hop example_informed 0x0A000100 (rt_gw r) (rt_iface r)" by (auto simp: net_path_def k)
  moreover have "rt_gw e = 0" if "kernel_entry example_informed n e" for n e
  proof -
    have "e \<in> set (mo_kernel example_informed)" using that by (auto simp: kernel_entry_def)
    then show ?thesis by (auto simp: example_informed_def example_here_def new_rt_entry_def)
  qed
  ultimately have "neighbour_on example_informed 0x0A000100 (rt_gw r) (rt_iface r)"
    unfolding kernel_hop_def by metis
  then have "rt_gw r = 0x0A000109 \<and> rt_iface r = example_iface 1 0x0A000102"
    by (auto simp: neighbour_on_def example_informed_def example_here_def)
  with u(1) r show ?thesis by (intro exI[of _ learned] exI[of _ r]) simp
qed

text \<open>
  With two neighbours on a network the first one is the gateway for everything behind it, not the one the path goes through:
  here 10.0.1.9 announces 10.0.3.0, and the entry for it sends to 10.0.1.7.
\<close>

definition example_between :: mospf_net where
  "example_between = example_informed\<lparr>mo_nbrs := (\<lambda>i. if i = example_iface 1 0x0A000102
     then [\<lparr>nbr_id = 0x0A000107, nbr_ip = 0x0A000107, nbr_mask = 0xFFFFFF00, nbr_alive = 0\<rparr>,
       \<lparr>nbr_id = 0x0A000109, nbr_ip = 0x0A000109, nbr_mask = 0xFFFFFF00, nbr_alive = 0\<rparr>] else [])\<rparr>"

lemma gateway_not_on_path:
  "update_rtable example_between = Inr (example_between\<lparr>net_rtable := mo_kernel example_between @
     [new_rt_entry 0x0A000300 0xFFFFFF00 0x0A000107 (example_iface 1 0x0A000102)]\<rparr>)"
proof -
  let ?l = "([], [\<lparr>nn_id = 0x0A000100, nn_dist = 0\<rparr>])"
  have k: "mo_kernel example_between = [new_rt_entry 0x0A000100 0xFFFFFF00 0 (example_iface 1 0x0A000102)]"
    by (simp add: example_between_def example_informed_def example_here_def) (simp add: example_iface_def)
  have db: "mo_db example_between = [db_entry_of example_there]" by (simp add: example_between_def example_informed_def)
  have lsas: "take (nat (db_nadv (db_entry_of example_there))) (db_array (db_entry_of example_there)) = own_lsas example_there"
    by (simp add: db_entry_of_def)
  have nb: "nbr_on_net example_between 0x0A000100 (net_ifaces example_between) = Some (0x0A000107, example_iface 1 0x0A000102)"
    by (simp add: example_between_def example_informed_def example_here_def)
  show ?thesis
    by (simp add: update_rtable_def clear_rtable_empty k db lsas nb example_own_lsas add_net_def advert_index_def add_route_def
        new_rt_entry_def net_added_def add_rt_entry_def Let_def net_before_def)
qed

theorem announcement_gets_through_witness:
  "\<exists>msg pkt t'. lsu_message example_there = Inr msg \<and>
    ip_init_hdr 7 (blit (zeros (34 + length msg)) 34 msg) 0x0A000109 0x0A000102 68 IPPROTO_MOSPF = Inr pkt \<and>
    handle_mospf_packet (example_iface 1 0x0A000102) pkt example_here = Inr t' \<and> mo_db t' = [db_entry_of example_there]"
proof -
  have n: "lsu_nadv example_there = 2" by (simp add: lsu_nadv_def example_there_def example_iface_def)
  have ul: "unat (of_nat 40 :: u16) = 40" by simp
  have "\<exists>msg. lsu_message example_there = Inr msg"
    by (simp add: lsu_message_def n own_lsas_def[symmetric] example_own_lsas Let_def mospf_sizes mospf_set_checksum_def mospf_checksum_def
        mo_len_def mospf_init_hdr_def mospf_init_lsu_def bytes_simps)
  then obtain msg where m: "lsu_message example_there = Inr msg" ..
  have "has_ip_hdr (blit (zeros (34 + length msg)) 34 msg)" by (simp add: has_ip_hdr_def ip_consts)
  from ip_init_hdr_ok[OF this] obtain pkt where p: "ip_init_hdr 7 (blit (zeros (34 + length msg)) 34 msg) 0x0A000109 0x0A000102 68 IPPROTO_MOSPF = Inr pkt" by blast
  have w: "with_announcement example_there (mo_db example_here) = [db_entry_of example_there]"
    by (simp add: with_announcement_def example_here_def)
  have r: "spf_ready (example_here\<lparr>mo_db := with_announcement example_there (mo_db example_here)\<rparr>)"
    using example_ready by (simp add: w example_informed_def)
  have "length (own_lsas example_there) \<le> 5000" "mo_router_id example_here \<noteq> mo_router_id example_there" "mo_area_id example_here = mo_area_id example_there"
    "\<forall>e \<in> set (mo_db example_here). db_rid e = mo_router_id example_there \<longrightarrow> db_seq e < mo_sequence_num example_there"
    by (simp_all add: example_own_lsas) (simp_all add: example_here_def example_there_def)
  from announcement_gets_through[OF m this(1) p this(2-4) r] m p w show ?thesis by auto
qed

section \<open>The neighbour counters\<close>

datatype mospf_event = MospfFrame ip_iface bytes | SendHello | SendLsu | CheckNbrs | CheckDatabase | MospfArpSweep int

fun mospf_step :: "mospf_event \<Rightarrow> 'b mospf_net_scheme \<Rightarrow> 'b mospf_net_scheme res" where
  "mospf_step (MospfFrame iface p) s = mospf_handle_packet iface p s"
| "mospf_step SendHello s = sending_mospf_hello s"
| "mospf_step SendLsu s = sending_mospf_lsu s"
| "mospf_step CheckNbrs s = Inr (checking_nbr s)"
| "mospf_step CheckDatabase s = checking_database s"
| "mospf_step (MospfArpSweep now) s = arpcache_sweep (s\<lparr>net_clock := now\<rparr>)"

definition mospf_wf :: "'b mospf_net_scheme \<Rightarrow> bool" where
  "mospf_wf s \<longleftrightarrow> (\<forall>i. mo_num_nbr s i = int (length (mo_nbrs s i)) \<and> distinct (map nbr_id (mo_nbrs s i)) \<and>
     (\<forall>nbr \<in> set (mo_nbrs s i). \<not> nbr_silent nbr))"

definition same_daemon :: "'b mospf_net_scheme \<Rightarrow> 'b mospf_net_scheme \<Rightarrow> bool" where
  "same_daemon s s' \<longleftrightarrow> mo_nbrs s' = mo_nbrs s \<and> mo_num_nbr s' = mo_num_nbr s"

lemma more_daemon: "net.more s' = net.more (s :: 'b mospf_net_scheme) \<Longrightarrow> same_daemon s s'"
  by (cases s; cases s') (simp add: same_daemon_def)

lemma same_daemon_wf: "same_daemon s s' \<Longrightarrow> mospf_wf s \<Longrightarrow> mospf_wf s'"
  by (simp add: same_daemon_def mospf_wf_def)

lemma same_daemon_simps [simp]: "same_daemon s (s\<lparr>mo_lsuint := a\<rparr>)" "same_daemon s (s\<lparr>mo_sequence_num := b\<rparr>)" "same_daemon s (s\<lparr>mo_db := c\<rparr>)"
  "same_daemon s s" "same_daemon s (s\<lparr>net_rtable := e\<rparr>)" "same_daemon s (s\<lparr>net_clock := f\<rparr>)"
  by (simp_all add: same_daemon_def)

lemma same_daemon_trans: "same_daemon s t \<Longrightarrow> same_daemon t u \<Longrightarrow> same_daemon s u"
  by (simp add: same_daemon_def)

lemma send_to_nbrs_daemon: "send_to_nbrs msg is' s = Inr s' \<Longrightarrow> same_daemon s s'"
  using send_to_nbrs_same[of msg is' s] more_daemon[of s' s] by (auto simp: same_routes_def)

lemma update_rtable_daemon: "update_rtable s = Inr s' \<Longrightarrow> same_daemon s s'"
  by (auto simp: update_rtable_def Let_def bind_res_Inr_conv)

lemma send_hello_daemon: "send_mospf_hello i s = Inr s' \<Longrightarrow> same_daemon s s'"
  by (rule more_daemon) (auto simp: send_mospf_hello_def Let_def bind_res_Inr_conv net_random_def net_iface_send_packet_def)

lemma by_arp_keeps: "iface_send_packet_by_arp i a p s = Inr s' \<Longrightarrow> net.more s' = net.more s"
  by (auto simp: iface_send_packet_by_arp_def Let_def arpcache_append_packet_def arp_more split: if_splits option.splits)

lemma mospf_forward_daemon: "mospf_forward p s = Inr s' \<Longrightarrow> same_daemon s s'"
  by (rule more_daemon)
    (auto simp: mospf_forward_def Let_def bind_res_Inr_conv dest: icmp_send_more by_arp_keeps split: if_splits option.splits)

lemma handle_lsu_daemon: "handle_mospf_lsu i p s = Inr s' \<Longrightarrow> same_daemon s s'"
proof -
  assume h: "handle_mospf_lsu i p s = Inr s'"
  let ?off = "IP_DATA p"
  obtain t where t: "(if ntohl (mo_rid p ?off) \<noteq> mo_router_id s
        then bind_res (store_lsu p ?off (mo_db s)) (\<lambda>(changed, db).
          if changed then update_rtable (s\<lparr>mo_db := db\<rparr>) else Inr (s\<lparr>mo_db := db\<rparr>))
        else Inr s) = Inr t" "same_daemon t s'"
    using h by (auto simp: handle_mospf_lsu_def Let_def bind_res_Inr_conv dest!: send_to_nbrs_daemon split: if_splits)
  have "same_daemon s t"
    using t(1) by (auto simp: bind_res_Inr_conv split: if_splits dest!: update_rtable_daemon intro: same_daemon_trans[of s "s\<lparr>mo_db := d\<rparr>" for d])
  with t(2) same_daemon_trans show ?thesis by blast
qed

lemma map_update_nbr: "map nbr_id (update_nbr h ns) = map nbr_id ns"
  by (induction ns) auto

lemma set_update_nbr: "x \<in> set (update_nbr h ns) \<Longrightarrow> x = h \<or> x \<in> set ns"
  by (induction ns) (auto split: if_splits)

lemma length_update_nbr [simp]: "length (update_nbr h ns) = length ns"
  by (induction ns) auto

lemma handle_hello_wf:
  assumes h: "handle_mospf_hello i p s = Inr s'" and wf: "mospf_wf s"
  shows "mospf_wf s'"
proof -
  define heard where "heard = \<lparr>nbr_id = ntohl (mo_rid p (IP_DATA p)), nbr_ip = ntohl (iph_saddr p),
    nbr_mask = ntohl (ld32 p (IP_DATA p + MOSPF_HDR_SIZE)), nbr_alive = 0\<rparr>"
  have id: "nbr_id heard = ntohl (mo_rid p (IP_DATA p))" and ns: "\<not> nbr_silent heard"
    by (simp_all add: heard_def nbr_silent_def MOSPF_DEFAULT_HELLOINT_def)
  show ?thesis
  proof (cases "\<exists>nbr \<in> set (mo_nbrs s i). nbr_id nbr = nbr_id heard")
    case True
    with h have "s' = s\<lparr>mo_nbrs := (mo_nbrs s)(i := update_nbr heard (mo_nbrs s i))\<rparr>"
      by (auto simp: handle_mospf_hello_def Let_def id heard_def[symmetric] split: if_splits)
    with wf ns show ?thesis by (auto simp: mospf_wf_def map_update_nbr dest!: set_update_nbr)
  next
    case False
    with h have "s' = s\<lparr>mo_nbrs := (mo_nbrs s)(i := mo_nbrs s i @ [heard]),
                 mo_num_nbr := (mo_num_nbr s)(i := mo_num_nbr s i + 1), mo_lsuint := mo_lsuint s + MOSPF_DEFAULT_LSUINT\<rparr>"
      by (auto simp: handle_mospf_hello_def Let_def id heard_def[symmetric] split: if_splits)
    with wf ns False show ?thesis by (auto simp: mospf_wf_def)
  qed
qed

lemma check_nbrs_wf: "mospf_wf s \<Longrightarrow> mospf_wf (check_nbrs i s)"
proof -
  assume wf: "mospf_wf s"
  let ?ns = "map age_nbr (mo_nbrs s i)"
  have e: "map nbr_id ?ns = map nbr_id (mo_nbrs s i)" by (simp add: age_nbr_def)
  have "distinct (map nbr_id ?ns)" unfolding e using wf by (simp add: mospf_wf_def)
  then have "distinct (map nbr_id (filter (\<lambda>n. \<not> nbr_silent n) ?ns))" by (rule distinct_map_filter)
  moreover have "length ?ns = length (filter nbr_silent ?ns) + length (filter (\<lambda>n. \<not> nbr_silent n) ?ns)"
    by (simp only: sum_length_filter_compl)
  ultimately show ?thesis using wf by (auto simp: mospf_wf_def check_nbrs_def Let_def)
qed

lemma mospf_handle_wf: "mospf_handle_packet i p s = Inr s' \<Longrightarrow> mospf_wf s \<Longrightarrow> mospf_wf s'"
  by (auto simp: mospf_handle_packet_def mospf_handle_ip_packet_def handle_mospf_packet_def Let_def bind_res_Inr_conv split: if_splits
      dest: handle_hello_wf same_daemon_wf[OF handle_lsu_daemon] same_daemon_wf[OF mospf_forward_daemon]
        same_daemon_wf[OF more_daemon[OF icmp_send_more]] same_daemon_wf[OF more_daemon[OF handle_arp_more]])

lemma mospf_step_wf: "mospf_step e s = Inr s' \<Longrightarrow> mospf_wf s \<Longrightarrow> mospf_wf s'"
proof (induction e s rule: mospf_step.induct)
  case (2 s)
  then show ?case unfolding mospf_step.simps sending_mospf_hello_def
    by (rule fold_res_invariant[where P = mospf_wf]) (metis send_hello_daemon same_daemon_wf)
next
  case (3 s)
  then show ?case
    by (auto simp: sending_mospf_lsu_def Let_def bind_res_Inr_conv mospf_wf_def same_daemon_def dest!: send_to_nbrs_daemon split: if_splits)
next
  case (4 s)
  have "mospf_wf (fold check_nbrs is' s)" for is' using 4(2)
    by (induction is' arbitrary: s) (simp_all add: check_nbrs_wf)
  with 4 show ?case by (auto simp: checking_nbr_def)
next
  case (5 s)
  then show ?case
    by (auto simp: checking_database_def Let_def mospf_wf_def same_daemon_def dest!: update_rtable_daemon split: if_splits)
next
  case (6 now s)
  then show ?case using more_daemon[OF arpcache_sweep_more, of "s\<lparr>net_clock := now\<rparr>" s'] by (auto simp: same_daemon_def mospf_wf_def)
qed (auto dest: mospf_handle_wf)

lemma mospf_init_wf: "mospf_init s = Inr s' \<Longrightarrow> \<forall>i. i \<notin> set (net_ifaces s) \<longrightarrow> mo_nbrs s i = [] \<and> mo_num_nbr s i = 0 \<Longrightarrow> mospf_wf s'"
  by (auto simp: mospf_init_def mospf_wf_def split: list.splits if_splits)

lemma length_iface_lsas: "mospf_wf s \<Longrightarrow> int (length (iface_lsas s i)) = (if mo_num_nbr s i \<noteq> 0 then mo_num_nbr s i else 1)"
  by (auto simp: iface_lsas_def mospf_wf_def)

lemma lsu_nadv_length: "mospf_wf s \<Longrightarrow> lsu_nadv s = int (length (own_lsas s))"
proof -
  assume "mospf_wf s"
  then have "(\<Sum>i \<leftarrow> is'. if mo_num_nbr s i \<noteq> 0 then mo_num_nbr s i else 1) = int (length (concat (map (iface_lsas s) is')))" for is'
    by (induction is') (simp_all add: length_iface_lsas)
  then show ?thesis by (simp add: lsu_nadv_def own_lsas_def)
qed



end
