(* ===== verification/Lab_Mains.thy ===== *)
theory Lab_Mains
  imports Router_Start Ether_Switch Stp_Network Nat_Translate Mospf_Flooding Tcp_Apps
begin

text \<open>
  The programs of the other labs, from the start of \<open>main\<close> into the receive loop: hub and switch (lab 3), spanning tree
  (lab 4), link state routing (lab 7), address translation (lab 8) and the TCP host (labs 10 and 12), with the
  threads each of them starts beside it.  Each
  start establishes the invariant the theory of its component keeps.
\<close>

section \<open>Switches\<close>

definition hub_main :: "nat \<Rightarrow> nat \<Rightarrow> kernel \<Rightarrow> poll_event list \<Rightarrow> switch res" where
  "hub_main uid euid kn ps =
    (if uid \<noteq> 0 \<and> euid \<noteq> 0 then Inl Exited
     else bind_res (init_eth_ustack kn) (\<lambda>u.
       hub_ustack_run (us_ifaces u) ps \<lparr>sw_ifaces = us_ifaces u, sw_table = (\<lambda>_. []), sw_sent = []\<rparr>))"

text \<open>
  \<open>init_mac_port_table\<close> starts the sweeping thread and \<open>stp_init\<close> the one of the timers: \<open>rounds\<close> says which of their rounds come
  when (Ether\_Switch, Device).
\<close>

definition switch_main :: "nat \<Rightarrow> nat \<Rightarrow> kernel \<Rightarrow> poll_event list \<Rightarrow> unit list list \<Rightarrow> switch res" where
  "switch_main uid euid kn ps rounds =
    (if uid \<noteq> 0 \<and> euid \<noteq> 0 then Inl Exited
     else bind_res (init_eth_ustack kn) (\<lambda>u.
       switch_ustack_run (us_ifaces u) ps rounds \<lparr>sw_ifaces = us_ifaces u, sw_table = init_mac_port_table, sw_sent = []\<rparr>))"

definition stp_round :: "int \<times> int \<Rightarrow> stp \<Rightarrow> stp res" where
  "stp_round = (\<lambda>(now, later) s. Inr (stp_timer_routine now later s))"

definition stp_main :: "nat \<Rightarrow> nat \<Rightarrow> kernel \<Rightarrow> int \<Rightarrow> poll_event list \<Rightarrow> (int \<times> int) list list \<Rightarrow> stp res" where
  "stp_main uid euid kn now ps rounds =
    (if uid \<noteq> 0 \<and> euid \<noteq> 0 then Inl Exited
     else bind_res (init_eth_ustack kn) (\<lambda>u.
       bind_res (stp_init (us_ifaces u) now) (\<lambda>s.
       bind_res (ustack_run (beside stp_round stp_handle_packet) (us_ifaces u) ps (rounds, s)) (threads_go_on stp_round))))"

section \<open>Routers\<close>

text \<open>
  Labs 7 and 8 begin like the router of lab 6, and have the rounds of their own threads beside the loop.  \<open>main\<close> of lab 8
  ends when \<open>poll\<close> fails.
\<close>

definition mospf_round :: "mospf_event \<Rightarrow> 'b mospf_net_scheme \<Rightarrow> 'b mospf_net_scheme res" where
  "mospf_round e s = (case e of MospfFrame iface p \<Rightarrow> Inr s | _ \<Rightarrow> mospf_step e s)"

definition nat_round :: "nat_event \<Rightarrow> 'b nat_net_scheme \<Rightarrow> 'b nat_net_scheme res" where
  "nat_round e s = (case e of NatFrame iface p \<Rightarrow> Inr s | _ \<Rightarrow> nat_step e s)"

definition mospf_start ::
    "nat \<Rightarrow> nat \<Rightarrow> kernel \<Rightarrow> (u32 \<Rightarrow> string option) \<Rightarrow> bool \<Rightarrow> nl_recv list \<Rightarrow> 'a mospf_net_scheme \<Rightarrow> (ip_iface ustack \<times> 'a mospf_net_scheme) res" where
  "mospf_start uid euid kn if_index_to_name sent rs s =
    bind_res (router_start uid euid kn if_index_to_name sent rs s) (\<lambda>(u, s).
      bind_res (mospf_init s) (\<lambda>s. Inr (u, s)))"

definition mospf_main ::
    "nat \<Rightarrow> nat \<Rightarrow> kernel \<Rightarrow> (u32 \<Rightarrow> string option) \<Rightarrow> bool \<Rightarrow> nl_recv list \<Rightarrow> poll_event list \<Rightarrow> mospf_event list list \<Rightarrow>
     'a mospf_net_scheme \<Rightarrow> 'a mospf_net_scheme res" where
  "mospf_main uid euid kn if_index_to_name sent rs ps rounds s =
    bind_res (mospf_start uid euid kn if_index_to_name sent rs s) (\<lambda>(u, s).
    bind_res (ustack_run_unchecked (beside mospf_round mospf_handle_packet) (us_ifaces u) ps (rounds, s)) (threads_go_on mospf_round))"

definition nat_start ::
    "nat \<Rightarrow> nat \<Rightarrow> nat \<Rightarrow> bytes option \<Rightarrow> kernel \<Rightarrow> (u32 \<Rightarrow> string option) \<Rightarrow> bool \<Rightarrow> nl_recv list \<Rightarrow>
     'a nat_net_scheme \<Rightarrow> (ip_iface ustack \<times> 'a nat_net_scheme) res" where
  "nat_start uid euid argc config kn if_index_to_name sent rs s =
    (if uid \<noteq> 0 \<and> euid \<noteq> 0 then Inl Exited
     else if argc < 2 then Inl Exited
     else bind_res (router_start uid euid kn if_index_to_name sent rs s) (\<lambda>(u, s).
       bind_res (nat_init config s) (\<lambda>s. Inr (u, s))))"

definition nat_main ::
    "nat \<Rightarrow> nat \<Rightarrow> nat \<Rightarrow> bytes option \<Rightarrow> kernel \<Rightarrow> (u32 \<Rightarrow> string option) \<Rightarrow> bool \<Rightarrow> nl_recv list \<Rightarrow> poll_event list \<Rightarrow>
     nat_event list list \<Rightarrow> 'a nat_net_scheme \<Rightarrow> 'a nat_net_scheme res" where
  "nat_main uid euid argc config kn if_index_to_name sent rs ps rounds s =
    bind_res (nat_start uid euid argc config kn if_index_to_name sent rs s) (\<lambda>(u, s).
    bind_res (ustack_run_unchecked (beside nat_round nat_handle_packet) (us_ifaces u) (ps @ [PollFailed]) (rounds, s)) (\<lambda>ds.
    bind_res (threads_go_on nat_round ds) nat_exit))"

section \<open>Hosts\<close>

text \<open>\<open>atoi\<close> up to the range of \<open>int\<close>: blanks, a sign, digits.\<close>

fun atoi_digits :: "int \<Rightarrow> string \<Rightarrow> int" where
  "atoi_digits n [] = n"
| "atoi_digits n (c # cs) =
    (let d = int (of_char c) in if 48 \<le> d \<and> d \<le> 57 then atoi_digits (10 * n + (d - 48)) cs else n)"

fun atoi :: "string \<Rightarrow> int" where
  "atoi [] = 0"
| "atoi (c # cs) =
    (if c \<in> {CHR '' '', CHR 0x09, CHR 0x0A, CHR 0x0B, CHR 0x0C, CHR 0x0D} then atoi cs
     else if c = CHR ''-'' then - atoi_digits 0 cs
     else if c = CHR ''+'' then atoi_digits 0 cs
     else atoi_digits 0 (c # cs))"

text \<open>The thread that is created, with what its argument points to.  \<open>inet_addr\<close> is a parameter.\<close>

datatype app_thread = ServerThread u16 | ClientThread u32 u16

definition run_application :: "(string \<Rightarrow> u32) \<Rightarrow> string list \<Rightarrow> app_thread res" where
  "run_application inet_addr args = (case args of
      [] \<Rightarrow> Inl OutOfBounds
    | cmd # _ \<Rightarrow>
       if cmd = ''server'' then
         (if length args \<noteq> 2 then Inl Exited else Inr (ServerThread (htons (of_int (atoi (args ! 1))))))
       else if cmd = ''client'' then
         (if length args \<noteq> 3 then Inl Exited
          else Inr (ClientThread (inet_addr (args ! 1)) (htons (of_int (atoi (args ! 2))))))
       else Inl Exited)"

text \<open>
  \<open>port\<close> and \<open>skaddr\<close> are variables of \<open>run_application\<close>, and the thread gets their address: when the function has
  returned before the thread reads them, it reads a dead frame.
\<close>

definition thread_argument :: "bool \<Rightarrow> app_thread \<Rightarrow> app_thread res" where
  "thread_argument returned app = (if returned then Inl UseAfterFree else Inr app)"

definition app_begin :: "bytes option \<Rightarrow> app_thread \<Rightarrow> 'a tcp_net_scheme \<Rightarrow> ((server_at + client_at) \<times> 'a tcp_net_scheme) res" where
  "app_begin data app s = (case app of
      ServerThread port \<Rightarrow> bind_res (tcp_server_start port s) (\<lambda>(st, s). Inr (Inl st, s))
    | ClientThread ip port \<Rightarrow> bind_res (tcp_client_start data ip port s) (\<lambda>(st, s). Inr (Inr st, s)))"

text \<open>\<open>main\<close> up to the receive loop.  \<open>args\<close> are those behind the name of the program.\<close>

definition host_start ::
    "nat \<Rightarrow> nat \<Rightarrow> (string \<Rightarrow> u32) \<Rightarrow> string list \<Rightarrow> kernel \<Rightarrow> (u32 \<Rightarrow> string option) \<Rightarrow> bool \<Rightarrow> nl_recv list \<Rightarrow>
     'a tcp_net_scheme \<Rightarrow> (ip_iface ustack \<times> app_thread \<times> 'a tcp_net_scheme) res" where
  "host_start uid euid inet_addr args kn if_index_to_name sent rs s =
    (if uid \<noteq> 0 \<and> euid \<noteq> 0 then Inl Exited
     else if args = [] then Inl Exited
     else bind_res (router_start uid euid kn if_index_to_name sent rs s) (\<lambda>(u, s).
       let s = init_tcp_stack s in bind_res (run_application inet_addr args) (\<lambda>app. Inr (u, app, s))))"

text \<open>
  The thread begins before the first frame; it has its argument if \<open>run_application\<close> has not returned.  Then the receive
  loop, with the rounds of the ARP sweep and of the TCP timers beside it and the application going on from where it sleeps.
  \<open>data\<close> is the client's file, \<open>writable\<close> whether the server can open its own.
\<close>

datatype host_thread = HostArp int | HostTimers | HostApplication

fun host_round :: "bytes option \<Rightarrow> bool \<Rightarrow> host_thread \<Rightarrow> (server_at + client_at) \<times> 'a tcp_net_scheme \<Rightarrow>
    ((server_at + client_at) \<times> 'a tcp_net_scheme) res" where
  "host_round data writable (HostArp now) (st, s) = bind_res (arp_round now s) (\<lambda>s. Inr (st, s))"
| "host_round data writable HostTimers (st, s) = bind_res (tcp_scan_timer_list s) (\<lambda>s. Inr (st, s))"
| "host_round data writable HostApplication (Inl st, s) = bind_res (tcp_server writable (st, s)) (\<lambda>(st, s). Inr (Inl st, s))"
| "host_round data writable HostApplication (Inr st, s) = bind_res (tcp_client data (st, s)) (\<lambda>(st, s). Inr (Inr st, s))"

definition host_frame :: "ip_iface \<Rightarrow> bytes \<Rightarrow> (server_at + client_at) \<times> 'a tcp_net_scheme \<Rightarrow>
    ((server_at + client_at) \<times> 'a tcp_net_scheme) res" where
  "host_frame iface packet = (\<lambda>(st, s). bind_res (host_handle_packet iface packet s) (\<lambda>s. Inr (st, s)))"

definition host_main ::
    "nat \<Rightarrow> nat \<Rightarrow> (string \<Rightarrow> u32) \<Rightarrow> string list \<Rightarrow> kernel \<Rightarrow> (u32 \<Rightarrow> string option) \<Rightarrow> bool \<Rightarrow> nl_recv list \<Rightarrow>
     bytes option \<Rightarrow> bool \<Rightarrow> poll_event list \<Rightarrow> host_thread list list \<Rightarrow> bool \<Rightarrow> 'a tcp_net_scheme \<Rightarrow>
     ((server_at + client_at) \<times> 'a tcp_net_scheme) res" where
  "host_main uid euid inet_addr args kn if_index_to_name sent rs data writable ps rounds returned s =
    bind_res (host_start uid euid inet_addr args kn if_index_to_name sent rs s) (\<lambda>(u, app, s).
    bind_res (thread_argument returned app) (\<lambda>app.
    bind_res (app_begin data app s) (\<lambda>(st, s).
    bind_res (ustack_run_unchecked (beside (host_round data writable) host_frame) (us_ifaces u) ps (rounds, (st, s)))
      (threads_go_on (host_round data writable)))))"

section \<open>The start establishes the invariants\<close>

lemma router_start_net:
  assumes "router_start uid euid kn ifn sent rs s = Inr (u, t)"
  shows "net_ifaces t = us_ifaces u" "net.more t = net.more s"
  using assms by (auto simp: router_start_def bind_res_Inr_conv Let_def arpcache_init_def split: if_splits)

lemma mospf_start_wf:
  assumes "mospf_start uid euid kn ifn sent rs s = Inr (u, t)" "\<And>i. mo_nbrs s i = [] \<and> mo_num_nbr s i = 0"
  shows "mospf_wf t"
proof -
  from assms(1) obtain v where v: "router_start uid euid kn ifn sent rs s = Inr (u, v)" "mospf_init v = Inr t"
    by (auto simp: mospf_start_def bind_res_Inr_conv)
  have "mo_nbrs v i = mo_nbrs s i \<and> mo_num_nbr v i = mo_num_nbr s i" for i
    using v(1) by (auto simp: router_start_def bind_res_Inr_conv Let_def arpcache_init_def split: if_splits)
  with assms(2) show ?thesis by (intro mospf_init_wf[OF v(2)]) simp
qed

lemma nat_start_wf:
  assumes "nat_start uid euid argc config kn ifn sent rs s = Inr (u, t)" "\<forall>r \<in> set (nt_rules t). \<not> pool_port (dr_external_port r)"
  shows "nat_wf t" "\<not> nt_locked t"
  using assms nat_init_wf[where s' = t] by (auto simp: nat_start_def bind_res_Inr_conv split: if_splits)

lemma host_start_wf:
  assumes "host_start uid euid inet_addr args kn ifn sent rs s = Inr (u, app, t)" "\<And>k. socks s k = None"
  shows "tcp_wf t"
proof -
  from assms(1) obtain v where v: "router_start uid euid kn ifn sent rs s = Inr (u, v)" "t = init_tcp_stack v"
    by (auto simp: host_start_def bind_res_Inr_conv Let_def split: if_splits)
  have "socks v = socks s"
    using v(1) by (auto simp: router_start_def bind_res_Inr_conv Let_def arpcache_init_def split: if_splits)
  with assms(2) show ?thesis unfolding v(2) by (intro init_wf) simp
qed


lemma init_eth_names: "init_eth_ustack kn = Inr u \<Longrightarrow> map if_name (us_ifaces u) = eth_names (the (k_ifaddrs kn))"
proof (rule nth_equalityI)
  assume "init_eth_ustack kn = Inr u"
  note u = init_all_ifacesD[OF this[unfolded init_eth_ustack_def]]
  show len: "length (map if_name (us_ifaces u)) = length (eth_names (the (k_ifaddrs kn)))" using u(5) by simp
  fix j assume "j < length (map if_name (us_ifaces u))"
  then have "read_eth_info kn j (eth_names (the (k_ifaddrs kn)) ! j) = Inr (us_ifaces u ! j)" using u(6) by simp
  then have "if_name (us_ifaces u ! j) = eth_names (the (k_ifaddrs kn)) ! j"
    by (auto simp: read_eth_info_def Let_def dest: sym split: option.splits)
  with \<open>j < length (map if_name (us_ifaces u))\<close> show "map if_name (us_ifaces u) ! j = eth_names (the (k_ifaddrs kn)) ! j" by simp
qed

section \<open>Properties\<close>

text \<open>
  C40: the switch from its start.  Whatever \<open>poll\<close> reports to \<open>main\<close> of the learning switch and whenever its sweeping thread has its
  rounds, before a frame or between looking up the destination and learning the source, if it gets as far without a fault, its
  table is well formed (every entry in its hash bucket, no address twice, every counter between 1 and 30), every
  port it has learned is one of the interfaces with \<open>-eth\<close> in their name that it found at the start,
  and it has sent only on those.
\<close>
theorem switch_from_start:
  assumes "switch_main uid euid kn ps rounds = Inr t"
  shows "\<exists>u. init_eth_ustack kn = Inr u \<and> map if_name (us_ifaces u) = eth_names (the (k_ifaddrs kn)) \<and> table_inv (sw_table t) \<and>
    (\<forall>m p. lookup_port (sw_table t) m = Some p \<longrightarrow> p \<in> set (us_ifaces u)) \<and>
    (\<forall>(i, pkt) \<in> set (sw_sent t). i \<in> set (us_ifaces u))"
proof -
  let ?s = "\<lambda>u. \<lparr>sw_ifaces = us_ifaces u, sw_table = init_mac_port_table, sw_sent = []\<rparr>"
  from assms obtain u where u: "init_eth_ustack kn = Inr u" "switch_ustack_run (us_ifaces u) ps rounds (?s u) = Inr t"
    by (auto simp: switch_main_def bind_res_Inr_conv split: if_splits)
  have "lookup_port init_mac_port_table m = None" for m by (simp add: lookup_port_def init_mac_port_table_def)
  then have "ports_inv (us_ifaces u) (?s u)" by (simp add: ports_inv_def table_inv_init)
  from switch_ustack_run_invariant[OF u(2) this] u(1) init_eth_names[OF u(1)] show ?thesis
    by (auto simp: ports_inv_def)
qed

theorem switch_from_start_witness:
  "\<exists>t. switch_main 0 0 example_kernel [PollReady [(3, IncomingFrame (zeros 12 @ [8, 0, 0, 0]))]] [[], [()], [(), ()]] = Inr t \<and>
    table_inv (sw_table t) \<and> ticks_left (sw_table t) (zeros 6) = 28"
proof -
  have empty: "lookup_port init_mac_port_table m = None" for m by (simp add: lookup_port_def init_mac_port_table_def)
  have "\<exists>t. switch_main 0 0 example_kernel [PollReady [(3, IncomingFrame (zeros 12 @ [8, 0, 0, 0]))]] [[], [()], [(), ()]] = Inr t \<and>
      ticks_left (sw_table t) (zeros 6) = 28"
    by (simp add: switch_main_def init_eth_ustack_def init_all_ifaces_def find_available_ifaces_def example_kernel_def eth_names_def
        is_eth_def read_eth_info_def open_device_def query_def IFNAMSIZ_def switch_ustack_run_def fd_to_iface_def
        swept_handle_packet_def catch_up_def threads_go_on_def sweep_round_def ETHER_HDR_SIZE_def Let_def sweeping_table
        learn_source_def ticks_left_insert ticks_left_sweep table_inv_insert table_inv_sweep[folded sweep_def]
        table_inv_init forward_packet_def broadcast_packet_def broadcast_loop_sent empty
        ether_shost_def slice_def ETH_ALEN_def zeros_def MAC_PORT_TIMEOUT_def iface_send_packet_def)
  then show ?thesis using switch_from_start by blast
qed

end
