(* ===== verification/Http_Stack.thy ===== *)
theory Http_Stack
  imports Tcp_Exchange Http_Server Lab_Mains
begin

text \<open>
  Lab 13: the HTTP server as an application of the TCP stack (\<open>tcp_apps.c\<close>, \<open>main.c\<close>).  \<open>tcp_server\<close> gives every connection it accepts a thread of
  its own; the steps of that thread are between the calls in which it may sleep, as in the applications of lab 12.  The request parser and the
  answers are those of theory Http.  The files that \<open>fopen\<close> finds are an argument; \<open>pthread_create\<close> is
  taken to succeed (the program ends when it does not).
\<close>

section \<open>A session\<close>

text \<open>
  Where the thread of a session is: before \<open>tcp_sock_read\<close>, asleep in \<open>tcp_sock_write\<close> with the rest of the answer and what to
  do after it (go on reading; keep the connection), or at its end.
\<close>

datatype http_at = Serving nat | Replying nat bytes bool bool | Ended

definition http_reply :: "nat \<Rightarrow> bytes \<Rightarrow> bool \<Rightarrow> bool \<Rightarrow> 'b tcp_net_scheme \<Rightarrow> (http_at \<times> 'b tcp_net_scheme) res" where
  "http_reply k w more_requests keep_alive s =
    bind_res (tcp_sock_write k w s) (\<lambda>(rest, s).
      if rest \<noteq> [] then Inr (Replying k rest more_requests keep_alive, s)
      else if more_requests \<and> keep_alive then Inr (Serving k, s)
      else bind_res (tcp_sock_close k s) (\<lambda>s. Inr (Ended, s)))"

fun http_thread :: "(bytes \<Rightarrow> bytes option) \<Rightarrow> http_at \<times> 'b tcp_net_scheme \<Rightarrow> (http_at \<times> 'b tcp_net_scheme) res" where
  "http_thread files (Serving k, s) =
    bind_res (tcp_sock_read k 2000 s) (\<lambda>(r, s). case r of
      Blocked \<Rightarrow> Inr (Serving k, s)
    | Returned bytes \<Rightarrow>
        let buf = bytes @ zeros (2000 - length bytes) in
        if hd buf = 0 then bind_res (tcp_sock_close k s) (\<lambda>s. Inr (Ended, s))
        else bind_res (serve files True buf) (\<lambda>(w, more_requests, keep_alive). http_reply k w more_requests keep_alive s))"
| "http_thread files (Replying k w more_requests keep_alive, s) = http_reply k w more_requests keep_alive s"
| "http_thread files (Ended, s) = Inr (Ended, s)"

declare http_thread.simps [simp del]

section \<open>The server\<close>

text \<open>\<open>tcp_server\<close> accepts connections for ever and gives each a thread of its own.\<close>

definition http_accept :: "nat \<Rightarrow> http_at list \<Rightarrow> 'b tcp_net_scheme \<Rightarrow> (http_at list \<times> 'b tcp_net_scheme) res" where
  "http_accept tsk sessions s = bind_res (tcp_sock_accept tsk s) (\<lambda>(r, s). case r of
      Blocked \<Rightarrow> Inr (sessions, s)
    | Returned csk \<Rightarrow> Inr (sessions @ [Serving csk], s))"

datatype http_event = HttpFrame ip_iface bytes | ServerAccepts | SessionRuns nat | HttpArp int | HttpTimers

fun http_step :: "(bytes \<Rightarrow> bytes option) \<Rightarrow> nat \<Rightarrow> http_event \<Rightarrow> http_at list \<times> 'b tcp_net_scheme \<Rightarrow>
    (http_at list \<times> 'b tcp_net_scheme) res" where
  "http_step files tsk (HttpFrame iface f) (ss, s) = bind_res (host_handle_packet iface f s) (\<lambda>s. Inr (ss, s))"
| "http_step files tsk ServerAccepts (ss, s) = http_accept tsk ss s"
| "http_step files tsk (HttpArp now) (ss, s) = bind_res (arp_round now s) (\<lambda>s. Inr (ss, s))"
| "http_step files tsk HttpTimers (ss, s) = bind_res (tcp_scan_timer_list s) (\<lambda>s. Inr (ss, s))"
| "http_step files tsk (SessionRuns n) (ss, s) =
    (if n < length ss then bind_res (http_thread files (ss ! n, s)) (\<lambda>(st, s). Inr (ss[n := st], s)) else Inr (ss, s))"

text \<open>\<open>main\<close> of lab 13 up to the first \<open>tcp_sock_accept\<close>.\<close>

definition http_server :: "app_thread \<Rightarrow> 'a tcp_net_scheme \<Rightarrow> (nat \<times> 'a tcp_net_scheme) res" where
  "http_server app s = (case app of ServerThread port \<Rightarrow> tcp_server_listen port s | ClientThread ip port \<Rightarrow> Inl Undefined)"

definition http_start ::
    "nat \<Rightarrow> nat \<Rightarrow> kernel \<Rightarrow> (u32 \<Rightarrow> string option) \<Rightarrow> bool \<Rightarrow> nl_recv list \<Rightarrow> bool \<Rightarrow> 'a tcp_net_scheme \<Rightarrow>
     (ip_iface ustack \<times> nat \<times> 'a tcp_net_scheme) res" where
  "http_start uid euid kn if_index_to_name sent rs returned s =
    (if uid \<noteq> 0 \<and> euid \<noteq> 0 then Inl Exited
     else bind_res (router_start uid euid kn if_index_to_name sent rs s) (\<lambda>(u, s).
       bind_res (thread_argument returned (ServerThread (htons 80))) (\<lambda>app.
       bind_res (http_server app (init_tcp_stack s)) (\<lambda>(tsk, s). Inr (u, tsk, s)))))"

text \<open>
  \<open>main\<close>: from there frames arrive, the server accepts, the sessions run, and the threads of the ARP cache and of the timers have
  their rounds, in any order.
\<close>

definition http_main ::
    "nat \<Rightarrow> nat \<Rightarrow> kernel \<Rightarrow> (u32 \<Rightarrow> string option) \<Rightarrow> bool \<Rightarrow> nl_recv list \<Rightarrow> bool \<Rightarrow> (bytes \<Rightarrow> bytes option) \<Rightarrow> http_event list \<Rightarrow>
     'a tcp_net_scheme \<Rightarrow> (http_at list \<times> 'a tcp_net_scheme) res" where
  "http_main uid euid kn if_index_to_name sent rs returned files es s =
    bind_res (http_start uid euid kn if_index_to_name sent rs returned s) (\<lambda>(u, tsk, s). fold_res (http_step files tsk) es ([], s))"

section \<open>A request over the stack\<close>

text \<open>The session reads the request in one piece and writes the answer.\<close>

lemma session_answers:
  fixes s :: "'b tcp_net_scheme"
  assumes t: "socks s k = Some t" "sk_state t = TCP_ESTABLISHED" "rb_inv (sk_rcv_buf t)" "contents (sk_rcv_buf t) = req"
    and req: "req \<noteq> []" "hd req \<noteq> 0" "length req \<le> 2000" "serve files True (req @ zeros (2000 - length req)) = Inr (w, more_requests, keep_alive)"
    and out: "resolved s (sk_dip t) iface mac" "\<not> w_dead (sk_wait_send t)" "wide_open t (length w)"
  shows "\<exists>t1 (s1 :: 'b tcp_net_scheme) s2 segs ps s' fins. wrote iface mac k t1 w s1 segs ps [] s2 \<and>
    sk_sip t1 = sk_sip t \<and> sk_dip t1 = sk_dip t \<and> sk_sport t1 = sk_sport t \<and> sk_dport t1 = sk_dport t \<and> sk_snd_nxt t1 = sk_snd_nxt t \<and>
    http_thread files (Serving k, s) = Inr (if more_requests \<and> keep_alive then Serving k else Ended, s') \<and>
    net_step (map (Pair iface) (map (ip_frame iface mac) ps @ fins)) s s' \<and> length fins = (if more_requests \<and> keep_alive then 0 else 1)"
proof -
  let ?rb = "read_ring_buffer (sk_rcv_buf t) 2000"
  define t1 where "t1 = t\<lparr>sk_rcv_buf := snd ?rb, sk_rcv_wnd := of_nat (ring_buffer_free (snd ?rb)), sk_wait_recv := fst (wake_up (sk_wait_recv t))\<rparr>"
  let ?s1 = "put_sock k t1 s"
  have rb: "fst ?rb = req" using read_ring_buffer_contents(1)[OF t(3), of 2000] t(4) req(3) by simp
  have ne: "\<not> ring_buffer_empty (sk_rcv_buf t)" using t(4) req(1) by (simp add: contents_empty)
  have read: "tcp_sock_read k 2000 s = Inr (Returned req, ?s1)"
    using t(1) ne rb by (auto simp: tcp_sock_read_def with_sock_def t1_def split: prod.split)
  have n1: "net_step [] s ?s1" by simp
  have t1: "socks ?s1 k = Some t1" "resolved ?s1 (sk_dip t1) iface mac" "\<not> w_dead (sk_wait_send t1)" "wide_open t1 (length w)"
    using net_step_resolved[OF n1] out by (simp_all add: t1_def put_sock_def wide_open_def)
  from tcp_sock_write_wrote[OF t1(1-3), of w] t1(4) obtain s2 segs ps where
    2: "tcp_sock_write k w ?s1 = Inr ([], s2)" "wrote iface mac k t1 w ?s1 segs ps [] s2" by (auto simp: wrote_def)
  obtain t2 where t2: "socks s2 k = Some t2" "stream_gone (length (concat segs)) ps t1 t2" "net_step (map (\<lambda>p. (iface, ip_frame iface mac p)) ps) ?s1 s2"
    using 2(2) unfolding wrote_def by blast
  have run: "http_thread files (Serving k, s) = (if more_requests \<and> keep_alive then Inr (Serving k, s2)
      else bind_res (tcp_sock_close k s2) (\<lambda>s. Inr (Ended, s)))"
  proof -
    have h: "hd (req @ zeros (2000 - length req)) \<noteq> 0" using req(1,2) by (simp add: hd_append)
    have "http_thread files (Serving k, s) = http_reply k w more_requests keep_alive ?s1"
      unfolding http_thread.simps(1) read bind_res_simps prod.case call_result.case Let_def if_not_P[OF h] req(4) ..
    then show ?thesis using 2(1) by (simp add: http_reply_def)
  qed
  have f: "sk_sip t1 = sk_sip t" "sk_dip t1 = sk_dip t" "sk_sport t1 = sk_sport t" "sk_dport t1 = sk_dport t" "sk_snd_nxt t1 = sk_snd_nxt t"
    by (simp_all add: t1_def)
  have sent: "net_step (map (Pair iface) (map (ip_frame iface mac) ps)) s s2" using net_step_trans[OF n1 t2(3)] by (simp add: comp_def)
  obtain s' fins where 4: "http_thread files (Serving k, s) = Inr (if more_requests \<and> keep_alive then Serving k else Ended, s')"
    "net_step (map (Pair iface) (map (ip_frame iface mac) ps @ fins)) s s'" "length fins = (if more_requests \<and> keep_alive then 0 else 1)"
  proof (cases "more_requests \<and> keep_alive")
    case True
    with run sent show ?thesis by (intro that[of s2 "[]"]) simp_all
  next
    case False
    have "sk_state t2 = TCP_ESTABLISHED" "resolved s2 (sk_dip t2) iface mac"
      using t2(2) t(2) net_step_resolved[OF t2(3)] t1(2) by (simp_all add: stream_gone_def t1_def)
    from close_sends_fin[OF t2(1) this] obtain s3 p where 3: "tcp_sock_close k s2 = Inr s3" "net_step [(iface, ip_frame iface mac p)] s2 s3" by blast
    have "net_step (map (Pair iface) (map (ip_frame iface mac) ps @ [ip_frame iface mac p])) s s3" using net_step_trans[OF sent 3(2)] by simp
    moreover have "http_thread files (Serving k, s) = Inr (Ended, s3)" using run 3(1) unfolding if_not_P[OF False] by simp
    ultimately show ?thesis unfolding if_not_P[OF False] by (intro that[of s3 "[ip_frame iface mac p]"]) (simp_all add: False)
  qed
  show ?thesis using f 2(2) 4 by blast
qed

section \<open>Properties\<close>

lemma get_request_first: "hd (get_request u v hs close) = 71" "get_request u v hs close \<noteq> []"
  by (simp_all add: get_request_def text_of_def)

lemma response_not_empty: "http_answer v h body \<noteq> []"
  by (simp add: http_answer_def text_of_def)

text \<open>
  C2: a request over the stack of lab 13.  A client has a connection to the server's host, at rest at both ends, with the next
  hops known; its session thread is about to read.  The client writes a request that fits in a segment.  Then its
  frame is accepted at the server and acknowledged; the session thread reads the whole request and answers in frames, and closes the
  connection behind them if the client asked for it; and once the acknowledgement and behind it the frames of the answer, in
  any order and repeated at will, have arrived, the client reads exactly the status line, the headers and the bytes of the file
  it asked for: all of them, or a range that names its last byte (the last header decides).
\<close>
theorem http_over_tcp:
  fixes a b :: "'b tcp_net_scheme"
  assumes texts: "req = get_request u v hs close" "h = request_head True hs close"
    and client: "at_rest ia ma ka ta a" "0 < sk_snd_wnd ta"
    and server: "at_rest ib mb kb tb b" "wide_open tb (length (http_answer v h body))" "n < length sessions" "sessions ! n = Serving kb"
    and ends: "two_ends ta tb"
    and request: "plain_url u" "plain_version v" "\<forall>x \<in> set hs. valid_header x" "length req \<le> TCP_MSS" "length req \<le> capacity (sk_rcv_buf tb)"
    and content: "files (of_char (CHR ''.'') # u) = Some content" "length content < 2000000000" "wanted h content = Some body"
      "\<not> open_range h"
    and size: "length (http_answer v h body) \<le> capacity (sk_rcv_buf ta)" "unat (sk_snd_nxt tb) + length (http_answer v h body) < 4294967296"
  shows "\<exists>a1 b1 b2 f g frames fins. tcp_sock_write ka req a = Inr ([], a1) \<and> net_sent a1 = net_sent a @ [(ia, f)] \<and>
    http_step files tsk (HttpFrame ib f) (sessions, b) = Inr (sessions, b1) \<and> net_sent b1 = net_sent b @ [(ib, g)] \<and>
    http_step files tsk (SessionRuns n) (sessions, b1) = Inr (sessions[n := if hh_keep_alive h then Serving kb else Ended], b2) \<and>
    net_sent b2 = net_sent b1 @ map (Pair ib) (frames @ fins) \<and> length fins = (if hh_keep_alive h then 0 else 1) \<and>
    (\<forall>fs m. set fs = set frames \<longrightarrow> (\<exists>a2 a3. fold_res (host_handle_packet ia) (g # fs) a1 = Inr a2 \<and>
      tcp_sock_read ka m a2 = Inr (Returned (take m (http_answer v h body)), a3)))"
proof -
  have len: "length req + 24 \<le> 2000" using request(4) by (simp add: TCP_MSS_eq)
  have ne: "req \<noteq> []" "hd req \<noteq> 0" "length req \<le> 2000" using get_request_first len by (simp_all add: texts)
  from segment_exchange[OF client server(1) ends ne(1) request(4,5)] obtain a1 b1 a2 f g tb1 ta2 where
    1: "tcp_sock_write ka req a = Inr ([], a1)" "net_step [(ia, f)] a a1" "host_handle_packet ib f b = Inr b1" "net_step [(ib, g)] b b1"
      "socks b1 kb = Some tb1" "contents (sk_rcv_buf tb1) = req" "rb_inv (sk_rcv_buf tb1)" "sk_state tb1 = TCP_ESTABLISHED"
      "sk_dip tb1 = sk_dip tb" "sk_sip tb1 = sk_sip tb" "sk_sport tb1 = sk_sport tb" "sk_dport tb1 = sk_dport tb" "sk_snd_nxt tb1 = sk_snd_nxt tb"
      "\<not> w_dead (sk_wait_send tb1)" "\<forall>n. wide_open tb n \<longrightarrow> wide_open tb1 n"
      "host_handle_packet ia g a1 = Inr a2" "socks a2 ka = Some ta2" "nothing_sent ta2" "same_rx ta ta2" "sk_rcv_wnd ta2 = sk_rcv_wnd ta"
      "tcp_sock_lookup_established (sk_sip ta) (sk_dip ta) (sk_sport ta) (sk_dport ta) a2 = Inr (Some ka)" by blast
  have "serve files True (req @ zeros (2000 - length req)) = Inr (http_answer v h body, True, hh_keep_alive h)"
    using request_answered[where files = files, OF request(1-3) len[unfolded texts] content(1,2) content(3)[unfolded texts]] content(4)
    by (simp add: texts served_def)
  moreover have "resolved b1 (sk_dip tb1) ib mb" "wide_open tb1 (length (http_answer v h body))"
    using server(1,2) net_step_resolved[OF 1(4)] 1(9,15) by (simp_all add: at_rest_def)
  ultimately obtain t1 and s1 :: "'b tcp_net_scheme" and s2 segs ps b2 fins where
    r: "wrote ib mb kb t1 (http_answer v h body) s1 segs ps [] s2" "sk_sip t1 = sk_sip tb1" "sk_dip t1 = sk_dip tb1" "sk_sport t1 = sk_sport tb1"
      "sk_dport t1 = sk_dport tb1" "sk_snd_nxt t1 = sk_snd_nxt tb1" "http_thread files (Serving kb, b1) = Inr (if True \<and> hh_keep_alive h then Serving kb else Ended, b2)"
      "net_step (map (Pair ib) (map (ip_frame ib mb) ps @ fins)) b1 b2" "length fins = (if True \<and> hh_keep_alive h then 0 else 1)"
    using session_answers[OF 1(5,8,7,6) ne _ _ 1(14)] by blast
  have "(True \<and> hh_keep_alive h) = hh_keep_alive h" by simp
  note 2 = r[unfolded this]
  let ?frames = "map (ip_frame ib mb) ps"
  have macs: "length mb = 6" "length (if_mac ib) = 6" using server(1) by (simp_all add: at_rest_def resolved_def)
  have reader: "nothing_sent ta2" "window_told ta2" "sk_rcv_ofo_buf ta2 = []" "rb_inv (sk_rcv_buf ta2)" "contents (sk_rcv_buf ta2) = []"
    "\<not> w_dead (sk_wait_recv ta2)" "sk_rcv_buf ta2 = sk_rcv_buf ta" "sk_rcv_nxt ta2 = sk_snd_nxt t1"
    using client(1) 1(13,18-20) 2(6) ends by (simp_all add: at_rest_def same_rx_def window_told_def two_ends_def)
  have peers: "if_ip ia = sk_dip t1" "tcp_sock_lookup_established (sk_dip t1) (sk_sip t1) (sk_dport t1) (sk_sport t1) a2 = Inr (Some ka)"
    using client(1) 1(9-12,21) 2(2-5) ends by (simp_all add: at_rest_def two_ends_def)
  have room: "length (http_answer v h body) \<le> capacity (sk_rcv_buf ta2)" "capacity (sk_rcv_buf ta2) < 65536" "unat (sk_snd_nxt t1) + length (http_answer v h body) < 4294967296"
    using client(1) size reader(7) 1(13) 2(6) by (simp_all add: at_rest_def)
  have "\<exists>a3 a4. fold_res (host_handle_packet ia) (g # fs) a1 = Inr a3 \<and> tcp_sock_read ka m a3 = Inr (Returned (take m (http_answer v h body)), a4)"
    if "set fs = set ?frames" for fs m
  proof -
    from stream_in_buffer[OF 2(1) macs 1(17) reader(1-6) peers(1) reader(8) peers(2) room that] obtain a3 ta3 where
      3: "fold_res (host_handle_packet ia) fs a2 = Inr a3" "socks a3 ka = Some ta3" "contents (sk_rcv_buf ta3) = http_answer v h body" "rb_inv (sk_rcv_buf ta3)" by blast
    have "\<not> ring_buffer_empty (sk_rcv_buf ta3)" using 3(3) response_not_empty by (simp add: contents_empty)
    then have "\<exists>a4. tcp_sock_read ka m a3 = Inr (Returned (take m (http_answer v h body)), a4)"
      using 3(2) read_ring_buffer_contents(1)[OF 3(4), of m] 3(3) by (auto simp: tcp_sock_read_def with_sock_def split: prod.split)
    with 3(1) 1(16) show ?thesis by simp
  qed
  moreover have "http_step files tsk (HttpFrame ib f) (sessions, b) = Inr (sessions, b1)"
    "http_step files tsk (SessionRuns n) (sessions, b1) = Inr (sessions[n := if hh_keep_alive h then Serving kb else Ended], b2)"
    using 1(3) 2(7) server(3,4) by simp_all
  ultimately show ?thesis using 1(1,2,4) 2(8,9) unfolding net_step_def by blast
qed

text \<open>The example: bytes 1 to 3 of the file \<open>hello\<close>, and the connection closed.\<close>

definition http_client :: tcp_sock where
  "http_client = new_tcp_sock\<lparr>sk_state := TCP_ESTABLISHED, sk_sip := 0x0A000101, sk_dip := 0x0A000102, sk_sport := 12345, sk_dport := 80,
     sk_ref_cnt := 2, sk_snd_una := 1000, sk_snd_nxt := 1000, sk_rcv_nxt := 2000, sk_snd_wnd := 1, sk_adv_wnd := 65535\<rparr>"

definition http_peer :: tcp_sock where
  "http_peer = new_tcp_sock\<lparr>sk_state := TCP_ESTABLISHED, sk_sip := 0x0A000102, sk_dip := 0x0A000101, sk_sport := 80, sk_dport := 12345,
     sk_ref_cnt := 2, sk_snd_una := 2000, sk_snd_nxt := 2000, sk_rcv_nxt := 1000, sk_snd_wnd := 1, sk_adv_wnd := 65535\<rparr>"

lemma new_sock_rest:
  assumes "sk_rcv_buf t = alloc_ring_buffer TCP_DEFAULT_WINDOW" "sk_rcv_wnd t = 65535"
  shows "window_told t" "rb_inv (sk_rcv_buf t)" "contents (sk_rcv_buf t) = []" "capacity (sk_rcv_buf t) = 65535"
proof -
  have "capacity (alloc_ring_buffer TCP_DEFAULT_WINDOW) = 65535" "ring_buffer_free (alloc_ring_buffer TCP_DEFAULT_WINDOW) = 65535"
    "rb_inv (alloc_ring_buffer TCP_DEFAULT_WINDOW)" "contents (alloc_ring_buffer TCP_DEFAULT_WINDOW) = []"
    using rb_inv_alloc[of TCP_DEFAULT_WINDOW] free_used[of "alloc_ring_buffer TCP_DEFAULT_WINDOW"]
      length_contents[of "alloc_ring_buffer TCP_DEFAULT_WINDOW"] by (simp_all add: TCP_DEFAULT_WINDOW_def)
  then show "window_told t" "rb_inv (sk_rcv_buf t)" "contents (sk_rcv_buf t) = []" "capacity (sk_rcv_buf t) = 65535"
    unfolding window_told_def assms by simp_all
qed

lemma http_example_ends:
  "at_rest iface_a (if_mac iface_b) 0 http_client (example_end iface_a 0x0A000102 (if_mac iface_b) http_client)"
  "at_rest iface_b (if_mac iface_a) 0 http_peer (example_end iface_b 0x0A000101 (if_mac iface_a) http_peer)"
  "two_ends http_client http_peer" "capacity (sk_rcv_buf http_client) = 65535" "capacity (sk_rcv_buf http_peer) = 65535"
proof -
  have r: "sk_rcv_buf http_client = alloc_ring_buffer TCP_DEFAULT_WINDOW" "sk_rcv_wnd http_client = 65535"
    "sk_rcv_buf http_peer = alloc_ring_buffer TCP_DEFAULT_WINDOW" "sk_rcv_wnd http_peer = 65535"
    by (simp_all add: http_client_def http_peer_def new_tcp_sock_def)
  note s = new_sock_rest[OF r(1,2)] new_sock_rest[OF r(3,4)]
  have f: "calm http_client" "nothing_sent http_client" "calm http_peer" "nothing_sent http_peer"
    by (simp_all add: calm_def nothing_sent_def http_client_def http_peer_def new_tcp_sock_def)
  show "at_rest iface_a (if_mac iface_b) 0 http_client (example_end iface_a 0x0A000102 (if_mac iface_b) http_client)"
    unfolding at_rest_def using s f
    by (simp add: example_end_def put_sock_def tcp_sock_lookup_established_def with_sock_def resolved_def example_host_def empty_net_def init_tcp_stack_def
        longest_prefix_match_def rt_matches_def new_rt_entry_def arpcache_lookup_def next_hop_def MAX_ARP_SIZE_def)
      (simp add: http_client_def new_tcp_sock_def wait_init_def example_iface_def)
  show "at_rest iface_b (if_mac iface_a) 0 http_peer (example_end iface_b 0x0A000101 (if_mac iface_a) http_peer)"
    unfolding at_rest_def using s f
    by (simp add: example_end_def put_sock_def tcp_sock_lookup_established_def with_sock_def resolved_def example_host_def empty_net_def init_tcp_stack_def
        longest_prefix_match_def rt_matches_def new_rt_entry_def arpcache_lookup_def next_hop_def MAX_ARP_SIZE_def)
      (simp add: http_peer_def new_tcp_sock_def wait_init_def example_iface_def)
  show "two_ends http_client http_peer" by (simp add: two_ends_def http_client_def http_peer_def)
  show "capacity (sk_rcv_buf http_client) = 65535" "capacity (sk_rcv_buf http_peer) = 65535" using s by simp_all
qed

definition example_request :: bytes where
  "example_request = get_request (text_of ''/a'') (text_of ''HTTP/1.1'') [Plain (text_of ''Host: x''), Range 1 (Some 3)] True"

lemma example_request_facts:
  "plain_url (text_of ''/a'')" "plain_version (text_of ''HTTP/1.1'')" "\<forall>h \<in> set [Plain (text_of ''Host: x''), Range 1 (Some 3)]. valid_header h"
  "length example_request \<le> TCP_MSS"
  "example_files (of_char (CHR ''.'') # text_of ''/a'') = Some (text_of ''hello'')" "length (text_of ''hello'') < 2000000000"
  "wanted (request_head True [Plain (text_of ''Host: x''), Range 1 (Some 3)] True) (text_of ''hello'') = Some (text_of ''ell'')"
proof -
  have d: "decimal (Suc 0) = [49]" "decimal 3 = [51]" by (simp_all add: decimal.simps)
  show "plain_url (text_of ''/a'')" "plain_version (text_of ''HTTP/1.1'')" "\<forall>h \<in> set [Plain (text_of ''Host: x''), Range 1 (Some 3)]. valid_header h"
    by (simp_all add: plain_url_def plain_version_def plain_line_def text_of_def SLASH_def SP_def CR_def)
  show "length example_request \<le> TCP_MSS"
    by (simp add: example_request_def TCP_MSS_eq get_request_def text_of_def crlf_def range_line_def connection_line_def d)
  show "example_files (of_char (CHR ''.'') # text_of ''/a'') = Some (text_of ''hello'')" by (simp add: example_files_def text_of_def)
  show "length (text_of ''hello'') < 2000000000" by (simp add: text_of_def)
  show "wanted (request_head True [Plain (text_of ''Host: x''), Range 1 (Some 3)] True) (text_of ''hello'') = Some (text_of ''ell'')"
    by (simp add: wanted_def text_of_def request_head_def range_end_of_def)
qed

lemma example_answer:
  "http_answer (text_of ''HTTP/1.1'') (request_head True [Plain (text_of ''Host: x''), Range 1 (Some 3)] True) (text_of ''ell'') =
    text_of ''HTTP/1.1 206 Partial Content'' @ crlf @ text_of ''Content-Length: 3'' @ crlf @ text_of ''Connection: close'' @ crlf @ crlf @ text_of ''ell''"
  "\<not> hh_keep_alive (request_head True [Plain (text_of ''Host: x''), Range 1 (Some 3)] True)"
  "\<not> open_range (request_head True [Plain (text_of ''Host: x''), Range 1 (Some 3)] True)"
  by (simp_all add: http_answer_def request_head_def range_end_of_def text_of_def crlf_def decimal.simps open_range_def)

theorem http_over_tcp_witness:
  "\<exists>a1 b1 b2 f g frames fin a2 a3.
    tcp_sock_write 0 example_request (example_end iface_a 0x0A000102 (if_mac iface_b) http_client) = Inr ([], a1) \<and>
    http_step example_files 7 (HttpFrame iface_b f) ([Serving 0], example_end iface_b 0x0A000101 (if_mac iface_a) http_peer) = Inr ([Serving 0], b1) \<and>
    http_step example_files 7 (SessionRuns 0) ([Serving 0], b1) = Inr ([Ended], b2) \<and>
    net_sent b2 = (iface_b, g) # map (Pair iface_b) (frames @ [fin]) \<and>
    fold_res (host_handle_packet iface_a) (g # rev frames @ frames) a1 = Inr a2 \<and>
    tcp_sock_read 0 1000 a2 = Inr (Returned (text_of ''HTTP/1.1 206 Partial Content'' @ crlf @ text_of ''Content-Length: 3'' @ crlf @
      text_of ''Connection: close'' @ crlf @ crlf @ text_of ''ell''), a3)"
proof -
  let ?h = "request_head True [Plain (text_of ''Host: x''), Range 1 (Some 3)] True"
  let ?w = "http_answer (text_of ''HTTP/1.1'') ?h (text_of ''ell'')"
  note e = http_example_ends and q = example_request_facts
  have l: "length ?w = 73" unfolding example_answer(1) by (simp add: text_of_def crlf_def)
  have o: "0 < sk_snd_wnd http_client" "wide_open http_peer (length ?w)" "length example_request \<le> capacity (sk_rcv_buf http_peer)"
    "length ?w \<le> capacity (sk_rcv_buf http_client)" "unat (sk_snd_nxt http_peer) + length ?w < 4294967296"
    unfolding l e(4,5) using q(4) by (simp_all add: http_client_def http_peer_def new_tcp_sock_def wide_open_def TCP_MSS_eq)
  have n: "(0 :: nat) < length [Serving 0]" "[Serving 0] ! 0 = Serving 0" by simp_all
  from http_over_tcp[where files = example_files and tsk = 7, OF example_request_def refl e(1) o(1) e(2) o(2) n e(3) q(1-4) o(3) q(5-7) example_answer(3) o(4,5)] obtain a1 b1 b2 f g frames fins where
    1: "tcp_sock_write 0 example_request (example_end iface_a 0x0A000102 (if_mac iface_b) http_client) = Inr ([], a1)"
      "http_step example_files 7 (HttpFrame iface_b f) ([Serving 0], example_end iface_b 0x0A000101 (if_mac iface_a) http_peer) = Inr ([Serving 0], b1)"
      "net_sent b1 = net_sent (example_end iface_b 0x0A000101 (if_mac iface_a) http_peer) @ [(iface_b, g)]"
      "http_step example_files 7 (SessionRuns 0) ([Serving 0], b1) = Inr ([Ended], b2)"
      "net_sent b2 = net_sent b1 @ map (Pair iface_b) (frames @ fins)" "length fins = 1"
      "\<forall>fs m. set fs = set frames \<longrightarrow> (\<exists>a2 a3. fold_res (host_handle_packet iface_a) (g # fs) a1 = Inr a2 \<and>
        tcp_sock_read 0 m a2 = Inr (Returned (take m ?w), a3))"
    using example_answer(2) by (auto simp del: http_step.simps)
  have "set (rev frames @ frames) = set frames" by auto
  with 1(7)[rule_format, of "rev frames @ frames" 1000] obtain a2 a3 where
    2: "fold_res (host_handle_packet iface_a) (g # rev frames @ frames) a1 = Inr a2" "tcp_sock_read 0 1000 a2 = Inr (Returned (take 1000 ?w), a3)" by blast
  obtain fin where fin: "fins = [fin]" using 1(6) by (cases fins) auto
  have "net_sent (example_end iface_b 0x0A000101 (if_mac iface_a) http_peer) = []"
    by (simp add: example_end_def put_sock_def example_host_def empty_net_def init_tcp_stack_def)
  then have "net_sent b2 = (iface_b, g) # map (Pair iface_b) (frames @ [fin])" using 1(3,5) fin by simp
  moreover have "tcp_sock_read 0 1000 a2 = Inr (Returned ?w, a3)" using 2(2) l by simp
  ultimately show ?thesis using 1(1,2,4) 2(1) unfolding example_answer(1) by blast
qed

end
