(* ===== verification/Spec2Isabelle.thy ===== *)
theory Spec2Isabelle
  imports Linked_List Tcp_Locked Http_Listen Http_Stack
begin

text \<open>
  This development models the programs of a network course, all of them in C: a hub and a learning switch (lab 3), a
  spanning tree switch (lab 4), an IP router (lab 6), a link state routing daemon (lab 7), an address translator
  (lab 8), a TCP stack in user space (lab 10 and, with loss recovery and congestion control, lab 12), and HTTP servers
  over sockets (lab 2) and over that stack (lab 13).

  \<^bold>\<open>The programs and their parts.\<close>  Every program but that of lab 2 has the same frame: \<open>init_ustack\<close> finds the interfaces whose name
  contains \<open>-eth\<close>, and \<open>ustack_run\<close> polls them and gives each frame that comes in to \<open>handle_packet\<close>.  The hub sends it to all other
  ports, the switch to the port where it has seen the destination, the spanning tree switch takes only
  configuration messages.  From lab 6 on there are an ARP cache with the packets that wait for an answer, a
  routing table loaded from the kernel, and a thread that sweeps the cache once a second; labs 7 to 13
  link these and add the daemon, the translator or the TCP stack.  The sockets of the stack are shared by the
  thread that receives, the thread of the timers and the threads of the application, which sleep on the wait structures
  of their socket.

  \<^bold>\<open>Values.\<close>  Integers of the code are words of their width; a buffer is the list of its bytes, read and written by
  \<open>ld16\<close>, \<open>st32\<close> and so on in the byte order of the machine (little endian), with \<open>htons\<close> and \<open>htonl\<close> where the code calls them.  The type
  \<open>res\<close> is a sum: \<open>Inl\<close> a fault (a null pointer, an access outside a buffer or after release, an uninitialised
  value, a list node that is not linked, \<open>exit\<close>, a sleep for ever), \<open>Inr\<close> the result.  Sockets live in a store
  indexed by number, so that sharing and release are visible; every other structure is a record that is
  passed and returned.  What comes from outside is an argument: what \<open>poll\<close>, \<open>recvfrom\<close> and the netlink socket report, the
  clock, the random numbers, the files, the answers of the kernel about interfaces, \<open>inet_addr\<close>.  What is sent is
  collected in the order of sending.

  \<^bold>\<open>Threads.\<close>  A thread is the body of its loop.  A run is a list of events: a frame that came in, a pass of a thread, a call of the
  application.  Between two events the locks of the code are free; where a lock is left held (lab 8) or does not cover
  what it should (lab 10), the lock is in the state.  A call that sleeps returns \<open>Blocked\<close>, and is taken up again by
  a later event.  A thread that the frame of a program runs beside its receive loop (the sweeps of the
  switch, of ARP, of spanning tree timers, of the daemon and of the translator) makes any number of passes
  between two rounds of the loop, as the schedule of the run says.  The receiving thread of lab 12 itself sleeps when the ring buffer of a
  socket has no room: it never comes back by itself, so that this is the fault \<open>Sleeps\<close>, and theorems about transfers say
  that what is sent fits or that the run does not sleep.

  \<^bold>\<open>Specifications.\<close>  What a theorem compares the code with is stated without the code's own functions: the fields and the
  sum of a TCP segment (\<open>Tcp_Checksum\<close>), the dump of the kernel with other tables, unknown attributes and
  interfaces of other programs in it (\<open>Rtable\<close>), the answer to a request from the file and the range asked for
  (\<open>Http_Server\<close>), the graph of the announcements with its shortest paths, the entry of the kernel and the neighbour on a
  network (\<open>Mospf_Spf\<close>), and any pieces of a stream of bytes, however they overlap (\<open>Tcp_Reassembly\<close>).

  \<^bold>\<open>Theories.\<close>

  \<^item> \<open>Netlab_Prelude\<close>: faults, bytes, byte order, folds with faults, and the collections of rules the proofs use.
  \<^item> \<open>Linked_List\<close>: \<open>include/list.h\<close>, the intrusive list on a heap of nodes, and that its operations are those on lists.
  \<^item> \<open>Device\<close>, \<open>Device_Setup\<close>: \<open>device_internal.c\<close> and \<open>ustack_run\<close>; the first what happens to frames, the second the start.
  \<^item> \<open>Ether_Switch\<close>: hub and switch (\<open>broadcast.c\<close>, \<open>mac.c\<close>, \<open>include/hash.h\<close>, \<open>main.c\<close> of lab 3).
  \<^item> \<open>Stp\<close>, \<open>Stp_Switch\<close>, \<open>Stp_Network\<close>: \<open>stp.c\<close> and \<open>stp_timer.c\<close> of lab 4; one switch; a network of them with messages in transit.
  \<^item> \<open>Checksum\<close>, \<open>Ip_Header\<close>: \<open>checksum.h\<close>, \<open>ip.h\<close>, \<open>ip_base.c\<close>.  \<open>Tcp_Checksum\<close>: when what \<open>tcp.h\<close> computes is a TCP checksum.
  \<^item> \<open>Rtable\<close>, \<open>Rtable_Load\<close>: \<open>rtable.c\<close>, longest prefix match, and \<open>rtable_internal.c\<close>, the netlink dump.
  \<^item> \<open>Packet_Service\<close>: the interface between a layer that sends and the one below, as a locale.
  \<^item> \<open>Arp_Cache\<close>, \<open>Router\<close>, \<open>Router_Start\<close>: \<open>arp.c\<close>, \<open>arpcache.c\<close>, \<open>ip.c\<close>, \<open>icmp.c\<close> and \<open>main.c\<close> of lab 6.
  \<^item> \<open>Mospf\<close>, \<open>Mospf_Spf\<close>, \<open>Mospf_Flooding\<close>: the files \<open>mospf_*.c\<close> of lab 7; the shortest paths; hello and link state messages.
  \<^item> \<open>Nat_Gateway\<close>, \<open>Nat_Table\<close>, \<open>Nat_Translate\<close>: \<open>nat.c\<close> of lab 8, its table and its rewriting.
  \<^item> \<open>Ring_Buffer\<close>, \<open>Synch_Wait\<close>: \<open>ring_buffer.h\<close> and \<open>synch_wait.h\<close> of lab 12.
  \<^item> \<open>Tcp_Packet\<close>, \<open>Tcp_Sock\<close>, \<open>Tcp_In\<close>: the segments (\<open>tcp.h\<close>, \<open>tcp.c\<close>, \<open>tcp_out.c\<close>), sockets, tables and timers (\<open>tcp_sock.c\<close>,
    \<open>tcp_timer.c\<close>) and the state machine (\<open>tcp_in.c\<close>) of lab 12.  \<open>Tcp_Steps\<close> and \<open>Tcp_Refs\<close> hold the invariant of the store,
    \<open>Tcp_Conn\<close> the handshake, \<open>Tcp_Reassembly\<close> the receiver, \<open>Tcp_Transfer\<close> sender and receiver together, and \<open>Tcp_Apps\<close> the two
    applications of \<open>tcp_apps.c\<close>.
  \<^item> \<open>Tcp_Basic\<close>, \<open>Tcp_Basic_Stream\<close>, \<open>Tcp_Locked\<close>: what lab 10 does differently, its receiver against that of lab 12, and
    the lock around its tables.
  \<^item> \<open>Lab_Mains\<close>: the programs from \<open>main\<close> into the receive loop.
  \<^item> \<open>Http\<close>, \<open>Http_Server\<close>, \<open>Http_Listen\<close>: requests and answers, in \<open>tcp_apps.c\<close> of lab 13 and \<open>http-server.c\<close> of lab 2, and the
    threads that listen in lab 2.
  \<^item> \<open>Tcp_Exchange\<close>, \<open>Http_Stack\<close>: a segment with its acknowledgement between two hosts, and the threads of the server of lab 13 on
    top of it, up to a request that is answered.

  Definitions have the names of the C functions where they can; a part of a long function has a name of its own, and
  the function is composed of its parts as the code is.

  \<^bold>\<open>What the theorems show.\<close>  For each component there are an invariant that every operation and every run keeps (the tables of the
  switch, of ARP, of the translator and of the daemon, the reference counts of the sockets), the result of the operations on each
  branch, and a theorem about the component as a whole: the switch learns and ages; a quiet
  network of switches has a spanning tree; the router forwards along the longest prefix, answers what it cannot
  forward, and gives up what is not answered; the daemon computes shortest paths from what its neighbours announce;
  the translator undoes its own translation; the handshake ends with both sides in agreement; what one
  host writes the other reads, in whatever order the segments come; a file is transferred whole; a request for a file or a closed range of it gets exactly the answer over the stack.  The
  interfaces are locales (a queue, a map that ages, an associative table, a packet service), each proved once and
  interpreted on the definitions of the code.  Where the code does not do what it means to, a theorem says what
  it does instead: after a gap and at the wrap of the sequence numbers, on a packet that leaves the mutex of the
  translator locked, on a switch that hears itself, on ports chosen by two threads at once, on an open range of a file, on
  segments that overlap what was read, among others.

  \<^bold>\<open>Termination and bounds.\<close>  The walks over the linked lists of \<open>Linked_List\<close> carry fuel, since the pointers of a heap may form a
  cycle; the number of nodes of the list is enough, and the theorems about them give that.  No other definition uses fuel.  A loop
  over a list is structural recursion; the others have a
  measure, the bytes or the segments that are left.  A loop that may not end is taken apart into passes, and a run is the
  list of what happens in between; where a theorem says that something is done, it names the events that suffice.  Lengths
  are bounded in the statements where the code has arrays of fixed size or fields of 16 bits.

  \<^bold>\<open>Not modelled.\<close>  Lab 1 is a test program, lab 5 holds scripts and data.  Printing and logging, the log files of
  congestion control, and \<open>malloc\<close> that fails are left out.  Labs 7, 8, 10 and 12 link a compiled library made of files of
  lab 6, which stand in the source of lab 13; the model of these files is that of lab 6.  The stack of lab 13 is a copy of
  that of lab 12 without a log.  The labs have copies of the headers and of \<open>device_internal.c\<close>, which are modelled once.
  The scripts in Python build the networks and are not part of the programs.  Threads are interleaved at their passes
  and, for the lock of lab 10, at its critical sections; data races inside a pass are out of reach of the model.
\<close>

end
